(* ===== verification/Prelude.thy ===== *)
theory Prelude
  imports Main "HOL-Library.Word" "HOL-Library.Monad_Syntax"
begin

text \<open>
  Shared vocabulary of the development: machine integers as words, byte arrays as lists,
  checked indexing (a read outside the array is the value None, so that "no undefined read"
  is a provable statement), the proof collections the component theories extend, and the four
  interfaces that several components implement: a state machine with an invariant, a
  prefix-decodable byte encoding, a decoder of a byte stream that is delivered in chunks, and a
  partial machine that implements an abstract one.
\<close>

unbundle bit_operations_syntax

section \<open>Machine integers and byte arrays\<close>

type_synonym u8 = "8 word"
type_synonym u16 = "16 word"
type_synonym u32 = "32 word"
type_synonym u64 = "64 word"
type_synonym bytes = "u8 list"

named_theorems byte_reads
  \<comment> \<open>facts that evaluate checked reads\<close>
named_theorems inv_intros
  \<comment> \<open>preservation of a component's invariant, one fact per operation\<close>

text \<open>
  Indexing a byte array. Reading past the end is undefined behaviour in the source, so the
  model returns None there and a decoder that could do it would be None as a whole.
\<close>

definition byte_at :: "bytes \<Rightarrow> nat \<Rightarrow> u8 option" where
  "byte_at d i = (if i < length d then Some (d ! i) else None)"

text \<open>The part of a byte array of at most n bytes that starts at position p.\<close>

definition mid :: "'a list \<Rightarrow> nat \<Rightarrow> nat \<Rightarrow> 'a list" where
  "mid d p n = take n (drop p d)"

lemma byte_at_Some [byte_reads]: "i < length d \<Longrightarrow> byte_at d i = Some (d ! i)"
  by (simp add: byte_at_def)

lemma byte_at_append: "i < length d \<Longrightarrow> byte_at (d @ e) i = byte_at d i"
  by (simp add: byte_at_def nth_append)

lemma nth_append_left [byte_reads]: "i < length d \<Longrightarrow> (d @ e) ! i = d ! i"
  by (simp add: nth_append)

lemma byte_at_SomeD: "byte_at d i = Some b \<Longrightarrow> i < length d \<and> b = d ! i"
  by (simp add: byte_at_def split: if_splits)

lemma mid_append [byte_reads]: "p + n \<le> length d \<Longrightarrow> mid (d @ e) p n = mid d p n"
  by (simp add: mid_def)

lemma length_mid [simp]: "length (mid d p n) = min n (length d - p)"
  by (simp add: mid_def min.commute)

subsection \<open>Splitting words into bytes and joining them\<close>

lemma ucast_and_ff [simp]:
  "ucast (x AND 0xff :: u16) = (ucast x :: u8)"
  "ucast (y AND 0xff :: u32) = (ucast y :: u8)"
proof -
  have m: "(0xff :: u16) = mask 8" "(0xff :: u32) = mask 8"
    by (simp_all add: mask_eq_exp_minus_1)
  show "ucast (x AND 0xff :: u16) = (ucast x :: u8)"
    unfolding m by (rule bit_word_eqI) (auto simp: bit_simps)
  show "ucast (y AND 0xff :: u32) = (ucast y :: u8)"
    unfolding m by (rule bit_word_eqI) (auto simp: bit_simps)
qed

lemma join_split16 [simp]:
  "push_bit 8 (ucast (ucast (drop_bit 8 v) :: u8)) OR ucast (ucast v :: u8) = (v :: u16)"
  "ucast (ucast v :: u8) OR push_bit 8 (ucast (ucast (drop_bit 8 v) :: u8)) = (v :: u16)"
  by (rule bit_word_eqI; auto simp: bit_simps)+

lemma split_join16 [simp]:
  "ucast (drop_bit 8 (push_bit 8 (ucast (a :: u8)) OR ucast (b :: u8) :: u16)) = a"
  "ucast (push_bit 8 (ucast (a :: u8)) OR ucast (b :: u8) :: u16) = b"
  "ucast (drop_bit 8 (ucast (b :: u8) OR push_bit 8 (ucast (a :: u8)) :: u16)) = a"
  "ucast (ucast (b :: u8) OR push_bit 8 (ucast (a :: u8)) :: u16) = b"
  by (rule bit_word_eqI; auto simp: bit_simps dest: bit_imp_le_length)+

lemma byte_test_bit [simp]: "(b AND 2 ^ k \<noteq> 0) = bit (b :: u8) k"
  by (metis and_exp_eq_0_iff_not_bit)

lemma byte_mod_2_even: "b mod 2 = 0 \<longleftrightarrow> even (unat (b :: u8))"
proof -
  have "b mod 2 = 0 \<longleftrightarrow> unat (b mod 2) = 0" by (simp add: unat_eq_zero)
  also have "\<dots> \<longleftrightarrow> unat b mod unat (2 :: u8) = 0" by (simp only: unat_mod_distrib)
  finally show ?thesis by (simp add: even_iff_mod_2_eq_zero)
qed

lemma unat_byte_less: "unat (b :: u8) < 256"
  using unsigned_less [of b] by simp

lemma unat_ucast_byte [simp]:
  "unat (ucast (b :: u8) :: u16) = unat b"
  "unat (ucast (b :: u8) :: u32) = unat b"
  "unat (ucast (b :: u8) :: u64) = unat b"
  using unat_byte_less [of b] by (simp_all add: unsigned_ucast_eq take_bit_nat_eq_self)

lemma unat_of_nat_byte: "n < 256 \<Longrightarrow> unat (of_nat n :: u8) = n"
  by (simp add: unat_of_nat)

lemma unat_of_nat_u16: "n < 65536 \<Longrightarrow> unat (of_nat n :: u16) = n"
  by (simp add: unat_of_nat)

subsection \<open>Lists of blocks of equal size\<close>

lemma length_concat_uniform: "(\<And>x. length (f x) = m) \<Longrightarrow> length (concat (map f xs)) = m * length xs"
  by (induction xs) auto

lemma nth_concat_uniform:
  assumes "\<And>x. length (f x) = m" and "n < m * length xs"
  shows "concat (map f xs) ! n = f (xs ! (n div m)) ! (n mod m)"
  using assms(2)
proof (induction xs arbitrary: n)
  case Nil
  then show ?case by simp
next
  case (Cons x xs)
  then have m: "m > 0" by (cases m) auto
  show ?case
  proof (cases "n < m")
    case True
    then show ?thesis using assms(1) by (simp add: nth_append)
  next
    case False
    then have "n div m = Suc ((n - m) div m)" "n mod m = (n - m) mod m"
      using m by (simp_all add: le_div_geq le_mod_geq)
    then show ?thesis using False Cons assms(1) by (simp add: nth_append)
  qed
qed

subsection \<open>Decimal printing\<close>

fun dec_digits :: "nat \<Rightarrow> string" where
  "dec_digits n =
     (if n < 10 then [char_of (48 + n)] else dec_digits (n div 10) @ [char_of (48 + n mod 10)])"

declare dec_digits.simps [simp del]

text \<open>QTimer::start: a negative interval is refused and leaves the timer stopped.\<close>

definition start_timer :: "int \<Rightarrow> int option" where
  "start_timer ms = (if ms < 0 then None else Some ms)"

section \<open>Interfaces\<close>

text \<open>
  A state machine with an invariant: the initial states satisfy it, every step keeps it. The
  reachable states are those of a run; the client gets the invariant at the end of every run.
\<close>

fun run_steps :: "('s \<Rightarrow> 'e \<Rightarrow> 's) \<Rightarrow> 's \<Rightarrow> 'e list \<Rightarrow> 's" where
  "run_steps stp s [] = s"
| "run_steps stp s (e # es) = run_steps stp (stp s e) es"

lemma run_steps_append: "run_steps stp s (es @ fs) = run_steps stp (run_steps stp s es) fs"
  by (induction es arbitrary: s) auto

lemma run_steps_fixed: "(\<And>e. e \<in> set es \<Longrightarrow> stp s e = s) \<Longrightarrow> run_steps stp s es = s"
  by (induction es) auto

locale invariant_machine =
  fixes stp :: "'s \<Rightarrow> 'e \<Rightarrow> 's"
    and inv :: "'s \<Rightarrow> bool"
  assumes stp_inv: "inv s \<Longrightarrow> inv (stp s e)"
begin

lemma run_inv: "inv s \<Longrightarrow> inv (run_steps stp s es)"
  by (induction es arbitrary: s) (auto intro: stp_inv)

end

text \<open>
  A machine whose invariant needs a condition on the events: allowed says in which states an event may
  occur, and the invariant holds at the end of every run whose events are allowed when they occur.
\<close>

fun run_allowed :: "('s \<Rightarrow> 'e \<Rightarrow> 's) \<Rightarrow> ('s \<Rightarrow> 'e \<Rightarrow> bool) \<Rightarrow> 's \<Rightarrow> 'e list \<Rightarrow> bool" where
  "run_allowed stp allowed s [] = True"
| "run_allowed stp allowed s (e # es) = (allowed s e \<and> run_allowed stp allowed (stp s e) es)"

locale guarded_machine =
  fixes stp :: "'s \<Rightarrow> 'e \<Rightarrow> 's"
    and inv :: "'s \<Rightarrow> bool"
    and allowed :: "'s \<Rightarrow> 'e \<Rightarrow> bool"
  assumes allowed_inv: "inv s \<Longrightarrow> allowed s e \<Longrightarrow> inv (stp s e)"
begin

lemma allowed_run_inv: "inv s \<Longrightarrow> run_allowed stp allowed s es \<Longrightarrow> inv (run_steps stp s es)"
  by (induction es arbitrary: s) (auto intro: allowed_inv)

end

text \<open>
  A byte encoding that can be decoded from the front of a longer array: decoding returns the
  value and the number of bytes it took.
\<close>

locale prefix_code =
  fixes enc :: "'a \<Rightarrow> bytes"
    and dec :: "bytes \<Rightarrow> ('a \<times> nat) option"
  assumes dec_enc: "dec (enc x @ rest) = Some (x, length (enc x))"
begin

lemma enc_inj: "enc x = enc y \<Longrightarrow> x = y"
  using dec_enc [of x "[]"] dec_enc [of y "[]"] by auto

lemma enc_prefix_free: "enc x @ r = enc y @ s \<Longrightarrow> x = y \<and> r = s"
  using dec_enc [of x r] dec_enc [of y s] by auto

lemma concat_enc_inj: "length xs = length ys \<Longrightarrow> concat (map enc xs) = concat (map enc ys) \<Longrightarrow> xs = ys"
proof (induction xs ys rule: list_induct2)
  case Nil
  then show ?case by simp
next
  case (Cons x xs y ys)
  then show ?case using enc_prefix_free [of x "concat (map enc xs)" y "concat (map enc ys)"]
    by auto
qed

end

text \<open>
  A decoder of one frame from the front of a growing buffer. It never reads outside the buffer,
  and once it has an answer more bytes do not change it. A socket delivers a frame in arbitrary
  chunks; the receiving loop appends each chunk and tries to decode.
\<close>

fun receive :: "(bytes \<Rightarrow> 'r option) \<Rightarrow> ('r \<Rightarrow> bool) \<Rightarrow> bytes \<Rightarrow> bytes list \<Rightarrow> 'r option" where
  "receive dec incomplete buf [] = None"
| "receive dec incomplete buf (c # cs) =
     (case dec (buf @ c) of
        None \<Rightarrow> None
      | Some r \<Rightarrow> if incomplete r then receive dec incomplete (buf @ c) cs else Some r)"

locale stream_decoder =
  fixes dec :: "bytes \<Rightarrow> 'r option"
    and incomplete :: "'r \<Rightarrow> bool"
  assumes dec_total: "\<exists>r. dec d = Some r"
    and dec_stable: "dec d = Some r \<Longrightarrow> \<not> incomplete r \<Longrightarrow> dec (d @ e) = Some r"
begin

lemma dec_not_None [simp]: "dec d \<noteq> None"
  using dec_total [of d] by auto

text \<open>Fragmentation does not matter: any chunking of a stream that decodes gives the same answer.\<close>

lemma receive_chunks:
  assumes "dec (buf @ concat cs) = Some r" and "\<not> incomplete r" and "cs \<noteq> []"
  shows "receive dec incomplete buf cs = Some r"
  using assms
proof (induction cs arbitrary: buf)
  case Nil
  then show ?case by simp
next
  case (Cons c cs)
  obtain r' where r': "dec (buf @ c) = Some r'" using dec_total by blast
  show ?case
  proof (cases "incomplete r'")
    case True
    have "cs \<noteq> []" using True r' Cons.prems by auto
    moreover have "dec ((buf @ c) @ concat cs) = Some r" using Cons.prems by simp
    ultimately have "receive dec incomplete (buf @ c) cs = Some r"
      using Cons.IH Cons.prems(2) by blast
    then show ?thesis using r' True by simp
  next
    case False
    have "dec ((buf @ c) @ concat cs) = Some r'" using r' False by (rule dec_stable)
    then have "r' = r" using Cons.prems by simp
    then show ?thesis using r' False by simp
  qed
qed

text \<open>And a stream whose every prefix is undecided produces no answer yet.\<close>

lemma receive_waits:
  assumes "dec (buf @ concat cs) = Some r" and "incomplete r"
  shows "receive dec incomplete buf cs = None"
  using assms
proof (induction cs arbitrary: buf)
  case Nil
  then show ?case by simp
next
  case (Cons c cs)
  obtain r' where r': "dec (buf @ c) = Some r'" using dec_total by blast
  have "incomplete r'"
  proof (rule ccontr)
    assume "\<not> incomplete r'"
    with r' have "dec ((buf @ c) @ concat cs) = Some r'" by (rule dec_stable)
    with Cons.prems \<open>\<not> incomplete r'\<close> show False by simp
  qed
  moreover have "receive dec incomplete (buf @ c) cs = None"
    using Cons.IH [of "buf @ c"] Cons.prems by simp
  ultimately show ?case using r' by simp
qed

end

text \<open>A loop over the values of an array that threads a state and may fail to return.\<close>

fun loopM :: "('x \<Rightarrow> 's \<Rightarrow> 's option) \<Rightarrow> 'x list \<Rightarrow> 's \<Rightarrow> 's option" where
  "loopM f [] s = Some s"
| "loopM f (x # xs) s = (case f x s of None \<Rightarrow> None | Some s' \<Rightarrow> loopM f xs s')"

lemma loopM_mono [partial_function_mono]:
  assumes "\<And>x s. mono_option (\<lambda>g. F g x s)"
  shows "mono_option (\<lambda>g. loopM (F g) xs s)"
proof (induction xs arbitrary: s)
  case Nil
  show ?case by (simp add: monotone_def flat_ord_def fun_ord_def)
next
  case (Cons x xs)
  have "mono_option (\<lambda>g. Option.bind (F g x s) (\<lambda>s'. loopM (F g) xs s'))"
    by (intro bind_mono assms Cons)
  moreover have "loopM (F g) (x # xs) s = Option.bind (F g x s) (\<lambda>s'. loopM (F g) xs s')" for g
    by (simp split: option.split)
  ultimately show ?case by simp
qed

text \<open>
  A partial machine that implements an abstract one: related states stay related and, for the
  permitted operations, the machine always answers.
\<close>

locale simulation =
  fixes stp :: "'s \<Rightarrow> 'e \<Rightarrow> 's option"
    and astp :: "'a \<Rightarrow> 'e \<Rightarrow> 'a"
    and rel :: "'s \<Rightarrow> 'a \<Rightarrow> bool"
    and permitted :: "'e \<Rightarrow> bool"
  assumes sim: "rel s a \<Longrightarrow> permitted e \<Longrightarrow> \<exists>s'. stp s e = Some s' \<and> rel s' (astp a e)"
begin

lemma run_sim:
  "rel s a \<Longrightarrow> \<forall>e \<in> set es. permitted e \<Longrightarrow>
     \<exists>s'. loopM (\<lambda>e s. stp s e) es s = Some s' \<and> rel s' (fold (\<lambda>e a. astp a e) es a)"
proof (induction es arbitrary: s a)
  case Nil
  then show ?case by simp
next
  case (Cons e es)
  have "permitted e" using Cons.prems by simp
  from sim [OF Cons.prems(1) this] obtain s' where "stp s e = Some s'" "rel s' (astp a e)" by blast
  then show ?case using Cons by simp
qed

end

end
