(* ===== verification/Connection_State.thy ===== *)
theory Connection_State
  imports Prelude
begin

text \<open>
  The connection state machine of src/core/connection_state.\{h,cpp\}: connect, disconnect,
  heartbeat and automatic reconnect with a backoff ladder.

  The application's callables (connect, probe, disconnect) and the slots connected to the two
  signals act on a world 'w of their own; they are fields of the state, so every operation below is a
  function from state to state. Besides changing the world a connect callable can call back into the
  object: a socket may signal an error from within its connectToHost, and the slot of that signal calls
  reportPendingConnectResult(false) before the callable has returned. The first of the two flags a connect
  callable answers says whether this has happened, the second is its return value. A timer field holds the
  interval of the last start() and None after stop(); the event loop delivers a tick only while the
  timer is armed, and a single-shot timer is disarmed when it fires. The field emitted is the
  sequence of signals sent so far. The failure count is a 32-bit int; incrementing the largest value, which
  C++ leaves undefined, wraps around in the model.
\<close>

section \<open>State\<close>

type_synonym 'w connect_fn = "'w \<Rightarrow> (bool \<times> bool) \<times> 'w"

datatype cs_signal = ConnectionStateChanged bool | ReconnectingChanged bool

record 'w connection_state =
  m_connect :: "'w connect_fn option"
  m_probe :: "('w \<Rightarrow> bool \<times> 'w) option"
  m_disconnect :: "('w \<Rightarrow> 'w) option"
  m_connected :: bool
  m_reconnecting :: bool
  m_asyncResult :: bool
  m_awaitingAsyncResult :: bool
  m_asyncAutoRetryOnFailure :: bool
  m_reconnectFailures :: "32 word"
  m_heartbeatIntervalMs :: int
  m_heartbeatTimer :: "int option"
  m_reconnectTimer :: "int option"
  onStateChanged :: "bool \<Rightarrow> 'w \<Rightarrow> 'w"
  onReconnectingChanged :: "bool \<Rightarrow> 'w \<Rightarrow> 'w"
  emitted :: "cs_signal list"
  world :: 'w

section \<open>The backoff ladder\<close>

definition kReconnectDelaysMs :: "int list" where
  "kReconnectDelaysMs = [5000, 5000, 5000, 15000, 15000, 30000, 60000]"

definition kReconnectDelayCount :: int where
  "kReconnectDelayCount = int (length kReconnectDelaysMs)"

definition reconnectDelayMs :: "int \<Rightarrow> int" where
  "reconnectDelayMs consecutiveFailures =
     (if consecutiveFailures < 0 then kReconnectDelaysMs ! 0
      else if consecutiveFailures \<ge> kReconnectDelayCount
           then kReconnectDelaysMs ! nat (kReconnectDelayCount - 1)
      else kReconnectDelaysMs ! nat consecutiveFailures)"

section \<open>Operations\<close>

text \<open>The constructor, with the header's member initialisers; the slots are connected by the owner.\<close>

definition newConnectionState ::
  "(bool \<Rightarrow> 'w \<Rightarrow> 'w) \<Rightarrow> (bool \<Rightarrow> 'w \<Rightarrow> 'w) \<Rightarrow> 'w \<Rightarrow> 'w connection_state" where
  "newConnectionState onState onReconn w =
     \<lparr>m_connect = None, m_probe = None, m_disconnect = None, m_connected = False,
      m_reconnecting = False, m_asyncResult = False, m_awaitingAsyncResult = False,
      m_asyncAutoRetryOnFailure = False, m_reconnectFailures = 0, m_heartbeatIntervalMs = 5000,
      m_heartbeatTimer = None, m_reconnectTimer = None, onStateChanged = onState,
      onReconnectingChanged = onReconn, emitted = [], world = w\<rparr>"

definition setConnected :: "bool \<Rightarrow> 'w connection_state \<Rightarrow> 'w connection_state" where
  "setConnected connected s =
     (if connected = m_connected s then s
      else s\<lparr>m_connected := connected,
             emitted := emitted s @ [ConnectionStateChanged connected],
             world := onStateChanged s connected (world s)\<rparr>)"

definition setReconnecting :: "bool \<Rightarrow> 'w connection_state \<Rightarrow> 'w connection_state" where
  "setReconnecting reconnecting s =
     (if reconnecting = m_reconnecting s then s
      else s\<lparr>m_reconnecting := reconnecting,
             emitted := emitted s @ [ReconnectingChanged reconnecting],
             world := onReconnectingChanged s reconnecting (world s)\<rparr>)"

definition startReconnecting :: "'w connection_state \<Rightarrow> 'w connection_state" where
  "startReconnecting s0 =
     (let s1 = setReconnecting True s0;
          s2 = s1\<lparr>m_reconnectFailures := 0\<rparr>
      in s2\<lparr>m_reconnectTimer := Some (reconnectDelayMs (sint (m_reconnectFailures s2)))\<rparr>)"

definition stopReconnecting :: "'w connection_state \<Rightarrow> 'w connection_state" where
  "stopReconnecting s =
     setReconnecting False (s\<lparr>m_reconnectTimer := None, m_reconnectFailures := 0\<rparr>)"

definition setHandlers ::
  "'w connect_fn option \<Rightarrow> ('w \<Rightarrow> bool \<times> 'w) option \<Rightarrow> ('w \<Rightarrow> 'w) option \<Rightarrow> bool
   \<Rightarrow> 'w connection_state \<Rightarrow> 'w connection_state" where
  "setHandlers connectFn probeFn disconnectFn asyncResult s =
     s\<lparr>m_connect := connectFn, m_probe := probeFn, m_disconnect := disconnectFn,
       m_asyncResult := asyncResult, m_awaitingAsyncResult := False,
       m_asyncAutoRetryOnFailure := False\<rparr>"

text \<open>The heartbeat timer is started on every successful connect, unless probing is disabled.\<close>

definition armHeartbeat :: "'w connection_state \<Rightarrow> 'w connection_state" where
  "armHeartbeat s =
     (if m_heartbeatIntervalMs s > 0
      then s\<lparr>m_heartbeatTimer := Some (m_heartbeatIntervalMs s)\<rparr> else s)"

text \<open>A failed attempt of the loop: count it and arm the next rung.\<close>

definition armNextRung :: "'w connection_state \<Rightarrow> 'w connection_state" where
  "armNextRung s0 =
     (let s = s0\<lparr>m_reconnectFailures := m_reconnectFailures s0 + 1\<rparr>
      in s\<lparr>m_reconnectTimer := Some (reconnectDelayMs (sint (m_reconnectFailures s)))\<rparr>)"

definition reportPendingConnectResult :: "bool \<Rightarrow> 'w connection_state \<Rightarrow> 'w connection_state" where
  "reportPendingConnectResult succeeded s0 =
     (if \<not> m_asyncResult s0 \<or> \<not> m_awaitingAsyncResult s0 then s0
      else (let s = s0\<lparr>m_awaitingAsyncResult := False\<rparr>
            in if succeeded then armHeartbeat (setConnected True (stopReconnecting s))
               else (let s = setConnected False s
                     in if \<not> m_asyncAutoRetryOnFailure s then s
                        else if m_reconnecting s then armNextRung s
                        else startReconnecting s)))"

text \<open>The call of the connect callable, with the report it may make from within.\<close>

definition callConnect :: "'w connect_fn \<Rightarrow> 'w connection_state \<Rightarrow> bool \<times> 'w connection_state" where
  "callConnect f s0 =
     (let ((failedWithin, started), w) = f (world s0);
          s = s0\<lparr>world := w\<rparr>
      in (started, if failedWithin then reportPendingConnectResult False s else s))"

definition connectNow :: "'w connection_state \<Rightarrow> bool \<times> 'w connection_state" where
  "connectNow s0 =
     (let s = stopReconnecting s0
      in case m_connect s of
           None \<Rightarrow> (False, s)
         | Some f \<Rightarrow>
             (let (started, s) = callConnect f s
              in if m_asyncResult s
                 then (let s = s\<lparr>m_awaitingAsyncResult := started,
                                 m_asyncAutoRetryOnFailure := False\<rparr>
                       in (started, if started then s else setConnected False s))
                 else (let s = setConnected started s
                       in (started, if started then armHeartbeat s else s))))"

definition beginAutoConnect :: "'w connection_state \<Rightarrow> 'w connection_state" where
  "beginAutoConnect s0 =
     (let s = stopReconnecting s0
      in case m_connect s of
           None \<Rightarrow> startReconnecting s
         | Some f \<Rightarrow>
             (let (started, s) = callConnect f s
              in if m_asyncResult s
                 then (let s = s\<lparr>m_awaitingAsyncResult := started,
                                 m_asyncAutoRetryOnFailure := True\<rparr>
                       in if started then s else startReconnecting (setConnected False s))
                 else (let s = setConnected started s
                       in if started then armHeartbeat s else startReconnecting s)))"

definition disconnectNow :: "'w connection_state \<Rightarrow> 'w connection_state" where
  "disconnectNow s0 =
     (let s = stopReconnecting (s0\<lparr>m_heartbeatTimer := None\<rparr>);
          s = s\<lparr>m_awaitingAsyncResult := False, m_asyncAutoRetryOnFailure := False\<rparr>;
          s = (case m_disconnect s of None \<Rightarrow> s | Some f \<Rightarrow> s\<lparr>world := f (world s)\<rparr>)
      in setConnected False s)"

definition setHeartbeatIntervalMs :: "int \<Rightarrow> 'w connection_state \<Rightarrow> 'w connection_state" where
  "setHeartbeatIntervalMs intervalMs s0 =
     (let s = s0\<lparr>m_heartbeatIntervalMs := intervalMs\<rparr>
      in if intervalMs \<le> 0 then s\<lparr>m_heartbeatTimer := None\<rparr>
         else if m_connected s then s\<lparr>m_heartbeatTimer := Some intervalMs\<rparr>
         else s)"

definition onHeartbeatTick :: "'w connection_state \<Rightarrow> 'w connection_state" where
  "onHeartbeatTick s0 =
     (case m_probe s0 of
        None \<Rightarrow> s0
      | Some f \<Rightarrow>
          (let (alive, w) = f (world s0);
               s = s0\<lparr>world := w\<rparr>
           in if alive then s
              else startReconnecting (setConnected False (s\<lparr>m_heartbeatTimer := None\<rparr>))))"

definition onReconnectTick :: "'w connection_state \<Rightarrow> 'w connection_state" where
  "onReconnectTick s0 =
     (let s = (case m_disconnect s0 of None \<Rightarrow> s0 | Some f \<Rightarrow> s0\<lparr>world := f (world s0)\<rparr>)
      in case m_connect s of
           None \<Rightarrow> armNextRung s
         | Some f \<Rightarrow>
             (let (started, s) = callConnect f s
              in if m_asyncResult s
                 then (let s = s\<lparr>m_awaitingAsyncResult := started,
                                 m_asyncAutoRetryOnFailure := True\<rparr>
                       in if started then s else armNextRung s)
                 else if started then armHeartbeat (setConnected True (stopReconnecting s))
                 else armNextRung s))"

section \<open>Events: calls of the owner, timer ticks, and whatever the world does in between\<close>

text \<open>
  SetHandlers is a call of setHandlers alone; Configure is the way every driver of the repository uses
  it: setHandlers with a connect callable, and at once beginAutoConnect. A tick of a timer that is not armed is not delivered; the
  reconnect timer is single-shot.
\<close>

datatype 'w cs_event =
    SetHandlers "'w connect_fn option" "('w \<Rightarrow> bool \<times> 'w) option" "('w \<Rightarrow> 'w) option" bool
  | Configure "'w connect_fn" "('w \<Rightarrow> bool \<times> 'w) option" "('w \<Rightarrow> 'w) option" bool
  | ConnectNow | BeginAutoConnect | DisconnectNow
  | SetHeartbeatIntervalMs int
  | ReportPending bool
  | HeartbeatTick | ReconnectTick
  | World "'w \<Rightarrow> 'w"

fun cs_step :: "'w connection_state \<Rightarrow> 'w cs_event \<Rightarrow> 'w connection_state" where
  "cs_step s (SetHandlers c p d asy) = setHandlers c p d asy s"
| "cs_step s (Configure c p d asy) = beginAutoConnect (setHandlers (Some c) p d asy s)"
| "cs_step s ConnectNow = snd (connectNow s)"
| "cs_step s BeginAutoConnect = beginAutoConnect s"
| "cs_step s DisconnectNow = disconnectNow s"
| "cs_step s (SetHeartbeatIntervalMs i) = setHeartbeatIntervalMs i s"
| "cs_step s (ReportPending b) = reportPendingConnectResult b s"
| "cs_step s HeartbeatTick =
     (case m_heartbeatTimer s of None \<Rightarrow> s | Some _ \<Rightarrow> onHeartbeatTick s)"
| "cs_step s ReconnectTick =
     (case m_reconnectTimer s of
        None \<Rightarrow> s
      | Some _ \<Rightarrow> onReconnectTick (s\<lparr>m_reconnectTimer := None\<rparr>))"
| "cs_step s (World f) = s\<lparr>world := f (world s)\<rparr>"

lemmas cs_helper_defs =
  setConnected_def setReconnecting_def startReconnecting_def stopReconnecting_def
  armHeartbeat_def armNextRung_def setHandlers_def

lemmas cs_op_defs =
  connectNow_def beginAutoConnect_def disconnectNow_def setHeartbeatIntervalMs_def
  onHeartbeatTick_def onReconnectTick_def reportPendingConnectResult_def

section \<open>Invariants\<close>

text \<open>
  The reconnect timer is armed only inside the reconnect loop, with the rung of the current
  failure count; outside the loop the count is zero; a loop with no timer has an asynchronous
  attempt in flight that will retry on failure; a connected object is not reconnecting and, unless
  probing is disabled, its heartbeat is armed.
\<close>

definition cs_rung_ok :: "'w connection_state \<Rightarrow> bool" where
  "cs_rung_ok s \<longleftrightarrow>
     (\<forall>d. m_reconnectTimer s = Some d
          \<longrightarrow> m_reconnecting s \<and> d = reconnectDelayMs (sint (m_reconnectFailures s)))
   \<and> (\<not> m_reconnecting s \<longrightarrow> m_reconnectFailures s = 0)"

definition cs_loop_ok :: "'w connection_state \<Rightarrow> bool" where
  "cs_loop_ok s \<longleftrightarrow> cs_rung_ok s
   \<and> (m_reconnecting s \<and> m_reconnectTimer s = None
          \<longrightarrow> m_asyncResult s \<and> m_awaitingAsyncResult s \<and> m_asyncAutoRetryOnFailure s)"

definition cs_live_ok :: "'w connection_state \<Rightarrow> bool" where
  "cs_live_ok s \<longleftrightarrow>
     (m_connected s \<longrightarrow> m_connect s \<noteq> None \<and> \<not> m_reconnecting s)
   \<and> (m_awaitingAsyncResult s \<longrightarrow> m_connect s \<noteq> None)
   \<and> (m_connected s \<and> m_heartbeatIntervalMs s > 0
          \<longrightarrow> m_heartbeatTimer s = Some (m_heartbeatIntervalMs s))
   \<and> (\<forall>i. m_heartbeatTimer s = Some i \<longrightarrow> i > 0)"

text \<open>The values sent by one signal, in order, and the rule that they alternate.\<close>

fun state_values :: "cs_signal list \<Rightarrow> bool list" where
  "state_values [] = []"
| "state_values (ConnectionStateChanged b # ss) = b # state_values ss"
| "state_values (ReconnectingChanged b # ss) = state_values ss"

fun reconnecting_values :: "cs_signal list \<Rightarrow> bool list" where
  "reconnecting_values [] = []"
| "reconnecting_values (ConnectionStateChanged b # ss) = reconnecting_values ss"
| "reconnecting_values (ReconnectingChanged b # ss) = b # reconnecting_values ss"

fun alternates :: "bool \<Rightarrow> bool list \<Rightarrow> bool" where
  "alternates cur [] = True"
| "alternates cur (b # bs) = (b \<noteq> cur \<and> alternates b bs)"

definition cs_signals_ok :: "'w connection_state \<Rightarrow> bool" where
  "cs_signals_ok s \<longleftrightarrow>
     alternates False (state_values (emitted s))
   \<and> last (False # state_values (emitted s)) = m_connected s
   \<and> alternates False (reconnecting_values (emitted s))
   \<and> last (False # reconnecting_values (emitted s)) = m_reconnecting s"

definition cs_inv :: "'w connection_state \<Rightarrow> bool" where
  "cs_inv s \<longleftrightarrow> cs_loop_ok s \<and> cs_live_ok s \<and> cs_signals_ok s"

section \<open>Lemmas\<close>

lemma state_values_append [simp]: "state_values (xs @ ys) = state_values xs @ state_values ys"
  by (induction xs rule: state_values.induct) auto

lemma reconnecting_values_append [simp]:
  "reconnecting_values (xs @ ys) = reconnecting_values xs @ reconnecting_values ys"
  by (induction xs rule: reconnecting_values.induct) auto

lemma alternates_snoc [simp]:
  "alternates c (bs @ [b]) \<longleftrightarrow> alternates c bs \<and> b \<noteq> last (c # bs)"
  by (induction c bs rule: alternates.induct) auto

lemma last_Cons_snoc [simp]: "last (c # xs @ [b]) = b"
  by simp

text \<open>The signal discipline is kept by every operation because only the two setters emit.\<close>

lemma setConnected_signals [inv_intros]: "cs_signals_ok s \<Longrightarrow> cs_signals_ok (setConnected b s)"
  by (auto simp: cs_signals_ok_def setConnected_def)

lemma setReconnecting_signals [inv_intros]:
  "cs_signals_ok s \<Longrightarrow> cs_signals_ok (setReconnecting b s)"
  by (auto simp: cs_signals_ok_def setReconnecting_def)

lemma signals_frame [simp]:
  "cs_signals_ok (s\<lparr>world := w\<rparr>) = cs_signals_ok s"
  "cs_signals_ok (s\<lparr>m_reconnectTimer := t\<rparr>) = cs_signals_ok s"
  "cs_signals_ok (s\<lparr>m_heartbeatTimer := t\<rparr>) = cs_signals_ok s"
  "cs_signals_ok (s\<lparr>m_reconnectFailures := n\<rparr>) = cs_signals_ok s"
  "cs_signals_ok (s\<lparr>m_heartbeatIntervalMs := i\<rparr>) = cs_signals_ok s"
  "cs_signals_ok (s\<lparr>m_awaitingAsyncResult := b\<rparr>) = cs_signals_ok s"
  "cs_signals_ok (s\<lparr>m_asyncAutoRetryOnFailure := b\<rparr>) = cs_signals_ok s"
  "cs_signals_ok (s\<lparr>m_asyncResult := b\<rparr>) = cs_signals_ok s"
  "cs_signals_ok (s\<lparr>m_connect := c\<rparr>) = cs_signals_ok s"
  "cs_signals_ok (s\<lparr>m_probe := p\<rparr>) = cs_signals_ok s"
  "cs_signals_ok (s\<lparr>m_disconnect := d\<rparr>) = cs_signals_ok s"
  by (simp_all add: cs_signals_ok_def)

lemma helper_signals [inv_intros]:
  "cs_signals_ok s \<Longrightarrow> cs_signals_ok (startReconnecting s)"
  "cs_signals_ok s \<Longrightarrow> cs_signals_ok (stopReconnecting s)"
  "cs_signals_ok s \<Longrightarrow> cs_signals_ok (armHeartbeat s)"
  "cs_signals_ok s \<Longrightarrow> cs_signals_ok (armNextRung s)"
  by (simp_all add: startReconnecting_def stopReconnecting_def armHeartbeat_def armNextRung_def
      Let_def inv_intros)

lemma reportPending_signals [inv_intros]:
  "cs_signals_ok s \<Longrightarrow> cs_signals_ok (reportPendingConnectResult b s)"
  by (simp add: reportPendingConnectResult_def Let_def inv_intros)

text \<open>What the call of the connect callable leaves behind.\<close>

lemma callConnect_result:
  assumes "callConnect f s = (started, s')"
  obtains w where "s' = s\<lparr>world := w\<rparr>" | w where "s' = reportPendingConnectResult False (s\<lparr>world := w\<rparr>)"
  using assms by (auto simp: callConnect_def Let_def split: prod.splits if_splits)

lemma callConnect_signals [inv_intros]: "cs_signals_ok s \<Longrightarrow> cs_signals_ok (snd (callConnect f s))"
  by (simp add: callConnect_def Let_def inv_intros case_prod_beta)

lemma cs_step_signals: "cs_signals_ok s \<Longrightarrow> cs_signals_ok (cs_step s e)"
  by (cases e) (auto simp: cs_op_defs setHandlers_def Let_def inv_intros case_prod_beta split: option.splits)


lemma reconnectDelayMs_0: "reconnectDelayMs 0 = 5000"
  by (simp add: reconnectDelayMs_def kReconnectDelaysMs_def kReconnectDelayCount_def)

text \<open>The loop invariant, operation by operation: the helpers first.\<close>

lemma stopReconnecting_fields [simp]:
  "m_reconnecting (stopReconnecting s) = False"
  "m_reconnectTimer (stopReconnecting s) = None"
  "m_reconnectFailures (stopReconnecting s) = 0"
  "m_connected (stopReconnecting s) = m_connected s"
  "m_connect (stopReconnecting s) = m_connect s"
  "m_disconnect (stopReconnecting s) = m_disconnect s"
  "m_asyncResult (stopReconnecting s) = m_asyncResult s"
  "m_awaitingAsyncResult (stopReconnecting s) = m_awaitingAsyncResult s"
  "m_asyncAutoRetryOnFailure (stopReconnecting s) = m_asyncAutoRetryOnFailure s"
  "m_heartbeatTimer (stopReconnecting s) = m_heartbeatTimer s"
  "m_heartbeatIntervalMs (stopReconnecting s) = m_heartbeatIntervalMs s"
  by (simp_all add: stopReconnecting_def setReconnecting_def)

lemma startReconnecting_fields [simp]:
  "m_reconnecting (startReconnecting s) = True"
  "m_reconnectTimer (startReconnecting s) = Some 5000"
  "m_reconnectFailures (startReconnecting s) = 0"
  "m_connected (startReconnecting s) = m_connected s"
  "m_connect (startReconnecting s) = m_connect s"
  "m_asyncResult (startReconnecting s) = m_asyncResult s"
  "m_awaitingAsyncResult (startReconnecting s) = m_awaitingAsyncResult s"
  "m_asyncAutoRetryOnFailure (startReconnecting s) = m_asyncAutoRetryOnFailure s"
  "m_heartbeatTimer (startReconnecting s) = m_heartbeatTimer s"
  "m_heartbeatIntervalMs (startReconnecting s) = m_heartbeatIntervalMs s"
  by (simp_all add: startReconnecting_def setReconnecting_def Let_def reconnectDelayMs_0)

lemma setConnected_fields [simp]:
  "m_connected (setConnected b s) = b"
  "m_reconnecting (setConnected b s) = m_reconnecting s"
  "m_reconnectTimer (setConnected b s) = m_reconnectTimer s"
  "m_reconnectFailures (setConnected b s) = m_reconnectFailures s"
  "m_connect (setConnected b s) = m_connect s"
  "m_asyncResult (setConnected b s) = m_asyncResult s"
  "m_awaitingAsyncResult (setConnected b s) = m_awaitingAsyncResult s"
  "m_asyncAutoRetryOnFailure (setConnected b s) = m_asyncAutoRetryOnFailure s"
  "m_heartbeatTimer (setConnected b s) = m_heartbeatTimer s"
  "m_heartbeatIntervalMs (setConnected b s) = m_heartbeatIntervalMs s"
  by (simp_all add: setConnected_def)

lemma armHeartbeat_fields [simp]:
  "m_connected (armHeartbeat s) = m_connected s"
  "m_reconnecting (armHeartbeat s) = m_reconnecting s"
  "m_reconnectTimer (armHeartbeat s) = m_reconnectTimer s"
  "m_reconnectFailures (armHeartbeat s) = m_reconnectFailures s"
  "m_connect (armHeartbeat s) = m_connect s"
  "m_asyncResult (armHeartbeat s) = m_asyncResult s"
  "m_awaitingAsyncResult (armHeartbeat s) = m_awaitingAsyncResult s"
  "m_heartbeatTimer (armHeartbeat s) =
     (if m_heartbeatIntervalMs s > 0 then Some (m_heartbeatIntervalMs s) else m_heartbeatTimer s)"
  "m_heartbeatIntervalMs (armHeartbeat s) = m_heartbeatIntervalMs s"
  by (simp_all add: armHeartbeat_def)

lemma armNextRung_fields [simp]:
  "m_connected (armNextRung s) = m_connected s"
  "m_reconnecting (armNextRung s) = m_reconnecting s"
  "m_reconnectTimer (armNextRung s) = Some (reconnectDelayMs (sint (m_reconnectFailures s + 1)))"
  "m_reconnectFailures (armNextRung s) = m_reconnectFailures s + 1"
  "m_connect (armNextRung s) = m_connect s"
  "m_disconnect (armNextRung s) = m_disconnect s"
  "m_asyncResult (armNextRung s) = m_asyncResult s"
  "m_awaitingAsyncResult (armNextRung s) = m_awaitingAsyncResult s"
  "m_heartbeatTimer (armNextRung s) = m_heartbeatTimer s"
  "m_heartbeatIntervalMs (armNextRung s) = m_heartbeatIntervalMs s"
  by (simp_all add: armNextRung_def Let_def)

lemma setHandlers_fields [simp]:
  "m_connected (setHandlers c p d a s) = m_connected s"
  "m_connect (setHandlers c p d a s) = c"
  "m_asyncResult (setHandlers c p d a s) = a"
  "m_heartbeatTimer (setHandlers c p d a s) = m_heartbeatTimer s"
  "m_heartbeatIntervalMs (setHandlers c p d a s) = m_heartbeatIntervalMs s"
  by (simp_all add: setHandlers_def)

text \<open>The disconnect callable, when there is one.\<close>

definition run_disconnect :: "'w connection_state \<Rightarrow> 'w connection_state" where
  "run_disconnect s = (case m_disconnect s of None \<Rightarrow> s | Some f \<Rightarrow> s\<lparr>world := f (world s)\<rparr>)"

lemma run_disconnect_result: "\<exists>w. run_disconnect s = s\<lparr>world := w\<rparr>"
proof (cases "m_disconnect s")
  case None
  then have "run_disconnect s = s\<lparr>world := world s\<rparr>" by (simp add: run_disconnect_def)
  then show ?thesis ..
qed (auto simp: run_disconnect_def)

lemma run_disconnect_fields [simp]:
  "m_connect (run_disconnect s) = m_connect s"
  "m_asyncResult (run_disconnect s) = m_asyncResult s"
  "m_awaitingAsyncResult (run_disconnect s) = m_awaitingAsyncResult s"
  "m_reconnecting (run_disconnect s) = m_reconnecting s"
  "m_reconnectFailures (run_disconnect s) = m_reconnectFailures s"
  "m_connected (run_disconnect s) = m_connected s"
  "m_heartbeatTimer (run_disconnect s) = m_heartbeatTimer s"
  "m_heartbeatIntervalMs (run_disconnect s) = m_heartbeatIntervalMs s"
  by (simp_all add: run_disconnect_def split: option.split)

lemma onReconnectTick_unfold:
  "onReconnectTick s =
     (case m_connect s of None \<Rightarrow> armNextRung (run_disconnect s)
      | Some f \<Rightarrow>
          (let (started, s) = callConnect f (run_disconnect s)
           in if m_asyncResult s
              then (let s = s\<lparr>m_awaitingAsyncResult := started, m_asyncAutoRetryOnFailure := True\<rparr>
                    in if started then s else armNextRung s)
              else if started then armHeartbeat (setConnected True (stopReconnecting s))
              else armNextRung s))"
  unfolding onReconnectTick_def run_disconnect_def [symmetric] by (simp add: Let_def)

text \<open>A report of a failure keeps the rung, ends the wait and connects nothing.\<close>

lemma reportPending_fields [simp]:
  "m_connect (reportPendingConnectResult b s) = m_connect s"
  "m_asyncResult (reportPendingConnectResult b s) = m_asyncResult s"
  "m_heartbeatIntervalMs (reportPendingConnectResult b s) = m_heartbeatIntervalMs s"
  by (simp_all add: reportPendingConnectResult_def Let_def)

lemma failure_fields [simp]:
  "m_heartbeatTimer (reportPendingConnectResult False s) = m_heartbeatTimer s"
  "m_reconnecting s \<Longrightarrow> m_reconnecting (reportPendingConnectResult False s)"
  "\<not> m_asyncResult s \<Longrightarrow> reportPendingConnectResult b s = s"
  "\<not> m_awaitingAsyncResult s \<Longrightarrow> reportPendingConnectResult b s = s"
  by (simp_all add: reportPendingConnectResult_def Let_def)

lemma callConnect_fields:
  assumes "callConnect f s = (started, s')"
  shows "m_connect s' = m_connect s" "m_asyncResult s' = m_asyncResult s"
    "m_heartbeatIntervalMs s' = m_heartbeatIntervalMs s" "m_heartbeatTimer s' = m_heartbeatTimer s"
    "m_reconnecting s \<Longrightarrow> m_reconnecting s'"
    "\<not> m_asyncResult s \<or> \<not> m_awaitingAsyncResult s \<Longrightarrow> \<exists>w. s' = s\<lparr>world := w\<rparr>"
  by (rule callConnect_result [OF assms]; auto)+

lemma world_rung_ok [simp]:
  "cs_rung_ok (s\<lparr>world := w\<rparr>) = cs_rung_ok s"
  "cs_rung_ok (s\<lparr>m_awaitingAsyncResult := b\<rparr>) = cs_rung_ok s"
  "cs_rung_ok (s\<lparr>m_asyncAutoRetryOnFailure := b\<rparr>) = cs_rung_ok s"
  "cs_rung_ok (s\<lparr>m_heartbeatTimer := t\<rparr>) = cs_rung_ok s"
  by (simp_all add: cs_rung_ok_def)

lemma helper_rung_ok [simp]:
  "cs_rung_ok (setConnected b s) = cs_rung_ok s"
  "cs_rung_ok (armHeartbeat s) = cs_rung_ok s"
  "cs_rung_ok (stopReconnecting s)"
  "cs_rung_ok (startReconnecting s)"
  "m_reconnecting s \<Longrightarrow> cs_rung_ok (armNextRung s)"
  by (simp_all add: cs_rung_ok_def reconnectDelayMs_0)

lemma reportPending_rung_ok [simp]: "cs_rung_ok s \<Longrightarrow> cs_rung_ok (reportPendingConnectResult b s)"
  by (simp add: reportPendingConnectResult_def Let_def)

lemma reportPending_armed:
  "(m_reconnecting s \<Longrightarrow> m_reconnectTimer s \<noteq> None) \<Longrightarrow> m_reconnecting (reportPendingConnectResult b s)
     \<Longrightarrow> m_reconnectTimer (reportPendingConnectResult b s) \<noteq> None"
  by (auto simp: reportPendingConnectResult_def Let_def split: if_splits)

lemma callConnect_rung_ok: "cs_rung_ok s \<Longrightarrow> callConnect f s = (b, s') \<Longrightarrow> cs_rung_ok s'"
  by (erule callConnect_result) simp_all

lemma callConnect_armed:
  assumes "callConnect f s = (b, s')" and "m_reconnecting s \<Longrightarrow> m_reconnectTimer s \<noteq> None" and "m_reconnecting s'"
  shows "m_reconnectTimer s' \<noteq> None"
  using assms by (auto elim!: callConnect_result dest!: reportPending_armed [rotated])

lemma beginAutoConnect_loop_ok: "cs_loop_ok (beginAutoConnect s)"
proof (cases "m_connect s")
  case None
  then show ?thesis by (simp add: beginAutoConnect_def cs_loop_ok_def Let_def)
next
  case (Some f)
  obtain started s' where c: "callConnect f (stopReconnecting s) = (started, s')" by fastforce
  have "cs_rung_ok s'" "m_asyncResult s' = m_asyncResult s"
    using callConnect_rung_ok [OF _ c] callConnect_fields(2) [OF c] by simp_all
  moreover have "\<not> m_reconnecting s'" if "\<not> m_asyncResult s" using callConnect_fields(6) [OF c] that by auto
  ultimately show ?thesis using Some c by (auto simp: beginAutoConnect_def cs_loop_ok_def Let_def)
qed

lemma onReconnectTick_loop_ok:
  assumes "cs_loop_ok s" and "m_reconnectTimer s = Some d"
  shows "cs_loop_ok (onReconnectTick (s\<lparr>m_reconnectTimer := None\<rparr>))"
proof -
  define s1 where "s1 = run_disconnect (s\<lparr>m_reconnectTimer := None\<rparr>)"
  have r: "m_reconnecting s1" "m_connect s1 = m_connect s"
    using assms by (simp_all add: s1_def cs_loop_ok_def cs_rung_ok_def)
  moreover have "cs_rung_ok s1"
    using run_disconnect_result [of "s\<lparr>m_reconnectTimer := None\<rparr>"] assms by (auto simp: s1_def cs_loop_ok_def cs_rung_ok_def)
  note t = onReconnectTick_unfold [of "s\<lparr>m_reconnectTimer := None\<rparr>", folded s1_def]
  show ?thesis
  proof (cases "m_connect s")
    case None
    then show ?thesis unfolding t using r by (simp add: cs_loop_ok_def)
  next
    case (Some f)
    obtain started s' where c: "callConnect f s1 = (started, s')" by fastforce
    have "cs_rung_ok s'" "m_reconnecting s'" 
      using callConnect_rung_ok [OF \<open>cs_rung_ok s1\<close> c] callConnect_fields(5) [OF c r(1)] .
    then show ?thesis unfolding t using Some c by (auto simp: cs_loop_ok_def Let_def)
  qed
qed

lemma reportPending_loop_ok: "cs_loop_ok s \<Longrightarrow> cs_loop_ok (reportPendingConnectResult b s)"
  by (auto simp: reportPendingConnectResult_def cs_loop_ok_def Let_def)

lemma connectNow_loop_ok: "cs_loop_ok (snd (connectNow s))"
proof (cases "m_connect s")
  case None
  then show ?thesis by (simp add: connectNow_def cs_loop_ok_def Let_def)
next
  case (Some f)
  obtain started s' where c: "callConnect f (stopReconnecting s) = (started, s')" by fastforce
  have "cs_rung_ok s'" "m_asyncResult s' = m_asyncResult s"
    using callConnect_rung_ok [OF _ c] callConnect_fields(2) [OF c] by simp_all
  moreover have "m_reconnectTimer s' \<noteq> None" if "m_reconnecting s'" using callConnect_armed [OF c _ that] by simp
  ultimately show ?thesis using Some c by (auto simp: connectNow_def cs_loop_ok_def Let_def)
qed

lemma disconnectNow_loop_ok: "cs_loop_ok (disconnectNow s)"
  by (auto simp: disconnectNow_def cs_loop_ok_def Let_def split: option.splits)

lemma setHeartbeatIntervalMs_loop_ok:
  "cs_loop_ok s \<Longrightarrow> cs_loop_ok (setHeartbeatIntervalMs i s)"
  by (auto simp: setHeartbeatIntervalMs_def cs_loop_ok_def cs_rung_ok_def Let_def)

lemma onHeartbeatTick_loop_ok: "cs_loop_ok s \<Longrightarrow> cs_loop_ok (onHeartbeatTick s)"
  by (auto simp: onHeartbeatTick_def cs_loop_ok_def Let_def
      split: option.splits prod.splits)

lemma world_loop_ok: "cs_loop_ok s \<Longrightarrow> cs_loop_ok (s\<lparr>world := w\<rparr>)"
  by (simp add: cs_loop_ok_def)

text \<open>
  When the handlers may be replaced: not while the reconnect loop waits for the result of an attempt, which
  setHandlers would forget, and not by handlers without a connect callable while the object is connected.
\<close>

fun handlers_free :: "'w connection_state \<Rightarrow> 'w cs_event \<Rightarrow> bool" where
  "handlers_free s (SetHandlers c p d asy) \<longleftrightarrow>
     (m_reconnecting s \<longrightarrow> m_reconnectTimer s \<noteq> None) \<and> (m_connected s \<longrightarrow> c \<noteq> None)"
| "handlers_free s e \<longleftrightarrow> True"

lemma setHandlers_loop_ok:
  "cs_loop_ok s \<Longrightarrow> (m_reconnecting s \<longrightarrow> m_reconnectTimer s \<noteq> None) \<Longrightarrow> cs_loop_ok (setHandlers c p d a s)"
  by (auto simp: setHandlers_def cs_loop_ok_def cs_rung_ok_def)

lemma cs_step_loop_ok: "cs_loop_ok s \<Longrightarrow> handlers_free s e \<Longrightarrow> cs_loop_ok (cs_step s e)"
  by (cases e) (auto intro: beginAutoConnect_loop_ok connectNow_loop_ok disconnectNow_loop_ok
      setHeartbeatIntervalMs_loop_ok reportPending_loop_ok onHeartbeatTick_loop_ok setHandlers_loop_ok
      onReconnectTick_loop_ok world_loop_ok split: option.splits)

lemma reportPending_live_ok: "cs_live_ok s \<Longrightarrow> cs_live_ok (reportPendingConnectResult b s)"
  by (cases "m_connect s")
    (simp_all add: reportPendingConnectResult_def cs_live_ok_def Let_def)

lemma world_live_ok: "cs_live_ok s \<Longrightarrow> cs_live_ok (s\<lparr>world := w\<rparr>)"
  by (simp add: cs_live_ok_def)

lemma helper_live_ok:
  "cs_live_ok s \<Longrightarrow> cs_live_ok (stopReconnecting s)"
  "cs_live_ok s \<Longrightarrow> \<not> m_connected s \<Longrightarrow> cs_live_ok (startReconnecting s)"
  "cs_live_ok s \<Longrightarrow> cs_live_ok (setConnected False s)"
  "cs_live_ok s \<Longrightarrow> cs_live_ok (armNextRung s)"
  by (simp_all add: cs_live_ok_def)

lemma callConnect_live_ok: "cs_live_ok s \<Longrightarrow> callConnect f s = (b, s') \<Longrightarrow> cs_live_ok s'"
  by (erule callConnect_result) (simp_all add: world_live_ok reportPending_live_ok)

text \<open>In synchronous mode nothing but the world has changed when the callable returns.\<close>

lemma callConnect_idle:
  assumes "callConnect f s = (b, s')" and "\<not> m_asyncResult s"
  shows "m_reconnecting s' = m_reconnecting s" "m_connected s' = m_connected s" "m_awaitingAsyncResult s' = m_awaitingAsyncResult s"
  using callConnect_fields(6) [OF assms(1)] assms(2) by auto

lemma connectNow_live_ok:
  assumes "cs_live_ok s"
  shows "cs_live_ok (snd (connectNow s))"
proof (cases "m_connect s")
  case None
  then show ?thesis using assms by (simp add: connectNow_def Let_def helper_live_ok)
next
  case (Some f)
  obtain started s' where c: "callConnect f (stopReconnecting s) = (started, s')" by fastforce
  have l: "cs_live_ok s'" using helper_live_ok(1) [OF assms] c by (rule callConnect_live_ok)
  note n = callConnect_fields(1-4) [OF c] callConnect_idle [OF c]
  show ?thesis using l n Some c by (auto simp: connectNow_def cs_live_ok_def Let_def)
qed

lemma beginAutoConnect_live_ok:
  assumes "cs_live_ok s"
  shows "cs_live_ok (beginAutoConnect s)"
proof (cases "m_connect s")
  case None
  then show ?thesis using assms by (simp add: beginAutoConnect_def cs_live_ok_def Let_def)
next
  case (Some f)
  obtain started s' where c: "callConnect f (stopReconnecting s) = (started, s')" by fastforce
  have l: "cs_live_ok s'" using helper_live_ok(1) [OF assms] c by (rule callConnect_live_ok)
  note n = callConnect_fields(1-4) [OF c] callConnect_idle [OF c]
  show ?thesis using l n Some c by (auto simp: beginAutoConnect_def cs_live_ok_def Let_def)
qed

lemma configure_live_ok:
  "cs_live_ok s \<Longrightarrow> cs_live_ok (beginAutoConnect (setHandlers (Some c) p d a s))"
  by (rule beginAutoConnect_live_ok) (simp add: cs_live_ok_def setHandlers_def)

lemma setHandlers_live_ok: "cs_live_ok s \<Longrightarrow> (m_connected s \<longrightarrow> c \<noteq> None) \<Longrightarrow> cs_live_ok (setHandlers c p d a s)"
  by (simp add: cs_live_ok_def setHandlers_def)

lemma disconnectNow_live_ok: "cs_live_ok (disconnectNow s)"
  by (simp add: disconnectNow_def cs_live_ok_def Let_def split: option.splits)

lemma setHeartbeatIntervalMs_live_ok:
  "cs_live_ok s \<Longrightarrow> cs_live_ok (setHeartbeatIntervalMs i s)"
  by (simp add: setHeartbeatIntervalMs_def cs_live_ok_def Let_def)

lemma onHeartbeatTick_live_ok: "cs_live_ok s \<Longrightarrow> cs_live_ok (onHeartbeatTick s)"
  by (simp add: onHeartbeatTick_def cs_live_ok_def Let_def split: option.splits prod.splits)

lemma onReconnectTick_live_ok:
  assumes "cs_live_ok s"
  shows "cs_live_ok (onReconnectTick (s\<lparr>m_reconnectTimer := None\<rparr>))"
proof -
  define s1 where "s1 = run_disconnect (s\<lparr>m_reconnectTimer := None\<rparr>)"
  have l: "cs_live_ok s1" using assms by (simp add: s1_def cs_live_ok_def)
  note t = onReconnectTick_unfold [of "s\<lparr>m_reconnectTimer := None\<rparr>", folded s1_def]
  show ?thesis
  proof (cases "m_connect s")
    case None
    then show ?thesis unfolding t using l by (simp add: helper_live_ok)
  next
    case (Some f)
    obtain started s' where c: "callConnect f s1 = (started, s')" by fastforce
    have "cs_live_ok s'" using l c by (rule callConnect_live_ok)
    moreover have "m_connect s' = Some f" using callConnect_fields(1) [OF c] Some by (simp add: s1_def)
    ultimately show ?thesis unfolding t using Some c by (auto simp: cs_live_ok_def Let_def)
  qed
qed

lemma cs_step_live_ok: "cs_live_ok s \<Longrightarrow> handlers_free s e \<Longrightarrow> cs_live_ok (cs_step s e)"
  by (cases e) (auto intro: configure_live_ok connectNow_live_ok beginAutoConnect_live_ok setHandlers_live_ok
      disconnectNow_live_ok setHeartbeatIntervalMs_live_ok reportPending_live_ok
      onHeartbeatTick_live_ok onReconnectTick_live_ok world_live_ok split: option.splits)

lemma cs_step_inv: "cs_inv s \<Longrightarrow> handlers_free s e \<Longrightarrow> cs_inv (cs_step s e)"
  by (simp add: cs_inv_def cs_step_signals cs_step_loop_ok cs_step_live_ok)

interpretation cs: guarded_machine cs_step cs_inv handlers_free
  by unfold_locales (rule cs_step_inv)

interpretation cs_signals: invariant_machine cs_step cs_signals_ok
  by unfold_locales (rule cs_step_signals)

lemma newConnectionState_inv: "cs_inv (newConnectionState f g w)"
  by (simp add: cs_inv_def cs_loop_ok_def cs_rung_ok_def cs_live_ok_def cs_signals_ok_def newConnectionState_def)

lemma cs_run_inv:
  "run_allowed cs_step handlers_free (newConnectionState f g w) es \<Longrightarrow> cs_inv (run_steps cs_step (newConnectionState f g w) es)"
  by (rule cs.allowed_run_inv) (rule newConnectionState_inv)

text \<open>A disconnected object has nothing armed and waits for nothing.\<close>

lemma disconnectNow_fields [simp]:
  "m_connected (disconnectNow s) = False"
  "m_reconnecting (disconnectNow s) = False"
  "m_heartbeatTimer (disconnectNow s) = None"
  "m_reconnectTimer (disconnectNow s) = None"
  "m_awaitingAsyncResult (disconnectNow s) = False"
  by (simp_all add: disconnectNow_def Let_def split: option.splits)

text \<open>What the environment can do by itself: late results, ticks, changes of the world.\<close>

fun env_event :: "'w cs_event \<Rightarrow> bool" where
  "env_event (ReportPending b) = True"
| "env_event HeartbeatTick = True"
| "env_event ReconnectTick = True"
| "env_event (World f) = True"
| "env_event e = False"

definition cs_quiet :: "'w connection_state \<Rightarrow> bool" where
  "cs_quiet s \<longleftrightarrow> m_heartbeatTimer s = None \<and> m_reconnectTimer s = None \<and> \<not> m_awaitingAsyncResult s"

lemma quiet_step: "cs_quiet s \<Longrightarrow> env_event e \<Longrightarrow> \<exists>w. cs_step s e = s\<lparr>world := w\<rparr>"
proof (cases e)
  case (ReportPending b)
  assume "cs_quiet s"
  then have "cs_step s e = s\<lparr>world := world s\<rparr>"
    by (simp add: ReportPending cs_quiet_def reportPendingConnectResult_def)
  then show ?thesis ..
next
  case HeartbeatTick
  assume "cs_quiet s"
  then have "cs_step s e = s\<lparr>world := world s\<rparr>" by (simp add: HeartbeatTick cs_quiet_def)
  then show ?thesis ..
next
  case ReconnectTick
  assume "cs_quiet s"
  then have "cs_step s e = s\<lparr>world := world s\<rparr>" by (simp add: ReconnectTick cs_quiet_def)
  then show ?thesis ..
next
  case (World f)
  then have "cs_step s e = s\<lparr>world := f (world s)\<rparr>" by simp
  then show ?thesis ..
qed simp_all

lemma quiet_run:
  "cs_quiet s \<Longrightarrow> (\<forall>e \<in> set es. env_event e) \<Longrightarrow> \<exists>w. run_steps cs_step s es = s\<lparr>world := w\<rparr>"
proof (induction es arbitrary: s)
  case Nil
  have "run_steps cs_step s [] = s\<lparr>world := world s\<rparr>" by simp
  then show ?case ..
next
  case (Cons e es)
  obtain w where w: "cs_step s e = s\<lparr>world := w\<rparr>" using quiet_step Cons.prems by force
  have "cs_quiet (s\<lparr>world := w\<rparr>)" using Cons.prems(1) by (simp add: cs_quiet_def)
  then obtain w' where "run_steps cs_step (s\<lparr>world := w\<rparr>) es = s\<lparr>world := w\<rparr>\<lparr>world := w'\<rparr>"
    using Cons.IH Cons.prems(2) by force
  then show ?case using w by auto
qed

text \<open>
  A failed attempt of the loop: the tick that launches it, whatever the world does meanwhile, and the report of
  the failure. Where the callable itself has answered false the report comes for nothing and is ignored.
\<close>

definition failed_attempt :: "('w \<Rightarrow> 'w) list \<Rightarrow> 'w cs_event list" where
  "failed_attempt ws = ReconnectTick # map World ws @ [ReportPending False]"

definition fails :: "'w connect_fn \<Rightarrow> 'w connection_state \<Rightarrow> bool" where
  "fails f s \<longleftrightarrow> m_connect s = Some f \<and> \<not> m_awaitingAsyncResult s \<and> m_reconnecting s
     \<and> (m_asyncResult s \<or> (\<forall>w. \<not> snd (fst (f w))))"

lemma world_changes: "\<exists>w. run_steps cs_step s (map World ws) = s\<lparr>world := w\<rparr>"
proof (induction ws arbitrary: s)
  case Nil
  show ?case by (rule exI [of _ "world s"]) simp
next
  case (Cons g ws)
  from Cons [of "s\<lparr>world := g (world s)\<rparr>"] show ?case by auto
qed

lemma callConnect_started: "fst (callConnect f s) = snd (fst (f (world s)))"
  by (simp add: callConnect_def Let_def split: prod.splits)

text \<open>One failed attempt climbs one rung.\<close>

lemma failed_attempt_climbs:
  assumes f: "fails f s" and t: "m_reconnectTimer s = Some d"
    and s': "s' = run_steps cs_step s (failed_attempt ws)"
  shows "fails f s'" and "m_reconnectFailures s' = m_reconnectFailures s + 1"
    and "m_reconnectTimer s' = Some (reconnectDelayMs (sint (m_reconnectFailures s + 1)))"
proof -
  define s1 where "s1 = run_disconnect (s\<lparr>m_reconnectTimer := None\<rparr>)"
  have 1: "m_connect s1 = Some f" "\<not> m_awaitingAsyncResult s1" "m_reconnecting s1" "m_asyncResult s1 = m_asyncResult s"
      "m_reconnectFailures s1 = m_reconnectFailures s"
    using f by (simp_all add: s1_def fails_def)
  obtain started s2 where c: "callConnect f s1 = (started, s2)" by fastforce
  obtain w where s2: "s2 = s1\<lparr>world := w\<rparr>" using callConnect_fields(6) [OF c] 1(2) by blast
  have "\<not> started" if "\<not> m_asyncResult s" using callConnect_started [of f s1] c f that by (simp add: fails_def)
  then have tick: "cs_step s ReconnectTick =
      (if started then s2\<lparr>m_awaitingAsyncResult := True, m_asyncAutoRetryOnFailure := True\<rparr>
       else if m_asyncResult s then armNextRung (s2\<lparr>m_awaitingAsyncResult := False, m_asyncAutoRetryOnFailure := True\<rparr>)
       else armNextRung s2)"
    using t c s2 1(4) f onReconnectTick_unfold [of "s\<lparr>m_reconnectTimer := None\<rparr>", folded s1_def]
    by (auto simp: fails_def Let_def)
  define s3 where "s3 = cs_step s ReconnectTick"
  obtain v where v: "run_steps cs_step s3 (map World ws) = s3\<lparr>world := v\<rparr>" using world_changes [of s3 ws] by auto
  have "s' = reportPendingConnectResult False (s3\<lparr>world := v\<rparr>)"
    unfolding s' failed_attempt_def s3_def [symmetric] run_steps.simps run_steps_append v by (simp add: s3_def [symmetric])
  then show "fails f s'" "m_reconnectFailures s' = m_reconnectFailures s + 1"
      "m_reconnectTimer s' = Some (reconnectDelayMs (sint (m_reconnectFailures s + 1)))"
    using 1 f \<open>\<not> m_asyncResult s \<Longrightarrow> \<not> started\<close> unfolding s3_def tick s2 fails_def
    by (auto simp: reportPendingConnectResult_def Let_def)
qed

lemma failed_attempts_climb:
  assumes "fails f s" and "m_reconnectTimer s = Some (reconnectDelayMs (sint (m_reconnectFailures s)))"
  defines "t \<equiv> \<lambda>wss. run_steps cs_step s (concat (map failed_attempt wss))"
  shows "fails f (t wss) \<and> m_reconnectFailures (t wss) = m_reconnectFailures s + of_nat (length wss)
     \<and> m_reconnectTimer (t wss) = Some (reconnectDelayMs (sint (m_reconnectFailures (t wss))))"
  using assms(1,2) unfolding t_def
proof (induction wss arbitrary: s)
  case Nil
  then show ?case by simp
next
  case (Cons ws wss)
  note c = failed_attempt_climbs [OF Cons.prems refl, of ws]
  show ?case using Cons.IH [OF c(1)] c(2,3) by (simp add: run_steps_append algebra_simps)
qed

section \<open>Invariants of an owner\<close>

text \<open>
  What an owner of the object has to show of an invariant of its own, in which the object is a part: the two
  setters, the three callables and the timers and flags of the object keep it. Then every operation of the object does.
\<close>

locale cs_invariant =
  fixes K :: "'w connection_state \<Rightarrow> bool"
  assumes K_setConnected: "K s \<Longrightarrow> K (setConnected b s)"
    and K_setReconnecting: "K s \<Longrightarrow> K (setReconnecting b s)"
    and K_reconnectTimer: "K (s\<lparr>m_reconnectTimer := t\<rparr>) = K s"
    and K_heartbeatTimer: "K (s\<lparr>m_heartbeatTimer := t\<rparr>) = K s"
    and K_failures: "K (s\<lparr>m_reconnectFailures := n\<rparr>) = K s"
    and K_awaiting: "K (s\<lparr>m_awaitingAsyncResult := b\<rparr>) = K s"
    and K_autoRetry: "K (s\<lparr>m_asyncAutoRetryOnFailure := b\<rparr>) = K s"
    and K_connect: "K s \<Longrightarrow> m_connect s = Some f \<Longrightarrow> K (s\<lparr>world := snd (f (world s))\<rparr>)"
    and K_probe: "K s \<Longrightarrow> m_probe s = Some p \<Longrightarrow> K (s\<lparr>world := snd (p (world s))\<rparr>)"
    and K_disconnect: "K s \<Longrightarrow> m_disconnect s = Some d \<Longrightarrow> K (s\<lparr>world := d (world s)\<rparr>)"
begin

lemmas K_fields = K_reconnectTimer K_heartbeatTimer K_failures K_awaiting K_autoRetry

lemma K_helpers:
  "K s \<Longrightarrow> K (startReconnecting s)" "K s \<Longrightarrow> K (stopReconnecting s)" "K s \<Longrightarrow> K (armHeartbeat s)" "K s \<Longrightarrow> K (armNextRung s)"
  by (simp_all add: startReconnecting_def stopReconnecting_def armHeartbeat_def armNextRung_def Let_def
      K_fields K_setReconnecting)

lemma K_report: "K s \<Longrightarrow> K (reportPendingConnectResult b s)"
  by (simp add: reportPendingConnectResult_def Let_def K_fields K_helpers K_setConnected)

lemma K_callConnect: "K s \<Longrightarrow> m_connect s = Some f \<Longrightarrow> K (snd (callConnect f s))"
  by (simp add: callConnect_def Let_def case_prod_beta K_report K_connect)

lemma K_run_disconnect: "K s \<Longrightarrow> K (run_disconnect s)"
  by (simp add: run_disconnect_def K_disconnect split: option.split)

lemma K_beginAutoConnect: "K s \<Longrightarrow> K (beginAutoConnect s)"
  by (simp add: beginAutoConnect_def Let_def case_prod_beta K_fields K_helpers K_setConnected K_callConnect split: option.split)

lemma K_connectNow: "K s \<Longrightarrow> K (snd (connectNow s))"
  by (simp add: connectNow_def Let_def case_prod_beta K_fields K_helpers K_setConnected K_callConnect split: option.split)

lemma K_disconnectNow: "K s \<Longrightarrow> K (disconnectNow s)"
  unfolding disconnectNow_def Let_def run_disconnect_def [symmetric]
  by (intro K_setConnected K_run_disconnect) (simp add: K_fields K_helpers)

lemma K_onHeartbeatTick: "K s \<Longrightarrow> K (onHeartbeatTick s)"
  by (simp add: onHeartbeatTick_def Let_def case_prod_beta K_fields K_helpers K_setConnected K_probe split: option.split)

lemma K_onReconnectTick: "K s \<Longrightarrow> K (onReconnectTick s)"
  using K_run_disconnect [of s]
  by (simp add: onReconnectTick_unfold Let_def case_prod_beta K_fields K_helpers K_setConnected K_callConnect split: option.split)

lemma K_ticks: "K s \<Longrightarrow> K (cs_step s HeartbeatTick)" "K s \<Longrightarrow> K (cs_step s ReconnectTick)"
  by (auto simp: K_fields intro: K_onHeartbeatTick K_onReconnectTick split: option.split)

end

text \<open>The discipline of the two signals is such an invariant.\<close>

interpretation signals: cs_invariant cs_signals_ok
  by unfold_locales (simp_all add: inv_intros)

text \<open>
  A predicate on the world that the slots and the callables of an object keep. Drivers whose own members live in the
  world use it for their invariants.
\<close>

definition cs_keeps :: "('w \<Rightarrow> bool) \<Rightarrow> 'w connection_state \<Rightarrow> bool" where
  "cs_keeps I s \<longleftrightarrow> I (world s)
   \<and> (\<forall>b w. I w \<longrightarrow> I (onStateChanged s b w)) \<and> (\<forall>b w. I w \<longrightarrow> I (onReconnectingChanged s b w))
   \<and> (\<forall>f. m_connect s = Some f \<longrightarrow> (\<forall>w. I w \<longrightarrow> I (snd (f w))))
   \<and> (\<forall>f. m_probe s = Some f \<longrightarrow> (\<forall>w. I w \<longrightarrow> I (snd (f w))))
   \<and> (\<forall>f. m_disconnect s = Some f \<longrightarrow> (\<forall>w. I w \<longrightarrow> I (f w)))"

lemma cs_keeps_world: "cs_keeps I s \<Longrightarrow> I w \<Longrightarrow> cs_keeps I (s\<lparr>world := w\<rparr>)"
  by (simp add: cs_keeps_def)

interpretation keeps: cs_invariant "cs_keeps I" for I
  by unfold_locales (simp_all add: cs_keeps_def setConnected_def setReconnecting_def)

lemmas beginAutoConnect_keeps = keeps.K_beginAutoConnect
lemmas disconnectNow_keeps = keeps.K_disconnectNow
lemmas reportPending_keeps = keeps.K_report
lemmas ticks_keep = keeps.K_ticks

text \<open>
  An owner that forwards connectionStateChanged: A reads the values it has announced from its members. As long as its
  slot announces each value once and its callables announce nothing, they are the values the object has emitted.
\<close>

definition cs_forwards :: "('w \<Rightarrow> bool list) \<Rightarrow> 'w connection_state \<Rightarrow> bool" where
  "cs_forwards A s \<longleftrightarrow> A (world s) = state_values (emitted s)
   \<and> (\<forall>b w. A (onStateChanged s b w) = A w @ [b]) \<and> (\<forall>b w. A (onReconnectingChanged s b w) = A w)
   \<and> (\<forall>f. m_connect s = Some f \<longrightarrow> (\<forall>w. A (snd (f w)) = A w))
   \<and> (\<forall>f. m_probe s = Some f \<longrightarrow> (\<forall>w. A (snd (f w)) = A w))
   \<and> (\<forall>f. m_disconnect s = Some f \<longrightarrow> (\<forall>w. A (f w) = A w))"

lemma cs_forwards_world: "A w = A (world s) \<Longrightarrow> cs_forwards A (s\<lparr>world := w\<rparr>) = cs_forwards A s"
  by (simp add: cs_forwards_def)

interpretation forwards: cs_invariant "cs_forwards A" for A
  by unfold_locales (simp_all add: cs_forwards_def setConnected_def setReconnecting_def)

section \<open>Properties\<close>

text \<open>
  C1. Whatever the owner, the timers and the environment do, as long as setHandlers is not called while the loop
  waits for the result of an attempt (nor to take the connect callable from a connected object), the
  reconnect loop is never stalled: while it is reconnecting either the timer is armed with exactly
  the rung of the current failure count, or an asynchronous attempt that retries on failure is in
  flight; outside the loop no timer is armed and the failure count is zero; a connected object is
  never reconnecting and, unless probing is disabled, its heartbeat is armed.
\<close>

theorem reconnect_loop_never_stalls:
  assumes "run_allowed cs_step handlers_free (newConnectionState f g w) es"
    and "s = run_steps cs_step (newConnectionState f g w) es"
  shows "(m_reconnecting s \<longrightarrow>
            m_reconnectTimer s = Some (reconnectDelayMs (sint (m_reconnectFailures s)))
          \<or> m_reconnectTimer s = None \<and> m_asyncResult s \<and> m_awaitingAsyncResult s
            \<and> m_asyncAutoRetryOnFailure s)
       \<and> (\<not> m_reconnecting s \<longrightarrow> m_reconnectTimer s = None \<and> m_reconnectFailures s = 0)
       \<and> (m_connected s \<longrightarrow> \<not> m_reconnecting s
            \<and> (m_heartbeatIntervalMs s > 0
               \<longrightarrow> m_heartbeatTimer s = Some (m_heartbeatIntervalMs s)))"
proof -
  have "cs_inv s" unfolding assms(2) by (rule cs_run_inv [OF assms(1)])
  then show ?thesis
    by (cases "m_reconnectTimer s") (auto simp: cs_inv_def cs_loop_ok_def cs_rung_ok_def cs_live_ok_def)
qed

theorem reconnect_loop_never_stalls_witness:
  "let s = run_steps cs_step (newConnectionState (\<lambda>_ n. n) (\<lambda>_ n. n) (0::nat))
             [SetHandlers None None None False, Configure (\<lambda>n. ((False, False), n + 1)) None None False,
              ReconnectTick, ReconnectTick, ReconnectTick]
   in m_reconnecting s \<and> m_reconnectTimer s = Some 15000 \<and> m_reconnectFailures s = 3 \<and> world s = 4"
proof -
  let ?es = "[SetHandlers None None None False, Configure (\<lambda>n. ((False, False), n + 1)) None None False,
              ReconnectTick, ReconnectTick, ReconnectTick]"
  define s where "s = run_steps cs_step (newConnectionState (\<lambda>_ n. n) (\<lambda>_ n. n) (0::nat)) ?es"
  have a: "run_allowed cs_step handlers_free (newConnectionState (\<lambda>_ n. n) (\<lambda>_ n. n) (0::nat)) ?es"
    by (simp add: newConnectionState_def)
  have 1: "m_reconnecting s" "m_reconnectFailures s = 3" "world s = 4" "\<not> m_asyncResult s"
    by (simp_all add: s_def newConnectionState_def cs_op_defs cs_helper_defs callConnect_def Let_def)
  then have "m_reconnectTimer s = Some (reconnectDelayMs (sint (m_reconnectFailures s)))"
    using reconnect_loop_never_stalls [OF a s_def] by blast
  then have "m_reconnectTimer s = Some 15000"
    using 1 by (simp add: reconnectDelayMs_def kReconnectDelayCount_def kReconnectDelaysMs_def)
  then show ?thesis using 1 unfolding s_def Let_def by blast
qed

text \<open>
  The condition is needed: setHandlers forgets an attempt in flight, so a call of it alone, while the loop waits for
  the result of one, leaves the object reconnecting with no timer armed, and the late result of the attempt changes
  nothing.
\<close>

theorem set_handlers_stalls_loop:
  assumes "m_reconnecting s" and "m_reconnectTimer s = None"
  shows "m_reconnecting (setHandlers c p d a s) \<and> m_reconnectTimer (setHandlers c p d a s) = None
    \<and> cs_step (setHandlers c p d a s) (ReportPending b) = setHandlers c p d a s
    \<and> cs_step (setHandlers c p d a s) ReconnectTick = setHandlers c p d a s"
  using assms by (simp add: setHandlers_def)

theorem set_handlers_stalls_loop_witness:
  "let s = run_steps cs_step (newConnectionState (\<lambda>_ n. n) (\<lambda>_ n. n) (0::nat))
             [Configure (\<lambda>n. ((False, True), n)) None None True, ReportPending False, ReconnectTick]
   in m_reconnectTimer s = None \<and> m_reconnecting (setHandlers c p d a s)
    \<and> cs_step (setHandlers c p d a s) (ReportPending False) = setHandlers c p d a s"
proof -
  define s where "s = run_steps cs_step (newConnectionState (\<lambda>_ n. n) (\<lambda>_ n. n) (0::nat))
             [Configure (\<lambda>n. ((False, True), n)) None None True, ReportPending False, ReconnectTick]"
  have "m_reconnecting s" "m_reconnectTimer s = None"
    by (simp_all add: s_def newConnectionState_def cs_op_defs cs_helper_defs callConnect_def Let_def)
  then show ?thesis using set_handlers_stalls_loop [of s] unfolding s_def Let_def by blast
qed

text \<open>
  One chokepoint, one signal: along every run the values sent by connectionStateChanged
  alternate, starting with true, and the last one is the current state of the object; the same
  holds of reconnectingChanged. No consumer ever sees the same value twice in a row.
\<close>

theorem state_signals_alternate:
  "let s = run_steps cs_step (newConnectionState f g w) es
   in alternates False (state_values (emitted s))
    \<and> last (False # state_values (emitted s)) = m_connected s
    \<and> alternates False (reconnecting_values (emitted s))
    \<and> last (False # reconnecting_values (emitted s)) = m_reconnecting s"
  using cs_signals.run_inv [of "newConnectionState f g w" es] newConnectionState_inv [of f g w]
  by (simp add: cs_inv_def cs_signals_ok_def Let_def)

text \<open>
  C3. The backoff ladder: from the start of a reconnect loop with no attempt in flight, after n attempts that fail, the
  object is still reconnecting, has counted n failures, and the next attempt is armed at the n-th entry of 5, 5, 5,
  15, 15, 30, 60 seconds, held at 60 from the seventh on. An attempt fails when the connect callable returns false
  or, for an asynchronous connect, when it returns true and reportPendingConnectResult(false) comes later, whatever has happened to
  the world in the meantime; the number of attempts is within the range of an int.
\<close>

theorem backoff_ladder:
  assumes "m_connect s = Some f" and "\<not> m_awaitingAsyncResult s" and "m_asyncResult s \<or> (\<forall>w. \<not> snd (fst (f w)))"
    and "length wss < 2 ^ 31"
  shows "m_reconnecting (run_steps cs_step (startReconnecting s) (concat (map failed_attempt wss)))
       \<and> sint (m_reconnectFailures (run_steps cs_step (startReconnecting s) (concat (map failed_attempt wss))))
           = int (length wss)
       \<and> m_reconnectTimer (run_steps cs_step (startReconnecting s) (concat (map failed_attempt wss)))
           = Some ([5000, 5000, 5000, 15000, 15000, 30000, 60000] ! min (length wss) 6)"
proof -
  have n: "sint (of_nat (length wss) :: 32 word) = int (length wss)"
    using assms(4) by (simp add: signed_of_nat signed_take_bit_int_eq_self)
  have timer: "reconnectDelayMs (int (length wss)) = [5000, 5000, 5000, 15000, 15000, 30000, 60000] ! min (length wss) 6"
    by (simp add: reconnectDelayMs_def kReconnectDelayCount_def kReconnectDelaysMs_def min_def)
  have "fails f (startReconnecting s)" using assms(1-3) by (simp add: fails_def)
  from failed_attempts_climb [OF this, of wss] show ?thesis
    using n timer by (simp add: reconnectDelayMs_0 fails_def)
qed

theorem backoff_ladder_witness:
  "m_reconnectTimer
     (run_steps cs_step
        (startReconnecting ((newConnectionState (\<lambda>_ n. n) (\<lambda>_ n. n) (0::nat))
            \<lparr>m_connect := Some (\<lambda>n. ((False, True), n + 1)), m_asyncResult := True\<rparr>))
        (concat (map failed_attempt [[], [], [\<lambda>n. n + 7], [], []]))) = Some 30000"
  using backoff_ladder [of "(newConnectionState (\<lambda>_ n. n) (\<lambda>_ n. n) (0::nat))
            \<lparr>m_connect := Some (\<lambda>n. ((False, True), n + 1)), m_asyncResult := True\<rparr>" "\<lambda>n. ((False, True), n + 1)"
            "[[], [], [\<lambda>n. n + 7], [], []]"]
  by (simp add: newConnectionState_def)

text \<open>
  C8. Stray and late reports are ignored: after disconnectNow no timer is armed and nothing that
  the environment does by itself - results of attempts launched earlier, timer ticks, changes of
  the world - changes the object or makes it emit a signal; only a new call of the owner does.
\<close>

theorem disconnect_is_final:
  assumes "\<forall>e \<in> set es. env_event e"
  shows "\<exists>w. run_steps cs_step (disconnectNow s) es = (disconnectNow s)\<lparr>world := w\<rparr>
           \<and> \<not> m_connected (disconnectNow s) \<and> \<not> m_reconnecting (disconnectNow s)"
  using quiet_run [of "disconnectNow s" es] assms by (auto simp: cs_quiet_def)

theorem disconnect_is_final_witness:
  "\<exists>w. run_steps cs_step
         (disconnectNow (beginAutoConnect (setHandlers (Some (\<lambda>n. ((False, True), n + 1))) None None True
            (newConnectionState (\<lambda>_ n. n) (\<lambda>_ n. n) (0::nat)))))
         [ReportPending True, ReconnectTick, HeartbeatTick, World (\<lambda>n. n + 5)]
       = (disconnectNow (beginAutoConnect (setHandlers (Some (\<lambda>n. ((False, True), n + 1))) None None True
            (newConnectionState (\<lambda>_ n. n) (\<lambda>_ n. n) (0::nat)))))\<lparr>world := w\<rparr>"
  using disconnect_is_final [of "[ReportPending True, ReconnectTick, HeartbeatTick,
      World (\<lambda>n. n + 5)]" "beginAutoConnect (setHandlers (Some (\<lambda>n. ((False, True), n + 1))) None None True
            (newConnectionState (\<lambda>_ n. n) (\<lambda>_ n. n) (0::nat)))"]
  by (simp only: list.set ball_simps env_event.simps simp_thms) blast

text \<open>
  The startup path never gives up: beginAutoConnect leaves the object either connected, or with
  an asynchronous attempt in flight that will retry when it fails, or in the reconnect loop with
  the first rung armed; and a failure of that attempt, whenever it is reported, enters or continues
  the loop.
\<close>

theorem auto_connect_never_idle:
  assumes "\<not> m_awaitingAsyncResult s"
  shows "(let s' = beginAutoConnect s
    in m_connected s' \<and> \<not> m_reconnecting s' \<and> \<not> m_asyncResult s'
     \<or> m_asyncResult s' \<and> m_awaitingAsyncResult s' \<and> m_asyncAutoRetryOnFailure s'
       \<and> m_reconnecting (reportPendingConnectResult False s')
       \<and> m_reconnectTimer (reportPendingConnectResult False s') = Some 5000
     \<or> m_reconnecting s' \<and> m_reconnectTimer s' = Some 5000)"
proof (cases "m_connect s")
  case None
  then show ?thesis by (simp add: beginAutoConnect_def Let_def)
next
  case (Some f)
  obtain started s' where c: "callConnect f (stopReconnecting s) = (started, s')" by fastforce
  then obtain w where "s' = (stopReconnecting s)\<lparr>world := w\<rparr>" using callConnect_fields(6) [OF c] assms by auto
  then show ?thesis using Some c by (simp add: beginAutoConnect_def reportPendingConnectResult_def Let_def)
qed

text \<open>
  A failed manual attempt does end a running reconnect loop: connectNow cancels the loop before
  it calls the connect callable, and when that returns false in synchronous mode nothing re-arms
  it. The comment above disconnectNow in the header says the opposite ("The only thing that ends a
  reconnect loop. A failed manual attempt does not.").
\<close>

theorem failed_manual_attempt_ends_loop:
  assumes "m_connect s = Some f" and "\<And>w. \<not> snd (fst (f w))" and "\<not> m_asyncResult s"
  shows "fst (connectNow s) = False
       \<and> m_reconnecting (snd (connectNow s)) = False
       \<and> m_reconnectTimer (snd (connectNow s)) = None
       \<and> m_connected (snd (connectNow s)) = False"
proof -
  obtain started s' where c: "callConnect f (stopReconnecting s) = (started, s')" by fastforce
  then obtain w where s': "s' = (stopReconnecting s)\<lparr>world := w\<rparr>" using callConnect_fields(6) [OF c] assms(3) by auto
  have "\<not> started" using callConnect_started [of f "stopReconnecting s"] c assms(2) by simp
  then show ?thesis using assms(1,3) c s' by (simp add: connectNow_def Let_def)
qed

theorem failed_manual_attempt_ends_loop_witness:
  "let s = beginAutoConnect (setHandlers (Some (\<lambda>n. ((False, False), n + 1))) None None False
             (newConnectionState (\<lambda>_ n. n) (\<lambda>_ n. n) (0::nat)))
   in m_reconnecting s \<and> \<not> m_reconnecting (snd (connectNow s))"
proof -
  define s where "s = beginAutoConnect (setHandlers (Some (\<lambda>n. ((False, False), n + 1))) None None False
             (newConnectionState (\<lambda>_ n. n) (\<lambda>_ n. n) (0::nat)))"
  have "m_connect s = Some (\<lambda>n. ((False, False), n + 1))" "\<not> m_asyncResult s" "m_reconnecting s"
    by (simp_all add: s_def newConnectionState_def beginAutoConnect_def setHandlers_def callConnect_def Let_def)
  then show ?thesis
    using failed_manual_attempt_ends_loop [of s "\<lambda>n. ((False, False), n + 1)"]
    unfolding s_def [symmetric] Let_def by simp
qed

end
