(* ===== verification/Modbus_Codec.thy ===== *)
theory Modbus_Codec
  imports Prelude
begin

text \<open>
  The Modbus TCP codec of src/features/modbus/modbus_codec.\{h,cpp\}: the eight request encoders and
  the eight response decoders over the MBAP header. A decoder is None only if it would read outside
  its input; that this never happens is proved below. The eight decoders of the source repeat the
  same header checks line by line; decodeMbap is that common part, and each decoder continues with
  its own checks.
\<close>

section \<open>Byte helpers\<close>

definition appendBigEndian16 :: "bytes \<Rightarrow> u16 \<Rightarrow> bytes" where
  "appendBigEndian16 d v = d @ [ucast (drop_bit 8 v AND 0xff), ucast (v AND 0xff)]"

definition readBigEndian16 :: "bytes \<Rightarrow> nat \<Rightarrow> u16 option" where
  "readBigEndian16 d i =
     do {
       hi \<leftarrow> byte_at d i;
       lo \<leftarrow> byte_at d (i + 1);
       Some (push_bit 8 (ucast hi) OR ucast lo)
     }"

text \<open>Coil N lives at bit N mod 8 of byte N div 8.\<close>

fun unpackBits :: "bytes \<Rightarrow> nat \<Rightarrow> nat \<Rightarrow> bool list option" where
  "unpackBits d offset 0 = Some []"
| "unpackBits d offset (Suc n) =
     do {
       b \<leftarrow> byte_at d offset;
       rest \<leftarrow> unpackBits d (offset + 1) n;
       Some (map (\<lambda>k. b AND push_bit k 1 \<noteq> 0) [0..<8] @ rest)
     }"

text \<open>The loop of packBits: packed is updated in place for every coil that is set.\<close>

fun packBits_loop :: "bool list \<Rightarrow> nat \<Rightarrow> bytes \<Rightarrow> bytes" where
  "packBits_loop [] i packed = packed"
| "packBits_loop (v # vs) i packed =
     packBits_loop vs (i + 1)
       (if v then packed[i div 8 := packed ! (i div 8) OR push_bit (i mod 8) 1] else packed)"

definition packBits :: "bool list \<Rightarrow> bytes" where
  "packBits values = packBits_loop values 0 (replicate ((length values + 7) div 8) 0)"

section \<open>Requests\<close>

record ReadHoldingRegistersRequest =
  rhr_transactionId :: u16
  rhr_unitId :: u8
  rhr_startAddress :: u16
  rhr_quantity :: u16

definition encodeReadHoldingRegistersRequest :: "ReadHoldingRegistersRequest \<Rightarrow> bytes" where
  "encodeReadHoldingRegistersRequest request =
     (let data = appendBigEndian16 [] (rhr_transactionId request);
          data = appendBigEndian16 data 0x0000;
          data = appendBigEndian16 data 0x0006;
          data = data @ [rhr_unitId request];
          data = data @ [0x03];
          data = appendBigEndian16 data (rhr_startAddress request)
      in appendBigEndian16 data (rhr_quantity request))"

record ReadInputRegistersRequest =
  rir_transactionId :: u16
  rir_unitId :: u8
  rir_startAddress :: u16
  rir_quantity :: u16

definition encodeReadInputRegistersRequest :: "ReadInputRegistersRequest \<Rightarrow> bytes" where
  "encodeReadInputRegistersRequest request =
     (let data = appendBigEndian16 [] (rir_transactionId request);
          data = appendBigEndian16 data 0x0000;
          data = appendBigEndian16 data 0x0006;
          data = data @ [rir_unitId request];
          data = data @ [0x04];
          data = appendBigEndian16 data (rir_startAddress request)
      in appendBigEndian16 data (rir_quantity request))"

record ReadCoilsRequest =
  rc_transactionId :: u16
  rc_unitId :: u8
  rc_startAddress :: u16
  rc_quantity :: u16

definition encodeReadCoilsRequest :: "ReadCoilsRequest \<Rightarrow> bytes" where
  "encodeReadCoilsRequest request =
     (let data = appendBigEndian16 [] (rc_transactionId request);
          data = appendBigEndian16 data 0x0000;
          data = appendBigEndian16 data 0x0006;
          data = data @ [rc_unitId request];
          data = data @ [0x01];
          data = appendBigEndian16 data (rc_startAddress request)
      in appendBigEndian16 data (rc_quantity request))"

record ReadDiscreteInputsRequest =
  rdi_transactionId :: u16
  rdi_unitId :: u8
  rdi_startAddress :: u16
  rdi_quantity :: u16

definition encodeReadDiscreteInputsRequest :: "ReadDiscreteInputsRequest \<Rightarrow> bytes" where
  "encodeReadDiscreteInputsRequest request =
     (let data = appendBigEndian16 [] (rdi_transactionId request);
          data = appendBigEndian16 data 0x0000;
          data = appendBigEndian16 data 0x0006;
          data = data @ [rdi_unitId request];
          data = data @ [0x02];
          data = appendBigEndian16 data (rdi_startAddress request)
      in appendBigEndian16 data (rdi_quantity request))"

record WriteSingleRegisterRequest =
  wsr_transactionId :: u16
  wsr_unitId :: u8
  wsr_address :: u16
  wsr_value :: u16

definition encodeWriteSingleRegisterRequest :: "WriteSingleRegisterRequest \<Rightarrow> bytes" where
  "encodeWriteSingleRegisterRequest request =
     (let data = appendBigEndian16 [] (wsr_transactionId request);
          data = appendBigEndian16 data 0x0000;
          data = appendBigEndian16 data 0x0006;
          data = data @ [wsr_unitId request];
          data = data @ [0x06];
          data = appendBigEndian16 data (wsr_address request)
      in appendBigEndian16 data (wsr_value request))"

record WriteSingleCoilRequest =
  wsc_transactionId :: u16
  wsc_unitId :: u8
  wsc_address :: u16
  wsc_value :: bool

definition encodeWriteSingleCoilRequest :: "WriteSingleCoilRequest \<Rightarrow> bytes" where
  "encodeWriteSingleCoilRequest request =
     (let data = appendBigEndian16 [] (wsc_transactionId request);
          data = appendBigEndian16 data 0x0000;
          data = appendBigEndian16 data 0x0006;
          data = data @ [wsc_unitId request];
          data = data @ [0x05];
          data = appendBigEndian16 data (wsc_address request)
      in appendBigEndian16 data (if wsc_value request then 0xFF00 else 0x0000))"

record WriteMultipleRegistersRequest =
  wmr_transactionId :: u16
  wmr_unitId :: u8
  wmr_startAddress :: u16
  wmr_values :: "u16 list"

definition encodeWriteMultipleRegistersRequest :: "WriteMultipleRegistersRequest \<Rightarrow> bytes" where
  "encodeWriteMultipleRegistersRequest request =
     (let byteCount = length (wmr_values request) * 2;
          data = appendBigEndian16 [] (wmr_transactionId request);
          data = appendBigEndian16 data 0x0000;
          data = appendBigEndian16 data (of_nat (7 + byteCount));
          data = data @ [wmr_unitId request];
          data = data @ [0x10];
          data = appendBigEndian16 data (wmr_startAddress request);
          data = appendBigEndian16 data (of_nat (length (wmr_values request)));
          data = data @ [of_nat byteCount]
      in foldl appendBigEndian16 data (wmr_values request))"

record WriteMultipleCoilsRequest =
  wmc_transactionId :: u16
  wmc_unitId :: u8
  wmc_startAddress :: u16
  wmc_values :: "bool list"

definition encodeWriteMultipleCoilsRequest :: "WriteMultipleCoilsRequest \<Rightarrow> bytes" where
  "encodeWriteMultipleCoilsRequest request =
     (let packedBits = packBits (wmc_values request);
          data = appendBigEndian16 [] (wmc_transactionId request);
          data = appendBigEndian16 data 0x0000;
          data = appendBigEndian16 data (of_nat (7 + length packedBits));
          data = data @ [wmc_unitId request];
          data = data @ [0x0f];
          data = appendBigEndian16 data (wmc_startAddress request);
          data = appendBigEndian16 data (of_nat (length (wmc_values request)));
          data = data @ [of_nat (length packedBits)]
      in data @ packedBits)"

section \<open>Responses\<close>

datatype ResponseStatus = Incomplete | Malformed | Exception | Ok

text \<open>The fields every response struct has; the structs extend it with their payload.\<close>

record mb_response =
  status :: ResponseStatus
  transactionId :: u16
  exceptionCode :: u8

record ReadHoldingRegistersResponse = mb_response +
  rhr_registers :: "u16 list"

record ReadInputRegistersResponse = mb_response +
  rir_registers :: "u16 list"

record ReadCoilsResponse = mb_response +
  rc_coils :: "bool list"

record ReadDiscreteInputsResponse = mb_response +
  rdi_inputs :: "bool list"

record WriteSingleRegisterResponse = mb_response +
  wsr_r_address :: u16
  wsr_r_value :: u16

record WriteSingleCoilResponse = mb_response +
  wsc_r_address :: u16
  wsc_r_value :: bool

record WriteMultipleRegistersResponse = mb_response +
  wmr_r_startAddress :: u16
  wmr_r_quantity :: u16

record WriteMultipleCoilsResponse = mb_response +
  wmc_r_startAddress :: u16
  wmc_r_quantity :: u16

text \<open>
  The header part: either the decoder is done (too few bytes, inconsistent framing, exception) or
  it goes on with the transaction id, the MBAP length and the function code.
\<close>

definition decodeMbap :: "bytes \<Rightarrow> (mb_response + u16 \<times> u16 \<times> u8) option" where
  "decodeMbap d =
     (if length d < 8 then Some (Inl \<lparr>status = Incomplete, transactionId = 0, exceptionCode = 0\<rparr>)
      else do {
        tid \<leftarrow> readBigEndian16 d 0;
        mbapLength \<leftarrow> readBigEndian16 d 4;
        let frameSize = 6 + unat mbapLength;
        if length d < frameSize
        then Some (Inl \<lparr>status = Incomplete, transactionId = tid, exceptionCode = 0\<rparr>)
        else do {
          protocolId \<leftarrow> readBigEndian16 d 2;
          if protocolId \<noteq> 0 \<or> mbapLength < 2
          then Some (Inl \<lparr>status = Malformed, transactionId = tid, exceptionCode = 0\<rparr>)
          else do {
            functionCode \<leftarrow> byte_at d 7;
            if functionCode AND 0x80 \<noteq> 0
            then if mbapLength < 3
                 then Some (Inl \<lparr>status = Malformed, transactionId = tid, exceptionCode = 0\<rparr>)
                 else do {
                   e \<leftarrow> byte_at d 8;
                   Some (Inl \<lparr>status = Exception, transactionId = tid, exceptionCode = e\<rparr>)
                 }
            else Some (Inr (tid, mbapLength, functionCode))
          }
        }
      })"

text \<open>The loop over the register bytes.\<close>

function readRegisters :: "bytes \<Rightarrow> nat \<Rightarrow> nat \<Rightarrow> u16 list option" where
  "readRegisters d index stop =
     (if index < stop
      then do {
        r \<leftarrow> readBigEndian16 d index;
        rs \<leftarrow> readRegisters d (index + 2) stop;
        Some (r # rs)
      }
      else Some [])"
  by pat_completeness auto
termination
  by (relation "measure (\<lambda>(d, index, stop). stop - index)") auto

declare readRegisters.simps [simp del]

definition decodeReadHoldingRegistersBody :: "bytes \<Rightarrow> u16 \<Rightarrow> u16 \<Rightarrow> u8 \<Rightarrow> ReadHoldingRegistersResponse option" where
  "decodeReadHoldingRegistersBody d tid mbapLength functionCode =
     (let malformed = \<lparr>status = Malformed, transactionId = tid, exceptionCode = 0,
                       rhr_registers = []\<rparr>
      in if functionCode \<noteq> 0x03 \<or> mbapLength < 3 then Some malformed
         else do {
           byteCount \<leftarrow> byte_at d 8;
           if byteCount mod 2 \<noteq> 0 \<or> mbapLength \<noteq> 3 + ucast byteCount then Some malformed
           else do {
             regs \<leftarrow> readRegisters d 9 (9 + unat byteCount);
             Some \<lparr>status = Ok, transactionId = tid, exceptionCode = 0, rhr_registers = regs\<rparr>
           }
         })"

definition decodeReadHoldingRegistersResponse :: "bytes \<Rightarrow> ReadHoldingRegistersResponse option" where
  "decodeReadHoldingRegistersResponse d =
     do {
       h \<leftarrow> decodeMbap d;
       case h of
         Inl r \<Rightarrow> Some (mb_response.extend r \<lparr>rhr_registers = []\<rparr>)
       | Inr (tid, mbapLength, functionCode) \<Rightarrow> decodeReadHoldingRegistersBody d tid mbapLength functionCode
     }"

definition decodeReadInputRegistersBody :: "bytes \<Rightarrow> u16 \<Rightarrow> u16 \<Rightarrow> u8 \<Rightarrow> ReadInputRegistersResponse option" where
  "decodeReadInputRegistersBody d tid mbapLength functionCode =
     (let malformed = \<lparr>status = Malformed, transactionId = tid, exceptionCode = 0,
                       rir_registers = []\<rparr>
      in if functionCode \<noteq> 0x04 \<or> mbapLength < 3 then Some malformed
         else do {
           byteCount \<leftarrow> byte_at d 8;
           if byteCount mod 2 \<noteq> 0 \<or> mbapLength \<noteq> 3 + ucast byteCount then Some malformed
           else do {
             regs \<leftarrow> readRegisters d 9 (9 + unat byteCount);
             Some \<lparr>status = Ok, transactionId = tid, exceptionCode = 0, rir_registers = regs\<rparr>
           }
         })"

definition decodeReadInputRegistersResponse :: "bytes \<Rightarrow> ReadInputRegistersResponse option" where
  "decodeReadInputRegistersResponse d =
     do {
       h \<leftarrow> decodeMbap d;
       case h of
         Inl r \<Rightarrow> Some (mb_response.extend r \<lparr>rir_registers = []\<rparr>)
       | Inr (tid, mbapLength, functionCode) \<Rightarrow> decodeReadInputRegistersBody d tid mbapLength functionCode
     }"

definition decodeReadCoilsBody :: "bytes \<Rightarrow> u16 \<Rightarrow> u16 \<Rightarrow> u8 \<Rightarrow> ReadCoilsResponse option" where
  "decodeReadCoilsBody d tid mbapLength functionCode =
     (let malformed = \<lparr>status = Malformed, transactionId = tid, exceptionCode = 0, rc_coils = []\<rparr>
      in if functionCode \<noteq> 0x01 \<or> mbapLength < 3 then Some malformed
         else do {
           byteCount \<leftarrow> byte_at d 8;
           if mbapLength \<noteq> 3 + ucast byteCount then Some malformed
           else do {
             bits \<leftarrow> unpackBits d 9 (unat byteCount);
             Some \<lparr>status = Ok, transactionId = tid, exceptionCode = 0, rc_coils = bits\<rparr>
           }
         })"

definition decodeReadCoilsResponse :: "bytes \<Rightarrow> ReadCoilsResponse option" where
  "decodeReadCoilsResponse d =
     do {
       h \<leftarrow> decodeMbap d;
       case h of
         Inl r \<Rightarrow> Some (mb_response.extend r \<lparr>rc_coils = []\<rparr>)
       | Inr (tid, mbapLength, functionCode) \<Rightarrow> decodeReadCoilsBody d tid mbapLength functionCode
     }"

definition decodeReadDiscreteInputsBody :: "bytes \<Rightarrow> u16 \<Rightarrow> u16 \<Rightarrow> u8 \<Rightarrow> ReadDiscreteInputsResponse option" where
  "decodeReadDiscreteInputsBody d tid mbapLength functionCode =
     (let malformed = \<lparr>status = Malformed, transactionId = tid, exceptionCode = 0, rdi_inputs = []\<rparr>
      in if functionCode \<noteq> 0x02 \<or> mbapLength < 3 then Some malformed
         else do {
           byteCount \<leftarrow> byte_at d 8;
           if mbapLength \<noteq> 3 + ucast byteCount then Some malformed
           else do {
             bits \<leftarrow> unpackBits d 9 (unat byteCount);
             Some \<lparr>status = Ok, transactionId = tid, exceptionCode = 0, rdi_inputs = bits\<rparr>
           }
         })"

definition decodeReadDiscreteInputsResponse :: "bytes \<Rightarrow> ReadDiscreteInputsResponse option" where
  "decodeReadDiscreteInputsResponse d =
     do {
       h \<leftarrow> decodeMbap d;
       case h of
         Inl r \<Rightarrow> Some (mb_response.extend r \<lparr>rdi_inputs = []\<rparr>)
       | Inr (tid, mbapLength, functionCode) \<Rightarrow> decodeReadDiscreteInputsBody d tid mbapLength functionCode
     }"

definition decodeWriteSingleRegisterBody :: "bytes \<Rightarrow> u16 \<Rightarrow> u16 \<Rightarrow> u8 \<Rightarrow> WriteSingleRegisterResponse option" where
  "decodeWriteSingleRegisterBody d tid mbapLength functionCode =
     (if functionCode \<noteq> 0x06 \<or> mbapLength \<noteq> 6
      then Some \<lparr>status = Malformed, transactionId = tid, exceptionCode = 0,
                 wsr_r_address = 0, wsr_r_value = 0\<rparr>
      else do {
        a \<leftarrow> readBigEndian16 d 8;
        v \<leftarrow> readBigEndian16 d 10;
        Some \<lparr>status = Ok, transactionId = tid, exceptionCode = 0,
              wsr_r_address = a, wsr_r_value = v\<rparr>
      })"

definition decodeWriteSingleRegisterResponse :: "bytes \<Rightarrow> WriteSingleRegisterResponse option" where
  "decodeWriteSingleRegisterResponse d =
     do {
       h \<leftarrow> decodeMbap d;
       case h of
         Inl r \<Rightarrow> Some (mb_response.extend r \<lparr>wsr_r_address = 0, wsr_r_value = 0\<rparr>)
       | Inr (tid, mbapLength, functionCode) \<Rightarrow> decodeWriteSingleRegisterBody d tid mbapLength functionCode
     }"

definition decodeWriteSingleCoilBody :: "bytes \<Rightarrow> u16 \<Rightarrow> u16 \<Rightarrow> u8 \<Rightarrow> WriteSingleCoilResponse option" where
  "decodeWriteSingleCoilBody d tid mbapLength functionCode =
     (if functionCode \<noteq> 0x05 \<or> mbapLength \<noteq> 6
      then Some \<lparr>status = Malformed, transactionId = tid, exceptionCode = 0,
                 wsc_r_address = 0, wsc_r_value = False\<rparr>
      else do {
        a \<leftarrow> readBigEndian16 d 8;
        v \<leftarrow> readBigEndian16 d 10;
        Some \<lparr>status = Ok, transactionId = tid, exceptionCode = 0,
              wsc_r_address = a, wsc_r_value = (v = 0xFF00)\<rparr>
      })"

definition decodeWriteSingleCoilResponse :: "bytes \<Rightarrow> WriteSingleCoilResponse option" where
  "decodeWriteSingleCoilResponse d =
     do {
       h \<leftarrow> decodeMbap d;
       case h of
         Inl r \<Rightarrow> Some (mb_response.extend r \<lparr>wsc_r_address = 0, wsc_r_value = False\<rparr>)
       | Inr (tid, mbapLength, functionCode) \<Rightarrow> decodeWriteSingleCoilBody d tid mbapLength functionCode
     }"

definition decodeWriteMultipleRegistersBody :: "bytes \<Rightarrow> u16 \<Rightarrow> u16 \<Rightarrow> u8 \<Rightarrow> WriteMultipleRegistersResponse option" where
  "decodeWriteMultipleRegistersBody d tid mbapLength functionCode =
     (if functionCode \<noteq> 0x10 \<or> mbapLength \<noteq> 6
      then Some \<lparr>status = Malformed, transactionId = tid, exceptionCode = 0,
                 wmr_r_startAddress = 0, wmr_r_quantity = 0\<rparr>
      else do {
        a \<leftarrow> readBigEndian16 d 8;
        v \<leftarrow> readBigEndian16 d 10;
        Some \<lparr>status = Ok, transactionId = tid, exceptionCode = 0,
              wmr_r_startAddress = a, wmr_r_quantity = v\<rparr>
      })"

definition decodeWriteMultipleRegistersResponse :: "bytes \<Rightarrow> WriteMultipleRegistersResponse option" where
  "decodeWriteMultipleRegistersResponse d =
     do {
       h \<leftarrow> decodeMbap d;
       case h of
         Inl r \<Rightarrow> Some (mb_response.extend r \<lparr>wmr_r_startAddress = 0, wmr_r_quantity = 0\<rparr>)
       | Inr (tid, mbapLength, functionCode) \<Rightarrow> decodeWriteMultipleRegistersBody d tid mbapLength functionCode
     }"

definition decodeWriteMultipleCoilsBody :: "bytes \<Rightarrow> u16 \<Rightarrow> u16 \<Rightarrow> u8 \<Rightarrow> WriteMultipleCoilsResponse option" where
  "decodeWriteMultipleCoilsBody d tid mbapLength functionCode =
     (if functionCode \<noteq> 0x0f \<or> mbapLength \<noteq> 6
      then Some \<lparr>status = Malformed, transactionId = tid, exceptionCode = 0,
                 wmc_r_startAddress = 0, wmc_r_quantity = 0\<rparr>
      else do {
        a \<leftarrow> readBigEndian16 d 8;
        v \<leftarrow> readBigEndian16 d 10;
        Some \<lparr>status = Ok, transactionId = tid, exceptionCode = 0,
              wmc_r_startAddress = a, wmc_r_quantity = v\<rparr>
      })"

definition decodeWriteMultipleCoilsResponse :: "bytes \<Rightarrow> WriteMultipleCoilsResponse option" where
  "decodeWriteMultipleCoilsResponse d =
     do {
       h \<leftarrow> decodeMbap d;
       case h of
         Inl r \<Rightarrow> Some (mb_response.extend r \<lparr>wmc_r_startAddress = 0, wmc_r_quantity = 0\<rparr>)
       | Inr (tid, mbapLength, functionCode) \<Rightarrow> decodeWriteMultipleCoilsBody d tid mbapLength functionCode
     }"

section \<open>No read outside the buffer; more bytes never change an answer\<close>

lemma readBigEndian16_Some [byte_reads]:
  "i + 1 < length d \<Longrightarrow> readBigEndian16 d i = Some (push_bit 8 (ucast (d ! i)) OR ucast (d ! (i + 1)))"
  by (simp add: readBigEndian16_def byte_at_def)

lemma readBigEndian16_append:
  "i + 1 < length d \<Longrightarrow> readBigEndian16 (d @ e) i = readBigEndian16 d i"
  by (simp add: readBigEndian16_def byte_at_append)

lemma readRegisters_total: "even (stop - index) \<Longrightarrow> stop \<le> length d \<Longrightarrow> \<exists>rs. readRegisters d index stop = Some rs"
proof (induction d index stop rule: readRegisters.induct)
  case (1 d index stop)
  show ?case
  proof (cases "index < stop")
    case True
    then have "index + 1 < length d" using "1.prems" by presburger
    moreover have "even (stop - (index + 2))" using "1.prems"(1) True by presburger
    ultimately show ?thesis using True "1.IH" "1.prems"(2)
      by (subst readRegisters.simps) (fastforce simp: byte_reads)
  qed (simp add: readRegisters.simps)
qed

lemma readRegisters_append:
  "even (stop - index) \<Longrightarrow> stop \<le> length d \<Longrightarrow> readRegisters (d @ e) index stop = readRegisters d index stop"
proof (induction d index stop rule: readRegisters.induct)
  case (1 d index stop)
  show ?case
  proof (cases "index < stop")
    case True
    then have "index + 1 < length d" using "1.prems" by presburger
    moreover have "even (stop - (index + 2))" using "1.prems"(1) True by presburger
    ultimately show ?thesis using True "1.IH" "1.prems"(2)
      by (subst (1 2) readRegisters.simps) (simp add: byte_reads)
  qed (simp add: readRegisters.simps)
qed

lemma unpackBits_total: "offset + n \<le> length d \<Longrightarrow> \<exists>bs. unpackBits d offset n = Some bs"
proof (induction n arbitrary: offset)
  case (Suc n)
  then obtain bs where "unpackBits d (offset + 1) n = Some bs" by fastforce
  then show ?case using Suc.prems by (simp add: byte_reads)
qed simp

lemma unpackBits_append: "offset + n \<le> length d \<Longrightarrow> unpackBits (d @ e) offset n = unpackBits d offset n"
  by (induction n arbitrary: offset) (auto simp: byte_reads)

lemma decodeMbap_total: "\<exists>h. decodeMbap d = Some h"
proof -
  have "unat (push_bit 8 (ucast (d ! 4)) OR ucast (d ! 5) :: u16) \<ge> 3"
    if "\<not> (push_bit 8 (ucast (d ! 4)) OR ucast (d ! 5) :: u16) < 3"
    using that by (simp add: word_less_nat_alt)
  then show ?thesis by (auto simp: decodeMbap_def byte_reads Let_def)
qed

lemma decodeMbap_InrD:
  assumes "decodeMbap d = Some (Inr (tid, len, fc))"
  shows "6 + unat len \<le> length d" and "8 \<le> length d" and "fc AND 0x80 = 0"
  using assms by (auto simp: decodeMbap_def byte_reads Let_def split: if_splits bind_splits)

lemma decodeMbap_stable:
  assumes "decodeMbap d = Some h" and "\<And>r. h = Inl r \<Longrightarrow> status r \<noteq> Incomplete"
  shows "decodeMbap (d @ e) = Some h"
proof -
  have len: "8 \<le> length d" using assms by (auto simp: decodeMbap_def split: if_splits)
  have frame: "6 + unat (push_bit 8 (ucast (d ! 4)) OR ucast (d ! 5) :: u16) \<le> length d"
    using assms len by (auto simp: decodeMbap_def byte_reads Let_def split: if_splits)
  have "readBigEndian16 (d @ e) i = readBigEndian16 d i" if "i \<in> {0, 2, 4}" for i
    using that len by (intro readBigEndian16_append) auto
  moreover have "byte_at (d @ e) 7 = byte_at d 7"
    using len by (intro byte_at_append) auto
  moreover have "byte_at (d @ e) 8 = byte_at d 8"
    if "\<not> (push_bit 8 (ucast (d ! 4)) OR ucast (d ! 5) :: u16) < 3"
    using that frame by (intro byte_at_append) (simp add: word_less_nat_alt)
  ultimately have "decodeMbap (d @ e) = decodeMbap d"
    using len frame by (simp add: decodeMbap_def readBigEndian16_Some [of 4 d] Let_def cong: if_cong)
  then show ?thesis using assms(1) by simp
qed

section \<open>The eight decoders as stream decoders\<close>

text \<open>
  The contract of the eight decoders: the common header part, then a body that is total and looks
  only at the frame. Every such decoder is a stream decoder.
\<close>

locale mbap_decoder =
  fixes dec :: "bytes \<Rightarrow> 'r option"
    and stat :: "'r \<Rightarrow> ResponseStatus"
    and ext :: "mb_response \<Rightarrow> 'r"
    and body :: "bytes \<Rightarrow> u16 \<Rightarrow> u16 \<Rightarrow> u8 \<Rightarrow> 'r option"
  assumes dec_eq: "dec d = (decodeMbap d \<bind>
      (\<lambda>h. case h of Inl r \<Rightarrow> Some (ext r) | Inr (tid, len, fc) \<Rightarrow> body d tid len fc))"
    and stat_ext: "stat (ext r) = status r"
    and body_total: "6 + unat len \<le> length d \<Longrightarrow> 8 \<le> length d
      \<Longrightarrow> \<exists>r. body d tid len fc = Some r"
    and body_append: "6 + unat len \<le> length d \<Longrightarrow> 8 \<le> length d
      \<Longrightarrow> body (d @ e) tid len fc = body d tid len fc"

sublocale mbap_decoder \<subseteq> stream_decoder dec "\<lambda>r. stat r = Incomplete"
proof
  fix d
  obtain h where h: "decodeMbap d = Some h" using decodeMbap_total by blast
  show "\<exists>r. dec d = Some r"
  proof (cases h)
    case (Inr x)
    then show ?thesis using h decodeMbap_InrD [of d] body_total [of _ d]
      by (cases x) (auto simp: dec_eq)
  qed (simp add: dec_eq h)
next
  fix d e r
  assume r: "dec d = Some r" and fin: "stat r \<noteq> Incomplete"
  obtain h where h: "decodeMbap d = Some h" using decodeMbap_total by blast
  then have h': "decodeMbap (d @ e) = Some h"
    using r fin by (intro decodeMbap_stable) (auto simp: dec_eq stat_ext)
  show "dec (d @ e) = Some r"
  proof (cases h)
    case (Inl a)
    then show ?thesis using r h h' by (simp add: dec_eq)
  next
    case (Inr x)
    obtain tid len fc where x: "x = (tid, len, fc)" by (cases x) auto
    note dims = decodeMbap_InrD [OF h [unfolded Inr x]]
    show ?thesis using r h h' body_append [OF dims(1,2)] by (simp add: dec_eq Inr x)
  qed
qed

text \<open>The byte count of a read response lies inside the frame.\<close>

lemma unat_3_plus_byte: "unat (3 + ucast b :: u16) = 3 + unat (b :: u8)"
  using unat_byte_less [of b] by (simp add: unat_word_ariths)

lemma read_body_bounds:
  assumes "6 + unat len \<le> length d" and "\<not> len < (3 :: u16)"
  shows "8 < length d"
  using assms by (simp add: word_less_nat_alt)

lemma read_body_bytes:
  assumes "6 + unat len \<le> length d" and "len = (3 + ucast b :: u16)"
  shows "9 + unat (b :: u8) \<le> length d"
  using assms by (simp add: unat_3_plus_byte)

interpretation rhr: mbap_decoder decodeReadHoldingRegistersResponse status
  "\<lambda>r. mb_response.extend r \<lparr>rhr_registers = []\<rparr>" decodeReadHoldingRegistersBody
proof
  fix len :: u16 and d e :: bytes and tid fc
  assume len: "6 + unat len \<le> length d"
  note b = read_body_bounds [OF len] read_body_bytes [OF len]
  show "\<exists>r. decodeReadHoldingRegistersBody d tid len fc = Some r"
    using b readRegisters_total [of "9 + unat (d ! 8)" 9 d]
    by (auto simp: decodeReadHoldingRegistersBody_def byte_at_Some byte_mod_2_even Let_def)
  show "decodeReadHoldingRegistersBody (d @ e) tid len fc = decodeReadHoldingRegistersBody d tid len fc"
    using b readRegisters_append [of "9 + unat (d ! 8)" 9 d e]
    by (auto simp: decodeReadHoldingRegistersBody_def byte_at_Some byte_at_append byte_mod_2_even Let_def)
qed (simp_all add: decodeReadHoldingRegistersResponse_def mb_response.defs)

interpretation rir: mbap_decoder decodeReadInputRegistersResponse status
  "\<lambda>r. mb_response.extend r \<lparr>rir_registers = []\<rparr>" decodeReadInputRegistersBody
proof
  fix len :: u16 and d e :: bytes and tid fc
  assume len: "6 + unat len \<le> length d"
  note b = read_body_bounds [OF len] read_body_bytes [OF len]
  show "\<exists>r. decodeReadInputRegistersBody d tid len fc = Some r"
    using b readRegisters_total [of "9 + unat (d ! 8)" 9 d]
    by (auto simp: decodeReadInputRegistersBody_def byte_at_Some byte_mod_2_even Let_def)
  show "decodeReadInputRegistersBody (d @ e) tid len fc = decodeReadInputRegistersBody d tid len fc"
    using b readRegisters_append [of "9 + unat (d ! 8)" 9 d e]
    by (auto simp: decodeReadInputRegistersBody_def byte_at_Some byte_at_append byte_mod_2_even Let_def)
qed (simp_all add: decodeReadInputRegistersResponse_def mb_response.defs)

interpretation rc: mbap_decoder decodeReadCoilsResponse status
  "\<lambda>r. mb_response.extend r \<lparr>rc_coils = []\<rparr>" decodeReadCoilsBody
proof
  fix len :: u16 and d e :: bytes and tid fc
  assume len: "6 + unat len \<le> length d"
  note b = read_body_bounds [OF len] read_body_bytes [OF len]
  show "\<exists>r. decodeReadCoilsBody d tid len fc = Some r"
    using b unpackBits_total [of 9 "unat (d ! 8)" d]
    by (auto simp: decodeReadCoilsBody_def byte_at_Some Let_def)
  show "decodeReadCoilsBody (d @ e) tid len fc = decodeReadCoilsBody d tid len fc"
    using b unpackBits_append [of 9 "unat (d ! 8)" d e]
    by (auto simp: decodeReadCoilsBody_def byte_at_Some byte_at_append Let_def)
qed (simp_all add: decodeReadCoilsResponse_def mb_response.defs)

interpretation rdi: mbap_decoder decodeReadDiscreteInputsResponse status
  "\<lambda>r. mb_response.extend r \<lparr>rdi_inputs = []\<rparr>" decodeReadDiscreteInputsBody
proof
  fix len :: u16 and d e :: bytes and tid fc
  assume len: "6 + unat len \<le> length d"
  note b = read_body_bounds [OF len] read_body_bytes [OF len]
  show "\<exists>r. decodeReadDiscreteInputsBody d tid len fc = Some r"
    using b unpackBits_total [of 9 "unat (d ! 8)" d]
    by (auto simp: decodeReadDiscreteInputsBody_def byte_at_Some Let_def)
  show "decodeReadDiscreteInputsBody (d @ e) tid len fc = decodeReadDiscreteInputsBody d tid len fc"
    using b unpackBits_append [of 9 "unat (d ! 8)" d e]
    by (auto simp: decodeReadDiscreteInputsBody_def byte_at_Some byte_at_append Let_def)
qed (simp_all add: decodeReadDiscreteInputsResponse_def mb_response.defs)

interpretation wsr: mbap_decoder decodeWriteSingleRegisterResponse status
  "\<lambda>r. mb_response.extend r \<lparr>wsr_r_address = 0, wsr_r_value = 0\<rparr>" decodeWriteSingleRegisterBody
proof
  fix len :: u16 and d e :: bytes and tid fc
  assume len: "6 + unat len \<le> length d"
  show "\<exists>r. decodeWriteSingleRegisterBody d tid len fc = Some r"
    using len by (auto simp: decodeWriteSingleRegisterBody_def byte_reads)
  show "decodeWriteSingleRegisterBody (d @ e) tid len fc = decodeWriteSingleRegisterBody d tid len fc"
    using len by (auto simp: decodeWriteSingleRegisterBody_def readBigEndian16_append)
qed (simp_all add: decodeWriteSingleRegisterResponse_def mb_response.defs)

interpretation wsc: mbap_decoder decodeWriteSingleCoilResponse status
  "\<lambda>r. mb_response.extend r \<lparr>wsc_r_address = 0, wsc_r_value = False\<rparr>" decodeWriteSingleCoilBody
proof
  fix len :: u16 and d e :: bytes and tid fc
  assume len: "6 + unat len \<le> length d"
  show "\<exists>r. decodeWriteSingleCoilBody d tid len fc = Some r"
    using len by (auto simp: decodeWriteSingleCoilBody_def byte_reads)
  show "decodeWriteSingleCoilBody (d @ e) tid len fc = decodeWriteSingleCoilBody d tid len fc"
    using len by (auto simp: decodeWriteSingleCoilBody_def readBigEndian16_append)
qed (simp_all add: decodeWriteSingleCoilResponse_def mb_response.defs)

interpretation wmr: mbap_decoder decodeWriteMultipleRegistersResponse status
  "\<lambda>r. mb_response.extend r \<lparr>wmr_r_startAddress = 0, wmr_r_quantity = 0\<rparr>" decodeWriteMultipleRegistersBody
proof
  fix len :: u16 and d e :: bytes and tid fc
  assume len: "6 + unat len \<le> length d"
  show "\<exists>r. decodeWriteMultipleRegistersBody d tid len fc = Some r"
    using len by (auto simp: decodeWriteMultipleRegistersBody_def byte_reads)
  show "decodeWriteMultipleRegistersBody (d @ e) tid len fc = decodeWriteMultipleRegistersBody d tid len fc"
    using len by (auto simp: decodeWriteMultipleRegistersBody_def readBigEndian16_append)
qed (simp_all add: decodeWriteMultipleRegistersResponse_def mb_response.defs)

interpretation wmc: mbap_decoder decodeWriteMultipleCoilsResponse status
  "\<lambda>r. mb_response.extend r \<lparr>wmc_r_startAddress = 0, wmc_r_quantity = 0\<rparr>" decodeWriteMultipleCoilsBody
proof
  fix len :: u16 and d e :: bytes and tid fc
  assume len: "6 + unat len \<le> length d"
  show "\<exists>r. decodeWriteMultipleCoilsBody d tid len fc = Some r"
    using len by (auto simp: decodeWriteMultipleCoilsBody_def byte_reads)
  show "decodeWriteMultipleCoilsBody (d @ e) tid len fc = decodeWriteMultipleCoilsBody d tid len fc"
    using len by (auto simp: decodeWriteMultipleCoilsBody_def readBigEndian16_append)
qed (simp_all add: decodeWriteMultipleCoilsResponse_def mb_response.defs)

section \<open>Reference encoding of the responses\<close>

text \<open>
  What a Modbus server sends: the MBAP header (transaction id, protocol id 0, length of what
  follows, unit id) and the PDU. The codec has no encoder for responses; these definitions state
  the wire format the decoders are meant to accept.
\<close>

definition be16 :: "u16 \<Rightarrow> bytes" where
  "be16 v = [ucast (drop_bit 8 v), ucast v]"

definition mbap_frame :: "u16 \<Rightarrow> u8 \<Rightarrow> bytes \<Rightarrow> bytes" where
  "mbap_frame tid unit pdu = be16 tid @ be16 0 @ be16 (of_nat (length pdu + 1)) @ [unit] @ pdu"

definition registers_pdu :: "u8 \<Rightarrow> u16 list \<Rightarrow> bytes" where
  "registers_pdu fc regs = fc # of_nat (2 * length regs) # concat (map be16 regs)"

definition bits_pdu :: "u8 \<Rightarrow> bytes \<Rightarrow> bytes" where
  "bits_pdu fc packed = fc # of_nat (length packed) # packed"

definition echo_pdu :: "u8 \<Rightarrow> u16 \<Rightarrow> u16 \<Rightarrow> bytes" where
  "echo_pdu fc a v = fc # be16 a @ be16 v"

lemma length_be16 [simp]: "length (be16 v) = 2"
  by (simp add: be16_def)

lemma appendBigEndian16_be16: "appendBigEndian16 d v = d @ be16 v"
  by (simp add: appendBigEndian16_def be16_def)

lemma readBigEndian16_be16 [simp]: "readBigEndian16 (be16 v @ d) 0 = Some v"
  by (simp add: be16_def readBigEndian16_def byte_at_def)

interpretation be16: prefix_code be16 "\<lambda>d. map_option (\<lambda>v. (v, 2)) (readBigEndian16 d 0)"
  by unfold_locales simp

lemma be16_join: "be16 (push_bit 8 (ucast (a :: u8)) OR ucast (b :: u8)) = [a, b]"
  by (simp only: be16_def split_join16)

lemma readBigEndian16_skip [simp]:
  "length a \<le> i \<Longrightarrow> readBigEndian16 (a @ d) i = readBigEndian16 d (i - length a)"
  by (auto simp: readBigEndian16_def byte_at_def nth_append Suc_diff_le)

lemma byte_at_skip [simp]: "length a \<le> i \<Longrightarrow> byte_at (a @ d) i = byte_at d (i - length a)"
  by (auto simp: byte_at_def nth_append)

lemma decodeMbap_header:
  assumes "2 \<le> unat len" and "unat len \<le> length rest + 2" and "fc AND 0x80 = 0"
  shows "decodeMbap (be16 tid @ be16 0 @ be16 len @ [unit, fc] @ rest) = Some (Inr (tid, len, fc))"
  using assms
  by (simp add: decodeMbap_def Let_def byte_at_def [of "_ # _"] word_less_nat_alt)

lemma decodeMbap_headerD:
  assumes "decodeMbap d = Some (Inr (tid, len, fc))"
  shows "\<exists>unit rest. d = be16 tid @ be16 0 @ be16 len @ [unit, fc] @ rest
           \<and> 2 \<le> unat len \<and> unat len \<le> length rest + 2 \<and> fc AND 0x80 = 0"
proof -
  have "8 \<le> length d" using decodeMbap_InrD [OF assms] by simp
  then obtain a0 a1 a2 a3 a4 a5 a6 a7 rest where d: "d = a0 # a1 # a2 # a3 # a4 # a5 # a6 # a7 # rest"
    by (auto simp: numeral_eq_Suc Suc_le_length_iff)
  let ?j = "\<lambda>a b. push_bit 8 (ucast (a :: u8)) OR ucast (b :: u8) :: u16"
  have r: "readBigEndian16 d 0 = Some (?j a0 a1)" "readBigEndian16 d 2 = Some (?j a2 a3)"
    "readBigEndian16 d 4 = Some (?j a4 a5)" "byte_at d 7 = Some a7"
    by (simp_all add: d readBigEndian16_def byte_at_def)
  have eqs: "tid = ?j a0 a1" "0 = ?j a2 a3" "len = ?j a4 a5" "fc = a7" "fc AND 0x80 = 0"
    "2 \<le> unat len" "6 + unat len \<le> length d"
    using assms \<open>8 \<le> length d\<close>
    by (auto simp only: decodeMbap_def r Let_def bind.bind_lunit word_less_nat_alt split: if_splits)
      (auto split: bind_splits)
  have "d = be16 tid @ be16 0 @ be16 len @ [a6, fc] @ rest"
    unfolding eqs(1-4) be16_join by (simp add: d)
  moreover have "unat len \<le> length rest + 2" using eqs(7) d by simp
  ultimately show ?thesis using eqs(5,6) by blast
qed

lemma readRegisters_be16:
  "readRegisters (pre @ concat (map be16 regs) @ rest) (length pre) (length pre + 2 * length regs)
   = Some regs"
proof (induction regs arbitrary: pre)
  case Nil
  then show ?case by (simp add: readRegisters.simps)
next
  case (Cons r regs)
  then show ?case using Cons.IH [of "pre @ be16 r"]
    by (subst readRegisters.simps) (simp add: algebra_simps)
qed

lemma even_bytes_be16: "length bs = 2 * n \<Longrightarrow> \<exists>regs. length regs = n \<and> bs = concat (map be16 regs)"
proof (induction n arbitrary: bs)
  case 0
  then show ?case by simp
next
  case (Suc n)
  then obtain a b bs' where bs: "bs = a # b # bs'" and "length bs' = 2 * n"
    by (auto simp: length_Suc_conv)
  then obtain regs where "length regs = n" "bs' = concat (map be16 regs)" using Suc.IH by blast
  then have "length ((push_bit 8 (ucast a) OR ucast b) # regs) = Suc n
      \<and> bs = concat (map be16 ((push_bit 8 (ucast a) OR ucast b) # regs))"
    by (simp add: bs be16_join)
  then show ?case by blast
qed

definition byte_bits :: "u8 \<Rightarrow> bool list" where
  "byte_bits b = map (bit b) [0..<8]"

lemma unpackBits_bits:
  "unpackBits (pre @ bs @ rest) (length pre) (length bs) = Some (concat (map byte_bits bs))"
proof (induction bs arbitrary: pre)
  case Nil
  then show ?case by simp
next
  case (Cons b bs)
  have "map (\<lambda>k. b AND push_bit k 1 \<noteq> 0) [0..<8] = byte_bits b"
    unfolding byte_bits_def by (rule map_cong) simp_all
  then show ?case using Cons.IH [of "pre @ [b]"] by (simp add: byte_at_def)
qed

text \<open>The packed bytes hold coil n at bit n mod 8 of byte n div 8, and zeros after the last coil.\<close>

lemma length_packBits_loop [simp]: "length (packBits_loop vs i packed) = length packed"
  by (induction vs i packed rule: packBits_loop.induct) auto

lemma bit_packBits_loop:
  assumes "i + length vs \<le> 8 * length packed" and "j < length packed" and "k < 8"
  shows "bit (packBits_loop vs i packed ! j) k
       \<longleftrightarrow> bit (packed ! j) k \<or> i \<le> 8 * j + k \<and> 8 * j + k < i + length vs \<and> vs ! (8 * j + k - i)"
  using assms
proof (induction vs i packed rule: packBits_loop.induct)
  case (1 i packed)
  then show ?case by auto
next
  case (2 v vs i packed)
  let ?p = "if v then packed[i div 8 := packed ! (i div 8) OR push_bit (i mod 8) 1] else packed"
  have step: "bit (?p ! j) k \<longleftrightarrow> bit (packed ! j) k \<or> 8 * j + k = i \<and> v"
  proof (cases "j = i div 8")
    case True
    have "i mod 8 = k \<longleftrightarrow> 8 * j + k = i" using True "2.prems"(3) by presburger
    then show ?thesis using True "2.prems" by (auto simp: bit_simps)
  next
    case False
    have "8 * j + k \<noteq> i" using False "2.prems"(3) by auto
    then show ?thesis using False by simp
  qed
  have "bit (packBits_loop vs (i + 1) ?p ! j) k \<longleftrightarrow> bit (?p ! j) k \<or>
      i + 1 \<le> 8 * j + k \<and> 8 * j + k < i + 1 + length vs \<and> vs ! (8 * j + k - (i + 1))"
    using "2.prems" by (intro "2.IH") auto
  moreover have "8 * j + k \<noteq> i \<Longrightarrow> i \<le> 8 * j + k \<Longrightarrow> (v # vs) ! (8 * j + k - i) = vs ! (8 * j + k - (i + 1))"
    by (simp add: nth_Cons')
  ultimately show ?case using step by (cases "8 * j + k = i") auto
qed

lemma length_packBits: "length (packBits vs) = (length vs + 7) div 8"
  by (simp add: packBits_def)

lemma bit_packBits:
  assumes "j < length (packBits vs)" and "k < 8"
  shows "bit (packBits vs ! j) k \<longleftrightarrow> 8 * j + k < length vs \<and> vs ! (8 * j + k)"
proof -
  have "length vs \<le> 8 * ((length vs + 7) div 8)" by simp
  then show ?thesis using assms
    by (simp add: packBits_def bit_packBits_loop)
qed

lemma length_byte_bits [simp]: "length (byte_bits b) = 8"
  by (simp add: byte_bits_def)

lemma unpack_packBits:
  "concat (map byte_bits (packBits vs)) = vs @ replicate (8 * length (packBits vs) - length vs) False"
proof (rule nth_equalityI)
  have le: "length vs \<le> 8 * length (packBits vs)" unfolding length_packBits by simp
  then show len: "length (concat (map byte_bits (packBits vs)))
      = length (vs @ replicate (8 * length (packBits vs) - length vs) False)"
    using length_concat_uniform [of byte_bits 8 "packBits vs"] by simp
  fix n
  assume "n < length (concat (map byte_bits (packBits vs)))"
  then have n: "n < 8 * length (packBits vs)"
    using length_concat_uniform [of byte_bits 8 "packBits vs"] by simp
  then have j: "n div 8 < length (packBits vs)" by auto
  have "concat (map byte_bits (packBits vs)) ! n = bit (packBits vs ! (n div 8)) (n mod 8)"
    using nth_concat_uniform [of byte_bits 8 n "packBits vs"] n by (simp add: byte_bits_def)
  also have "\<dots> \<longleftrightarrow> n < length vs \<and> vs ! n"
    using bit_packBits [OF j, of "n mod 8"] by simp
  finally show "concat (map byte_bits (packBits vs)) ! n
      = (vs @ replicate (8 * length (packBits vs) - length vs) False) ! n"
    using n le by (auto simp: nth_append)
qed

text \<open>What each decoder's body does on the bytes that follow the header.\<close>

lemma unat_Suc_len_u16: "n + 1 < 65536 \<Longrightarrow> unat (of_nat (n + 1) :: u16) = n + 1"
  by (rule unat_of_nat_u16)

lemma decodeMbap_frame:
  assumes "length pdu + 1 < 65536" and "pdu = fc # args" and "fc AND 0x80 = 0"
  shows "decodeMbap (mbap_frame tid unit pdu @ rest) = Some (Inr (tid, of_nat (length pdu + 1), fc))"
proof -
  have u: "unat (of_nat (length pdu + 1) :: u16) = length pdu + 1"
    using assms(1) by (rule unat_of_nat_u16)
  have h1: "2 \<le> unat (of_nat (length pdu + 1) :: u16)"
    unfolding u using assms(2) by simp
  have h2: "unat (of_nat (length pdu + 1) :: u16) \<le> length (args @ rest) + 2"
    unfolding u using assms(2) by simp
  show ?thesis
    using decodeMbap_header [OF h1 h2 assms(3), of tid unit] assms(2) by (simp add: mbap_frame_def)
qed

lemma frame_rest_at_8:
  "mbap_frame tid unit (fc # args) @ rest
   = (be16 tid @ be16 0 @ be16 (of_nat (length args + 2)) @ [unit, fc]) @ args @ rest"
  by (simp add: mbap_frame_def)

lemma of_nat_len_inj16:
  "m < 65536 \<Longrightarrow> n < 65536 \<Longrightarrow> (of_nat m :: u16) = of_nat n \<longleftrightarrow> m = n"
  by (metis unat_of_nat_u16)

lemma registers_of_frame:
  assumes "length regs \<le> 127" and d: "d = mbap_frame tid unit (registers_pdu fc regs) @ rest"
  shows "byte_at d 8 = Some (of_nat (2 * length regs))"
    and "readRegisters d 9 (9 + unat (of_nat (2 * length regs) :: u8)) = Some regs"
proof -
  let ?pre = "be16 tid @ be16 0 @ be16 (of_nat (2 * length regs + 3)) @ [unit, fc, of_nat (2 * length regs)]"
  have len: "length (concat (map be16 regs)) = 2 * length regs"
    by (rule length_concat_uniform) simp
  have d': "d = ?pre @ concat (map be16 regs) @ rest"
    by (simp add: d registers_pdu_def mbap_frame_def len algebra_simps)
  show "byte_at d 8 = Some (of_nat (2 * length regs))"
    by (simp add: d' byte_at_def [of "_ # _"])
  have "unat (of_nat (2 * length regs) :: u8) = 2 * length regs"
    using assms(1) by (intro unat_of_nat_byte) simp
  then show "readRegisters d 9 (9 + unat (of_nat (2 * length regs) :: u8)) = Some regs"
    using readRegisters_be16 [of ?pre regs rest] by (simp add: d')
qed

lemma length_registers_pdu [simp]: "length (registers_pdu fc regs) = 2 + 2 * length regs"
  using length_concat_uniform [of be16 2 regs] by (simp add: registers_pdu_def)

lemma of_nat_3_byte: "n < 256 \<Longrightarrow> (3 + ucast (of_nat n :: u8) :: u16) = of_nat (3 + n)"
  by (rule word_unat_eq_iff [THEN iffD2], subst unat_of_nat_u16)
    (simp_all add: unat_3_plus_byte unat_of_nat_byte)

lemma even_of_nat_byte: "n \<le> 127 \<Longrightarrow> (of_nat (2 * n) :: u8) mod 2 = 0"
  by (subst byte_mod_2_even, subst unat_of_nat_byte) simp_all

text \<open>Conversely, a header and a body that passes the byte-count checks is such a frame.\<close>

lemma registers_frame_exists:
  assumes "decodeMbap d = Some (Inr (tid, len, fc))" and "len = 3 + ucast bc"
    and "byte_at d 8 = Some bc" and "bc mod 2 = 0"
  shows "\<exists>unit regs rest. length regs \<le> 127 \<and> d = mbap_frame tid unit (registers_pdu fc regs) @ rest"
proof -
  obtain unit r where d: "d = be16 tid @ be16 0 @ be16 len @ [unit, fc] @ r"
    and len: "unat len \<le> length r + 2"
    using decodeMbap_headerD [OF assms(1)] by blast
  have r: "length r \<ge> 1 + unat bc" using len assms(2) by (simp add: unat_3_plus_byte)
  then obtain r' where r': "r = bc # r'"
    using assms(3) by (cases r) (auto simp: d byte_at_def [of "_ # _"])
  obtain n where n: "unat bc = 2 * n" using assms(4) byte_mod_2_even [of bc] by (auto elim: evenE)
  then obtain regs where regs: "length regs = n" "take (2 * n) r' = concat (map be16 regs)"
    using even_bytes_be16 [of "take (2 * n) r'" n] r r' by auto
  have n127: "n \<le> 127" using n unat_byte_less [of bc] by simp
  have bc: "bc = of_nat (2 * n)" by (metis n unat_of_nat_byte n127 word_unat_eq_iff unat_byte_less)
  have "d = mbap_frame tid unit (registers_pdu fc regs) @ drop (2 * n) r'"
  proof -
    have "len = of_nat (2 * n + 3)"
      using of_nat_3_byte [of "2 * n"] assms(2) bc n127 by (simp add: add.commute)
    moreover have "r' = concat (map be16 regs) @ drop (2 * n) r'"
      by (metis append_take_drop_id regs(2))
    moreover have "length (concat (map be16 regs)) = 2 * n"
      using regs(1) length_concat_uniform [of be16 2 regs] by simp
    ultimately show ?thesis
      using regs(1) bc by (simp add: d r' mbap_frame_def registers_pdu_def algebra_simps)
  qed
  then show ?thesis using regs(1) n127 by blast
qed

lemma length_bits_pdu [simp]: "length (bits_pdu fc packed) = 2 + length packed"
  by (simp add: bits_pdu_def)

lemma bits_of_frame:
  assumes "length packed \<le> 255" and d: "d = mbap_frame tid unit (bits_pdu fc packed) @ rest"
  shows "byte_at d 8 = Some (of_nat (length packed))"
    and "unpackBits d 9 (unat (of_nat (length packed) :: u8)) = Some (concat (map byte_bits packed))"
proof -
  let ?pre = "be16 tid @ be16 0 @ be16 (of_nat (length packed + 3)) @ [unit, fc, of_nat (length packed)]"
  have d': "d = ?pre @ packed @ rest"
    by (simp add: d bits_pdu_def mbap_frame_def algebra_simps)
  show "byte_at d 8 = Some (of_nat (length packed))"
    by (simp add: d' byte_at_def [of "_ # _"])
  have "unat (of_nat (length packed) :: u8) = length packed"
    using assms(1) by (intro unat_of_nat_byte) simp
  then show "unpackBits d 9 (unat (of_nat (length packed) :: u8)) = Some (concat (map byte_bits packed))"
    using unpackBits_bits [of ?pre packed rest] by (simp add: d')
qed

lemma bits_frame_exists:
  assumes "decodeMbap d = Some (Inr (tid, len, fc))" and "len = 3 + ucast bc"
    and "byte_at d 8 = Some bc"
  shows "\<exists>unit packed rest. length packed \<le> 255 \<and> d = mbap_frame tid unit (bits_pdu fc packed) @ rest"
proof -
  obtain unit r where d: "d = be16 tid @ be16 0 @ be16 len @ [unit, fc] @ r"
    and len: "unat len \<le> length r + 2"
    using decodeMbap_headerD [OF assms(1)] by blast
  have r: "length r \<ge> 1 + unat bc" using len assms(2) by (simp add: unat_3_plus_byte)
  then obtain r' where r': "r = bc # r'"
    using assms(3) by (cases r) (auto simp: d byte_at_def [of "_ # _"])
  let ?p = "take (unat bc) r'"
  have p: "length ?p = unat bc" using r r' by simp
  have "len = of_nat (3 + unat bc)"
    using of_nat_3_byte [of "unat bc"] assms(2) unat_byte_less [of bc] by simp
  then have "d = mbap_frame tid unit (bits_pdu fc ?p) @ drop (unat bc) r'"
    using p by (simp add: d r' mbap_frame_def bits_pdu_def algebra_simps)
  moreover have "length ?p \<le> 255" using p unat_byte_less [of bc] by simp
  ultimately show ?thesis by blast
qed

lemma echo_frame_exists:
  assumes "decodeMbap d = Some (Inr (tid, 6, fc))"
  shows "\<exists>unit a v rest. d = mbap_frame tid unit (echo_pdu fc a v) @ rest"
proof -
  obtain unit r where d: "d = be16 tid @ be16 0 @ be16 6 @ [unit, fc] @ r" and "4 \<le> length r"
    using decodeMbap_headerD [OF assms] by auto
  then obtain a0 a1 a2 a3 rest where "r = a0 # a1 # a2 # a3 # rest"
    by (auto simp: numeral_eq_Suc Suc_le_length_iff)
  then have "d = mbap_frame tid unit (echo_pdu fc (push_bit 8 (ucast a0) OR ucast a1)
      (push_bit 8 (ucast a2) OR ucast a3)) @ rest"
    by (simp add: d mbap_frame_def echo_pdu_def be16_join)
  then show ?thesis by blast
qed

lemma echo_of_frame:
  assumes d: "d = mbap_frame tid unit (echo_pdu fc a v) @ rest"
  shows "readBigEndian16 d 8 = Some a" and "readBigEndian16 d 10 = Some v"
proof -
  have d': "d = (be16 tid @ be16 0 @ be16 6 @ [unit, fc]) @ be16 a @ be16 v @ rest"
    by (simp add: d mbap_frame_def echo_pdu_def)
  show "readBigEndian16 d 8 = Some a" "readBigEndian16 d 10 = Some v"
    using readBigEndian16_skip [of "[unit, fc]" 2 "be16 a @ be16 v @ rest"]
      readBigEndian16_skip [of "[unit, fc]" 4 "be16 a @ be16 v @ rest"]
    by (simp_all add: d')
qed

lemma length_echo_pdu [simp]: "length (echo_pdu fc a v) = 5"
  by (simp add: echo_pdu_def)

text \<open>
  The three shapes of an accepted response, for any function code: the header and the checks of the
  decoder's body succeed exactly on the frames of the wire format.
\<close>

lemma registers_accepted_iff:
  assumes "fc AND 0x80 = 0"
  shows "(\<exists>bc. decodeMbap d = Some (Inr (tid, 3 + ucast bc, fc)) \<and> byte_at d 8 = Some bc
            \<and> bc mod 2 = 0 \<and> readRegisters d 9 (9 + unat bc) = Some regs)
     \<longleftrightarrow> (\<exists>unit rest. length regs \<le> 127 \<and> d = mbap_frame tid unit (registers_pdu fc regs) @ rest)"
    (is "?l \<longleftrightarrow> ?r")
proof
  assume ?l
  then obtain bc where h: "decodeMbap d = Some (Inr (tid, 3 + ucast bc, fc))"
    and bc: "byte_at d 8 = Some bc" "bc mod 2 = 0"
    and regs: "readRegisters d 9 (9 + unat bc) = Some regs"
    by (elim exE conjE) (rule that)
  obtain unit regs' rest where len': "length regs' \<le> 127"
    and d: "d = mbap_frame tid unit (registers_pdu fc regs') @ rest"
    using registers_frame_exists [OF h refl bc] by blast
  have "regs' = regs" using registers_of_frame [OF len' d] bc regs by auto
  then show ?r using len' d by blast
next
  assume ?r
  then obtain unit rest where len: "length regs \<le> 127"
    and d: "d = mbap_frame tid unit (registers_pdu fc regs) @ rest" by blast
  have "decodeMbap d = Some (Inr (tid, of_nat (length (registers_pdu fc regs) + 1), fc))"
    unfolding d using len by (intro decodeMbap_frame [OF _ registers_pdu_def assms]) simp
  moreover have "(3 + ucast (of_nat (2 * length regs) :: u8) :: u16)
      = of_nat (length (registers_pdu fc regs) + 1)"
    using len by (subst of_nat_3_byte) simp_all
  ultimately show ?l
    using registers_of_frame [OF len d] even_of_nat_byte [OF len] by metis
qed

lemma bits_accepted_iff:
  assumes "fc AND 0x80 = 0"
  shows "(\<exists>bc. decodeMbap d = Some (Inr (tid, 3 + ucast bc, fc)) \<and> byte_at d 8 = Some bc
            \<and> unpackBits d 9 (unat bc) = Some bits)
     \<longleftrightarrow> (\<exists>unit packed rest. length packed \<le> 255 \<and> bits = concat (map byte_bits packed)
            \<and> d = mbap_frame tid unit (bits_pdu fc packed) @ rest)" (is "?l \<longleftrightarrow> ?r")
proof
  assume ?l
  then obtain bc where h: "decodeMbap d = Some (Inr (tid, 3 + ucast bc, fc))"
    and bc: "byte_at d 8 = Some bc" and bits: "unpackBits d 9 (unat bc) = Some bits"
    by (elim exE conjE) (rule that)
  obtain unit packed rest where len': "length packed \<le> 255"
    and d: "d = mbap_frame tid unit (bits_pdu fc packed) @ rest"
    using bits_frame_exists [OF h refl bc] by blast
  then show ?r using bits_of_frame [OF len' d] bc bits by auto
next
  assume ?r
  then obtain unit packed rest where len: "length packed \<le> 255"
    and bits: "bits = concat (map byte_bits packed)"
    and d: "d = mbap_frame tid unit (bits_pdu fc packed) @ rest" by blast
  have "decodeMbap d = Some (Inr (tid, of_nat (length (bits_pdu fc packed) + 1), fc))"
    unfolding d by (rule decodeMbap_frame) (use len assms in \<open>simp_all add: bits_pdu_def\<close>)
  moreover have "(3 + ucast (of_nat (length packed) :: u8) :: u16)
      = of_nat (length (bits_pdu fc packed) + 1)"
    using len by (subst of_nat_3_byte) simp_all
  ultimately show ?l
    using bits_of_frame [OF len d] bits by metis
qed

lemma echo_accepted_iff:
  assumes "fc AND 0x80 = 0"
  shows "decodeMbap d = Some (Inr (tid, 6, fc))
      \<and> readBigEndian16 d 8 = Some a \<and> readBigEndian16 d 10 = Some v
     \<longleftrightarrow> (\<exists>unit rest. d = mbap_frame tid unit (echo_pdu fc a v) @ rest)" (is "?l \<longleftrightarrow> ?r")
proof
  assume l: ?l
  then obtain unit a' v' rest where d: "d = mbap_frame tid unit (echo_pdu fc a' v') @ rest"
    using echo_frame_exists by blast
  then show ?r using echo_of_frame [OF d] l by auto
next
  assume ?r
  then obtain unit rest where d: "d = mbap_frame tid unit (echo_pdu fc a v) @ rest" by blast
  have "decodeMbap d = Some (Inr (tid, of_nat (length (echo_pdu fc a v) + 1), fc))"
    unfolding d by (rule decodeMbap_frame) (simp_all add: echo_pdu_def assms)
  then show ?l using echo_of_frame [OF d] by simp
qed

lemma not_less_3_plus_byte [simp]: "\<not> (3 + ucast (b :: u8) :: u16) < 3"
  by (simp only: word_less_nat_alt unat_3_plus_byte) simp

lemma decodeMbap_Inl_not_Ok: "decodeMbap d = Some (Inl r) \<Longrightarrow> status r \<noteq> Ok"
  by (auto simp: decodeMbap_def Let_def split: if_splits bind_splits)

lemmas mb_decode_splits = bind_splits sum.splits prod.splits if_splits

text \<open>An Ok answer of a decoder is a header of its function code and a body that passes its checks.\<close>

lemma decodeReadHoldingRegisters_Ok:
  "decodeReadHoldingRegistersResponse d =
     Some \<lparr>status = Ok, transactionId = tid, exceptionCode = 0, rhr_registers = regs\<rparr>
   \<longleftrightarrow> (\<exists>bc. decodeMbap d = Some (Inr (tid, 3 + ucast bc, 0x03)) \<and> byte_at d 8 = Some bc
        \<and> bc mod 2 = 0 \<and> readRegisters d 9 (9 + unat bc) = Some regs)"
  by (auto simp: decodeReadHoldingRegistersResponse_def decodeReadHoldingRegistersBody_def Let_def
      mb_response.defs dest: decodeMbap_Inl_not_Ok split: mb_decode_splits)

lemma decodeReadInputRegisters_Ok:
  "decodeReadInputRegistersResponse d =
     Some \<lparr>status = Ok, transactionId = tid, exceptionCode = 0, rir_registers = regs\<rparr>
   \<longleftrightarrow> (\<exists>bc. decodeMbap d = Some (Inr (tid, 3 + ucast bc, 0x04)) \<and> byte_at d 8 = Some bc
        \<and> bc mod 2 = 0 \<and> readRegisters d 9 (9 + unat bc) = Some regs)"
  by (auto simp: decodeReadInputRegistersResponse_def decodeReadInputRegistersBody_def Let_def
      mb_response.defs dest: decodeMbap_Inl_not_Ok split: mb_decode_splits)

lemma decodeReadCoils_Ok:
  "decodeReadCoilsResponse d =
     Some \<lparr>status = Ok, transactionId = tid, exceptionCode = 0, rc_coils = bits\<rparr>
   \<longleftrightarrow> (\<exists>bc. decodeMbap d = Some (Inr (tid, 3 + ucast bc, 0x01)) \<and> byte_at d 8 = Some bc
        \<and> unpackBits d 9 (unat bc) = Some bits)"
  by (auto simp: decodeReadCoilsResponse_def decodeReadCoilsBody_def Let_def
      mb_response.defs dest: decodeMbap_Inl_not_Ok split: mb_decode_splits)

lemma decodeReadDiscreteInputs_Ok:
  "decodeReadDiscreteInputsResponse d =
     Some \<lparr>status = Ok, transactionId = tid, exceptionCode = 0, rdi_inputs = bits\<rparr>
   \<longleftrightarrow> (\<exists>bc. decodeMbap d = Some (Inr (tid, 3 + ucast bc, 0x02)) \<and> byte_at d 8 = Some bc
        \<and> unpackBits d 9 (unat bc) = Some bits)"
  by (auto simp: decodeReadDiscreteInputsResponse_def decodeReadDiscreteInputsBody_def Let_def
      mb_response.defs dest: decodeMbap_Inl_not_Ok split: mb_decode_splits)

lemma decodeWriteSingleRegister_Ok:
  "decodeWriteSingleRegisterResponse d =
     Some \<lparr>status = Ok, transactionId = tid, exceptionCode = 0, wsr_r_address = a, wsr_r_value = v\<rparr>
   \<longleftrightarrow> decodeMbap d = Some (Inr (tid, 6, 0x06))
     \<and> readBigEndian16 d 8 = Some a \<and> readBigEndian16 d 10 = Some v"
  by (auto simp: decodeWriteSingleRegisterResponse_def decodeWriteSingleRegisterBody_def
      mb_response.defs dest: decodeMbap_Inl_not_Ok split: mb_decode_splits)

lemma decodeWriteMultipleRegisters_Ok:
  "decodeWriteMultipleRegistersResponse d =
     Some \<lparr>status = Ok, transactionId = tid, exceptionCode = 0, wmr_r_startAddress = a, wmr_r_quantity = v\<rparr>
   \<longleftrightarrow> decodeMbap d = Some (Inr (tid, 6, 0x10))
     \<and> readBigEndian16 d 8 = Some a \<and> readBigEndian16 d 10 = Some v"
  by (auto simp: decodeWriteMultipleRegistersResponse_def decodeWriteMultipleRegistersBody_def
      mb_response.defs dest: decodeMbap_Inl_not_Ok split: mb_decode_splits)

lemma decodeWriteMultipleCoils_Ok:
  "decodeWriteMultipleCoilsResponse d =
     Some \<lparr>status = Ok, transactionId = tid, exceptionCode = 0, wmc_r_startAddress = a, wmc_r_quantity = v\<rparr>
   \<longleftrightarrow> decodeMbap d = Some (Inr (tid, 6, 0x0f))
     \<and> readBigEndian16 d 8 = Some a \<and> readBigEndian16 d 10 = Some v"
  by (auto simp: decodeWriteMultipleCoilsResponse_def decodeWriteMultipleCoilsBody_def
      mb_response.defs dest: decodeMbap_Inl_not_Ok split: mb_decode_splits)

lemma decodeWriteSingleCoil_Ok:
  "decodeWriteSingleCoilResponse d =
     Some \<lparr>status = Ok, transactionId = tid, exceptionCode = 0, wsc_r_address = a, wsc_r_value = on\<rparr>
   \<longleftrightarrow> (\<exists>v. on = (v = 0xFF00) \<and> decodeMbap d = Some (Inr (tid, 6, 0x05))
     \<and> readBigEndian16 d 8 = Some a \<and> readBigEndian16 d 10 = Some v)"
  by (auto simp: decodeWriteSingleCoilResponse_def decodeWriteSingleCoilBody_def
      mb_response.defs dest: decodeMbap_Inl_not_Ok split: mb_decode_splits)

lemma foldl_appendBigEndian16: "foldl appendBigEndian16 d vs = d @ concat (map be16 vs)"
  by (induction vs arbitrary: d) (simp_all add: appendBigEndian16_be16)

lemma function_codes_plain [simp]:
  "(0x01 :: u8) AND 0x80 = 0" "(0x02 :: u8) AND 0x80 = 0" "(0x03 :: u8) AND 0x80 = 0"
  "(0x04 :: u8) AND 0x80 = 0" "(0x05 :: u8) AND 0x80 = 0" "(0x06 :: u8) AND 0x80 = 0"
  "(0x0f :: u8) AND 0x80 = 0" "(0x10 :: u8) AND 0x80 = 0"
  by simp_all

section \<open>Properties\<close>

text \<open>
  No response decoder ever reads outside the bytes it was given: on every input, of any length
  and content, each of the eight decoders returns a response.
\<close>

theorem modbus_decoders_total:
  "(\<exists>r. decodeReadHoldingRegistersResponse d = Some r)
 \<and> (\<exists>r. decodeReadInputRegistersResponse d = Some r)
 \<and> (\<exists>r. decodeReadCoilsResponse d = Some r)
 \<and> (\<exists>r. decodeReadDiscreteInputsResponse d = Some r)
 \<and> (\<exists>r. decodeWriteSingleRegisterResponse d = Some r)
 \<and> (\<exists>r. decodeWriteSingleCoilResponse d = Some r)
 \<and> (\<exists>r. decodeWriteMultipleRegistersResponse d = Some r)
 \<and> (\<exists>r. decodeWriteMultipleCoilsResponse d = Some r)"
  by (simp only: rhr.dec_total rir.dec_total rc.dec_total rdi.dec_total wsr.dec_total
      wsc.dec_total wmr.dec_total wmc.dec_total simp_thms)

text \<open>
  C6. The two register decoders accept exactly the frames of the wire format and return the
  registers they carry: the answer is Ok with transaction id tid and registers regs if and only if
  the buffer starts with an MBAP frame for the right function code whose byte count is twice the
  number of registers (at most 127) and whose data are the registers in big-endian order.
\<close>

theorem modbus_registers_decode_iff:
  "(decodeReadHoldingRegistersResponse d =
      Some \<lparr>status = Ok, transactionId = tid, exceptionCode = 0, rhr_registers = regs\<rparr>
    \<longleftrightarrow> (\<exists>unit rest. length regs \<le> 127
         \<and> d = mbap_frame tid unit (registers_pdu 0x03 regs) @ rest))
 \<and> (decodeReadInputRegistersResponse d =
      Some \<lparr>status = Ok, transactionId = tid, exceptionCode = 0, rir_registers = regs\<rparr>
    \<longleftrightarrow> (\<exists>unit rest. length regs \<le> 127
         \<and> d = mbap_frame tid unit (registers_pdu 0x04 regs) @ rest))"
  by (simp only: decodeReadHoldingRegisters_Ok decodeReadInputRegisters_Ok
      registers_accepted_iff function_codes_plain simp_thms)

text \<open>
  The coil and discrete-input decoders accept exactly the frames whose byte count matches their
  data, and return the bits of the data bytes, least significant bit first, padding bits included.
\<close>

theorem modbus_bits_decode_iff:
  "(decodeReadCoilsResponse d =
      Some \<lparr>status = Ok, transactionId = tid, exceptionCode = 0, rc_coils = bits\<rparr>
    \<longleftrightarrow> (\<exists>unit packed rest. length packed \<le> 255 \<and> bits = concat (map byte_bits packed)
         \<and> d = mbap_frame tid unit (bits_pdu 0x01 packed) @ rest))
 \<and> (decodeReadDiscreteInputsResponse d =
      Some \<lparr>status = Ok, transactionId = tid, exceptionCode = 0, rdi_inputs = bits\<rparr>
    \<longleftrightarrow> (\<exists>unit packed rest. length packed \<le> 255 \<and> bits = concat (map byte_bits packed)
         \<and> d = mbap_frame tid unit (bits_pdu 0x02 packed) @ rest))"
  by (simp only: decodeReadCoils_Ok decodeReadDiscreteInputs_Ok bits_accepted_iff
      function_codes_plain simp_thms)

text \<open>
  The four write decoders accept exactly the echo frames: Ok with address a and value v if and
  only if the buffer starts with the frame that repeats the function code, the address and the
  value (or quantity); a coil is reported on exactly when the echoed value is 0xFF00.
\<close>

theorem modbus_writes_decode_iff:
  "(decodeWriteSingleRegisterResponse d =
      Some \<lparr>status = Ok, transactionId = tid, exceptionCode = 0, wsr_r_address = a, wsr_r_value = v\<rparr>
    \<longleftrightarrow> (\<exists>unit rest. d = mbap_frame tid unit (echo_pdu 0x06 a v) @ rest))
 \<and> (decodeWriteMultipleRegistersResponse d =
      Some \<lparr>status = Ok, transactionId = tid, exceptionCode = 0, wmr_r_startAddress = a,
            wmr_r_quantity = v\<rparr>
    \<longleftrightarrow> (\<exists>unit rest. d = mbap_frame tid unit (echo_pdu 0x10 a v) @ rest))
 \<and> (decodeWriteMultipleCoilsResponse d =
      Some \<lparr>status = Ok, transactionId = tid, exceptionCode = 0, wmc_r_startAddress = a,
            wmc_r_quantity = v\<rparr>
    \<longleftrightarrow> (\<exists>unit rest. d = mbap_frame tid unit (echo_pdu 0x0f a v) @ rest))
 \<and> (decodeWriteSingleCoilResponse d =
      Some \<lparr>status = Ok, transactionId = tid, exceptionCode = 0, wsc_r_address = a, wsc_r_value = on\<rparr>
    \<longleftrightarrow> (\<exists>w. on = (w = 0xFF00)
         \<and> (\<exists>unit rest. d = mbap_frame tid unit (echo_pdu 0x05 a w) @ rest)))"
  by (simp only: decodeWriteSingleRegister_Ok decodeWriteMultipleRegisters_Ok
      decodeWriteMultipleCoils_Ok decodeWriteSingleCoil_Ok echo_accepted_iff
      function_codes_plain simp_thms)

text \<open>
  Coils survive packing: the bytes packBits writes for a vector of coils unpack to the same
  coils followed by padding zeros up to the next multiple of eight, and nothing else is read.
\<close>

theorem coils_pack_roundtrip:
  "unpackBits (pre @ packBits values @ rest) (length pre) (length (packBits values))
     = Some (values @ replicate (8 * ((length values + 7) div 8) - length values) False)"
  using unpackBits_bits [of pre "packBits values" rest]
  by (simp only: unpack_packBits length_packBits)

text \<open>
  C7. Every request encoder produces one MBAP frame around its PDU, and for the quantities the
  Modbus specification allows (at most 123 registers, 1968 coils) neither the length field nor the
  byte count is truncated: the length field is the number of bytes that follow it.
\<close>

theorem modbus_requests_wellformed:
  "encodeReadHoldingRegistersRequest \<lparr>rhr_transactionId = t, rhr_unitId = u, rhr_startAddress = a,
      rhr_quantity = q\<rparr> = mbap_frame t u (echo_pdu 0x03 a q)
 \<and> encodeReadInputRegistersRequest \<lparr>rir_transactionId = t, rir_unitId = u, rir_startAddress = a,
      rir_quantity = q\<rparr> = mbap_frame t u (echo_pdu 0x04 a q)
 \<and> encodeReadCoilsRequest \<lparr>rc_transactionId = t, rc_unitId = u, rc_startAddress = a,
      rc_quantity = q\<rparr> = mbap_frame t u (echo_pdu 0x01 a q)
 \<and> encodeReadDiscreteInputsRequest \<lparr>rdi_transactionId = t, rdi_unitId = u, rdi_startAddress = a,
      rdi_quantity = q\<rparr> = mbap_frame t u (echo_pdu 0x02 a q)
 \<and> encodeWriteSingleRegisterRequest \<lparr>wsr_transactionId = t, wsr_unitId = u, wsr_address = a,
      wsr_value = q\<rparr> = mbap_frame t u (echo_pdu 0x06 a q)
 \<and> encodeWriteSingleCoilRequest \<lparr>wsc_transactionId = t, wsc_unitId = u, wsc_address = a,
      wsc_value = on\<rparr> = mbap_frame t u (echo_pdu 0x05 a (if on then 0xFF00 else 0))
 \<and> (length regs \<le> 123 \<longrightarrow>
      encodeWriteMultipleRegistersRequest \<lparr>wmr_transactionId = t, wmr_unitId = u,
        wmr_startAddress = a, wmr_values = regs\<rparr>
      = mbap_frame t u (0x10 # be16 a @ be16 (of_nat (length regs)) @ [of_nat (2 * length regs)]
          @ concat (map be16 regs))
      \<and> unat (of_nat (2 * length regs) :: u8) = 2 * length regs
      \<and> unat (of_nat (7 + 2 * length regs) :: u16) = 7 + 2 * length regs)
 \<and> (length coils \<le> 1968 \<longrightarrow>
      encodeWriteMultipleCoilsRequest \<lparr>wmc_transactionId = t, wmc_unitId = u,
        wmc_startAddress = a, wmc_values = coils\<rparr>
      = mbap_frame t u (0x0f # be16 a @ be16 (of_nat (length coils))
          @ [of_nat (length (packBits coils))] @ packBits coils)
      \<and> unat (of_nat (length (packBits coils)) :: u8) = length (packBits coils)
      \<and> unat (of_nat (7 + length (packBits coils)) :: u16) = 7 + length (packBits coils))"
proof (intro conjI impI)
  assume "length regs \<le> 123"
  then show "unat (of_nat (2 * length regs) :: u8) = 2 * length regs"
    and "unat (of_nat (7 + 2 * length regs) :: u16) = 7 + 2 * length regs"
    by (auto intro!: unat_of_nat_byte unat_of_nat_u16 simp del: of_nat_add of_nat_mult)
next
  assume "length coils \<le> 1968"
  then have "length (packBits coils) \<le> 246" by (simp add: length_packBits)
  then show "unat (of_nat (length (packBits coils)) :: u8) = length (packBits coils)"
    and "unat (of_nat (7 + length (packBits coils)) :: u16) = 7 + length (packBits coils)"
    by (auto intro!: unat_of_nat_byte unat_of_nat_u16 simp del: of_nat_add)
next
  show "encodeWriteMultipleRegistersRequest \<lparr>wmr_transactionId = t, wmr_unitId = u,
        wmr_startAddress = a, wmr_values = regs\<rparr>
      = mbap_frame t u (0x10 # be16 a @ be16 (of_nat (length regs)) @ [of_nat (2 * length regs)]
          @ concat (map be16 regs))"
    using length_concat_uniform [of be16 2 regs]
    by (simp add: encodeWriteMultipleRegistersRequest_def mbap_frame_def appendBigEndian16_be16
        foldl_appendBigEndian16 mult.commute Let_def)
qed (simp_all add: mbap_frame_def echo_pdu_def appendBigEndian16_be16 Let_def
    encodeReadHoldingRegistersRequest_def encodeReadInputRegistersRequest_def
    encodeReadCoilsRequest_def encodeReadDiscreteInputsRequest_def
    encodeWriteSingleRegisterRequest_def encodeWriteSingleCoilRequest_def
    encodeWriteMultipleCoilsRequest_def)

theorem modbus_requests_wellformed_witness:
  "length (encodeWriteMultipleRegistersRequest \<lparr>wmr_transactionId = 1, wmr_unitId = 1,
       wmr_startAddress = 16, wmr_values = [1, 2]\<rparr>) = 17
 \<and> length (encodeWriteMultipleCoilsRequest \<lparr>wmc_transactionId = 1, wmc_unitId = 1,
       wmc_startAddress = 16, wmc_values = [True, False, True]\<rparr>) = 14"
proof -
  have c: "length (packBits [True, False, True]) = 1" by (simp add: length_packBits)
  show ?thesis
    using modbus_requests_wellformed [where t = 1 and u = 1 and a = 16
        and regs = "[1, 2]" and coils = "[True, False, True]"] c
    by (simp add: mbap_frame_def)
qed

end
