(* ===== verification/Tcp_Socket.thy ===== *)
theory Tcp_Socket
  imports Prelude
begin

text \<open>
  The TCP socket the protocol drivers hold is a class of the GUI framework, outside the
  repository. It is a parameter of the model: a record of the operations the drivers call on it,
  over an arbitrary type of socket states. The drivers' definitions take such a record as their
  first argument, and no property below assumes anything about it unless it says so.

  connectToHost may signal an error before it returns, for instance when the socket is already connecting or
  connected; the flag it answers says whether it has.
\<close>

record 's socket_ops =
  sock_connectToHost :: "string \<Rightarrow> u16 \<Rightarrow> 's \<Rightarrow> bool \<times> 's"
  sock_write :: "bytes \<Rightarrow> 's \<Rightarrow> 's"
  sock_flush :: "'s \<Rightarrow> 's"
  sock_abort :: "'s \<Rightarrow> 's"
  sock_disconnectFromHost :: "'s \<Rightarrow> 's"
  sock_readAll :: "'s \<Rightarrow> bytes \<times> 's"
  sock_isConnected :: "'s \<Rightarrow> bool"
  sock_errorString :: "'s \<Rightarrow> string"

text \<open>A concrete socket for examples: it logs what was written and holds what is to be read.\<close>

record log_socket =
  log_written :: "bytes list"
  log_incoming :: bytes
  log_up :: bool

definition log_ops :: "log_socket socket_ops" where
  "log_ops =
     \<lparr>sock_connectToHost = (\<lambda>h p s. (False, s)),
      sock_write = (\<lambda>b s. s\<lparr>log_written := log_written s @ [b]\<rparr>),
      sock_flush = (\<lambda>s. s),
      sock_abort = (\<lambda>s. s\<lparr>log_up := False\<rparr>),
      sock_disconnectFromHost = (\<lambda>s. s\<lparr>log_up := False\<rparr>),
      sock_readAll = (\<lambda>s. (log_incoming s, s\<lparr>log_incoming := []\<rparr>)),
      sock_isConnected = log_up,
      sock_errorString = (\<lambda>s. ''refused'')\<rparr>"

end
