(* ===== verification/Modbus_Connection.thy ===== *)
theory Modbus_Connection
  imports Connection_State Modbus_Codec Tcp_Socket
begin

text \<open>
  The Modbus TCP driver of src/features/modbus/modbus_connection.\{h,cpp\}. The object is its
  ConnectionState over a world that holds the driver's own members: the callables handed to
  setHandlers and the slots connected to the state's signal act on exactly these. The socket is a
  parameter (Tcp_Socket). The field mb_emitted is the sequence of signals the driver has sent.
\<close>

section \<open>State\<close>

datatype PendingRequest =
    NoRequest | PReadHoldingRegisters | PWriteSingleRegister | PWriteMultipleRegisters
  | PReadInputRegisters | PReadCoils | PReadDiscreteInputs | PWriteSingleCoil | PWriteMultipleCoils

datatype mb_signal =
    MbConnectionStateChanged bool
  | HoldingRegistersRead "u16 list" | InputRegistersRead "u16 list"
  | CoilsRead "bool list" | DiscreteInputsRead "bool list" | ReadFailed string
  | SingleRegisterWritten u16 u16 | WriteFailed string
  | MultipleRegistersWritten u16 u16 | MultipleWriteFailed string
  | SingleCoilWritten u16 bool | SingleCoilWriteFailed string
  | MultipleCoilsWritten u16 u16 | MultipleCoilWriteFailed string

record 's mb_world =
  mb_socket :: 's
  mb_error :: string
  mb_readBuffer :: bytes
  mb_nextTransactionId :: u16
  mb_pendingRequest :: PendingRequest
  mb_requestTimer :: "int option"
  mb_requestTimeoutMs :: int
  mb_emitted :: "mb_signal list"

type_synonym 's modbus = "'s mb_world connection_state"

section \<open>Construction and connection\<close>

text \<open>The two slots connected to the state's signal, in the order they are connected.\<close>

definition mb_onStateChanged :: "bool \<Rightarrow> 's mb_world \<Rightarrow> 's mb_world" where
  "mb_onStateChanged connected w0 =
     (let w = w0\<lparr>mb_emitted := mb_emitted w0 @ [MbConnectionStateChanged connected]\<rparr>
      in if \<not> connected then w\<lparr>mb_readBuffer := [], mb_pendingRequest := NoRequest\<rparr> else w)"

definition newModbusConnection :: "'s \<Rightarrow> 's modbus" where
  "newModbusConnection sk =
     newConnectionState mb_onStateChanged (\<lambda>_ w. w)
       \<lparr>mb_socket = sk, mb_error = [], mb_readBuffer = [], mb_nextTransactionId = 1,
        mb_pendingRequest = NoRequest, mb_requestTimer = None, mb_requestTimeoutMs = 1000,
        mb_emitted = []\<rparr>"

text \<open>
  The connect callable of connectToHost. When the socket signals an error from within, the slot of that signal runs before
  the callable returns: it takes over the text of the error and reports the failure.
\<close>

definition mb_connectHandler :: "'s socket_ops \<Rightarrow> string \<Rightarrow> u16 \<Rightarrow> 's mb_world connect_fn" where
  "mb_connectHandler ops host port w0 =
     (let (failed, sk) = sock_connectToHost ops host port (mb_socket w0);
          w = w0\<lparr>mb_error := [], mb_socket := sk\<rparr>
      in ((failed, True), if failed then w\<lparr>mb_error := sock_errorString ops sk\<rparr> else w))"

definition mb_connectToHost :: "'s socket_ops \<Rightarrow> string \<Rightarrow> u16 \<Rightarrow> 's modbus \<Rightarrow> 's modbus" where
  "mb_connectToHost ops host port m0 =
     (let m = m0\<lparr>world := (world m0)\<lparr>mb_error := [], mb_readBuffer := [],
                  mb_pendingRequest := NoRequest, mb_requestTimer := None\<rparr>\<rparr>;
          m = setHandlers
                (Some (mb_connectHandler ops host port))
                (Some (\<lambda>w. (sock_isConnected ops (mb_socket w), w)))
                (Some (\<lambda>w. w\<lparr>mb_socket := sock_abort ops (mb_socket w)\<rparr>))
                True m
      in beginAutoConnect m)"

definition mb_disconnectNow :: "'s socket_ops \<Rightarrow> 's modbus \<Rightarrow> 's modbus" where
  "mb_disconnectNow ops m0 =
     (let m = disconnectNow m0
      in m\<lparr>world := (world m)\<lparr>mb_socket := sock_abort ops (mb_socket (world m)),
             mb_readBuffer := [], mb_pendingRequest := NoRequest, mb_requestTimer := None\<rparr>\<rparr>)"

definition mb_isReady :: "'s modbus \<Rightarrow> bool" where
  "mb_isReady m = m_connected m"

text \<open>Slots of the socket's connected and error signals.\<close>

definition mb_onSocketConnected :: "'s modbus \<Rightarrow> 's modbus" where
  "mb_onSocketConnected m = reportPendingConnectResult True m"

definition mb_onSocketError :: "'s socket_ops \<Rightarrow> 's modbus \<Rightarrow> 's modbus" where
  "mb_onSocketError ops m =
     reportPendingConnectResult False
       (m\<lparr>world := (world m)\<lparr>mb_error := sock_errorString ops (mb_socket (world m))\<rparr>\<rparr>)"

definition mb_setRequestTimeoutMs :: "int \<Rightarrow> 's modbus \<Rightarrow> 's modbus" where
  "mb_setRequestTimeoutMs ms m = m\<lparr>world := (world m)\<lparr>mb_requestTimeoutMs := ms\<rparr>\<rparr>"

section \<open>Requests\<close>

text \<open>
  What the eight request methods share: nothing happens unless the driver is ready and idle;
  otherwise the next transaction id is taken, the kind is remembered, the encoded request is
  written and the request timer started.
\<close>

definition sendRequest ::
  "'s socket_ops \<Rightarrow> PendingRequest \<Rightarrow> (u16 \<Rightarrow> bytes) \<Rightarrow> 's modbus \<Rightarrow> 's modbus" where
  "sendRequest ops kind encode m =
     (if \<not> mb_isReady m \<or> mb_pendingRequest (world m) \<noteq> NoRequest then m
      else (let w = world m;
                tid = mb_nextTransactionId w
            in m\<lparr>world := w\<lparr>mb_nextTransactionId := tid + 1, mb_pendingRequest := kind,
                   mb_socket := sock_write ops (encode tid) (mb_socket w),
                   mb_requestTimer := start_timer (mb_requestTimeoutMs w)\<rparr>\<rparr>))"

definition readHoldingRegisters :: "'s socket_ops \<Rightarrow> u8 \<Rightarrow> u16 \<Rightarrow> u16 \<Rightarrow> 's modbus \<Rightarrow> 's modbus" where
  "readHoldingRegisters ops unitId startAddress quantity =
     sendRequest ops PReadHoldingRegisters (\<lambda>tid. encodeReadHoldingRegistersRequest
       \<lparr>rhr_transactionId = tid, rhr_unitId = unitId, rhr_startAddress = startAddress,
        rhr_quantity = quantity\<rparr>)"

definition readInputRegisters :: "'s socket_ops \<Rightarrow> u8 \<Rightarrow> u16 \<Rightarrow> u16 \<Rightarrow> 's modbus \<Rightarrow> 's modbus" where
  "readInputRegisters ops unitId startAddress quantity =
     sendRequest ops PReadInputRegisters (\<lambda>tid. encodeReadInputRegistersRequest
       \<lparr>rir_transactionId = tid, rir_unitId = unitId, rir_startAddress = startAddress,
        rir_quantity = quantity\<rparr>)"

definition readCoils :: "'s socket_ops \<Rightarrow> u8 \<Rightarrow> u16 \<Rightarrow> u16 \<Rightarrow> 's modbus \<Rightarrow> 's modbus" where
  "readCoils ops unitId startAddress quantity =
     sendRequest ops PReadCoils (\<lambda>tid. encodeReadCoilsRequest
       \<lparr>rc_transactionId = tid, rc_unitId = unitId, rc_startAddress = startAddress,
        rc_quantity = quantity\<rparr>)"

definition readDiscreteInputs :: "'s socket_ops \<Rightarrow> u8 \<Rightarrow> u16 \<Rightarrow> u16 \<Rightarrow> 's modbus \<Rightarrow> 's modbus" where
  "readDiscreteInputs ops unitId startAddress quantity =
     sendRequest ops PReadDiscreteInputs (\<lambda>tid. encodeReadDiscreteInputsRequest
       \<lparr>rdi_transactionId = tid, rdi_unitId = unitId, rdi_startAddress = startAddress,
        rdi_quantity = quantity\<rparr>)"

definition writeSingleRegister :: "'s socket_ops \<Rightarrow> u8 \<Rightarrow> u16 \<Rightarrow> u16 \<Rightarrow> 's modbus \<Rightarrow> 's modbus" where
  "writeSingleRegister ops unitId address v =
     sendRequest ops PWriteSingleRegister (\<lambda>tid. encodeWriteSingleRegisterRequest
       \<lparr>wsr_transactionId = tid, wsr_unitId = unitId, wsr_address = address, wsr_value = v\<rparr>)"

definition writeMultipleRegisters ::
  "'s socket_ops \<Rightarrow> u8 \<Rightarrow> u16 \<Rightarrow> u16 list \<Rightarrow> 's modbus \<Rightarrow> 's modbus" where
  "writeMultipleRegisters ops unitId startAddress vs =
     sendRequest ops PWriteMultipleRegisters (\<lambda>tid. encodeWriteMultipleRegistersRequest
       \<lparr>wmr_transactionId = tid, wmr_unitId = unitId, wmr_startAddress = startAddress,
        wmr_values = vs\<rparr>)"

definition writeSingleCoil :: "'s socket_ops \<Rightarrow> u8 \<Rightarrow> u16 \<Rightarrow> bool \<Rightarrow> 's modbus \<Rightarrow> 's modbus" where
  "writeSingleCoil ops unitId address v =
     sendRequest ops PWriteSingleCoil (\<lambda>tid. encodeWriteSingleCoilRequest
       \<lparr>wsc_transactionId = tid, wsc_unitId = unitId, wsc_address = address, wsc_value = v\<rparr>)"

definition writeMultipleCoils ::
  "'s socket_ops \<Rightarrow> u8 \<Rightarrow> u16 \<Rightarrow> bool list \<Rightarrow> 's modbus \<Rightarrow> 's modbus" where
  "writeMultipleCoils ops unitId startAddress vs =
     sendRequest ops PWriteMultipleCoils (\<lambda>tid. encodeWriteMultipleCoilsRequest
       \<lparr>wmc_transactionId = tid, wmc_unitId = unitId, wmc_startAddress = startAddress,
        wmc_values = vs\<rparr>)"

section \<open>Responses\<close>

definition exceptionText :: "u8 \<Rightarrow> string" where
  "exceptionText code = ''Modbus exception code '' @ dec_digits (unat code)"

text \<open>
  The common tail of the eight branches of onSocketReadyRead: wait while the frame is incomplete;
  otherwise drop the buffer, become idle, stop the timer and report success, the exception or a
  malformed frame.
\<close>

definition finishRequest ::
  "ResponseStatus \<Rightarrow> u8 \<Rightarrow> mb_signal \<Rightarrow> (string \<Rightarrow> mb_signal) \<Rightarrow> 's modbus \<Rightarrow> 's modbus" where
  "finishRequest st exc success failure m =
     (if st = Incomplete then m
      else (let w = (world m)\<lparr>mb_readBuffer := [], mb_pendingRequest := NoRequest,
                              mb_requestTimer := None\<rparr>
            in m\<lparr>world := w\<lparr>mb_emitted := mb_emitted w @
                   [if st = Ok then success
                    else if st = Exception then failure (exceptionText exc)
                    else failure ''Malformed Modbus response'']\<rparr>\<rparr>))"

text \<open>The dispatch on the pending request, after the chunk has been appended to the buffer.\<close>

definition dispatchResponse :: "'s modbus \<Rightarrow> 's modbus option" where
  "dispatchResponse m =
     (let buf = mb_readBuffer (world m)
      in case mb_pendingRequest (world m) of
           PReadHoldingRegisters \<Rightarrow> do {
             r \<leftarrow> decodeReadHoldingRegistersResponse buf;
             Some (finishRequest (status r) (exceptionCode r) (HoldingRegistersRead (rhr_registers r))
                     ReadFailed m) }
         | PReadInputRegisters \<Rightarrow> do {
             r \<leftarrow> decodeReadInputRegistersResponse buf;
             Some (finishRequest (status r) (exceptionCode r) (InputRegistersRead (rir_registers r))
                     ReadFailed m) }
         | PWriteSingleRegister \<Rightarrow> do {
             r \<leftarrow> decodeWriteSingleRegisterResponse buf;
             Some (finishRequest (status r) (exceptionCode r)
                     (SingleRegisterWritten (wsr_r_address r) (wsr_r_value r)) WriteFailed m) }
         | PWriteMultipleRegisters \<Rightarrow> do {
             r \<leftarrow> decodeWriteMultipleRegistersResponse buf;
             Some (finishRequest (status r) (exceptionCode r)
                     (MultipleRegistersWritten (wmr_r_startAddress r) (wmr_r_quantity r))
                     MultipleWriteFailed m) }
         | PReadCoils \<Rightarrow> do {
             r \<leftarrow> decodeReadCoilsResponse buf;
             Some (finishRequest (status r) (exceptionCode r) (CoilsRead (rc_coils r)) ReadFailed m) }
         | PReadDiscreteInputs \<Rightarrow> do {
             r \<leftarrow> decodeReadDiscreteInputsResponse buf;
             Some (finishRequest (status r) (exceptionCode r) (DiscreteInputsRead (rdi_inputs r))
                     ReadFailed m) }
         | PWriteSingleCoil \<Rightarrow> do {
             r \<leftarrow> decodeWriteSingleCoilResponse buf;
             Some (finishRequest (status r) (exceptionCode r)
                     (SingleCoilWritten (wsc_r_address r) (wsc_r_value r)) SingleCoilWriteFailed m) }
         | PWriteMultipleCoils \<Rightarrow> do {
             r \<leftarrow> decodeWriteMultipleCoilsResponse buf;
             Some (finishRequest (status r) (exceptionCode r)
                     (MultipleCoilsWritten (wmc_r_startAddress r) (wmc_r_quantity r))
                     MultipleCoilWriteFailed m) }
         | NoRequest \<Rightarrow> Some (m\<lparr>world := (world m)\<lparr>mb_readBuffer := []\<rparr>\<rparr>))"

definition mb_appendChunk :: "bytes \<Rightarrow> 's modbus \<Rightarrow> 's modbus" where
  "mb_appendChunk chunk m =
     m\<lparr>world := (world m)\<lparr>mb_readBuffer := mb_readBuffer (world m) @ chunk\<rparr>\<rparr>"

definition mb_onSocketReadyRead :: "'s socket_ops \<Rightarrow> 's modbus \<Rightarrow> 's modbus option" where
  "mb_onSocketReadyRead ops m0 =
     (let (chunk, sk) = sock_readAll ops (mb_socket (world m0));
          m = m0\<lparr>world := (world m0)\<lparr>mb_socket := sk\<rparr>\<rparr>
      in dispatchResponse (mb_appendChunk chunk m))"

definition mb_onRequestTimeout :: "'s modbus \<Rightarrow> 's modbus" where
  "mb_onRequestTimeout m0 =
     (let timedOut = mb_pendingRequest (world m0);
          w = (world m0)\<lparr>mb_pendingRequest := NoRequest, mb_readBuffer := []\<rparr>;
          msg = ''timed out waiting for a response'';
          sigs = (if timedOut = PReadHoldingRegisters \<or> timedOut = PReadInputRegisters
                     \<or> timedOut = PReadCoils \<or> timedOut = PReadDiscreteInputs then [ReadFailed msg]
                  else if timedOut = PWriteSingleRegister then [WriteFailed msg]
                  else if timedOut = PWriteMultipleRegisters then [MultipleWriteFailed msg]
                  else if timedOut = PWriteSingleCoil then [SingleCoilWriteFailed msg]
                  else if timedOut = PWriteMultipleCoils then [MultipleCoilWriteFailed msg]
                  else [])
      in m0\<lparr>world := w\<lparr>mb_emitted := mb_emitted w @ sigs\<rparr>\<rparr>)"

section \<open>Steps\<close>

text \<open>
  Everything that can happen to the driver: calls of its owner, signals of the socket, ticks of the
  three timers (only while armed; the request timer is single-shot), and changes of the socket by
  the outside world.
\<close>

inductive mb_step :: "'s socket_ops \<Rightarrow> 's modbus \<Rightarrow> 's modbus \<Rightarrow> bool" for ops where
  connect_to_host: "mb_step ops m (mb_connectToHost ops host port m)"
| disconnect_now: "mb_step ops m (mb_disconnectNow ops m)"
| set_timeout: "mb_step ops m (mb_setRequestTimeoutMs ms m)"
| read_holding: "mb_step ops m (readHoldingRegisters ops u a q m)"
| read_input: "mb_step ops m (readInputRegisters ops u a q m)"
| read_coils: "mb_step ops m (readCoils ops u a q m)"
| read_discrete: "mb_step ops m (readDiscreteInputs ops u a q m)"
| write_register: "mb_step ops m (writeSingleRegister ops u a v m)"
| write_registers: "mb_step ops m (writeMultipleRegisters ops u a vs m)"
| write_coil: "mb_step ops m (writeSingleCoil ops u a b m)"
| write_coils: "mb_step ops m (writeMultipleCoils ops u a bs m)"
| socket_connected: "mb_step ops m (mb_onSocketConnected m)"
| socket_error: "mb_step ops m (mb_onSocketError ops m)"
| ready_read: "mb_onSocketReadyRead ops m = Some m' \<Longrightarrow> mb_step ops m m'"
| request_timeout: "mb_requestTimer (world m) = Some t \<Longrightarrow>
    mb_step ops m (mb_onRequestTimeout (m\<lparr>world := (world m)\<lparr>mb_requestTimer := None\<rparr>\<rparr>))"
| heartbeat_tick: "mb_step ops m (cs_step m HeartbeatTick)"
| reconnect_tick: "mb_step ops m (cs_step m ReconnectTick)"
| socket_changes: "mb_step ops m (m\<lparr>world := (world m)\<lparr>mb_socket := sk\<rparr>\<rparr>)"

inductive mb_reachable :: "'s socket_ops \<Rightarrow> 's modbus \<Rightarrow> bool" for ops where
  mb_start: "mb_reachable ops (newModbusConnection sk)"
| mb_next: "mb_reachable ops m \<Longrightarrow> mb_step ops m m' \<Longrightarrow> mb_reachable ops m'"

section \<open>Invariant\<close>

text \<open>What the callables and slots installed by the driver do not touch.\<close>

definition mb_core :: "'s mb_world \<Rightarrow> bytes \<times> PendingRequest \<times> int option \<times> mb_signal list" where
  "mb_core w = (mb_readBuffer w, mb_pendingRequest w, mb_requestTimer w, mb_emitted w)"

definition mb_wired :: "'s modbus \<Rightarrow> bool" where
  "mb_wired m \<longleftrightarrow>
     onStateChanged m = mb_onStateChanged \<and> onReconnectingChanged m = (\<lambda>_ w. w)
   \<and> (\<forall>f. m_connect m = Some f \<longrightarrow> (\<forall>w. mb_core (snd (f w)) = mb_core w))
   \<and> (\<forall>f. m_probe m = Some f \<longrightarrow> (\<forall>w. mb_core (snd (f w)) = mb_core w))
   \<and> (\<forall>f. m_disconnect m = Some f \<longrightarrow> (\<forall>w. mb_core (f w) = mb_core w))"

text \<open>
  An idle driver has an empty read buffer; a pending request implies a live connection. What can be said of its timer
  depends on the timeouts that were set, so it is a parameter: T holds of every timer that is started for a request.
\<close>

definition mb_inv_with :: "(int option \<Rightarrow> bool) \<Rightarrow> 's modbus \<Rightarrow> bool" where
  "mb_inv_with T m \<longleftrightarrow> mb_wired m
   \<and> (mb_pendingRequest (world m) = NoRequest \<longrightarrow> mb_readBuffer (world m) = [])
   \<and> (mb_pendingRequest (world m) \<noteq> NoRequest \<longrightarrow> m_connected m \<and> T (mb_requestTimer (world m)))"

abbreviation mb_inv :: "'s modbus \<Rightarrow> bool" where
  "mb_inv \<equiv> mb_inv_with (\<lambda>_. True)"

lemma mb_inv_core:
  "mb_inv_with T m \<Longrightarrow> mb_core w = mb_core (world m) \<Longrightarrow> mb_inv_with T (m\<lparr>world := w\<rparr>)"
  by (simp add: mb_inv_with_def mb_wired_def mb_core_def)

lemma mb_inv_mono: "mb_inv_with T m \<Longrightarrow> mb_inv m"
  by (simp add: mb_inv_with_def)

lemma setConnected_mb_inv: "mb_inv_with T m \<Longrightarrow> mb_inv_with T (setConnected b m)"
  by (auto simp: mb_inv_with_def mb_wired_def setConnected_def mb_onStateChanged_def Let_def)

lemma setReconnecting_mb_inv: "mb_inv_with T m \<Longrightarrow> mb_inv_with T (setReconnecting b m)"
  by (auto simp: mb_inv_with_def mb_wired_def setReconnecting_def)

interpretation mbi: cs_invariant "mb_inv_with T" for T
proof
  fix s :: "'a modbus" and f p d
  show "mb_inv_with T (s\<lparr>world := snd (f (world s))\<rparr>)" if "mb_inv_with T s" "m_connect s = Some f"
    using that by (intro mb_inv_core) (auto simp: mb_inv_with_def mb_wired_def)
  show "mb_inv_with T (s\<lparr>world := snd (p (world s))\<rparr>)" if "mb_inv_with T s" "m_probe s = Some p"
    using that by (intro mb_inv_core) (auto simp: mb_inv_with_def mb_wired_def)
  show "mb_inv_with T (s\<lparr>world := d (world s)\<rparr>)" if "mb_inv_with T s" "m_disconnect s = Some d"
    using that by (intro mb_inv_core) (auto simp: mb_inv_with_def mb_wired_def)
qed (simp_all add: setConnected_mb_inv setReconnecting_mb_inv, simp_all add: mb_inv_with_def mb_wired_def)

lemma connectHandler_core: "mb_core (snd (mb_connectHandler ops host port w)) = mb_core w"
  by (simp add: mb_connectHandler_def mb_core_def Let_def split: prod.split)

lemma mb_connectToHost_inv: "mb_inv_with T m \<Longrightarrow> mb_inv_with T (mb_connectToHost ops host port m)"
  unfolding mb_connectToHost_def Let_def
  by (rule mbi.K_beginAutoConnect)
     (simp add: mb_inv_with_def mb_wired_def setHandlers_def connectHandler_core, simp add: mb_core_def)

lemma mb_disconnectNow_inv: "mb_inv_with T m \<Longrightarrow> mb_inv_with T (mb_disconnectNow ops m)"
  using mbi.K_disconnectNow [of T m]
  by (simp add: mb_disconnectNow_def Let_def mb_inv_with_def mb_wired_def)

lemma mb_onSocketError_inv: "mb_inv_with T m \<Longrightarrow> mb_inv_with T (mb_onSocketError ops m)"
  unfolding mb_onSocketError_def
  by (rule mbi.K_report, rule mb_inv_core) (simp_all add: mb_core_def)

lemma sendRequest_inv:
  "kind \<noteq> NoRequest \<Longrightarrow> T (start_timer (mb_requestTimeoutMs (world m))) \<Longrightarrow> mb_inv_with T m
   \<Longrightarrow> mb_inv_with T (sendRequest ops kind enc m)"
  by (simp add: sendRequest_def mb_inv_with_def mb_wired_def mb_isReady_def Let_def)

lemmas request_defs = readHoldingRegisters_def readInputRegisters_def readCoils_def
  readDiscreteInputs_def writeSingleRegister_def writeMultipleRegisters_def writeSingleCoil_def
  writeMultipleCoils_def

text \<open>
  The effect of a read depends only on the buffer after the chunk: the decoder of the pending
  request runs, and finishRequest reports.
\<close>

lemma finishRequest_inv:
  "mb_inv_with T m \<Longrightarrow> mb_pendingRequest (world m) \<noteq> NoRequest
   \<Longrightarrow> mb_inv_with T (finishRequest st exc succ fail (mb_appendChunk c m))"
  by (auto simp: finishRequest_def mb_inv_with_def mb_wired_def mb_appendChunk_def Let_def)

lemma mb_appendChunk_fields [simp]:
  "mb_pendingRequest (world (mb_appendChunk c m)) = mb_pendingRequest (world m)"
  "mb_readBuffer (world (mb_appendChunk c m)) = mb_readBuffer (world m) @ c"
  "mb_socket (world (mb_appendChunk c m)) = mb_socket (world m)"
  "mb_emitted (world (mb_appendChunk c m)) = mb_emitted (world m)"
  "m_connected (mb_appendChunk c m) = m_connected m"
  by (simp_all add: mb_appendChunk_def)

lemma dispatch_total: "\<exists>m'. dispatchResponse m = Some m'"
proof -
  let ?b = "mb_readBuffer (world m)"
  obtain r1 r2 r3 r4 r5 r6 r7 r8 where
    "decodeReadHoldingRegistersResponse ?b = Some r1"
    "decodeReadInputRegistersResponse ?b = Some r2"
    "decodeReadCoilsResponse ?b = Some r3"
    "decodeReadDiscreteInputsResponse ?b = Some r4"
    "decodeWriteSingleRegisterResponse ?b = Some r5"
    "decodeWriteSingleCoilResponse ?b = Some r6"
    "decodeWriteMultipleRegistersResponse ?b = Some r7"
    "decodeWriteMultipleCoilsResponse ?b = Some r8"
    using rhr.dec_total rir.dec_total rc.dec_total rdi.dec_total wsr.dec_total wsc.dec_total
      wmr.dec_total wmc.dec_total by metis
  then show ?thesis
    by (cases "mb_pendingRequest (world m)") (simp_all add: dispatchResponse_def)
qed

lemma dispatch_inv:
  assumes inv: "mb_inv_with T m" and d: "dispatchResponse (mb_appendChunk c m) = Some m'"
  shows "mb_inv_with T m'"
proof (cases "mb_pendingRequest (world m) = NoRequest")
  case True
  with inv d show ?thesis
    by (auto simp: dispatchResponse_def mb_appendChunk_def mb_inv_with_def mb_wired_def)
next
  case False
  note f = finishRequest_inv [OF inv False]
  from False d show ?thesis
    by (cases "mb_pendingRequest (world m)")
      (auto simp: dispatchResponse_def Option.bind_eq_Some_conv intro: f)
qed

lemma mb_onSocketReadyRead_inv:
  assumes "mb_inv_with T m" and "mb_onSocketReadyRead ops m = Some m'"
  shows "mb_inv_with T m'"
proof -
  obtain c sk where c: "sock_readAll ops (mb_socket (world m)) = (c, sk)" by fastforce
  have "mb_inv_with T (m\<lparr>world := (world m)\<lparr>mb_socket := sk\<rparr>\<rparr>)"
    using assms(1) by (rule mb_inv_core) (simp add: mb_core_def)
  then show ?thesis
    using assms(2) by (auto simp: mb_onSocketReadyRead_def c Let_def intro: dispatch_inv)
qed

lemma mb_onRequestTimeout_inv: "mb_inv_with T m \<Longrightarrow> mb_inv_with T
    (mb_onRequestTimeout (m\<lparr>world := (world m)\<lparr>mb_requestTimer := None\<rparr>\<rparr>))"
  by (simp add: mb_onRequestTimeout_def mb_inv_with_def mb_wired_def Let_def)

lemma mb_step_inv:
  "mb_step ops m m' \<Longrightarrow> mb_inv_with T m \<Longrightarrow> T (start_timer (mb_requestTimeoutMs (world m))) \<Longrightarrow> mb_inv_with T m'"
proof (induction rule: mb_step.induct)
  case (set_timeout m ms)
  then show ?case
    unfolding mb_setRequestTimeoutMs_def by (intro mb_inv_core) (simp_all add: mb_core_def)
next
  case (socket_changes m sk)
  then show ?case by (intro mb_inv_core) (simp_all add: mb_core_def)
qed (simp_all only: request_defs mb_connectToHost_inv mb_disconnectNow_inv sendRequest_inv
    mb_onSocketConnected_def mbi.K_report mb_onSocketError_inv mb_onSocketReadyRead_inv
    mb_onRequestTimeout_inv mbi.K_ticks PendingRequest.distinct simp_thms not_False_eq_True)

lemma newModbusConnection_inv: "mb_inv_with T (newModbusConnection sk)"
  by (simp add: newModbusConnection_def newConnectionState_def mb_inv_with_def mb_wired_def)

lemma mb_reachable_inv: "mb_reachable ops m \<Longrightarrow> mb_inv m"
  by (induction rule: mb_reachable.induct) (auto intro: newModbusConnection_inv mb_step_inv)

text \<open>Runs in which the request timeout is never negative: there a pending request has an armed timer.\<close>

inductive mb_timed_reachable :: "'s socket_ops \<Rightarrow> 's modbus \<Rightarrow> bool" for ops where
  mb_timed_start: "mb_timed_reachable ops (newModbusConnection sk)"
| mb_timed_next: "mb_timed_reachable ops m \<Longrightarrow> mb_step ops m m' \<Longrightarrow> 0 \<le> mb_requestTimeoutMs (world m')
    \<Longrightarrow> mb_timed_reachable ops m'"

lemma mb_timed_inv:
  "mb_timed_reachable ops m \<Longrightarrow> mb_inv_with (\<lambda>t. t \<noteq> None) m \<and> 0 \<le> mb_requestTimeoutMs (world m)"
proof (induction rule: mb_timed_reachable.induct)
  case (mb_timed_start sk)
  show ?case using newModbusConnection_inv [of _ sk] by (simp add: newModbusConnection_def newConnectionState_def)
next
  case (mb_timed_next m m')
  then show ?case using mb_step_inv [of ops m m' "\<lambda>t. t \<noteq> None"] by (simp add: start_timer_def)
qed

section \<open>The verdict on a buffer\<close>

text \<open>
  The status the decoder of a pending request gives a buffer, and the signal it leads to. It is a
  stream decoder for every kind of request, so the way the peer's bytes are cut into chunks is
  immaterial.
\<close>

definition verdict_signal ::
  "ResponseStatus \<Rightarrow> u8 \<Rightarrow> mb_signal \<Rightarrow> (string \<Rightarrow> mb_signal) \<Rightarrow> mb_signal" where
  "verdict_signal st exc success failure =
     (if st = Ok then success else if st = Exception then failure (exceptionText exc)
      else failure ''Malformed Modbus response'')"

fun mb_verdict :: "PendingRequest \<Rightarrow> bytes \<Rightarrow> (ResponseStatus \<times> mb_signal) option" where
  "mb_verdict PReadHoldingRegisters buf = map_option (\<lambda>r. (status r, verdict_signal (status r)
     (exceptionCode r) (HoldingRegistersRead (rhr_registers r)) ReadFailed))
     (decodeReadHoldingRegistersResponse buf)"
| "mb_verdict PReadInputRegisters buf = map_option (\<lambda>r. (status r, verdict_signal (status r)
     (exceptionCode r) (InputRegistersRead (rir_registers r)) ReadFailed))
     (decodeReadInputRegistersResponse buf)"
| "mb_verdict PReadCoils buf = map_option (\<lambda>r. (status r, verdict_signal (status r)
     (exceptionCode r) (CoilsRead (rc_coils r)) ReadFailed)) (decodeReadCoilsResponse buf)"
| "mb_verdict PReadDiscreteInputs buf = map_option (\<lambda>r. (status r, verdict_signal (status r)
     (exceptionCode r) (DiscreteInputsRead (rdi_inputs r)) ReadFailed))
     (decodeReadDiscreteInputsResponse buf)"
| "mb_verdict PWriteSingleRegister buf = map_option (\<lambda>r. (status r, verdict_signal (status r)
     (exceptionCode r) (SingleRegisterWritten (wsr_r_address r) (wsr_r_value r)) WriteFailed))
     (decodeWriteSingleRegisterResponse buf)"
| "mb_verdict PWriteMultipleRegisters buf = map_option (\<lambda>r. (status r, verdict_signal (status r)
     (exceptionCode r) (MultipleRegistersWritten (wmr_r_startAddress r) (wmr_r_quantity r))
     MultipleWriteFailed)) (decodeWriteMultipleRegistersResponse buf)"
| "mb_verdict PWriteSingleCoil buf = map_option (\<lambda>r. (status r, verdict_signal (status r)
     (exceptionCode r) (SingleCoilWritten (wsc_r_address r) (wsc_r_value r)) SingleCoilWriteFailed))
     (decodeWriteSingleCoilResponse buf)"
| "mb_verdict PWriteMultipleCoils buf = map_option (\<lambda>r. (status r, verdict_signal (status r)
     (exceptionCode r) (MultipleCoilsWritten (wmc_r_startAddress r) (wmc_r_quantity r))
     MultipleCoilWriteFailed)) (decodeWriteMultipleCoilsResponse buf)"
| "mb_verdict NoRequest buf = Some (Incomplete, ReadFailed [])"

definition undecided :: "ResponseStatus \<times> mb_signal \<Rightarrow> bool" where
  "undecided v \<longleftrightarrow> fst v = Incomplete"

lemmas mb_dec_total = rhr.dec_total rir.dec_total rc.dec_total rdi.dec_total
  wsr.dec_total wsc.dec_total wmr.dec_total wmc.dec_total

lemmas mb_dec_stable = rhr.dec_stable rir.dec_stable rc.dec_stable rdi.dec_stable
  wsr.dec_stable wsc.dec_stable wmr.dec_stable wmc.dec_stable

interpretation mbv: stream_decoder "mb_verdict k" undecided for k
proof
  fix d e v
  show "\<exists>r. mb_verdict k d = Some r"
    by (cases k) (simp_all add: mb_dec_total)
  show "mb_verdict k d = Some v \<Longrightarrow> \<not> undecided v \<Longrightarrow> mb_verdict k (d @ e) = Some v"
    by (cases k) (auto simp: undecided_def dest: mb_dec_stable [where e = e])
qed

text \<open>The driver after a decided answer.\<close>

definition mb_settle :: "mb_signal \<Rightarrow> 's modbus \<Rightarrow> 's modbus" where
  "mb_settle sig m =
     m\<lparr>world := (world m)\<lparr>mb_readBuffer := [], mb_pendingRequest := NoRequest,
         mb_requestTimer := None, mb_emitted := mb_emitted (world m) @ [sig]\<rparr>\<rparr>"

lemma dispatch_verdict:
  assumes "mb_pendingRequest (world m) = k" and "k \<noteq> NoRequest"
    and "mb_verdict k (mb_readBuffer (world m)) = Some v"
  shows "dispatchResponse m = Some (if undecided v then m else mb_settle (snd v) m)"
  using assms
  by (cases k) (auto simp: dispatchResponse_def finishRequest_def mb_settle_def undecided_def
      verdict_signal_def Let_def)

section \<open>A sequence of readyRead signals\<close>

text \<open>
  Before each readyRead the outside world brings the socket into some state; what readAll returns
  there is the chunk.
\<close>

fun mb_reads :: "'s socket_ops \<Rightarrow> 's modbus \<Rightarrow> 's list \<Rightarrow> 's modbus option" where
  "mb_reads ops m [] = Some m"
| "mb_reads ops m (sk # sks) = do {
     m' \<leftarrow> mb_onSocketReadyRead ops (m\<lparr>world := (world m)\<lparr>mb_socket := sk\<rparr>\<rparr>);
     mb_reads ops m' sks }"

definition mb_chunks :: "'s socket_ops \<Rightarrow> 's list \<Rightarrow> bytes list" where
  "mb_chunks ops sks = map (\<lambda>sk. fst (sock_readAll ops sk)) sks"

lemma mb_onSocketReadyRead_at:
  "mb_onSocketReadyRead ops (m\<lparr>world := (world m)\<lparr>mb_socket := sk\<rparr>\<rparr>) =
     dispatchResponse (mb_appendChunk (fst (sock_readAll ops sk))
       (m\<lparr>world := (world m)\<lparr>mb_socket := snd (sock_readAll ops sk)\<rparr>\<rparr>))"
  by (simp add: mb_onSocketReadyRead_def Let_def split: prod.splits)

definition mb_idle_after :: "'s modbus \<Rightarrow> mb_signal list \<Rightarrow> 's modbus \<Rightarrow> bool" where
  "mb_idle_after m sigs m' \<longleftrightarrow>
     mb_emitted (world m') = mb_emitted (world m) @ sigs
   \<and> mb_pendingRequest (world m') = NoRequest \<and> mb_readBuffer (world m') = []
   \<and> m_connected m' = m_connected m"

lemma idle_reads:
  "mb_pendingRequest (world m) = NoRequest \<Longrightarrow> mb_readBuffer (world m) = []
   \<Longrightarrow> \<exists>m'. mb_reads ops m sks = Some m' \<and> mb_idle_after m [] m'"
proof (induction sks arbitrary: m)
  case (Cons sk sks)
  let ?m = "m\<lparr>world := (world m)\<lparr>mb_socket := snd (sock_readAll ops sk), mb_readBuffer := []\<rparr>\<rparr>"
  have "mb_onSocketReadyRead ops (m\<lparr>world := (world m)\<lparr>mb_socket := sk\<rparr>\<rparr>) = Some ?m"
    using Cons.prems
    by (simp add: mb_onSocketReadyRead_at dispatchResponse_def mb_appendChunk_def)
  moreover obtain m' where "mb_reads ops ?m sks = Some m'" "mb_idle_after ?m [] m'"
    using Cons.IH [of ?m] Cons.prems by auto
  ultimately show ?case by (auto simp: mb_idle_after_def)
qed (simp add: mb_idle_after_def)

lemma pending_reads:
  assumes "mb_pendingRequest (world m) = k" and "k \<noteq> NoRequest"
    and "receive (mb_verdict k) undecided (mb_readBuffer (world m)) (mb_chunks ops sks) = Some (st, sig)"
  shows "\<exists>m'. mb_reads ops m sks = Some m' \<and> mb_idle_after m [sig] m'"
  using assms
proof (induction sks arbitrary: m)
  case Nil
  then show ?case by (simp add: mb_chunks_def)
next
  case (Cons sk sks)
  let ?c = "fst (sock_readAll ops sk)"
  let ?m = "mb_appendChunk ?c (m\<lparr>world := (world m)\<lparr>mb_socket := snd (sock_readAll ops sk)\<rparr>\<rparr>)"
  obtain v where v: "mb_verdict k (mb_readBuffer (world m) @ ?c) = Some v"
    using mbv.dec_total by blast
  have one: "mb_onSocketReadyRead ops (m\<lparr>world := (world m)\<lparr>mb_socket := sk\<rparr>\<rparr>)
      = Some (if undecided v then ?m else mb_settle (snd v) ?m)"
    unfolding mb_onSocketReadyRead_at by (rule dispatch_verdict) (use Cons.prems v in simp_all)
  show ?case
  proof (cases "undecided v")
    case True
    then have "\<exists>m'. mb_reads ops ?m sks = Some m' \<and> mb_idle_after ?m [sig] m'"
      by (intro Cons.IH) (use Cons.prems v in \<open>simp_all add: mb_chunks_def\<close>)
    then show ?thesis using one True by (simp add: mb_idle_after_def)
  next
    case False
    have sig: "snd v = sig" using Cons.prems v False by (simp add: mb_chunks_def)
    obtain m' where "mb_reads ops (mb_settle (snd v) ?m) sks = Some m'"
        "mb_idle_after (mb_settle (snd v) ?m) [] m'"
      using idle_reads [of "mb_settle (snd v) ?m"] by (auto simp: mb_settle_def)
    then show ?thesis using one False sig by (auto simp: mb_idle_after_def mb_settle_def)
  qed
qed

text \<open>The answers a request can get, and the outcome of one step for a pending request.\<close>

definition answers :: "PendingRequest \<Rightarrow> mb_signal \<Rightarrow> bool" where
  "answers k sig =
     (case sig of
        MbConnectionStateChanged _ \<Rightarrow> False
      | HoldingRegistersRead _ \<Rightarrow> k = PReadHoldingRegisters
      | InputRegistersRead _ \<Rightarrow> k = PReadInputRegisters
      | CoilsRead _ \<Rightarrow> k = PReadCoils
      | DiscreteInputsRead _ \<Rightarrow> k = PReadDiscreteInputs
      | ReadFailed _ \<Rightarrow> k \<in> {PReadHoldingRegisters, PReadInputRegisters, PReadCoils,
                            PReadDiscreteInputs}
      | SingleRegisterWritten _ _ \<Rightarrow> k = PWriteSingleRegister
      | WriteFailed _ \<Rightarrow> k = PWriteSingleRegister
      | MultipleRegistersWritten _ _ \<Rightarrow> k = PWriteMultipleRegisters
      | MultipleWriteFailed _ \<Rightarrow> k = PWriteMultipleRegisters
      | SingleCoilWritten _ _ \<Rightarrow> k = PWriteSingleCoil
      | SingleCoilWriteFailed _ \<Rightarrow> k = PWriteSingleCoil
      | MultipleCoilsWritten _ _ \<Rightarrow> k = PWriteMultipleCoils
      | MultipleCoilWriteFailed _ \<Rightarrow> k = PWriteMultipleCoils)"

definition mb_answered :: "'s modbus \<Rightarrow> 's modbus \<Rightarrow> bool" where
  "mb_answered m m' \<longleftrightarrow> mb_pendingRequest (world m') = NoRequest
     \<and> (\<exists>sig. mb_emitted (world m') = mb_emitted (world m) @ [sig]
           \<and> answers (mb_pendingRequest (world m)) sig)"

definition mb_waiting :: "'s modbus \<Rightarrow> 's modbus \<Rightarrow> bool" where
  "mb_waiting m m' \<longleftrightarrow> mb_pendingRequest (world m') = mb_pendingRequest (world m)
     \<and> mb_requestTimer (world m') = mb_requestTimer (world m) \<and> m_connected m'"

lemma verdict_answers:
  "k \<noteq> NoRequest \<Longrightarrow> mb_verdict k buf = Some v \<Longrightarrow> answers k (snd v)"
  by (cases k) (auto simp: verdict_signal_def answers_def)

lemma timeout_answers:
  "mb_pendingRequest (world m) \<noteq> NoRequest \<Longrightarrow>
   mb_answered m (mb_onRequestTimeout (m\<lparr>world := (world m)\<lparr>mb_requestTimer := None\<rparr>\<rparr>))"
  by (cases "mb_pendingRequest (world m)")
     (simp_all add: mb_onRequestTimeout_def mb_answered_def answers_def Let_def)

lemma readyRead_outcome:
  assumes "mb_inv m" and k: "mb_pendingRequest (world m) \<noteq> NoRequest"
    and r: "mb_onSocketReadyRead ops m = Some m'"
  shows "mb_waiting m m' \<or> mb_answered m m'"
proof -
  let ?k = "mb_pendingRequest (world m)" and ?sk = "mb_socket (world m)"
  let ?c = "fst (sock_readAll ops ?sk)"
  let ?m = "mb_appendChunk ?c (m\<lparr>world := (world m)\<lparr>mb_socket := snd (sock_readAll ops ?sk)\<rparr>\<rparr>)"
  obtain v where v: "mb_verdict ?k (mb_readBuffer (world m) @ ?c) = Some v"
    using mbv.dec_total by blast
  have "mb_onSocketReadyRead ops (m\<lparr>world := (world m)\<lparr>mb_socket := ?sk\<rparr>\<rparr>)
      = Some (if undecided v then ?m else mb_settle (snd v) ?m)"
    unfolding mb_onSocketReadyRead_at by (rule dispatch_verdict [OF _ k]) (use v in simp_all)
  then have m': "m' = (if undecided v then ?m else mb_settle (snd v) ?m)" using r by simp
  show ?thesis
    using assms(1) k verdict_answers [OF k v]
    by (simp add: m' mb_waiting_def mb_answered_def mb_settle_def mb_inv_with_def mb_appendChunk_def)
qed

definition mb_dropped :: "'s modbus \<Rightarrow> 's modbus \<Rightarrow> bool" where
  "mb_dropped m m' \<longleftrightarrow> \<not> m_connected m' \<and> mb_pendingRequest (world m') = NoRequest
     \<and> mb_emitted (world m') = mb_emitted (world m) @ [MbConnectionStateChanged False]"

lemma wired_mb_inv: "mb_inv m \<Longrightarrow> onReconnectingChanged m = (\<lambda>_ w. w)"
  "mb_inv m \<Longrightarrow> onStateChanged m = mb_onStateChanged"
  by (simp_all add: mb_inv_with_def mb_wired_def)

lemma callable_core:
  "mb_inv m \<Longrightarrow> m_connect m = Some f \<Longrightarrow> mb_core (snd (f w)) = mb_core w"
  "mb_inv m \<Longrightarrow> m_probe m = Some p \<Longrightarrow> mb_core (snd (p w)) = mb_core w"
  "mb_inv m \<Longrightarrow> m_disconnect m = Some g \<Longrightarrow> mb_core (g w) = mb_core w"
  by (simp_all add: mb_inv_with_def mb_wired_def)

lemma waiting_core:
  assumes "mb_inv m" and "mb_pendingRequest (world m) \<noteq> NoRequest"
    and "mb_core (world m') = mb_core (world m)" and "m_connected m' = m_connected m"
  shows "mb_waiting m m'"
  using assms by (simp add: mb_waiting_def mb_inv_with_def mb_core_def)

lemma dropped_core:
  assumes "mb_inv m" and "mb_pendingRequest (world m) \<noteq> NoRequest"
    and "mb_core w = mb_core (world m)"
    and "world m' = mb_onStateChanged False w" and "\<not> m_connected m'"
  shows "mb_dropped m m'"
  using assms by (simp add: mb_dropped_def mb_core_def mb_onStateChanged_def)

lemma heartbeat_outcome:
  assumes inv: "mb_inv m" and k: "mb_pendingRequest (world m) \<noteq> NoRequest"
  shows "mb_waiting m (onHeartbeatTick m) \<or> mb_dropped m (onHeartbeatTick m)"
proof (cases "m_probe m")
  case None
  then show ?thesis using waiting_core [OF inv k, of m] by (simp add: onHeartbeatTick_def)
next
  case (Some f)
  obtain alive w where f: "f (world m) = (alive, w)" by fastforce
  have c: "mb_core w = mb_core (world m)" using callable_core(2) [OF inv Some, of "world m"] f by simp
  have con: "m_connected m" using inv k by (simp add: mb_inv_with_def)
  show ?thesis
  proof (cases alive)
    case True
    then have "onHeartbeatTick m = m\<lparr>world := w\<rparr>" by (simp add: onHeartbeatTick_def Some f)
    then show ?thesis using waiting_core [OF inv k] c by simp
  next
    case False
    then have "mb_dropped m (onHeartbeatTick m)"
      by (intro dropped_core [OF inv k c])
        (simp_all add: onHeartbeatTick_def Some f con startReconnecting_def setReconnecting_def
          setConnected_def wired_mb_inv [OF inv] Let_def)
    then show ?thesis ..
  qed
qed

lemma report_outcome:
  assumes inv: "mb_inv m" and k: "mb_pendingRequest (world m) \<noteq> NoRequest"
  shows "mb_waiting m (reportPendingConnectResult b m) \<or> mb_dropped m (reportPendingConnectResult b m)"
proof -
  have con: "m_connected m" using inv k by (simp add: mb_inv_with_def)
  let ?r = "reportPendingConnectResult b m"
  show ?thesis
  proof (cases "\<not> m_asyncResult m \<or> \<not> m_awaitingAsyncResult m \<or> b")
    case True
    then have "mb_waiting m ?r"
      by (intro waiting_core [OF inv k])
        (auto simp: reportPendingConnectResult_def cs_helper_defs con wired_mb_inv [OF inv] Let_def)
    then show ?thesis ..
  next
    case False
    then have "mb_dropped m ?r"
      by (intro dropped_core [OF inv k refl])
        (auto simp: reportPendingConnectResult_def cs_helper_defs con wired_mb_inv [OF inv] Let_def)
    then show ?thesis ..
  qed
qed

text \<open>The tick of the reconnect timer: only a failure reported from within the connect callable can drop the request.\<close>

lemma callConnect_outcome:
  assumes inv: "mb_inv m" and k: "mb_pendingRequest (world m) \<noteq> NoRequest" and f: "m_connect m = Some f"
    and c: "callConnect f m = (started, m')"
  shows "mb_waiting m m' \<or> m_asyncResult m \<and> mb_dropped m m'"
proof -
  obtain r w where w: "f (world m) = (r, w)" by fastforce
  let ?m = "m\<lparr>world := w\<rparr>"
  have core: "mb_core w = mb_core (world m)" using callable_core(1) [OF inv f, of "world m"] w by simp
  then have i: "mb_inv ?m" using inv by (intro mb_inv_core)
  have p: "mb_pendingRequest (world ?m) \<noteq> NoRequest" using core k by (simp add: mb_core_def)
  have wait: "mb_waiting m ?m" using waiting_core [OF inv k] core by simp
  have "mb_waiting m (reportPendingConnectResult False ?m)
      \<or> m_asyncResult m \<and> mb_dropped m (reportPendingConnectResult False ?m)"
    using report_outcome [OF i p, of False] core wait
    by (cases "m_asyncResult m") (auto simp: mb_waiting_def mb_dropped_def mb_core_def)
  then show ?thesis using c w wait by (auto simp: callConnect_def Let_def split: if_splits prod.splits)
qed

lemma outcome_frame [simp]:
  "mb_waiting m (armNextRung m') = mb_waiting m m'" "mb_dropped m (armNextRung m') = mb_dropped m m'"
  "mb_waiting m (m'\<lparr>m_awaitingAsyncResult := b, m_asyncAutoRetryOnFailure := b'\<rparr>) = mb_waiting m m'"
  "mb_dropped m (m'\<lparr>m_awaitingAsyncResult := b, m_asyncAutoRetryOnFailure := b'\<rparr>) = mb_dropped m m'"
  by (simp_all add: mb_waiting_def mb_dropped_def armNextRung_def Let_def)

lemma reconnect_tick_outcome:
  assumes inv: "mb_inv m" and k: "mb_pendingRequest (world m) \<noteq> NoRequest"
  shows "mb_waiting m (onReconnectTick (m\<lparr>m_reconnectTimer := None\<rparr>)) \<or> mb_dropped m (onReconnectTick (m\<lparr>m_reconnectTimer := None\<rparr>))"
proof -
  define d where "d = run_disconnect (m\<lparr>m_reconnectTimer := None\<rparr>)"
  note t = onReconnectTick_unfold [of "m\<lparr>m_reconnectTimer := None\<rparr>", folded d_def]
  have i: "mb_inv d" unfolding d_def using inv by (intro mbi.K_run_disconnect) (simp add: mbi.K_fields)
  have core: "mb_core (world d) = mb_core (world m)"
    using callable_core(3) [OF inv] by (simp add: d_def run_disconnect_def split: option.split)
  have wait: "mb_waiting m d" using waiting_core [OF inv k core] by (simp add: d_def)
  show ?thesis
  proof (cases "m_connect m")
    case None
    then show ?thesis unfolding t using wait by simp
  next
    case (Some f)
    obtain started m' where c: "callConnect f d = (started, m')" by fastforce
    have p: "mb_pendingRequest (world d) \<noteq> NoRequest" "m_connect d = Some f" using core k Some by (simp_all add: mb_core_def d_def)
    have o: "mb_waiting m m' \<or> m_asyncResult m' \<and> mb_dropped m m'"
      using callConnect_outcome [OF i p c] callConnect_fields(2) [OF c] core wait by (auto simp: mb_waiting_def mb_dropped_def mb_core_def)
    have "mb_inv m'" using mbi.K_callConnect [OF i p(2)] c by simp
    then have "mb_waiting m (armHeartbeat (setConnected True (stopReconnecting m')))" if "mb_waiting m m'"
      using that by (simp add: mb_waiting_def cs_helper_defs wired_mb_inv)
    then show ?thesis unfolding t using o Some c by (auto simp: Let_def)
  qed
qed

lemma disconnect_outcome:
  assumes inv: "mb_inv m" and k: "mb_pendingRequest (world m) \<noteq> NoRequest"
  shows "mb_dropped m (mb_disconnectNow ops m)"
proof -
  have con: "m_connected m" using inv k by (simp add: mb_inv_with_def)
  have "mb_dropped m (disconnectNow m)"
  proof (cases "m_disconnect m")
    case None
    then show ?thesis
      by (intro dropped_core [OF inv k refl])
        (auto simp: disconnectNow_def cs_helper_defs con wired_mb_inv [OF inv] Let_def)
  next
    case (Some g)
    show ?thesis
      by (rule dropped_core [OF inv k callable_core(3) [OF inv Some, of "world m"]])
        (auto simp: disconnectNow_def cs_helper_defs con wired_mb_inv [OF inv] Let_def Some)
  qed
  then show ?thesis by (simp add: mb_dropped_def mb_disconnectNow_def Let_def)
qed

lemma pending_step:
  assumes "mb_step ops m m'" and "mb_inv m" and "mb_pendingRequest (world m) \<noteq> NoRequest"
  shows "mb_waiting m m' \<or> mb_answered m m' \<or> mb_dropped m m'
       \<or> (\<exists>host port. m' = mb_connectToHost ops host port m)"
  using assms
proof (induction rule: mb_step.induct)
  case (heartbeat_tick m)
  then show ?case
    using heartbeat_outcome [of m] waiting_core [of m m] by (auto split: option.splits)
next
  case (reconnect_tick m)
  then show ?case
    using reconnect_tick_outcome [of m] waiting_core [of m m] by (auto split: option.splits)
next
  case (socket_error m)
  let ?m = "m\<lparr>world := (world m)\<lparr>mb_error := sock_errorString ops (mb_socket (world m))\<rparr>\<rparr>"
  have "mb_inv ?m" using socket_error by (intro mb_inv_core) (simp_all add: mb_core_def)
  then have "mb_waiting ?m (mb_onSocketError ops m) \<or> mb_dropped ?m (mb_onSocketError ops m)"
    unfolding mb_onSocketError_def using socket_error by (intro report_outcome) simp_all
  then show ?case by (auto simp: mb_waiting_def mb_dropped_def)
next
  case (socket_connected m)
  then show ?case using report_outcome [of m True] by (auto simp: mb_onSocketConnected_def)
next
  case (ready_read m m')
  then show ?case using readyRead_outcome by blast
next
  case (set_timeout m ms)
  then show ?case
    using waiting_core [of m "mb_setRequestTimeoutMs ms m"]
    by (simp add: mb_setRequestTimeoutMs_def mb_core_def)
next
  case (socket_changes m sk)
  then show ?case
    using waiting_core [of m "m\<lparr>world := (world m)\<lparr>mb_socket := sk\<rparr>\<rparr>"] by (simp add: mb_core_def)
next
  case (request_timeout m t)
  then show ?case by (simp add: timeout_answers)
next
  case (disconnect_now m)
  then show ?case by (simp add: disconnect_outcome)
qed (auto simp: request_defs sendRequest_def waiting_core)

text \<open>A read frame with any transaction id satisfies a pending register read.\<close>

lemma verdict_registers:
  assumes "length regs \<le> 127"
  shows "mb_verdict PReadHoldingRegisters (mbap_frame tid unit (registers_pdu 0x03 regs) @ rest)
     = Some (Ok, HoldingRegistersRead regs)"
proof -
  have "decodeReadHoldingRegistersResponse (mbap_frame tid unit (registers_pdu 0x03 regs) @ rest)
      = Some \<lparr>status = Ok, transactionId = tid, exceptionCode = 0, rhr_registers = regs\<rparr>"
    unfolding decodeReadHoldingRegisters_Ok registers_accepted_iff [OF function_codes_plain(3)]
    using assms by blast
  then show ?thesis by (simp add: verdict_signal_def)
qed

section \<open>Properties\<close>

text \<open>
  C4. No request is lost silently. In every state that is reached without a negative request timeout, a pending
  request implies a live connection and an armed request timer, and whatever happens next - a call of the owner, a
  signal of the socket, a tick of a timer - it either is still pending with its timer running on, or is
  answered by exactly one signal of its own family (success or failure), or is dropped together
  with the announcement that the connection is gone; the only exception is the owner calling
  connectToHost again, which forgets the request without a signal.
\<close>

theorem modbus_no_silent_loss:
  assumes "mb_timed_reachable ops m" and "mb_pendingRequest (world m) \<noteq> NoRequest"
    and "mb_step ops m m'"
  shows "m_connected m \<and> mb_requestTimer (world m) \<noteq> None
       \<and> (mb_waiting m m' \<or> mb_answered m m' \<or> mb_dropped m m'
          \<or> (\<exists>host port. m' = mb_connectToHost ops host port m))"
proof -
  have "mb_inv_with (\<lambda>t. t \<noteq> None) m" using mb_timed_inv [OF assms(1)] ..
  then show ?thesis
    using pending_step [OF assms(3) _ assms(2)] assms(2) mb_inv_mono [of _ m] by (simp add: mb_inv_with_def)
qed

text \<open>
  With a negative timeout a request has no timer: QTimer refuses the interval, so a request that is never answered stays
  pending, and no further request is accepted.
\<close>

theorem modbus_negative_timeout_hangs:
  assumes "mb_isReady m" and "mb_pendingRequest (world m) = NoRequest" and "ms < 0"
  shows "let m' = readHoldingRegisters ops u a q (mb_setRequestTimeoutMs ms m)
     in mb_pendingRequest (world m') = PReadHoldingRegisters \<and> mb_requestTimer (world m') = None
      \<and> readHoldingRegisters ops u2 a2 q2 m' = m'"
  using assms by (simp add: readHoldingRegisters_def sendRequest_def mb_setRequestTimeoutMs_def mb_isReady_def start_timer_def Let_def)

text \<open>
  Reading is safe: no chunk, however malformed or long, makes the handler of readyRead read
  outside the buffer, and in every reachable state an idle driver has an empty buffer, so no byte
  of an old answer is ever parsed as part of a new one that arrives later.
\<close>

theorem modbus_read_safe:
  assumes "mb_reachable ops m"
  shows "(\<exists>m'. mb_onSocketReadyRead ops m = Some m')
       \<and> (mb_pendingRequest (world m) = NoRequest \<longrightarrow> mb_readBuffer (world m) = [])"
  using mb_reachable_inv [OF assms]
  by (simp add: mb_inv_with_def mb_onSocketReadyRead_def dispatch_total Let_def split: prod.splits)

text \<open>
  C5. Fragmentation does not matter, for any of the eight requests: when the bytes delivered by a
  sequence of readyRead signals decode, as a whole, to an answer, the driver emits exactly the
  signal of that answer, once, and is idle with an empty buffer afterwards - wherever the chunk
  boundaries are and whatever follows the frame.
\<close>

theorem modbus_chunking_immaterial:
  assumes "mb_pendingRequest (world m) = k" and "k \<noteq> NoRequest"
    and "mb_verdict k (mb_readBuffer (world m) @ concat (mb_chunks ops sks)) = Some (st, sig)"
    and "st \<noteq> Incomplete" and "sks \<noteq> []"
  shows "\<exists>m'. mb_reads ops m sks = Some m' \<and> mb_idle_after m [sig] m'"
proof (rule pending_reads [OF assms(1,2)])
  show "receive (mb_verdict k) undecided (mb_readBuffer (world m)) (mb_chunks ops sks) = Some (st, sig)"
    by (rule mbv.receive_chunks) (use assms in \<open>simp_all add: undecided_def mb_chunks_def\<close>)
qed

text \<open>
  C9. The transaction id is written into every request but never compared with the one of the
  answer: a frame that carries registers satisfies a pending register read whatever its
  transaction id. So the late answer to a request that has timed out is reported as the answer to
  the next one.
\<close>

theorem modbus_transaction_id_not_checked:
  assumes "mb_pendingRequest (world m) = PReadHoldingRegisters" and "mb_readBuffer (world m) = []"
    and "length regs \<le> 127"
    and "mb_chunks ops [sk] = [mbap_frame tid unit (registers_pdu 0x03 regs)]"
  shows "\<exists>m'. mb_reads ops m [sk] = Some m' \<and> mb_idle_after m [HoldingRegistersRead regs] m'"
proof (rule pending_reads [OF assms(1) _, where st = Ok])
  show "receive (mb_verdict PReadHoldingRegisters) undecided (mb_readBuffer (world m))
      (mb_chunks ops [sk]) = Some (Ok, HoldingRegistersRead regs)"
    using verdict_registers [OF assms(3), of tid unit "[]"]
    by (intro mbv.receive_chunks) (simp_all add: assms undecided_def)
qed simp

section \<open>Witnesses\<close>

text \<open>A driver that is connected, and the same with a request for two registers pending.\<close>

definition demo_connected :: "log_socket modbus" where
  "demo_connected = mb_onSocketConnected (mb_connectToHost log_ops ''plc'' 502
     (newModbusConnection \<lparr>log_written = [], log_incoming = [], log_up = False\<rparr>))"

definition demo_pending :: "log_socket modbus" where
  "demo_pending = readHoldingRegisters log_ops 1 0 2 demo_connected"

definition demo_chunk :: "bytes \<Rightarrow> log_socket" where
  "demo_chunk c = \<lparr>log_written = [], log_incoming = c, log_up = True\<rparr>"

lemma demo_reachable: "mb_reachable log_ops demo_pending"
  unfolding demo_pending_def demo_connected_def
  by (rule mb_reachable.mb_next [OF mb_reachable.mb_next [OF mb_reachable.mb_next
        [OF mb_reachable.mb_start mb_step.connect_to_host] mb_step.socket_connected]
        mb_step.read_holding])

lemma demo_timed_reachable: "mb_timed_reachable log_ops demo_pending"
  unfolding demo_pending_def demo_connected_def
  by (rule mb_timed_next [OF mb_timed_next [OF mb_timed_next
        [OF mb_timed_start mb_step.connect_to_host] mb_step.socket_connected] mb_step.read_holding])
     (simp_all add: readHoldingRegisters_def sendRequest_def mb_connectToHost_def mb_onSocketConnected_def newModbusConnection_def
        newConnectionState_def mb_connectHandler_def callConnect_def log_ops_def mb_isReady_def mb_onStateChanged_def cs_op_defs cs_helper_defs Let_def)

lemmas demo_defs = demo_pending_def demo_connected_def readHoldingRegisters_def sendRequest_def
  mb_connectToHost_def mb_onSocketConnected_def newModbusConnection_def newConnectionState_def
  mb_isReady_def mb_onStateChanged_def cs_op_defs cs_helper_defs Let_def
  mb_connectHandler_def callConnect_def log_ops_def start_timer_def

lemma demo_fields:
  "mb_pendingRequest (world demo_pending) = PReadHoldingRegisters"
  "mb_readBuffer (world demo_pending) = []"
  "mb_requestTimer (world demo_pending) = Some 1000"
  "mb_emitted (world demo_pending) = [MbConnectionStateChanged True]"
  by (simp_all add: demo_defs)

theorem modbus_no_silent_loss_witness:
  "mb_pendingRequest (world demo_pending) = PReadHoldingRegisters \<and> m_connected demo_pending"
  using modbus_no_silent_loss [OF demo_timed_reachable _ mb_step.disconnect_now] by (simp add: demo_fields)

theorem modbus_read_safe_witness:
  "\<exists>m'. mb_onSocketReadyRead log_ops demo_pending = Some m'"
  using modbus_read_safe [OF demo_reachable] by blast

lemma demo_frame:
  "mbap_frame 1 1 (registers_pdu 3 [7, 515]) = [0, 1, 0, 0, 0, 7, 1, 3, 4, 0, 7, 2, 3]"
  by (simp add: mbap_frame_def registers_pdu_def be16_def)

theorem modbus_chunking_immaterial_witness:
  "\<exists>m'. mb_reads log_ops demo_pending
          [demo_chunk [0, 1, 0, 0, 0], demo_chunk [7, 1, 3, 4, 0, 7], demo_chunk [2, 3]] = Some m'
      \<and> mb_emitted (world m') = [MbConnectionStateChanged True, HoldingRegistersRead [7, 515]]"
proof -
  let ?sks = "[demo_chunk [0, 1, 0, 0, 0], demo_chunk [7, 1, 3, 4, 0, 7], demo_chunk [2, 3]]"
  have c: "mb_verdict PReadHoldingRegisters (mb_readBuffer (world demo_pending)
      @ concat (mb_chunks log_ops ?sks)) = Some (Ok, HoldingRegistersRead [7, 515])"
    using verdict_registers [of "[7, 515]" 1 1 "[]", unfolded demo_frame]
    by (simp add: demo_fields mb_chunks_def log_ops_def demo_chunk_def del: mb_verdict.simps)
  show ?thesis
    using modbus_chunking_immaterial [OF demo_fields(1) _ c] 
    by (auto simp: mb_idle_after_def demo_fields simp del: mb_reads.simps)
qed

text \<open>Request 1 times out, request 2 for other registers is sent, the answer to 1 arrives.\<close>

definition demo_second :: "log_socket modbus" where
  "demo_second = readHoldingRegisters log_ops 1 100 2
     (mb_onRequestTimeout (demo_pending\<lparr>world := (world demo_pending)\<lparr>mb_requestTimer := None\<rparr>\<rparr>))"

theorem modbus_transaction_id_not_checked_witness:
  "\<exists>m'. mb_nextTransactionId (world demo_second) = 3
      \<and> mb_reads log_ops demo_second [demo_chunk (mbap_frame 1 1 (registers_pdu 3 [7, 515]))] = Some m'
      \<and> mb_idle_after demo_second [HoldingRegistersRead [7, 515]] m'"
proof -
  have "mb_pendingRequest (world demo_second) = PReadHoldingRegisters"
    "mb_readBuffer (world demo_second) = []" "mb_nextTransactionId (world demo_second) = 3"
    by (simp_all add: demo_second_def mb_onRequestTimeout_def demo_defs)
  then show ?thesis
    using modbus_transaction_id_not_checked [of demo_second "[7, 515]" log_ops
        "demo_chunk (mbap_frame 1 1 (registers_pdu 3 [7, 515]))" 1 1]
    by (simp add: mb_chunks_def log_ops_def demo_chunk_def del: mb_reads.simps)
qed

end
