(* ===== verification/C3_Codec.thy ===== *)
theory C3_Codec
  imports Prelude
begin

text \<open>
  The wire format of C3/InBio access-control panels, from src/features/c3protocol/c3_codec.\{h,cpp\}:
  the CRC-16/ARC checksum, the frame encoder and decoder, every request encoder and every response
  decoder. Reads of a byte array are checked (None outside the array). Strings are lists of Latin-1
  characters, so QString::toLatin1 and fromLatin1 are the two directions of one bijection.
\<close>

section \<open>Constants\<close>

definition kFrameStart :: u8 where "kFrameStart = 0xAA"
definition kFrameEnd :: u8 where "kFrameEnd = 0x55"
definition kProtocolVersion :: u8 where "kProtocolVersion = 0x01"
definition kCommandConnectSessionLess :: u8 where "kCommandConnectSessionLess = 0x01"
definition kCommandConnectSession :: u8 where "kCommandConnectSession = 0x76"
definition kCommandDisconnect :: u8 where "kCommandDisconnect = 0x02"
definition kReplyOk :: u8 where "kReplyOk = 0xC8"
definition kReplyError :: u8 where "kReplyError = 0xC9"
definition kPreSessionId :: u16 where "kPreSessionId = 0xFEFE"
definition kPreSessionRequestNr :: "32 word" where "kPreSessionRequestNr = - 258"
definition kCommandDataTableCfg :: u8 where "kCommandDataTableCfg = 0x06"
definition kCommandGetData :: u8 where "kCommandGetData = 0x08"
definition kCommandPrepareData :: u8 where "kCommandPrepareData = 0x0D"
definition kCommandTransmitData :: u8 where "kCommandTransmitData = 0x0E"
definition kCommandFreeData :: u8 where "kCommandFreeData = 0x0F"
definition kCommandGetDataCount :: u8 where "kCommandGetDataCount = 0x0A"
definition kCommandGetParam :: u8 where "kCommandGetParam = 0x04"
definition kCommandControl :: u8 where "kCommandControl = 0x05"
definition kCommandRtlogBinary :: u8 where "kCommandRtlogBinary = 0x0B"
definition kCommandRtlogKeyValue :: u8 where "kCommandRtlogKeyValue = 0x79"

section \<open>Bytes and the checksum\<close>

definition appendByte :: "bytes \<Rightarrow> u8 \<Rightarrow> bytes" where
  "appendByte d v = d @ [v]"

definition appendLittleEndian16 :: "bytes \<Rightarrow> u16 \<Rightarrow> bytes" where
  "appendLittleEndian16 d v =
     appendByte (appendByte d (ucast (v AND 0xFF))) (ucast (drop_bit 8 v AND 0xFF))"

definition toLatin1 :: "string \<Rightarrow> bytes" where
  "toLatin1 s = map (\<lambda>c. of_nat (of_char c)) s"

definition fromLatin1 :: "bytes \<Rightarrow> string" where
  "fromLatin1 d = map (\<lambda>b. char_of (unat b)) d"

text \<open>Two and four bytes read little-endian, as the decoders write it out at every use.\<close>

definition readLittleEndian16 :: "bytes \<Rightarrow> nat \<Rightarrow> u16 option" where
  "readLittleEndian16 d i = do {
     a \<leftarrow> byte_at d i;
     b \<leftarrow> byte_at d (i + 1);
     Some (ucast a OR push_bit 8 (ucast b)) }"

definition readLittleEndian32 :: "bytes \<Rightarrow> nat \<Rightarrow> u32 option" where
  "readLittleEndian32 d i = do {
     a \<leftarrow> byte_at d i;
     b \<leftarrow> byte_at d (i + 1);
     c \<leftarrow> byte_at d (i + 2);
     e \<leftarrow> byte_at d (i + 3);
     Some (ucast a OR push_bit 8 (ucast b) OR push_bit 16 (ucast c) OR push_bit 24 (ucast e)) }"

definition crc16_bit :: "u16 \<Rightarrow> u16" where
  "crc16_bit crc = (if crc AND 1 \<noteq> 0 then drop_bit 1 crc XOR 0xA001 else drop_bit 1 crc)"

fun crc16_bits :: "nat \<Rightarrow> u16 \<Rightarrow> u16" where
  "crc16_bits 0 crc = crc"
| "crc16_bits (Suc n) crc = crc16_bits n (crc16_bit crc)"

definition crc16_byte :: "u16 \<Rightarrow> u8 \<Rightarrow> u16" where
  "crc16_byte crc rawByte = crc16_bits 8 (crc XOR ucast rawByte)"

definition crc16 :: "bytes \<Rightarrow> u16" where
  "crc16 d = foldl crc16_byte 0 d"

section \<open>Frames\<close>

definition encodeFrame :: "u8 \<Rightarrow> u16 \<Rightarrow> 32 word \<Rightarrow> bytes \<Rightarrow> bool \<Rightarrow> bytes" where
  "encodeFrame command sessionId requestNr payload includeSessionBlock =
     (let body = appendByte (appendByte [] kProtocolVersion) command;
          body = appendLittleEndian16 body
                   (of_nat ((if includeSessionBlock then 4 else 0) + length payload));
          body = (if includeSessionBlock
                  then appendLittleEndian16 (appendLittleEndian16 body sessionId) (ucast requestNr)
                  else body);
          body = body @ payload;
          checksum = crc16 body
      in appendByte (appendLittleEndian16 (appendByte [] kFrameStart @ body) checksum) kFrameEnd)"

datatype C3Status = C3Incomplete | C3Malformed | C3Rejected | C3Ok

record DecodedFrame =
  df_status :: C3Status
  df_payload :: bytes
  df_command :: u8

definition decodeFrameGeneric :: "bytes \<Rightarrow> bool \<Rightarrow> DecodedFrame option" where
  "decodeFrameGeneric d stripSessionBlock =
     (let result = \<lparr>df_status = C3Incomplete, df_payload = [], df_command = 0\<rparr>
      in if length d < 5 then Some result
         else do {
           len \<leftarrow> readLittleEndian16 d 3;
           let frameSize = 5 + unat len + 2 + 1;
           if length d < frameSize then Some result
           else do {
             let crcOffset = 5 + unat len;
             expectedCrc \<leftarrow> readLittleEndian16 d crcOffset;
             command \<leftarrow> byte_at d 2;
             start \<leftarrow> byte_at d 0;
             final \<leftarrow> byte_at d (frameSize - 1);
             if start \<noteq> kFrameStart \<or> final \<noteq> kFrameEnd
                \<or> crc16 (mid d 1 (4 + unat len)) \<noteq> expectedCrc
             then Some (result\<lparr>df_status := C3Malformed\<rparr>)
             else if command = kReplyError then Some (result\<lparr>df_status := C3Rejected\<rparr>)
             else (let payload = mid d 5 (unat len);
                       payload = (if stripSessionBlock \<and> length payload \<ge> 4
                                  then drop 4 payload else payload)
                   in Some \<lparr>df_status = C3Ok, df_payload = payload, df_command = command\<rparr>) } })"

section \<open>Session requests and replies\<close>

record ConnectSessionRequest =
  cs_password :: string

definition encodeConnectSessionRequest :: "ConnectSessionRequest \<Rightarrow> bytes" where
  "encodeConnectSessionRequest request =
     encodeFrame kCommandConnectSession kPreSessionId kPreSessionRequestNr
       (toLatin1 (cs_password request)) True"

record ConnectSessionResponse =
  csr_status :: C3Status
  csr_sessionId :: u16

definition decodeConnectSessionResponse :: "bytes \<Rightarrow> ConnectSessionResponse option" where
  "decodeConnectSessionResponse d =
     (let response = \<lparr>csr_status = C3Incomplete, csr_sessionId = 0\<rparr>
      in if length d < 5 then Some response
         else do {
           len \<leftarrow> readLittleEndian16 d 3;
           let frameSize = 5 + unat len + 2 + 1;
           if length d < frameSize then Some response
           else do {
             let crcOffset = 5 + unat len;
             expectedCrc \<leftarrow> readLittleEndian16 d crcOffset;
             command \<leftarrow> byte_at d 2;
             start \<leftarrow> byte_at d 0;
             final \<leftarrow> byte_at d (frameSize - 1);
             if start \<noteq> kFrameStart \<or> final \<noteq> kFrameEnd
                \<or> crc16 (mid d 1 (4 + unat len)) \<noteq> expectedCrc
                \<or> command \<noteq> kReplyOk \<and> command \<noteq> kReplyError
             then Some (response\<lparr>csr_status := C3Malformed\<rparr>)
             else if command = kReplyError then Some (response\<lparr>csr_status := C3Rejected\<rparr>)
             else do {
               sid \<leftarrow> readLittleEndian16 d 5;
               Some (response\<lparr>csr_status := C3Ok, csr_sessionId := sid\<rparr>) } } })"

record DisconnectRequest =
  dr_sessionId :: u16
  dr_requestNr :: "32 word"

definition encodeDisconnectRequest :: "DisconnectRequest \<Rightarrow> bytes" where
  "encodeDisconnectRequest request =
     encodeFrame kCommandDisconnect (dr_sessionId request) (dr_requestNr request) [] True"

record ConnectSessionLessRequest =
  csl_password :: string

definition encodeConnectSessionLessRequest :: "ConnectSessionLessRequest \<Rightarrow> bytes" where
  "encodeConnectSessionLessRequest request =
     encodeFrame kCommandConnectSessionLess 0 0 (toLatin1 (csl_password request)) False"

definition encodeSessionLessDisconnectRequest :: bytes where
  "encodeSessionLessDisconnectRequest = encodeFrame kCommandDisconnect 0 0 [] False"

record GenericReply =
  gr_status :: C3Status

definition decodeGenericReply :: "bytes \<Rightarrow> GenericReply option" where
  "decodeGenericReply d =
     (let reply = \<lparr>gr_status = C3Incomplete\<rparr>
      in if length d < 5 then Some reply
         else do {
           len \<leftarrow> readLittleEndian16 d 3;
           let frameSize = 5 + unat len + 2 + 1;
           if length d < frameSize then Some reply
           else do {
             let crcOffset = 5 + unat len;
             expectedCrc \<leftarrow> readLittleEndian16 d crcOffset;
             command \<leftarrow> byte_at d 2;
             start \<leftarrow> byte_at d 0;
             final \<leftarrow> byte_at d (frameSize - 1);
             if start \<noteq> kFrameStart \<or> final \<noteq> kFrameEnd
                \<or> crc16 (mid d 1 (4 + unat len)) \<noteq> expectedCrc
                \<or> command \<noteq> kReplyOk \<and> command \<noteq> kReplyError
             then Some \<lparr>gr_status = C3Malformed\<rparr>
             else Some \<lparr>gr_status = (if command = kReplyError then C3Rejected else C3Ok)\<rparr> } })"

section \<open>Key-value text\<close>

text \<open>
  The pattern ([\w~]+)=([^,\t]+), searched globally. A match at a position takes the longest run of
  word characters, which must be followed by an equals sign and a value of at least one character;
  shorter runs cannot match, because what follows them is a word character. The search continues
  after a match, or one character further when there is none at the position.
\<close>

definition is_word :: "char \<Rightarrow> bool" where
  "is_word c = (let n = of_char c :: nat
                in 48 \<le> n \<and> n \<le> 57 \<or> 65 \<le> n \<and> n \<le> 90 \<or> 97 \<le> n \<and> n \<le> 122
                 \<or> c = CHR ''_'' \<or> c = CHR ''~'')"

definition is_value :: "char \<Rightarrow> bool" where
  "is_value c = (c \<noteq> CHR '','' \<and> c \<noteq> CHR 0x09)"

definition match_pair :: "string \<Rightarrow> (string \<times> string \<times> string) option" where
  "match_pair s =
     (let key = takeWhile is_word s; rest = dropWhile is_word s
      in case rest of
           [] \<Rightarrow> None
         | c # rest' \<Rightarrow>
             (let v = takeWhile is_value rest'
              in if key \<noteq> [] \<and> c = CHR ''='' \<and> v \<noteq> []
                 then Some (key, v, dropWhile is_value rest') else None))"

lemma match_pair_shorter: "match_pair s = Some (k, v, r) \<Longrightarrow> length r < length s"
proof -
  assume "match_pair s = Some (k, v, r)"
  then obtain c rest' where d: "dropWhile is_word s = c # rest'" and r: "r = dropWhile is_value rest'"
    by (auto simp: match_pair_def Let_def split: list.splits if_splits)
  have "length r \<le> length rest'" by (simp add: r length_dropWhile_le)
  also have "\<dots> < length (dropWhile is_word s)" by (simp add: d)
  also have "\<dots> \<le> length s" by (rule length_dropWhile_le)
  finally show ?thesis .
qed

function matchPairs :: "string \<Rightarrow> (string \<times> string) list" where
  "matchPairs s =
     (case match_pair s of
        Some (k, v, r) \<Rightarrow> (k, v) # matchPairs r
      | None \<Rightarrow> (case s of [] \<Rightarrow> [] | _ # s' \<Rightarrow> matchPairs s'))"
  by pat_completeness auto
termination
  by (relation "measure length") (auto dest: match_pair_shorter)

declare matchPairs.simps [simp del]

definition parseKeyValuePairs :: "bytes \<Rightarrow> (string \<times> string) list" where
  "parseKeyValuePairs line = matchPairs (fromLatin1 line)"

section \<open>Table configuration\<close>

record DataTableField =
  fld_name :: string
  fld_type :: char
  fld_index :: int

record DataTableConfig =
  tbl_name :: string
  tbl_index :: int
  tbl_fields :: "DataTableField list"

record DataTableConfigResponse =
  dtc_status :: C3Status
  dtc_tables :: "DataTableConfig list"

definition encodeDataTableConfigRequest :: "bool \<Rightarrow> u16 \<Rightarrow> 32 word \<Rightarrow> bytes" where
  "encodeDataTableConfigRequest includeSessionBlock sessionId requestNr =
     encodeFrame kCommandDataTableCfg sessionId requestNr [] includeSessionBlock"

fun split_bytes :: "u8 \<Rightarrow> bytes \<Rightarrow> bytes list" where
  "split_bytes sep [] = [[]]"
| "split_bytes sep (b # bs) =
     (if b = sep then [] # split_bytes sep bs
      else (case split_bytes sep bs of [] \<Rightarrow> [[b]] | l # ls \<Rightarrow> (b # l) # ls))"

text \<open>QString::toInt is a parameter of the parser.\<close>

fun parseFields :: "(string \<Rightarrow> int) \<Rightarrow> (string \<times> string) list \<Rightarrow> DataTableField list" where
  "parseFields toInt [] = []"
| "parseFields toInt ((name, descriptor) # pairs) =
     (case descriptor of
        [] \<Rightarrow> parseFields toInt pairs
      | t # idx \<Rightarrow> \<lparr>fld_name = name, fld_type = t, fld_index = toInt idx\<rparr> # parseFields toInt pairs)"

fun parseTables :: "(string \<Rightarrow> int) \<Rightarrow> bytes list \<Rightarrow> DataTableConfig list" where
  "parseTables toInt [] = []"
| "parseTables toInt (line # ls) =
     (if line = [] then parseTables toInt ls
      else (case parseKeyValuePairs line of
              [] \<Rightarrow> parseTables toInt ls
            | (name, idx) # pairs \<Rightarrow>
                \<lparr>tbl_name = name, tbl_index = toInt idx, tbl_fields = parseFields toInt pairs\<rparr>
                  # parseTables toInt ls))"

definition decodeDataTableConfigResponse ::
  "(string \<Rightarrow> int) \<Rightarrow> bytes \<Rightarrow> bool \<Rightarrow> DataTableConfigResponse option" where
  "decodeDataTableConfigResponse toInt d includeSessionBlock = do {
     frame \<leftarrow> decodeFrameGeneric d includeSessionBlock;
     if df_status frame \<noteq> C3Ok then Some \<lparr>dtc_status = df_status frame, dtc_tables = []\<rparr>
     else Some \<lparr>dtc_status = C3Ok, dtc_tables = parseTables toInt (split_bytes 10 (df_payload frame))\<rparr> }"

section \<open>Table data\<close>

definition encodeGetDataRequest :: "int \<Rightarrow> int list \<Rightarrow> bool \<Rightarrow> u16 \<Rightarrow> 32 word \<Rightarrow> bytes" where
  "encodeGetDataRequest tableIndex fieldIndexes includeSessionBlock sessionId requestNr =
     (let payload = appendByte (appendByte [] (of_int tableIndex)) (of_nat (length fieldIndexes));
          payload = foldl (\<lambda>p i. appendByte p (of_int i)) payload fieldIndexes;
          payload = appendByte (appendByte payload 0x00) 0x00
      in encodeFrame kCommandGetData sessionId requestNr payload includeSessionBlock)"

record PrepareDataInfo =
  pd_compressed :: bool
  pd_dataLength :: u32
  pd_originalLength :: u32
  pd_checksum :: u32
  pd_packageLength :: u32

datatype GetDataStatus =
    GdIncomplete | GdMalformed | GdRejected | GdTableMismatch | GdOk | GdBigDataPending

datatype QVariant = VLongLong "64 word" | VString string

type_synonym QVariantMap = "string \<rightharpoonup> QVariant"

record GetDataResponse =
  gd_status :: GetDataStatus
  gd_records :: "QVariantMap list"
  gd_prepareInfo :: PrepareDataInfo

definition noPrepareInfo :: PrepareDataInfo where
  "noPrepareInfo = \<lparr>pd_compressed = False, pd_dataLength = 0, pd_originalLength = 0,
                    pd_checksum = 0, pd_packageLength = 0\<rparr>"

definition gd_fail :: "GetDataStatus \<Rightarrow> GetDataResponse" where
  "gd_fail st = \<lparr>gd_status = st, gd_records = [], gd_prepareInfo = noPrepareInfo\<rparr>"

text \<open>The fields named by the reply, in its order; the first table field with the index counts.\<close>

fun returnedFields :: "bytes \<Rightarrow> DataTableField list \<Rightarrow> nat \<Rightarrow> nat
   \<Rightarrow> DataTableField list option option" where
  "returnedFields payload tableFields fieldOffset 0 = Some (Some [])"
| "returnedFields payload tableFields fieldOffset (Suc n) = do {
     returnedIndex \<leftarrow> byte_at payload (2 + fieldOffset);
     case find (\<lambda>f. fld_index f = int (unat returnedIndex)) tableFields of
       None \<Rightarrow> Some None
     | Some f \<Rightarrow> do {
         more \<leftarrow> returnedFields payload tableFields (fieldOffset + 1) n;
         Some (map_option (\<lambda>fs. f # fs) more) } }"

fun readValue :: "bytes \<Rightarrow> nat \<Rightarrow> nat \<Rightarrow> nat \<Rightarrow> u64 \<Rightarrow> u64 option" where
  "readValue payload offset byteIndex 0 v = Some v"
| "readValue payload offset byteIndex (Suc n) v = do {
     b \<leftarrow> byte_at payload (offset + byteIndex);
     readValue payload offset (byteIndex + 1) n (v OR push_bit (8 * byteIndex) (ucast b)) }"

text \<open>One record: the outer option is None on an illegal read, the inner one on a malformed record.\<close>

fun parseRecord :: "DataTableField list \<Rightarrow> bytes \<Rightarrow> nat \<Rightarrow> QVariantMap
   \<Rightarrow> (QVariantMap \<times> nat) option option" where
  "parseRecord [] payload offset record = Some (Some (record, offset))"
| "parseRecord (fld # flds) payload offset record =
     (if offset \<ge> length payload then Some None
      else do {
        size \<leftarrow> byte_at payload offset;
        let valueSize = unat size;
        let offset = offset + 1;
        if valueSize > length payload - offset then Some None
        else if fld_type fld = CHR ''i'' \<or> fld_type fld = CHR ''L'' then
          (if valueSize > 8 then Some None
           else do {
             v \<leftarrow> readValue payload offset 0 valueSize 0;
             parseRecord flds payload (offset + valueSize)
               (record(fld_name fld \<mapsto> VLongLong v)) })
        else if fld_type fld = CHR ''s'' then
          parseRecord flds payload (offset + valueSize)
            (record(fld_name fld \<mapsto> VString (fromLatin1 (mid payload offset valueSize))))
        else Some None })"

text \<open>The while loop over the records; not terminating is the value None.\<close>

partial_function (option) parseRecords ::
  "DataTableField list \<Rightarrow> bytes \<Rightarrow> nat \<Rightarrow> QVariantMap list \<Rightarrow> QVariantMap list option option" where
  "parseRecords flds payload offset records =
     (if offset < length payload then
        (case parseRecord flds payload offset Map.empty of
           None \<Rightarrow> None
         | Some None \<Rightarrow> Some None
         | Some (Some (record, offset')) \<Rightarrow>
             parseRecords flds payload offset' (records @ [record]))
      else Some (Some records))"

definition parseGetDataPayload ::
  "bytes \<Rightarrow> int \<Rightarrow> DataTableField list \<Rightarrow> GetDataResponse option" where
  "parseGetDataPayload payload expectedTableIndex tableFields =
     (if length payload < 2 then Some (gd_fail GdMalformed)
      else do {
        t \<leftarrow> byte_at payload 0;
        if t \<noteq> of_int expectedTableIndex then Some (gd_fail GdTableMismatch)
        else do {
          fieldCount \<leftarrow> byte_at payload 1;
          if length payload < 2 + unat fieldCount then Some (gd_fail GdMalformed)
          else do {
            flds \<leftarrow> returnedFields payload tableFields 0 (unat fieldCount);
            case flds of
              None \<Rightarrow> Some (gd_fail GdMalformed)
            | Some fs \<Rightarrow>
                (let offset = 2 + unat fieldCount
                 in if fs = [] \<and> offset \<noteq> length payload then Some (gd_fail GdMalformed)
                    else do {
                      recs \<leftarrow> parseRecords fs payload offset [];
                      case recs of
                        None \<Rightarrow> Some (gd_fail GdMalformed)
                      | Some rs \<Rightarrow> Some \<lparr>gd_status = GdOk, gd_records = rs,
                                         gd_prepareInfo = noPrepareInfo\<rparr> }) } } })"

definition decodeGetDataResponse ::
  "bytes \<Rightarrow> int \<Rightarrow> DataTableField list \<Rightarrow> bool \<Rightarrow> GetDataResponse option" where
  "decodeGetDataResponse d expectedTableIndex tableFields includeSessionBlock = do {
     frame \<leftarrow> decodeFrameGeneric d includeSessionBlock;
     case df_status frame of
       C3Incomplete \<Rightarrow> Some (gd_fail GdIncomplete)
     | C3Malformed \<Rightarrow> Some (gd_fail GdMalformed)
     | C3Rejected \<Rightarrow> Some (gd_fail GdRejected)
     | C3Ok \<Rightarrow>
         if df_command frame = kCommandPrepareData then
           (let p = df_payload frame
            in if length p \<noteq> 17 then Some (gd_fail GdMalformed)
               else do {
                 c \<leftarrow> byte_at p 0;
                 dataLength \<leftarrow> readLittleEndian32 p 1;
                 originalLength \<leftarrow> readLittleEndian32 p 5;
                 checksum \<leftarrow> readLittleEndian32 p 9;
                 packageLength \<leftarrow> readLittleEndian32 p 13;
                 Some \<lparr>gd_status = GdBigDataPending, gd_records = [],
                       gd_prepareInfo = \<lparr>pd_compressed = (c \<noteq> 0), pd_dataLength = dataLength,
                         pd_originalLength = originalLength, pd_checksum = checksum,
                         pd_packageLength = packageLength\<rparr>\<rparr> })
         else parseGetDataPayload (df_payload frame) expectedTableIndex tableFields }"

section \<open>Big-data transfer\<close>

definition encodeTransmitDataRequest :: "u32 \<Rightarrow> bool \<Rightarrow> u16 \<Rightarrow> 32 word \<Rightarrow> bytes" where
  "encodeTransmitDataRequest offset includeSessionBlock sessionId requestNr =
     (let payload = [ucast (offset AND 0xFF), ucast (drop_bit 8 offset AND 0xFF),
                     ucast (drop_bit 16 offset AND 0xFF), ucast (drop_bit 24 offset AND 0xFF)]
      in encodeFrame kCommandTransmitData sessionId requestNr payload includeSessionBlock)"

record TransmitDataResponse =
  td_status :: C3Status
  td_offset :: u32
  td_chunkData :: bytes

definition decodeTransmitDataResponse :: "bytes \<Rightarrow> bool \<Rightarrow> TransmitDataResponse option" where
  "decodeTransmitDataResponse d includeSessionBlock = do {
     frame \<leftarrow> decodeFrameGeneric d includeSessionBlock;
     if df_status frame \<noteq> C3Ok
     then Some \<lparr>td_status = df_status frame, td_offset = 0, td_chunkData = []\<rparr>
     else if length (df_payload frame) < 4
     then Some \<lparr>td_status = C3Malformed, td_offset = 0, td_chunkData = []\<rparr>
     else do {
       offset \<leftarrow> readLittleEndian32 (df_payload frame) 0;
       Some \<lparr>td_status = C3Ok, td_offset = offset, td_chunkData = drop 4 (df_payload frame)\<rparr> } }"

definition encodeFreeDataRequest :: "bool \<Rightarrow> u16 \<Rightarrow> 32 word \<Rightarrow> bytes" where
  "encodeFreeDataRequest includeSessionBlock sessionId requestNr =
     encodeFrame kCommandFreeData sessionId requestNr [] includeSessionBlock"

definition encodeGetDataCountRequest :: "int \<Rightarrow> bool \<Rightarrow> u16 \<Rightarrow> 32 word \<Rightarrow> bytes" where
  "encodeGetDataCountRequest tableIndex includeSessionBlock sessionId requestNr =
     encodeFrame kCommandGetDataCount sessionId requestNr [of_int tableIndex] includeSessionBlock"

record GetDataCountResponse =
  gc_status :: C3Status
  gc_count :: u32

definition decodeGetDataCountResponse :: "bytes \<Rightarrow> bool \<Rightarrow> GetDataCountResponse option" where
  "decodeGetDataCountResponse d includeSessionBlock = do {
     frame \<leftarrow> decodeFrameGeneric d includeSessionBlock;
     if df_status frame = C3Ok \<and> length (df_payload frame) \<noteq> 4
     then Some \<lparr>gc_status = C3Malformed, gc_count = 0\<rparr>
     else if df_status frame \<noteq> C3Ok then Some \<lparr>gc_status = df_status frame, gc_count = 0\<rparr>
     else do {
       n \<leftarrow> readLittleEndian32 (df_payload frame) 0;
       Some \<lparr>gc_status = C3Ok, gc_count = n\<rparr> } }"

section \<open>Panel time\<close>

text \<open>QString::arg with a field width and zero as fill character.\<close>

definition zero_padded :: "nat \<Rightarrow> nat \<Rightarrow> string" where
  "zero_padded w n = replicate (w - length (dec_digits n)) CHR ''0'' @ dec_digits n"

definition decodeC3DateTime :: "u32 \<Rightarrow> string" where
  "decodeC3DateTime raw =
     (let v = raw;
          second = unat (v mod 60); v = v div 60;
          minute = unat (v mod 60); v = v div 60;
          hour = unat (v mod 24); v = v div 24;
          day = unat (v mod 31) + 1; v = v div 31;
          month = unat (v mod 12) + 1; v = v div 12;
          year = unat v + 2000
      in zero_padded 4 year @ ''-'' @ zero_padded 2 month @ ''-'' @ zero_padded 2 day @ '' ''
         @ zero_padded 2 hour @ '':'' @ zero_padded 2 minute @ '':'' @ zero_padded 2 second)"

section \<open>Real-time log\<close>

definition encodeRtlogBinaryRequest :: "bool \<Rightarrow> u16 \<Rightarrow> 32 word \<Rightarrow> bytes" where
  "encodeRtlogBinaryRequest includeSessionBlock sessionId requestNr =
     encodeFrame kCommandRtlogBinary sessionId requestNr [] includeSessionBlock"

definition encodeRtlogKeyValueRequest :: "bool \<Rightarrow> u16 \<Rightarrow> 32 word \<Rightarrow> bytes" where
  "encodeRtlogKeyValueRequest includeSessionBlock sessionId requestNr =
     encodeFrame kCommandRtlogKeyValue sessionId requestNr [] includeSessionBlock"

datatype RtLogRecordKind = Event | DoorAlarmStatus

record RtLogRecord =
  rt_kind :: RtLogRecordKind
  rt_cardNo :: u32
  rt_pin :: u32
  rt_alarmStatus :: bytes
  rt_dssStatus :: bytes
  rt_verified :: u8
  rt_doorId :: u8
  rt_eventType :: u8
  rt_inOutState :: u8
  rt_timeSecond :: u32

datatype RtLogStatus = RtIncomplete | RtMalformed | RtRejected | RtNotBinaryMode | RtOk

record RtLogBinaryResponse =
  rb_status :: RtLogStatus
  rb_records :: "RtLogRecord list"

definition emptyRtLogRecord :: RtLogRecord where
  "emptyRtLogRecord = \<lparr>rt_kind = Event, rt_cardNo = 0, rt_pin = 0, rt_alarmStatus = [],
     rt_dssStatus = [], rt_verified = 0, rt_doorId = 0, rt_eventType = 0, rt_inOutState = 0,
     rt_timeSecond = 0\<rparr>"

definition decodeRtLogRecord :: "bytes \<Rightarrow> RtLogRecord option" where
  "decodeRtLogRecord rec = do {
     eventType \<leftarrow> byte_at rec 10;
     let record = emptyRtLogRecord\<lparr>rt_eventType := eventType\<rparr>;
     record \<leftarrow>
       (if eventType = 255 then do {
          verified \<leftarrow> byte_at rec 9;
          Some (record\<lparr>rt_kind := DoorAlarmStatus, rt_alarmStatus := mid rec 0 4,
                       rt_dssStatus := mid rec 4 4, rt_verified := verified\<rparr>) }
        else do {
          cardNo \<leftarrow> readLittleEndian32 rec 0;
          pin \<leftarrow> readLittleEndian32 rec 4;
          verified \<leftarrow> byte_at rec 8;
          doorId \<leftarrow> byte_at rec 9;
          inOutState \<leftarrow> byte_at rec 11;
          Some (record\<lparr>rt_kind := Event, rt_cardNo := cardNo, rt_pin := pin,
                       rt_verified := verified, rt_doorId := doorId,
                       rt_inOutState := inOutState\<rparr>) });
     timeSecond \<leftarrow> readLittleEndian32 rec 12;
     Some (record\<lparr>rt_timeSecond := timeSecond\<rparr>) }"

function decodeRtLogRecords :: "bytes \<Rightarrow> nat \<Rightarrow> RtLogRecord list option" where
  "decodeRtLogRecords payload offset =
     (if offset < length payload then do {
        record \<leftarrow> decodeRtLogRecord (mid payload offset 16);
        more \<leftarrow> decodeRtLogRecords payload (offset + 16);
        Some (record # more) }
      else Some [])"
  by pat_completeness auto
termination
  by (relation "measure (\<lambda>(payload, offset). length payload - offset)") auto

declare decodeRtLogRecords.simps [simp del]

definition decodeRtlogBinaryResponse :: "bytes \<Rightarrow> bool \<Rightarrow> RtLogBinaryResponse option" where
  "decodeRtlogBinaryResponse d includeSessionBlock = do {
     frame \<leftarrow> decodeFrameGeneric d includeSessionBlock;
     case df_status frame of
       C3Incomplete \<Rightarrow> Some \<lparr>rb_status = RtIncomplete, rb_records = []\<rparr>
     | C3Malformed \<Rightarrow> Some \<lparr>rb_status = RtMalformed, rb_records = []\<rparr>
     | C3Rejected \<Rightarrow> Some \<lparr>rb_status = RtRejected, rb_records = []\<rparr>
     | C3Ok \<Rightarrow>
         if length (df_payload frame) mod 16 \<noteq> 0
         then Some \<lparr>rb_status = RtNotBinaryMode, rb_records = []\<rparr>
         else do {
           rs \<leftarrow> decodeRtLogRecords (df_payload frame) 0;
           Some \<lparr>rb_status = RtOk, rb_records = rs\<rparr> } }"

text \<open>Inserting the pairs into a map one after the other.\<close>

definition insertPairs :: "(string \<times> string) list \<Rightarrow> QVariantMap" where
  "insertPairs pairs = foldl (\<lambda>m (k, v). m(k \<mapsto> VString v)) Map.empty pairs"

record RtLogKeyValueResponse =
  rk_status :: C3Status
  rk_records :: "QVariantMap list"

definition decodeRtlogKeyValueResponse :: "bytes \<Rightarrow> bool \<Rightarrow> RtLogKeyValueResponse option" where
  "decodeRtlogKeyValueResponse d includeSessionBlock = do {
     frame \<leftarrow> decodeFrameGeneric d includeSessionBlock;
     if df_status frame \<noteq> C3Ok then Some \<lparr>rk_status = df_status frame, rk_records = []\<rparr>
     else if df_payload frame \<noteq> [] \<and> parseKeyValuePairs (df_payload frame) \<noteq> []
     then Some \<lparr>rk_status = C3Ok, rk_records = [insertPairs (parseKeyValuePairs (df_payload frame))]\<rparr>
     else Some \<lparr>rk_status = C3Ok, rk_records = []\<rparr> }"

section \<open>Control and parameters\<close>

datatype ControlOperation = Output | CancelAlarm | RestartDevice | EnableDisableNormalOpen

fun controlOperationValue :: "ControlOperation \<Rightarrow> u8" where
  "controlOperationValue Output = 1"
| "controlOperationValue CancelAlarm = 2"
| "controlOperationValue RestartDevice = 3"
| "controlOperationValue EnableDisableNormalOpen = 4"

datatype ControlOutputAddress = Door | Aux

fun controlOutputAddressValue :: "ControlOutputAddress \<Rightarrow> u8" where
  "controlOutputAddressValue Door = 1"
| "controlOutputAddressValue Aux = 2"

definition encodeControlRequest ::
  "ControlOperation \<Rightarrow> u8 \<Rightarrow> u8 \<Rightarrow> u8 \<Rightarrow> bool \<Rightarrow> u16 \<Rightarrow> 32 word \<Rightarrow> bytes" where
  "encodeControlRequest operation param1 param2 param3 includeSessionBlock sessionId requestNr =
     encodeFrame kCommandControl sessionId requestNr
       [controlOperationValue operation, param1, param2, param3, 0] includeSessionBlock"

fun join_comma :: "string list \<Rightarrow> string" where
  "join_comma [] = []"
| "join_comma [s] = s"
| "join_comma (s # t # ss) = s @ CHR '','' # join_comma (t # ss)"

definition encodeGetParamRequest :: "string list \<Rightarrow> bool \<Rightarrow> u16 \<Rightarrow> 32 word \<Rightarrow> bytes" where
  "encodeGetParamRequest parameterNames includeSessionBlock sessionId requestNr =
     encodeFrame kCommandGetParam sessionId requestNr (toLatin1 (join_comma parameterNames))
       includeSessionBlock"

record GetParamResponse =
  gp_status :: C3Status
  gp_values :: QVariantMap

definition decodeGetParamResponse :: "bytes \<Rightarrow> bool \<Rightarrow> GetParamResponse option" where
  "decodeGetParamResponse d includeSessionBlock = do {
     frame \<leftarrow> decodeFrameGeneric d includeSessionBlock;
     if df_status frame \<noteq> C3Ok then Some \<lparr>gp_status = df_status frame, gp_values = Map.empty\<rparr>
     else if df_payload frame \<noteq> []
     then Some \<lparr>gp_status = C3Ok, gp_values = insertPairs (parseKeyValuePairs (df_payload frame))\<rparr>
     else Some \<lparr>gp_status = C3Ok, gp_values = Map.empty\<rparr> }"

text \<open>
  The values of a SETPARAM request are given as the entries of the map in its iteration order
  (ascending keys), with the values already converted to strings.
\<close>

definition encodeSetParamRequest ::
  "(string \<times> string) list \<Rightarrow> bool \<Rightarrow> u16 \<Rightarrow> 32 word \<Rightarrow> bytes" where
  "encodeSetParamRequest entries includeSessionBlock sessionId requestNr =
     encodeFrame kCommandGetParam sessionId requestNr
       (toLatin1 (join_comma (map (\<lambda>(k, v). k @ CHR ''='' # v) entries))) includeSessionBlock"

section \<open>Lemmas: the checksum\<close>

text \<open>
  One step of the bit loop is injective - the top bit of the result tells which branch was taken -
  so a whole byte step is injective in the register, and, at a fixed register, in the byte.
\<close>

lemma and_1_bit: "((x :: u16) AND 1 \<noteq> 0) = bit x 0"
  using and_exp_eq_0_iff_not_bit [of x 0] by simp

lemma crc16_bit_alt: "crc16_bit c = (if bit c 0 then drop_bit 1 c XOR 0xA001 else drop_bit 1 c)"
  unfolding crc16_bit_def and_1_bit ..

lemma crc16_bit_top: "bit (crc16_bit c) 15 \<longleftrightarrow> bit c 0"
proof -
  have a: "bit (0xA001 :: u16) 15" by simp
  have b: "\<not> bit (drop_bit 1 c) 15" using bit_imp_le_length [of c 16] by (auto simp: bit_simps)
  show ?thesis
    unfolding crc16_bit_alt using a b by (cases "bit c 0") (simp_all only: if_True if_False bit_xor_iff simp_thms)
qed

lemma drop_bit_1_inj: "drop_bit 1 (c :: u16) = drop_bit 1 d \<Longrightarrow> bit c 0 = bit d 0 \<Longrightarrow> c = d"
proof (rule bit_word_eqI)
  fix n
  assume d: "drop_bit 1 c = drop_bit 1 d" and z: "bit c 0 = bit d 0"
  show "bit c n = bit d n"
  proof (cases n)
    case 0
    then show ?thesis using z by simp
  next
    case (Suc m)
    have "bit (drop_bit 1 c) m = bit (drop_bit 1 d) m" by (simp only: d)
    then show ?thesis by (simp only: bit_drop_bit_eq comp_def Suc plus_1_eq_Suc)
  qed
qed

lemma crc16_bit_inj: "crc16_bit c = crc16_bit d \<Longrightarrow> c = d"
proof -
  assume e: "crc16_bit c = crc16_bit d"
  then have z: "bit c 0 = bit d 0" using crc16_bit_top by metis
  have "drop_bit 1 c = drop_bit 1 d"
  proof (cases "bit c 0")
    case True
    then have "drop_bit 1 c XOR 0xA001 = drop_bit 1 d XOR 0xA001"
      using e z unfolding crc16_bit_alt by (simp only: if_True)
    then have "(drop_bit 1 c XOR 0xA001) XOR 0xA001 = (drop_bit 1 d XOR 0xA001) XOR 0xA001"
      by (rule arg_cong)
    then show ?thesis by (simp only: xor.assoc xor_self_eq xor.right_neutral)
  next
    case False
    then show ?thesis using e z unfolding crc16_bit_alt by (simp only: if_False)
  qed
  with z show ?thesis by (rule drop_bit_1_inj [rotated])
qed

lemma crc16_bits_inj: "crc16_bits n c = crc16_bits n d \<Longrightarrow> c = d"
  by (induction n arbitrary: c d) (auto dest: crc16_bit_inj)

lemma xor_left_inj: "(a XOR b = a XOR c) = (b = (c :: 'a :: len word))"
  by (metis xor.assoc xor_self_eq xor.left_neutral)

lemma crc16_byte_inj: "crc16_byte c b = crc16_byte d b \<Longrightarrow> c = d"
  unfolding crc16_byte_def using crc16_bits_inj xor_left_inj xor.commute by metis

lemma ucast_byte_inj: "(ucast (a :: u8) = (ucast b :: u16)) = (a = b)"
  by (metis split_join16(2) ucast_id unat_ucast_byte(1) unsigned_word_eqI)

lemma crc16_byte_byte_inj: "crc16_byte c a = crc16_byte c b \<Longrightarrow> a = b"
  unfolding crc16_byte_def using crc16_bits_inj xor_left_inj ucast_byte_inj by metis

lemma crc16_fold_inj: "foldl crc16_byte c ds = foldl crc16_byte d ds \<Longrightarrow> c = d"
  by (induction ds arbitrary: c d) (auto dest: crc16_byte_inj)

text \<open>The register is linear over exclusive or.\<close>

lemma crc16_bit_xor: "crc16_bit (c XOR d) = crc16_bit c XOR crc16_bit d"
  unfolding crc16_bit_alt bit_xor_iff drop_bit_xor
  by (cases "bit c 0"; cases "bit d 0")
     (simp_all only: simp_thms if_True if_False xor.assoc xor.left_commute xor.commute xor_self_eq
        xor.left_neutral xor.right_neutral not_True_eq_False not_False_eq_True)

lemma crc16_bits_xor: "crc16_bits n (c XOR d) = crc16_bits n c XOR crc16_bits n d"
  by (induction n arbitrary: c d) (simp_all add: crc16_bit_xor)

text \<open>
  Two adjacent bytes: if the register agrees after both, the difference of the first pair is pushed
  through eight steps to a value below 256, which only zero is.
\<close>

lemma bit_nat_le: "bit (m :: nat) n \<Longrightarrow> 2 ^ n \<le> m"
  by (metis bit_iff_odd div_less even_zero linorder_not_less)

lemma xor_shuffle: "(c XOR a) XOR (c XOR b) = a XOR (b :: u16)"
  by (auto simp: bit_eq_iff bit_simps)

lemma xor_transpose: "x XOR a = y XOR (b :: u16) \<Longrightarrow> x XOR y = a XOR b"
  by (auto simp: bit_eq_iff bit_simps)

lemma crc16_bit_small:
  assumes "unat (crc16_bit c) < 2 ^ k" and "k \<le> 15"
  shows "unat c = 2 * unat (crc16_bit c)"
proof -
  have "\<not> bit (crc16_bit c) 15"
  proof
    assume "bit (crc16_bit c) 15"
    then have "2 ^ 15 \<le> unat (crc16_bit c)"
      by (intro bit_nat_le) (simp add: bit_unsigned_iff)
    moreover have "(2 :: nat) ^ k \<le> 2 ^ 15" using assms(2) by (rule power_increasing) simp
    ultimately show False using assms(1) by linarith
  qed
  then have z: "\<not> bit c 0" unfolding crc16_bit_top .
  then have "crc16_bit c = drop_bit 1 c" by (simp only: crc16_bit_alt if_False)
  moreover have "\<not> bit (unat c) 0" using z by (simp only: bit_unsigned_iff simp_thms)
  then have "even (unat c)" by (simp only: bit_0 not_not)
  moreover have "unat (drop_bit 1 c) = unat c div 2"
    unfolding unat_drop_bit_eq by (simp only: drop_bit_eq_div power_one_right)
  ultimately show ?thesis by simp
qed

lemma crc16_bits_small:
  "unat (crc16_bits n c) < 2 ^ k \<Longrightarrow> n + k \<le> 16 \<Longrightarrow> unat c = 2 ^ n * unat (crc16_bits n c)"
proof (induction n arbitrary: c)
  case (Suc n)
  have u: "unat (crc16_bit c) = 2 ^ n * unat (crc16_bits n (crc16_bit c))"
    using Suc.IH [of "crc16_bit c"] Suc.prems by simp
  also have "\<dots> < 2 ^ n * 2 ^ k" using Suc.prems(1) by simp
  finally have "unat (crc16_bit c) < 2 ^ (n + k)" by (simp add: power_add)
  then have "unat c = 2 * unat (crc16_bit c)" by (rule crc16_bit_small) (use Suc.prems in simp)
  then show ?case using u by simp
qed simp

lemma crc16_low_byte:
  assumes "crc16_bits 8 (ucast (d :: u8)) = ucast (e :: u8)"
  shows "d = 0"
proof -
  have "unat (ucast d :: u16) = 2 ^ 8 * unat (crc16_bits 8 (ucast d))"
    by (rule crc16_bits_small [where k = 8]) (use assms unat_byte_less [of e] in simp_all)
  then have "unat d = 256 * unat e" using assms by simp
  then have "unat d = 0" using unat_byte_less [of d] by (cases "unat e") auto
  then show ?thesis by (simp add: unat_eq_zero)
qed

lemma crc16_two_bytes_inj:
  assumes "crc16_byte (crc16_byte c a1) b1 = crc16_byte (crc16_byte c a2) b2"
  shows "a1 = a2 \<and> b1 = b2"
proof -
  let ?T = "crc16_bits 8"
  have ux: "ucast (x XOR y) = (ucast x XOR ucast y :: u16)" for x y :: u8
    by (rule bit_word_eqI) (auto simp: bit_simps)
  have "crc16_byte c a1 XOR ucast b1 = crc16_byte c a2 XOR ucast b2"
    using assms crc16_bits_inj by (simp add: crc16_byte_def [of "crc16_byte c _"])
  then have "crc16_byte c a1 XOR crc16_byte c a2 = ucast b1 XOR (ucast b2 :: u16)"
    by (rule xor_transpose)
  moreover have "crc16_byte c a1 XOR crc16_byte c a2 = ?T (ucast (a1 XOR a2))"
    unfolding crc16_byte_def crc16_bits_xor [symmetric] ux xor_shuffle ..
  ultimately have "?T (ucast (a1 XOR a2)) = ucast (b1 XOR b2)" by (simp only: ux)
  then have "a1 XOR a2 = 0" by (rule crc16_low_byte)
  then have "a1 = a2" by (auto simp: bit_eq_iff bit_simps)
  then show ?thesis using assms crc16_byte_byte_inj by blast
qed

section \<open>Lemmas: frames\<close>

definition le16 :: "u16 \<Rightarrow> bytes" where
  "le16 v = [ucast v, ucast (drop_bit 8 v)]"

text \<open>The frame of the wire format around a content, with any version byte.\<close>

definition c3_body :: "u8 \<Rightarrow> u8 \<Rightarrow> bytes \<Rightarrow> bytes" where
  "c3_body version command content = [version, command] @ le16 (of_nat (length content)) @ content"

definition c3_wire :: "u8 \<Rightarrow> u8 \<Rightarrow> bytes \<Rightarrow> bytes" where
  "c3_wire version command content =
     [kFrameStart] @ c3_body version command content
       @ le16 (crc16 (c3_body version command content)) @ [kFrameEnd]"

definition sessionBlock :: "bool \<Rightarrow> u16 \<Rightarrow> 32 word \<Rightarrow> bytes" where
  "sessionBlock include sessionId requestNr =
     (if include then le16 sessionId @ le16 (ucast requestNr) else [])"

lemma length_le16 [simp]: "length (le16 v) = 2"
  by (simp add: le16_def)

lemma length_sessionBlock [simp]: "length (sessionBlock i s r) = (if i then 4 else 0)"
  by (simp add: sessionBlock_def)

lemma appendLittleEndian16_le16: "appendLittleEndian16 d v = d @ le16 v"
  by (simp add: appendLittleEndian16_def appendByte_def le16_def)

lemma encodeFrame_wire:
  "encodeFrame command sessionId requestNr payload include =
     c3_wire kProtocolVersion command (sessionBlock include sessionId requestNr @ payload)"
  by (simp add: encodeFrame_def c3_wire_def c3_body_def sessionBlock_def appendLittleEndian16_le16
      appendByte_def Let_def)

lemma readLittleEndian16_Some [byte_reads]:
  "i + 1 < length d \<Longrightarrow>
   readLittleEndian16 d i = Some (ucast (d ! i) OR push_bit 8 (ucast (d ! (i + 1))))"
  by (simp add: readLittleEndian16_def byte_reads)

lemma readLittleEndian32_Some [byte_reads]:
  "i + 3 < length d \<Longrightarrow> \<exists>v. readLittleEndian32 d i = Some v"
  by (simp add: readLittleEndian32_def byte_reads)

lemma readLittleEndian16_append:
  "i + 1 < length d \<Longrightarrow> readLittleEndian16 (d @ e) i = readLittleEndian16 d i"
  by (simp add: readLittleEndian16_def byte_at_append)

lemma readLittleEndian16_at: "readLittleEndian16 (a @ le16 v @ e) (length a) = Some v"
  by (simp only: readLittleEndian16_def byte_at_def le16_def) (simp add: nth_append)

text \<open>What the three decoders do with the header, in one place.\<close>

definition c3_scan :: "bytes \<Rightarrow> (bool \<times> u8 \<times> nat) option option" where
  "c3_scan d =
     (if length d < 5 then Some None
      else do {
        len \<leftarrow> readLittleEndian16 d 3;
        if length d < 5 + unat len + 2 + 1 then Some None
        else do {
          expectedCrc \<leftarrow> readLittleEndian16 d (5 + unat len);
          command \<leftarrow> byte_at d 2;
          start \<leftarrow> byte_at d 0;
          final \<leftarrow> byte_at d (5 + unat len + 2 + 1 - 1);
          Some (Some (start = kFrameStart \<and> final = kFrameEnd
                      \<and> crc16 (mid d 1 (4 + unat len)) = expectedCrc, command, unat len)) } })"

lemma c3_scan_total: "\<exists>r. c3_scan d = Some r"
  by (cases "d = []") (simp_all add: c3_scan_def byte_reads)

lemma c3_scan_stable: "c3_scan d = Some (Some r) \<Longrightarrow> c3_scan (d @ e) = Some (Some r)"
  by (cases "d = []") (auto simp: c3_scan_def readLittleEndian16_append byte_at_append mid_append
      split: if_splits bind_splits)

lemma unat_u16_less: "unat (v :: u16) < 65536"
  using unsigned_less [of v] by simp

lemma c3_scan_bounds:
  "c3_scan d = Some (Some (ok, cmd, n)) \<Longrightarrow> 5 + n + 3 \<le> length d \<and> n < 65536"
  by (auto simp: c3_scan_def unat_u16_less split: if_splits bind_splits)

definition strip_session :: "bool \<Rightarrow> bytes \<Rightarrow> bytes" where
  "strip_session strip content = (if strip \<and> length content \<ge> 4 then drop 4 content else content)"

lemma decodeFrameGeneric_scan:
  "decodeFrameGeneric d strip = do {
     r \<leftarrow> c3_scan d;
     case r of
       None \<Rightarrow> Some \<lparr>df_status = C3Incomplete, df_payload = [], df_command = 0\<rparr>
     | Some (ok, command, n) \<Rightarrow>
         if \<not> ok then Some \<lparr>df_status = C3Malformed, df_payload = [], df_command = 0\<rparr>
         else if command = kReplyError
         then Some \<lparr>df_status = C3Rejected, df_payload = [], df_command = 0\<rparr>
         else Some \<lparr>df_status = C3Ok, df_payload = strip_session strip (mid d 5 n),
                    df_command = command\<rparr> }"
  by (auto simp: decodeFrameGeneric_def strip_session_def c3_scan_def Let_def bind_eq_None_conv
      split: bind_splits if_splits)

lemma decodeGenericReply_scan:
  "decodeGenericReply d = do {
     r \<leftarrow> c3_scan d;
     case r of
       None \<Rightarrow> Some \<lparr>gr_status = C3Incomplete\<rparr>
     | Some (ok, command, n) \<Rightarrow>
         Some \<lparr>gr_status = (if \<not> ok \<or> command \<noteq> kReplyOk \<and> command \<noteq> kReplyError then C3Malformed
                            else if command = kReplyError then C3Rejected else C3Ok)\<rparr> }"
  by (auto simp: decodeGenericReply_def c3_scan_def Let_def bind_eq_None_conv
      split: bind_splits if_splits)

lemma decodeConnectSession_scan:
  "decodeConnectSessionResponse d = do {
     r \<leftarrow> c3_scan d;
     case r of
       None \<Rightarrow> Some \<lparr>csr_status = C3Incomplete, csr_sessionId = 0\<rparr>
     | Some (ok, command, n) \<Rightarrow>
         if \<not> ok \<or> command \<noteq> kReplyOk \<and> command \<noteq> kReplyError
         then Some \<lparr>csr_status = C3Malformed, csr_sessionId = 0\<rparr>
         else if command = kReplyError then Some \<lparr>csr_status = C3Rejected, csr_sessionId = 0\<rparr>
         else do {
           sid \<leftarrow> readLittleEndian16 d 5;
           Some \<lparr>csr_status = C3Ok, csr_sessionId = sid\<rparr> } }"
  by (auto simp: decodeConnectSessionResponse_def c3_scan_def Let_def bind_eq_None_conv
      split: bind_splits if_splits)

text \<open>The header of any array of the frame's shape.\<close>

lemma c3_scan_frame:
  assumes len: "length body = 4 + n" and lb: "mid body 2 2 = le16 (of_nat n)" and n: "n < 65536"
  shows "c3_scan ([s] @ body @ le16 c @ [f] @ rest)
       = Some (Some (s = kFrameStart \<and> f = kFrameEnd \<and> crc16 body = c, body ! 1, n))"
proof -
  define d where "d = [s] @ body @ le16 c @ [f] @ rest"
  obtain v cmd l0 l1 cont where b: "body = v # cmd # l0 # l1 # cont"
    using len by (auto simp: length_Suc_conv numeral_eq_Suc)
  have l: "[l0, l1] = le16 (of_nat n)" using lb by (simp add: b mid_def)
  have cont: "length cont = n" using len by (simp add: b)
  have "d = [s, v, cmd] @ le16 (of_nat n) @ cont @ le16 c @ [f] @ rest"
    by (simp add: d_def b flip: l)
  then have r3: "readLittleEndian16 d 3 = Some (of_nat n)"
    using readLittleEndian16_at [of "[s, v, cmd]" "of_nat n" "cont @ le16 c @ [f] @ rest"]
    by (simp add: numeral_3_eq_3)
  have rc: "readLittleEndian16 d (5 + n) = Some c"
    using readLittleEndian16_at [of "[s] @ body" c "[f] @ rest"] by (simp add: d_def len)
  have r: "byte_at d (7 + n) = Some f" "byte_at d 2 = Some cmd" "byte_at d 0 = Some s"
    by (simp_all add: d_def byte_at_def nth_append len b cont)
  have m: "mid d 1 (4 + n) = body" "length d = 8 + n + length rest"
    by (simp_all add: d_def mid_def len)
  have u: "unat (of_nat n :: u16) = n" using n by (rule unat_of_nat_u16)
  have "c3_scan d = Some (Some (s = kFrameStart \<and> f = kFrameEnd \<and> crc16 body = c, cmd, n))"
    unfolding c3_scan_def r3 using rc r m by (simp add: u)
  then show ?thesis by (simp add: d_def b)
qed

lemma c3_scan_wire:
  assumes "length content < 65536"
  shows "c3_scan (c3_wire v cmd content @ rest) = Some (Some (True, cmd, length content))"
  using c3_scan_frame [of "c3_body v cmd content" "length content" kFrameStart
      "crc16 (c3_body v cmd content)" kFrameEnd rest] assms
  by (simp add: c3_wire_def c3_body_def mid_def)


lemma mid_wire: "mid (c3_wire v cmd content @ rest) 5 (length content) = content"
  by (simp add: c3_wire_def c3_body_def mid_def le16_def)

lemma decodeFrameGeneric_wire:
  assumes "length content < 65536" and "cmd \<noteq> kReplyError"
  shows "decodeFrameGeneric (c3_wire v cmd content @ rest) strip
       = Some \<lparr>df_status = C3Ok, df_payload = strip_session strip content, df_command = cmd\<rparr>"
  using assms
  by (simp add: decodeFrameGeneric_scan c3_scan_wire mid_wire)


section \<open>Lemmas: stream decoders\<close>

text \<open>
  A decoder that only looks at the decoded frame is a stream decoder when it is total and answers
  Incomplete exactly on incomplete frames.
\<close>

lemma decodeFrameGeneric_total: "\<exists>r. decodeFrameGeneric d strip = Some r"
  using c3_scan_total [of d]
  by (auto simp: decodeFrameGeneric_scan split: option.splits prod.splits)

lemma decodeFrameGeneric_stable:
  assumes "decodeFrameGeneric d strip = Some r" and "df_status r \<noteq> C3Incomplete"
  shows "decodeFrameGeneric (d @ e) strip = Some r"
proof -
  obtain ok cmd n where s: "c3_scan d = Some (Some (ok, cmd, n))"
    using assms by (auto simp: decodeFrameGeneric_scan split: bind_splits option.splits prod.splits)
  have "mid (d @ e) 5 n = mid d 5 n"
    using c3_scan_bounds [OF s] by (intro mid_append) simp
  then show ?thesis
    using assms(1)
    by (simp add: decodeFrameGeneric_scan s c3_scan_stable [OF s] split: if_splits)
qed

text \<open>Decoders of the payload never read outside it and always return.\<close>

lemma returnedFields_total:
  "2 + fieldOffset + n \<le> length payload \<Longrightarrow> \<exists>r. returnedFields payload tf fieldOffset n = Some r"
proof (induction n arbitrary: fieldOffset)
  case (Suc n)
  then obtain r where "returnedFields payload tf (fieldOffset + 1) n = Some r" by force
  then show ?case using Suc.prems by (simp add: byte_reads split: option.splits)
qed simp

lemma returnedFields_length:
  "returnedFields payload tf fieldOffset n = Some (Some fs) \<Longrightarrow> length fs = n"
  by (induction n arbitrary: fieldOffset fs)
    (auto split: bind_splits option.splits)

lemma readValue_total:
  "offset + byteIndex + n \<le> length payload \<Longrightarrow> \<exists>v'. readValue payload offset byteIndex n v = Some v'"
  by (induction n arbitrary: byteIndex v) (simp_all add: byte_reads)

lemma parseRecord_total: "\<exists>r. parseRecord flds payload offset rec = Some r"
proof (induction flds arbitrary: offset rec)
  case (Cons fld flds)
  show ?case
  proof (cases "offset < length payload")
    case True
    let ?n = "unat (payload ! offset)"
    show ?thesis
    proof (cases "?n > length payload - (offset + 1)")
      case False
      then have "Suc offset + 0 + ?n \<le> length payload" using True by linarith
      then obtain v where "readValue payload (Suc offset) 0 ?n 0 = Some v"
        using readValue_total by blast
      then show ?thesis using True False Cons.IH by (simp add: byte_reads Let_def)
    qed (use True in \<open>simp add: byte_reads Let_def\<close>)
  qed simp
qed simp

lemma parseRecord_offset:
  "parseRecord flds payload offset rec = Some (Some (rec', offset')) \<Longrightarrow> offset + length flds \<le> offset'"
proof (induction flds arbitrary: offset rec)
  case (Cons fld flds)
  then show ?case by (fastforce simp: Let_def split: if_splits bind_splits)
qed simp

lemma parseRecords_total:
  "flds \<noteq> [] \<or> length payload \<le> offset \<Longrightarrow> \<exists>r. parseRecords flds payload offset recs = Some r"
proof (induction "length payload - offset" arbitrary: offset recs rule: less_induct)
  case less
  obtain r where r: "parseRecord flds payload offset Map.empty = Some r"
    using parseRecord_total by blast
  show ?case
  proof (cases "offset < length payload")
    case True
    show ?thesis
    proof (cases r)
      case None
      then show ?thesis using r True by (simp add: parseRecords.simps [of flds payload offset])
    next
      case (Some p)
      then obtain rec' offset' where p: "r = Some (rec', offset')" by (cases p) auto
      have "offset < offset'"
        using parseRecord_offset [of flds payload offset Map.empty rec' offset'] r p True less.prems
        by (cases flds) auto
      then have "\<exists>r. parseRecords flds payload offset' (recs @ [rec']) = Some r"
        using True less.prems by (intro less.hyps) auto
      then show ?thesis using r p True by (simp add: parseRecords.simps [of flds payload offset])
    qed
  qed (simp add: parseRecords.simps [of flds payload offset])
qed

lemma parseGetDataPayload_total: "\<exists>r. parseGetDataPayload payload t tf = Some r"
proof (cases "length payload < 2")
  case False
  show ?thesis
  proof (cases "length payload < 2 + unat (payload ! 1)")
    case True
    then show ?thesis using False by (cases "payload = []") (simp_all add: parseGetDataPayload_def byte_reads)
  next
    case long: False
    obtain r where r: "returnedFields payload tf 0 (unat (payload ! 1)) = Some r"
      using returnedFields_total [of 0 "unat (payload ! 1)" payload tf] long by auto
    have ne: "payload \<noteq> []" using False by auto
    show ?thesis
    proof (cases r)
      case None
      then show ?thesis using False long r ne by (simp add: parseGetDataPayload_def byte_reads)
    next
      case (Some fs)
      define p where "p = 2 + unat (payload ! 1)"
      show ?thesis
      proof (cases "fs = [] \<and> p \<noteq> length payload")
        case True
        then show ?thesis
          using False long r ne Some by (simp add: parseGetDataPayload_def byte_reads p_def Let_def)
      next
        case ok: False
        then obtain rs where "parseRecords fs payload p [] = Some rs"
          using parseRecords_total [of fs payload p "[]"] by auto
        then show ?thesis
          using False long r ne Some ok unfolding p_def
          by (cases rs) (auto simp: parseGetDataPayload_def byte_reads Let_def)
      qed
    qed
  qed
qed (simp add: parseGetDataPayload_def)

lemma decodeRtLogRecord_total: "length rec = 16 \<Longrightarrow> \<exists>r. decodeRtLogRecord rec = Some r"
  by (simp add: decodeRtLogRecord_def readLittleEndian32_def byte_reads Let_def)

lemma decodeRtLogRecords_total:
  "length payload mod 16 = 0 \<Longrightarrow> offset mod 16 = 0
   \<Longrightarrow> \<exists>rs. decodeRtLogRecords payload offset = Some rs
          \<and> length rs = (length payload - offset) div 16"
proof (induction "length payload - offset" arbitrary: offset rule: less_induct)
  case less
  show ?case
  proof (cases "offset < length payload")
    case True
    have "16 \<le> length payload - offset" using less.prems True
      by (metis dvd_diff_nat dvd_imp_le mod_0_imp_dvd zero_less_diff)
    moreover obtain rs where "decodeRtLogRecords payload (offset + 16) = Some rs"
        "length rs = (length payload - (offset + 16)) div 16"
      using less.hyps [of "offset + 16"] less.prems True diff_less_mono2 [of offset "offset + 16"]
      by fastforce
    moreover obtain r where "decodeRtLogRecord (mid payload offset 16) = Some r"
      using decodeRtLogRecord_total calculation(1) by fastforce
    ultimately show ?thesis
      using True by (simp add: decodeRtLogRecords.simps [of payload offset] le_div_geq)
  qed (simp add: decodeRtLogRecords.simps [of payload offset])
qed

locale c3_decoder =
  fixes dec :: "bytes \<Rightarrow> 'r option"
    and strip :: bool
    and post :: "DecodedFrame \<Rightarrow> 'r option"
    and incomplete :: "'r \<Rightarrow> bool"
  assumes dec_post: "dec d = decodeFrameGeneric d strip \<bind> post"
    and post_total: "\<exists>r. post f = Some r"
    and post_incomplete: "post f = Some r \<Longrightarrow> df_status f = C3Incomplete \<Longrightarrow> incomplete r"
begin

lemma c3_dec_total: "\<exists>r. dec d = Some r"
  using decodeFrameGeneric_total [of d strip] post_total by (auto simp: dec_post)

lemma c3_dec_stable:
  assumes "dec d = Some r" and "\<not> incomplete r"
  shows "dec (d @ e) = Some r"
proof -
  obtain f where f: "decodeFrameGeneric d strip = Some f" "post f = Some r"
    using assms(1) by (auto simp: dec_post Option.bind_eq_Some_conv)
  moreover have "df_status f \<noteq> C3Incomplete" using f(2) assms(2) post_incomplete by blast
  ultimately show ?thesis using decodeFrameGeneric_stable by (simp add: dec_post)
qed

lemma c3_dec_wire:
  assumes "length content < 65536" and "cmd \<noteq> kReplyError"
  shows "dec (c3_wire v cmd content @ rest)
       = post \<lparr>df_status = C3Ok, df_payload = strip_session strip content, df_command = cmd\<rparr>"
  by (simp add: dec_post decodeFrameGeneric_wire [OF assms])

end

sublocale c3_decoder \<subseteq> stream_decoder dec incomplete
  by unfold_locales (rule c3_dec_total, rule c3_dec_stable)

definition tableConfigOfFrame :: "(string \<Rightarrow> int) \<Rightarrow> DecodedFrame \<Rightarrow> DataTableConfigResponse option" where
  "tableConfigOfFrame toInt f =
     (if df_status f \<noteq> C3Ok then Some \<lparr>dtc_status = df_status f, dtc_tables = []\<rparr>
      else Some \<lparr>dtc_status = C3Ok, dtc_tables = parseTables toInt (split_bytes 10 (df_payload f))\<rparr>)"

interpretation dtc: c3_decoder "\<lambda>d. decodeDataTableConfigResponse toInt d strip" strip
  "tableConfigOfFrame toInt" "\<lambda>r. dtc_status r = C3Incomplete" for toInt strip
  by unfold_locales
    (auto simp: decodeDataTableConfigResponse_def tableConfigOfFrame_def cong: Option.bind_cong)

definition dataOfFrame :: "int \<Rightarrow> DataTableField list \<Rightarrow> DecodedFrame \<Rightarrow> GetDataResponse option" where
  "dataOfFrame t tf frame =
     (case df_status frame of
       C3Incomplete \<Rightarrow> Some (gd_fail GdIncomplete)
     | C3Malformed \<Rightarrow> Some (gd_fail GdMalformed)
     | C3Rejected \<Rightarrow> Some (gd_fail GdRejected)
     | C3Ok \<Rightarrow>
         if df_command frame = kCommandPrepareData then
           (let p = df_payload frame
            in if length p \<noteq> 17 then Some (gd_fail GdMalformed)
               else do {
                 c \<leftarrow> byte_at p 0;
                 dataLength \<leftarrow> readLittleEndian32 p 1;
                 originalLength \<leftarrow> readLittleEndian32 p 5;
                 checksum \<leftarrow> readLittleEndian32 p 9;
                 packageLength \<leftarrow> readLittleEndian32 p 13;
                 Some \<lparr>gd_status = GdBigDataPending, gd_records = [],
                       gd_prepareInfo = \<lparr>pd_compressed = (c \<noteq> 0), pd_dataLength = dataLength,
                         pd_originalLength = originalLength, pd_checksum = checksum,
                         pd_packageLength = packageLength\<rparr>\<rparr> })
         else parseGetDataPayload (df_payload frame) t tf)"

lemma dataOfFrame_total: "\<exists>r. dataOfFrame t tf f = Some r"
proof (cases "df_status f")
  case C3Ok
  then show ?thesis
    using parseGetDataPayload_total
    by (cases "df_payload f = []")
       (auto simp: dataOfFrame_def readLittleEndian32_def byte_reads Let_def)
qed (simp_all add: dataOfFrame_def)

interpretation gd: c3_decoder "\<lambda>d. decodeGetDataResponse d t tf strip" strip
  "dataOfFrame t tf" "\<lambda>r. gd_status r = GdIncomplete" for t tf strip
proof
  fix d f r
  show "decodeGetDataResponse d t tf strip = decodeFrameGeneric d strip \<bind> dataOfFrame t tf"
    by (simp add: decodeGetDataResponse_def dataOfFrame_def cong: Option.bind_cong)
  show "\<exists>r. dataOfFrame t tf f = Some r" by (rule dataOfFrame_total)
  show "dataOfFrame t tf f = Some r \<Longrightarrow> df_status f = C3Incomplete \<Longrightarrow> gd_status r = GdIncomplete"
    by (auto simp: dataOfFrame_def gd_fail_def)
qed

definition transmitOfFrame :: "DecodedFrame \<Rightarrow> TransmitDataResponse option" where
  "transmitOfFrame frame =
     (if df_status frame \<noteq> C3Ok
      then Some \<lparr>td_status = df_status frame, td_offset = 0, td_chunkData = []\<rparr>
      else if length (df_payload frame) < 4
      then Some \<lparr>td_status = C3Malformed, td_offset = 0, td_chunkData = []\<rparr>
      else do {
        offset \<leftarrow> readLittleEndian32 (df_payload frame) 0;
        Some \<lparr>td_status = C3Ok, td_offset = offset, td_chunkData = drop 4 (df_payload frame)\<rparr> })"

interpretation td: c3_decoder "\<lambda>d. decodeTransmitDataResponse d strip" strip
  transmitOfFrame "\<lambda>r. td_status r = C3Incomplete" for strip
proof
  fix d f r
  show "decodeTransmitDataResponse d strip = decodeFrameGeneric d strip \<bind> transmitOfFrame"
    by (simp add: decodeTransmitDataResponse_def transmitOfFrame_def cong: Option.bind_cong)
  show "\<exists>r. transmitOfFrame f = Some r"
    by (cases "df_payload f = []") (auto simp: transmitOfFrame_def readLittleEndian32_def byte_reads)
  show "transmitOfFrame f = Some r \<Longrightarrow> df_status f = C3Incomplete \<Longrightarrow> td_status r = C3Incomplete"
    by (auto simp: transmitOfFrame_def)
qed

definition countOfFrame :: "DecodedFrame \<Rightarrow> GetDataCountResponse option" where
  "countOfFrame frame =
     (if df_status frame = C3Ok \<and> length (df_payload frame) \<noteq> 4
      then Some \<lparr>gc_status = C3Malformed, gc_count = 0\<rparr>
      else if df_status frame \<noteq> C3Ok then Some \<lparr>gc_status = df_status frame, gc_count = 0\<rparr>
      else do {
        n \<leftarrow> readLittleEndian32 (df_payload frame) 0;
        Some \<lparr>gc_status = C3Ok, gc_count = n\<rparr> })"

interpretation gc: c3_decoder "\<lambda>d. decodeGetDataCountResponse d strip" strip
  countOfFrame "\<lambda>r. gc_status r = C3Incomplete" for strip
proof
  fix d f r
  show "decodeGetDataCountResponse d strip = decodeFrameGeneric d strip \<bind> countOfFrame"
    by (simp add: decodeGetDataCountResponse_def countOfFrame_def cong: Option.bind_cong)
  show "\<exists>r. countOfFrame f = Some r"
    by (cases "df_payload f = []") (auto simp: countOfFrame_def readLittleEndian32_def byte_reads)
  show "countOfFrame f = Some r \<Longrightarrow> df_status f = C3Incomplete \<Longrightarrow> gc_status r = C3Incomplete"
    by (auto simp: countOfFrame_def)
qed

definition rtlogOfFrame :: "DecodedFrame \<Rightarrow> RtLogBinaryResponse option" where
  "rtlogOfFrame frame =
     (case df_status frame of
       C3Incomplete \<Rightarrow> Some \<lparr>rb_status = RtIncomplete, rb_records = []\<rparr>
     | C3Malformed \<Rightarrow> Some \<lparr>rb_status = RtMalformed, rb_records = []\<rparr>
     | C3Rejected \<Rightarrow> Some \<lparr>rb_status = RtRejected, rb_records = []\<rparr>
     | C3Ok \<Rightarrow>
         if length (df_payload frame) mod 16 \<noteq> 0
         then Some \<lparr>rb_status = RtNotBinaryMode, rb_records = []\<rparr>
         else do {
           rs \<leftarrow> decodeRtLogRecords (df_payload frame) 0;
           Some \<lparr>rb_status = RtOk, rb_records = rs\<rparr> })"

interpretation rb: c3_decoder "\<lambda>d. decodeRtlogBinaryResponse d strip" strip
  rtlogOfFrame "\<lambda>r. rb_status r = RtIncomplete" for strip
proof
  fix d f r
  show "decodeRtlogBinaryResponse d strip = decodeFrameGeneric d strip \<bind> rtlogOfFrame"
    by (simp add: decodeRtlogBinaryResponse_def rtlogOfFrame_def cong: Option.bind_cong)
  show "\<exists>r. rtlogOfFrame f = Some r"
    using decodeRtLogRecords_total [of "df_payload f" 0]
    by (cases "df_status f") (auto simp: rtlogOfFrame_def)
  show "rtlogOfFrame f = Some r \<Longrightarrow> df_status f = C3Incomplete \<Longrightarrow> rb_status r = RtIncomplete"
    by (auto simp: rtlogOfFrame_def)
qed

definition keyValuesOfFrame :: "DecodedFrame \<Rightarrow> RtLogKeyValueResponse option" where
  "keyValuesOfFrame frame =
     (if df_status frame \<noteq> C3Ok then Some \<lparr>rk_status = df_status frame, rk_records = []\<rparr>
      else if df_payload frame \<noteq> [] \<and> parseKeyValuePairs (df_payload frame) \<noteq> []
      then Some \<lparr>rk_status = C3Ok, rk_records = [insertPairs (parseKeyValuePairs (df_payload frame))]\<rparr>
      else Some \<lparr>rk_status = C3Ok, rk_records = []\<rparr>)"

interpretation rk: c3_decoder "\<lambda>d. decodeRtlogKeyValueResponse d strip" strip
  keyValuesOfFrame "\<lambda>r. rk_status r = C3Incomplete" for strip
  by unfold_locales
    (auto simp: decodeRtlogKeyValueResponse_def keyValuesOfFrame_def cong: Option.bind_cong)

definition paramsOfFrame :: "DecodedFrame \<Rightarrow> GetParamResponse option" where
  "paramsOfFrame frame =
     (if df_status frame \<noteq> C3Ok then Some \<lparr>gp_status = df_status frame, gp_values = Map.empty\<rparr>
      else if df_payload frame \<noteq> []
      then Some \<lparr>gp_status = C3Ok, gp_values = insertPairs (parseKeyValuePairs (df_payload frame))\<rparr>
      else Some \<lparr>gp_status = C3Ok, gp_values = Map.empty\<rparr>)"

interpretation gp: c3_decoder "\<lambda>d. decodeGetParamResponse d strip" strip
  paramsOfFrame "\<lambda>r. gp_status r = C3Incomplete" for strip
  by unfold_locales (auto simp: decodeGetParamResponse_def paramsOfFrame_def cong: Option.bind_cong)

interpretation gr: stream_decoder decodeGenericReply "\<lambda>r. gr_status r = C3Incomplete"
proof
  fix d e r
  show "\<exists>r. decodeGenericReply d = Some r"
    using c3_scan_total [of d] by (auto simp: decodeGenericReply_scan split: option.splits)
  assume r: "decodeGenericReply d = Some r" "gr_status r \<noteq> C3Incomplete"
  then obtain q where "c3_scan d = Some (Some q)"
    by (auto simp: decodeGenericReply_scan split: bind_splits option.splits)
  then show "decodeGenericReply (d @ e) = Some r"
    using r c3_scan_stable [of d q e] by (simp add: decodeGenericReply_scan)
qed

interpretation csr: stream_decoder decodeConnectSessionResponse "\<lambda>r. csr_status r = C3Incomplete"
proof
  fix d e r
  have rd: "readLittleEndian16 d 5 \<noteq> None \<and> readLittleEndian16 (d @ e) 5 = readLittleEndian16 d 5"
    if "c3_scan d = Some (Some (ok, cmd, n))" for ok cmd n
    using c3_scan_bounds [OF that] readLittleEndian16_append [of 5 d e]
    by (simp add: readLittleEndian16_def byte_reads)
  obtain x where x: "c3_scan d = Some x" using c3_scan_total by blast
  show "\<exists>r. decodeConnectSessionResponse d = Some r"
    using rd x by (cases x) (auto simp: decodeConnectSession_scan)
  assume r: "decodeConnectSessionResponse d = Some r" "csr_status r \<noteq> C3Incomplete"
  then obtain ok cmd n where q: "c3_scan d = Some (Some (ok, cmd, n))"
    by (auto simp: decodeConnectSession_scan split: bind_splits option.splits)
  then show "decodeConnectSessionResponse (d @ e) = Some r"
    using r rd [OF q] c3_scan_stable [OF q, of e]
    by (auto simp: decodeConnectSession_scan split: if_splits)
qed

section \<open>Lemmas: key-value text\<close>

lemma from_to_Latin1 [simp]: "fromLatin1 (toLatin1 s) = s"
proof -
  have "char_of (unat (of_nat (of_char c) :: u8)) = c" for c :: char
    by (simp add: unat_of_nat_byte)
  then show ?thesis by (simp add: fromLatin1_def toLatin1_def map_idI)
qed

definition kv_entry :: "string \<times> string \<Rightarrow> bool" where
  "kv_entry p \<longleftrightarrow> fst p \<noteq> [] \<and> snd p \<noteq> [] \<and> list_all is_word (fst p) \<and> list_all is_value (snd p)"

lemma match_pair_entry:
  assumes "kv_entry (k, v)" and "rest = [] \<or> \<not> is_value (hd rest)"
  shows "match_pair (k @ CHR ''='' # v @ rest) = Some (k, v, rest)"
proof -
  have e: "\<not> is_word CHR ''=''" by (simp add: is_word_def Let_def)
  have "takeWhile is_word (k @ CHR ''='' # v @ rest) = k"
    "dropWhile is_word (k @ CHR ''='' # v @ rest) = CHR ''='' # v @ rest"
    using assms(1) e by (simp_all add: kv_entry_def list_all_iff)
  moreover have "takeWhile is_value (v @ rest) = v" "dropWhile is_value (v @ rest) = rest"
    using assms by (cases rest; simp add: kv_entry_def list_all_iff)+
  ultimately show ?thesis using assms(1) by (simp add: match_pair_def kv_entry_def)
qed

lemma matchPairs_Nil [simp]: "matchPairs [] = []"
  by (simp add: matchPairs.simps [of "[]"] match_pair_def)

lemma matchPairs_comma [simp]: "matchPairs (CHR '','' # s) = matchPairs s"
proof -
  have "match_pair (CHR '','' # s) = None" by (simp add: match_pair_def is_word_def Let_def)
  then show ?thesis by (simp add: matchPairs.simps [of "CHR '','' # s"])
qed

lemma matchPairs_step: "match_pair s = Some (k, v, r) \<Longrightarrow> matchPairs s = (k, v) # matchPairs r"
  by (subst matchPairs.simps) simp

abbreviation kv_text :: "(string \<times> string) list \<Rightarrow> string" where
  "kv_text entries \<equiv> join_comma (map (\<lambda>(k, v). k @ CHR ''='' # v) entries)"

lemma matchPairs_text: "list_all kv_entry entries \<Longrightarrow> matchPairs (kv_text entries) = entries"
proof (induction entries rule: induct_list012)
  case 1
  then show ?case by simp
next
  case (2 x)
  obtain k v where x: "x = (k, v)" by fastforce
  show ?case
    using matchPairs_step [OF match_pair_entry [of k v "[]"]] 2 by (simp add: x)
next
  case (3 x y zs)
  obtain k v where x: "x = (k, v)" by fastforce
  let ?rest = "CHR '','' # kv_text (y # zs)"
  have "match_pair (k @ CHR ''='' # v @ ?rest) = Some (k, v, ?rest)"
    using 3(3) by (intro match_pair_entry) (simp_all add: x is_value_def)
  then have "matchPairs (k @ CHR ''='' # v @ ?rest) = (k, v) # matchPairs (kv_text (y # zs))"
    by (simp only: matchPairs_step matchPairs_comma)
  then show ?case using 3 by (simp add: x split: prod.splits)
qed

lemma foldl_insert_map_of:
  "distinct (map fst ps) \<Longrightarrow>
   foldl (\<lambda>m (k, v). m(k \<mapsto> VString v)) m ps = m ++ map_of (map (\<lambda>(k, v). (k, VString v)) ps)"
proof (induction ps arbitrary: m)
  case (Cons p ps)
  obtain k v where p: "p = (k, v)" by fastforce
  have "map_of (map (\<lambda>(k, v). (k, VString v)) ps) k = None"
    using Cons.prems by (auto simp: p map_of_eq_None_iff image_iff)
  then show ?case
    using Cons by (simp add: p fun_eq_iff map_add_def split: option.splits)
qed simp

section \<open>Lemmas: table data\<close>

text \<open>The reference format of a table reply: length-prefixed cells, row after row.\<close>

fun le_nat :: "bytes \<Rightarrow> nat" where
  "le_nat [] = 0"
| "le_nat (b # bs) = unat b + 256 * le_nat bs"

definition cell_bytes :: "bytes \<Rightarrow> bytes" where
  "cell_bytes c = of_nat (length c) # c"

definition cell_value :: "char \<Rightarrow> bytes \<Rightarrow> QVariant" where
  "cell_value t c = (if t = CHR ''s'' then VString (fromLatin1 c) else VLongLong (of_nat (le_nat c)))"

definition cell_ok :: "DataTableField \<Rightarrow> bytes \<Rightarrow> bool" where
  "cell_ok f c \<longleftrightarrow> (fld_type f = CHR ''s'' \<and> length c < 256
      \<or> (fld_type f = CHR ''i'' \<or> fld_type f = CHR ''L'') \<and> length c \<le> 8)"

definition row_bytes :: "bytes list \<Rightarrow> bytes" where
  "row_bytes cells = concat (map cell_bytes cells)"

definition row_map :: "DataTableField list \<Rightarrow> bytes list \<Rightarrow> QVariantMap \<Rightarrow> QVariantMap" where
  "row_map fs cells m =
     foldl (\<lambda>m (f, c). m(fld_name f \<mapsto> cell_value (fld_type f) c)) m (zip fs cells)"

definition table_payload :: "int \<Rightarrow> u8 list \<Rightarrow> bytes list list \<Rightarrow> bytes" where
  "table_payload t idxs rows =
     of_int t # of_nat (length idxs) # idxs @ concat (map row_bytes rows)"

lemma or_push_bit_plus:
  assumes "\<And>k. k \<ge> n \<Longrightarrow> \<not> bit (v :: u64) k"
  shows "v OR push_bit n w = v + push_bit n w"
proof -
  have "\<not> bit v k \<or> \<not> bit (push_bit n w) k" for k
    using assms by (cases "k < n") (auto simp: bit_push_bit_iff)
  then have "v + push_bit n w = v OR push_bit n w" by (rule disjunctive_add)
  then show ?thesis by simp
qed

lemma readValue_le:
  assumes "offset + i + n \<le> length payload" and "\<And>k. k \<ge> 8 * i \<Longrightarrow> \<not> bit v k"
  shows "readValue payload offset i n v
       = Some (v + push_bit (8 * i) (of_nat (le_nat (mid payload (offset + i) n))))"
  using assms
proof (induction n arbitrary: i v)
  case 0
  then show ?case by (simp add: mid_def)
next
  case (Suc n)
  let ?b = "payload ! (offset + i)"
  let ?L = "of_nat (le_nat (mid payload (offset + (i + 1)) n)) :: u64"
  let ?v = "v OR push_bit (8 * i) (ucast ?b)"
  have m: "mid payload (offset + i) (Suc n) = ?b # mid payload (offset + (i + 1)) n"
    using Suc.prems(1) by (simp add: mid_def Cons_nth_drop_Suc flip: take_Suc_Cons)
  have bnd: "\<not> bit ?v k" if "k \<ge> 8 * (i + 1)" for k
    using Suc.prems(2) [of k] that bit_imp_le_length [of ?b "k - 8 * i"]
    by (auto simp: bit_or_iff bit_push_bit_iff bit_unsigned_iff)
  have "readValue payload offset i (Suc n) v = readValue payload offset (i + 1) n ?v"
    using Suc.prems(1) by (simp add: byte_reads)
  also have "\<dots> = Some (?v + push_bit (8 * (i + 1)) ?L)"
    using Suc.prems(1) bnd by (intro Suc.IH) simp_all
  also have "?v + push_bit (8 * (i + 1)) ?L
      = v + push_bit (8 * i) (of_nat (unat ?b) + 256 * ?L)"
    using or_push_bit_plus [of "8 * i" v "ucast ?b", OF Suc.prems(2)]
    by (simp add: push_bit_eq_mult algebra_simps power_add)
  finally show ?case by (simp only: m le_nat.simps of_nat_add of_nat_mult of_nat_numeral)
qed

lemma readValue_cell:
  "readValue (pre @ c @ suf) (length pre) 0 (length c) 0 = Some (of_nat (le_nat c))"
  using readValue_le [of "length pre" 0 "length c" "pre @ c @ suf" 0] by (simp add: mid_def)

lemma parseRecord_cells:
  "list_all2 cell_ok fs cells \<Longrightarrow>
   parseRecord fs (pre @ row_bytes cells @ suf) (length pre) m
     = Some (Some (row_map fs cells m, length pre + length (row_bytes cells)))"
proof (induction fs cells arbitrary: pre m rule: list_all2_induct)
  case Nil
  then show ?case by (simp add: row_bytes_def row_map_def)
next
  case (Cons f fs c cells)
  let ?m = "m(fld_name f \<mapsto> cell_value (fld_type f) c)"
  let ?p = "pre @ row_bytes (c # cells) @ suf"
  let ?q = "pre @ [of_nat (length c)]"
  have len: "length c < 256" using Cons.hyps(1) by (auto simp: cell_ok_def)
  have p: "?p = ?q @ c @ row_bytes cells @ suf" by (simp add: row_bytes_def cell_bytes_def)
  have size: "byte_at ?p (length pre) = Some (of_nat (length c))"
    by (simp add: p byte_at_def)
  have rv: "readValue ?p (Suc (length pre)) 0 (length c) 0 = Some (of_nat (le_nat c))"
    using readValue_cell [of ?q c "row_bytes cells @ suf"] by (simp add: p)
  have md: "mid ?p (Suc (length pre)) (length c) = c" by (simp add: p mid_def)
  have next': "parseRecord fs ?p (Suc (length pre + length c)) ?m
      = Some (Some (row_map fs cells ?m, Suc (length pre + length c) + length (row_bytes cells)))"
    using Cons.IH [of "?q @ c" ?m] by (simp add: p del: fun_upd_apply)
  have lp: "length ?p = Suc (length pre + length c + length (row_bytes cells) + length suf)"
    by (simp add: p)
  have row: "row_map (f # fs) (c # cells) m = row_map fs cells ?m" by (simp add: row_map_def)
  have rl: "length (row_bytes (c # cells)) = Suc (length c + length (row_bytes cells))"
    by (simp add: row_bytes_def cell_bytes_def)
  consider "fld_type f = CHR ''s''"
    | "fld_type f = CHR ''i'' \<or> fld_type f = CHR ''L''" "length c \<le> 8" "fld_type f \<noteq> CHR ''s''"
    using Cons.hyps(1) by (auto simp: cell_ok_def)
  then show ?case
  proof cases
    case 1
    then show ?thesis
      using size md next' lp
      by (simp only: parseRecord.simps) (simp add: row rl unat_of_nat_byte [OF len] cell_value_def)
  next
    case 2
    then show ?thesis
      using size rv next' lp
      by (simp only: parseRecord.simps) (simp add: row rl unat_of_nat_byte [OF len] cell_value_def)
  qed
qed

lemma row_bytes_nonempty: "cells \<noteq> [] \<Longrightarrow> row_bytes cells \<noteq> []"
  by (cases cells) (simp_all add: row_bytes_def cell_bytes_def)

lemma parseRecords_rows:
  assumes "fs \<noteq> []" and "list_all (list_all2 cell_ok fs) rows"
  shows "parseRecords fs (pre @ concat (map row_bytes rows)) (length pre) recs
       = Some (Some (recs @ map (\<lambda>cells. row_map fs cells Map.empty) rows))"
  using assms(2)
proof (induction rows arbitrary: pre recs)
  case Nil
  then show ?case by (subst parseRecords.simps) simp
next
  case (Cons cells rows)
  let ?p = "pre @ concat (map row_bytes (cells # rows))"
  have ok: "list_all2 cell_ok fs cells" using Cons.prems by simp
  have "cells \<noteq> []" using ok assms(1) by auto
  then have l: "length pre < length ?p" using row_bytes_nonempty by simp
  have r: "parseRecord fs ?p (length pre) Map.empty
      = Some (Some (row_map fs cells Map.empty, length (pre @ row_bytes cells)))"
    using parseRecord_cells [OF ok, of pre "concat (map row_bytes rows)"] by simp
  have "parseRecords fs ?p (length (pre @ row_bytes cells)) (recs @ [row_map fs cells Map.empty])
      = Some (Some ((recs @ [row_map fs cells Map.empty])
          @ map (\<lambda>cells. row_map fs cells Map.empty) rows))"
    using Cons.IH [of "pre @ row_bytes cells"] Cons.prems by simp
  then show ?case using l r by (subst parseRecords.simps) simp
qed

definition lookup_field :: "DataTableField list \<Rightarrow> u8 \<Rightarrow> DataTableField option" where
  "lookup_field tf i = find (\<lambda>f. fld_index f = int (unat i)) tf"

lemma returnedFields_lookup:
  assumes "map (lookup_field tf) idxs = map Some fs" and "length pre = 2 + k"
  shows "returnedFields (pre @ idxs @ suf) tf k (length idxs) = Some (Some fs)"
  using assms
proof (induction idxs arbitrary: pre k fs)
  case (Cons i idxs)
  then obtain f fs' where fs: "fs = f # fs'" by (cases fs) auto
  have "byte_at (pre @ (i # idxs) @ suf) (2 + k) = Some i"
    using Cons.prems(2) by (simp add: byte_at_def nth_append)
  moreover have "returnedFields ((pre @ [i]) @ idxs @ suf) tf (k + 1) (length idxs) = Some (Some fs')"
    using Cons.prems by (intro Cons.IH) (simp_all add: fs)
  ultimately show ?case using Cons.prems(1) by (simp add: fs lookup_field_def)
qed simp

lemma parseGetDataPayload_table:
  assumes "map (lookup_field tf) idxs = map Some fs" and "length idxs < 256"
    and "fs \<noteq> []" and "list_all (list_all2 cell_ok fs) rows"
  shows "parseGetDataPayload (table_payload t idxs rows) t tf
       = Some \<lparr>gd_status = GdOk, gd_records = map (\<lambda>cells. row_map fs cells Map.empty) rows,
               gd_prepareInfo = noPrepareInfo\<rparr>"
proof -
  let ?h = "[of_int t, of_nat (length idxs)] :: bytes"
  let ?p = "table_payload t idxs rows"
  have p: "?p = ?h @ idxs @ concat (map row_bytes rows)" by (simp add: table_payload_def)
  have n: "unat (of_nat (length idxs) :: u8) = length idxs" by (rule unat_of_nat_byte [OF assms(2)])
  have b: "byte_at ?p 0 = Some (of_int t)" "byte_at ?p 1 = Some (of_nat (length idxs))"
    "\<not> length ?p < 2" "\<not> length ?p < 2 + length idxs"
    by (simp_all add: p byte_at_def)
  have rf: "returnedFields ?p tf 0 (length idxs) = Some (Some fs)"
    unfolding p by (rule returnedFields_lookup [OF assms(1)]) simp
  have pr: "parseRecords fs ?p (2 + length idxs) []
      = Some (Some (map (\<lambda>cells. row_map fs cells Map.empty) rows))"
    using parseRecords_rows [OF assms(3,4), of "?h @ idxs" "[]"] by (simp add: p)
  show ?thesis
    unfolding parseGetDataPayload_def
    using b rf pr assms(3) by (simp only: if_False bind.bind_lunit n Let_def simp_thms option.case)
qed

lemma join_comma_nonempty: "ss \<noteq> [] \<Longrightarrow> hd ss \<noteq> [] \<Longrightarrow> join_comma ss \<noteq> []"
  by (induction ss rule: join_comma.induct) auto

section \<open>Lemmas: panel time\<close>

definition c3_seconds :: "nat \<Rightarrow> nat \<Rightarrow> nat \<Rightarrow> nat \<Rightarrow> nat \<Rightarrow> nat \<Rightarrow> nat" where
  "c3_seconds y mo d h mi s =
     ((((y * 12 + mo) * 31 + d) * 24 + h) * 60 + mi) * 60 + s"

lemma c3_seconds_split:
  assumes "mo < 12" "d < 31" "h < 24" "mi < 60" "s < 60"
    and n: "n = c3_seconds y mo d h mi s"
  shows "n mod 60 = s" "n div 60 mod 60 = mi" "n div 60 div 60 mod 24 = h"
    "n div 60 div 60 div 24 mod 31 = d" "n div 60 div 60 div 24 div 31 mod 12 = mo"
    "n div 60 div 60 div 24 div 31 div 12 = y"
proof -
  have digit: "(q * k + r) div k = q" "(q * k + r) mod k = r" if "r < k" for q k r :: nat
    using that by simp_all
  have 1: "n div 60 = (((y * 12 + mo) * 31 + d) * 24 + h) * 60 + mi" "n mod 60 = s"
    unfolding n c3_seconds_def by (rule digit [OF assms(5)])+
  have 2: "n div 60 div 60 = ((y * 12 + mo) * 31 + d) * 24 + h" "n div 60 mod 60 = mi"
    unfolding 1 by (rule digit [OF assms(4)])+
  have 3: "n div 60 div 60 div 24 = (y * 12 + mo) * 31 + d" "n div 60 div 60 mod 24 = h"
    unfolding 2 by (rule digit [OF assms(3)])+
  have 4: "n div 60 div 60 div 24 div 31 = y * 12 + mo" "n div 60 div 60 div 24 mod 31 = d"
    unfolding 3 by (rule digit [OF assms(2)])+
  show "n mod 60 = s" "n div 60 mod 60 = mi" "n div 60 div 60 mod 24 = h"
    "n div 60 div 60 div 24 mod 31 = d" "n div 60 div 60 div 24 div 31 mod 12 = mo"
    "n div 60 div 60 div 24 div 31 div 12 = y"
    using 1 2 3 4 assms(1) by simp_all
qed

lemma decodeC3DateTime_nat:
  assumes "n < 2 ^ 32"
  shows "decodeC3DateTime (of_nat n) =
     zero_padded 4 (n div 60 div 60 div 24 div 31 div 12 + 2000) @ ''-''
     @ zero_padded 2 (n div 60 div 60 div 24 div 31 mod 12 + 1) @ ''-''
     @ zero_padded 2 (n div 60 div 60 div 24 mod 31 + 1) @ '' ''
     @ zero_padded 2 (n div 60 div 60 mod 24) @ '':''
     @ zero_padded 2 (n div 60 mod 60) @ '':'' @ zero_padded 2 (n mod 60)"
proof -
  have u: "unat (of_nat n :: u32) = n" using assms by (simp add: unat_of_nat)
  show ?thesis
    by (simp add: decodeC3DateTime_def Let_def unat_div_distrib unat_mod_distrib u)
qed

section \<open>Properties\<close>

text \<open>
  C14. No decoder of panel replies reads outside its buffer or fails to return, whatever the bytes:
  all ten return an answer, in particular the record loop of GETDATA replies always ends.
\<close>

theorem c3_decoders_total:
  "(\<exists>r. decodeFrameGeneric d strip = Some r)
 \<and> (\<exists>r. decodeConnectSessionResponse d = Some r)
 \<and> (\<exists>r. decodeGenericReply d = Some r)
 \<and> (\<exists>r. decodeDataTableConfigResponse toInt d strip = Some r)
 \<and> (\<exists>r. decodeGetDataResponse d t tf strip = Some r)
 \<and> (\<exists>r. parseGetDataPayload d t tf = Some r)
 \<and> (\<exists>r. decodeTransmitDataResponse d strip = Some r)
 \<and> (\<exists>r. decodeGetDataCountResponse d strip = Some r)
 \<and> (\<exists>r. decodeRtlogBinaryResponse d strip = Some r)
 \<and> (\<exists>r. decodeRtlogKeyValueResponse d strip = Some r)
 \<and> (\<exists>r. decodeGetParamResponse d strip = Some r)"
  by (intro conjI decodeFrameGeneric_total csr.dec_total gr.dec_total dtc.dec_total gd.dec_total
      parseGetDataPayload_total td.dec_total gc.dec_total rb.dec_total rk.dec_total gp.dec_total)


text \<open>
  Every frame the encoder builds is decoded to the payload it was built from, with or without a
  session block, whatever bytes follow it.
\<close>

theorem c3_frame_roundtrip:
  assumes "(if include then 4 else 0) + length payload < 65536" and "command \<noteq> kReplyError"
  shows "decodeFrameGeneric (encodeFrame command sessionId requestNr payload include @ rest) include
       = Some \<lparr>df_status = C3Ok, df_payload = payload, df_command = command\<rparr>"
proof -
  have "strip_session include (sessionBlock include sessionId requestNr @ payload) = payload"
    by (simp add: strip_session_def sessionBlock_def)
  then show ?thesis
    using assms unfolding encodeFrame_wire
    by (subst decodeFrameGeneric_wire) simp_all
qed

theorem c3_frame_roundtrip_witness:
  "decodeFrameGeneric (encodeFrame kCommandGetData 0x1234 7 [1, 2, 3] True @ [9, 9]) True
     = Some \<lparr>df_status = C3Ok, df_payload = [1, 2, 3], df_command = kCommandGetData\<rparr>"
  by (rule c3_frame_roundtrip) (simp_all add: kCommandGetData_def kReplyError_def)

text \<open>
  C13. Corruption is detected: change one or two adjacent bytes of a frame's body in any way (the
  two length bytes excepted) and all three frame decoders reject the frame as malformed.
\<close>

theorem c3_corruption_detected:
  assumes "c3_body v cmd content = pre @ [a1, b1] @ suf" and "length content < 65536"
    and "(a2, b2) \<noteq> (a1, b1)"
    and "mid (pre @ [a2, b2] @ suf) 2 2 = mid (pre @ [a1, b1] @ suf) 2 2"
    and d: "d = [kFrameStart] @ (pre @ [a2, b2] @ suf) @ le16 (crc16 (c3_body v cmd content))
                 @ [kFrameEnd] @ rest"
  shows "map_option df_status (decodeFrameGeneric d strip) = Some C3Malformed
       \<and> map_option gr_status (decodeGenericReply d) = Some C3Malformed
       \<and> map_option csr_status (decodeConnectSessionResponse d) = Some C3Malformed"
proof -
  let ?b = "pre @ [a2, b2] @ suf"
  have "crc16 ?b \<noteq> crc16 (pre @ [a1, b1] @ suf)"
  proof
    assume "crc16 ?b = crc16 (pre @ [a1, b1] @ suf)"
    then have "crc16_byte (crc16_byte (foldl crc16_byte 0 pre) a2) b2
             = crc16_byte (crc16_byte (foldl crc16_byte 0 pre) a1) b1"
      by (simp add: crc16_def crc16_fold_inj)
    then show False using crc16_two_bytes_inj assms(3) by blast
  qed
  moreover have "length ?b = 4 + length content"
    using arg_cong [OF assms(1), of length] by (simp add: c3_body_def)
  moreover have "mid (c3_body v cmd content) 2 2 = le16 (of_nat (length content))"
    by (simp add: c3_body_def mid_def le16_def)
  then have "mid ?b 2 2 = le16 (of_nat (length content))"
    by (simp only: assms(4) assms(1) [symmetric])
  ultimately have "c3_scan d = Some (Some (False, ?b ! 1, length content))"
    unfolding d using assms(2)
    by (subst c3_scan_frame [of ?b "length content"]) (simp_all add: assms(1))
  then show ?thesis
    by (simp add: decodeFrameGeneric_scan decodeGenericReply_scan decodeConnectSession_scan)
qed

theorem c3_corruption_detected_witness:
  "map_option df_status (decodeFrameGeneric
     ([kFrameStart] @ [1, 0xC8, 2, 0, 0x11, 0x23]
        @ le16 (crc16 (c3_body 1 0xC8 [0x10, 0x22])) @ [kFrameEnd] @ [7]) False) = Some C3Malformed"
  using c3_corruption_detected [of 1 "0xC8" "[0x10, 0x22]" "[1, 0xC8, 2, 0]" "0x10" "0x22" "[]"
      "0x11" "0x23" "[kFrameStart] @ [1, 0xC8, 2, 0, 0x11, 0x23]
        @ le16 (crc16 (c3_body 1 0xC8 [0x10, 0x22])) @ [kFrameEnd] @ [7]" "[7]" False]
  by (simp add: c3_body_def le16_def mid_def)

text \<open>
  A table reply is parsed to its rows: when every field index of the reply names a field of the
  table and every cell fits its field (integers of at most eight bytes, strings of at most 255),
  the answer to a GETDATA request is Ok with one record per row, each mapping the field names to
  the cell values - little-endian unsigned integers or Latin-1 text.
\<close>

theorem c3_table_reply:
  assumes "map (lookup_field tf) idxs = map Some fs" and "length idxs < 256"
    and "fs \<noteq> []" and "list_all (list_all2 cell_ok fs) rows"
    and "content = sessionBlock include sid rn @ table_payload t idxs rows"
    and "length content < 65536" and "cmd \<noteq> kReplyError" and "cmd \<noteq> kCommandPrepareData"
  shows "decodeGetDataResponse (c3_wire v cmd content @ rest) t tf include
       = Some \<lparr>gd_status = GdOk, gd_records = map (\<lambda>cells. row_map fs cells Map.empty) rows,
               gd_prepareInfo = noPrepareInfo\<rparr>"
proof -
  have "strip_session include content = table_payload t idxs rows"
    by (simp add: assms(5) strip_session_def sessionBlock_def)
  then have "decodeGetDataResponse (c3_wire v cmd content @ rest) t tf include
      = parseGetDataPayload (table_payload t idxs rows) t tf"
    using assms(8) by (simp add: gd.c3_dec_wire [OF assms(6,7)] dataOfFrame_def)
  then show ?thesis by (simp only: parseGetDataPayload_table [OF assms(1-4)])
qed

theorem c3_table_reply_witness:
  "let tf = [\<lparr>fld_name = ''Pin'', fld_type = CHR ''i'', fld_index = 2\<rparr>,
             \<lparr>fld_name = ''Name'', fld_type = CHR ''s'', fld_index = 5\<rparr>]
   in map_option (\<lambda>r. (gd_status r, map (\<lambda>m. m ''Pin'') (gd_records r)))
        (decodeGetDataResponse
          (c3_wire 1 kReplyOk (table_payload 3 [5, 2] [[[0x41], [0x39, 0x05]], [[], [7]]])) 3 tf False)
      = Some (GdOk, [Some (VLongLong 1337), Some (VLongLong 7)])"
proof -
  let ?n = "\<lparr>fld_name = ''Name'', fld_type = CHR ''s'', fld_index = 5\<rparr>"
  let ?p = "\<lparr>fld_name = ''Pin'', fld_type = CHR ''i'', fld_index = 2\<rparr>"
  show ?thesis
    using c3_table_reply [of "[?p, ?n]" "[5, 2]" "[?n, ?p]" "[[[0x41], [0x39, 0x05]], [[], [7]]]"
        "table_payload 3 [5, 2] [[[0x41], [0x39, 0x05]], [[], [7]]]" False 0 0 3 kReplyOk 1 "[]"]
    by (simp add: lookup_field_def cell_ok_def sessionBlock_def table_payload_def row_bytes_def
        cell_bytes_def kReplyOk_def kReplyError_def kCommandPrepareData_def row_map_def
        cell_value_def Let_def)
qed

text \<open>
  Parameters survive the trip: the text a SETPARAM request carries for entries with distinct
  word-like names and values without commas or tabs is, as the payload of a GETPARAM reply, decoded
  to exactly the map of those entries.
\<close>

theorem c3_params_roundtrip:
  assumes "list_all kv_entry entries" and "distinct (map fst entries)" and "entries \<noteq> []"
    and "length (sessionBlock include sid rn @ toLatin1 (kv_text entries)) < 65536"
    and "cmd \<noteq> kReplyError"
  shows "encodeSetParamRequest entries include sid rn
           = encodeFrame kCommandGetParam sid rn (toLatin1 (kv_text entries)) include
       \<and> decodeGetParamResponse (encodeFrame cmd sid rn (toLatin1 (kv_text entries)) include @ rest)
             include
           = Some \<lparr>gp_status = C3Ok,
                   gp_values = map_of (map (\<lambda>(k, v). (k, VString v)) entries)\<rparr>"
proof -
  have "kv_text entries \<noteq> []"
    using assms(1,3) join_comma_nonempty [of "map (\<lambda>(k, v). k @ CHR ''='' # v) entries"]
    by (cases entries) (auto simp: kv_entry_def split: prod.splits)
  then have "toLatin1 (kv_text entries) \<noteq> []" by (simp add: toLatin1_def)
  moreover have "strip_session include (sessionBlock include sid rn @ toLatin1 (kv_text entries))
      = toLatin1 (kv_text entries)"
    by (simp add: strip_session_def sessionBlock_def)
  moreover have "parseKeyValuePairs (toLatin1 (kv_text entries)) = entries"
    by (simp add: parseKeyValuePairs_def matchPairs_text [OF assms(1)])
  ultimately show ?thesis
    unfolding encodeFrame_wire gp.c3_dec_wire [OF assms(4,5)] encodeSetParamRequest_def
    by (simp add: paramsOfFrame_def insertPairs_def foldl_insert_map_of [OF assms(2)])
qed

theorem c3_params_roundtrip_witness:
  "map_option (\<lambda>r. gp_values r ''~SerialNumber'')
     (decodeGetParamResponse
        (encodeFrame kReplyOk 0 0 (toLatin1 ''LockCount=4,~SerialNumber=DGD9'') False @ [1]) False)
   = Some (Some (VString ''DGD9''))"
proof -
  let ?e = "[(''LockCount'', ''4''), (''~SerialNumber'', ''DGD9'')]"
  have "kv_text ?e = ''LockCount=4,~SerialNumber=DGD9''" by simp
  then show ?thesis
    using c3_params_roundtrip [of ?e False 0 0 kReplyOk "[1]"]
    by (simp add: kv_entry_def is_word_def is_value_def sessionBlock_def toLatin1_def kReplyOk_def
        kReplyError_def)
qed

text \<open>
  Panel time is a mixed-radix number (31-day months, years from 2000): decoding the number of a
  date and time gives its text, for every value that fits 32 bits.
\<close>

theorem c3_datetime_roundtrip:
  assumes "month < 12" "day < 31" "hour < 24" "minute < 60" "second < 60"
    and "c3_seconds year month day hour minute second < 2 ^ 32"
  shows "decodeC3DateTime (of_nat (c3_seconds year month day hour minute second))
       = zero_padded 4 (year + 2000) @ ''-'' @ zero_padded 2 (month + 1) @ ''-''
         @ zero_padded 2 (day + 1) @ '' '' @ zero_padded 2 hour @ '':''
         @ zero_padded 2 minute @ '':'' @ zero_padded 2 second"
  by (simp only: decodeC3DateTime_nat [OF assms(6)] c3_seconds_split [OF assms(1-5) refl])

theorem c3_datetime_roundtrip_witness:
  "decodeC3DateTime 347748895 = ''2010-10-26 20:54:55''"
  using c3_datetime_roundtrip [of 9 25 20 54 55 10]
  by (simp add: c3_seconds_def zero_padded_def dec_digits.simps char_of_def bit_0)

text \<open>
  The reply to CONNECT_SESSION is not checked for having a payload: a well-formed Ok reply with
  an empty payload is accepted, and the session id is read from the two checksum bytes that follow
  the header.
\<close>

theorem c3_empty_session_reply_accepted:
  "decodeConnectSessionResponse (c3_wire v kReplyOk [] @ rest)
     = Some \<lparr>csr_status = C3Ok, csr_sessionId = crc16 [v, kReplyOk, 0, 0]\<rparr>"
proof -
  let ?d = "c3_wire v kReplyOk [] @ rest"
  have b: "c3_body v kReplyOk [] = [v, kReplyOk, 0, 0]" by (simp add: c3_body_def le16_def)
  have "?d = [kFrameStart, v, kReplyOk, 0, 0] @ le16 (crc16 [v, kReplyOk, 0, 0]) @ [kFrameEnd] @ rest"
    by (simp add: c3_wire_def b)
  then have "readLittleEndian16 ?d 5 = Some (crc16 [v, kReplyOk, 0, 0])"
    using readLittleEndian16_at [of "[kFrameStart, v, kReplyOk, 0, 0]"] by (simp add: eval_nat_numeral)
  moreover have "c3_scan ?d = Some (Some (True, kReplyOk, 0))"
    using c3_scan_wire [of "[]" v kReplyOk rest] by simp
  ultimately show ?thesis
    by (simp add: decodeConnectSession_scan kReplyOk_def kReplyError_def)
qed

end
