(* ===== verification/C3_Connection.thy ===== *)
theory C3_Connection
  imports Connection_State C3_Codec Tcp_Socket
begin

text \<open>
  The driver for C3 access-control panels, src/features/c3protocol/c3_connection.\{h,cpp\}: the
  session handshake with its session-less fallback, and six kinds of queries that may be pending
  at the same time and share one read buffer. As for the Modbus driver, the object is its
  ConnectionState over a world of the driver's members; the socket and QString::toInt are
  parameters. Timer fields hold the interval they were last started with.
\<close>

section \<open>State\<close>

datatype HandshakeStep = HsNone | AwaitingSessionReply | AwaitingSessionLessReply

datatype DataQueryStep =
  DqNone | DqAwaitingTableConfig | AwaitingTableData | AwaitingBigDataChunk | AwaitingFreeDataAck

datatype CountQueryStep = CqNone | CqAwaitingTableConfig | AwaitingCount

datatype RtLogQueryStep = RqNone | AwaitingBinaryReply | AwaitingKeyValueReply

datatype c3_signal =
    C3ConnectionStateChanged bool
  | SessionEstablished u16 | SessionFailed string
  | TableDataReceived string "QVariantMap list" | TableDataFailed string string
  | TableRecordCountReceived string u32 | TableRecordCountFailed string string
  | RealtimeLogReceived "RtLogRecord list" | RealtimeLogKeyValueReceived "QVariantMap list"
  | RealtimeLogFailed string
  | DeviceParamsReceived QVariantMap | DeviceParamsFailed string
  | SetParamsAcknowledged | SetParamsFailed string
  | ControlAcknowledged | ControlFailed string

record 's c3_world =
  c3_socket :: 's
  c3_error :: string
  c3_readBuffer :: bytes
  handshakeTimer :: "int option"
  connectAttemptPending :: bool
  handshakeStep :: HandshakeStep
  c3_sessionId :: u16
  sessionLess :: bool
  requestNr :: "32 word"
  dataQueryPending :: bool
  dataQueryStep :: DataQueryStep
  dataQueryTimer :: "int option"
  tableConfig :: DataTableConfig
  pendingTableName :: string
  bigDataBuffer :: bytes
  bigDataExpectedLength :: u32
  countQueryPending :: bool
  countQueryStep :: CountQueryStep
  countQueryTimer :: "int option"
  countTableIndex :: int
  pendingCountTableName :: string
  rtLogQueryPending :: bool
  rtLogQueryStep :: RtLogQueryStep
  rtLogQueryTimer :: "int option"
  controlPending :: bool
  controlTimer :: "int option"
  getParamPending :: bool
  getParamTimer :: "int option"
  setParamPending :: bool
  setParamTimer :: "int option"
  rtlogCommand :: u8
  c3_emitted :: "c3_signal list"

type_synonym 's c3 = "'s c3_world connection_state"

definition kHandshakeTimeoutMs :: int where "kHandshakeTimeoutMs = 3000"

definition c3_emit :: "c3_signal \<Rightarrow> 's c3_world \<Rightarrow> 's c3_world" where
  "c3_emit sig w = w\<lparr>c3_emitted := c3_emitted w @ [sig]\<rparr>"

text \<open>Writing a request that is encoded from the session fields, and counting it.\<close>

definition c3_send :: "'s socket_ops \<Rightarrow> (bool \<Rightarrow> u16 \<Rightarrow> 32 word \<Rightarrow> bytes) \<Rightarrow> 's c3_world \<Rightarrow> 's c3_world" where
  "c3_send ops encode w =
     (let w = w\<lparr>c3_socket := sock_write ops (encode (\<not> sessionLess w) (c3_sessionId w) (requestNr w))
                              (c3_socket w)\<rparr>
      in if \<not> sessionLess w then w\<lparr>requestNr := requestNr w + 1\<rparr> else w)"

text \<open>readBuffer.append(socket.readAll())\<close>

definition c3_appendAll :: "'s socket_ops \<Rightarrow> 's c3_world \<Rightarrow> 's c3_world" where
  "c3_appendAll ops w =
     (let (chunk, sk) = sock_readAll ops (c3_socket w)
      in w\<lparr>c3_socket := sk, c3_readBuffer := c3_readBuffer w @ chunk\<rparr>)"

section \<open>Construction and connection\<close>

definition c3_onStateChanged :: "bool \<Rightarrow> 's c3_world \<Rightarrow> 's c3_world" where
  "c3_onStateChanged connected w = c3_emit (C3ConnectionStateChanged connected) w"

definition newC3Connection :: "'s \<Rightarrow> 's c3" where
  "newC3Connection sk =
     newConnectionState c3_onStateChanged (\<lambda>_ w. w)
       \<lparr>c3_socket = sk, c3_error = [], c3_readBuffer = [], handshakeTimer = None,
        connectAttemptPending = False, handshakeStep = HsNone, c3_sessionId = 0,
        sessionLess = False, requestNr = kPreSessionRequestNr, dataQueryPending = False,
        dataQueryStep = DqNone, dataQueryTimer = None,
        tableConfig = \<lparr>tbl_name = [], tbl_index = 0, tbl_fields = []\<rparr>, pendingTableName = [],
        bigDataBuffer = [], bigDataExpectedLength = 0, countQueryPending = False,
        countQueryStep = CqNone, countQueryTimer = None, countTableIndex = - 1,
        pendingCountTableName = [], rtLogQueryPending = False, rtLogQueryStep = RqNone,
        rtLogQueryTimer = None, controlPending = False, controlTimer = None,
        getParamPending = False, getParamTimer = None, setParamPending = False,
        setParamTimer = None, rtlogCommand = kCommandRtlogBinary, c3_emitted = []\<rparr>"

definition c3_onSocketConnected :: "'s socket_ops \<Rightarrow> 's c3 \<Rightarrow> 's c3" where
  "c3_onSocketConnected ops m =
     (let w = (world m)\<lparr>requestNr := kPreSessionRequestNr, handshakeStep := AwaitingSessionReply,
                        c3_readBuffer := []\<rparr>;
          w = w\<lparr>c3_socket := sock_write ops (encodeConnectSessionRequest \<lparr>cs_password = []\<rparr>)
                               (c3_socket w)\<rparr>
      in m\<lparr>world := w\<lparr>handshakeTimer := Some kHandshakeTimeoutMs\<rparr>\<rparr>)"

text \<open>What a socket error and a disconnect do to the queries: all of them are forgotten.\<close>

definition c3_dropQueries :: "'s c3_world \<Rightarrow> 's c3_world" where
  "c3_dropQueries w =
     w\<lparr>dataQueryPending := False, dataQueryStep := DqNone, dataQueryTimer := None,
       countQueryPending := False, countQueryStep := CqNone, countQueryTimer := None,
       rtLogQueryPending := False, rtLogQueryStep := RqNone, rtLogQueryTimer := None,
       controlPending := False, controlTimer := None,
       getParamPending := False, getParamTimer := None,
       setParamPending := False, setParamTimer := None\<rparr>"

text \<open>
  The connect callable of connectToHost. When the socket signals an error from within, onSocketError runs before the
  callable returns, with an attempt pending.
\<close>

definition c3_connectHandler :: "'s socket_ops \<Rightarrow> string \<Rightarrow> u16 \<Rightarrow> 's c3_world connect_fn" where
  "c3_connectHandler ops host port w0 =
     (let (failed, sk) = sock_connectToHost ops host port (c3_socket w0);
          w = w0\<lparr>c3_error := [], c3_readBuffer := [], connectAttemptPending := True, c3_socket := sk\<rparr>
      in if failed
         then (let w = c3_dropQueries (w\<lparr>c3_error := sock_errorString ops sk, handshakeTimer := None\<rparr>);
                   w = w\<lparr>connectAttemptPending := False, handshakeStep := HsNone\<rparr>
               in ((True, True), c3_emit (SessionFailed (c3_error w)) w))
         else ((False, True), w))"

definition c3_connectToHost :: "'s socket_ops \<Rightarrow> string \<Rightarrow> u16 \<Rightarrow> 's c3 \<Rightarrow> 's c3" where
  "c3_connectToHost ops host port m0 =
     (let m = m0\<lparr>world := (world m0)\<lparr>c3_error := []\<rparr>\<rparr>;
          m = setHandlers
                (Some (c3_connectHandler ops host port))
                (Some (\<lambda>w. ((c3_sessionId w \<noteq> 0 \<or> sessionLess w) \<and> \<not> connectAttemptPending w
                            \<and> sock_isConnected ops (c3_socket w), w)))
                (Some (\<lambda>w. w\<lparr>c3_socket := sock_abort ops (c3_socket w), handshakeTimer := None\<rparr>))
                True m
      in beginAutoConnect m)"

text \<open>A connect attempt that failed before a session existed.\<close>

definition c3_attemptFailed :: "'s c3 \<Rightarrow> 's c3" where
  "c3_attemptFailed m =
     (if connectAttemptPending (world m) then
        (let w = (world m)\<lparr>connectAttemptPending := False, handshakeStep := HsNone\<rparr>
         in reportPendingConnectResult False (m\<lparr>world := c3_emit (SessionFailed (c3_error w)) w\<rparr>))
      else m)"

definition c3_onSocketError :: "'s socket_ops \<Rightarrow> 's c3 \<Rightarrow> 's c3" where
  "c3_onSocketError ops m =
     (let w = (world m)\<lparr>c3_error := sock_errorString ops (c3_socket (world m)),
                        handshakeTimer := None\<rparr>
      in c3_attemptFailed (m\<lparr>world := c3_dropQueries w\<rparr>))"

definition c3_onHandshakeTimeout :: "'s socket_ops \<Rightarrow> 's c3 \<Rightarrow> 's c3" where
  "c3_onHandshakeTimeout ops m =
     (let w = (world m)\<lparr>c3_error := ''C3 session handshake timed out'',
                        c3_socket := sock_abort ops (c3_socket (world m))\<rparr>
      in c3_attemptFailed (m\<lparr>world := w\<rparr>))"

definition c3_isReady :: "'s socket_ops \<Rightarrow> 's c3_world \<Rightarrow> bool" where
  "c3_isReady ops w =
     ((c3_sessionId w \<noteq> 0 \<or> sessionLess w) \<and> sock_isConnected ops (c3_socket w))"

definition c3_disconnectNow :: "'s socket_ops \<Rightarrow> 's c3 \<Rightarrow> 's c3" where
  "c3_disconnectNow ops m =
     (let w = world m;
          w = (if (c3_sessionId w \<noteq> 0 \<or> sessionLess w) \<and> sock_isConnected ops (c3_socket w) then
                 (let frame = (if sessionLess w then encodeSessionLessDisconnectRequest
                               else encodeDisconnectRequest
                                      \<lparr>dr_sessionId = c3_sessionId w, dr_requestNr = requestNr w\<rparr>)
                  in w\<lparr>c3_socket := sock_flush ops (sock_write ops frame (c3_socket w))\<rparr>)
               else w);
          w = w\<lparr>c3_sessionId := 0, sessionLess := False, handshakeTimer := None,
                handshakeStep := HsNone\<rparr>
      in disconnectNow (m\<lparr>world := c3_dropQueries w\<rparr>))"

section \<open>Requests\<close>

definition requestTableData :: "'s socket_ops \<Rightarrow> string \<Rightarrow> 's c3_world \<Rightarrow> 's c3_world" where
  "requestTableData ops tableName w =
     (if \<not> c3_isReady ops w \<or> dataQueryPending w then w
      else (let w = w\<lparr>dataQueryPending := True, dataQueryStep := DqAwaitingTableConfig,
                      pendingTableName := tableName, c3_readBuffer := []\<rparr>
            in (c3_send ops encodeDataTableConfigRequest w)\<lparr>dataQueryTimer := Some kHandshakeTimeoutMs\<rparr>))"

definition onDataQueryTimeout :: "'s c3_world \<Rightarrow> 's c3_world" where
  "onDataQueryTimeout w =
     c3_emit (TableDataFailed (pendingTableName w) ''table data query timed out'')
       (w\<lparr>dataQueryPending := False, dataQueryStep := DqNone\<rparr>)"

definition requestTableRecordCount :: "'s socket_ops \<Rightarrow> string \<Rightarrow> 's c3_world \<Rightarrow> 's c3_world" where
  "requestTableRecordCount ops tableName w =
     (if \<not> c3_isReady ops w \<or> countQueryPending w then w
      else (let w = w\<lparr>countQueryPending := True, countQueryStep := CqAwaitingTableConfig,
                      pendingCountTableName := tableName, c3_readBuffer := []\<rparr>
            in (c3_send ops encodeDataTableConfigRequest w)\<lparr>countQueryTimer := Some kHandshakeTimeoutMs\<rparr>))"

definition onCountQueryTimeout :: "'s c3_world \<Rightarrow> 's c3_world" where
  "onCountQueryTimeout w =
     c3_emit (TableRecordCountFailed (pendingCountTableName w) ''table record count query timed out'')
       (w\<lparr>countQueryPending := False, countQueryStep := CqNone\<rparr>)"

definition requestRealtimeLog :: "'s socket_ops \<Rightarrow> 's c3_world \<Rightarrow> 's c3_world" where
  "requestRealtimeLog ops w =
     (if \<not> c3_isReady ops w \<or> rtLogQueryPending w then w
      else (let w = w\<lparr>rtLogQueryPending := True, c3_readBuffer := []\<rparr>;
                w = (if rtlogCommand w = kCommandRtlogBinary
                     then c3_send ops encodeRtlogBinaryRequest
                            (w\<lparr>rtLogQueryStep := AwaitingBinaryReply\<rparr>)
                     else c3_send ops encodeRtlogKeyValueRequest
                            (w\<lparr>rtLogQueryStep := AwaitingKeyValueReply\<rparr>))
            in w\<lparr>rtLogQueryTimer := Some kHandshakeTimeoutMs\<rparr>))"

definition onRtLogQueryTimeout :: "'s c3_world \<Rightarrow> 's c3_world" where
  "onRtLogQueryTimeout w =
     c3_emit (RealtimeLogFailed ''RT log query timed out'')
       (w\<lparr>rtLogQueryPending := False, rtLogQueryStep := RqNone\<rparr>)"

definition sendControlRequest ::
  "'s socket_ops \<Rightarrow> ControlOperation \<Rightarrow> u8 \<Rightarrow> u8 \<Rightarrow> u8 \<Rightarrow> 's c3_world \<Rightarrow> 's c3_world" where
  "sendControlRequest ops operation param1 param2 param3 w =
     (if \<not> c3_isReady ops w \<or> controlPending w then w
      else (let w = w\<lparr>controlPending := True, c3_readBuffer := []\<rparr>
            in (c3_send ops (encodeControlRequest operation param1 param2 param3) w)
                 \<lparr>controlTimer := Some kHandshakeTimeoutMs\<rparr>))"

definition controlDoorOutput :: "'s socket_ops \<Rightarrow> u8 \<Rightarrow> u8 \<Rightarrow> 's c3_world \<Rightarrow> 's c3_world" where
  "controlDoorOutput ops doorNumber durationSeconds =
     sendControlRequest ops Output doorNumber (controlOutputAddressValue Door) durationSeconds"

definition controlDoorOutputNormalOpen :: "'s socket_ops \<Rightarrow> u8 \<Rightarrow> 's c3_world \<Rightarrow> 's c3_world" where
  "controlDoorOutputNormalOpen ops doorNumber =
     sendControlRequest ops Output doorNumber (controlOutputAddressValue Door) 255"

definition controlDoorClose :: "'s socket_ops \<Rightarrow> u8 \<Rightarrow> 's c3_world \<Rightarrow> 's c3_world" where
  "controlDoorClose ops doorNumber =
     sendControlRequest ops Output doorNumber (controlOutputAddressValue Door) 0"

definition controlAuxOutput :: "'s socket_ops \<Rightarrow> u8 \<Rightarrow> u8 \<Rightarrow> 's c3_world \<Rightarrow> 's c3_world" where
  "controlAuxOutput ops auxNumber durationSeconds =
     sendControlRequest ops Output auxNumber (controlOutputAddressValue Aux) durationSeconds"

definition cancelAlarm :: "'s socket_ops \<Rightarrow> 's c3_world \<Rightarrow> 's c3_world" where
  "cancelAlarm ops = sendControlRequest ops CancelAlarm 0 0 0"

definition restartDevice :: "'s socket_ops \<Rightarrow> 's c3_world \<Rightarrow> 's c3_world" where
  "restartDevice ops = sendControlRequest ops RestartDevice 0 0 0"

definition setNormalOpenState :: "'s socket_ops \<Rightarrow> u8 \<Rightarrow> bool \<Rightarrow> 's c3_world \<Rightarrow> 's c3_world" where
  "setNormalOpenState ops doorNumber enabled =
     sendControlRequest ops EnableDisableNormalOpen doorNumber (if enabled then 1 else 0) 0"

definition onControlTimeout :: "'s c3_world \<Rightarrow> 's c3_world" where
  "onControlTimeout w =
     c3_emit (ControlFailed ''CONTROL command timed out'') (w\<lparr>controlPending := False\<rparr>)"

definition requestDeviceParams :: "'s socket_ops \<Rightarrow> string list \<Rightarrow> 's c3_world \<Rightarrow> 's c3_world" where
  "requestDeviceParams ops parameterNames w =
     (if \<not> c3_isReady ops w \<or> getParamPending w then w
      else (let w = w\<lparr>getParamPending := True, c3_readBuffer := []\<rparr>
            in (c3_send ops (encodeGetParamRequest parameterNames) w)
                 \<lparr>getParamTimer := Some kHandshakeTimeoutMs\<rparr>))"

definition onGetParamTimeout :: "'s c3_world \<Rightarrow> 's c3_world" where
  "onGetParamTimeout w =
     c3_emit (DeviceParamsFailed ''GETPARAM request timed out'') (w\<lparr>getParamPending := False\<rparr>)"

definition setDeviceParams :: "'s socket_ops \<Rightarrow> (string \<times> string) list \<Rightarrow> 's c3_world \<Rightarrow> 's c3_world" where
  "setDeviceParams ops entries w =
     (if \<not> c3_isReady ops w \<or> setParamPending w then w
      else (let w = w\<lparr>setParamPending := True, c3_readBuffer := []\<rparr>
            in (c3_send ops (encodeSetParamRequest entries) w)
                 \<lparr>setParamTimer := Some kHandshakeTimeoutMs\<rparr>))"

definition onSetParamTimeout :: "'s c3_world \<Rightarrow> 's c3_world" where
  "onSetParamTimeout w =
     c3_emit (SetParamsFailed ''SETPARAM request timed out'') (w\<lparr>setParamPending := False\<rparr>)"

section \<open>Reading replies\<close>

text \<open>
  The handshake branch. In the source the emission of sessionEstablished or sessionFailed precedes
  the report to the connection state; so it does here.
\<close>

definition c3_handshakeRead :: "'s socket_ops \<Rightarrow> 's c3 \<Rightarrow> 's c3 option" where
  "c3_handshakeRead ops m =
     (let w = c3_appendAll ops (world m);
          buf = c3_readBuffer w
      in case handshakeStep w of
           AwaitingSessionReply \<Rightarrow> do {
             response \<leftarrow> decodeConnectSessionResponse buf;
             if csr_status response = C3Incomplete then Some (m\<lparr>world := w\<rparr>)
             else (let w = w\<lparr>c3_readBuffer := []\<rparr>
                   in if csr_status response = C3Ok then
                        (let w = w\<lparr>handshakeTimer := None, connectAttemptPending := False,
                                   c3_sessionId := csr_sessionId response, sessionLess := False,
                                   requestNr := kPreSessionRequestNr + 1, c3_error := []\<rparr>;
                             w = c3_emit (SessionEstablished (c3_sessionId w)) w
                         in Some (reportPendingConnectResult True (m\<lparr>world := w\<rparr>)))
                      else if csr_status response = C3Rejected then
                        (let w = w\<lparr>handshakeStep := AwaitingSessionLessReply\<rparr>;
                             w = w\<lparr>c3_socket := sock_write ops
                                    (encodeConnectSessionLessRequest \<lparr>csl_password = []\<rparr>)
                                    (c3_socket w)\<rparr>
                         in Some (m\<lparr>world := w\<lparr>handshakeTimer := Some kHandshakeTimeoutMs\<rparr>\<rparr>))
                      else
                        (let w = w\<lparr>handshakeTimer := None, connectAttemptPending := False,
                                   c3_error := ''C3 session handshake malformed reply''\<rparr>;
                             w = c3_emit (SessionFailed (c3_error w)) w
                         in Some (reportPendingConnectResult False (m\<lparr>world := w\<rparr>)))) }
         | AwaitingSessionLessReply \<Rightarrow> do {
             response \<leftarrow> decodeGenericReply buf;
             if gr_status response = C3Incomplete then Some (m\<lparr>world := w\<rparr>)
             else (let w = w\<lparr>handshakeTimer := None, c3_readBuffer := [],
                             connectAttemptPending := False\<rparr>
                   in if gr_status response = C3Ok then
                        (let w = w\<lparr>c3_sessionId := 0, sessionLess := True, c3_error := []\<rparr>;
                             w = c3_emit (SessionEstablished 0) w
                         in Some (reportPendingConnectResult True (m\<lparr>world := w\<rparr>)))
                      else
                        (let w = w\<lparr>c3_error := ''C3 session-less handshake rejected or malformed''\<rparr>;
                             w = c3_emit (SessionFailed (c3_error w)) w
                         in Some (reportPendingConnectResult False (m\<lparr>world := w\<rparr>)))) }
         | HsNone \<Rightarrow> Some (m\<lparr>world := w\<rparr>))"

text \<open>
  The branches of the data query. A pair (True, w) stands for an early return, (False, w) for
  reaching the end of the branch, after which the source goes on to the next branch.
\<close>

definition tableNamed :: "string \<Rightarrow> DataTableConfig list \<Rightarrow> DataTableConfig option" where
  "tableNamed name tables = find (\<lambda>t. tbl_name t = name) tables"

definition quoted :: "string \<Rightarrow> string" where
  "quoted name = CHR 0x27 # name @ [CHR 0x27]"

definition dq_fail :: "string \<Rightarrow> 's c3_world \<Rightarrow> 's c3_world" where
  "dq_fail msg w =
     c3_emit (TableDataFailed (pendingTableName w) msg)
       (w\<lparr>dataQueryPending := False, dataQueryStep := DqNone\<rparr>)"

definition dq_onTableConfig ::
  "'s socket_ops \<Rightarrow> (string \<Rightarrow> int) \<Rightarrow> 's c3_world \<Rightarrow> (bool \<times> 's c3_world) option" where
  "dq_onTableConfig ops toInt w = do {
     response \<leftarrow> decodeDataTableConfigResponse toInt (c3_readBuffer w) (\<not> sessionLess w);
     if dtc_status response = C3Incomplete then Some (True, w)
     else (let w = w\<lparr>dataQueryTimer := None, c3_readBuffer := []\<rparr>
           in if dtc_status response \<noteq> C3Ok
              then Some (True, dq_fail ''failed to fetch DATATABLE_CFG'' w)
              else (case tableNamed (pendingTableName w) (dtc_tables response) of
                      None \<Rightarrow> Some (True, dq_fail (''panel has no '' @ quoted (pendingTableName w)
                                                    @ '' table'') w)
                    | Some table \<Rightarrow>
                        (let w = w\<lparr>tableConfig := table, dataQueryStep := AwaitingTableData\<rparr>;
                             w = c3_send ops (encodeGetDataRequest (tbl_index table)
                                                (map fld_index (tbl_fields table))) w
                         in Some (False, w\<lparr>dataQueryTimer := Some kHandshakeTimeoutMs\<rparr>)))) }"

definition dq_onTableData :: "'s socket_ops \<Rightarrow> 's c3_world \<Rightarrow> (bool \<times> 's c3_world) option" where
  "dq_onTableData ops w = do {
     response \<leftarrow> decodeGetDataResponse (c3_readBuffer w) (tbl_index (tableConfig w))
                   (tbl_fields (tableConfig w)) (\<not> sessionLess w);
     if gd_status response = GdIncomplete then Some (True, w)
     else (let w = w\<lparr>dataQueryTimer := None, c3_readBuffer := []\<rparr>
           in if gd_status response = GdBigDataPending then
                (if pd_compressed (gd_prepareInfo response)
                 then Some (True, dq_fail (quoted (pendingTableName w)
                                     @ '' table reply is compressed -- not supported'') w)
                 else (let w = w\<lparr>bigDataBuffer := [],
                                 bigDataExpectedLength := pd_dataLength (gd_prepareInfo response),
                                 dataQueryStep := AwaitingBigDataChunk\<rparr>;
                           w = c3_send ops (encodeTransmitDataRequest 0) w
                       in Some (True, w\<lparr>dataQueryTimer := Some kHandshakeTimeoutMs\<rparr>)))
              else if gd_status response = GdOk
              then Some (False, c3_emit (TableDataReceived (pendingTableName w) (gd_records response))
                                  (w\<lparr>dataQueryPending := False, dataQueryStep := DqNone\<rparr>))
              else Some (False, dq_fail (''failed to fetch '' @ quoted (pendingTableName w)
                                         @ '' table GETDATA'') w)) }"

definition dq_onBigDataChunk :: "'s socket_ops \<Rightarrow> 's c3_world \<Rightarrow> (bool \<times> 's c3_world) option" where
  "dq_onBigDataChunk ops w = do {
     response \<leftarrow> decodeTransmitDataResponse (c3_readBuffer w) (\<not> sessionLess w);
     if td_status response = C3Incomplete then Some (True, w)
     else (let w = w\<lparr>dataQueryTimer := None, c3_readBuffer := []\<rparr>
           in if td_status response \<noteq> C3Ok \<or> td_offset response \<noteq> of_nat (length (bigDataBuffer w))
              then Some (True, dq_fail (''failed to fetch '' @ quoted (pendingTableName w)
                                        @ '' table big-data chunk'') w)
              else (let w = w\<lparr>bigDataBuffer := bigDataBuffer w @ td_chunkData response\<rparr>
                    in if (of_nat (length (bigDataBuffer w)) :: u32) < bigDataExpectedLength w
                       then (let w = w\<lparr>dataQueryStep := AwaitingBigDataChunk\<rparr>;
                                 w = c3_send ops (encodeTransmitDataRequest
                                                    (of_nat (length (bigDataBuffer w)))) w
                             in Some (True, w\<lparr>dataQueryTimer := Some kHandshakeTimeoutMs\<rparr>))
                       else (let w = w\<lparr>dataQueryStep := AwaitingFreeDataAck\<rparr>;
                                 w = c3_send ops encodeFreeDataRequest w
                             in Some (False, w\<lparr>dataQueryTimer := Some kHandshakeTimeoutMs\<rparr>)))) }"

definition dq_onFreeDataAck :: "'s c3_world \<Rightarrow> (bool \<times> 's c3_world) option" where
  "dq_onFreeDataAck w = do {
     response \<leftarrow> decodeGenericReply (c3_readBuffer w);
     if gr_status response = C3Incomplete then Some (True, w)
     else do {
       let w = w\<lparr>dataQueryTimer := None, c3_readBuffer := [], dataQueryPending := False,
                 dataQueryStep := DqNone\<rparr>;
       parsed \<leftarrow> parseGetDataPayload (bigDataBuffer w) (tbl_index (tableConfig w))
                   (tbl_fields (tableConfig w));
       let w = w\<lparr>bigDataBuffer := []\<rparr>;
       if gd_status parsed = GdOk
       then Some (False, c3_emit (TableDataReceived (pendingTableName w) (gd_records parsed)) w)
       else Some (False, c3_emit (TableDataFailed (pendingTableName w)
                           (''failed to parse assembled '' @ quoted (pendingTableName w)
                            @ '' table data'')) w) } }"

definition dataQueryRead ::
  "'s socket_ops \<Rightarrow> (string \<Rightarrow> int) \<Rightarrow> 's c3_world \<Rightarrow> (bool \<times> 's c3_world) option" where
  "dataQueryRead ops toInt w0 =
     (let w = c3_appendAll ops w0
      in case dataQueryStep w of
           DqAwaitingTableConfig \<Rightarrow> dq_onTableConfig ops toInt w
         | AwaitingTableData \<Rightarrow> dq_onTableData ops w
         | AwaitingBigDataChunk \<Rightarrow> dq_onBigDataChunk ops w
         | AwaitingFreeDataAck \<Rightarrow> dq_onFreeDataAck w
         | DqNone \<Rightarrow> Some (False, w))"

definition rtLogRead :: "'s socket_ops \<Rightarrow> 's c3_world \<Rightarrow> 's c3_world option" where
  "rtLogRead ops w0 =
     (let w = c3_appendAll ops w0
      in case rtLogQueryStep w of
           AwaitingBinaryReply \<Rightarrow> do {
             response \<leftarrow> decodeRtlogBinaryResponse (c3_readBuffer w) (\<not> sessionLess w);
             if rb_status response = RtIncomplete then Some w
             else (let w = w\<lparr>rtLogQueryTimer := None, c3_readBuffer := [],
                             rtLogQueryPending := False, rtLogQueryStep := RqNone\<rparr>
                   in if rb_status response = RtOk
                      then Some (c3_emit (RealtimeLogReceived (rb_records response)) w)
                      else if rb_status response = RtNotBinaryMode
                      then Some (c3_emit (RealtimeLogReceived [])
                                   (w\<lparr>rtlogCommand := kCommandRtlogKeyValue\<rparr>))
                      else Some (c3_emit (RealtimeLogFailed ''failed to fetch RT log (binary)'') w)) }
         | AwaitingKeyValueReply \<Rightarrow> do {
             response \<leftarrow> decodeRtlogKeyValueResponse (c3_readBuffer w) (\<not> sessionLess w);
             if rk_status response = C3Incomplete then Some w
             else (let w = w\<lparr>rtLogQueryTimer := None, c3_readBuffer := [],
                             rtLogQueryPending := False, rtLogQueryStep := RqNone\<rparr>
                   in if rk_status response = C3Ok
                      then Some (c3_emit (RealtimeLogKeyValueReceived (rk_records response)) w)
                      else Some (c3_emit (RealtimeLogFailed ''failed to fetch RT log (key/value)'') w)) }
         | RqNone \<Rightarrow> Some w)"

definition controlRead :: "'s socket_ops \<Rightarrow> 's c3_world \<Rightarrow> 's c3_world option" where
  "controlRead ops w0 = do {
     let w = c3_appendAll ops w0;
     response \<leftarrow> decodeGenericReply (c3_readBuffer w);
     if gr_status response = C3Incomplete then Some w
     else (let w = w\<lparr>controlTimer := None, c3_readBuffer := [], controlPending := False\<rparr>
           in if gr_status response = C3Ok then Some (c3_emit ControlAcknowledged w)
              else Some (c3_emit (ControlFailed ''CONTROL command failed'') w)) }"

definition getParamRead :: "'s socket_ops \<Rightarrow> 's c3_world \<Rightarrow> 's c3_world option" where
  "getParamRead ops w0 = do {
     let w = c3_appendAll ops w0;
     response \<leftarrow> decodeGetParamResponse (c3_readBuffer w) (\<not> sessionLess w);
     if gp_status response = C3Incomplete then Some w
     else (let w = w\<lparr>getParamTimer := None, c3_readBuffer := [], getParamPending := False\<rparr>
           in if gp_status response = C3Ok then Some (c3_emit (DeviceParamsReceived (gp_values response)) w)
              else Some (c3_emit (DeviceParamsFailed ''GETPARAM request failed'') w)) }"

definition setParamRead :: "'s socket_ops \<Rightarrow> 's c3_world \<Rightarrow> 's c3_world option" where
  "setParamRead ops w0 = do {
     let w = c3_appendAll ops w0;
     reply \<leftarrow> decodeGenericReply (c3_readBuffer w);
     if gr_status reply = C3Incomplete then Some w
     else (let w = w\<lparr>setParamTimer := None, c3_readBuffer := [], setParamPending := False\<rparr>
           in if gr_status reply = C3Ok then Some (c3_emit SetParamsAcknowledged w)
              else Some (c3_emit (SetParamsFailed ''SETPARAM request failed'') w)) }"

definition cq_fail :: "string \<Rightarrow> 's c3_world \<Rightarrow> 's c3_world" where
  "cq_fail msg w =
     c3_emit (TableRecordCountFailed (pendingCountTableName w) msg)
       (w\<lparr>countQueryPending := False, countQueryStep := CqNone\<rparr>)"

definition countQueryRead ::
  "'s socket_ops \<Rightarrow> (string \<Rightarrow> int) \<Rightarrow> 's c3_world \<Rightarrow> 's c3_world option" where
  "countQueryRead ops toInt w0 =
     (let w = c3_appendAll ops w0
      in case countQueryStep w of
           CqAwaitingTableConfig \<Rightarrow> do {
             response \<leftarrow> decodeDataTableConfigResponse toInt (c3_readBuffer w) (\<not> sessionLess w);
             if dtc_status response = C3Incomplete then Some w
             else (let w = w\<lparr>countQueryTimer := None, c3_readBuffer := []\<rparr>
                   in if dtc_status response \<noteq> C3Ok
                      then Some (cq_fail ''failed to fetch DATATABLE_CFG'' w)
                      else (case tableNamed (pendingCountTableName w) (dtc_tables response) of
                              None \<Rightarrow> Some (cq_fail (''panel has no ''
                                              @ quoted (pendingCountTableName w) @ '' table'') w)
                            | Some table \<Rightarrow>
                                (let w = w\<lparr>countTableIndex := tbl_index table,
                                           countQueryStep := AwaitingCount\<rparr>;
                                     w = c3_send ops (encodeGetDataCountRequest (countTableIndex w)) w
                                 in Some (w\<lparr>countQueryTimer := Some kHandshakeTimeoutMs\<rparr>)))) }
         | AwaitingCount \<Rightarrow> do {
             response \<leftarrow> decodeGetDataCountResponse (c3_readBuffer w) (\<not> sessionLess w);
             if gc_status response = C3Incomplete then Some w
             else (let w = w\<lparr>countQueryTimer := None, c3_readBuffer := []\<rparr>
                   in if gc_status response = C3Ok
                      then Some (c3_emit (TableRecordCountReceived (pendingCountTableName w)
                                            (gc_count response))
                                   (w\<lparr>countQueryPending := False, countQueryStep := CqNone\<rparr>))
                      else Some (cq_fail (''failed to fetch '' @ quoted (pendingCountTableName w)
                                          @ '' table GETDATACOUNT'') w)) }
         | CqNone \<Rightarrow> Some w)"

text \<open>The handler: the first pending branch in the source's order; the data query may fall through.\<close>

definition laterReads ::
  "'s socket_ops \<Rightarrow> (string \<Rightarrow> int) \<Rightarrow> 's c3_world \<Rightarrow> 's c3_world option" where
  "laterReads ops toInt w =
     (if rtLogQueryPending w then rtLogRead ops w
      else if controlPending w then controlRead ops w
      else if getParamPending w then getParamRead ops w
      else if setParamPending w then setParamRead ops w
      else if countQueryPending w then countQueryRead ops toInt w
      else Some w)"

definition queryRead ::
  "'s socket_ops \<Rightarrow> (string \<Rightarrow> int) \<Rightarrow> 's c3_world \<Rightarrow> 's c3_world option" where
  "queryRead ops toInt w =
     (if dataQueryPending w then do {
        (returned, w) \<leftarrow> dataQueryRead ops toInt w;
        if returned then Some w else laterReads ops toInt w }
      else laterReads ops toInt w)"

definition c3_onSocketReadyRead ::
  "'s socket_ops \<Rightarrow> (string \<Rightarrow> int) \<Rightarrow> 's c3 \<Rightarrow> 's c3 option" where
  "c3_onSocketReadyRead ops toInt m =
     (if connectAttemptPending (world m) then c3_handshakeRead ops m
      else do {
        w \<leftarrow> queryRead ops toInt (world m);
        Some (m\<lparr>world := w\<rparr>) })"

section \<open>Reading never fails\<close>

lemmas c3_dec_totals = dtc.dec_total gd.dec_total td.dec_total gc.dec_total rb.dec_total
  rk.dec_total gp.dec_total gr.dec_total csr.dec_total

lemma bind_total: "(\<exists>x. m = Some x) \<Longrightarrow> (\<And>x. \<exists>y. f x = Some y) \<Longrightarrow> \<exists>y. (m \<bind> f) = Some y"
  by auto

lemma c3_handshakeRead_total: "\<exists>m'. c3_handshakeRead ops m = Some m'"
  by (auto simp: c3_handshakeRead_def Let_def intro!: bind_total c3_dec_totals
      split: HandshakeStep.split)

lemma dataQueryRead_total: "\<exists>r. dataQueryRead ops toInt w = Some r"
  unfolding dataQueryRead_def dq_onTableConfig_def dq_onTableData_def dq_onBigDataChunk_def
    dq_onFreeDataAck_def Let_def
  by (auto simp del: split_paired_Ex intro!: bind_total c3_dec_totals parseGetDataPayload_total
      split: DataQueryStep.split option.split)

lemma laterReads_total: "\<exists>w'. laterReads ops toInt w = Some w'"
  unfolding laterReads_def rtLogRead_def controlRead_def getParamRead_def setParamRead_def
    countQueryRead_def Let_def
  by (auto intro!: bind_total c3_dec_totals split: RtLogQueryStep.split CountQueryStep.split option.split)

lemma queryRead_total: "\<exists>w'. queryRead ops toInt w = Some w'"
  unfolding queryRead_def
  by (auto simp del: split_paired_Ex intro!: bind_total dataQueryRead_total laterReads_total
      split: prod.split)

lemma c3_onSocketReadyRead_total: "\<exists>m'. c3_onSocketReadyRead ops toInt m = Some m'"
  unfolding c3_onSocketReadyRead_def
  by (auto intro!: bind_total queryRead_total c3_handshakeRead_total)

section \<open>Steps and invariant\<close>

text \<open>
  A query is pending exactly while its step says what it waits for, and a pending query has its
  timer armed.
\<close>

definition c3_inv :: "'s c3_world \<Rightarrow> bool" where
  "c3_inv w \<longleftrightarrow>
     (dataQueryPending w \<longleftrightarrow> dataQueryStep w \<noteq> DqNone)
   \<and> (dataQueryPending w \<longrightarrow> dataQueryTimer w \<noteq> None)
   \<and> (countQueryPending w \<longleftrightarrow> countQueryStep w \<noteq> CqNone)
   \<and> (countQueryPending w \<longrightarrow> countQueryTimer w \<noteq> None)
   \<and> (rtLogQueryPending w \<longleftrightarrow> rtLogQueryStep w \<noteq> RqNone)
   \<and> (rtLogQueryPending w \<longrightarrow> rtLogQueryTimer w \<noteq> None)
   \<and> (controlPending w \<longrightarrow> controlTimer w \<noteq> None)
   \<and> (getParamPending w \<longrightarrow> getParamTimer w \<noteq> None)
   \<and> (setParamPending w \<longrightarrow> setParamTimer w \<noteq> None)"

text \<open>
  Steps that concern the driver's members only: the owner's requests, and the timeouts of the
  queries (a single-shot timer is disarmed when it fires).
\<close>

inductive c3_world_step :: "'s socket_ops \<Rightarrow> 's c3_world \<Rightarrow> 's c3_world \<Rightarrow> bool" for ops where
  table_data: "c3_world_step ops w (requestTableData ops name w)"
| record_count: "c3_world_step ops w (requestTableRecordCount ops name w)"
| realtime_log: "c3_world_step ops w (requestRealtimeLog ops w)"
| door_output: "c3_world_step ops w (controlDoorOutput ops n d w)"
| door_normal_open: "c3_world_step ops w (controlDoorOutputNormalOpen ops n w)"
| door_close: "c3_world_step ops w (controlDoorClose ops n w)"
| aux_output: "c3_world_step ops w (controlAuxOutput ops n d w)"
| cancel_alarm: "c3_world_step ops w (cancelAlarm ops w)"
| restart_device: "c3_world_step ops w (restartDevice ops w)"
| normal_open_state: "c3_world_step ops w (setNormalOpenState ops n b w)"
| device_params: "c3_world_step ops w (requestDeviceParams ops names w)"
| set_params: "c3_world_step ops w (setDeviceParams ops entries w)"
| data_timeout: "dataQueryTimer w = Some t \<Longrightarrow>
    c3_world_step ops w (onDataQueryTimeout (w\<lparr>dataQueryTimer := None\<rparr>))"
| count_timeout: "countQueryTimer w = Some t \<Longrightarrow>
    c3_world_step ops w (onCountQueryTimeout (w\<lparr>countQueryTimer := None\<rparr>))"
| rtlog_timeout: "rtLogQueryTimer w = Some t \<Longrightarrow>
    c3_world_step ops w (onRtLogQueryTimeout (w\<lparr>rtLogQueryTimer := None\<rparr>))"
| control_timeout: "controlTimer w = Some t \<Longrightarrow>
    c3_world_step ops w (onControlTimeout (w\<lparr>controlTimer := None\<rparr>))"
| get_param_timeout: "getParamTimer w = Some t \<Longrightarrow>
    c3_world_step ops w (onGetParamTimeout (w\<lparr>getParamTimer := None\<rparr>))"
| set_param_timeout: "setParamTimer w = Some t \<Longrightarrow>
    c3_world_step ops w (onSetParamTimeout (w\<lparr>setParamTimer := None\<rparr>))"
| c3_socket_changes: "c3_world_step ops w (w\<lparr>c3_socket := sk\<rparr>)"

inductive c3_step :: "'s socket_ops \<Rightarrow> (string \<Rightarrow> int) \<Rightarrow> 's c3 \<Rightarrow> 's c3 \<Rightarrow> bool" for ops toInt where
  c3_member: "c3_world_step ops (world m) w \<Longrightarrow> c3_step ops toInt m (m\<lparr>world := w\<rparr>)"
| c3_connect: "c3_step ops toInt m (c3_connectToHost ops host port m)"
| c3_disconnect: "c3_step ops toInt m (c3_disconnectNow ops m)"
| c3_connected: "c3_step ops toInt m (c3_onSocketConnected ops m)"
| c3_socket_error: "c3_step ops toInt m (c3_onSocketError ops m)"
| c3_handshake_timeout: "handshakeTimer (world m) = Some t \<Longrightarrow>
    c3_step ops toInt m (c3_onHandshakeTimeout ops (m\<lparr>world := (world m)\<lparr>handshakeTimer := None\<rparr>\<rparr>))"
| c3_ready_read: "c3_onSocketReadyRead ops toInt m = Some m' \<Longrightarrow> c3_step ops toInt m m'"
| c3_heartbeat: "c3_step ops toInt m (cs_step m HeartbeatTick)"
| c3_reconnect: "c3_step ops toInt m (cs_step m ReconnectTick)"

inductive c3_reachable :: "'s socket_ops \<Rightarrow> (string \<Rightarrow> int) \<Rightarrow> 's c3 \<Rightarrow> bool" for ops toInt where
  c3_start: "c3_reachable ops toInt (newC3Connection sk)"
| c3_next: "c3_reachable ops toInt m \<Longrightarrow> c3_step ops toInt m m' \<Longrightarrow> c3_reachable ops toInt m'"

lemma c3_inv_frame [simp]:
  "c3_inv (c3_emit sig w) = c3_inv w"
  "c3_inv (w\<lparr>c3_socket := sk\<rparr>) = c3_inv w"
  "c3_inv (w\<lparr>c3_error := e\<rparr>) = c3_inv w"
  "c3_inv (w\<lparr>c3_readBuffer := b\<rparr>) = c3_inv w"
  "c3_inv (w\<lparr>handshakeTimer := t\<rparr>) = c3_inv w"
  "c3_inv (w\<lparr>connectAttemptPending := p\<rparr>) = c3_inv w"
  "c3_inv (w\<lparr>handshakeStep := h\<rparr>) = c3_inv w"
  "c3_inv (w\<lparr>c3_sessionId := s\<rparr>) = c3_inv w"
  "c3_inv (w\<lparr>sessionLess := l\<rparr>) = c3_inv w"
  "c3_inv (w\<lparr>requestNr := n\<rparr>) = c3_inv w"
  "c3_inv (w\<lparr>pendingTableName := x\<rparr>) = c3_inv w"
  "c3_inv (w\<lparr>bigDataBuffer := y\<rparr>) = c3_inv w"
  "c3_inv (w\<lparr>rtlogCommand := c\<rparr>) = c3_inv w"
  by (simp_all add: c3_inv_def c3_emit_def)

lemma c3_appendAll_inv [simp]: "c3_inv (c3_appendAll ops w) = c3_inv w"
  by (simp add: c3_appendAll_def split: prod.split)

lemma c3_send_inv [simp]: "c3_inv (c3_send ops e w) = c3_inv w"
  by (simp add: c3_send_def Let_def)

text \<open>A request or a reply step touches only the members of its own query.\<close>

lemma c3_send_members [simp]:
  "dataQueryPending (c3_send ops e w) = dataQueryPending w"
  "dataQueryStep (c3_send ops e w) = dataQueryStep w"
  "dataQueryTimer (c3_send ops e w) = dataQueryTimer w"
  "tableConfig (c3_send ops e w) = tableConfig w"
  "pendingTableName (c3_send ops e w) = pendingTableName w"
  "bigDataBuffer (c3_send ops e w) = bigDataBuffer w"
  "bigDataExpectedLength (c3_send ops e w) = bigDataExpectedLength w"
  "countQueryPending (c3_send ops e w) = countQueryPending w"
  "countQueryStep (c3_send ops e w) = countQueryStep w"
  "countQueryTimer (c3_send ops e w) = countQueryTimer w"
  "rtLogQueryPending (c3_send ops e w) = rtLogQueryPending w"
  "rtLogQueryStep (c3_send ops e w) = rtLogQueryStep w"
  "rtLogQueryTimer (c3_send ops e w) = rtLogQueryTimer w"
  "controlPending (c3_send ops e w) = controlPending w"
  "controlTimer (c3_send ops e w) = controlTimer w"
  "getParamPending (c3_send ops e w) = getParamPending w"
  "getParamTimer (c3_send ops e w) = getParamTimer w"
  "setParamPending (c3_send ops e w) = setParamPending w"
  "setParamTimer (c3_send ops e w) = setParamTimer w"
  "c3_readBuffer (c3_send ops e w) = c3_readBuffer w"
  "sessionLess (c3_send ops e w) = sessionLess w"
  "connectAttemptPending (c3_send ops e w) = connectAttemptPending w"
  "c3_emitted (c3_send ops e w) = c3_emitted w"
  by (simp_all add: c3_send_def Let_def)

lemma c3_requests_inv:
  "c3_inv w \<Longrightarrow> c3_inv (requestTableData ops name w)"
  "c3_inv w \<Longrightarrow> c3_inv (requestTableRecordCount ops name w)"
  "c3_inv w \<Longrightarrow> c3_inv (requestRealtimeLog ops w)"
  "c3_inv w \<Longrightarrow> c3_inv (sendControlRequest ops op p1 p2 p3 w)"
  "c3_inv w \<Longrightarrow> c3_inv (requestDeviceParams ops names w)"
  "c3_inv w \<Longrightarrow> c3_inv (setDeviceParams ops entries w)"
  by (simp_all add: c3_inv_def requestTableData_def requestTableRecordCount_def
      requestRealtimeLog_def sendControlRequest_def requestDeviceParams_def setDeviceParams_def Let_def)

lemmas control_defs = controlDoorOutput_def controlDoorOutputNormalOpen_def controlDoorClose_def
  controlAuxOutput_def cancelAlarm_def restartDevice_def setNormalOpenState_def

lemma c3_timeouts_inv:
  "c3_inv w \<Longrightarrow> c3_inv (onDataQueryTimeout (w\<lparr>dataQueryTimer := None\<rparr>))"
  "c3_inv w \<Longrightarrow> c3_inv (onCountQueryTimeout (w\<lparr>countQueryTimer := None\<rparr>))"
  "c3_inv w \<Longrightarrow> c3_inv (onRtLogQueryTimeout (w\<lparr>rtLogQueryTimer := None\<rparr>))"
  "c3_inv w \<Longrightarrow> c3_inv (onControlTimeout (w\<lparr>controlTimer := None\<rparr>))"
  "c3_inv w \<Longrightarrow> c3_inv (onGetParamTimeout (w\<lparr>getParamTimer := None\<rparr>))"
  "c3_inv w \<Longrightarrow> c3_inv (onSetParamTimeout (w\<lparr>setParamTimer := None\<rparr>))"
  by (simp_all add: c3_inv_def onDataQueryTimeout_def onCountQueryTimeout_def onRtLogQueryTimeout_def
      onControlTimeout_def onGetParamTimeout_def onSetParamTimeout_def c3_emit_def)

lemma c3_world_step_inv: "c3_world_step ops w w' \<Longrightarrow> c3_inv w \<Longrightarrow> c3_inv w'"
  by (induction rule: c3_world_step.induct)
    (simp_all only: control_defs c3_requests_inv c3_timeouts_inv c3_inv_frame)

text \<open>Replies.\<close>

lemma dq_steps_inv:
  "c3_inv w \<Longrightarrow> dataQueryPending w \<Longrightarrow> dq_onTableConfig ops toInt w = Some (b, w') \<Longrightarrow> c3_inv w'"
  "c3_inv w \<Longrightarrow> dataQueryPending w \<Longrightarrow> dq_onTableData ops w = Some (b, w') \<Longrightarrow> c3_inv w'"
  "c3_inv w \<Longrightarrow> dataQueryPending w \<Longrightarrow> dq_onBigDataChunk ops w = Some (b, w') \<Longrightarrow> c3_inv w'"
  "c3_inv w \<Longrightarrow> dq_onFreeDataAck w = Some (b, w') \<Longrightarrow> c3_inv w'"
proof -
  assume inv: "c3_inv w"
  then show "dq_onFreeDataAck w = Some (b, w') \<Longrightarrow> c3_inv w'"
    by (auto simp: dq_onFreeDataAck_def Option.bind_eq_Some_conv Let_def split: if_splits)
       (simp_all add: c3_inv_def)
  assume "dataQueryPending w"
  with inv show "dq_onTableConfig ops toInt w = Some (b, w') \<Longrightarrow> c3_inv w'"
    by (auto simp: dq_onTableConfig_def Option.bind_eq_Some_conv Let_def dq_fail_def
        split: if_splits option.splits)
       (simp_all add: c3_inv_def)
  from inv \<open>dataQueryPending w\<close> show "dq_onTableData ops w = Some (b, w') \<Longrightarrow> c3_inv w'"
    by (auto simp: dq_onTableData_def Option.bind_eq_Some_conv Let_def dq_fail_def split: if_splits)
       (simp_all add: c3_inv_def)
  from inv \<open>dataQueryPending w\<close> show "dq_onBigDataChunk ops w = Some (b, w') \<Longrightarrow> c3_inv w'"
    by (auto simp: dq_onBigDataChunk_def Option.bind_eq_Some_conv Let_def dq_fail_def
        split: if_splits)
       (simp_all add: c3_inv_def)
qed

lemma c3_appendAll_members [simp]:
  "dataQueryPending (c3_appendAll ops w) = dataQueryPending w"
  "dataQueryStep (c3_appendAll ops w) = dataQueryStep w"
  "dataQueryTimer (c3_appendAll ops w) = dataQueryTimer w"
  "tableConfig (c3_appendAll ops w) = tableConfig w"
  "pendingTableName (c3_appendAll ops w) = pendingTableName w"
  "bigDataBuffer (c3_appendAll ops w) = bigDataBuffer w"
  "bigDataExpectedLength (c3_appendAll ops w) = bigDataExpectedLength w"
  "countQueryPending (c3_appendAll ops w) = countQueryPending w"
  "countQueryStep (c3_appendAll ops w) = countQueryStep w"
  "countQueryTimer (c3_appendAll ops w) = countQueryTimer w"
  "countTableIndex (c3_appendAll ops w) = countTableIndex w"
  "pendingCountTableName (c3_appendAll ops w) = pendingCountTableName w"
  "rtLogQueryPending (c3_appendAll ops w) = rtLogQueryPending w"
  "rtLogQueryStep (c3_appendAll ops w) = rtLogQueryStep w"
  "rtLogQueryTimer (c3_appendAll ops w) = rtLogQueryTimer w"
  "controlPending (c3_appendAll ops w) = controlPending w"
  "controlTimer (c3_appendAll ops w) = controlTimer w"
  "getParamPending (c3_appendAll ops w) = getParamPending w"
  "getParamTimer (c3_appendAll ops w) = getParamTimer w"
  "setParamPending (c3_appendAll ops w) = setParamPending w"
  "setParamTimer (c3_appendAll ops w) = setParamTimer w"
  "rtlogCommand (c3_appendAll ops w) = rtlogCommand w"
  "c3_sessionId (c3_appendAll ops w) = c3_sessionId w"
  "sessionLess (c3_appendAll ops w) = sessionLess w"
  "requestNr (c3_appendAll ops w) = requestNr w"
  "connectAttemptPending (c3_appendAll ops w) = connectAttemptPending w"
  "handshakeStep (c3_appendAll ops w) = handshakeStep w"
  "handshakeTimer (c3_appendAll ops w) = handshakeTimer w"
  "c3_error (c3_appendAll ops w) = c3_error w"
  "c3_emitted (c3_appendAll ops w) = c3_emitted w"
  by (simp_all add: c3_appendAll_def split: prod.split)

lemma dataQueryRead_inv:
  assumes "c3_inv w" and "dataQueryPending w" and r: "dataQueryRead ops toInt w = Some (b, w')"
  shows "c3_inv w'"
proof -
  have i: "c3_inv (c3_appendAll ops w)" "dataQueryPending (c3_appendAll ops w)"
    using assms by simp_all
  show ?thesis
    using r unfolding dataQueryRead_def Let_def c3_appendAll_members
    by (cases "dataQueryStep w")
       (use i in \<open>auto dest: dq_steps_inv(1) [OF i] dq_steps_inv(2) [OF i] dq_steps_inv(3) [OF i]
          dq_steps_inv(4) [OF i(1)]\<close>)
qed

lemma laterReads_inv:
  "c3_inv w \<Longrightarrow> rtLogRead ops w = Some w' \<Longrightarrow> c3_inv w'"
  "c3_inv w \<Longrightarrow> controlRead ops w = Some w' \<Longrightarrow> c3_inv w'"
  "c3_inv w \<Longrightarrow> getParamRead ops w = Some w' \<Longrightarrow> c3_inv w'"
  "c3_inv w \<Longrightarrow> setParamRead ops w = Some w' \<Longrightarrow> c3_inv w'"
  "c3_inv w \<Longrightarrow> countQueryPending w \<Longrightarrow> countQueryRead ops toInt w = Some w' \<Longrightarrow> c3_inv w'"
proof -
  let ?w = "c3_appendAll ops w"
  assume "c3_inv w"
  then have i: "c3_inv ?w" by simp
  show "rtLogRead ops w = Some w' \<Longrightarrow> c3_inv w'"
    using i by (auto simp: rtLogRead_def Option.bind_eq_Some_conv Let_def
        split: if_splits RtLogQueryStep.splits)
      (simp_all add: c3_inv_def)
  show "controlRead ops w = Some w' \<Longrightarrow> c3_inv w'"
    using i by (auto simp: controlRead_def Option.bind_eq_Some_conv Let_def split: if_splits)
      (simp_all add: c3_inv_def)
  show "getParamRead ops w = Some w' \<Longrightarrow> c3_inv w'"
    using i by (auto simp: getParamRead_def Option.bind_eq_Some_conv Let_def split: if_splits)
      (simp_all add: c3_inv_def)
  show "setParamRead ops w = Some w' \<Longrightarrow> c3_inv w'"
    using i by (auto simp: setParamRead_def Option.bind_eq_Some_conv Let_def split: if_splits)
      (simp_all add: c3_inv_def)
  assume "countQueryPending w"
  then show "countQueryRead ops toInt w = Some w' \<Longrightarrow> c3_inv w'"
    using i by (auto simp: countQueryRead_def Option.bind_eq_Some_conv Let_def cq_fail_def
        split: if_splits CountQueryStep.splits option.splits)
      (simp_all add: c3_inv_def)
qed

lemma queryRead_inv:
  assumes "c3_inv w" and r: "queryRead ops toInt w = Some w'"
  shows "c3_inv w'"
proof -
  have later: "c3_inv v'" if v: "c3_inv v" and l: "laterReads ops toInt v = Some v'" for v v'
    using l unfolding laterReads_def
    by (auto split: if_splits dest: laterReads_inv(1-4) [OF v] laterReads_inv(5) [OF v])
       (use v in simp)
  show ?thesis
  proof (cases "dataQueryPending w")
    case True
    then obtain b v where d: "dataQueryRead ops toInt w = Some (b, v)"
      and e: "(if b then Some v else laterReads ops toInt v) = Some w'"
      using r by (auto simp: queryRead_def Option.bind_eq_Some_conv)
    have "c3_inv v" using assms(1) True d by (rule dataQueryRead_inv)
    then show ?thesis using e later by (cases b) auto
  next
    case False
    then show ?thesis using r later [OF assms(1)] by (simp add: queryRead_def)
  qed
qed

lemma c3_dropQueries_inv: "c3_inv (c3_dropQueries w)"
  by (simp add: c3_inv_def c3_dropQueries_def)

lemma cs_keepsD: "cs_keeps I s \<Longrightarrow> I (world s)"
  by (simp add: cs_keeps_def)

lemma c3_attemptFailed_keeps: "cs_keeps c3_inv m \<Longrightarrow> cs_keeps c3_inv (c3_attemptFailed m)"
  unfolding c3_attemptFailed_def Let_def
  by (auto intro!: reportPending_keeps cs_keeps_world dest: cs_keepsD)

lemma c3_handshakeRead_keeps:
  assumes k: "cs_keeps c3_inv m" and r: "c3_handshakeRead ops m = Some m'"
  shows "cs_keeps c3_inv m'"
proof -
  have i: "c3_inv (world m)" using k by (rule cs_keepsD)
  have rep: "cs_keeps c3_inv (reportPendingConnectResult b (m\<lparr>world := w\<rparr>))" if "c3_inv w" for b w
    using that k by (intro reportPending_keeps cs_keeps_world)
  have wrl: "cs_keeps c3_inv (m\<lparr>world := w\<rparr>)" if "c3_inv w" for w
    using that k by (intro cs_keeps_world)
  show ?thesis
    using r unfolding c3_handshakeRead_def Let_def c3_appendAll_members
    by (auto simp: Option.bind_eq_Some_conv rep wrl i split: HandshakeStep.splits if_splits)
qed

lemma c3_step_keeps:
  assumes "c3_step ops toInt m m'" and "cs_keeps c3_inv m"
  shows "cs_keeps c3_inv m'"
  using assms
proof (induction rule: c3_step.induct)
  case (c3_member m w)
  then show ?case using c3_world_step_inv by (intro cs_keeps_world) (auto simp: cs_keeps_def)
next
  case (c3_connect m host port)
  have h: "c3_inv (snd (c3_connectHandler ops host port w))" if "c3_inv w" for w
    using that by (simp add: c3_connectHandler_def Let_def c3_dropQueries_inv case_prod_beta)
  from c3_connect have "cs_keeps c3_inv (setHandlers (Some f) (Some p) (Some d) True
      (m\<lparr>world := (world m)\<lparr>c3_error := []\<rparr>\<rparr>))"
    if "\<And>w. c3_inv w \<Longrightarrow> c3_inv (snd (f w))" "\<And>w. c3_inv w \<Longrightarrow> c3_inv (snd (p w))"
      "\<And>w. c3_inv w \<Longrightarrow> c3_inv (d w)" for f p d
    using that by (simp add: cs_keeps_def setHandlers_def)
  from this [of "c3_connectHandler ops host port"] show ?case unfolding c3_connectToHost_def Let_def using h
    by (intro beginAutoConnect_keeps) simp
next
  case (c3_disconnect m)
  then show ?case unfolding c3_disconnectNow_def Let_def
    by (intro disconnectNow_keeps cs_keeps_world c3_dropQueries_inv)
next
  case (c3_connected m)
  then show ?case unfolding c3_onSocketConnected_def Let_def
    by (intro cs_keeps_world) (auto simp: cs_keeps_def)
next
  case (c3_socket_error m)
  then show ?case unfolding c3_onSocketError_def Let_def
    by (intro c3_attemptFailed_keeps cs_keeps_world c3_dropQueries_inv)
next
  case (c3_handshake_timeout m t)
  then show ?case unfolding c3_onHandshakeTimeout_def Let_def
    by (intro c3_attemptFailed_keeps cs_keeps_world) (auto simp: cs_keeps_def)
next
  case (c3_ready_read m m')
  then show ?case
    by (auto simp: c3_onSocketReadyRead_def Option.bind_eq_Some_conv split: if_splits
        intro!: cs_keeps_world intro: c3_handshakeRead_keeps)
      (auto simp: cs_keeps_def intro: queryRead_inv)
qed (simp_all only: ticks_keep)

lemma c3_reachable_inv: "c3_reachable ops toInt m \<Longrightarrow> c3_inv (world m)"
proof -
  have "cs_keeps c3_inv m" if "c3_reachable ops toInt m"
    using that
  proof (induction rule: c3_reachable.induct)
    case (c3_start sk)
    show ?case
      by (simp add: cs_keeps_def newC3Connection_def newConnectionState_def c3_onStateChanged_def)
         (simp add: c3_inv_def)
  qed (rule c3_step_keeps)
  then show "c3_reachable ops toInt m \<Longrightarrow> c3_inv (world m)" by (simp add: cs_keeps_def)
qed

section \<open>Big-data transfer\<close>

text \<open>
  A sequence of readyRead signals: before each, the outside world brings the socket into some
  state; what readAll returns there is what the panel has sent.
\<close>

fun c3_reads :: "'s socket_ops \<Rightarrow> (string \<Rightarrow> int) \<Rightarrow> 's c3 \<Rightarrow> 's list \<Rightarrow> 's c3 option" where
  "c3_reads ops toInt m [] = Some m"
| "c3_reads ops toInt m (sk # sks) = do {
     m' \<leftarrow> c3_onSocketReadyRead ops toInt (m\<lparr>world := (world m)\<lparr>c3_socket := sk\<rparr>\<rparr>);
     c3_reads ops toInt m' sks }"

definition c3_chunks :: "'s socket_ops \<Rightarrow> 's list \<Rightarrow> bytes list" where
  "c3_chunks ops sks = map (\<lambda>sk. fst (sock_readAll ops sk)) sks"

definition le32 :: "u32 \<Rightarrow> bytes" where
  "le32 v = [ucast v, ucast (drop_bit 8 v), ucast (drop_bit 16 v), ucast (drop_bit 24 v)]"

lemma read_le32: "readLittleEndian32 (le32 v @ c) 0 = Some v"
proof -
  have "ucast (ucast v :: u8) OR push_bit 8 (ucast (ucast (drop_bit 8 v) :: u8))
     OR push_bit 16 (ucast (ucast (drop_bit 16 v) :: u8))
     OR push_bit 24 (ucast (ucast (drop_bit 24 v) :: u8)) = v"
    by (rule bit_word_eqI) (auto simp: bit_simps, case_tac "24 \<le> n", simp_all)
  then show ?thesis by (simp add: readLittleEndian32_def byte_at_def le32_def)
qed

text \<open>The panel's reply to a TRANSMIT_DATA request, with its session block blk.\<close>

definition chunk_frame :: "u8 \<Rightarrow> u8 \<Rightarrow> bytes \<Rightarrow> nat \<Rightarrow> bytes \<Rightarrow> bytes" where
  "chunk_frame v cmd blk offset chunk = c3_wire v cmd (blk @ le32 (of_nat offset) @ chunk)"

fun chunk_frames :: "u8 \<Rightarrow> u8 \<Rightarrow> bytes \<Rightarrow> nat \<Rightarrow> bytes list \<Rightarrow> bytes list" where
  "chunk_frames v cmd blk offset [] = []"
| "chunk_frames v cmd blk offset (c # cs) =
     chunk_frame v cmd blk offset c # chunk_frames v cmd blk (offset + length c) cs"

text \<open>Only the data query is pending, and it waits in step st with an empty read buffer.\<close>

definition only_data :: "DataQueryStep \<Rightarrow> 's c3_world \<Rightarrow> bool" where
  "only_data st w \<longleftrightarrow> dataQueryPending w \<and> dataQueryStep w = st \<and> \<not> connectAttemptPending w
     \<and> c3_readBuffer w = [] \<and> \<not> rtLogQueryPending w \<and> \<not> controlPending w
     \<and> \<not> getParamPending w \<and> \<not> setParamPending w \<and> \<not> countQueryPending w"

definition data_context :: "'s c3_world \<Rightarrow> DataTableConfig \<times> string \<times> bool \<times> u32 \<times> c3_signal list" where
  "data_context w =
     (tableConfig w, pendingTableName w, sessionLess w, bigDataExpectedLength w, c3_emitted w)"

lemma data_context_send [simp]: "data_context (c3_send ops e w) = data_context w"
  by (simp add: data_context_def)

lemma only_data_read:
  assumes "only_data st w" and "sock_readAll ops sk = (frame, sk')"
  shows "c3_onSocketReadyRead ops toInt (m\<lparr>world := w\<lparr>c3_socket := sk\<rparr>\<rparr>) = do {
      (returned, w') \<leftarrow>
        (let v = w\<lparr>c3_socket := sk', c3_readBuffer := frame\<rparr>
         in case st of DqAwaitingTableConfig \<Rightarrow> dq_onTableConfig ops toInt v
            | AwaitingTableData \<Rightarrow> dq_onTableData ops v
            | AwaitingBigDataChunk \<Rightarrow> dq_onBigDataChunk ops v
            | AwaitingFreeDataAck \<Rightarrow> dq_onFreeDataAck v
            | DqNone \<Rightarrow> Some (False, v));
      if returned then Some (m\<lparr>world := w'\<rparr>)
      else laterReads ops toInt w' \<bind> (\<lambda>w''. Some (m\<lparr>world := w''\<rparr>)) }"
  using assms
  by (simp add: only_data_def c3_onSocketReadyRead_def queryRead_def dataQueryRead_def
      c3_appendAll_def Let_def)
     (rule Option.bind_cong, rule refl, simp split: prod.split)

lemma laterReads_idle:
  "\<not> rtLogQueryPending w \<Longrightarrow> \<not> controlPending w \<Longrightarrow> \<not> getParamPending w \<Longrightarrow> \<not> setParamPending w
   \<Longrightarrow> \<not> countQueryPending w \<Longrightarrow> laterReads ops toInt w = Some w"
  by (simp add: laterReads_def)

lemma transmit_reply:
  assumes "length blk = (if strip then 4 else 0)" and "length blk + 4 + length c < 65536"
    and "cmd \<noteq> kReplyError"
  shows "decodeTransmitDataResponse (chunk_frame v cmd blk o' c) strip
       = Some \<lparr>td_status = C3Ok, td_offset = of_nat o', td_chunkData = c\<rparr>"
proof -
  have l: "length (le32 (of_nat o')) = 4" by (simp add: le32_def)
  have "strip_session strip (blk @ le32 (of_nat o') @ c) = le32 (of_nat o') @ c"
    using assms(1) by (simp add: strip_session_def split: if_splits)
  then show ?thesis
    using td.c3_dec_wire [of "blk @ le32 (of_nat o') @ c" cmd v "[]" strip] assms l
    by (simp add: chunk_frame_def transmitOfFrame_def read_le32)
qed

text \<open>One chunk: it is appended, and either the next offset or the end of the transfer is requested.\<close>

lemma chunk_read:
  assumes od: "only_data AwaitingBigDataChunk w"
    and blk: "length blk = (if sessionLess w then 0 else 4)" "length blk + 4 + length c < 65536"
    and cmd: "cmd \<noteq> kReplyError"
    and rd: "fst (sock_readAll ops sk) = chunk_frame v cmd blk (length (bigDataBuffer w)) c"
  defines "again \<equiv> (of_nat (length (bigDataBuffer w @ c)) :: u32) < bigDataExpectedLength w"
  shows "\<exists>w'. c3_onSocketReadyRead ops toInt (m\<lparr>world := w\<lparr>c3_socket := sk\<rparr>\<rparr>) = Some (m\<lparr>world := w'\<rparr>)
       \<and> only_data (if again then AwaitingBigDataChunk else AwaitingFreeDataAck) w'
       \<and> bigDataBuffer w' = bigDataBuffer w @ c \<and> data_context w' = data_context w
       \<and> dataQueryTimer w' = Some kHandshakeTimeoutMs"
proof -
  obtain sk' where r: "sock_readAll ops sk = (chunk_frame v cmd blk (length (bigDataBuffer w)) c, sk')"
    using rd by (cases "sock_readAll ops sk") auto
  have d: "decodeTransmitDataResponse (chunk_frame v cmd blk (length (bigDataBuffer w)) c) (\<not> sessionLess w)
      = Some \<lparr>td_status = C3Ok, td_offset = of_nat (length (bigDataBuffer w)), td_chunkData = c\<rparr>"
    using blk cmd by (intro transmit_reply) simp_all
  let ?w = "w\<lparr>c3_socket := sk', dataQueryTimer := None, c3_readBuffer := [],
      bigDataBuffer := bigDataBuffer w @ c\<rparr>"
  let ?more = "(c3_send ops (encodeTransmitDataRequest (of_nat (length (bigDataBuffer w @ c))))
      (?w\<lparr>dataQueryStep := AwaitingBigDataChunk\<rparr>))\<lparr>dataQueryTimer := Some kHandshakeTimeoutMs\<rparr>"
  let ?all = "(c3_send ops encodeFreeDataRequest (?w\<lparr>dataQueryStep := AwaitingFreeDataAck\<rparr>))
      \<lparr>dataQueryTimer := Some kHandshakeTimeoutMs\<rparr>"
  let ?w' = "if again then ?more else ?all"
  have od': "only_data (if again then AwaitingBigDataChunk else AwaitingFreeDataAck) ?w'"
    using od by (simp add: only_data_def)
  have "c3_onSocketReadyRead ops toInt (m\<lparr>world := w\<lparr>c3_socket := sk\<rparr>\<rparr>) = Some (m\<lparr>world := ?w'\<rparr>)"
    unfolding only_data_read [OF od r]
    using d od by (auto simp: dq_onBigDataChunk_def Let_def again_def laterReads_def only_data_def)
  moreover have "bigDataBuffer ?w' = bigDataBuffer w @ c" "data_context ?w' = data_context w"
      "dataQueryTimer ?w' = Some kHandshakeTimeoutMs"
    by (simp_all add: data_context_def)
  ultimately show ?thesis using od' by blast
qed

text \<open>All chunks of a transfer, in order.\<close>

lemma chunks_read:
  assumes "only_data AwaitingBigDataChunk (world m)"
    and "length blk = (if sessionLess (world m) then 0 else 4)" and "cmd \<noteq> kReplyError"
    and "\<forall>c \<in> set cs. c \<noteq> [] \<and> length blk + 4 + length c < 65536" and "cs \<noteq> []"
    and "bigDataExpectedLength (world m) = of_nat (length (bigDataBuffer (world m) @ concat cs))"
    and "length (bigDataBuffer (world m) @ concat cs) < 2 ^ 32"
    and "c3_chunks ops sks = chunk_frames v cmd blk (length (bigDataBuffer (world m))) cs"
  shows "\<exists>w'. c3_reads ops toInt m sks = Some (m\<lparr>world := w'\<rparr>)
       \<and> only_data AwaitingFreeDataAck w' \<and> bigDataBuffer w' = bigDataBuffer (world m) @ concat cs
       \<and> data_context w' = data_context (world m)"
  using assms
proof (induction cs arbitrary: m sks)
  case (Cons c cs)
  let ?w = "world m"
  obtain sk sks' where sks: "sks = sk # sks'"
      and rd: "fst (sock_readAll ops sk) = chunk_frame v cmd blk (length (bigDataBuffer ?w)) c"
      and rest: "c3_chunks ops sks' = chunk_frames v cmd blk (length (bigDataBuffer ?w) + length c) cs"
    using Cons.prems(8) by (cases sks) (auto simp: c3_chunks_def)
  let ?again = "(of_nat (length (bigDataBuffer ?w @ c)) :: u32) < bigDataExpectedLength ?w"
  obtain w1 where step: "c3_onSocketReadyRead ops toInt (m\<lparr>world := ?w\<lparr>c3_socket := sk\<rparr>\<rparr>)
        = Some (m\<lparr>world := w1\<rparr>)"
      and od: "only_data (if ?again then AwaitingBigDataChunk else AwaitingFreeDataAck) w1"
      and w1: "bigDataBuffer w1 = bigDataBuffer ?w @ c" "data_context w1 = data_context ?w"
    using chunk_read [OF Cons.prems(1,2) _ Cons.prems(3) rd, of toInt m] Cons.prems(4) by auto
  have ctx: "sessionLess w1 = sessionLess ?w" "bigDataExpectedLength w1 = bigDataExpectedLength ?w"
    using w1(2) by (simp_all add: data_context_def)
  have again: "?again \<longleftrightarrow> cs \<noteq> []"
  proof -
    have "?again \<longleftrightarrow> length (bigDataBuffer ?w @ c) < length (bigDataBuffer ?w @ concat (c # cs))"
      using Cons.prems(6,7) by (simp add: word_less_nat_alt unat_of_nat flip: of_nat_add)
    also have "\<dots> \<longleftrightarrow> concat cs \<noteq> []" by simp
    also have "\<dots> \<longleftrightarrow> cs \<noteq> []" using Cons.prems(4) by (cases cs) auto
    finally show ?thesis .
  qed
  show ?case
  proof (cases "cs = []")
    case True
    then show ?thesis using step od w1 rest again by (auto simp: sks c3_chunks_def)
  next
    case False
    have "\<exists>w'. c3_reads ops toInt (m\<lparr>world := w1\<rparr>) sks' = Some ((m\<lparr>world := w1\<rparr>)\<lparr>world := w'\<rparr>)
       \<and> only_data AwaitingFreeDataAck w' \<and> bigDataBuffer w' = bigDataBuffer w1 @ concat cs
       \<and> data_context w' = data_context w1"
      using Cons.IH [of "m\<lparr>world := w1\<rparr>" sks'] Cons.prems od w1 ctx rest again False by simp
    then show ?thesis using step w1 by (auto simp: sks)
  qed
qed simp

lemma c3_reads_append:
  "c3_reads ops toInt m (xs @ ys) = c3_reads ops toInt m xs \<bind> (\<lambda>m'. c3_reads ops toInt m' ys)"
  by (induction xs arbitrary: m) (auto simp: Option.bind_assoc)

text \<open>The acknowledgement of FREE_DATA: the assembled buffer is parsed and reported.\<close>

lemma free_ack_read:
  assumes od: "only_data AwaitingFreeDataAck w"
    and rd: "fst (sock_readAll ops sk) = c3_wire v kReplyOk blk" and blk: "length blk < 65536"
    and p: "parseGetDataPayload (bigDataBuffer w) (tbl_index (tableConfig w)) (tbl_fields (tableConfig w))
              = Some r" and ok: "gd_status r = GdOk"
  shows "\<exists>w'. c3_onSocketReadyRead ops toInt (m\<lparr>world := w\<lparr>c3_socket := sk\<rparr>\<rparr>) = Some (m\<lparr>world := w'\<rparr>)
       \<and> \<not> dataQueryPending w' \<and> dataQueryTimer w' = None \<and> bigDataBuffer w' = []
       \<and> c3_emitted w' = c3_emitted w @ [TableDataReceived (pendingTableName w) (gd_records r)]"
proof -
  obtain sk' where r: "sock_readAll ops sk = (c3_wire v kReplyOk blk, sk')"
    using rd by (cases "sock_readAll ops sk") auto
  have "c3_scan (c3_wire v kReplyOk blk) = Some (Some (True, kReplyOk, length blk))"
    using c3_scan_wire [OF blk, of v kReplyOk "[]"] by simp
  then have d: "decodeGenericReply (c3_wire v kReplyOk blk) = Some \<lparr>gr_status = C3Ok\<rparr>"
    by (simp add: decodeGenericReply_scan kReplyOk_def kReplyError_def)
  let ?w' = "c3_emit (TableDataReceived (pendingTableName w) (gd_records r))
     (w\<lparr>c3_socket := sk', dataQueryTimer := None, c3_readBuffer := [], dataQueryPending := False,
        dataQueryStep := DqNone, bigDataBuffer := []\<rparr>)"
  have "c3_onSocketReadyRead ops toInt (m\<lparr>world := w\<lparr>c3_socket := sk\<rparr>\<rparr>) = Some (m\<lparr>world := ?w'\<rparr>)"
    unfolding only_data_read [OF od r]
    using d od p ok by (simp add: dq_onFreeDataAck_def Let_def laterReads_def only_data_def c3_emit_def)
  then show ?thesis by (intro exI [of _ ?w']) (simp add: c3_emit_def)
qed

section \<open>Properties\<close>

text \<open>
  C10. Reading replies is safe and no query hangs: the readyRead handler returns in every state,
  whatever the bytes, and in every reachable state each pending query (of a table, a count, the log,
  parameters, or a control command) has its timer armed; when
  that timer fires the query is over and its failure has been reported by exactly one signal.
\<close>

theorem c3_queries_end:
  assumes "c3_reachable ops toInt m" and "w = world m"
  shows "(\<exists>m'. c3_onSocketReadyRead ops toInt m = Some m')
   \<and> (dataQueryPending w \<longrightarrow> dataQueryTimer w \<noteq> None
        \<and> \<not> dataQueryPending (onDataQueryTimeout w)
        \<and> c3_emitted (onDataQueryTimeout w)
            = c3_emitted w @ [TableDataFailed (pendingTableName w) ''table data query timed out''])
   \<and> (countQueryPending w \<longrightarrow> countQueryTimer w \<noteq> None
        \<and> \<not> countQueryPending (onCountQueryTimeout w)
        \<and> c3_emitted (onCountQueryTimeout w) = c3_emitted w
            @ [TableRecordCountFailed (pendingCountTableName w) ''table record count query timed out''])
   \<and> (rtLogQueryPending w \<longrightarrow> rtLogQueryTimer w \<noteq> None
        \<and> \<not> rtLogQueryPending (onRtLogQueryTimeout w)
        \<and> c3_emitted (onRtLogQueryTimeout w)
            = c3_emitted w @ [RealtimeLogFailed ''RT log query timed out''])
   \<and> (controlPending w \<longrightarrow> controlTimer w \<noteq> None \<and> \<not> controlPending (onControlTimeout w)
        \<and> c3_emitted (onControlTimeout w) = c3_emitted w @ [ControlFailed ''CONTROL command timed out''])
   \<and> (getParamPending w \<longrightarrow> getParamTimer w \<noteq> None \<and> \<not> getParamPending (onGetParamTimeout w)
        \<and> c3_emitted (onGetParamTimeout w)
            = c3_emitted w @ [DeviceParamsFailed ''GETPARAM request timed out''])
   \<and> (setParamPending w \<longrightarrow> setParamTimer w \<noteq> None \<and> \<not> setParamPending (onSetParamTimeout w)
        \<and> c3_emitted (onSetParamTimeout w)
            = c3_emitted w @ [SetParamsFailed ''SETPARAM request timed out''])"
  using c3_reachable_inv [OF assms(1)] assms(2) c3_onSocketReadyRead_total
  by (simp add: c3_inv_def c3_emit_def onDataQueryTimeout_def onCountQueryTimeout_def
      onRtLogQueryTimeout_def onControlTimeout_def onGetParamTimeout_def onSetParamTimeout_def)

text \<open>
  C11. Large tables are reassembled correctly: when the panel answers the successive
  TRANSMIT_DATA requests with non-empty chunks at the requested offsets that together are a table
  reply of the announced length, and then acknowledges FREE_DATA, the driver reports the rows of
  that table, once, and the query is over.
\<close>

theorem c3_big_data_reassembly:
  assumes "only_data AwaitingBigDataChunk (world m)" and "bigDataBuffer (world m) = []"
    and "length blk = (if sessionLess (world m) then 0 else 4)" and "cmd \<noteq> kReplyError"
    and "\<forall>c \<in> set cs. c \<noteq> [] \<and> length blk + 4 + length c < 65536" and "cs \<noteq> []"
    and "concat cs = table_payload (tbl_index (tableConfig (world m))) idxs rows"
    and "bigDataExpectedLength (world m) = of_nat (length (concat cs))"
    and "length (concat cs) < 2 ^ 32"
    and "map (lookup_field (tbl_fields (tableConfig (world m)))) idxs = map Some fs"
    and "length idxs < 256" and "fs \<noteq> []" and "list_all (list_all2 cell_ok fs) rows"
    and "c3_chunks ops sks = chunk_frames v cmd blk 0 cs @ [c3_wire v kReplyOk blk]"
  shows "\<exists>m'. c3_reads ops toInt m sks = Some m'
       \<and> \<not> dataQueryPending (world m') \<and> bigDataBuffer (world m') = []
       \<and> c3_emitted (world m') = c3_emitted (world m)
           @ [TableDataReceived (pendingTableName (world m))
                (map (\<lambda>cells. row_map fs cells Map.empty) rows)]"
proof -
  obtain s1 sk where sks: "sks = s1 @ [sk]" "c3_chunks ops s1 = chunk_frames v cmd blk 0 cs"
      "fst (sock_readAll ops sk) = c3_wire v kReplyOk blk"
    using assms(14) unfolding c3_chunks_def by (cases sks rule: rev_cases) auto
  obtain w1 where w1: "c3_reads ops toInt m s1 = Some (m\<lparr>world := w1\<rparr>)"
      "only_data AwaitingFreeDataAck w1" "bigDataBuffer w1 = concat cs"
      "data_context w1 = data_context (world m)"
    using chunks_read [OF assms(1,3,4,5,6), of ops s1 v toInt] assms(2,8,9) sks(2) by auto
  have ctx: "tableConfig w1 = tableConfig (world m)" "pendingTableName w1 = pendingTableName (world m)"
      "c3_emitted w1 = c3_emitted (world m)"
    using w1(4) by (simp_all add: data_context_def)
  let ?r = "\<lparr>gd_status = GdOk, gd_records = map (\<lambda>cells. row_map fs cells Map.empty) rows,
               gd_prepareInfo = noPrepareInfo\<rparr>"
  have p: "parseGetDataPayload (bigDataBuffer w1) (tbl_index (tableConfig w1)) (tbl_fields (tableConfig w1))
      = Some ?r"
    unfolding w1(3) ctx assms(7) by (rule parseGetDataPayload_table [OF assms(10-13)])
  have "length blk < 65536" using assms(3) by (simp split: if_splits)
  from free_ack_read [OF w1(2) sks(3) this p, of toInt m] obtain w' where
      "c3_onSocketReadyRead ops toInt (m\<lparr>world := w1\<lparr>c3_socket := sk\<rparr>\<rparr>) = Some (m\<lparr>world := w'\<rparr>)"
      "\<not> dataQueryPending w'" "bigDataBuffer w' = []"
      "c3_emitted w' = c3_emitted w1 @ [TableDataReceived (pendingTableName w1) (gd_records ?r)]"
    by auto
  then show ?thesis
    unfolding sks(1) c3_reads_append w1(1) using ctx by simp
qed

text \<open>
  An empty chunk is not progress, but it is not a failure either: as long as the panel answers
  each TRANSMIT_DATA request with an empty chunk at the right offset, the driver asks for the same
  offset again and re-arms its timer, so the query stays pending however often this happens.
\<close>

theorem c3_empty_chunks_repeat:
  assumes "only_data AwaitingBigDataChunk (world m)"
    and "length blk = (if sessionLess (world m) then 0 else 4)" and "cmd \<noteq> kReplyError"
    and "(of_nat (length (bigDataBuffer (world m))) :: u32) < bigDataExpectedLength (world m)"
    and "c3_chunks ops sks = replicate n (chunk_frame v cmd blk (length (bigDataBuffer (world m))) [])"
  shows "\<exists>m'. c3_reads ops toInt m sks = Some m' \<and> only_data AwaitingBigDataChunk (world m')
       \<and> bigDataBuffer (world m') = bigDataBuffer (world m)
       \<and> c3_emitted (world m') = c3_emitted (world m)"
  using assms
proof (induction n arbitrary: m sks)
  case 0
  then show ?case by (simp add: c3_chunks_def)
next
  case (Suc n)
  let ?w = "world m"
  obtain sk sks' where sks: "sks = sk # sks'"
      and rd: "fst (sock_readAll ops sk) = chunk_frame v cmd blk (length (bigDataBuffer ?w)) []"
      and rest: "c3_chunks ops sks' = replicate n (chunk_frame v cmd blk (length (bigDataBuffer ?w)) [])"
    using Suc.prems(5) by (cases sks) (auto simp: c3_chunks_def)
  have b: "length blk + 4 + length [] < 65536" using Suc.prems(2) by (simp split: if_splits)
  obtain w1 where step: "c3_onSocketReadyRead ops toInt (m\<lparr>world := ?w\<lparr>c3_socket := sk\<rparr>\<rparr>)
        = Some (m\<lparr>world := w1\<rparr>)"
      and od: "only_data AwaitingBigDataChunk w1"
      and w1: "bigDataBuffer w1 = bigDataBuffer ?w" "data_context w1 = data_context ?w"
    using chunk_read [OF Suc.prems(1,2) b Suc.prems(3) rd, of toInt m] Suc.prems(4) by auto
  have ctx: "sessionLess w1 = sessionLess ?w" "bigDataExpectedLength w1 = bigDataExpectedLength ?w"
      "c3_emitted w1 = c3_emitted ?w"
    using w1(2) by (simp_all add: data_context_def)
  have "\<exists>m'. c3_reads ops toInt (m\<lparr>world := w1\<rparr>) sks' = Some m' \<and> only_data AwaitingBigDataChunk (world m')
       \<and> bigDataBuffer (world m') = bigDataBuffer w1 \<and> c3_emitted (world m') = c3_emitted w1"
    using Suc.IH [of "m\<lparr>world := w1\<rparr>" sks'] od w1 ctx rest Suc.prems by simp
  then show ?case using step w1 ctx by (auto simp: sks)
qed

section \<open>A concrete panel session\<close>

definition demo_sock :: "bytes \<Rightarrow> bool \<Rightarrow> log_socket" where
  "demo_sock incoming up = \<lparr>log_written = [], log_incoming = incoming, log_up = up\<rparr>"

definition with_sock :: "'s \<Rightarrow> 's c3 \<Rightarrow> 's c3" where
  "with_sock sk m = m\<lparr>world := (world m)\<lparr>c3_socket := sk\<rparr>\<rparr>"

definition demo_greeting :: "log_socket c3" where
  "demo_greeting = with_sock (demo_sock (c3_wire 1 kReplyOk [0x34, 0x12]) True)
     (c3_onSocketConnected log_ops
       (c3_connectToHost log_ops ''panel'' 4370 (newC3Connection (demo_sock [] True))))"

definition demo_session :: "log_socket c3" where
  "demo_session = the (c3_onSocketReadyRead log_ops (\<lambda>_. 0) demo_greeting)"

definition demo_query :: "log_socket c3" where
  "demo_query = demo_session\<lparr>world := requestTableData log_ops ''user'' (world demo_session)\<rparr>"

text \<open>The connection is lost, the reconnect loop reaches the panel again, a new handshake begins.\<close>

definition demo_again :: "log_socket c3" where
  "demo_again =
     c3_onSocketConnected log_ops (with_sock (demo_sock [] True)
       (cs_step (cs_step (with_sock (demo_sock [] False) demo_session) HeartbeatTick) ReconnectTick))"

lemma c3_reach_sock: "c3_reachable ops toInt m \<Longrightarrow> c3_reachable ops toInt (with_sock sk m)"
  unfolding with_sock_def
  by (rule c3_reachable.c3_next [OF _ c3_step.c3_member [OF c3_world_step.c3_socket_changes]])

lemma demo_session_read:
  "c3_onSocketReadyRead log_ops (\<lambda>_. 0) demo_greeting = Some demo_session"
  unfolding demo_session_def using c3_onSocketReadyRead_total [of log_ops "\<lambda>_. 0" demo_greeting] by auto

lemma demo_session_reachable: "c3_reachable log_ops (\<lambda>_. 0) demo_session"
  by (rule c3_reachable.c3_next [OF _ c3_step.c3_ready_read [OF demo_session_read]])
     (unfold demo_greeting_def, rule c3_reach_sock, rule c3_reachable.c3_next
        [OF c3_reachable.c3_next [OF c3_reachable.c3_start c3_step.c3_connect] c3_step.c3_connected])

lemma demo_reply:
  "decodeConnectSessionResponse (c3_wire 1 kReplyOk [0x34, 0x12])
     = Some \<lparr>csr_status = C3Ok, csr_sessionId = 0x1234\<rparr>"
proof -
  have "c3_scan (c3_wire 1 kReplyOk [0x34, 0x12]) = Some (Some (True, kReplyOk, 2))"
    using c3_scan_wire [of "[0x34, 0x12]" 1 kReplyOk "[]"] by simp
  moreover have "readLittleEndian16 (c3_wire 1 kReplyOk [0x34, 0x12]) 5 = Some 0x1234"
    by (simp add: readLittleEndian16_def byte_at_def c3_wire_def c3_body_def le16_def)
  ultimately show ?thesis
    by (simp add: decodeConnectSession_scan kReplyOk_def kReplyError_def)
qed

lemmas demo_c3_defs = demo_greeting_def with_sock_def demo_sock_def c3_onSocketReadyRead_def
  c3_handshakeRead_def c3_appendAll_def c3_connectToHost_def c3_onSocketConnected_def
  newC3Connection_def newConnectionState_def c3_onStateChanged_def c3_emit_def log_ops_def
  c3_connectHandler_def callConnect_def cs_op_defs cs_helper_defs Let_def

lemma demo_session_fields:
  "c3_sessionId (world demo_session) = 0x1234"
  "connectAttemptPending (world demo_session) = False"
  "dataQueryPending (world demo_session) = False"
  "sessionLess (world demo_session) = False"
  "log_up (c3_socket (world demo_session)) = True"
  "m_connected demo_session = True"
  by (simp_all add: demo_session_def demo_c3_defs demo_reply)

lemma demo_session_handlers:
  "m_connect demo_session = Some (\<lambda>w. ((False, True), w\<lparr>c3_error := [], c3_readBuffer := [],
     connectAttemptPending := True, c3_socket := c3_socket w\<rparr>))"
  "m_asyncResult demo_session"
  "m_disconnect demo_session = Some (\<lambda>w. w\<lparr>c3_socket := (c3_socket w)\<lparr>log_up := False\<rparr>,
     handshakeTimer := None\<rparr>)"
  "m_heartbeatTimer demo_session = Some 5000"
  "m_reconnecting demo_session = False"
  "onStateChanged demo_session = c3_onStateChanged"
  "onReconnectingChanged demo_session = (\<lambda>_ w. w)"
  "m_probe demo_session = Some (\<lambda>w. ((c3_sessionId w \<noteq> 0 \<or> sessionLess w)
     \<and> \<not> connectAttemptPending w \<and> log_up (c3_socket w), w))"
  by (simp_all add: demo_session_def demo_c3_defs demo_reply fun_eq_iff)

theorem c3_queries_end_witness:
  "dataQueryPending (world demo_query) \<and> dataQueryTimer (world demo_query) \<noteq> None"
proof -
  have r: "c3_reachable log_ops (\<lambda>_. 0) demo_query"
    unfolding demo_query_def
    by (rule c3_reachable.c3_next [OF demo_session_reachable
          c3_step.c3_member [OF c3_world_step.table_data]])
  have "dataQueryPending (world demo_query)"
    by (simp add: demo_query_def requestTableData_def c3_isReady_def demo_session_fields Let_def
        log_ops_def)
  then show ?thesis using c3_queries_end [OF r refl] by blast
qed

lemma demo_again_reachable: "c3_reachable log_ops (\<lambda>_. 0) demo_again"
  unfolding demo_again_def
  by (rule c3_reachable.c3_next [OF _ c3_step.c3_connected], rule c3_reach_sock,
      rule c3_reachable.c3_next [OF _ c3_step.c3_reconnect],
      rule c3_reachable.c3_next [OF _ c3_step.c3_heartbeat],
      rule c3_reach_sock, rule demo_session_reachable)

lemma demo_again_fields:
  "connectAttemptPending (world demo_again)" "handshakeStep (world demo_again) = AwaitingSessionReply"
  "c3_sessionId (world demo_again) = 0x1234" "log_up (c3_socket (world demo_again))"
  "dataQueryPending (world demo_again) = False"
  by (simp_all add: demo_again_def with_sock_def demo_sock_def demo_session_handlers
      demo_session_fields c3_onSocketConnected_def c3_onStateChanged_def c3_emit_def log_ops_def
      onHeartbeatTick_def onReconnectTick_def callConnect_def cs_helper_defs Let_def)

lemma demo_again_ready: "c3_isReady log_ops (world demo_again)"
  using demo_again_fields by (simp add: c3_isReady_def log_ops_def)

text \<open>The loss of the connection was announced.\<close>

lemma demo_again_announced:
  "c3_emitted (world demo_again) = c3_emitted (world demo_session) @ [C3ConnectionStateChanged False]"
  by (simp add: demo_again_def with_sock_def demo_sock_def demo_session_handlers
      demo_session_fields c3_onSocketConnected_def c3_onStateChanged_def c3_emit_def log_ops_def
      onHeartbeatTick_def onReconnectTick_def callConnect_def cs_helper_defs Let_def)

text \<open>
  A session outlives its connection: the driver reports itself ready in a reachable state in
  which a new handshake is still waiting for the panel's first reply, because the session id of the
  lost connection is never cleared. A request made then is sent before the new session exists.
\<close>

theorem c3_stale_session_ready:
  "\<exists>m. c3_reachable log_ops (\<lambda>_. 0) m \<and> connectAttemptPending (world m)
     \<and> handshakeStep (world m) = AwaitingSessionReply \<and> c3_isReady log_ops (world m)
     \<and> dataQueryPending (requestTableData log_ops ''user'' (world m))"
  using demo_again_reachable demo_again_fields demo_again_ready
  by (intro exI [of _ demo_again]) (simp add: requestTableData_def Let_def)

section \<open>Witnesses of the transfer\<close>

definition demo_table :: DataTableConfig where
  "demo_table = \<lparr>tbl_name = ''user'', tbl_index = 1,
     tbl_fields = [\<lparr>fld_name = ''Pin'', fld_type = CHR ''i'', fld_index = 2\<rparr>]\<rparr>"

definition demo_transfer :: "nat \<Rightarrow> log_socket c3" where
  "demo_transfer n = (newC3Connection (demo_sock [] True))\<lparr>world :=
     (world (newC3Connection (demo_sock [] True)))\<lparr>sessionLess := True, dataQueryPending := True,
       dataQueryStep := AwaitingBigDataChunk, dataQueryTimer := Some 3000, tableConfig := demo_table,
       pendingTableName := ''user'', bigDataExpectedLength := of_nat n\<rparr>\<rparr>"

lemma demo_transfer_fields:
  "only_data AwaitingBigDataChunk (world (demo_transfer n))"
  "bigDataBuffer (world (demo_transfer n)) = []" "sessionLess (world (demo_transfer n))"
  "tableConfig (world (demo_transfer n)) = demo_table"
  "bigDataExpectedLength (world (demo_transfer n)) = of_nat n"
  "pendingTableName (world (demo_transfer n)) = ''user''" "c3_emitted (world (demo_transfer n)) = []"
  by (simp_all add: demo_transfer_def only_data_def newC3Connection_def newConnectionState_def)

theorem c3_big_data_reassembly_witness:
  "\<exists>m'. c3_reads log_ops (\<lambda>_. 0) (demo_transfer 7)
          (map (\<lambda>d. demo_sock d True) (chunk_frames 1 kReplyOk [] 0 [[1, 1, 2, 1], [7, 1, 9]]
             @ [c3_wire 1 kReplyOk []])) = Some m'
      \<and> c3_emitted (world m') = [TableDataReceived ''user''
            [[''Pin'' \<mapsto> VLongLong 7], [''Pin'' \<mapsto> VLongLong 9]]]"
proof -
  let ?f = "\<lparr>fld_name = ''Pin'', fld_type = CHR ''i'', fld_index = 2\<rparr>"
  let ?sks = "map (\<lambda>d. demo_sock d True) (chunk_frames 1 kReplyOk [] 0 [[1, 1, 2, 1], [7, 1, 9]]
             @ [c3_wire 1 kReplyOk []])"
  have c: "c3_chunks log_ops ?sks
      = chunk_frames 1 kReplyOk [] 0 [[1, 1, 2, 1], [7, 1, 9]] @ [c3_wire 1 kReplyOk []]"
    by (simp add: c3_chunks_def log_ops_def demo_sock_def)
  have "\<exists>m'. c3_reads log_ops (\<lambda>_. 0) (demo_transfer 7) ?sks = Some m'
       \<and> \<not> dataQueryPending (world m') \<and> bigDataBuffer (world m') = []
       \<and> c3_emitted (world m') = c3_emitted (world (demo_transfer 7))
           @ [TableDataReceived (pendingTableName (world (demo_transfer 7)))
                (map (\<lambda>cells. row_map [?f] cells Map.empty) [[[7]], [[9]]])]"
    by (rule c3_big_data_reassembly [where blk = "[]" and cmd = kReplyOk and v = 1
          and cs = "[[1, 1, 2, 1], [7, 1, 9]]" and idxs = "[2]"])
       (simp_all only: c demo_transfer_fields,
        simp_all add: demo_table_def table_payload_def row_bytes_def cell_bytes_def cell_ok_def
          lookup_field_def kReplyOk_def kReplyError_def)
  then show ?thesis
    by (simp add: demo_transfer_fields row_map_def cell_value_def del: c3_reads.simps) blast
qed

theorem c3_empty_chunks_repeat_witness:
  "\<exists>m'. c3_reads log_ops (\<lambda>_. 0) (demo_transfer 7)
          (replicate 5 (demo_sock (chunk_frame 1 kReplyOk [] 0 []) True)) = Some m'
      \<and> dataQueryPending (world m')"
proof -
  have "c3_chunks log_ops (replicate 5 (demo_sock (chunk_frame 1 kReplyOk [] 0 []) True))
      = replicate 5 (chunk_frame 1 kReplyOk [] (length (bigDataBuffer (world (demo_transfer 7)))) [])"
    by (simp add: c3_chunks_def log_ops_def demo_sock_def demo_transfer_fields)
  then have "\<exists>m'. c3_reads log_ops (\<lambda>_. 0) (demo_transfer 7)
          (replicate 5 (demo_sock (chunk_frame 1 kReplyOk [] 0 []) True)) = Some m'
       \<and> only_data AwaitingBigDataChunk (world m')
       \<and> bigDataBuffer (world m') = bigDataBuffer (world (demo_transfer 7))
       \<and> c3_emitted (world m') = c3_emitted (world (demo_transfer 7))"
    by (rule c3_empty_chunks_repeat [rotated 4])
       (simp_all add: demo_transfer_fields kReplyOk_def kReplyError_def)
  then show ?thesis by (auto simp: only_data_def simp del: c3_reads.simps replicate.simps)
qed

end
