(* ===== verification/Mq_Connection.thy ===== *)
theory Mq_Connection
  imports Connection_State Tcp_Socket
begin

text \<open>
  The AMQP connection of src/features/mq/mq_buffer.cpp and mq_connection.\{h,cpp\}: the loop that feeds
  socket bytes to the protocol library, and the driver that owns the socket, the library's
  connection object and a ConnectionState.

  AMQP-CPP is outside the repository. Its connection object is a parameter: a record of the three
  operations the driver calls on it, each of which may call the driver's handler methods. Those
  calls are part of the result, as the sequence in which the library makes them.
\<close>

section \<open>Feeding a buffer\<close>

text \<open>
  MqBuffer::feed. The callable sees the whole buffer and answers how many bytes of it are done with;
  what it does besides is a change of the state 's. Removing more bytes than there are empties the
  buffer.
\<close>

function feedLoop :: "(bytes \<Rightarrow> 's \<Rightarrow> nat \<times> 's) \<Rightarrow> bytes \<Rightarrow> 's \<Rightarrow> bytes \<times> 's" where
  "feedLoop consume buffer s =
     (if buffer = [] then (buffer, s)
      else (let (consumed, s') = consume buffer s
            in if consumed = 0 then (buffer, s') else feedLoop consume (drop consumed buffer) s'))"
  by pat_completeness auto
termination
  by (relation "measure (\<lambda>(c, b, s). length b)") auto

declare feedLoop.simps [simp del]

definition feed :: "(bytes \<Rightarrow> 's \<Rightarrow> nat \<times> 's) \<Rightarrow> bytes \<Rightarrow> bytes \<Rightarrow> 's \<Rightarrow> bytes \<times> 's" where
  "feed consume buffer chunk s = feedLoop consume (buffer @ chunk) s"

section \<open>The driver\<close>

datatype amqp_event =
    OnData bytes | OnReady | OnError string | OnClosed | OnNegotiate u16

record 'a amqp_ops =
  amqp_new :: "string \<Rightarrow> string \<Rightarrow> string \<Rightarrow> amqp_event list \<times> 'a"
  amqp_parse :: "bytes \<Rightarrow> 'a \<Rightarrow> nat \<times> amqp_event list \<times> 'a"
  amqp_heartbeat :: "'a \<Rightarrow> amqp_event list \<times> 'a"

text \<open>
  The members of MqConnection; announced is the sequence of values its own signal connectionStateChanged has sent, and owner is
  whatever this signal reaches.
\<close>

record ('s, 'a, 'v) mq_world =
  mq_socket :: 's
  mq_heartbeatTimer :: "int option"
  mq_inputBuffer :: bytes
  mq_connection :: "'a option"
  mq_host :: string
  mq_vhost :: string
  mq_user :: string
  mq_password :: string
  mq_error :: string
  mq_port :: u16
  mq_ready :: bool
  mq_connectAttemptPending :: bool
  mq_announced :: "bool list"
  mq_owner :: 'v

type_synonym ('s, 'a, 'v) mq = "('s, 'a, 'v) mq_world connection_state"

definition newMqConnection :: "(bool \<Rightarrow> 'v \<Rightarrow> 'v) \<Rightarrow> 's \<Rightarrow> 'v \<Rightarrow> ('s, 'a, 'v) mq" where
  "newMqConnection slot sk v =
     newConnectionState (\<lambda>b w. w\<lparr>mq_announced := mq_announced w @ [b], mq_owner := slot b (mq_owner w)\<rparr>) (\<lambda>_ w. w)
       \<lparr>mq_socket = sk, mq_heartbeatTimer = None, mq_inputBuffer = [], mq_connection = None,
        mq_host = [], mq_vhost = [], mq_user = [], mq_password = [], mq_error = [], mq_port = 0,
        mq_ready = False, mq_connectAttemptPending = False, mq_announced = [], mq_owner = v\<rparr>"

subsection \<open>Handler methods called by the library\<close>

definition mq_onData :: "'s socket_ops \<Rightarrow> bytes \<Rightarrow> ('s, 'a, 'v) mq \<Rightarrow> ('s, 'a, 'v) mq" where
  "mq_onData ops buffer m =
     m\<lparr>world := (world m)\<lparr>mq_socket := sock_write ops buffer (mq_socket (world m))\<rparr>\<rparr>"

definition mq_onReady :: "('s, 'a, 'v) mq \<Rightarrow> ('s, 'a, 'v) mq" where
  "mq_onReady m =
     reportPendingConnectResult True
       (m\<lparr>world := (world m)\<lparr>mq_ready := True, mq_error := [], mq_connectAttemptPending := False\<rparr>\<rparr>)"

text \<open>What onError and the socket's error slot share: a pending attempt has failed.\<close>

definition mq_attemptFailed :: "('s, 'a, 'v) mq \<Rightarrow> ('s, 'a, 'v) mq" where
  "mq_attemptFailed m =
     (if mq_connectAttemptPending (world m)
      then reportPendingConnectResult False
             (m\<lparr>world := (world m)\<lparr>mq_connectAttemptPending := False\<rparr>\<rparr>)
      else m)"

definition mq_onError :: "string \<Rightarrow> ('s, 'a, 'v) mq \<Rightarrow> ('s, 'a, 'v) mq" where
  "mq_onError message m =
     mq_attemptFailed
       (m\<lparr>world := (world m)\<lparr>mq_ready := False, mq_heartbeatTimer := None, mq_error := message\<rparr>\<rparr>)"

definition mq_onClosed :: "'s socket_ops \<Rightarrow> ('s, 'a, 'v) mq \<Rightarrow> ('s, 'a, 'v) mq" where
  "mq_onClosed ops m =
     m\<lparr>world := (world m)\<lparr>mq_ready := False, mq_heartbeatTimer := None,
                          mq_socket := sock_disconnectFromHost ops (mq_socket (world m))\<rparr>\<rparr>"

definition mq_onNegotiate :: "u16 \<Rightarrow> ('s, 'a, 'v) mq \<Rightarrow> ('s, 'a, 'v) mq" where
  "mq_onNegotiate interval m =
     m\<lparr>world := (world m)\<lparr>mq_heartbeatTimer :=
         (if interval = 0 then None else Some (int (unat interval) * 500))\<rparr>\<rparr>"

fun mq_handle :: "'s socket_ops \<Rightarrow> amqp_event \<Rightarrow> ('s, 'a, 'v) mq \<Rightarrow> ('s, 'a, 'v) mq" where
  "mq_handle ops (OnData b) m = mq_onData ops b m"
| "mq_handle ops OnReady m = mq_onReady m"
| "mq_handle ops (OnError e) m = mq_onError e m"
| "mq_handle ops OnClosed m = mq_onClosed ops m"
| "mq_handle ops (OnNegotiate i) m = mq_onNegotiate i m"

subsection \<open>Slots and operations\<close>

definition mq_onHeartbeatTimer :: "'s socket_ops \<Rightarrow> 'a amqp_ops \<Rightarrow> ('s, 'a, 'v) mq \<Rightarrow> ('s, 'a, 'v) mq" where
  "mq_onHeartbeatTimer ops aops m =
     (case mq_connection (world m) of
        None \<Rightarrow> m
      | Some a \<Rightarrow>
          (let (evs, a') = amqp_heartbeat aops a
           in fold (mq_handle ops) evs (m\<lparr>world := (world m)\<lparr>mq_connection := Some a'\<rparr>\<rparr>)))"

definition mq_onSocketConnected :: "'s socket_ops \<Rightarrow> 'a amqp_ops \<Rightarrow> ('s, 'a, 'v) mq \<Rightarrow> ('s, 'a, 'v) mq" where
  "mq_onSocketConnected ops aops m0 =
     (let w = world m0;
          (evs, a) = amqp_new aops (mq_user w) (mq_password w) (mq_vhost w);
          m = fold (mq_handle ops) evs m0
      in m\<lparr>world := (world m)\<lparr>mq_connection := Some a\<rparr>\<rparr>)"

definition mq_onSocketError :: "'s socket_ops \<Rightarrow> ('s, 'a, 'v) mq \<Rightarrow> ('s, 'a, 'v) mq" where
  "mq_onSocketError ops m =
     mq_attemptFailed
       (m\<lparr>world := (world m)\<lparr>mq_error := sock_errorString ops (mq_socket (world m)),
                            mq_ready := False, mq_heartbeatTimer := None\<rparr>\<rparr>)"

text \<open>
  The three callables connectToHost installs. When the socket signals an error from within its connectToHost, the slot of that
  signal runs before the connect callable returns: the attempt is no longer pending, and the failure is reported.
\<close>

definition mq_connectHandler :: "'s socket_ops \<Rightarrow> ('s, 'a, 'v) mq_world connect_fn" where
  "mq_connectHandler ops w0 =
     (let w = w0\<lparr>mq_error := [], mq_connectAttemptPending := True\<rparr>;
          (failed, sk) = sock_connectToHost ops (mq_host w) (mq_port w) (mq_socket w);
          w = w\<lparr>mq_socket := sk\<rparr>
      in if failed
         then ((True, True), w\<lparr>mq_error := sock_errorString ops sk, mq_ready := False, mq_heartbeatTimer := None,
                               mq_connectAttemptPending := False\<rparr>)
         else ((False, True), w))"

definition mq_probeHandler :: "'s socket_ops \<Rightarrow> ('s, 'a, 'v) mq_world \<Rightarrow> bool \<times> ('s, 'a, 'v) mq_world" where
  "mq_probeHandler ops w = (sock_isConnected ops (mq_socket w), w)"

definition mq_disconnectHandler :: "'s socket_ops \<Rightarrow> ('s, 'a, 'v) mq_world \<Rightarrow> ('s, 'a, 'v) mq_world" where
  "mq_disconnectHandler ops w =
     w\<lparr>mq_connectAttemptPending := False, mq_socket := sock_abort ops (mq_socket w)\<rparr>"

definition mq_connectToHost ::
  "'s socket_ops \<Rightarrow> string \<Rightarrow> u16 \<Rightarrow> string \<Rightarrow> string \<Rightarrow> string \<Rightarrow> ('s, 'a, 'v) mq \<Rightarrow> ('s, 'a, 'v) mq" where
  "mq_connectToHost ops host port vhost user password m0 =
     (let m = m0\<lparr>world := (world m0)\<lparr>mq_heartbeatTimer := None, mq_connection := None,
                    mq_inputBuffer := [], mq_ready := False, mq_error := [], mq_host := host,
                    mq_port := port, mq_vhost := vhost, mq_user := user, mq_password := password\<rparr>\<rparr>;
          m = setHandlers (Some (mq_connectHandler ops)) (Some (mq_probeHandler ops))
                (Some (mq_disconnectHandler ops)) True m
      in beginAutoConnect m)"

definition mq_isReady :: "('s, 'a, 'v) mq \<Rightarrow> bool" where
  "mq_isReady m = m_connected m"

text \<open>The callable of readSocket: parse what there is, unless there is no connection object.\<close>

definition mq_consume :: "'s socket_ops \<Rightarrow> 'a amqp_ops \<Rightarrow> bytes \<Rightarrow> ('s, 'a, 'v) mq \<Rightarrow> nat \<times> ('s, 'a, 'v) mq" where
  "mq_consume ops aops d m =
     (case mq_connection (world m) of
        None \<Rightarrow> (0, m)
      | Some a \<Rightarrow>
          (let (n, evs, a') = amqp_parse aops d a
           in (n, fold (mq_handle ops) evs (m\<lparr>world := (world m)\<lparr>mq_connection := Some a'\<rparr>\<rparr>))))"

definition mq_readSocket :: "'s socket_ops \<Rightarrow> 'a amqp_ops \<Rightarrow> ('s, 'a, 'v) mq \<Rightarrow> ('s, 'a, 'v) mq" where
  "mq_readSocket ops aops m0 =
     (let (chunk, sk) = sock_readAll ops (mq_socket (world m0));
          m = m0\<lparr>world := (world m0)\<lparr>mq_socket := sk\<rparr>\<rparr>;
          (rest, m) = feed (mq_consume ops aops) (mq_inputBuffer (world m)) chunk m
      in m\<lparr>world := (world m)\<lparr>mq_inputBuffer := rest\<rparr>\<rparr>)"

section \<open>Runs\<close>

text \<open>What happens to the driver besides the attempts to connect.\<close>

inductive mq_event :: "'s socket_ops \<Rightarrow> 'a amqp_ops \<Rightarrow> ('s, 'a, 'v) mq \<Rightarrow> ('s, 'a, 'v) mq \<Rightarrow> bool"
  for ops aops where
  mq_connected: "mq_event ops aops m (mq_onSocketConnected ops aops m)"
| mq_socket_error: "mq_event ops aops m (mq_onSocketError ops m)"
| mq_ready_read: "mq_event ops aops m (mq_readSocket ops aops m)"
| mq_beat: "mq_heartbeatTimer (world m) = Some t \<Longrightarrow> mq_event ops aops m (mq_onHeartbeatTimer ops aops m)"
| mq_probe: "mq_event ops aops m (cs_step m HeartbeatTick)"
| mq_environment: "mq_event ops aops m (m\<lparr>world := (world m)\<lparr>mq_socket := sk, mq_owner := v\<rparr>\<rparr>)"

inductive mq_step :: "'s socket_ops \<Rightarrow> 'a amqp_ops \<Rightarrow> ('s, 'a, 'v) mq \<Rightarrow> ('s, 'a, 'v) mq \<Rightarrow> bool"
  for ops aops where
  mq_connect: "mq_step ops aops m (mq_connectToHost ops host port vhost user password m)"
| mq_reconnect: "mq_step ops aops m (cs_step m ReconnectTick)"
| mq_other: "mq_event ops aops m m' \<Longrightarrow> mq_step ops aops m m'"

inductive mq_reachable :: "'s socket_ops \<Rightarrow> 'a amqp_ops \<Rightarrow> (bool \<Rightarrow> 'v \<Rightarrow> 'v) \<Rightarrow> ('s, 'a, 'v) mq \<Rightarrow> bool"
  for ops aops slot where
  mq_start: "mq_reachable ops aops slot (newMqConnection slot sk v)"
| mq_next: "mq_reachable ops aops slot m \<Longrightarrow> mq_step ops aops m m' \<Longrightarrow> mq_reachable ops aops slot m'"

text \<open>
  Runs in which no attempt is refused at once: at none of the calls of QTcpSocket::connectToHost that are made, by the owner's
  connectToHost or by the reconnect loop after it has aborted the socket, does the socket signal an error from within.
\<close>

inductive mq_calm_reachable :: "'s socket_ops \<Rightarrow> 'a amqp_ops \<Rightarrow> (bool \<Rightarrow> 'v \<Rightarrow> 'v) \<Rightarrow> ('s, 'a, 'v) mq \<Rightarrow> bool"
  for ops aops slot where
  calm_start: "mq_calm_reachable ops aops slot (newMqConnection slot sk v)"
| calm_connect: "mq_calm_reachable ops aops slot m \<Longrightarrow>
    \<not> fst (sock_connectToHost ops host port (mq_socket (world m))) \<Longrightarrow>
    mq_calm_reachable ops aops slot (mq_connectToHost ops host port vhost user password m)"
| calm_reconnect: "mq_calm_reachable ops aops slot m \<Longrightarrow>
    \<not> fst (sock_connectToHost ops (mq_host (world m)) (mq_port (world m)) (sock_abort ops (mq_socket (world m)))) \<Longrightarrow>
    mq_calm_reachable ops aops slot (cs_step m ReconnectTick)"
| calm_other: "mq_calm_reachable ops aops slot m \<Longrightarrow> mq_event ops aops m m' \<Longrightarrow> mq_calm_reachable ops aops slot m'"

section \<open>Fragmentation of the byte stream\<close>

text \<open>
  A parser of frames: when a complete frame is in front it is recognised, whatever follows it, and
  it has at least one byte. A callable parses by frames when it handles one or more of the complete
  frames in front of the buffer, and does nothing when there is none.
\<close>

definition frame_parser :: "(bytes \<Rightarrow> 's \<Rightarrow> (nat \<times> 's) option) \<Rightarrow> bool" where
  "frame_parser frame \<longleftrightarrow>
     (\<forall>b s n s'. frame b s = Some (n, s') \<longrightarrow> 0 < n \<and> n \<le> length b \<and> (\<forall>e. frame (b @ e) s = Some (n, s')))"

inductive many_frames :: "(bytes \<Rightarrow> 's \<Rightarrow> (nat \<times> 's) option) \<Rightarrow> bytes \<Rightarrow> 's \<Rightarrow> nat \<Rightarrow> 's \<Rightarrow> bool"
  for frame where
  one_frame: "frame b s = Some (n, s') \<Longrightarrow> many_frames frame b s n s'"
| more_frames: "frame b s = Some (n, s') \<Longrightarrow> many_frames frame (drop n b) s' k s''
    \<Longrightarrow> many_frames frame b s (n + k) s''"

definition parses_by_frames ::
  "(bytes \<Rightarrow> 's \<Rightarrow> (nat \<times> 's) option) \<Rightarrow> (bytes \<Rightarrow> 's \<Rightarrow> nat \<times> 's) \<Rightarrow> bool" where
  "parses_by_frames frame consume \<longleftrightarrow>
     (\<forall>b s. if frame b s = None then consume b s = (0, s)
            else many_frames frame b s (fst (consume b s)) (snd (consume b s)))"

text \<open>One frame at a time.\<close>

definition single :: "(bytes \<Rightarrow> 's \<Rightarrow> (nat \<times> 's) option) \<Rightarrow> bytes \<Rightarrow> 's \<Rightarrow> nat \<times> 's" where
  "single frame b s = (case frame b s of None \<Rightarrow> (0, s) | Some r \<Rightarrow> r)"

text \<open>Feeding the chunks of a stream as they arrive.\<close>

fun feedChunks :: "(bytes \<Rightarrow> 's \<Rightarrow> nat \<times> 's) \<Rightarrow> bytes \<Rightarrow> 's \<Rightarrow> bytes list \<Rightarrow> bytes \<times> 's" where
  "feedChunks consume buffer s [] = (buffer, s)"
| "feedChunks consume buffer s (c # cs) =
     (let (buffer', s') = feed consume buffer c s in feedChunks consume buffer' s' cs)"

lemma frame_nil: "frame_parser frame \<Longrightarrow> frame [] s = None"
  by (cases "frame [] s") (auto simp: frame_parser_def, fastforce)

lemma feedLoop_single:
  assumes "frame_parser frame"
  shows "feedLoop (single frame) b s =
     (case frame b s of None \<Rightarrow> (b, s) | Some (n, s') \<Rightarrow> feedLoop (single frame) (drop n b) s')"
  using frame_nil [OF assms, of s] assms
  by (subst feedLoop.simps) (auto simp: single_def frame_parser_def split: option.splits)

lemma many_frames_single:
  assumes "frame_parser frame" and "many_frames frame b s n s'"
  shows "0 < n \<and> feedLoop (single frame) b s = feedLoop (single frame) (drop n b) s'"
  using assms(2)
proof induction
  case (one_frame b s n s')
  then show ?case using assms(1) by (subst feedLoop_single [OF assms(1)]) (auto simp: frame_parser_def)
next
  case (more_frames b s n s' k s'')
  then show ?case
    by (subst feedLoop_single [OF assms(1)]) (auto simp: add.commute)
qed

lemma feedLoop_by_frames:
  assumes "frame_parser frame" and "parses_by_frames frame consume"
  shows "feedLoop consume b s = feedLoop (single frame) b s"
proof (induction "length b" arbitrary: b s rule: less_induct)
  case less
  show ?case
  proof (cases "frame b s")
    case None
    then have "consume b s = (0, s)" using assms(2) by (simp add: parses_by_frames_def)
    then show ?thesis using None by (subst feedLoop.simps, subst feedLoop_single [OF assms(1)]) simp
  next
    case (Some r)
    obtain n s' where c: "consume b s = (n, s')" by fastforce
    have "many_frames frame b s n s'"
      using assms(2) Some c by (auto simp: parses_by_frames_def dest!: spec [of _ b] spec [of _ s])
    then have n: "0 < n" "feedLoop (single frame) b s = feedLoop (single frame) (drop n b) s'"
      using many_frames_single [OF assms(1)] by blast+
    have b: "b \<noteq> []" using Some frame_nil [OF assms(1), of s] by auto
    have "feedLoop consume b s = feedLoop consume (drop n b) s'"
      using c n(1) b by (subst feedLoop.simps) simp
    also have "\<dots> = feedLoop (single frame) (drop n b) s'" using n(1) b by (intro less) simp
    finally show ?thesis using n(2) by simp
  qed
qed

lemma feedLoop_append:
  assumes "frame_parser frame"
  shows "feedLoop (single frame) (b @ e) s =
     (let (r, s') = feedLoop (single frame) b s in feedLoop (single frame) (r @ e) s')"
proof (induction "length b" arbitrary: b s rule: less_induct)
  case less
  show ?case
  proof (cases "frame b s")
    case None
    then show ?thesis by (subst (2) feedLoop_single [OF assms]) simp
  next
    case (Some r)
    then obtain n s' where f: "frame b s = Some (n, s')" by (cases r) auto
    then have n: "0 < n" "n \<le> length b" "frame (b @ e) s = Some (n, s')"
      using assms by (auto simp: frame_parser_def)
    have "feedLoop (single frame) (b @ e) s = feedLoop (single frame) (drop n b @ e) s'"
      using n by (subst feedLoop_single [OF assms]) simp
    also have "\<dots> = (let (r, s'') = feedLoop (single frame) (drop n b) s' in feedLoop (single frame) (r @ e) s'')"
      using n by (intro less) simp
    also have "feedLoop (single frame) (drop n b) s' = feedLoop (single frame) b s"
      using f by (subst (2) feedLoop_single [OF assms]) simp
    finally show ?thesis .
  qed
qed

lemma feedLoop_stuck:
  assumes "frame_parser frame" and "feedLoop (single frame) b s = (r, s')"
  shows "feedLoop (single frame) r s' = (r, s')"
  using feedLoop_append [OF assms(1), of b "[]" s] assms(2) by simp

lemma feedChunks_by_frames:
  assumes "frame_parser frame" and "parses_by_frames frame consume"
    and "feedLoop (single frame) b s = (b, s)"
  shows "feedChunks consume b s cs = feedLoop (single frame) (b @ concat cs) s"
  using assms(3)
proof (induction cs arbitrary: b s)
  case Nil
  then show ?case by simp
next
  case (Cons c cs)
  obtain r s' where r: "feedLoop (single frame) (b @ c) s = (r, s')" by fastforce
  have "feedChunks consume b s (c # cs) = feedLoop (single frame) (r @ concat cs) s'"
    using Cons.IH [OF feedLoop_stuck [OF assms(1) r]] r
    by (simp add: feed_def feedLoop_by_frames [OF assms(1,2)])
  also have "\<dots> = feedLoop (single frame) ((b @ c) @ concat cs) s"
    using feedLoop_append [OF assms(1), of "b @ c" "concat cs" s] r by simp
  finally show ?case by simp
qed

section \<open>The driver's invariant\<close>

text \<open>
  An attempt is pending exactly while the connection state waits for its result. Once a host has
  been given, the driver is connected, or an attempt is in flight, or the next one is scheduled.
\<close>

definition mq_own :: "'s socket_ops \<Rightarrow> ('s, 'a, 'v) mq \<Rightarrow> bool" where
  "mq_own ops m \<longleftrightarrow>
     mq_connectAttemptPending (world m) = m_awaitingAsyncResult m
   \<and> (\<forall>b w. mq_connectAttemptPending (onStateChanged m b w) = mq_connectAttemptPending w)
   \<and> (\<forall>b w. mq_inputBuffer (onStateChanged m b w) = mq_inputBuffer w)
   \<and> (\<forall>b w. onReconnectingChanged m b w = w)
   \<and> (if m_connect m = None then \<not> m_awaitingAsyncResult m \<and> \<not> m_connected m \<and> m_heartbeatTimer m = None
        \<and> m_reconnectTimer m = None
      else m_connect m = Some (mq_connectHandler ops) \<and> m_probe m = Some (mq_probeHandler ops)
        \<and> m_disconnect m = Some (mq_disconnectHandler ops) \<and> m_asyncResult m
        \<and> (m_awaitingAsyncResult m \<longrightarrow> m_asyncAutoRetryOnFailure m)
        \<and> (m_connected m \<or> m_awaitingAsyncResult m \<or> m_reconnectTimer m \<noteq> None))"

definition mq_inv :: "'s socket_ops \<Rightarrow> ('s, 'a, 'v) mq \<Rightarrow> bool" where
  "mq_inv ops m \<longleftrightarrow> cs_loop_ok m \<and> mq_own ops m"

lemma mq_inv_world:
  "mq_connectAttemptPending w = mq_connectAttemptPending (world m) \<Longrightarrow>
     mq_inv ops (m\<lparr>world := w\<rparr>) = mq_inv ops m"
  by (simp add: mq_inv_def mq_own_def cs_loop_ok_def)

lemma mq_report_own:
  assumes "mq_own ops m"
  shows "mq_own ops (reportPendingConnectResult b (m\<lparr>world := (world m)\<lparr>mq_connectAttemptPending := False\<rparr>\<rparr>))"
proof (cases "m_awaitingAsyncResult m")
  case False
  then show ?thesis using assms
    by (cases "m_connect m") (simp_all add: mq_own_def reportPendingConnectResult_def)
next
  case True
  have h: "m_connect m = Some (mq_connectHandler ops)" "m_probe m = Some (mq_probeHandler ops)"
      "m_disconnect m = Some (mq_disconnectHandler ops)" "m_asyncResult m" "m_asyncAutoRetryOnFailure m"
    using assms True by (simp_all add: mq_own_def split: if_splits)
  have slot: "mq_connectAttemptPending (onStateChanged m b w) = mq_connectAttemptPending w"
      "mq_inputBuffer (onStateChanged m b w) = mq_inputBuffer w" "onReconnectingChanged m b w = w" for b w
    using assms by (simp_all add: mq_own_def)
  show ?thesis
  proof (cases b)
    case True
    then show ?thesis using h slot \<open>m_awaitingAsyncResult m\<close>
      by (cases "m_reconnecting m"; cases "m_connected m"; cases "m_heartbeatIntervalMs m > 0")
         (simp_all add: mq_own_def reportPendingConnectResult_def cs_helper_defs Let_def)
  next
    case False
    then show ?thesis using h slot \<open>m_awaitingAsyncResult m\<close>
      by (cases "m_reconnecting m"; cases "m_connected m")
         (simp_all add: mq_own_def reportPendingConnectResult_def cs_helper_defs Let_def)
  qed
qed

lemma mq_report_inv:
  "mq_inv ops m \<Longrightarrow>
     mq_inv ops (reportPendingConnectResult b (m\<lparr>world := (world m)\<lparr>mq_connectAttemptPending := False\<rparr>\<rparr>))"
  unfolding mq_inv_def by (auto intro: mq_report_own reportPending_loop_ok world_loop_ok)

lemma mq_attemptFailed_inv: "mq_inv ops m \<Longrightarrow> mq_inv ops (mq_attemptFailed m)"
  by (simp add: mq_attemptFailed_def mq_report_inv)

lemma mq_handle_inv: "mq_inv ops m \<Longrightarrow> mq_inv ops (mq_handle ops e m)"
proof (induction ops e m rule: mq_handle.induct)
  case (2 ops m)
  let ?m = "m\<lparr>world := (world m)\<lparr>mq_ready := True, mq_error := []\<rparr>\<rparr>"
  have "mq_inv ops ?m" using 2 by (simp add: mq_inv_world)
  from mq_report_inv [OF this, of True] show ?case by (simp add: mq_onReady_def)
next
  case (3 ops e m)
  then show ?case by (simp add: mq_onError_def mq_attemptFailed_inv mq_inv_world)
qed (simp_all add: mq_onData_def mq_onClosed_def mq_onNegotiate_def mq_inv_world)

lemma mq_handles_inv: "mq_inv ops m \<Longrightarrow> mq_inv ops (fold (mq_handle ops) evs m)"
  by (induction evs arbitrary: m) (auto intro: mq_handle_inv)

lemma mq_consume_inv: "mq_inv ops m \<Longrightarrow> mq_inv ops (snd (mq_consume ops aops d m))"
  by (auto simp: mq_consume_def mq_inv_world split: option.splits prod.splits intro!: mq_handles_inv)

lemma feedLoop_inv:
  assumes "\<And>d m. I m \<Longrightarrow> I (snd (consume d m))"
  shows "I s \<Longrightarrow> I (snd (feedLoop consume b s))"
proof (induction "length b" arbitrary: b s rule: less_induct)
  case less
  obtain n s' where c: "consume b s = (n, s')" by fastforce
  then have "I s'" using assms [OF less.prems, of b] by simp
  then show ?case using less c by (subst feedLoop.simps) (auto simp: Let_def)
qed

lemma mq_readSocket_inv: "mq_inv ops m \<Longrightarrow> mq_inv ops (mq_readSocket ops aops m)"
proof -
  assume m: "mq_inv ops m"
  obtain chunk sk where c: "sock_readAll ops (mq_socket (world m)) = (chunk, sk)" by fastforce
  let ?m = "m\<lparr>world := (world m)\<lparr>mq_socket := sk\<rparr>\<rparr>"
  obtain rest m' where f: "feed (mq_consume ops aops) (mq_inputBuffer (world ?m)) chunk ?m = (rest, m')"
    by fastforce
  have "mq_inv ops ?m" using m by (simp add: mq_inv_world)
  then have "mq_inv ops m'"
    using feedLoop_inv [of "mq_inv ops" "mq_consume ops aops", OF mq_consume_inv] f
    by (metis feed_def snd_conv)
  then show ?thesis using c f by (simp add: mq_readSocket_def mq_inv_world)
qed

lemma mq_connectToHost_inv:
  assumes m: "mq_inv ops m" and c: "\<not> fst (sock_connectToHost ops h p (mq_socket (world m)))"
  shows "mq_inv ops (mq_connectToHost ops h p vh u pw m)"
proof -
  have "cs_loop_ok (mq_connectToHost ops h p vh u pw m)"
    by (simp add: mq_connectToHost_def Let_def beginAutoConnect_loop_ok)
  moreover obtain sk where "sock_connectToHost ops h p (mq_socket (world m)) = (False, sk)" using c by (metis (full_types) prod.collapse)
  ultimately show ?thesis using m
    by (cases "m_reconnecting m")
       (simp_all add: mq_inv_def mq_own_def mq_connectToHost_def beginAutoConnect_def mq_connectHandler_def
          callConnect_def cs_helper_defs Let_def)
qed

lemma mq_probe_inv:
  assumes "mq_inv ops m"
  shows "mq_inv ops (cs_step m HeartbeatTick)"
proof -
  have "cs_loop_ok (cs_step m HeartbeatTick)" using assms by (intro cs_step_loop_ok) (simp_all add: mq_inv_def mq_own_def)
  then show ?thesis using assms
    by (cases "m_connect m"; cases "m_heartbeatTimer m"; cases "sock_isConnected ops (mq_socket (world m))";
        cases "m_connected m"; cases "m_reconnecting m")
       (simp_all add: mq_inv_def mq_own_def onHeartbeatTick_def mq_probeHandler_def cs_helper_defs Let_def)
qed

lemma mq_reconnect_inv:
  assumes "mq_inv ops m"
    and "\<not> fst (sock_connectToHost ops (mq_host (world m)) (mq_port (world m)) (sock_abort ops (mq_socket (world m))))"
  shows "mq_inv ops (cs_step m ReconnectTick)"
proof -
  have l: "cs_loop_ok (cs_step m ReconnectTick)" using assms by (intro cs_step_loop_ok) (simp_all add: mq_inv_def mq_own_def)
  obtain sk where "sock_connectToHost ops (mq_host (world m)) (mq_port (world m)) (sock_abort ops (mq_socket (world m))) = (False, sk)"
    using assms(2) by (metis (full_types) prod.collapse)
  then show ?thesis using assms(1) l
    by (cases "m_connect m"; cases "m_reconnectTimer m")
       (simp_all add: mq_inv_def mq_own_def onReconnectTick_def mq_connectHandler_def mq_disconnectHandler_def
          callConnect_def cs_helper_defs Let_def)
qed

lemma mq_event_inv: "mq_event ops aops m m' \<Longrightarrow> mq_inv ops m \<Longrightarrow> mq_inv ops m'"
proof (induction rule: mq_event.induct)
  case (mq_connected m)
  then show ?case
    by (auto simp: mq_onSocketConnected_def Let_def mq_inv_world mq_handles_inv split: prod.splits)
next
  case (mq_beat m t)
  then show ?case
    by (auto simp: mq_onHeartbeatTimer_def mq_inv_world mq_handles_inv split: option.splits prod.splits)
qed (simp_all add: mq_onSocketError_def mq_attemptFailed_inv mq_inv_world
      mq_readSocket_inv mq_probe_inv del: cs_step.simps)

lemma mq_calm_inv: "mq_calm_reachable ops aops slot m \<Longrightarrow> mq_inv ops m"
proof (induction rule: mq_calm_reachable.induct)
  case (calm_start sk v)
  show ?case
    by (simp add: mq_inv_def mq_own_def newMqConnection_def newConnectionState_def cs_loop_ok_def cs_rung_ok_def)
next
  case (calm_connect m host port vhost user password)
  then show ?case by (intro mq_connectToHost_inv)
next
  case (calm_reconnect m)
  then show ?case by (intro mq_reconnect_inv)
next
  case (calm_other m m')
  then show ?case using mq_event_inv by blast
qed

text \<open>What holds in all runs: the object has no handlers yet or those of connectToHost, and its slots are those of the constructor.\<close>

definition mq_wired :: "'s socket_ops \<Rightarrow> (bool \<Rightarrow> 'v \<Rightarrow> 'v) \<Rightarrow> ('s, 'a, 'v) mq \<Rightarrow> bool" where
  "mq_wired ops slot m \<longleftrightarrow>
     (\<forall>b w. onStateChanged m b w = w\<lparr>mq_announced := mq_announced w @ [b], mq_owner := slot b (mq_owner w)\<rparr>)
   \<and> (\<forall>b w. onReconnectingChanged m b w = w)
   \<and> (m_connect m = None \<and> m_probe m = None \<and> m_disconnect m = None
      \<or> m_connect m = Some (mq_connectHandler ops) \<and> m_probe m = Some (mq_probeHandler ops)
        \<and> m_disconnect m = Some (mq_disconnectHandler ops) \<and> m_asyncResult m)"

lemma mq_wired_world [simp]: "mq_wired ops slot (m\<lparr>world := w\<rparr>) = mq_wired ops slot m"
  by (simp add: mq_wired_def)

interpretation mqw: cs_invariant "mq_wired ops slot" for ops slot
  by unfold_locales (simp_all, simp_all add: mq_wired_def setConnected_def setReconnecting_def)

lemma mq_attemptFailed_wired: "mq_wired ops slot m \<Longrightarrow> mq_wired ops slot (mq_attemptFailed m)"
  by (simp add: mq_attemptFailed_def mqw.K_report)

lemma mq_handle_wired: "mq_wired ops slot m \<Longrightarrow> mq_wired ops slot (mq_handle ops e m)"
  by (cases e) (simp_all add: mq_onData_def mq_onReady_def mq_onError_def mq_onClosed_def mq_onNegotiate_def
      mq_attemptFailed_wired mqw.K_report)

lemma mq_handles_wired: "mq_wired ops slot m \<Longrightarrow> mq_wired ops slot (fold (mq_handle ops) evs m)"
  by (induction evs arbitrary: m) (auto intro: mq_handle_wired)

lemma mq_readSocket_wired: "mq_wired ops slot m \<Longrightarrow> mq_wired ops slot (mq_readSocket ops aops m)"
proof -
  assume m: "mq_wired ops slot m"
  have c: "mq_wired ops slot (snd (mq_consume ops aops d n))" if "mq_wired ops slot n" for d and n :: "('a, 'c, 'b) mq"
    using that by (simp add: mq_consume_def mq_handles_wired split: option.split prod.split)
  obtain chunk sk where r: "sock_readAll ops (mq_socket (world m)) = (chunk, sk)" by fastforce
  let ?m = "m\<lparr>world := (world m)\<lparr>mq_socket := sk\<rparr>\<rparr>"
  obtain rest m' where f: "feed (mq_consume ops aops) (mq_inputBuffer (world m)) chunk ?m = (rest, m')" by fastforce
  have "mq_wired ops slot (snd (feedLoop (mq_consume ops aops) (mq_inputBuffer (world m) @ chunk) ?m))"
    using feedLoop_inv [of "mq_wired ops slot", OF c] m by simp
  then show ?thesis using r f by (simp add: mq_readSocket_def feed_def)
qed

lemma mq_step_wired: "mq_step ops aops m m' \<Longrightarrow> mq_wired ops slot m \<Longrightarrow> mq_wired ops slot m'"
proof (induction rule: mq_step.induct)
  case (mq_connect m host port vhost user password)
  then show ?case unfolding mq_connectToHost_def Let_def
    by (intro mqw.K_beginAutoConnect) (simp add: mq_wired_def setHandlers_def)
next
  case (mq_reconnect m)
  then show ?case by (intro mqw.K_ticks)
next
  case (mq_other m m')
  then show ?case
    by (induction rule: mq_event.induct)
       (simp_all add: mq_onSocketConnected_def mq_onSocketError_def mq_onHeartbeatTimer_def mq_handles_wired
          mq_attemptFailed_wired mq_readSocket_wired mqw.K_ticks Let_def case_prod_beta del: cs_step.simps split: option.split)
qed

lemma mq_reachable_wired: "mq_reachable ops aops slot m \<Longrightarrow> mq_wired ops slot m"
proof (induction rule: mq_reachable.induct)
  case (mq_start sk v)
  show ?case by (simp add: mq_wired_def newMqConnection_def newConnectionState_def)
next
  case (mq_next m m')
  then show ?case using mq_step_wired by blast
qed

lemma reconnectDelayMs_bound: "reconnectDelayMs n \<le> 60000"
proof -
  have "\<forall>d \<in> set kReconnectDelaysMs. d \<le> 60000" by (simp add: kReconnectDelaysMs_def)
  moreover have "length kReconnectDelaysMs = 7" by (simp add: kReconnectDelaysMs_def)
  then have "reconnectDelayMs n \<in> set kReconnectDelaysMs"
    unfolding reconnectDelayMs_def kReconnectDelayCount_def by (auto intro!: nth_mem)
  ultimately show ?thesis by blast
qed

text \<open>The handler methods leave the bytes that wait to be parsed alone.\<close>

definition buffer_kept :: "('s, 'a, 'v) mq \<Rightarrow> ('s, 'a, 'v) mq \<Rightarrow> bool" where
  "buffer_kept m m' \<longleftrightarrow> mq_inputBuffer (world m') = mq_inputBuffer (world m)
     \<and> onStateChanged m' = onStateChanged m \<and> onReconnectingChanged m' = onReconnectingChanged m"

definition slots_keep_buffer :: "('s, 'a, 'v) mq \<Rightarrow> bool" where
  "slots_keep_buffer m \<longleftrightarrow>
     (\<forall>b w. mq_inputBuffer (onStateChanged m b w) = mq_inputBuffer w)
   \<and> (\<forall>b w. mq_inputBuffer (onReconnectingChanged m b w) = mq_inputBuffer w)"

lemma mq_handle_buffer:
  "slots_keep_buffer m \<Longrightarrow> buffer_kept m (mq_handle ops e m) \<and> slots_keep_buffer (mq_handle ops e m)"
  by (cases e)
     (simp_all add: slots_keep_buffer_def buffer_kept_def mq_onData_def mq_onClosed_def mq_onNegotiate_def
        mq_onReady_def mq_onError_def mq_attemptFailed_def reportPendingConnectResult_def
        cs_helper_defs Let_def)

lemma mq_handles_buffer:
  "slots_keep_buffer m \<Longrightarrow> buffer_kept m (fold (mq_handle ops) evs m)"
proof (induction evs arbitrary: m)
  case Nil
  then show ?case by (simp add: buffer_kept_def)
next
  case (Cons e evs)
  then show ?case using mq_handle_buffer [of m ops e] by (auto simp: buffer_kept_def)
qed

lemma mq_reconnect_buffer:
  assumes "mq_wired ops slot m"
  shows "mq_inputBuffer (world (cs_step m ReconnectTick)) = mq_inputBuffer (world m)
       \<and> slots_keep_buffer (cs_step m ReconnectTick)"
proof -
  have "cs_keeps (\<lambda>w. mq_inputBuffer w = mq_inputBuffer (world m)) m"
    using assms unfolding cs_keeps_def mq_wired_def
    by (auto simp: mq_connectHandler_def mq_probeHandler_def mq_disconnectHandler_def Let_def split: prod.splits)
  from keeps.K_ticks(2) [OF this] have "mq_inputBuffer (world (cs_step m ReconnectTick)) = mq_inputBuffer (world m)"
    unfolding cs_keeps_def by blast
  moreover have "mq_wired ops slot (cs_step m ReconnectTick)" using assms by (rule mqw.K_ticks)
  ultimately show ?thesis by (auto simp: slots_keep_buffer_def mq_wired_def)
qed

section \<open>Properties\<close>

text \<open>
  C27. The chunks in which TCP delivers the byte stream do not matter: for every callable that
  parses by frames, feeding the chunks one after the other leaves the same rest in the buffer and
  the same state as feeding the whole stream at once, so no frame is lost, split or handled twice.
\<close>
theorem mq_stream_chunking_immaterial:
  assumes "frame_parser frame" and "parses_by_frames frame consume"
  shows "feedChunks consume [] s chunks = feed consume [] (concat chunks) s"
proof -
  have "feedLoop (single frame) [] s = ([], s)" by (simp add: feedLoop.simps)
  from feedChunks_by_frames [OF assms this] show ?thesis
    by (simp add: feed_def feedLoop_by_frames [OF assms])
qed

text \<open>Frames of two bytes, collected; the callable handles one of them at a time.\<close>

definition demo_frame :: "bytes \<Rightarrow> bytes list \<Rightarrow> (nat \<times> bytes list) option" where
  "demo_frame b s = (case b of x # y # _ \<Rightarrow> Some (2, s @ [[x, y]]) | _ \<Rightarrow> None)"

lemma demo_frame_parser: "frame_parser demo_frame"
  by (auto simp: frame_parser_def demo_frame_def split: list.splits)

lemma demo_parses: "parses_by_frames demo_frame (single demo_frame)"
  by (auto simp: parses_by_frames_def single_def split: option.splits intro: one_frame)

theorem mq_stream_chunking_immaterial_witness:
  "feedChunks (single demo_frame) [] [] [[1], [2, 3], [4, 5]] = ([5], [[1, 2], [3, 4]])"
  unfolding mq_stream_chunking_immaterial [OF demo_frame_parser demo_parses]
  by (simp add: feed_def feedLoop.simps single_def demo_frame_def)

text \<open>
  C28. Once a host has been given the driver never gives up, as long as no attempt is refused by the socket from within its
  connectToHost: in every state of such a run the driver is ready,
  or a connect attempt is in flight, or the next attempt is scheduled within a minute; and a socket
  error during an attempt ends it and schedules the next one.
\<close>
theorem mq_connection_never_gives_up:
  assumes "mq_calm_reachable ops aops slot m" and "m_connect m \<noteq> None"
  shows "(mq_isReady m \<or> mq_connectAttemptPending (world m)
          \<or> (\<exists>d. m_reconnectTimer m = Some d \<and> d \<le> 60000))
       \<and> (mq_connectAttemptPending (world m) \<longrightarrow>
            \<not> mq_connectAttemptPending (world (mq_onSocketError ops m))
            \<and> m_reconnectTimer (mq_onSocketError ops m) \<noteq> None)"
proof -
  have inv: "mq_inv ops m" using assms(1) by (rule mq_calm_inv)
  have "m_reconnectTimer m = Some d \<Longrightarrow> d \<le> 60000" for d
    using inv reconnectDelayMs_bound by (auto simp: mq_inv_def mq_own_def cs_loop_ok_def cs_rung_ok_def)
  then have "mq_isReady m \<or> mq_connectAttemptPending (world m)
          \<or> (\<exists>d. m_reconnectTimer m = Some d \<and> d \<le> 60000)"
    using inv assms(2) by (auto simp: mq_inv_def mq_own_def mq_isReady_def)
  moreover have "\<not> mq_connectAttemptPending (world (mq_onSocketError ops m))
            \<and> m_reconnectTimer (mq_onSocketError ops m) \<noteq> None"
    if "mq_connectAttemptPending (world m)"
    using inv assms(2) that
    by (auto simp: mq_inv_def mq_own_def mq_onSocketError_def mq_attemptFailed_def reportPendingConnectResult_def
        cs_helper_defs Let_def)
  ultimately show ?thesis by blast
qed

text \<open>
  The condition is needed. When the socket signals an error from within connectToHost - it does so when it is already
  connecting or connected, as at a second connectToHost of the owner - the slot takes the attempt for failed and reports
  that, but the connection state does not wait for a result yet and ignores the report; then the callable answers true and the
  state waits. No attempt is pending, none is scheduled, and a further socket error changes nothing.
\<close>
theorem mq_refused_attempt_gives_up:
  assumes "fst (sock_connectToHost ops host port (mq_socket (world m)))"
    and "\<And>b w. onReconnectingChanged m b w = w"
    and m': "m' = mq_connectToHost ops host port vhost user password m"
  shows "\<not> mq_connectAttemptPending (world m') \<and> m_reconnectTimer m' = None \<and> m_awaitingAsyncResult m'
    \<and> \<not> mq_connectAttemptPending (world (mq_onSocketError ops m')) \<and> m_reconnectTimer (mq_onSocketError ops m') = None"
proof -
  obtain sk where "sock_connectToHost ops host port (mq_socket (world m)) = (True, sk)" using assms(1) by (metis (full_types) prod.collapse)
  then show ?thesis using assms(2)
    by (cases "m_reconnecting m")
       (simp_all add: m' mq_connectToHost_def beginAutoConnect_def mq_connectHandler_def callConnect_def
          mq_onSocketError_def mq_attemptFailed_def cs_helper_defs Let_def)
qed

text \<open>A protocol library that answers nothing and handles two bytes at a time.\<close>

definition demo_amqp :: "nat amqp_ops" where
  "demo_amqp = \<lparr>amqp_new = (\<lambda>u p v. ([OnData [65]], 0)),
     amqp_parse = (\<lambda>d a. if length d < 2 then (0, [], a) else (2, [], a + 1)),
     amqp_heartbeat = (\<lambda>a. ([OnData [8]], a))\<rparr>"

definition demo_mq0 :: "(log_socket, nat, unit) mq" where
  "demo_mq0 = mq_connectToHost log_ops ''broker'' 5672 ''/'' ''dev'' ''pw''
     (newMqConnection (\<lambda>_ v. v) \<lparr>log_written = [], log_incoming = [], log_up = False\<rparr> ())"

lemma demo_mq0_reachable: "mq_reachable log_ops demo_amqp (\<lambda>_ v. v) demo_mq0"
  unfolding demo_mq0_def by (rule mq_next [OF mq_start mq_connect])

lemma demo_mq0_calm: "mq_calm_reachable log_ops demo_amqp (\<lambda>_ v. v) demo_mq0"
  unfolding demo_mq0_def by (rule calm_connect [OF calm_start]) (simp add: log_ops_def)

theorem mq_connection_never_gives_up_witness:
  "mq_connectAttemptPending (world demo_mq0) \<and> m_reconnectTimer (mq_onSocketError log_ops demo_mq0) \<noteq> None"
proof -
  have p: "mq_connectAttemptPending (world demo_mq0)" "m_connect demo_mq0 \<noteq> None"
    by (simp_all add: demo_mq0_def mq_connectToHost_def newMqConnection_def newConnectionState_def
        beginAutoConnect_def mq_connectHandler_def callConnect_def log_ops_def cs_helper_defs Let_def)
  show ?thesis
    using mq_connection_never_gives_up [OF demo_mq0_calm p(2)] p(1) by blast
qed

text \<open>
  Reconnecting keeps the bytes of the lost connection: the connect handler does not clear the
  input buffer (connectToHost does), and neither does the slot that creates the new protocol
  object. A frame that was cut off by the loss stays in front of the bytes of the next connection.
\<close>
theorem mq_reconnect_keeps_partial_frame:
  assumes "mq_reachable ops aops slot m"
  shows "mq_inputBuffer (world (mq_onSocketConnected ops aops (cs_step m ReconnectTick)))
       = mq_inputBuffer (world m)"
  using mq_reconnect_buffer [OF mq_reachable_wired [OF assms]]
    mq_handles_buffer [of "cs_step m ReconnectTick" ops]
  by (simp add: mq_onSocketConnected_def Let_def buffer_kept_def del: cs_step.simps split: prod.splits)

definition demo_mq1 :: "(log_socket, nat, unit) mq" where
  "demo_mq1 =
     mq_readSocket log_ops demo_amqp
       (demo_mq0\<lparr>world := (world demo_mq0)\<lparr>mq_socket := \<lparr>log_written = [], log_incoming = [7], log_up = True\<rparr>,
                                            mq_owner := ()\<rparr>\<rparr>)"

lemma demo_mq1_reachable: "mq_reachable log_ops demo_amqp (\<lambda>_ v. v) demo_mq1"
  unfolding demo_mq1_def
  by (rule mq_next [OF mq_next [OF demo_mq0_reachable mq_other [OF mq_environment]] mq_other [OF mq_ready_read]])

theorem mq_reconnect_keeps_partial_frame_witness:
  "mq_inputBuffer (world (mq_onSocketConnected log_ops demo_amqp (cs_step demo_mq1 ReconnectTick))) = [7]"
  unfolding mq_reconnect_keeps_partial_frame [OF demo_mq1_reachable]
  by (simp add: demo_mq1_def demo_mq0_def mq_readSocket_def mq_consume_def feed_def feedLoop.simps
      log_ops_def mq_connectToHost_def newMqConnection_def newConnectionState_def
      beginAutoConnect_def mq_connectHandler_def callConnect_def cs_helper_defs Let_def)

end
