(* ===== verification/Protocol_Driver.thy ===== *)
theory Protocol_Driver
  imports Modbus_Connection C3_Connection Mq_Connection
begin

text \<open>
  The interface of a field-protocol connection: src/core/protocol/protocol\_driver.h. A generic user
  interface holds a driver and knows only isReady, errorString and the signal
  connectionStateChanged. The class is a locale: a driver has a set of reachable states, in which the
  values announced by the signal alternate and end with what isReady answers. The client's lemmas are about a
  shell that only follows the signal. The Modbus and the broker connection are drivers; the C3
  connection declares the same methods but does not keep the law.
\<close>

section \<open>The interface\<close>

text \<open>What a shell shows that starts with not connected and follows the announced values.\<close>

definition follow :: "bool list \<Rightarrow> bool" where
  "follow announced = fold (\<lambda>b _. b) announced False"

locale protocol_driver =
  fixes reachable :: "'s \<Rightarrow> bool"
    and isReady :: "'s \<Rightarrow> bool"
    and announced :: "'s \<Rightarrow> bool list"
  assumes announced_alternates: "reachable s \<Longrightarrow> alternates False (announced s)"
    and announced_last: "reachable s \<Longrightarrow> last (False # announced s) = isReady s"
begin

lemma fold_last: "fold (\<lambda>b _. b) bs c = last (c # bs)"
  by (induction bs arbitrary: c) simp_all

lemma shell_follows: "reachable s \<Longrightarrow> follow (announced s) = isReady s"
  using announced_last [of s] by (simp add: follow_def fold_last)

lemma alternates_count:
  "alternates c bs \<Longrightarrow>
     length (filter id bs) + (if c then 1 else 0) = length (filter Not bs) + (if last (c # bs) then 1 else 0)"
proof (induction bs arbitrary: c)
  case Nil
  then show ?case by simp
next
  case (Cons b bs)
  then show ?case using Cons.IH [of b] by (cases b; cases c) (auto split: if_splits)
qed

text \<open>The connections announced outnumber the losses by one exactly while the driver is ready.\<close>

lemma ups_and_downs:
  "reachable s \<Longrightarrow>
     length (filter id (announced s)) = length (filter Not (announced s)) + (if isReady s then 1 else 0)"
  using alternates_count [OF announced_alternates, of s] announced_last [of s] by simp

end

section \<open>The drivers\<close>

text \<open>
  What a driver has announced by its own signal connectionStateChanged. The constructors connect the signal of the
  ConnectionState to it; that the two sequences agree in every reachable state is shown with the signal discipline of the state.
\<close>

fun mb_state_values :: "mb_signal list \<Rightarrow> bool list" where
  "mb_state_values [] = []"
| "mb_state_values (MbConnectionStateChanged b # ss) = b # mb_state_values ss"
| "mb_state_values (_ # ss) = mb_state_values ss"

definition mb_announced :: "'s mb_world \<Rightarrow> bool list" where
  "mb_announced w = mb_state_values (mb_emitted w)"

fun c3_state_values :: "c3_signal list \<Rightarrow> bool list" where
  "c3_state_values [] = []"
| "c3_state_values (C3ConnectionStateChanged b # ss) = b # c3_state_values ss"
| "c3_state_values (_ # ss) = c3_state_values ss"

definition c3_announced :: "'s c3_world \<Rightarrow> bool list" where
  "c3_announced w = c3_state_values (c3_emitted w)"

lemma mb_state_values_append [simp]: "mb_state_values (xs @ ys) = mb_state_values xs @ mb_state_values ys"
  by (induction xs rule: mb_state_values.induct) simp_all

lemma c3_state_values_append [simp]: "c3_state_values (xs @ ys) = c3_state_values xs @ c3_state_values ys"
  by (induction xs rule: c3_state_values.induct) simp_all

lemma mb_announced_fields [simp]:
  "mb_announced (w\<lparr>mb_socket := sk\<rparr>) = mb_announced w"
  "mb_announced (w\<lparr>mb_readBuffer := b\<rparr>) = mb_announced w"
  "mb_announced (w\<lparr>mb_pendingRequest := k\<rparr>) = mb_announced w"
  "mb_announced (w\<lparr>mb_requestTimer := t\<rparr>) = mb_announced w"
  by (simp_all add: mb_announced_def)

text \<open>A driver announces what its ConnectionState emits, and that keeps the discipline of its signals.\<close>

definition speaks :: "('w \<Rightarrow> bool list) \<Rightarrow> 'w connection_state \<Rightarrow> bool" where
  "speaks A m \<longleftrightarrow> cs_signals_ok m \<and> cs_forwards A m"

lemma speaks_world [simp]: "A w = A (world m) \<Longrightarrow> speaks A (m\<lparr>world := w\<rparr>) = speaks A m"
  by (simp add: speaks_def cs_forwards_world)

interpretation speaking: cs_invariant "speaks A" for A
  unfolding speaks_def
  by unfold_locales
     (simp_all add: signals.K_setConnected signals.K_setReconnecting signals.K_fields signals.K_connect signals.K_probe signals.K_disconnect
        forwards.K_setConnected forwards.K_setReconnecting forwards.K_fields forwards.K_connect forwards.K_probe forwards.K_disconnect)

lemma speaks_new:
  "A w = [] \<Longrightarrow> (\<And>b w. A (f b w) = A w @ [b]) \<Longrightarrow> (\<And>b w. A (g b w) = A w) \<Longrightarrow> speaks A (newConnectionState f g w)"
  using newConnectionState_inv [of f g w]
  by (simp add: speaks_def cs_inv_def cs_forwards_def newConnectionState_def)

lemma speaks_handlers:
  "speaks A m \<Longrightarrow> (\<And>w. A (snd (c w)) = A w) \<Longrightarrow> (\<And>w. A (snd (p w)) = A w) \<Longrightarrow> (\<And>w. A (d w) = A w)
   \<Longrightarrow> speaks A (setHandlers (Some c) (Some p) (Some d) b m)"
  by (simp add: speaks_def setHandlers_def cs_forwards_def)

lemma speaksD:
  "speaks A m \<Longrightarrow> alternates False (A (world m))" "speaks A m \<Longrightarrow> last (False # A (world m)) = m_connected m"
  by (simp_all add: speaks_def cs_forwards_def cs_signals_ok_def)

subsection \<open>Modbus\<close>

lemma mb_announced_core: "mb_core w = mb_core w' \<Longrightarrow> mb_announced w = mb_announced w'"
  by (simp add: mb_core_def mb_announced_def)

lemma sendRequest_speaks: "speaks mb_announced (sendRequest ops kind encode m) = speaks mb_announced m"
  by (simp add: sendRequest_def Let_def mb_announced_def)

lemma finishRequest_speaks:
  "speaks mb_announced m \<Longrightarrow> mb_state_values [a] = [] \<Longrightarrow> (\<And>t. mb_state_values [f t] = []) \<Longrightarrow> speaks mb_announced (finishRequest st exc a f m)"
  by (simp add: finishRequest_def Let_def mb_announced_def)

lemma readyRead_speaks:
  assumes "mb_onSocketReadyRead ops m = Some m'" and "speaks mb_announced m"
  shows "speaks mb_announced m'"
proof -
  have "speaks mb_announced m'" if "dispatchResponse n = Some m'" and "speaks mb_announced n" for n :: "'a modbus"
    using that by (auto simp: dispatchResponse_def finishRequest_speaks mb_announced_def Let_def bind_eq_Some_conv split: PendingRequest.splits)
  then show ?thesis using assms by (auto simp: mb_onSocketReadyRead_def mb_appendChunk_def mb_announced_def Let_def split: prod.splits)
qed

lemma mb_step_speaks: "mb_step ops m m' \<Longrightarrow> speaks mb_announced m \<Longrightarrow> speaks mb_announced m'"
proof (induction rule: mb_step.induct)
  case (ready_read m m')
  then show ?case by (rule readyRead_speaks)
next
  case (connect_to_host m host port)
  then show ?case unfolding mb_connectToHost_def Let_def
    by (intro speaking.K_beginAutoConnect speaks_handlers)
       (simp_all add: mb_announced_core [OF connectHandler_core], simp_all add: mb_announced_def)
next
  case (disconnect_now m)
  then show ?case using speaking.K_disconnectNow [of mb_announced m] by (simp add: mb_disconnectNow_def Let_def)
next
  case (socket_error m)
  then show ?case unfolding mb_onSocketError_def by (intro speaking.K_report) (simp add: mb_announced_def)
qed (simp_all add: mb_setRequestTimeoutMs_def mb_onSocketConnected_def mb_onRequestTimeout_def request_defs sendRequest_speaks
       speaking.K_report speaking.K_ticks mb_announced_def Let_def del: cs_step.simps)

lemma mb_reachable_speaks: "mb_reachable ops m \<Longrightarrow> speaks mb_announced m"
proof (induction rule: mb_reachable.induct)
  case (mb_start sk)
  show ?case unfolding newModbusConnection_def
    by (rule speaks_new) (simp_all add: mb_announced_def mb_onStateChanged_def Let_def)
qed (rule mb_step_speaks)

interpretation modbus_driver: protocol_driver "mb_reachable ops" mb_isReady "\<lambda>m. mb_announced (world m)" for ops
  by unfold_locales (simp_all only: mb_isReady_def speaksD [OF mb_reachable_speaks])

subsection \<open>The broker connection\<close>

lemma mq_attemptFailed_speaks: "speaks mq_announced m \<Longrightarrow> speaks mq_announced (mq_attemptFailed m)"
  by (simp add: mq_attemptFailed_def speaking.K_report)

lemma mq_handle_speaks: "speaks mq_announced m \<Longrightarrow> speaks mq_announced (mq_handle ops e m)"
  by (cases e) (simp_all add: mq_onData_def mq_onReady_def mq_onError_def mq_attemptFailed_speaks mq_onClosed_def
      mq_onNegotiate_def speaking.K_report)

lemma mq_handles_speaks: "speaks mq_announced m \<Longrightarrow> speaks mq_announced (fold (mq_handle ops) es m)"
  by (induction es arbitrary: m) (simp_all add: mq_handle_speaks)

lemma readSocket_speaks:
  assumes "speaks mq_announced m"
  shows "speaks mq_announced (mq_readSocket ops aops m)"
proof -
  have "speaks mq_announced (snd (mq_consume ops aops b s))" if "speaks mq_announced s" for b and s :: "('a, 'b, 'c) mq"
    using that by (simp add: mq_consume_def mq_handles_speaks split: option.split prod.split)
  then have "speaks mq_announced (snd (feedLoop (mq_consume ops aops) b s))" if "speaks mq_announced s" for b and s :: "('a, 'b, 'c) mq"
    using feedLoop_inv [where I = "speaks mq_announced"] that by blast
  then show ?thesis using assms by (simp add: mq_readSocket_def feed_def Let_def case_prod_beta)
qed

lemma mq_event_speaks: "mq_event ops aops m m' \<Longrightarrow> speaks mq_announced m \<Longrightarrow> speaks mq_announced m'"
proof (induction rule: mq_event.induct)
  case (mq_ready_read m)
  then show ?case by (rule readSocket_speaks)
qed (simp_all add: mq_onSocketConnected_def mq_onSocketError_def mq_attemptFailed_speaks mq_onHeartbeatTimer_def mq_handles_speaks
       speaking.K_ticks Let_def case_prod_beta split: option.split del: cs_step.simps)

lemma mq_step_speaks: "mq_step ops aops m m' \<Longrightarrow> speaks mq_announced m \<Longrightarrow> speaks mq_announced m'"
proof (induction rule: mq_step.induct)
  case (mq_connect m host port vhost user password)
  then show ?case unfolding mq_connectToHost_def Let_def
    by (intro speaking.K_beginAutoConnect speaks_handlers)
       (simp_all add: mq_connectHandler_def mq_probeHandler_def mq_disconnectHandler_def Let_def case_prod_beta)
qed (simp_all add: speaking.K_ticks mq_event_speaks del: cs_step.simps)

lemma mq_reachable_speaks: "mq_reachable ops aops slot m \<Longrightarrow> speaks mq_announced m"
proof (induction rule: mq_reachable.induct)
  case (mq_start sk v)
  show ?case unfolding newMqConnection_def by (rule speaks_new) simp_all
qed (rule mq_step_speaks)

interpretation mq_driver: protocol_driver "mq_reachable ops aops slot" mq_isReady "\<lambda>m. mq_announced (world m)"
  for ops aops slot
  by unfold_locales (simp_all only: mq_isReady_def speaksD [OF mq_reachable_speaks])

section \<open>Properties\<close>

text \<open>
  C2. A generic shell shows the truth: in every reachable state of a Modbus or a broker connection, a
  user interface that only follows the driver's own signal connectionStateChanged shows connected exactly when isReady answers
  true, and it has seen one more connection than losses exactly then.
\<close>
theorem driver_signal_is_readiness:
  assumes "mb_reachable ops m" and "mq_reachable ops' aops slot q"
  shows "follow (mb_announced (world m)) = mb_isReady m \<and> follow (mq_announced (world q)) = mq_isReady q
    \<and> length (filter id (mb_announced (world m)))
        = length (filter Not (mb_announced (world m))) + (if mb_isReady m then 1 else 0)
    \<and> length (filter id (mq_announced (world q)))
        = length (filter Not (mq_announced (world q))) + (if mq_isReady q then 1 else 0)"
  using modbus_driver.shell_follows [OF assms(1)] mq_driver.shell_follows [OF assms(2)]
    modbus_driver.ups_and_downs [OF assms(1)] mq_driver.ups_and_downs [OF assms(2)]
  by simp

theorem driver_signal_is_readiness_witness:
  "follow (mb_announced (world demo_pending)) = mb_isReady demo_pending
   \<and> follow (mq_announced (world demo_mq0)) = mq_isReady demo_mq0"
  using driver_signal_is_readiness [OF demo_reachable demo_mq0_reachable] by blast

text \<open>
  The C3 connection is not such a driver: after its connection was lost it answers isReady with true as soon
  as the socket is up again, while the last value announced by connectionStateChanged is false and the
  handshake of the new session has not begun to be answered.
\<close>
theorem c3_ready_against_its_signal:
  "\<exists>m. c3_reachable log_ops (\<lambda>_. 0) m \<and> c3_isReady log_ops (world m) \<and> \<not> follow (c3_announced (world m))"
  using demo_again_reachable demo_again_ready demo_again_announced
  by (intro exI [of _ demo_again]) (simp add: follow_def c3_announced_def)

end
