(* ===== verification/Mq_Codec.thy ===== *)
theory Mq_Codec
  imports Complex_Main Prelude
begin

text \<open>
  The message envelope of src/features/mq/mq_codec.\{h,cpp\}. The JSON values are those of the GUI
  framework's QJsonValue; its reader and writer and the ISO date functions are outside the
  repository and are parameters, collected in a record. A time that QDateTime calls invalid is None.
\<close>

datatype json =
    JNull | JBool bool | JDouble rat | JString string | JArray "json list"
  | JObject "(string \<times> json) list"

type_synonym QJsonObject = "(string \<times> json) list"

record 't qt_ops =
  qt_fromJson :: "bytes \<Rightarrow> json option"
  qt_toJson :: "QJsonObject \<Rightarrow> bytes"
  qt_parseIso :: "string \<Rightarrow> 't option"
  qt_formatIso :: "'t \<Rightarrow> string"
  qt_isUtc :: "'t \<Rightarrow> bool"

record 't Envelope =
  env_id :: string
  env_timestamp :: "'t option"
  env_version :: int
  env_source :: string
  env_type :: string
  env_payload :: QJsonObject

record 't DecodeResult =
  dr_envelope :: "'t Envelope"
  dr_valid :: bool

definition noResult :: "'t DecodeResult" where
  "noResult = \<lparr>dr_envelope = \<lparr>env_id = [], env_timestamp = None, env_version = 0, env_source = [],
                               env_type = [], env_payload = []\<rparr>, dr_valid = False\<rparr>"

text \<open>The envelope of a new message; its identifier and time are drawn by the caller.\<close>

definition envelopeObject :: "'t qt_ops \<Rightarrow> string \<Rightarrow> 't \<Rightarrow> string \<Rightarrow> QJsonObject \<Rightarrow> QJsonObject" where
  "envelopeObject qt uuid now type payload =
     [(''id'', JString uuid), (''ts'', JString (qt_formatIso qt now)), (''v'', JDouble 1),
      (''src'', JString ''qt-mq-lab''), (''type'', JString type), (''payload'', JObject payload)]"

definition mq_encode :: "'t qt_ops \<Rightarrow> string \<Rightarrow> 't \<Rightarrow> string \<Rightarrow> QJsonObject \<Rightarrow> bytes" where
  "mq_encode qt uuid now type payload = qt_toJson qt (envelopeObject qt uuid now type payload)"

text \<open>The typed reads of a value that may be absent: isString and toString, and so on.\<close>

fun asString :: "json option \<Rightarrow> string option" where
  "asString (Some (JString x)) = Some x"
| "asString _ = None"

fun asDouble :: "json option \<Rightarrow> rat option" where
  "asDouble (Some (JDouble x)) = Some x"
| "asDouble _ = None"

fun asObject :: "json option \<Rightarrow> QJsonObject option" where
  "asObject (Some (JObject x)) = Some x"
| "asObject _ = None"

definition decodeObject :: "'t qt_ops \<Rightarrow> QJsonObject \<Rightarrow> 't Envelope option" where
  "decodeObject qt obj = do {
     i \<leftarrow> asString (map_of obj ''id'');
     ts \<leftarrow> asString (map_of obj ''ts'');
     v \<leftarrow> asDouble (map_of obj ''v'');
     src \<leftarrow> asString (map_of obj ''src'');
     ty \<leftarrow> asString (map_of obj ''type'');
     payload \<leftarrow> asObject (map_of obj ''payload'');
     if i = [] \<or> v \<noteq> 1 then None
     else do {
       timestamp \<leftarrow> qt_parseIso qt ts;
       if \<not> qt_isUtc qt timestamp then None
       else Some \<lparr>env_id = i, env_timestamp = Some timestamp, env_version = 1, env_source = src,
                  env_type = ty, env_payload = payload\<rparr> } }"

definition mq_decode :: "'t qt_ops \<Rightarrow> bytes \<Rightarrow> 't DecodeResult" where
  "mq_decode qt d =
     (case asObject (qt_fromJson qt d) of
        None \<Rightarrow> noResult
      | Some obj \<Rightarrow>
          (case decodeObject qt obj of
             None \<Rightarrow> noResult
           | Some envelope \<Rightarrow> \<lparr>dr_envelope = envelope, dr_valid = True\<rparr>))"

section \<open>Lemmas\<close>

text \<open>Whatever was received, a valid result is a complete envelope of version 1 with a UTC time.\<close>

lemma mq_decode_valid:
  assumes "dr_valid (mq_decode qt d)"
  shows "env_id (dr_envelope (mq_decode qt d)) \<noteq> [] \<and> env_version (dr_envelope (mq_decode qt d)) = 1
       \<and> (\<exists>t. env_timestamp (dr_envelope (mq_decode qt d)) = Some t \<and> qt_isUtc qt t)"
  using assms
  by (auto simp: mq_decode_def noResult_def decodeObject_def split: option.splits if_splits bind_splits)

lemma mq_decode_encode:
  assumes "qt_fromJson qt (qt_toJson qt (envelopeObject qt uuid now type payload))
             = Some (JObject (envelopeObject qt uuid now type payload))"
    and "qt_parseIso qt (qt_formatIso qt now) = Some now" and "qt_isUtc qt now" and "uuid \<noteq> []"
  shows "mq_decode qt (mq_encode qt uuid now type payload) =
     \<lparr>dr_envelope = \<lparr>env_id = uuid, env_timestamp = Some now, env_version = 1, env_source = ''qt-mq-lab'',
                      env_type = type, env_payload = payload\<rparr>, dr_valid = True\<rparr>"
  using assms by (simp add: mq_decode_def mq_encode_def envelopeObject_def decodeObject_def)

end
