(* ===== verification/Mq_Service.thy ===== *)
theory Mq_Service
  imports Mq_Codec Mq_Connection
begin

text \<open>
  The publishing and consuming service of src/features/mq/mq_service.\{h,cpp\}. The AMQP channel is an
  object of the protocol library: a parameter, as a record of the operations the service calls on
  it. The callbacks the service hands to the library are operations of their own below, and
  the library calls them only while the channel they were registered on exists. The connection
  object the service finds through its MqConnection, if there is one, is an argument of the
  operations that look for it. The order in which a QSet is iterated is not specified; it is a
  parameter too.
\<close>

section \<open>State\<close>

record ('a, 'c) channel_ops =
  ch_create :: "'a \<Rightarrow> 'c"
  ch_publish :: "string \<Rightarrow> string \<Rightarrow> bytes \<Rightarrow> 'c \<Rightarrow> bool \<times> 'c"
  ch_setQos :: "u16 \<Rightarrow> 'c \<Rightarrow> 'c"
  ch_consume :: "string \<Rightarrow> 'c \<Rightarrow> 'c"
  ch_ack :: "u64 \<Rightarrow> 'c \<Rightarrow> bool \<times> 'c"
  ch_reject :: "u64 \<Rightarrow> 'c \<Rightarrow> bool \<times> 'c"
  ch_cancel :: "string \<Rightarrow> 'c \<Rightarrow> 'c"

datatype 't mq_signal =
    Published string "'t option" string QJsonObject
  | MessageReceived string "'t option" string QJsonObject bool u64
  | ErrorOccurred string
  | MessageRejected string
  | MessageReturned string string
  | DeliveryAcked u64

record ('c, 't) mq_service =
  svc_channel :: "'c option"
  consumerTag :: string
  pendingDeliveries :: "u64 set"
  committedDeliveries :: "u64 set"
  svc_paused :: bool
  consumerStarting :: bool
  svc_consuming :: bool
  cancelPending :: bool
  svc_emitted :: "'t mq_signal list"

definition kExchange :: string where "kExchange = ''hsf.card''"
definition kQueue :: string where "kQueue = ''hsf.card.issued''"

definition newMqService :: "('c, 't) mq_service" where
  "newMqService =
     \<lparr>svc_channel = None, consumerTag = [], pendingDeliveries = {}, committedDeliveries = {},
      svc_paused = False, consumerStarting = False, svc_consuming = False, cancelPending = False,
      svc_emitted = []\<rparr>"

definition svc_emit :: "'t mq_signal \<Rightarrow> ('c, 't) mq_service \<Rightarrow> ('c, 't) mq_service" where
  "svc_emit sig s = s\<lparr>svc_emitted := svc_emitted s @ [sig]\<rparr>"

section \<open>Operations\<close>

definition resetConnectionState :: "('c, 't) mq_service \<Rightarrow> ('c, 't) mq_service" where
  "resetConnectionState s =
     s\<lparr>svc_channel := None, consumerTag := [], svc_consuming := False, consumerStarting := False,
       cancelPending := False, pendingDeliveries := {}, committedDeliveries := {}\<rparr>"

text \<open>The slot on the connection's connectionStateChanged.\<close>

definition svc_onConnectionStateChanged :: "bool \<Rightarrow> ('c, 't) mq_service \<Rightarrow> ('c, 't) mq_service" where
  "svc_onConnectionStateChanged up s = (if \<not> up then resetConnectionState s else s)"

definition ensureChannel ::
  "('a, 'c) channel_ops \<Rightarrow> 'a option \<Rightarrow> ('c, 't) mq_service \<Rightarrow> bool \<times> ('c, 't) mq_service" where
  "ensureChannel cops conn s =
     (case svc_channel s of
        Some _ \<Rightarrow> (True, s)
      | None \<Rightarrow>
          (case conn of
             None \<Rightarrow> (False, svc_emit (ErrorOccurred ''AMQP connection is not ready'') s)
           | Some a \<Rightarrow> (True, s\<lparr>svc_channel := Some (ch_create cops a)\<rparr>)))"

definition publish ::
  "'t qt_ops \<Rightarrow> ('a, 'c) channel_ops \<Rightarrow> 'a option \<Rightarrow> string \<Rightarrow> 't \<Rightarrow> string \<Rightarrow> QJsonObject
   \<Rightarrow> ('c, 't) mq_service \<Rightarrow> bool \<times> ('c, 't) mq_service" where
  "publish qt cops conn uuid now type payload s0 =
     (let (ok, s) = ensureChannel cops conn s0
      in case svc_channel s of
           Some ch \<Rightarrow>
             if \<not> ok then (False, s)
             else (let encoded = mq_encode qt uuid now type payload;
                       decoded = mq_decode qt encoded
                   in if \<not> dr_valid decoded
                      then (False, svc_emit (ErrorOccurred ''Could not decode the newly encoded message'') s)
                      else (let e = dr_envelope decoded;
                                (sent, ch') = ch_publish cops kExchange (env_type e) encoded ch;
                                s = s\<lparr>svc_channel := Some ch'\<rparr>
                            in if \<not> sent then (False, svc_emit (ErrorOccurred ''Could not publish the message'') s)
                               else (True, svc_emit (Published (env_id e) (env_timestamp e) (env_type e)
                                                       (env_payload e)) s)))
         | None \<Rightarrow> (False, s))"

definition startConsuming ::
  "('a, 'c) channel_ops \<Rightarrow> 'a option \<Rightarrow> ('c, 't) mq_service \<Rightarrow> bool \<times> ('c, 't) mq_service" where
  "startConsuming cops conn s0 =
     (if svc_paused s0 \<or> svc_consuming s0 \<or> consumerStarting s0 then (True, s0)
      else (let (ok, s) = ensureChannel cops conn s0
            in if \<not> ok then (False, s)
               else (True, s\<lparr>svc_channel := map_option (\<lambda>ch. ch_consume cops kQueue (ch_setQos cops 10 ch))
                                                        (svc_channel s),
                             consumerStarting := True\<rparr>)))"

definition cancelConsumer :: "('a, 'c) channel_ops \<Rightarrow> ('c, 't) mq_service \<Rightarrow> ('c, 't) mq_service" where
  "cancelConsumer cops s =
     (case svc_channel s of
        None \<Rightarrow> s
      | Some ch \<Rightarrow>
          if consumerTag s = [] \<or> cancelPending s then s
          else s\<lparr>cancelPending := True, svc_channel := Some (ch_cancel cops (consumerTag s) ch)\<rparr>)"

definition rejectDelivery ::
  "('a, 'c) channel_ops \<Rightarrow> u64 \<Rightarrow> string \<Rightarrow> ('c, 't) mq_service \<Rightarrow> ('c, 't) mq_service" where
  "rejectDelivery cops deliveryTag reason s =
     (let failed = svc_emit (ErrorOccurred ''Could not reject an undecodable message'')
      in case svc_channel s of
           None \<Rightarrow> failed s
         | Some ch \<Rightarrow>
             (let (ok, ch') = ch_reject cops deliveryTag ch;
                  s = s\<lparr>svc_channel := Some ch'\<rparr>
              in if \<not> ok then failed s
                 else svc_emit (MessageRejected reason)
                        (s\<lparr>pendingDeliveries := pendingDeliveries s - {deliveryTag},
                           committedDeliveries := committedDeliveries s - {deliveryTag}\<rparr>)))"

definition confirmInserted :: "('a, 'c) channel_ops \<Rightarrow> u64 \<Rightarrow> ('c, 't) mq_service \<Rightarrow> ('c, 't) mq_service" where
  "confirmInserted cops deliveryTag s =
     (let failed = svc_emit (ErrorOccurred ''Could not acknowledge the inserted message'')
      in if deliveryTag \<notin> pendingDeliveries s then s
         else if svc_paused s then s\<lparr>committedDeliveries := insert deliveryTag (committedDeliveries s)\<rparr>
         else (case svc_channel s of
                 None \<Rightarrow> failed s
               | Some ch \<Rightarrow>
                   (let (ok, ch') = ch_ack cops deliveryTag ch;
                        s = s\<lparr>svc_channel := Some ch'\<rparr>
                    in if \<not> ok then failed s
                       else svc_emit (DeliveryAcked deliveryTag)
                              (s\<lparr>committedDeliveries := committedDeliveries s - {deliveryTag},
                                 pendingDeliveries := pendingDeliveries s - {deliveryTag}\<rparr>))))"

definition pauseConsuming ::
  "('a, 'c) channel_ops \<Rightarrow> (u64 set \<Rightarrow> u64 list) \<Rightarrow> 'a option \<Rightarrow> bool \<Rightarrow> ('c, 't) mq_service
   \<Rightarrow> ('c, 't) mq_service" where
  "pauseConsuming cops order conn paused s0 =
     (let s = s0\<lparr>svc_paused := paused\<rparr>
      in if svc_paused s then cancelConsumer cops s
         else (let s = fold (confirmInserted cops) (order (committedDeliveries s)) s
               in if \<not> svc_consuming s \<and> \<not> cancelPending s then snd (startConsuming cops conn s) else s))"

section \<open>Callbacks\<close>

definition onConsumeSuccess :: "('a, 'c) channel_ops \<Rightarrow> string \<Rightarrow> ('c, 't) mq_service \<Rightarrow> ('c, 't) mq_service" where
  "onConsumeSuccess cops tag s0 =
     (let s = s0\<lparr>consumerStarting := False, svc_consuming := True, consumerTag := tag\<rparr>
      in if svc_paused s then cancelConsumer cops s else s)"

definition onReceived ::
  "'t qt_ops \<Rightarrow> ('a, 'c) channel_ops \<Rightarrow> bytes \<Rightarrow> u64 \<Rightarrow> bool \<Rightarrow> ('c, 't) mq_service \<Rightarrow> ('c, 't) mq_service" where
  "onReceived qt cops body tag redelivered s =
     (if length body > 2147483647 then rejectDelivery cops tag ''message too large'' s
      else (let decoded = mq_decode qt body; e = dr_envelope decoded
            in if \<not> dr_valid decoded then rejectDelivery cops tag ''invalid envelope'' s
               else svc_emit (MessageReceived (env_id e) (env_timestamp e) (env_type e) (env_payload e)
                                redelivered tag)
                      (s\<lparr>pendingDeliveries := insert tag (pendingDeliveries s)\<rparr>)))"

definition onCancelled :: "('a, 'c) channel_ops \<Rightarrow> 'a option \<Rightarrow> ('c, 't) mq_service \<Rightarrow> ('c, 't) mq_service" where
  "onCancelled cops conn s0 =
     (let s = s0\<lparr>consumerStarting := False, svc_consuming := False, cancelPending := False,
                 consumerTag := []\<rparr>
      in if \<not> svc_paused s then snd (startConsuming cops conn s) else s)"

definition onConsumeError :: "string \<Rightarrow> ('c, 't) mq_service \<Rightarrow> ('c, 't) mq_service" where
  "onConsumeError message s = svc_emit (ErrorOccurred message) (s\<lparr>consumerStarting := False\<rparr>)"

definition onCancelSuccess :: "('a, 'c) channel_ops \<Rightarrow> 'a option \<Rightarrow> ('c, 't) mq_service \<Rightarrow> ('c, 't) mq_service" where
  "onCancelSuccess cops conn s0 =
     (let s = s0\<lparr>cancelPending := False, svc_consuming := False, consumerTag := []\<rparr>
      in if \<not> svc_paused s then snd (startConsuming cops conn s) else s)"

definition onCancelError :: "string \<Rightarrow> ('c, 't) mq_service \<Rightarrow> ('c, 't) mq_service" where
  "onCancelError message s = svc_emit (ErrorOccurred message) (s\<lparr>cancelPending := False\<rparr>)"

definition onChannelError :: "string \<Rightarrow> ('c, 't) mq_service \<Rightarrow> ('c, 't) mq_service" where
  "onChannelError message s = svc_emit (ErrorOccurred message) s"

definition onReturned :: "string \<Rightarrow> string \<Rightarrow> ('c, 't) mq_service \<Rightarrow> ('c, 't) mq_service" where
  "onReturned routingKey description s = svc_emit (MessageReturned routingKey description) s"

section \<open>Events\<close>

datatype ('a, 't) svc_event =
    PublishEv "'a option" string 't string QJsonObject
  | StartConsumingEv "'a option"
  | PauseConsumingEv "'a option" bool
  | ConfirmInsertedEv u64
  | ConnectionStateEv bool
  | ConsumeSuccessEv string
  | ReceivedEv bytes u64 bool
  | CancelledEv "'a option"
  | ConsumeErrorEv string
  | CancelSuccessEv "'a option"
  | CancelErrorEv string
  | ChannelErrorEv string
  | ReturnedEv string string

text \<open>A callback runs only while there is a channel.\<close>

definition on_channel :: "(('c, 't) mq_service \<Rightarrow> ('c, 't) mq_service) \<Rightarrow> ('c, 't) mq_service \<Rightarrow> ('c, 't) mq_service" where
  "on_channel f s = (if svc_channel s = None then s else f s)"

fun svc_step ::
  "'t qt_ops \<Rightarrow> ('a, 'c) channel_ops \<Rightarrow> (u64 set \<Rightarrow> u64 list) \<Rightarrow> ('c, 't) mq_service \<Rightarrow> ('a, 't) svc_event
   \<Rightarrow> ('c, 't) mq_service" where
  "svc_step qt cops order s (PublishEv conn uuid now type payload) =
     snd (publish qt cops conn uuid now type payload s)"
| "svc_step qt cops order s (StartConsumingEv conn) = snd (startConsuming cops conn s)"
| "svc_step qt cops order s (PauseConsumingEv conn b) = pauseConsuming cops order conn b s"
| "svc_step qt cops order s (ConfirmInsertedEv t) = confirmInserted cops t s"
| "svc_step qt cops order s (ConnectionStateEv b) = svc_onConnectionStateChanged b s"
| "svc_step qt cops order s (ConsumeSuccessEv tag) = on_channel (onConsumeSuccess cops tag) s"
| "svc_step qt cops order s (ReceivedEv body t r) = on_channel (onReceived qt cops body t r) s"
| "svc_step qt cops order s (CancelledEv conn) = on_channel (onCancelled cops conn) s"
| "svc_step qt cops order s (ConsumeErrorEv e) = on_channel (onConsumeError e) s"
| "svc_step qt cops order s (CancelSuccessEv conn) = on_channel (onCancelSuccess cops conn) s"
| "svc_step qt cops order s (CancelErrorEv e) = on_channel (onCancelError e) s"
| "svc_step qt cops order s (ChannelErrorEv e) = on_channel (onChannelError e) s"
| "svc_step qt cops order s (ReturnedEv k d) = on_channel (onReturned k d) s"

section \<open>Invariant\<close>

fun received_tag :: "'t mq_signal \<Rightarrow> u64 option" where
  "received_tag (MessageReceived i ts ty p r tag) = Some tag"
| "received_tag _ = None"

definition acks_of :: "u64 \<Rightarrow> ('c, 't) mq_service \<Rightarrow> nat" where
  "acks_of t s = length (filter (\<lambda>x. x = DeliveryAcked t) (svc_emitted s))"

definition receipts_of :: "u64 \<Rightarrow> ('c, 't) mq_service \<Rightarrow> nat" where
  "receipts_of t s = length (filter (\<lambda>x. received_tag x = Some t) (svc_emitted s))"

text \<open>
  Deliveries: what is committed is pending, and every acknowledgement belongs to a receipt of its
  own; a pending delivery is a receipt that has not been acknowledged yet. Consumer: it is not both
  starting and running, and it runs, starts or is being cancelled only on an existing channel.
\<close>

definition svc_deliveries_ok :: "('c, 't) mq_service \<Rightarrow> bool" where
  "svc_deliveries_ok s \<longleftrightarrow> finite (pendingDeliveries s) \<and> committedDeliveries s \<subseteq> pendingDeliveries s
   \<and> (\<forall>t. acks_of t s \<le> receipts_of t s) \<and> (\<forall>t \<in> pendingDeliveries s. acks_of t s < receipts_of t s)"

definition svc_consumer_ok :: "('c, 't) mq_service \<Rightarrow> bool" where
  "svc_consumer_ok s \<longleftrightarrow> \<not> (consumerStarting s \<and> svc_consuming s)
   \<and> (consumerStarting s \<or> svc_consuming s \<or> cancelPending s \<longrightarrow> svc_channel s \<noteq> None)"

definition svc_inv :: "('c, 't) mq_service \<Rightarrow> bool" where
  "svc_inv s \<longleftrightarrow> svc_deliveries_ok s \<and> svc_consumer_ok s"

lemma counts_emit [simp]:
  "acks_of t (svc_emit sig s) = acks_of t s + (if sig = DeliveryAcked t then 1 else 0)"
  "receipts_of t (svc_emit sig s) = receipts_of t s + (if received_tag sig = Some t then 1 else 0)"
  by (simp_all add: acks_of_def receipts_of_def svc_emit_def)

lemma svc_emit_fields [simp]:
  "svc_channel (svc_emit sig s) = svc_channel s" "consumerTag (svc_emit sig s) = consumerTag s"
  "pendingDeliveries (svc_emit sig s) = pendingDeliveries s"
  "committedDeliveries (svc_emit sig s) = committedDeliveries s"
  "svc_paused (svc_emit sig s) = svc_paused s" "consumerStarting (svc_emit sig s) = consumerStarting s"
  "svc_consuming (svc_emit sig s) = svc_consuming s" "cancelPending (svc_emit sig s) = cancelPending s"
  by (simp_all add: svc_emit_def)

text \<open>Fields that the two halves of the invariant do not look at.\<close>

lemma deliveries_frame [simp]:
  "svc_deliveries_ok (s\<lparr>svc_channel := c\<rparr>) = svc_deliveries_ok s"
  "svc_deliveries_ok (s\<lparr>consumerTag := tg\<rparr>) = svc_deliveries_ok s"
  "svc_deliveries_ok (s\<lparr>svc_paused := b\<rparr>) = svc_deliveries_ok s"
  "svc_deliveries_ok (s\<lparr>consumerStarting := b\<rparr>) = svc_deliveries_ok s"
  "svc_deliveries_ok (s\<lparr>svc_consuming := b\<rparr>) = svc_deliveries_ok s"
  "svc_deliveries_ok (s\<lparr>cancelPending := b\<rparr>) = svc_deliveries_ok s"
  by (simp_all add: svc_deliveries_ok_def acks_of_def receipts_of_def)

lemma deliveries_emit:
  "received_tag sig = None \<Longrightarrow> \<forall>t. sig \<noteq> DeliveryAcked t \<Longrightarrow>
     svc_deliveries_ok (svc_emit sig s) = svc_deliveries_ok s"
  by (simp add: svc_deliveries_ok_def)

lemma deliveries_le: "svc_deliveries_ok s \<Longrightarrow> acks_of t s \<le> receipts_of t s"
  by (simp add: svc_deliveries_ok_def)

lemma counts_frame [simp]:
  "acks_of t (s\<lparr>pendingDeliveries := P\<rparr>) = acks_of t s"
  "acks_of t (s\<lparr>committedDeliveries := C\<rparr>) = acks_of t s"
  "receipts_of t (s\<lparr>pendingDeliveries := P\<rparr>) = receipts_of t s"
  "receipts_of t (s\<lparr>committedDeliveries := C\<rparr>) = receipts_of t s"
  by (simp_all add: acks_of_def receipts_of_def)

lemma deliveries_shrink:
  "svc_deliveries_ok s \<Longrightarrow> P \<subseteq> pendingDeliveries s \<Longrightarrow> C \<subseteq> P \<Longrightarrow>
     svc_deliveries_ok (s\<lparr>pendingDeliveries := P, committedDeliveries := C\<rparr>)"
  by (auto simp: svc_deliveries_ok_def intro: finite_subset)

lemma deliveries_commit:
  "svc_deliveries_ok s \<Longrightarrow> t \<in> pendingDeliveries s \<Longrightarrow>
     svc_deliveries_ok (s\<lparr>committedDeliveries := insert t (committedDeliveries s)\<rparr>)"
  by (simp add: svc_deliveries_ok_def)

lemma deliveries_ack:
  assumes "svc_deliveries_ok s" and "t \<in> pendingDeliveries s"
  shows "svc_deliveries_ok (svc_emit (DeliveryAcked t)
     (s\<lparr>committedDeliveries := committedDeliveries s - {t}, pendingDeliveries := pendingDeliveries s - {t}\<rparr>))"
  using assms by (auto simp: svc_deliveries_ok_def Suc_le_eq)

lemma deliveries_receive:
  assumes "svc_deliveries_ok s" and "received_tag sig = Some t"
  shows "svc_deliveries_ok (svc_emit sig (s\<lparr>pendingDeliveries := insert t (pendingDeliveries s)\<rparr>))"
proof -
  have "sig \<noteq> DeliveryAcked t'" for t' using assms(2) by auto
  then show ?thesis using assms by (auto simp: svc_deliveries_ok_def le_SucI less_SucI less_Suc_eq_le)
qed

lemma ensureChannel_deliveries [inv_intros]:
  "svc_deliveries_ok s \<Longrightarrow> svc_deliveries_ok (snd (ensureChannel cops conn s))"
  by (auto simp: ensureChannel_def deliveries_emit split: option.splits)

lemma startConsuming_deliveries [inv_intros]:
  "svc_deliveries_ok s \<Longrightarrow> svc_deliveries_ok (snd (startConsuming cops conn s))"
  using ensureChannel_deliveries [of s cops conn]
  by (auto simp: startConsuming_def Let_def split: prod.splits)

lemma cancelConsumer_deliveries [inv_intros]:
  "svc_deliveries_ok s \<Longrightarrow> svc_deliveries_ok (cancelConsumer cops s)"
  by (auto simp: cancelConsumer_def split: option.splits)

lemma publish_deliveries [inv_intros]:
  "svc_deliveries_ok s \<Longrightarrow> svc_deliveries_ok (snd (publish qt cops conn uuid now type payload s))"
  using ensureChannel_deliveries [of s cops conn]
  by (auto simp: publish_def Let_def deliveries_emit split: prod.splits option.splits)

lemma rejectDelivery_deliveries [inv_intros]:
  "svc_deliveries_ok s \<Longrightarrow> svc_deliveries_ok (rejectDelivery cops t reason s)"
  by (auto simp: rejectDelivery_def Let_def deliveries_emit split: prod.splits option.splits
      intro!: deliveries_shrink dest: subsetD [rotated] simp: svc_deliveries_ok_def [of s])

lemma confirmInserted_deliveries [inv_intros]:
  "svc_deliveries_ok s \<Longrightarrow> svc_deliveries_ok (confirmInserted cops t s)"
  using deliveries_ack [of "s\<lparr>svc_channel := c\<rparr>" t for c]
  by (auto simp: confirmInserted_def Let_def deliveries_emit deliveries_commit
      split: prod.splits option.splits)

lemma confirmAll_deliveries [inv_intros]:
  "svc_deliveries_ok s \<Longrightarrow> svc_deliveries_ok (fold (confirmInserted cops) ts s)"
  by (induction ts arbitrary: s) (auto intro: inv_intros)

lemma onReceived_deliveries [inv_intros]:
  "svc_deliveries_ok s \<Longrightarrow> svc_deliveries_ok (onReceived qt cops body t r s)"
  by (simp add: onReceived_def Let_def rejectDelivery_deliveries deliveries_receive)

lemma svc_step_deliveries: "svc_deliveries_ok s \<Longrightarrow> svc_deliveries_ok (svc_step qt cops order s e)"
  by (cases e)
     (auto simp: on_channel_def svc_onConnectionStateChanged_def resetConnectionState_def
        pauseConsuming_def onConsumeSuccess_def onCancelled_def onConsumeError_def onCancelSuccess_def
        onCancelError_def onChannelError_def onReturned_def Let_def deliveries_emit intro!: inv_intros deliveries_shrink)

lemma ensureChannel_consumer [inv_intros]:
  "svc_consumer_ok s \<Longrightarrow> svc_consumer_ok (snd (ensureChannel cops conn s))"
  by (auto simp: ensureChannel_def svc_consumer_ok_def split: option.splits)

lemma startConsuming_consumer [inv_intros]:
  "svc_consumer_ok s \<Longrightarrow> svc_consumer_ok (snd (startConsuming cops conn s))"
  by (cases "svc_channel s"; cases conn)
     (auto simp: startConsuming_def ensureChannel_def svc_consumer_ok_def)

lemma cancelConsumer_consumer [inv_intros]:
  "svc_consumer_ok s \<Longrightarrow> svc_consumer_ok (cancelConsumer cops s)"
  by (auto simp: cancelConsumer_def svc_consumer_ok_def split: option.splits)

lemma confirmInserted_frame [simp]:
  "svc_consuming (confirmInserted cops t s) = svc_consuming s"
  "consumerStarting (confirmInserted cops t s) = consumerStarting s"
  "cancelPending (confirmInserted cops t s) = cancelPending s"
  "svc_paused (confirmInserted cops t s) = svc_paused s"
  "(svc_channel (confirmInserted cops t s) = None) = (svc_channel s = None)"
  by (auto simp: confirmInserted_def Let_def split: option.splits prod.splits)

lemma confirmAll_frame [simp]:
  "svc_consuming (fold (confirmInserted cops) ts s) = svc_consuming s"
  "consumerStarting (fold (confirmInserted cops) ts s) = consumerStarting s"
  "cancelPending (fold (confirmInserted cops) ts s) = cancelPending s"
  "svc_paused (fold (confirmInserted cops) ts s) = svc_paused s"
  "(svc_channel (fold (confirmInserted cops) ts s) = None) = (svc_channel s = None)"
  by (induction ts arbitrary: s) simp_all

lemma publish_consumer: "svc_consumer_ok s \<Longrightarrow> svc_consumer_ok (snd (publish qt cops conn uuid now type payload s))"
  by (cases "svc_channel s"; cases conn)
     (auto simp: publish_def ensureChannel_def Let_def svc_consumer_ok_def split: prod.splits)

lemma onReceived_consumer: "svc_consumer_ok s \<Longrightarrow> svc_consumer_ok (onReceived qt cops body t r s)"
  by (auto simp: onReceived_def rejectDelivery_def Let_def svc_consumer_ok_def split: prod.splits option.splits)

lemma pauseConsuming_consumer:
  "svc_consumer_ok s \<Longrightarrow> svc_consumer_ok (pauseConsuming cops order conn b s)"
  by (auto simp: pauseConsuming_def Let_def intro!: inv_intros) (simp_all add: svc_consumer_ok_def)

lemma svc_step_consumer: "svc_consumer_ok s \<Longrightarrow> svc_consumer_ok (svc_step qt cops order s e)"
proof (cases e)
  case (ConfirmInsertedEv t)
  assume "svc_consumer_ok s"
  then show ?thesis using ConfirmInsertedEv by (simp add: svc_consumer_ok_def)
qed (auto simp: on_channel_def publish_consumer onReceived_consumer pauseConsuming_consumer
       svc_onConnectionStateChanged_def resetConnectionState_def onConsumeSuccess_def onCancelled_def
       onConsumeError_def onCancelSuccess_def onCancelError_def onChannelError_def onReturned_def Let_def
       intro!: inv_intros, simp_all add: svc_consumer_ok_def)

interpretation svc: invariant_machine "svc_step qt cops order" svc_inv
  by unfold_locales (simp add: svc_inv_def svc_step_deliveries svc_step_consumer)

lemma newMqService_inv: "svc_inv newMqService"
  by (simp add: svc_inv_def svc_deliveries_ok_def svc_consumer_ok_def newMqService_def acks_of_def receipts_of_def)

section \<open>Resuming\<close>

lemma confirm_accepted:
  assumes "\<And>t c. fst (ch_ack cops t c)" and "\<not> svc_paused s" and "svc_channel s \<noteq> None"
    and "t \<in> pendingDeliveries s"
  shows "pendingDeliveries (confirmInserted cops t s) = pendingDeliveries s - {t}
       \<and> committedDeliveries (confirmInserted cops t s) = committedDeliveries s - {t}
       \<and> svc_emitted (confirmInserted cops t s) = svc_emitted s @ [DeliveryAcked t]"
proof -
  obtain ch where ch: "svc_channel s = Some ch" using assms(3) by auto
  obtain ok ch' where a: "ch_ack cops t ch = (ok, ch')" by fastforce
  then have ok using assms(1) [of t ch] by simp
  then show ?thesis using assms(2,4) ch a by (simp add: confirmInserted_def svc_emit_def)
qed

lemma confirmAll_accepted:
  assumes "\<And>t c. fst (ch_ack cops t c)"
  shows "\<not> svc_paused s \<Longrightarrow> svc_channel s \<noteq> None \<Longrightarrow> distinct ts \<Longrightarrow> set ts \<subseteq> pendingDeliveries s \<Longrightarrow>
     pendingDeliveries (fold (confirmInserted cops) ts s) = pendingDeliveries s - set ts
   \<and> committedDeliveries (fold (confirmInserted cops) ts s) = committedDeliveries s - set ts
   \<and> svc_emitted (fold (confirmInserted cops) ts s) = svc_emitted s @ map DeliveryAcked ts"
proof (induction ts arbitrary: s)
  case Nil
  then show ?case by simp
next
  case (Cons t ts)
  have c: "pendingDeliveries (confirmInserted cops t s) = pendingDeliveries s - {t}"
      "committedDeliveries (confirmInserted cops t s) = committedDeliveries s - {t}"
      "svc_emitted (confirmInserted cops t s) = svc_emitted s @ [DeliveryAcked t]"
    using confirm_accepted [OF assms, where s = s and t = t] Cons.prems by auto
  have "set ts \<subseteq> pendingDeliveries (confirmInserted cops t s)" using Cons.prems c(1) by auto
  then show ?case using Cons.IH [of "confirmInserted cops t s"] Cons.prems c by auto
qed

text \<open>Starting the consumer does not touch the deliveries, and on an existing channel emits nothing.\<close>

lemma startConsuming_frame:
  "pendingDeliveries (snd (startConsuming cops conn s)) = pendingDeliveries s"
  "committedDeliveries (snd (startConsuming cops conn s)) = committedDeliveries s"
  "svc_channel s \<noteq> None \<Longrightarrow> svc_emitted (snd (startConsuming cops conn s)) = svc_emitted s"
  by (auto simp: startConsuming_def ensureChannel_def Let_def split: option.splits)

section \<open>The service on top of its connection\<close>

text \<open>
  The service is what the connection's connectionStateChanged signal reaches. While the driver is
  not connected, no event of a failed attempt and of the following reconnect sends that signal.
\<close>

lemma owner_error:
  assumes "mq_wired ops slot m" and "\<not> m_connected m"
  shows "mq_owner (world (mq_onSocketError ops m)) = mq_owner (world m)
       \<and> \<not> m_connected (mq_onSocketError ops m)"
proof -
  have "onReconnectingChanged m b w = w" for b w using assms(1) by (simp add: mq_wired_def)
  then show ?thesis using assms(2)
    by (auto simp: mq_onSocketError_def mq_attemptFailed_def reportPendingConnectResult_def
        cs_helper_defs Let_def)
qed

lemma owner_reconnect:
  assumes "mq_wired ops slot m" and "\<not> m_connected m"
  shows "mq_owner (world (cs_step m ReconnectTick)) = mq_owner (world m)"
proof (cases "m_reconnectTimer m")
  case None
  then show ?thesis by simp
next
  case (Some d)
  let ?w = "world m"
  obtain failed sk where k: "sock_connectToHost ops (mq_host ?w) (mq_port ?w) (sock_abort ops (mq_socket ?w)) = (failed, sk)" by fastforce
  show ?thesis using Some assms k
    by (cases "m_connect m")
       (auto simp: mq_wired_def onReconnectTick_def mq_connectHandler_def mq_disconnectHandler_def callConnect_def
          reportPendingConnectResult_def cs_helper_defs Let_def)
qed

lemma owner_data: "\<forall>e \<in> set evs. \<exists>b. e = OnData b \<Longrightarrow>
  mq_owner (world (fold (mq_handle ops) evs m)) = mq_owner (world m)"
  by (induction evs arbitrary: m) (auto simp: mq_onData_def)

section \<open>Properties\<close>

text \<open>
  C19. No delivery is acknowledged twice or without having been received: whatever the application,
  the broker and the network do, in whatever order, every acknowledgement of a delivery tag has a
  receipt of that tag of its own, and the deliveries whose storage is confirmed but not yet
  acknowledged are among the pending ones.
\<close>
theorem mq_ack_at_most_once:
  "acks_of t (run_steps (svc_step qt cops order) newMqService es)
     \<le> receipts_of t (run_steps (svc_step qt cops order) newMqService es)
   \<and> committedDeliveries (run_steps (svc_step qt cops order) newMqService es)
     \<subseteq> pendingDeliveries (run_steps (svc_step qt cops order) newMqService es)"
  using svc.run_inv [OF newMqService_inv, of qt cops order es]
  by (simp add: svc_inv_def svc_deliveries_ok_def)

text \<open>
  Pausing defers acknowledgements and resuming makes up for them: while paused, confirming a
  delivery only records it, and resuming on a channel that takes acknowledgements acknowledges each
  recorded delivery exactly once, forgets them all and keeps the other pending deliveries.
\<close>
theorem mq_resume_acknowledges:
  assumes s: "s = run_steps (svc_step qt cops order) newMqService es"
    and chan: "svc_channel s \<noteq> None" and acks: "\<And>t c. fst (ch_ack cops t c)"
    and enum: "set (order (committedDeliveries s)) = committedDeliveries s"
      "distinct (order (committedDeliveries s))"
  shows "svc_emitted (pauseConsuming cops order conn False s)
           = svc_emitted s @ map DeliveryAcked (order (committedDeliveries s))
       \<and> committedDeliveries (pauseConsuming cops order conn False s) = {}
       \<and> pendingDeliveries (pauseConsuming cops order conn False s) = pendingDeliveries s - committedDeliveries s
       \<and> (svc_paused s \<longrightarrow> svc_emitted (confirmInserted cops t s) = svc_emitted s
            \<and> pendingDeliveries (confirmInserted cops t s) = pendingDeliveries s)"
proof -
  have inv: "svc_inv s" unfolding s by (rule svc.run_inv [OF newMqService_inv])
  let ?s = "s\<lparr>svc_paused := False\<rparr>"
  let ?r = "fold (confirmInserted cops) (order (committedDeliveries s)) ?s"
  have sub: "set (order (committedDeliveries s)) \<subseteq> pendingDeliveries ?s"
    using inv enum(1) by (simp add: svc_inv_def svc_deliveries_ok_def)
  have r: "pendingDeliveries ?r = pendingDeliveries s - committedDeliveries s \<and> committedDeliveries ?r = {}
         \<and> svc_emitted ?r = svc_emitted s @ map DeliveryAcked (order (committedDeliveries s))"
    using confirmAll_accepted [where cops = cops and s = ?s and ts = "order (committedDeliveries s)",
        OF acks] chan enum sub by simp
  have c: "svc_channel ?r \<noteq> None" using chan by simp
  have "pendingDeliveries (pauseConsuming cops order conn False s) = pendingDeliveries ?r
      \<and> committedDeliveries (pauseConsuming cops order conn False s) = committedDeliveries ?r
      \<and> svc_emitted (pauseConsuming cops order conn False s) = svc_emitted ?r"
    using startConsuming_frame [where cops = cops and conn = conn and s = ?r] c by (simp add: pauseConsuming_def Let_def)
  moreover have "svc_paused s \<Longrightarrow> svc_emitted (confirmInserted cops t s) = svc_emitted s
      \<and> pendingDeliveries (confirmInserted cops t s) = pendingDeliveries s"
    by (simp add: confirmInserted_def Let_def)
  ultimately show ?thesis using r by simp
qed

text \<open>A channel that counts its calls, a codec of one message, and a paused consumer with one delivery.\<close>

definition demo_chan :: "(nat, nat) channel_ops" where
  "demo_chan = \<lparr>ch_create = (\<lambda>a. a), ch_publish = (\<lambda>x k b c. (True, c + 1)), ch_setQos = (\<lambda>n c. c),
     ch_consume = (\<lambda>q c. c + 1), ch_ack = (\<lambda>t c. (True, c + 1)), ch_reject = (\<lambda>t c. (True, c + 1)),
     ch_cancel = (\<lambda>tag c. c + 1)\<rparr>"

definition demo_object :: QJsonObject where
  "demo_object = [(''id'', JString ''a''), (''ts'', JString ''t''), (''v'', JDouble 1),
     (''src'', JString ''qt-mq-lab''), (''type'', JString ''card''), (''payload'', JObject [])]"

definition demo_qt :: "unit qt_ops" where
  "demo_qt = \<lparr>qt_fromJson = (\<lambda>_. Some (JObject demo_object)), qt_toJson = (\<lambda>_. []),
     qt_parseIso = (\<lambda>_. Some ()), qt_formatIso = (\<lambda>_. ''t''), qt_isUtc = (\<lambda>_. True)\<rparr>"

definition demo_events :: "(nat, unit) svc_event list" where
  "demo_events = [StartConsumingEv (Some 0), ReceivedEv [] 7 False, ReceivedEv [] 8 False,
     PauseConsumingEv None True, ConfirmInsertedEv 7]"

definition demo_paused :: "(nat, unit) mq_service" where
  "demo_paused = run_steps (svc_step demo_qt demo_chan sorted_list_of_set) newMqService demo_events"

lemmas demo_defs = demo_qt_def demo_chan_def demo_object_def demo_events_def newMqService_def
  startConsuming_def ensureChannel_def onReceived_def on_channel_def mq_decode_def decodeObject_def
  pauseConsuming_def cancelConsumer_def confirmInserted_def svc_emit_def

lemma demo_paused_state: "committedDeliveries demo_paused = {7} \<and> svc_channel demo_paused \<noteq> None"
  by (simp add: demo_paused_def demo_defs Let_def)

theorem mq_resume_acknowledges_witness:
  "svc_emitted (pauseConsuming demo_chan sorted_list_of_set None False demo_paused)
     = svc_emitted demo_paused @ [DeliveryAcked 7]"
proof -
  have "fst (ch_ack demo_chan t c)" for t c by (simp add: demo_chan_def)
  then show ?thesis
    using mq_resume_acknowledges [OF demo_paused_def] demo_paused_state by simp
qed

text \<open>
  A channel can outlive the connection it was built on: when the driver is not ready yet (the
  socket is connected, so there is a connection object to build a channel on, but the handshake is
  not over), a socket error and the following reconnect replace the connection object without the
  service being told. It keeps its channel of the dead connection, and will not create another.
\<close>
theorem mq_channel_outlives_its_connection:
  assumes "mq_reachable ops aops svc_onConnectionStateChanged m" and "\<not> mq_isReady m"
    and "\<And>u p v. \<forall>e \<in> set (fst (amqp_new aops u p v)). \<exists>b. e = OnData b"
  shows "mq_owner (world (mq_onSocketConnected ops aops (cs_step (mq_onSocketError ops m) ReconnectTick)))
       = mq_owner (world m)"
proof -
  let ?e = "mq_onSocketError ops m"
  have wired: "mq_wired ops svc_onConnectionStateChanged m" using assms(1) by (rule mq_reachable_wired)
  moreover have "mq_wired ops svc_onConnectionStateChanged ?e" using mq_step_wired [OF mq_other [OF mq_socket_error] wired] .
  ultimately have "mq_owner (world (cs_step ?e ReconnectTick)) = mq_owner (world m)"
    using owner_error owner_reconnect assms(2) by (metis mq_isReady_def)
  moreover obtain evs a where n: "amqp_new aops (mq_user (world (cs_step ?e ReconnectTick)))
      (mq_password (world (cs_step ?e ReconnectTick))) (mq_vhost (world (cs_step ?e ReconnectTick))) = (evs, a)"
    by fastforce
  moreover have "\<forall>e \<in> set evs. \<exists>b. e = OnData b" using assms(3) n by (metis fst_conv)
  ultimately show ?thesis
    by (simp add: mq_onSocketConnected_def Let_def owner_data del: cs_step.simps)
qed

text \<open>The socket is connected, the handshake is not over, and a channel is opened.\<close>

definition demo_link :: "(log_socket, nat, (nat, unit) mq_service) mq" where
  "demo_link =
     mq_onSocketConnected log_ops demo_amqp
       (mq_connectToHost log_ops ''broker'' 5672 ''/'' ''dev'' ''pw''
          (newMqConnection svc_onConnectionStateChanged
             \<lparr>log_written = [], log_incoming = [], log_up = True\<rparr> newMqService))"

definition demo_early :: "(log_socket, nat, (nat, unit) mq_service) mq" where
  "demo_early =
     demo_link\<lparr>world := (world demo_link)
       \<lparr>mq_socket := mq_socket (world demo_link),
        mq_owner := snd (startConsuming demo_chan (mq_connection (world demo_link)) newMqService)\<rparr>\<rparr>"

lemma demo_early_reachable:
  "mq_reachable log_ops demo_amqp svc_onConnectionStateChanged demo_early"
  unfolding demo_early_def demo_link_def
  by (rule mq_next [OF mq_next [OF mq_next [OF mq_start mq_connect] mq_other [OF mq_connected]] mq_other [OF mq_environment]])

theorem mq_channel_outlives_its_connection_witness:
  "svc_channel (mq_owner (world (mq_onSocketConnected log_ops demo_amqp
     (cs_step (mq_onSocketError log_ops demo_early) ReconnectTick)))) \<noteq> None"
proof -
  have "\<not> mq_isReady demo_early" and c: "svc_channel (mq_owner (world demo_early)) \<noteq> None"
    by (simp_all add: demo_early_def demo_link_def mq_isReady_def mq_onSocketConnected_def demo_amqp_def
        mq_onData_def mq_connectToHost_def newMqConnection_def newConnectionState_def beginAutoConnect_def
        mq_connectHandler_def callConnect_def log_ops_def cs_helper_defs demo_defs Let_def)
  moreover have "\<forall>e \<in> set (fst (amqp_new demo_amqp u p v)). \<exists>b. e = OnData b" for u p v
    by (simp add: demo_amqp_def)
  ultimately show ?thesis
    using mq_channel_outlives_its_connection [OF demo_early_reachable] c by metis
qed

end
