(* ===== verification/Qt_Strings.thy ===== *)
theory Qt_Strings
  imports Prelude
begin

text \<open>
  The string functions of the GUI framework that the infrastructure code uses, on lists of
  characters: the position of a substring, splitting, trimming white space and comparing without
  regard to case.
\<close>

section \<open>Searching\<close>

text \<open>QString::indexOf: the first position at which the needle starts; None stands for -1.\<close>

fun indexOf :: "string \<Rightarrow> string \<Rightarrow> nat option" where
  "indexOf needle [] = (if needle = [] then Some 0 else None)"
| "indexOf needle (c # cs) =
     (if take (length needle) (c # cs) = needle then Some 0 else map_option Suc (indexOf needle cs))"

lemma indexOf_Some: "indexOf needle s = Some i \<Longrightarrow> take (length needle) (drop i s) = needle \<and> i \<le> length s"
  by (induction s arbitrary: i) (auto split: if_splits)

lemma indexOf_least: "indexOf needle s = Some i \<Longrightarrow> j < i \<Longrightarrow> take (length needle) (drop j s) \<noteq> needle"
proof (induction s arbitrary: i j)
  case Nil
  then show ?case by (simp split: if_splits)
next
  case (Cons c s)
  then show ?case by (cases j) (auto split: if_splits)
qed

lemma indexOf_char: "indexOf [c] s = (if c \<in> set s then Some (length (takeWhile (\<lambda>x. x \<noteq> c) s)) else None)"
  by (induction s) auto

section \<open>Splitting and trimming\<close>

fun split_char :: "char \<Rightarrow> string \<Rightarrow> string list" where
  "split_char sep [] = [[]]"
| "split_char sep (c # cs) =
     (if c = sep then [] # split_char sep cs
      else (case split_char sep cs of [] \<Rightarrow> [[c]] | l # ls \<Rightarrow> (c # l) # ls))"

lemma split_char_not_Nil [simp]: "split_char sep s \<noteq> []"
  by (induction s) (auto split: list.splits)

lemma split_char_no_sep: "sep \<notin> set s \<Longrightarrow> split_char sep s = [s]"
  by (induction s) auto

lemma split_char_append: "sep \<notin> set s \<Longrightarrow> split_char sep (s @ sep # t) = s # split_char sep t"
  by (induction s) (auto split: list.splits)

text \<open>The text of several lines and back.\<close>

fun unlines_with :: "char \<Rightarrow> string list \<Rightarrow> string" where
  "unlines_with sep [] = []"
| "unlines_with sep [l] = l"
| "unlines_with sep (l # ls) = l @ sep # unlines_with sep ls"

lemma split_unlines: "ls \<noteq> [] \<Longrightarrow> \<forall>l \<in> set ls. sep \<notin> set l \<Longrightarrow> split_char sep (unlines_with sep ls) = ls"
  by (induction sep ls rule: unlines_with.induct) (simp_all add: split_char_no_sep split_char_append)

definition is_space :: "char \<Rightarrow> bool" where
  "is_space c = (c = CHR 0x20 \<or> (9 \<le> (of_char c :: nat) \<and> (of_char c :: nat) \<le> 13))"

definition trimmed :: "string \<Rightarrow> string" where
  "trimmed s = rev (dropWhile is_space (rev (dropWhile is_space s)))"

lemma trimmed_solid: "(\<forall>c \<in> set s. \<not> is_space c) \<Longrightarrow> trimmed (replicate n CHR 0x20 @ s) = s"
proof -
  assume s: "\<forall>c \<in> set s. \<not> is_space c"
  have "dropWhile is_space (replicate n CHR 0x20 @ s) = dropWhile is_space s"
    by (induction n) (simp_all add: is_space_def)
  moreover have "dropWhile is_space s = s" using s by (cases s) auto
  moreover have "dropWhile is_space (rev s) = rev s" using s by (cases "rev s") (auto simp: rev_eq_Cons_iff)
  ultimately show ?thesis by (simp add: trimmed_def)
qed

section \<open>Letter case\<close>

definition lower_char :: "char \<Rightarrow> char" where
  "lower_char c = (let n = of_char c :: nat in if 65 \<le> n \<and> n \<le> 90 then char_of (n + 32) else c)"

definition same_text :: "string \<Rightarrow> string \<Rightarrow> bool" where
  "same_text a b = (map lower_char a = map lower_char b)"

definition starts_with :: "string \<Rightarrow> string \<Rightarrow> bool" where
  "starts_with s p = (take (length p) s = p)"

end
