(* ===== verification/Mq_Store.thy ===== *)
theory Mq_Store
  imports Qt_Strings Mq_Codec
begin

text \<open>
  The message store: src/infra/db/statement.h, src/infra/db/database.\{h,cpp\} and
  src/features/mq/mq_store.\{h,cpp\}. What SQLite does with a statement is a parameter (the record
  sqlite): opening, executing, preparing, the answers of the successive calls of sqlite3\_step.
  The model keeps the SQL texts (with the white space between their words reduced to one blank), the
  bindings and the column numbers of the source, and the exceptions as the left values of a sum.
\<close>

section \<open>The database interface\<close>

datatype sqlvalue = VNull | VInt int | VText string

record statement =
  st_sql :: string
  st_bindings :: "(nat \<times> sqlvalue) list"

datatype step_answer = SQLITE_ROW "sqlvalue list" | SQLITE_DONE | SQLITE_FAILED string

text \<open>
  open and exec give a message on failure (exec possibly none), prepare gives a message when it
  fails; run gives the new database and the answers of step, which the caller takes one by one.
\<close>

record 'db sqlite =
  sq_open :: "string \<Rightarrow> string + 'db"
  sq_exec :: "'db \<Rightarrow> string \<Rightarrow> string option + 'db"
  sq_prepare :: "'db \<Rightarrow> string \<Rightarrow> string option"
  sq_run :: "'db \<Rightarrow> statement \<Rightarrow> 'db \<times> step_answer list"
  sq_changes :: "'db \<Rightarrow> int"
  sq_textToInt :: "string \<Rightarrow> int"

type_synonym 'a result = "string + 'a"

definition dec_int :: "int \<Rightarrow> string" where
  "dec_int i = (if i < 0 then CHR ''-'' # dec_digits (nat (- i)) else dec_digits (nat i))"

section \<open>Statement\<close>

definition prepareStatement :: "'db sqlite \<Rightarrow> 'db \<Rightarrow> string \<Rightarrow> statement result" where
  "prepareStatement sq db sql =
     (case sq_prepare sq db sql of
        Some msg \<Rightarrow> Inl (''SQL prepare failed: '' @ msg)
      | None \<Rightarrow> Inr \<lparr>st_sql = sql, st_bindings = []\<rparr>)"

text \<open>The length given to sqlite3\_bind\_text is -1: the text ends at the first NUL character.\<close>

definition bindText :: "nat \<Rightarrow> string \<Rightarrow> statement \<Rightarrow> statement" where
  "bindText index v st = st\<lparr>st_bindings := st_bindings st @ [(index, VText (takeWhile (\<lambda>c. c \<noteq> CHR 0x00) v))]\<rparr>"

definition bindInt :: "nat \<Rightarrow> int \<Rightarrow> statement \<Rightarrow> statement" where
  "bindInt index v st = st\<lparr>st_bindings := st_bindings st @ [(index, VInt v)]\<rparr>"

definition bindNull :: "nat \<Rightarrow> statement \<Rightarrow> statement" where
  "bindNull index st = st\<lparr>st_bindings := st_bindings st @ [(index, VNull)]\<rparr>"

definition resetStatement :: "statement \<Rightarrow> statement" where
  "resetStatement st = st\<lparr>st_bindings := []\<rparr>"

text \<open>step: the row when there is one, None at the end, an exception otherwise.\<close>

fun stepResult :: "step_answer \<Rightarrow> sqlvalue list option result" where
  "stepResult (SQLITE_ROW r) = Inr (Some r)"
| "stepResult SQLITE_DONE = Inr None"
| "stepResult (SQLITE_FAILED msg) = Inl (''SQL step failed: '' @ msg)"

definition column :: "sqlvalue list \<Rightarrow> nat \<Rightarrow> sqlvalue" where
  "column r i = (if i < length r then r ! i else VNull)"

definition getIsNull :: "sqlvalue list \<Rightarrow> nat \<Rightarrow> bool" where
  "getIsNull r i = (column r i = VNull)"

definition getText :: "sqlvalue list \<Rightarrow> nat \<Rightarrow> string" where
  "getText r i = (case column r i of VNull \<Rightarrow> [] | VInt n \<Rightarrow> dec_int n | VText t \<Rightarrow> t)"

definition getInt64 :: "'db sqlite \<Rightarrow> sqlvalue list \<Rightarrow> nat \<Rightarrow> int" where
  "getInt64 sq r i = (case column r i of VNull \<Rightarrow> 0 | VInt n \<Rightarrow> n | VText t \<Rightarrow> sq_textToInt sq t)"

text \<open>sqlite3\_column\_int: the low 32 bits as a signed number.\<close>

definition getInt :: "'db sqlite \<Rightarrow> sqlvalue list \<Rightarrow> nat \<Rightarrow> int" where
  "getInt sq r i = sint (word_of_int (getInt64 sq r i) :: 32 word)"

section \<open>Database\<close>

definition db_exec :: "'db sqlite \<Rightarrow> string \<Rightarrow> 'db \<Rightarrow> 'db result" where
  "db_exec sq sql db =
     (case sq_exec sq db sql of
        Inl msg \<Rightarrow> Inl (''SQL exec failed: '' @ (case msg of None \<Rightarrow> ''unknown error'' | Some m \<Rightarrow> m)
                        @ [CHR 0x0A] @ ''Query: '' @ sql)
      | Inr db' \<Rightarrow> Inr db')"

fun exec_all :: "'db sqlite \<Rightarrow> string list \<Rightarrow> 'db \<Rightarrow> 'db result" where
  "exec_all sq [] db = Inr db"
| "exec_all sq (q # qs) db = (case db_exec sq q db of Inl e \<Rightarrow> Inl e | Inr db' \<Rightarrow> exec_all sq qs db')"

text \<open>
  The constructor: the result and the number of connections it leaves open. A constructor that
  throws does not run the destructor, so only the explicit sqlite3\_close counts.
\<close>

definition openDatabase :: "'db sqlite \<Rightarrow> string \<Rightarrow> 'db result \<times> nat" where
  "openDatabase sq path =
     (case sq_open sq path of
        Inl msg \<Rightarrow> (Inl (''Failed to open database at '' @ path @ '': '' @ msg), 0)
      | Inr db \<Rightarrow> (exec_all sq [''PRAGMA foreign_keys = ON;'', ''PRAGMA journal_mode = WAL;''] db, 1))"

definition hasColumn :: "'db sqlite \<Rightarrow> string \<Rightarrow> string \<Rightarrow> 'db \<Rightarrow> bool result" where
  "hasColumn sq table col db =
     (case prepareStatement sq db ''SELECT COUNT(*) FROM pragma_table_info(?) WHERE name = ?'' of
        Inl e \<Rightarrow> Inl e
      | Inr st \<Rightarrow>
          (case stepResult (hd (snd (sq_run sq db (bindText 2 col (bindText 1 table st))))) of
             Inl e \<Rightarrow> Inl e
           | Inr None \<Rightarrow> Inr False
           | Inr (Some r) \<Rightarrow> Inr (getInt sq r 0 > 0)))"

section \<open>MqStore\<close>

record 't store_ops = "'t qt_ops" +
  so_toIsoMs :: "'t \<Rightarrow> string"
  so_fromIsoMs :: "string \<Rightarrow> 't option"
  so_fromUtf8 :: "bytes \<Rightarrow> string"
  so_toUtf8 :: "string \<Rightarrow> bytes"

record 't StoredMessage =
  sm_id :: int
  sm_envelopeId :: string
  sm_envelopeTimestamp :: "'t option"
  sm_envelopeType :: string
  sm_direction :: string
  sm_payload :: QJsonObject
  sm_redelivered :: bool
  sm_acked :: bool
  sm_displayTitle :: string
  sm_searchText :: string
  sm_createdAt :: "'t option"

definition kSelectColumns :: string where
  "kSelectColumns = ''id, envelope_id, envelope_ts, envelope_type, direction, payload, '' @
     ''redelivered, acked, display_title, search_text, created_at''"

definition readStoredMessage :: "'t store_ops \<Rightarrow> 'db sqlite \<Rightarrow> sqlvalue list \<Rightarrow> 't StoredMessage" where
  "readStoredMessage qt sq r =
     \<lparr>sm_id = getInt64 sq r 0, sm_envelopeId = getText r 1, sm_envelopeTimestamp = so_fromIsoMs qt (getText r 2),
      sm_envelopeType = getText r 3, sm_direction = getText r 4,
      sm_payload = (case asObject (qt_fromJson qt (so_toUtf8 qt (getText r 5))) of None \<Rightarrow> [] | Some payload \<Rightarrow> payload),
      sm_redelivered = (getInt sq r 6 \<noteq> 0), sm_acked = (getInt sq r 7 \<noteq> 0),
      sm_displayTitle = getText r 8, sm_searchText = getText r 9, sm_createdAt = so_fromIsoMs qt (getText r 10)\<rparr>"

text \<open>The loop over the rows; None when the answers end before SQLite says so.\<close>

fun readRows :: "'t store_ops \<Rightarrow> 'db sqlite \<Rightarrow> step_answer list \<Rightarrow> 't StoredMessage list result option" where
  "readRows qt sq [] = None"
| "readRows qt sq (a # as) =
     (case stepResult a of
        Inl e \<Rightarrow> Some (Inl e)
      | Inr None \<Rightarrow> Some (Inr [])
      | Inr (Some r) \<Rightarrow> map_option (map_sum id (\<lambda>rows. readStoredMessage qt sq r # rows)) (readRows qt sq as))"

text \<open>The text of an optional time: an invalid QDateTime prints as the empty string.\<close>

definition utcText :: "'t store_ops \<Rightarrow> 't option \<Rightarrow> string" where
  "utcText qt t = (case t of None \<Rightarrow> [] | Some x \<Rightarrow> so_toIsoMs qt x)"

definition insertSql :: string where
  "insertSql = ''INSERT OR IGNORE INTO messages ('' @
     ''envelope_id, envelope_ts, envelope_type, direction, payload, '' @
     ''redelivered, acked, display_title, search_text, created_at'' @
     '') VALUES (?, ?, ?, ?, ?, 0, 0, ?, ?, ?)''"

definition insertBindings ::
  "'t store_ops \<Rightarrow> 't \<Rightarrow> 't Envelope \<Rightarrow> string \<Rightarrow> string \<Rightarrow> string \<Rightarrow> statement \<Rightarrow> statement" where
  "insertBindings qt now envelope direction displayTitle searchText st =
     (let st = bindText 1 (env_id envelope) st;
          st = bindText 2 (utcText qt (env_timestamp envelope)) st;
          st = bindText 3 (env_type envelope) st;
          st = bindText 4 direction st;
          st = bindText 5 (so_fromUtf8 qt (qt_toJson qt (env_payload envelope))) st;
          st = bindText 6 displayTitle st;
          st = bindText 7 searchText st
      in bindText 8 (so_toIsoMs qt now) st)"

text \<open>One step of a prepared statement that returns no rows; then the number of changed rows.\<close>

definition runOnce :: "'db sqlite \<Rightarrow> string \<Rightarrow> (statement \<Rightarrow> statement) \<Rightarrow> 'db \<Rightarrow> 'db result" where
  "runOnce sq sql bnd db =
     (case prepareStatement sq db sql of
        Inl e \<Rightarrow> Inl e
      | Inr st \<Rightarrow>
          (case sq_run sq db (bnd st) of
             (db', answers) \<Rightarrow> (case stepResult (hd answers) of Inl e \<Rightarrow> Inl e | Inr _ \<Rightarrow> Inr db')))"

definition store_insert ::
  "'t store_ops \<Rightarrow> 'db sqlite \<Rightarrow> 't \<Rightarrow> 't Envelope \<Rightarrow> string \<Rightarrow> string \<Rightarrow> string \<Rightarrow> 'db \<Rightarrow> ('db \<times> bool) result" where
  "store_insert qt sq now envelope direction displayTitle searchText db =
     (case runOnce sq insertSql (insertBindings qt now envelope direction displayTitle searchText) db of
        Inl e \<Rightarrow> Inl e
      | Inr db' \<Rightarrow> Inr (db', sq_changes sq db' \<noteq> 0))"

definition store_markAcked :: "'db sqlite \<Rightarrow> string \<Rightarrow> 'db \<Rightarrow> 'db result" where
  "store_markAcked sq envelopeId db =
     runOnce sq ''UPDATE messages SET acked = 1 WHERE envelope_id = ?'' (bindText 1 envelopeId) db"

text \<open>A query: the prepared statement with its bindings, then all rows.\<close>

definition runQuery ::
  "'t store_ops \<Rightarrow> 'db sqlite \<Rightarrow> string \<Rightarrow> (statement \<Rightarrow> statement) \<Rightarrow> 'db \<Rightarrow> 't StoredMessage list result option" where
  "runQuery qt sq sql bnd db =
     (case prepareStatement sq db sql of
        Inl e \<Rightarrow> Some (Inl e)
      | Inr st \<Rightarrow> readRows qt sq (snd (sq_run sq db (bnd st))))"

definition store_recent :: "'t store_ops \<Rightarrow> 'db sqlite \<Rightarrow> int \<Rightarrow> 'db \<Rightarrow> 't StoredMessage list result option" where
  "store_recent qt sq limit db =
     runQuery qt sq (''SELECT '' @ kSelectColumns @ '' FROM messages ORDER BY created_at DESC, id DESC LIMIT ?'')
       (bindInt 1 limit) db"

definition searchConditions :: "string \<Rightarrow> 't option \<Rightarrow> 't option \<Rightarrow> string \<Rightarrow> bool \<Rightarrow> string list" where
  "searchConditions type from to searchText receivedOnly =
     (if type \<noteq> [] then [''envelope_type = ?''] else [])
   @ (if from \<noteq> None then [''created_at >= ?''] else [])
   @ (if to \<noteq> None then [''created_at <= ?''] else [])
   @ (if searchText \<noteq> [] then [''search_text LIKE ?''] else [])
   @ (if receivedOnly then [''direction = '' @ [CHR 0x27] @ ''received'' @ [CHR 0x27]] else [])"

text \<open>QStringList::join.\<close>

fun join_with :: "string \<Rightarrow> string list \<Rightarrow> string" where
  "join_with sep [] = []"
| "join_with sep [x] = x"
| "join_with sep (x # xs) = x @ sep @ join_with sep xs"

definition searchSql :: "string \<Rightarrow> 't option \<Rightarrow> 't option \<Rightarrow> string \<Rightarrow> bool \<Rightarrow> string" where
  "searchSql type from to searchText receivedOnly =
     (let conditions = searchConditions type from to searchText receivedOnly
      in ''SELECT '' @ kSelectColumns @ '' FROM messages''
         @ (if conditions \<noteq> [] then '' WHERE '' @ join_with '' AND '' conditions else [])
         @ '' ORDER BY created_at DESC, id DESC'')"

text \<open>The bindings; the number of the next parameter goes along.\<close>

definition bindNext :: "bool \<Rightarrow> string \<Rightarrow> nat \<times> statement \<Rightarrow> nat \<times> statement" where
  "bindNext present v ps = (if present then (fst ps + 1, bindText (fst ps) v (snd ps)) else ps)"

definition searchBindings ::
  "'t store_ops \<Rightarrow> string \<Rightarrow> 't option \<Rightarrow> 't option \<Rightarrow> string \<Rightarrow> statement \<Rightarrow> statement" where
  "searchBindings qt type from to searchText st =
     snd (bindNext (searchText \<noteq> []) (''%'' @ searchText @ ''%'')
           (bindNext (to \<noteq> None) (utcText qt to)
             (bindNext (from \<noteq> None) (utcText qt from)
               (bindNext (type \<noteq> []) type (1, st)))))"

definition store_search ::
  "'t store_ops \<Rightarrow> 'db sqlite \<Rightarrow> string \<Rightarrow> 't option \<Rightarrow> 't option \<Rightarrow> string \<Rightarrow> bool \<Rightarrow> 'db
   \<Rightarrow> 't StoredMessage list result option" where
  "store_search qt sq type from to searchText receivedOnly db =
     runQuery qt sq (searchSql type from to searchText receivedOnly) (searchBindings qt type from to searchText) db"

definition store_purge :: "'t store_ops \<Rightarrow> 'db sqlite \<Rightarrow> 't option \<Rightarrow> 't option \<Rightarrow> 'db \<Rightarrow> ('db \<times> bool) result" where
  "store_purge qt sq from to db =
     (case runOnce sq ''DELETE FROM messages WHERE created_at >= ? AND created_at <= ?''
             (\<lambda>st. bindText 2 (utcText qt to) (bindText 1 (utcText qt from) st)) db of
        Inl e \<Rightarrow> Inl e
      | Inr db' \<Rightarrow> Inr (db', sq_changes sq db' \<noteq> 0))"

text \<open>mkpath says whether a directory could be created; the other arguments are the framework's paths.\<close>

definition resolvePath :: "(string \<Rightarrow> bool) \<Rightarrow> string \<Rightarrow> (string \<Rightarrow> string \<Rightarrow> string) \<Rightarrow> (string \<Rightarrow> string) \<Rightarrow> string \<Rightarrow> string result" where
  "resolvePath mkpath appData filePath absolutePath path =
     (if path = [] then
        (if \<not> mkpath appData then Inl ''Failed to create application data directory''
         else Inr (filePath appData ''messages.sqlite''))
      else if path \<noteq> '':memory:'' then
        (if \<not> mkpath (absolutePath path) then Inl ''Failed to create database directory'' else Inr path)
      else Inr path)"

definition schemaSql :: "string list" where
  "schemaSql =
    [''CREATE TABLE IF NOT EXISTS messages ('' @
       ''id INTEGER PRIMARY KEY, envelope_id TEXT NOT NULL UNIQUE, envelope_ts TEXT NOT NULL, '' @
       ''envelope_type TEXT NOT NULL, direction TEXT NOT NULL, payload TEXT NOT NULL, '' @
       ''redelivered INTEGER NOT NULL DEFAULT 0, acked INTEGER NOT NULL DEFAULT 0, '' @
       ''display_title TEXT NOT NULL DEFAULT '' @ [CHR 0x27, CHR 0x27] @ '', '' @
       ''search_text TEXT NOT NULL DEFAULT '' @ [CHR 0x27, CHR 0x27] @ '', '' @
       ''created_at TEXT NOT NULL );'',
     ''CREATE INDEX IF NOT EXISTS idx_messages_envelope_type ON messages(envelope_type);'',
     ''CREATE INDEX IF NOT EXISTS idx_messages_created_at ON messages(created_at);'',
     ''CREATE INDEX IF NOT EXISTS idx_messages_search_text ON messages(search_text);'',
     ''PRAGMA user_version = 1;'']"

definition initializeSchema :: "'db sqlite \<Rightarrow> 'db \<Rightarrow> 'db result" where
  "initializeSchema sq db = exec_all sq schemaSql db"

text \<open>
  The constructor: the database member is destroyed again when initializeSchema throws, which closes
  the connection.
\<close>

definition newMqStore :: "string result \<Rightarrow> 'db sqlite \<Rightarrow> ('db result) \<times> nat" where
  "newMqStore resolved sq =
     (case resolved of
        Inl e \<Rightarrow> (Inl e, 0)
      | Inr path \<Rightarrow>
          (case openDatabase sq path of
             (Inl e, n) \<Rightarrow> (Inl e, n)
           | (Inr db, n) \<Rightarrow> (case initializeSchema sq db of Inl e \<Rightarrow> (Inl e, n - 1) | Inr db' \<Rightarrow> (Inr db', n))))"

section \<open>What an INSERT with a column list stores\<close>

text \<open>
  The meaning of the statement as SQL defines it, which is a specification and not the translation of
  code: the n-th value of the VALUES list goes to the
  n-th named column, and the k-th question mark stands for parameter k. The text of the statement and the
  bindings it is applied to are the code's.
\<close>

definition namesIn :: "string \<Rightarrow> string list" where
  "namesIn txt = map trimmed (split_char CHR '','' txt)"

definition parenthesised :: "string \<Rightarrow> string" where
  "parenthesised sql = takeWhile (\<lambda>c. c \<noteq> CHR '')'') (tl (dropWhile (\<lambda>c. c \<noteq> CHR ''('') sql))"

definition afterParentheses :: "string \<Rightarrow> string" where
  "afterParentheses sql = tl (dropWhile (\<lambda>c. c \<noteq> CHR '')'') sql)"

fun valuesFrom :: "(nat \<rightharpoonup> sqlvalue) \<Rightarrow> nat \<Rightarrow> string list \<Rightarrow> sqlvalue list" where
  "valuesFrom param k [] = []"
| "valuesFrom param k (t # ts) =
     (if t = ''?'' then (case param k of None \<Rightarrow> VNull | Some v \<Rightarrow> v) # valuesFrom param (k + 1) ts
      else VInt (int (foldl (\<lambda>v c. v * 10 + (of_char c - 48)) 0 t)) # valuesFrom param k ts)"

definition insertedRow :: "int \<Rightarrow> statement \<Rightarrow> string \<rightharpoonup> sqlvalue" where
  "insertedRow rowid st =
     map_of ((''id'', VInt rowid)
       # zip (namesIn (parenthesised (st_sql st)))
             (valuesFrom (map_of (st_bindings st)) 1 (namesIn (parenthesised (afterParentheses (st_sql st))))))"

definition selectedRow :: "(string \<rightharpoonup> sqlvalue) \<Rightarrow> sqlvalue list" where
  "selectedRow row = map (\<lambda>n. case row n of None \<Rightarrow> VNull | Some v \<Rightarrow> v) (namesIn kSelectColumns)"

lemma namesIn_select:
  "namesIn kSelectColumns =
     [''id'', ''envelope_id'', ''envelope_ts'', ''envelope_type'', ''direction'', ''payload'',
      ''redelivered'', ''acked'', ''display_title'', ''search_text'', ''created_at'']"
  by (simp add: namesIn_def kSelectColumns_def trimmed_def is_space_def)

lemma namesIn_insert:
  "namesIn (parenthesised insertSql) =
     [''envelope_id'', ''envelope_ts'', ''envelope_type'', ''direction'', ''payload'',
      ''redelivered'', ''acked'', ''display_title'', ''search_text'', ''created_at'']"
  by (simp add: namesIn_def parenthesised_def insertSql_def trimmed_def is_space_def)

lemma valuesIn_insert:
  "namesIn (parenthesised (afterParentheses insertSql)) =
     [''?'', ''?'', ''?'', ''?'', ''?'', ''0'', ''0'', ''?'', ''?'', ''?'']"
  by (simp add: namesIn_def parenthesised_def afterParentheses_def insertSql_def trimmed_def is_space_def)

lemma insertBindings_list:
  "insertBindings qt now envelope direction displayTitle searchText \<lparr>st_sql = sql, st_bindings = []\<rparr> =
     \<lparr>st_sql = sql, st_bindings = zip [1..<9] (map (\<lambda>v. VText (takeWhile (\<lambda>c. c \<noteq> CHR 0x00) v))
        [env_id envelope, utcText qt (env_timestamp envelope), env_type envelope, direction,
         so_fromUtf8 qt (qt_toJson qt (env_payload envelope)), displayTitle, searchText, so_toIsoMs qt now])\<rparr>"
  by (simp add: insertBindings_def bindText_def upt_rec Let_def)

definition no_nul :: "string \<Rightarrow> bool" where
  "no_nul v = (CHR 0x00 \<notin> set v)"

lemma no_nul_kept: "no_nul v \<Longrightarrow> takeWhile (\<lambda>c. c \<noteq> CHR 0x00) v = v"
  by (auto simp: no_nul_def takeWhile_eq_all_conv)

section \<open>Properties\<close>

text \<open>
  Every search supplies exactly the parameters its SQL text asks for: the numbers of the
  bound parameters are 1, 2, ... up to the number of question marks in the text.
\<close>

theorem store_search_binds_all_parameters:
  "map fst (st_bindings (searchBindings qt type from to searchText \<lparr>st_sql = sql, st_bindings = []\<rparr>)) =
     [1..<count_list (searchSql type from to searchText receivedOnly) CHR ''?'' + 1]"
  by (cases "type = []"; cases "from = None"; cases "to = None"; cases "searchText = []"; cases receivedOnly)
     (simp_all add: searchBindings_def searchSql_def searchConditions_def bindNext_def bindText_def
        kSelectColumns_def Let_def upt_rec)

text \<open>
  C33. A message that is stored and read back is the same message: the columns that readStoredMessage reads by number
  are those that insert filled by name, the counters start at false, and all texts, the times and
  the payload survive. The message has a valid timestamp, none of its texts (the formatted times and the formatted payload
  among them) has a NUL character, and the framework's UTF-8, JSON and date functions read back what they
  have written for the values at hand.
\<close>

theorem store_row_roundtrip:
  assumes "list_all no_nul [env_id envelope, env_type envelope, direction, displayTitle, searchText,
             so_toIsoMs qt ts, so_toIsoMs qt now, so_fromUtf8 qt (qt_toJson qt (env_payload envelope))]"
    and "env_timestamp envelope = Some ts"
    and "so_fromIsoMs qt (so_toIsoMs qt ts) = Some ts" and "so_fromIsoMs qt (so_toIsoMs qt now) = Some now"
    and "so_toUtf8 qt (so_fromUtf8 qt (qt_toJson qt (env_payload envelope))) = qt_toJson qt (env_payload envelope)"
    and "qt_fromJson qt (qt_toJson qt (env_payload envelope)) = Some (JObject (env_payload envelope))"
  shows "readStoredMessage qt sq (selectedRow (insertedRow rowid
           (insertBindings qt now envelope direction displayTitle searchText \<lparr>st_sql = insertSql, st_bindings = []\<rparr>))) =
         \<lparr>sm_id = rowid, sm_envelopeId = env_id envelope, sm_envelopeTimestamp = Some ts,
          sm_envelopeType = env_type envelope, sm_direction = direction, sm_payload = env_payload envelope,
          sm_redelivered = False, sm_acked = False, sm_displayTitle = displayTitle,
          sm_searchText = searchText, sm_createdAt = Some now\<rparr>"
  using assms
  by (simp add: selectedRow_def insertedRow_def insertBindings_list namesIn_select namesIn_insert valuesIn_insert
        upt_rec utcText_def no_nul_kept readStoredMessage_def getText_def getInt_def getInt64_def column_def)

theorem store_row_roundtrip_witness:
  "\<exists>(qt :: string store_ops) (sq :: unit sqlite).
     readStoredMessage qt sq (selectedRow (insertedRow 7
       (insertBindings qt ''2026-01-02'' \<lparr>env_id = ''a1'', env_timestamp = Some ''2026-01-01'', env_version = 1,
          env_source = ''s'', env_type = ''t'', env_payload = []\<rparr> ''received'' ''title'' ''text''
          \<lparr>st_sql = insertSql, st_bindings = []\<rparr>))) =
     \<lparr>sm_id = 7, sm_envelopeId = ''a1'', sm_envelopeTimestamp = Some ''2026-01-01'',
      sm_envelopeType = ''t'', sm_direction = ''received'', sm_payload = [],
      sm_redelivered = False, sm_acked = False, sm_displayTitle = ''title'',
      sm_searchText = ''text'', sm_createdAt = Some ''2026-01-02''\<rparr>"
proof -
  let ?qt = "\<lparr>qt_fromJson = (\<lambda>b. if b = [123, 125] then Some (JObject []) else None), qt_toJson = (\<lambda>_. [123, 125]),
     qt_parseIso = Some, qt_formatIso = id, qt_isUtc = (\<lambda>_. True), so_toIsoMs = id, so_fromIsoMs = Some,
     so_fromUtf8 = map (\<lambda>b. char_of (unat b)), so_toUtf8 = map (\<lambda>c. of_nat (of_char c))\<rparr> :: string store_ops"
  let ?env = "\<lparr>env_id = ''a1'', env_timestamp = Some ''2026-01-01'', env_version = 1,
     env_source = ''s'', env_type = ''t'', env_payload = []\<rparr> :: string Envelope"
  have "CHR 0x00 \<noteq> char_of (123 :: nat) \<and> CHR 0x00 \<noteq> char_of (125 :: nat)" by code_simp
  then show ?thesis
    using store_row_roundtrip [of ?env "''received''" "''title''" "''text''" ?qt "''2026-01-01''" "''2026-01-02''"
      "undefined :: unit sqlite" 7]
    by (intro exI [of _ ?qt] exI [of _ "undefined :: unit sqlite"]) (simp add: no_nul_def)
qed

text \<open>
  A text is cut at its first NUL character: two different message identifiers with the same
  part before it are the same key to the UNIQUE column, and the second message is ignored.
\<close>

theorem store_nul_truncates:
  "bindText k (a @ CHR 0x00 # b) st = bindText k (a @ CHR 0x00 # c) st"
  by (auto simp: bindText_def takeWhile_append)

text \<open>
  When the connection opens but one of the two PRAGMA statements fails (as for a file that is not a
  database) the exception leaves the connection open, while a failure in initializeSchema closes it.
\<close>

theorem store_open_failure_leaks:
  "sq_open sq path = Inr db \<Longrightarrow> fst (newMqStore (Inr path) sq) = Inl e \<Longrightarrow>
     snd (newMqStore (Inr path) sq) = (case fst (openDatabase sq path) of Inl _ \<Rightarrow> 1 | Inr _ \<Rightarrow> 0)"
  by (auto simp: newMqStore_def openDatabase_def split: sum.splits prod.splits)

end
