(* ===== verification/App_Settings.thy ===== *)
theory App_Settings
  imports Qt_Strings
begin

text \<open>
  Settings and the credential filter: src/infra/settings/app_settings.\{h,cpp\} and
  src/features/mq/mq_settings.\{h,cpp\}. The settings file is a map from keys to values; the
  conversions of a stored value (it may have gone through a text file) and the formatting functions
  of the GUI framework are parameters.
\<close>

section \<open>The settings store\<close>

datatype setting = SString string | SUInt nat | SLongLong int

type_synonym settings = "string \<rightharpoonup> setting"

record setting_ops =
  to_string :: "setting \<Rightarrow> string"
  to_uint :: "setting \<Rightarrow> nat option"
  to_longlong :: "setting \<Rightarrow> int"

definition settings_value :: "string \<Rightarrow> setting \<Rightarrow> settings \<Rightarrow> setting" where
  "settings_value key fallback st = (case st key of None \<Rightarrow> fallback | Some v \<Rightarrow> v)"

definition settings_setValue :: "string \<Rightarrow> setting \<Rightarrow> settings \<Rightarrow> settings" where
  "settings_setValue key v st = st(key \<mapsto> v)"

definition kThemeKey :: string where "kThemeKey = ''ui/theme''"

definition app_theme :: "setting_ops \<Rightarrow> settings \<Rightarrow> string" where
  "app_theme sops st = to_string sops (settings_value kThemeKey (SString ''light'') st)"

definition app_setTheme :: "string \<Rightarrow> settings \<Rightarrow> settings" where
  "app_setTheme themeName st = settings_setValue kThemeKey (SString themeName) st"

section \<open>Blanking a secret\<close>

definition stripSecret :: "string \<Rightarrow> string \<Rightarrow> string" where
  "stripSecret txt secretKey =
     (let needle = secretKey @ ''=''
      in case indexOf needle txt of
           None \<Rightarrow> txt
         | Some keyIndex \<Rightarrow>
             (let valueStart = keyIndex + length needle
              in case indexOf '','' (drop valueStart txt) of
                   None \<Rightarrow> take valueStart txt
                 | Some i \<Rightarrow> (let valueEnd = valueStart + i
                             in take valueStart txt @ drop valueEnd txt)))"

section \<open>The broker settings\<close>

definition kHostKey :: string where "kHostKey = ''mq/host''"
definition kPortKey :: string where "kPortKey = ''mq/port''"
definition kVhostKey :: string where "kVhostKey = ''mq/vhost''"
definition kUserKey :: string where "kUserKey = ''mq/user''"
definition kPasswordKey :: string where "kPasswordKey = ''mq/password''"
definition kDbSizeWarningThresholdBytesKey :: string where
  "kDbSizeWarningThresholdBytesKey = ''mq/db_size_warning_threshold_bytes''"

definition mqs_host :: "setting_ops \<Rightarrow> settings \<Rightarrow> string" where
  "mqs_host sops st = to_string sops (settings_value kHostKey (SString ''localhost'') st)"

definition mqs_port :: "setting_ops \<Rightarrow> settings \<Rightarrow> u16" where
  "mqs_port sops st =
     (case to_uint sops (settings_value kPortKey (SUInt 5672) st) of
        Some configuredPort \<Rightarrow> if configuredPort \<le> 65535 then of_nat configuredPort else 5672
      | None \<Rightarrow> 5672)"

definition mqs_vhost :: "setting_ops \<Rightarrow> settings \<Rightarrow> string" where
  "mqs_vhost sops st = to_string sops (settings_value kVhostKey (SString ''/'') st)"

definition mqs_user :: "setting_ops \<Rightarrow> settings \<Rightarrow> string" where
  "mqs_user sops st = to_string sops (settings_value kUserKey (SString ''dev'') st)"

definition mqs_password :: "setting_ops \<Rightarrow> settings \<Rightarrow> string" where
  "mqs_password sops st = to_string sops (settings_value kPasswordKey (SString []) st)"

definition mqs_dbSizeWarningThresholdBytes :: "setting_ops \<Rightarrow> settings \<Rightarrow> int" where
  "mqs_dbSizeWarningThresholdBytes sops st =
     to_longlong sops (settings_value kDbSizeWarningThresholdBytesKey (SLongLong (500 * 1024 * 1024)) st)"

definition mqs_setHost :: "string \<Rightarrow> settings \<Rightarrow> settings" where
  "mqs_setHost v st = settings_setValue kHostKey (SString v) st"

definition mqs_setPort :: "u16 \<Rightarrow> settings \<Rightarrow> settings" where
  "mqs_setPort v st = settings_setValue kPortKey (SUInt (unat v)) st"

definition mqs_setVhost :: "string \<Rightarrow> settings \<Rightarrow> settings" where
  "mqs_setVhost v st = settings_setValue kVhostKey (SString v) st"

definition mqs_setUser :: "string \<Rightarrow> settings \<Rightarrow> settings" where
  "mqs_setUser v st = settings_setValue kUserKey (SString v) st"

definition mqs_setPassword :: "string \<Rightarrow> settings \<Rightarrow> settings" where
  "mqs_setPassword v st = (if v = [] then st else settings_setValue kPasswordKey (SString v) st)"

definition mqs_setDbSizeWarningThresholdBytes :: "int \<Rightarrow> settings \<Rightarrow> settings" where
  "mqs_setDbSizeWarningThresholdBytes v st =
     settings_setValue kDbSizeWarningThresholdBytesKey (SLongLong v) st"

definition mqs_isLocalBroker :: "setting_ops \<Rightarrow> settings \<Rightarrow> bool" where
  "mqs_isLocalBroker sops st =
     (let configuredHost = mqs_host sops st
      in same_text configuredHost ''localhost'' \<or> configuredHost = ''127.0.0.1'')"

text \<open>
  QString::arg replaces the lowest-numbered place marker; it is a parameter, as is the printing of a
  number.
\<close>

definition mqs_connectionDescription ::
  "(string \<Rightarrow> string \<Rightarrow> string) \<Rightarrow> (u16 \<Rightarrow> string) \<Rightarrow> setting_ops \<Rightarrow> settings \<Rightarrow> string" where
  "mqs_connectionDescription arg number sops st =
     (let description =
        arg (arg (arg (arg (arg ''host=%1,port=%2,vhost=%3,user=%4,password=%5''
          (mqs_host sops st)) (number (mqs_port sops st))) (mqs_vhost sops st)) (mqs_user sops st))
          (mqs_password sops st)
      in stripSecret description ''password'')"

section \<open>Lemmas\<close>

lemma stripSecret_split:
  assumes "indexOf (key @ ''='') (pre @ key @ ''='' @ v) = Some (length pre)"
  shows "stripSecret (pre @ key @ ''='' @ v) key = pre @ key @ ''='' @ dropWhile (\<lambda>c. c \<noteq> CHR '','') v"
proof -
  let ?n = "length pre + length (key @ ''='')"
  have d: "drop ?n (pre @ key @ ''='' @ v) = v" and t: "take ?n (pre @ key @ ''='' @ v) = pre @ key @ ''=''"
    by simp_all
  show ?thesis
  proof (cases "CHR '','' \<in> set v")
    case True
    let ?i = "length (takeWhile (\<lambda>c. c \<noteq> CHR '','') v)"
    have e: "drop (?n + ?i) (pre @ key @ ''='' @ v) = drop ?i v"
      using d by (metis add.commute drop_drop)
    have "drop ?i v = dropWhile (\<lambda>c. c \<noteq> CHR '','') v" by (rule dropWhile_eq_drop [symmetric])
    then show ?thesis using True assms d t e
      by (simp only: stripSecret_def Let_def indexOf_char option.case if_True) simp
  next
    case False
    then have "dropWhile (\<lambda>c. c \<noteq> CHR '','') v = []" by (auto simp: dropWhile_eq_Nil_conv)
    then show ?thesis using False assms d t
      by (simp only: stripSecret_def Let_def indexOf_char option.case if_False) simp
  qed
qed

text \<open>The setters and getters do not disturb one another.\<close>

lemma settings_get_set:
  "settings_value k d (settings_setValue k v st) = v"
  "k \<noteq> k' \<Longrightarrow> settings_value k d (settings_setValue k' v st) = settings_value k d st"
  by (simp_all add: settings_value_def settings_setValue_def)

section \<open>Properties\<close>

text \<open>
  stripSecret blanks the value of the first occurrence of the key: everything between the
  equals sign and the next comma, or the end, disappears, and the rest of the text stays. A value
  without a comma is removed completely.
\<close>
theorem strip_secret_blanks_value:
  assumes "indexOf (key @ ''='') (pre @ key @ ''='' @ v @ post) = Some (length pre)"
    and "CHR '','' \<notin> set v" and "post = [] \<or> hd post = CHR '',''"
  shows "stripSecret (pre @ key @ ''='' @ v @ post) key = pre @ key @ ''='' @ post"
proof -
  have "dropWhile (\<lambda>c. c \<noteq> CHR '','') (v @ post) = dropWhile (\<lambda>c. c \<noteq> CHR '','') post"
    using assms(2) by (intro dropWhile_append2) auto
  also have "\<dots> = post" using assms(3) by (cases post) auto
  finally show ?thesis using stripSecret_split [OF assms(1)] by simp
qed

theorem strip_secret_blanks_value_witness:
  "stripSecret ''host=h,passwd=secret,user=u'' ''passwd'' = ''host=h,passwd=,user=u''"
  using strip_secret_blanks_value [of "''passwd''" "''host=h,''" "''secret''" "'',user=u''"] by simp

text \<open>
  The connection description that is meant to be free of the password reveals part of it: of a
  password with a comma, only what stands before the first comma is blanked, and the rest is in the
  text.
\<close>
theorem description_reveals_password_after_comma:
  assumes "arg (arg (arg (arg (arg ''host=%1,port=%2,vhost=%3,user=%4,password=%5''
             (mqs_host sops st)) (number (mqs_port sops st))) (mqs_vhost sops st)) (mqs_user sops st))
             (mqs_password sops st)
           = pre @ ''password='' @ mqs_password sops st"
    and "indexOf ''password='' (pre @ ''password='' @ mqs_password sops st) = Some (length pre)"
    and "mqs_password sops st = secret @ '','' @ hidden" and "CHR '','' \<notin> set secret"
  shows "mqs_connectionDescription arg number sops st = pre @ ''password=,'' @ hidden"
proof -
  have "dropWhile (\<lambda>c. c \<noteq> CHR '','') (secret @ '','' @ hidden) = '','' @ hidden"
    using assms(4) by (subst dropWhile_append2) auto
  then show ?thesis
    using stripSecret_split [of "''password''" pre "mqs_password sops st"] assms
    by (simp add: mqs_connectionDescription_def)
qed

text \<open>Formatting that knows the one description of the example.\<close>

definition demo_sops :: setting_ops where
  "demo_sops = \<lparr>to_string = (\<lambda>v. case v of SString x \<Rightarrow> x | _ \<Rightarrow> []),
     to_uint = (\<lambda>v. case v of SUInt n \<Rightarrow> Some n | _ \<Rightarrow> None),
     to_longlong = (\<lambda>v. case v of SLongLong i \<Rightarrow> i | _ \<Rightarrow> 0)\<rparr>"

definition demo_arg :: "string \<Rightarrow> string \<Rightarrow> string" where
  "demo_arg fmt a = (if a = ''ab,cd'' then ''host=h,port=5672,vhost=/,user=u,password=ab,cd'' else fmt)"

theorem description_reveals_password_after_comma_witness:
  "mqs_connectionDescription demo_arg (\<lambda>_. ''5672'') demo_sops
     (mqs_setPassword ''ab,cd'' Map.empty) = ''host=h,port=5672,vhost=/,user=u,password=,cd''"
  using description_reveals_password_after_comma
    [of demo_arg demo_sops "mqs_setPassword ''ab,cd'' Map.empty" "\<lambda>_. ''5672''"
        "''host=h,port=5672,vhost=/,user=u,''" "''ab''" "''cd''"]
  by (simp add: demo_arg_def demo_sops_def mqs_password_def mqs_setPassword_def settings_get_set
      mqs_host_def mqs_port_def mqs_vhost_def mqs_user_def settings_value_def settings_setValue_def
      kHostKey_def kPortKey_def kVhostKey_def kUserKey_def kPasswordKey_def)

text \<open>
  The port is always a usable one and a stored port is read back: whatever the settings file
  holds, port() is the configured number when it is a valid 16-bit number and 5672 otherwise; after
  setPort it is the port that was set; setting an empty password changes nothing, and setting any
  password changes no other setting.
\<close>
theorem mq_settings_port_and_password:
  assumes "\<And>n. to_uint sops (SUInt n) = Some n"
  shows "mqs_port sops (mqs_setPort p st) = p
       \<and> mqs_port sops st = (case to_uint sops (settings_value kPortKey (SUInt 5672) st) of
            Some n \<Rightarrow> if n < 2 ^ 16 then of_nat n else 5672 | None \<Rightarrow> 5672)
       \<and> mqs_setPassword [] st = st
       \<and> mqs_port sops (mqs_setPassword pw st) = mqs_port sops st
       \<and> mqs_host sops (mqs_setPassword pw st) = mqs_host sops st"
proof -
  have "unat p \<le> 65535" using unsigned_less [where 'a = nat, of p] by simp
  then have "mqs_port sops (mqs_setPort p st) = p"
    using assms by (simp add: mqs_port_def mqs_setPort_def settings_get_set)
  then show ?thesis
    by (simp add: mqs_port_def mqs_host_def mqs_setPassword_def settings_get_set kHostKey_def kPortKey_def
        kPasswordKey_def less_Suc_eq_le split: option.splits)
qed

theorem mq_settings_port_and_password_witness:
  "mqs_port demo_sops (mqs_setPort 1883 Map.empty) = 1883"
  using mq_settings_port_and_password [of demo_sops 1883 Map.empty] by (simp add: demo_sops_def)

end
