(* ===== verification/Mq_Settings_Dialog.thy ===== *)
theory Mq_Settings_Dialog
  imports App_Settings Mq_Connection
begin

text \<open>
  The connection dialog: src/features/mq/mq\_settings\_dialog.\{h,cpp\}. The line edits are texts,
  the captions of the result label are the constructors of a datatype, and the temporary connection
  of a test is an MqConnection of its own. QString::toUInt is a parameter (0 for a text that is no
  number or too large). What happens to the test connection between two ticks of the poll timer is an
  arbitrary change of it.
\<close>

section \<open>State\<close>

datatype dlg_message = ErrorMessage string | LoginSucceeded | BrokerTimedOut

datatype dlg_result = NoResultYet | SavedRestart | TestRunning | TestResult bool dlg_message

record ('s, 'a, 'v) settings_dialog =
  dlg_settings :: settings
  hostEdit :: string
  portEdit :: string
  vhostEdit :: string
  userEdit :: string
  passwordEdit :: string
  resultLabel :: dlg_result
  testConnection :: "('s, 'a, 'v) mq option"
  testPoll :: bool
  testElapsedMs :: int

definition kTestTimeoutMs :: int where "kTestTimeoutMs = 5000"
definition kTestPollIntervalMs :: int where "kTestPollIntervalMs = 200"

section \<open>Operations\<close>

definition newMqSettingsDialog :: "setting_ops \<Rightarrow> settings \<Rightarrow> ('s, 'a, 'v) settings_dialog" where
  "newMqSettingsDialog sops st =
     \<lparr>dlg_settings = st, hostEdit = mqs_host sops st, portEdit = dec_digits (unat (mqs_port sops st)),
      vhostEdit = mqs_vhost sops st, userEdit = mqs_user sops st, passwordEdit = [],
      resultLabel = NoResultYet, testConnection = None, testPoll = False, testElapsedMs = 0\<rparr>"

definition dlg_port :: "(string \<Rightarrow> nat) \<Rightarrow> ('s, 'a, 'v) settings_dialog \<Rightarrow> u16" where
  "dlg_port toUInt d = of_nat (toUInt (portEdit d))"

definition dlg_save :: "(string \<Rightarrow> nat) \<Rightarrow> ('s, 'a, 'v) settings_dialog \<Rightarrow> ('s, 'a, 'v) settings_dialog" where
  "dlg_save toUInt d =
     (let st = mqs_setHost (hostEdit d) (dlg_settings d);
          st = mqs_setPort (dlg_port toUInt d) st;
          st = mqs_setVhost (vhostEdit d) st;
          st = mqs_setUser (userEdit d) st;
          st = mqs_setPassword (passwordEdit d) st
      in d\<lparr>dlg_settings := st, resultLabel := SavedRestart\<rparr>)"

text \<open>The new connection's signals reach nobody; sock is its fresh socket, v what its owner slot would hold.\<close>

definition startTest ::
  "setting_ops \<Rightarrow> (string \<Rightarrow> nat) \<Rightarrow> 's socket_ops \<Rightarrow> 's \<Rightarrow> 'v \<Rightarrow> ('s, 'a, 'v) settings_dialog
   \<Rightarrow> ('s, 'a, 'v) settings_dialog" where
  "startTest sops toUInt ops sock v d =
     (let password = (if passwordEdit d = [] then mqs_password sops (dlg_settings d) else passwordEdit d);
          m = newMqConnection (\<lambda>_ w. w) sock v;
          m = mq_connectToHost ops (hostEdit d) (dlg_port toUInt d) (vhostEdit d) (userEdit d) password m
      in d\<lparr>testConnection := Some m, testElapsedMs := 0, resultLabel := TestRunning, testPoll := True\<rparr>)"

definition finishTest :: "bool \<Rightarrow> dlg_message \<Rightarrow> ('s, 'a, 'v) settings_dialog \<Rightarrow> ('s, 'a, 'v) settings_dialog" where
  "finishTest ok msg d = d\<lparr>testPoll := False, testConnection := None, resultLabel := TestResult ok msg\<rparr>"

definition pollTest :: "('s, 'a, 'v) settings_dialog \<Rightarrow> ('s, 'a, 'v) settings_dialog" where
  "pollTest d =
     (case testConnection d of
        None \<Rightarrow> d\<lparr>testPoll := False\<rparr>
      | Some m \<Rightarrow>
          if mq_error (world m) \<noteq> [] then finishTest False (ErrorMessage (mq_error (world m))) d
          else if mq_isReady m then finishTest True LoginSucceeded d
          else (let d = d\<lparr>testElapsedMs := testElapsedMs d + kTestPollIntervalMs\<rparr>
                in if testElapsedMs d \<ge> kTestTimeoutMs then finishTest False BrokerTimedOut d else d))"

section \<open>Events\<close>

text \<open>The user's edits and buttons, a tick of the poll timer, and a change of the test connection.\<close>

datatype ('s, 'a, 'v) dlg_event =
    EditFields string string string string string
  | SaveClicked
  | TestClicked 's
  | PollTick
  | NetworkChange "('s, 'a, 'v) mq \<Rightarrow> ('s, 'a, 'v) mq"

fun dlg_step ::
  "setting_ops \<Rightarrow> (string \<Rightarrow> nat) \<Rightarrow> 's socket_ops \<Rightarrow> 'v \<Rightarrow> ('s, 'a, 'v) settings_dialog \<Rightarrow> ('s, 'a, 'v) dlg_event
   \<Rightarrow> ('s, 'a, 'v) settings_dialog" where
  "dlg_step sops toUInt ops v d (EditFields h p vh u pw) =
     d\<lparr>hostEdit := h, portEdit := p, vhostEdit := vh, userEdit := u, passwordEdit := pw\<rparr>"
| "dlg_step sops toUInt ops v d SaveClicked = dlg_save toUInt d"
| "dlg_step sops toUInt ops v d (TestClicked sock) = startTest sops toUInt ops sock v d"
| "dlg_step sops toUInt ops v d PollTick = (if testPoll d then pollTest d else d)"
| "dlg_step sops toUInt ops v d (NetworkChange f) = d\<lparr>testConnection := map_option f (testConnection d)\<rparr>"

section \<open>Invariant\<close>

text \<open>
  A test runs exactly while the poll timer does, and never longer than the timeout; the elapsed time
  is a multiple of the interval. The result label says so unless the user has saved meanwhile.
\<close>

definition dlg_inv :: "('s, 'a, 'v) settings_dialog \<Rightarrow> bool" where
  "dlg_inv d \<longleftrightarrow> testPoll d = (testConnection d \<noteq> None)
     \<and> (testPoll d \<longrightarrow> 0 \<le> testElapsedMs d \<and> testElapsedMs d < kTestTimeoutMs)
     \<and> (resultLabel d = TestRunning \<longrightarrow> testPoll d)"

lemmas dlg_constants = kTestTimeoutMs_def kTestPollIntervalMs_def

lemma dlg_step_inv: "dlg_inv d \<Longrightarrow> dlg_inv (dlg_step sops toUInt ops v d e)"
  by (cases e)
     (auto simp: dlg_inv_def dlg_save_def startTest_def pollTest_def finishTest_def dlg_constants Let_def
        split: option.splits)

interpretation dlg: invariant_machine "dlg_step sops toUInt ops v" dlg_inv for sops toUInt ops v
  by unfold_locales (rule dlg_step_inv)

lemma newDialog_inv: "dlg_inv (newMqSettingsDialog sops st)"
  by (simp add: dlg_inv_def newMqSettingsDialog_def)

section \<open>A test ends\<close>

fun polls :: "('s, 'a, 'v) dlg_event list \<Rightarrow> nat" where
  "polls [] = 0"
| "polls (PollTick # es) = Suc (polls es)"
| "polls (_ # es) = polls es"

fun no_test_started :: "('s, 'a, 'v) dlg_event list \<Rightarrow> bool" where
  "no_test_started [] = True"
| "no_test_started (TestClicked _ # es) = False"
| "no_test_started (_ # es) = no_test_started es"

text \<open>The number of ticks a running test has left.\<close>

definition ticks_left :: "('s, 'a, 'v) settings_dialog \<Rightarrow> nat" where
  "ticks_left d = (if testPoll d then nat ((kTestTimeoutMs - testElapsedMs d + kTestPollIntervalMs - 1)
                                           div kTestPollIntervalMs) else 0)"

lemma ticks_left_other:
  "no_test_started [e] \<Longrightarrow> polls [e] = 0 \<Longrightarrow> ticks_left (dlg_step sops toUInt ops v d e) = ticks_left d"
  by (cases e) (simp_all add: ticks_left_def dlg_save_def Let_def)

lemma ticks_left_poll:
  assumes "dlg_inv d"
  shows "ticks_left (dlg_step sops toUInt ops v d PollTick) \<le> ticks_left d - 1"
proof -
  have "nat ((5000 - (e + 200) + 199) div 200) \<le> nat ((5000 - e + 199) div 200) - 1" for e :: int by linarith
  then show ?thesis
    by (auto simp: ticks_left_def pollTest_def finishTest_def dlg_constants Let_def split: option.splits)
qed

lemma ticks_left_run:
  assumes "dlg_inv d" and "no_test_started es"
  shows "ticks_left (run_steps (dlg_step sops toUInt ops v) d es) \<le> ticks_left d - polls es"
  using assms
proof (induction es arbitrary: d)
  case Nil
  then show ?case by simp
next
  case (Cons e es)
  have n: "no_test_started [e]" "no_test_started es" "polls (e # es) = polls [e] + polls es"
    using Cons.prems(2) by (cases e; simp)+
  have "ticks_left (dlg_step sops toUInt ops v d e) \<le> ticks_left d - polls [e]"
    using ticks_left_poll [OF Cons.prems(1), of sops toUInt ops v] ticks_left_other [of e sops toUInt ops v d] n(1)
    by (cases e) auto
  then show ?case
    using Cons.IH [OF dlg_step_inv [OF Cons.prems(1)] n(2), of sops toUInt ops v e] n(3) by simp
qed

lemma ticks_left_zero: "dlg_inv d \<Longrightarrow> ticks_left d = 0 \<Longrightarrow> testConnection d = None \<and> \<not> testPoll d"
  by (auto simp: ticks_left_def dlg_inv_def dlg_constants split: if_splits)

section \<open>Properties\<close>

text \<open>
  C40. A connection test ends and leaves nothing behind: whatever the user did before, whatever the
  network does meanwhile and whatever is edited or saved, 25 ticks of the poll timer (five seconds)
  after a click on the test button the timer is stopped, the temporary connection is gone and the
  label does not claim that a test is running.
\<close>
theorem settings_test_ends:
  assumes "25 \<le> polls es" and "no_test_started es"
    and "d = run_steps (dlg_step sops toUInt ops v) (newMqSettingsDialog sops st) (before @ TestClicked sock # es)"
  shows "testConnection d = None \<and> \<not> testPoll d \<and> resultLabel d \<noteq> TestRunning"
proof -
  let ?run = "run_steps (dlg_step sops toUInt ops v)"
  let ?d0 = "?run (newMqSettingsDialog sops st) before"
  let ?d1 = "dlg_step sops toUInt ops v ?d0 (TestClicked sock)"
  have d: "d = ?run ?d1 es" using assms(3) by (simp add: run_steps_append)
  have i0: "dlg_inv ?d0" by (rule dlg.run_inv [OF newDialog_inv])
  have i1: "dlg_inv ?d1" by (rule dlg_step_inv [OF i0])
  have i: "dlg_inv d" unfolding d by (rule dlg.run_inv [OF i1])
  have "ticks_left ?d1 = 25" by (simp add: ticks_left_def startTest_def dlg_constants Let_def)
  then have "ticks_left d = 0" using ticks_left_run [OF i1 assms(2), of sops toUInt ops v] assms(1) d by simp
  then show ?thesis using ticks_left_zero [OF i] i by (auto simp: dlg_inv_def)
qed

lemmas mqs_dialog_defs = mqs_host_def mqs_port_def mqs_vhost_def mqs_user_def mqs_password_def
  mqs_dbSizeWarningThresholdBytes_def mqs_setHost_def mqs_setPort_def mqs_setVhost_def mqs_setUser_def
  mqs_setPassword_def settings_get_set kHostKey_def kPortKey_def kVhostKey_def kUserKey_def kPasswordKey_def
  kDbSizeWarningThresholdBytesKey_def

lemma polls_replicate: "polls (replicate n PollTick) = n \<and> no_test_started (replicate n PollTick)"
  by (induction n) simp_all

theorem settings_test_ends_witness:
  "testConnection (run_steps (dlg_step demo_sops (\<lambda>_. 5672) log_ops ())
     (newMqSettingsDialog demo_sops Map.empty :: (log_socket, unit, unit) settings_dialog)
     ([] @ TestClicked \<lparr>log_written = [], log_incoming = [], log_up = True\<rparr> # replicate 25 PollTick)) = None"
proof -
  have "25 \<le> polls (replicate 25 PollTick :: (log_socket, unit, unit) dlg_event list)"
    and "no_test_started (replicate 25 PollTick :: (log_socket, unit, unit) dlg_event list)"
    by (simp_all only: polls_replicate order_refl)
  from settings_test_ends [OF this refl] show ?thesis by blast
qed

text \<open>
  Opening the dialog and saving without an edit changes no setting: host, port, virtual host,
  user and password read afterwards as before (for a conversion of settings that returns what was
  stored and a number reader that reads the decimal digits of a port).
\<close>
theorem settings_save_unchanged:
  assumes "\<And>x. to_string sops (SString x) = x" and "\<And>n. to_uint sops (SUInt n) = Some n"
    and "\<And>n. n < 65536 \<Longrightarrow> toUInt (dec_digits n) = n"
  shows "let st' = dlg_settings (dlg_save toUInt (newMqSettingsDialog sops st :: ('s, 'a, 'v) settings_dialog))
         in mqs_host sops st' = mqs_host sops st \<and> mqs_port sops st' = mqs_port sops st
            \<and> mqs_vhost sops st' = mqs_vhost sops st \<and> mqs_user sops st' = mqs_user sops st
            \<and> mqs_password sops st' = mqs_password sops st
            \<and> mqs_dbSizeWarningThresholdBytes sops st' = mqs_dbSizeWarningThresholdBytes sops st"
proof -
  have u: "unat p < 65536" for p :: u16 using unsigned_less [where 'a = nat, of p] by simp
  have "toUInt (dec_digits (unat p)) = unat p" for p :: u16 using assms(3) u by blast
  moreover have "unat p \<le> 65535" for p :: u16 using u [of p] by simp
  ultimately show ?thesis
    by (simp add: dlg_save_def dlg_port_def newMqSettingsDialog_def mqs_dialog_defs assms(1,2) Let_def)
qed

text \<open>Reading decimal digits.\<close>

definition dec_value :: "string \<Rightarrow> nat" where
  "dec_value txt = foldl (\<lambda>v c. v * 10 + (of_char c - 48)) 0 txt"

lemma dec_value_digits: "dec_value (dec_digits n) = n"
proof (induction n rule: dec_digits.induct)
  case (1 n)
  have "of_char (char_of (48 + n mod 10) :: char) = 48 + n mod 10" by simp
  then show ?case using 1 by (simp add: dec_value_def dec_digits.simps [of n])
qed

theorem settings_save_unchanged_witness:
  "mqs_port demo_sops (dlg_settings (dlg_save dec_value
     (newMqSettingsDialog demo_sops (mqs_setPort 5671 Map.empty) :: (unit, unit, unit) settings_dialog))) = 5671"
  using settings_save_unchanged [where sops = demo_sops and toUInt = dec_value and st = "mqs_setPort 5671 Map.empty"
      and 's = unit and 'a = unit and 'v = unit]
  by (simp add: dec_value_digits demo_sops_def mqs_port_def mqs_setPort_def settings_get_set Let_def)

text \<open>
  The port field is not checked: a number above 65535 is stored modulo 65536, and a text that is no
  number is stored as port 0, which MqSettings then reads back as a valid configured port.
\<close>
theorem settings_save_wraps_port:
  assumes "\<And>n. to_uint sops (SUInt n) = Some n"
  shows "mqs_port sops (dlg_settings (dlg_save toUInt d)) = of_nat (toUInt (portEdit d) mod 65536)"
proof -
  have "unat (p :: u16) \<le> 65535" for p using unsigned_less [where 'a = nat, of p] by simp
  moreover have "(of_nat n :: u16) = of_nat (n mod 65536)" for n by (simp add: word_unat_eq_iff unsigned_of_nat take_bit_eq_mod)
  ultimately show ?thesis
    using assms by (simp add: dlg_save_def dlg_port_def mqs_dialog_defs Let_def)
qed

theorem settings_save_wraps_port_witness:
  "mqs_port demo_sops (dlg_settings (dlg_save dec_value
     ((newMqSettingsDialog demo_sops Map.empty :: (unit, unit, unit) settings_dialog)\<lparr>portEdit := ''70000''\<rparr>))) = 4464"
  using settings_save_wraps_port [of demo_sops dec_value
    "(newMqSettingsDialog demo_sops Map.empty :: (unit, unit, unit) settings_dialog)\<lparr>portEdit := ''70000''\<rparr>"]
  by (simp add: demo_sops_def dec_value_def)

end
