(* ===== verification/Mq_Tab.thy ===== *)
theory Mq_Tab
  imports Mq_Service Mq_Store Mq_Settings_Dialog
begin

text \<open>
  The message tab: src/features/mq/mq\_tab.\{h,cpp\}. This is where the message service, the message
  store, the worker thread and the settings meet. The service's signals are direct calls, so the tab's
  slots run, in order, for every signal a service operation has emitted (they touch nothing the
  service reads). The tab's worker runs one job after the other on the store and posts each result to the
  callers' thread, where the callbacks run one after the other (as in Worker\_Queue); a job and its
  callback are values of a datatype. A store operation that throws is not caught on the worker thread,
  which ends the process. Captions of widgets are constructors, the time shown in a row is an argument.
\<close>

section \<open>State\<close>

record PresentedMessage =
  pm_displayTitle :: string
  pm_searchText :: string
  pm_detail :: string

definition kMaximumRows :: nat where "kMaximumRows = 5000"
definition kRecentRows :: int where "kRecentRows = 200"

text \<open>The calendar of the GUI framework: the time at a number of milliseconds after midnight of a day.\<close>

record ('d, 't) date_ops =
  dt_at :: "'d \<Rightarrow> nat \<Rightarrow> 't option"
  d_addMonths :: "int \<Rightarrow> 'd \<Rightarrow> 'd"
  d_addYears :: "int \<Rightarrow> 'd \<Rightarrow> 'd"
  d_isoDate :: "'d \<Rightarrow> string"

definition startOfDay :: "('d, 't) date_ops \<Rightarrow> 'd \<Rightarrow> 't option" where
  "startOfDay dops date = dt_at dops date 0"

definition endOfDay :: "('d, 't) date_ops \<Rightarrow> 'd \<Rightarrow> 't option" where
  "endOfDay dops date = dt_at dops date (((23 * 60 + 59) * 60 + 59) * 1000 + 999)"

text \<open>The jobs and the callbacks handed to worker\_.call, with what they capture.\<close>

datatype 't tab_job =
    InsertJob "'t Envelope" string PresentedMessage
  | MarkAckedJob string
  | RecentJob int
  | SearchJob string "'t option" "'t option" string bool
  | PurgeJob "'t option" "'t option"
  | FileSizeJob

datatype tab_callback =
    SentCallback string PresentedMessage
  | ReceivedCallback u64 string PresentedMessage bool string
  | PopulateCallback
  | DbSizeCallback
  | ReloadCallback
  | NoCallback

datatype 't variant = Invalid | VarBool bool | VarRows "'t StoredMessage list" | VarLongLong int

fun toBool :: "'t variant \<Rightarrow> bool" where
  "toBool (VarBool b) = b"
| "toBool (VarLongLong n) = (n \<noteq> 0)"
| "toBool _ = False"

fun toLongLong :: "'t variant \<Rightarrow> int" where
  "toLongLong (VarLongLong n) = n"
| "toLongLong (VarBool b) = (if b then 1 else 0)"
| "toLongLong _ = 0"

fun toRows :: "'t variant \<Rightarrow> 't StoredMessage list" where
  "toRows (VarRows r) = r"
| "toRows _ = []"

record table_row =
  row_sequence :: u64
  row_time :: string
  row_isReceived :: bool
  row_type :: string
  row_title :: string
  row_detail :: string
  row_redelivered :: bool
  row_acked :: bool

datatype connection_label = AmqpError string | ConnectError string | StillConnecting | NowConnected

datatype send_type = LabNote | CardIssued | CardCancelled | CardReplaced

record counters =
  sentCount :: u64
  receivedCount :: u64
  waitingCount :: u64
  rejectedCount :: u64
  returnedCount :: u64
  duplicateCount :: u64

record 'd tab_filter =
  filterType :: string
  filterFromDate :: 'd
  filterToDate :: 'd
  filterSearchEdit :: string
  filterReceivedOnlyCheck :: bool

text \<open>
  The members, with the service, the store's database and the worker's queues; done is the history
  of the jobs that have returned, terminated says that an exception has ended the process.
\<close>

record ('c, 't, 'db, 'd) mq_tab =
  tab_service :: "('c, 't) mq_service"
  tab_settings :: settings
  tab_db :: 'db
  tab_jobs :: "('t tab_job \<times> tab_callback) list"
  tab_results :: "(tab_callback \<times> 't variant) list"
  tab_done :: "('t tab_job \<times> tab_callback) list"
  tab_terminated :: bool
  pendingAckEnvelopeIds :: "u64 \<rightharpoonup> string"
  tab_rows :: "table_row list"
  nextSequence :: u64
  tab_counters :: counters
  shownCounters :: counters
  serviceError :: string
  connectionLabel :: connection_label
  sendEnabled :: bool
  bodyEdit :: string
  sendType :: send_type
  tab_filter :: "'d tab_filter"
  dbSizeLabel :: "(nat \<times> int) option"
  dbSizeWarned :: bool
  purgeVisible :: bool
  dbWarningLogged :: bool
  tab_warnings :: "string list"

text \<open>What the tab is built with: the parameters of its parts and the application's presenter.\<close>

record ('a, 'c, 't, 'db, 'd) tab_env =
  te_qt :: "'t store_ops"
  te_channel :: "('a, 'c) channel_ops"
  te_order :: "u64 set \<Rightarrow> u64 list"
  te_sqlite :: "'db sqlite"
  te_fileSize :: "'db \<Rightarrow> int"
  te_settings :: setting_ops
  te_dates :: "('d, 't) date_ops"
  te_presenter :: "(string \<Rightarrow> QJsonObject \<Rightarrow> PresentedMessage) option"

section \<open>Operations\<close>

definition worker_call ::
  "'t tab_job \<Rightarrow> tab_callback \<Rightarrow> ('c, 't, 'db, 'd) mq_tab \<Rightarrow> ('c, 't, 'db, 'd) mq_tab" where
  "worker_call job onDone s = s\<lparr>tab_jobs := tab_jobs s @ [(job, onDone)]\<rparr>"

definition updateCounters :: "('c, 't, 'db, 'd) mq_tab \<Rightarrow> ('c, 't, 'db, 'd) mq_tab" where
  "updateCounters s = s\<lparr>shownCounters := tab_counters s\<rparr>"

definition count_with ::
  "(counters \<Rightarrow> counters) \<Rightarrow> ('c, 't, 'db, 'd) mq_tab \<Rightarrow> ('c, 't, 'db, 'd) mq_tab" where
  "count_with f s = updateCounters (s\<lparr>tab_counters := f (tab_counters s)\<rparr>)"

definition setConnectionError :: "string \<Rightarrow> ('c, 't, 'db, 'd) mq_tab \<Rightarrow> ('c, 't, 'db, 'd) mq_tab" where
  "setConnectionError msg s =
     s\<lparr>serviceError := msg, connectionLabel := AmqpError msg, sendEnabled := False\<rparr>"

definition presentOrFallback ::
  "('a, 'c, 't, 'db, 'd) tab_env \<Rightarrow> string \<Rightarrow> QJsonObject \<Rightarrow> PresentedMessage" where
  "presentOrFallback env type payload =
     (let presented = (case te_presenter env of
                         None \<Rightarrow> \<lparr>pm_displayTitle = [], pm_searchText = [], pm_detail = []\<rparr>
                       | Some presenter \<Rightarrow> presenter type payload)
      in if pm_displayTitle presented = []
         then presented\<lparr>pm_displayTitle := so_fromUtf8 (te_qt env) (qt_toJson (te_qt env) payload)\<rparr>
         else presented)"

text \<open>insertRow; the clock is the time it shows.\<close>

definition insertRow ::
  "string \<Rightarrow> string \<Rightarrow> string \<Rightarrow> PresentedMessage \<Rightarrow> bool \<Rightarrow> bool
   \<Rightarrow> ('c, 't, 'db, 'd) mq_tab \<Rightarrow> ('c, 't, 'db, 'd) mq_tab" where
  "insertRow clock direction type presented redelivered acked s =
     (let rows = (if length (tab_rows s) \<ge> kMaximumRows then tl (tab_rows s) else tab_rows s);
          row = \<lparr>row_sequence = nextSequence s, row_time = clock, row_isReceived = (direction = ''received''),
                 row_type = type, row_title = pm_displayTitle presented,
                 row_detail = (if pm_detail presented = [] then ''-'' else pm_detail presented),
                 row_redelivered = redelivered, row_acked = acked\<rparr>;
          s = s\<lparr>tab_rows := rows @ [row], nextSequence := nextSequence s + 1\<rparr>
      in if direction = ''received''
         then count_with (\<lambda>c. c\<lparr>receivedCount := receivedCount c + 1,
                                waitingCount := (if waitingCount c > 0 then waitingCount c - 1 else waitingCount c)\<rparr>) s
         else s)"

definition requestDbSize :: "('c, 't, 'db, 'd) mq_tab \<Rightarrow> ('c, 't, 'db, 'd) mq_tab" where
  "requestDbSize s = worker_call FileSizeJob DbSizeCallback s"

definition updateDbSize ::
  "('a, 'c, 't, 'db, 'd) tab_env \<Rightarrow> int \<Rightarrow> ('c, 't, 'db, 'd) mq_tab \<Rightarrow> ('c, 't, 'db, 'd) mq_tab" where
  "updateDbSize env bytes s =
     (let threshold = mqs_dbSizeWarningThresholdBytes (te_settings env) (tab_settings s);
          warning = (bytes > threshold);
          s = s\<lparr>dbSizeLabel := Some (length (tab_rows s), bytes), dbSizeWarned := warning, purgeVisible := warning\<rparr>;
          s = (if warning \<and> \<not> dbWarningLogged s
               then s\<lparr>tab_warnings := tab_warnings s @ [''MQ database size '' @ dec_int bytes
                        @ '' bytes exceeds warning threshold '' @ dec_int threshold @ '' bytes'']\<rparr>
               else s)
      in s\<lparr>dbWarningLogged := warning\<rparr>)"

definition loadRecent :: "('c, 't, 'db, 'd) mq_tab \<Rightarrow> ('c, 't, 'db, 'd) mq_tab" where
  "loadRecent s = worker_call (RecentJob kRecentRows) PopulateCallback s"

definition populateRow ::
  "('a, 'c, 't, 'db, 'd) tab_env \<Rightarrow> string \<Rightarrow> 't StoredMessage \<Rightarrow> ('c, 't, 'db, 'd) mq_tab \<Rightarrow> ('c, 't, 'db, 'd) mq_tab" where
  "populateRow env clock msg s =
     (let presented = presentOrFallback env (sm_envelopeType msg) (sm_payload msg);
          presented = (if sm_displayTitle msg \<noteq> [] then presented\<lparr>pm_displayTitle := sm_displayTitle msg\<rparr>
                       else presented)
      in insertRow clock (sm_direction msg) (sm_envelopeType msg) presented (sm_redelivered msg) (sm_acked msg) s)"

definition populateRows ::
  "('a, 'c, 't, 'db, 'd) tab_env \<Rightarrow> string \<Rightarrow> 't variant \<Rightarrow> ('c, 't, 'db, 'd) mq_tab \<Rightarrow> ('c, 't, 'db, 'd) mq_tab" where
  "populateRows env clock rows s =
     fold (populateRow env clock) (toRows rows) (s\<lparr>tab_rows := [], nextSequence := 1\<rparr>)"

definition applyFilter ::
  "('a, 'c, 't, 'db, 'd) tab_env \<Rightarrow> ('c, 't, 'db, 'd) mq_tab \<Rightarrow> ('c, 't, 'db, 'd) mq_tab" where
  "applyFilter env s =
     (let f = tab_filter s
      in worker_call (SearchJob (filterType f) (startOfDay (te_dates env) (filterFromDate f))
                        (endOfDay (te_dates env) (filterToDate f)) (trimmed (filterSearchEdit f))
                        (filterReceivedOnlyCheck f))
           PopulateCallback s)"

definition freshFilter :: "('d, 't) date_ops \<Rightarrow> 'd \<Rightarrow> 'd tab_filter" where
  "freshFilter dops today =
     \<lparr>filterType = [], filterFromDate = d_addMonths dops (- 1) today, filterToDate = today,
      filterSearchEdit = [], filterReceivedOnlyCheck = False\<rparr>"

definition filterClear ::
  "('a, 'c, 't, 'db, 'd) tab_env \<Rightarrow> 'd \<Rightarrow> ('c, 't, 'db, 'd) mq_tab \<Rightarrow> ('c, 't, 'db, 'd) mq_tab" where
  "filterClear env today s = loadRecent (s\<lparr>tab_filter := freshFilter (te_dates env) today\<rparr>)"

text \<open>The purge dialog: None when it is cancelled, otherwise the two dates.\<close>

definition showPurgeDialog ::
  "('a, 'c, 't, 'db, 'd) tab_env \<Rightarrow> ('d \<times> 'd) option \<Rightarrow> ('c, 't, 'db, 'd) mq_tab \<Rightarrow> ('c, 't, 'db, 'd) mq_tab" where
  "showPurgeDialog env accepted s =
     (case accepted of
        None \<Rightarrow> s
      | Some (fromEdit, toEdit) \<Rightarrow>
          worker_call (PurgeJob (startOfDay (te_dates env) fromEdit) (endOfDay (te_dates env) toEdit)) ReloadCallback s)"

definition onDeliveryAcked :: "u64 \<Rightarrow> ('c, 't, 'db, 'd) mq_tab \<Rightarrow> ('c, 't, 'db, 'd) mq_tab" where
  "onDeliveryAcked deliveryTag s =
     (let envelopeId = (case pendingAckEnvelopeIds s deliveryTag of None \<Rightarrow> [] | Some i \<Rightarrow> i);
          s = s\<lparr>pendingAckEnvelopeIds := (pendingAckEnvelopeIds s)(deliveryTag := None)\<rparr>
      in if envelopeId = [] then s else worker_call (MarkAckedJob envelopeId) NoCallback s)"

definition noteRejectedMessage :: "string \<Rightarrow> ('c, 't, 'db, 'd) mq_tab \<Rightarrow> ('c, 't, 'db, 'd) mq_tab" where
  "noteRejectedMessage reason s =
     (let s = count_with (\<lambda>c. c\<lparr>rejectedCount := rejectedCount c + 1\<rparr>) s
      in s\<lparr>tab_warnings := tab_warnings s @ [''rejected an undecodable message: '' @ reason]\<rparr>)"

definition noteReturnedMessage :: "string \<Rightarrow> string \<Rightarrow> ('c, 't, 'db, 'd) mq_tab \<Rightarrow> ('c, 't, 'db, 'd) mq_tab" where
  "noteReturnedMessage routingKey description s =
     (let s = count_with (\<lambda>c. c\<lparr>returnedCount := returnedCount c + 1\<rparr>) s
      in s\<lparr>tab_warnings := tab_warnings s @ [''message returned for routing key '' @ routingKey @ '': '' @ description]\<rparr>)"

section \<open>The slots on the service's signals\<close>

definition tabEnvelope :: "string \<Rightarrow> 't option \<Rightarrow> string \<Rightarrow> QJsonObject \<Rightarrow> 't Envelope" where
  "tabEnvelope i timestamp type payload =
     \<lparr>env_id = i, env_timestamp = timestamp, env_version = 1, env_source = [], env_type = type, env_payload = payload\<rparr>"

fun tab_slot ::
  "('a, 'c, 't, 'db, 'd) tab_env \<Rightarrow> 't mq_signal \<Rightarrow> ('c, 't, 'db, 'd) mq_tab \<Rightarrow> ('c, 't, 'db, 'd) mq_tab" where
  "tab_slot env (Published i timestamp type payload) s =
     (let s = count_with (\<lambda>c. c\<lparr>sentCount := sentCount c + 1, waitingCount := waitingCount c + 1\<rparr>) s;
          presented = presentOrFallback env type payload
      in worker_call (InsertJob (tabEnvelope i timestamp type payload) ''sent'' presented)
           (SentCallback type presented) s)"
| "tab_slot env (MessageReceived i timestamp type payload redelivered deliveryTag) s =
     (let presented = presentOrFallback env type payload
      in worker_call (InsertJob (tabEnvelope i timestamp type payload) ''received'' presented)
           (ReceivedCallback deliveryTag type presented redelivered i) s)"
| "tab_slot env (ErrorOccurred msg) s = setConnectionError msg s"
| "tab_slot env (MessageRejected reason) s = noteRejectedMessage reason s"
| "tab_slot env (MessageReturned routingKey description) s = noteReturnedMessage routingKey description s"
| "tab_slot env (DeliveryAcked deliveryTag) s = onDeliveryAcked deliveryTag s"

text \<open>An operation of the service, followed by the slots for the signals it has emitted.\<close>

definition with_service ::
  "('a, 'c, 't, 'db, 'd) tab_env \<Rightarrow> (('c, 't) mq_service \<Rightarrow> ('c, 't) mq_service)
   \<Rightarrow> ('c, 't, 'db, 'd) mq_tab \<Rightarrow> ('c, 't, 'db, 'd) mq_tab" where
  "with_service env f s =
     (let service = f (tab_service s);
          signals = drop (length (svc_emitted (tab_service s))) (svc_emitted service)
      in fold (tab_slot env) signals (s\<lparr>tab_service := service\<rparr>))"

text \<open>conn is the connection's AMQP connection object, err its errorString.\<close>

definition refreshConnectionState ::
  "('a, 'c, 't, 'db, 'd) tab_env \<Rightarrow> 'a option \<Rightarrow> string \<Rightarrow> bool \<Rightarrow> ('c, 't, 'db, 'd) mq_tab \<Rightarrow> ('c, 't, 'db, 'd) mq_tab" where
  "refreshConnectionState env conn err up s =
     (if \<not> up then
        s\<lparr>connectionLabel := (if err \<noteq> [] then ConnectError err else StillConnecting), sendEnabled := False\<rparr>
      else with_service env (\<lambda>v. snd (startConsuming (te_channel env) conn v))
             (s\<lparr>serviceError := [], connectionLabel := NowConnected, sendEnabled := True\<rparr>))"

definition sendPayload :: "('d, 't) date_ops \<Rightarrow> 'd \<Rightarrow> string \<Rightarrow> send_type \<Rightarrow> string \<times> QJsonObject" where
  "sendPayload dops today body st =
     (if st = LabNote then (''lab.note'', [(''text'', JString body)])
      else (if st = CardIssued then ''card.issued''
            else if st = CardCancelled then ''card.cancelled'' else ''card.replaced'',
            [(''username'', JString body), (''card_uid'', JString ''DEMO-CARD''), (''gender'', JString []),
             (''role'', JString ''demo''), (''expiry_date'', JString (d_isoDate dops (d_addYears dops 1 today)))]))"

definition sendCurrentBody ::
  "('a, 'c, 't, 'db, 'd) tab_env \<Rightarrow> 'a option \<Rightarrow> bool \<Rightarrow> string \<Rightarrow> 't \<Rightarrow> 'd \<Rightarrow> ('c, 't, 'db, 'd) mq_tab
   \<Rightarrow> ('c, 't, 'db, 'd) mq_tab" where
  "sendCurrentBody env conn ready uuid now today s =
     (if trimmed (bodyEdit s) = [] \<or> \<not> ready then s
      else (let (type, payload) = sendPayload (te_dates env) today (bodyEdit s) (sendType s);
                pub = publish (qt_ops.truncate (te_qt env)) (te_channel env) conn uuid now type payload;
                sent = fst (pub (tab_service s));
                s = with_service env (\<lambda>v. snd (pub v)) s
            in if sent then s\<lparr>bodyEdit := []\<rparr> else s))"

section \<open>The callbacks\<close>

fun tab_callback_run ::
  "('a, 'c, 't, 'db, 'd) tab_env \<Rightarrow> string \<Rightarrow> tab_callback \<Rightarrow> 't variant \<Rightarrow> ('c, 't, 'db, 'd) mq_tab
   \<Rightarrow> ('c, 't, 'db, 'd) mq_tab" where
  "tab_callback_run env clock (SentCallback type presented) result s =
     requestDbSize (insertRow clock ''sent'' type presented False False s)"
| "tab_callback_run env clock (ReceivedCallback deliveryTag type presented redelivered envelopeId) freshlyInserted s =
     (let s = s\<lparr>pendingAckEnvelopeIds := (pendingAckEnvelopeIds s)(deliveryTag \<mapsto> envelopeId)\<rparr>;
          s = with_service env (confirmInserted (te_channel env) deliveryTag) s;
          ackedNow = (pendingAckEnvelopeIds s deliveryTag = None);
          s = (if toBool freshlyInserted then insertRow clock ''received'' type presented redelivered ackedNow s
               else count_with (\<lambda>c. c\<lparr>duplicateCount := duplicateCount c + 1\<rparr>) s)
      in requestDbSize s)"
| "tab_callback_run env clock PopulateCallback rows s = requestDbSize (populateRows env clock rows s)"
| "tab_callback_run env clock DbSizeCallback bytes s = updateDbSize env (toLongLong bytes) s"
| "tab_callback_run env clock ReloadCallback result s = loadRecent s"
| "tab_callback_run env clock NoCallback result s = s"

section \<open>The worker\<close>

text \<open>None when a query never ends.\<close>

fun run_job ::
  "('a, 'c, 't, 'db, 'd) tab_env \<Rightarrow> 't \<Rightarrow> 't tab_job \<Rightarrow> 'db \<Rightarrow> ('db \<times> 't variant) result option" where
  "run_job env now (InsertJob envelope direction presented) db =
     Some (map_sum id (map_prod id VarBool)
       (store_insert (te_qt env) (te_sqlite env) now envelope direction (pm_displayTitle presented)
          (pm_searchText presented) db))"
| "run_job env now (MarkAckedJob envelopeId) db =
     Some (map_sum id (\<lambda>db'. (db', Invalid)) (store_markAcked (te_sqlite env) envelopeId db))"
| "run_job env now (RecentJob limit) db =
     map_option (map_sum id (\<lambda>rows. (db, VarRows rows))) (store_recent (te_qt env) (te_sqlite env) limit db)"
| "run_job env now (SearchJob type from to searchText receivedOnly) db =
     map_option (map_sum id (\<lambda>rows. (db, VarRows rows)))
       (store_search (te_qt env) (te_sqlite env) type from to searchText receivedOnly db)"
| "run_job env now (PurgeJob from to) db =
     Some (map_sum id (map_prod id VarBool) (store_purge (te_qt env) (te_sqlite env) from to db))"
| "run_job env now FileSizeJob db = Some (Inr (db, VarLongLong (te_fileSize env db)))"

definition worker_run ::
  "('a, 'c, 't, 'db, 'd) tab_env \<Rightarrow> 't \<Rightarrow> ('c, 't, 'db, 'd) mq_tab \<Rightarrow> ('c, 't, 'db, 'd) mq_tab" where
  "worker_run env now s =
     (case tab_jobs s of
        [] \<Rightarrow> s
      | (job, onDone) # jobs \<Rightarrow>
          (case run_job env now job (tab_db s) of
             None \<Rightarrow> s
           | Some (Inl _) \<Rightarrow> s\<lparr>tab_jobs := jobs, tab_terminated := True\<rparr>
           | Some (Inr (db, result)) \<Rightarrow>
               s\<lparr>tab_jobs := jobs, tab_db := db, tab_results := tab_results s @ [(onDone, result)],
                 tab_done := tab_done s @ [(job, onDone)]\<rparr>))"

definition run_callback ::
  "('a, 'c, 't, 'db, 'd) tab_env \<Rightarrow> string \<Rightarrow> ('c, 't, 'db, 'd) mq_tab \<Rightarrow> ('c, 't, 'db, 'd) mq_tab" where
  "run_callback env clock s =
     (case tab_results s of
        [] \<Rightarrow> s
      | (onDone, result) # results \<Rightarrow> tab_callback_run env clock onDone result (s\<lparr>tab_results := results\<rparr>))"

section \<open>Construction and events\<close>

definition noCounters :: counters where
  "noCounters = \<lparr>sentCount = 0, receivedCount = 0, waitingCount = 0, rejectedCount = 0, returnedCount = 0,
                 duplicateCount = 0\<rparr>"

definition blankTab ::
  "('a, 'c, 't, 'db, 'd) tab_env \<Rightarrow> settings \<Rightarrow> 'db \<Rightarrow> 'd \<Rightarrow> ('c, 't, 'db, 'd) mq_tab" where
  "blankTab env st db today =
     \<lparr>tab_service = newMqService, tab_settings = st, tab_db = db, tab_jobs = [], tab_results = [], tab_done = [],
      tab_terminated = False, pendingAckEnvelopeIds = Map.empty, tab_rows = [], nextSequence = 1,
      tab_counters = noCounters, shownCounters = noCounters, serviceError = [], connectionLabel = StillConnecting,
      sendEnabled = True, bodyEdit = [], sendType = LabNote, tab_filter = freshFilter (te_dates env) today,
      dbSizeLabel = None, dbSizeWarned = False, purgeVisible = False, dbWarningLogged = False, tab_warnings = []\<rparr>"

text \<open>The constructor; the service is a fresh one, ready, err and conn are the connection's answers.\<close>

definition newMqTab ::
  "('a, 'c, 't, 'db, 'd) tab_env \<Rightarrow> settings \<Rightarrow> 'db \<Rightarrow> 'd \<Rightarrow> 'a option \<Rightarrow> string \<Rightarrow> bool \<Rightarrow> ('c, 't, 'db, 'd) mq_tab" where
  "newMqTab env st db today conn err ready =
     loadRecent (refreshConnectionState env conn err ready (blankTab env st db today))"

datatype ('a, 't, 'd) tab_event =
    ConnectionChanged bool string "'a option"
  | BrokerCallback "('a, 't) svc_event"
  | PauseToggled "'a option" bool
  | SendRequested "'a option" bool string 't 'd
  | BodyEdited string
  | SendTypeChosen send_type
  | FilterEdited "'d tab_filter"
  | FilterApplyClicked
  | FilterClearClicked 'd
  | PurgeClicked "('d \<times> 'd) option"
  | SettingsSaved settings
  | WorkerRuns 't
  | CallbackRuns string

text \<open>The events of the service that come from the protocol library rather than from the tab.\<close>

fun from_library :: "('a, 't) svc_event \<Rightarrow> bool" where
  "from_library (ConsumeSuccessEv _) = True"
| "from_library (ReceivedEv _ _ _) = True"
| "from_library (CancelledEv _) = True"
| "from_library (ConsumeErrorEv _) = True"
| "from_library (CancelSuccessEv _) = True"
| "from_library (CancelErrorEv _) = True"
| "from_library (ChannelErrorEv _) = True"
| "from_library (ReturnedEv _ _) = True"
| "from_library _ = False"

fun tab_handle ::
  "('a, 'c, 't, 'db, 'd) tab_env \<Rightarrow> ('c, 't, 'db, 'd) mq_tab \<Rightarrow> ('a, 't, 'd) tab_event \<Rightarrow> ('c, 't, 'db, 'd) mq_tab" where
  "tab_handle env s (ConnectionChanged up err conn) =
     refreshConnectionState env conn err up (with_service env (svc_onConnectionStateChanged up) s)"
| "tab_handle env s (BrokerCallback e) =
     (if from_library e
      then with_service env (\<lambda>v. svc_step (qt_ops.truncate (te_qt env)) (te_channel env) (te_order env) v e) s else s)"
| "tab_handle env s (PauseToggled conn paused) =
     with_service env (pauseConsuming (te_channel env) (te_order env) conn paused) s"
| "tab_handle env s (SendRequested conn ready uuid now today) = sendCurrentBody env conn ready uuid now today s"
| "tab_handle env s (BodyEdited txt) = s\<lparr>bodyEdit := txt\<rparr>"
| "tab_handle env s (SendTypeChosen st) = s\<lparr>sendType := st\<rparr>"
| "tab_handle env s (FilterEdited f) = s\<lparr>tab_filter := f\<rparr>"
| "tab_handle env s FilterApplyClicked = applyFilter env s"
| "tab_handle env s (FilterClearClicked today) = filterClear env today s"
| "tab_handle env s (PurgeClicked accepted) = showPurgeDialog env accepted s"
| "tab_handle env s (SettingsSaved st) = s\<lparr>tab_settings := st\<rparr>"
| "tab_handle env s (WorkerRuns now) = worker_run env now s"
| "tab_handle env s (CallbackRuns clock) = run_callback env clock s"

definition tab_step ::
  "('a, 'c, 't, 'db, 'd) tab_env \<Rightarrow> ('c, 't, 'db, 'd) mq_tab \<Rightarrow> ('a, 't, 'd) tab_event \<Rightarrow> ('c, 't, 'db, 'd) mq_tab" where
  "tab_step env s e = (if tab_terminated s then s else tab_handle env s e)"

end
