(* ===== verification/Mq_Tab_Deliveries.thy ===== *)
theory Mq_Tab_Deliveries
  imports Mq_Tab
begin

text \<open>
  What the message tab guarantees about deliveries, rows and counters: an invariant of every run of its
  events (the user, the broker, the worker thread and the queued callbacks in any order), and the
  properties that follow from it.
\<close>

section \<open>The service's signals only grow, and what it acknowledges it was told to\<close>

definition extends :: "('c, 't) mq_service \<Rightarrow> ('c, 't) mq_service \<Rightarrow> bool" where
  "extends v' v \<longleftrightarrow> (\<exists>new. svc_emitted v' = svc_emitted v @ new)"

text \<open>The acknowledgements of a tag sent so far, and the one that is owed.\<close>

definition claims_of :: "u64 \<Rightarrow> ('c, 't) mq_service \<Rightarrow> nat" where
  "claims_of t v = acks_of t v + (if t \<in> committedDeliveries v then 1 else 0)"

definition keeps_claims :: "('c, 't) mq_service \<Rightarrow> ('c, 't) mq_service \<Rightarrow> bool" where
  "keeps_claims v' v \<longleftrightarrow> extends v' v \<and> (\<forall>t. claims_of t v' \<le> claims_of t v)"

lemma keeps_claims_refl [simp]: "keeps_claims v v"
  by (simp add: keeps_claims_def extends_def)

lemma keeps_claims_trans: "keeps_claims v2 v1 \<Longrightarrow> keeps_claims v1 v0 \<Longrightarrow> keeps_claims v2 v0"
  by (auto simp: keeps_claims_def extends_def intro: order_trans)

lemma keeps_claims_frame:
  "keeps_claims (v\<lparr>svc_channel := c\<rparr>) v0 = keeps_claims v v0"
  "keeps_claims (v\<lparr>consumerTag := tg\<rparr>) v0 = keeps_claims v v0"
  "keeps_claims (v\<lparr>svc_paused := b\<rparr>) v0 = keeps_claims v v0"
  "keeps_claims (v\<lparr>consumerStarting := b\<rparr>) v0 = keeps_claims v v0"
  "keeps_claims (v\<lparr>svc_consuming := b\<rparr>) v0 = keeps_claims v v0"
  "keeps_claims (v\<lparr>cancelPending := b\<rparr>) v0 = keeps_claims v v0"
  "keeps_claims (v\<lparr>pendingDeliveries := P\<rparr>) v0 = keeps_claims v v0"
  by (simp_all add: keeps_claims_def extends_def claims_of_def acks_of_def)

lemma keeps_claims_emit:
  "keeps_claims v v0 \<Longrightarrow> \<forall>t. sig \<noteq> DeliveryAcked t \<Longrightarrow> keeps_claims (svc_emit sig v) v0"
  by (auto simp: keeps_claims_def extends_def claims_of_def svc_emit_def acks_of_def)

lemma claims_uncommit: "C \<subseteq> committedDeliveries v \<Longrightarrow> claims_of t (v\<lparr>committedDeliveries := C\<rparr>) \<le> claims_of t v"
  by (auto simp: claims_of_def)

lemma keeps_claims_uncommit:
  "keeps_claims v v0 \<Longrightarrow> C \<subseteq> committedDeliveries v \<Longrightarrow> keeps_claims (v\<lparr>committedDeliveries := C\<rparr>) v0"
  using claims_uncommit [of C v] by (auto simp: keeps_claims_def extends_def intro: order_trans)

lemmas claims_intros = keeps_claims_emit keeps_claims_uncommit

lemma ensureChannel_claims: "keeps_claims (snd (ensureChannel cops conn v)) v"
  by (auto simp: ensureChannel_def keeps_claims_frame intro!: claims_intros split: option.splits)

lemma startConsuming_claims: "keeps_claims (snd (startConsuming cops conn v)) v"
  using ensureChannel_claims [of cops conn v]
  by (auto simp: startConsuming_def Let_def keeps_claims_frame split: prod.splits)

lemma cancelConsumer_claims: "keeps_claims (cancelConsumer cops v) v"
  by (auto simp: cancelConsumer_def keeps_claims_frame split: option.splits)

lemma publish_claims: "keeps_claims (snd (publish qt cops conn uuid now type payload v)) v"
  using ensureChannel_claims [of cops conn v]
  by (auto simp: publish_def Let_def keeps_claims_frame intro!: claims_intros split: prod.splits option.splits)

lemma rejectDelivery_claims: "keeps_claims (rejectDelivery cops t reason v) v"
  by (auto simp: rejectDelivery_def Let_def keeps_claims_frame intro!: claims_intros split: prod.splits option.splits)

text \<open>Confirming adds at most one claim, for its own tag, and none when the tag is committed already.\<close>

lemma confirm_extends: "extends (confirmInserted cops t v) v"
  by (auto simp: confirmInserted_def extends_def svc_emit_def Let_def split: option.splits prod.splits)

lemma claims_channel [simp]: "claims_of t (v\<lparr>svc_channel := c\<rparr>) = claims_of t v" "acks_of t (v\<lparr>svc_channel := c\<rparr>) = acks_of t v"
  by (simp_all add: claims_of_def acks_of_def)

lemma claims_emit_other [simp]: "\<forall>t. sig \<noteq> DeliveryAcked t \<Longrightarrow> claims_of t (svc_emit sig v) = claims_of t v"
  by (simp add: claims_of_def)

lemma claims_commit:
  "claims_of u (v\<lparr>committedDeliveries := insert t (committedDeliveries v)\<rparr>)
     = claims_of u v + (if u = t \<and> t \<notin> committedDeliveries v then 1 else 0)"
  by (simp add: claims_of_def)

lemma confirm_claims_exact:
  "claims_of u (confirmInserted cops t v) \<le>
     claims_of u v + (if u = t \<and> t \<in> pendingDeliveries v \<and> t \<notin> committedDeliveries v then 1 else 0)"
proof (cases "svc_channel v = None \<or> t \<notin> pendingDeliveries v \<or> svc_paused v")
  case True
  then show ?thesis by (auto simp: confirmInserted_def Let_def claims_commit)
next
  case False
  then obtain ch where ch: "svc_channel v = Some ch" by (cases "svc_channel v") auto
  obtain ok ch' where "ch_ack cops t ch = (ok, ch')" by fastforce
  then show ?thesis using False ch by (cases ok) (simp_all add: confirmInserted_def Let_def claims_of_def)
qed

lemma confirm_claims: "claims_of u (confirmInserted cops t v) \<le> claims_of u v + (if u = t then 1 else 0)"
  using confirm_claims_exact [of u cops t v] by (auto split: if_splits)

lemma confirm_committed_claims:
  "t \<in> committedDeliveries v \<or> t \<notin> pendingDeliveries v \<Longrightarrow> keeps_claims (confirmInserted cops t v) v"
  using confirm_extends [of cops t v] confirm_claims_exact [of _ cops t v]
  by (auto simp: keeps_claims_def split: if_splits)

lemma confirm_keeps_committed:
  "u \<in> pendingDeliveries (confirmInserted cops t v) \<Longrightarrow> u \<in> committedDeliveries v \<or> u \<notin> pendingDeliveries v
     \<Longrightarrow> u \<in> committedDeliveries (confirmInserted cops t v)"
  by (auto simp: confirmInserted_def Let_def svc_emit_def split: option.splits prod.splits if_splits)

lemma confirmAll_claims:
  "\<forall>t \<in> set ts. t \<in> committedDeliveries v \<or> t \<notin> pendingDeliveries v \<Longrightarrow>
     keeps_claims (fold (confirmInserted cops) ts v) v"
proof (induction ts arbitrary: v)
  case Nil
  then show ?case by simp
next
  case (Cons t ts)
  have "keeps_claims (confirmInserted cops t v) v" using Cons.prems confirm_committed_claims [of t v cops] by simp
  moreover have "keeps_claims (fold (confirmInserted cops) ts (confirmInserted cops t v)) (confirmInserted cops t v)"
    using Cons.prems confirm_keeps_committed [of _ cops t v] by (intro Cons.IH) auto
  ultimately show ?case using keeps_claims_trans by (metis fold_simps(2))
qed

lemma pauseConsuming_claims:
  assumes "\<And>C. set (order C) \<subseteq> C"
  shows "keeps_claims (pauseConsuming cops order conn b v) v"
proof -
  let ?v = "v\<lparr>svc_paused := b\<rparr>"
  let ?f = "fold (confirmInserted cops) (order (committedDeliveries v)) ?v"
  have v: "keeps_claims ?v v" by (simp add: keeps_claims_frame)
  have "keeps_claims ?f ?v" using assms [of "committedDeliveries v"] by (intro confirmAll_claims) auto
  then have f: "keeps_claims ?f v" using keeps_claims_trans v by blast
  have "keeps_claims (snd (startConsuming cops conn ?f)) v"
    using keeps_claims_trans [OF startConsuming_claims f] .
  moreover have "keeps_claims (cancelConsumer cops ?v) v" using keeps_claims_trans [OF cancelConsumer_claims v] .
  ultimately show ?thesis using f by (cases b) (simp_all add: pauseConsuming_def Let_def)
qed

lemma library_claims:
  "from_library e \<Longrightarrow> keeps_claims (svc_step qt cops order v e) v"
proof (cases e)
  case (ReceivedEv body t r)
  then show ?thesis
    using rejectDelivery_claims [of cops t _ v]
    by (auto simp: on_channel_def onReceived_def Let_def keeps_claims_frame intro!: claims_intros)
next
  case (ConsumeSuccessEv tag)
  let ?v = "v\<lparr>consumerStarting := False, svc_consuming := True, consumerTag := tag\<rparr>"
  have "keeps_claims ?v v" by (simp add: keeps_claims_frame)
  then show ?thesis using ConsumeSuccessEv keeps_claims_trans [OF cancelConsumer_claims [of cops ?v], of v]
    by (simp add: on_channel_def onConsumeSuccess_def Let_def)
next
  case (CancelledEv conn)
  let ?v = "v\<lparr>consumerStarting := False, svc_consuming := False, cancelPending := False, consumerTag := []\<rparr>"
  have "keeps_claims ?v v" by (simp add: keeps_claims_frame)
  then show ?thesis using CancelledEv keeps_claims_trans [OF startConsuming_claims [of cops conn ?v], of v]
    by (simp add: on_channel_def onCancelled_def Let_def)
next
  case (CancelSuccessEv conn)
  let ?v = "v\<lparr>cancelPending := False, svc_consuming := False, consumerTag := []\<rparr>"
  have "keeps_claims ?v v" by (simp add: keeps_claims_frame)
  then show ?thesis using CancelSuccessEv keeps_claims_trans [OF startConsuming_claims [of cops conn ?v], of v]
    by (simp add: on_channel_def onCancelSuccess_def Let_def)
qed (auto simp: on_channel_def onConsumeError_def onCancelError_def onChannelError_def onReturned_def
       keeps_claims_frame intro!: claims_intros)

lemma connectionState_claims: "keeps_claims (svc_onConnectionStateChanged up v) v"
  by (auto simp: svc_onConnectionStateChanged_def resetConnectionState_def keeps_claims_frame intro!: claims_intros)

section \<open>Invariant of the deliveries\<close>

fun callback_tag :: "tab_callback \<Rightarrow> u64 option" where
  "callback_tag (ReceivedCallback t type presented redelivered envelopeId) = Some t"
| "callback_tag _ = None"

text \<open>The insertions of a delivery with tag t among a list of jobs, and the results for it.\<close>

definition inserts_of :: "u64 \<Rightarrow> ('t tab_job \<times> tab_callback) list \<Rightarrow> nat" where
  "inserts_of t jobs = length (filter (\<lambda>(j, c). callback_tag c = Some t) jobs)"

definition results_of :: "u64 \<Rightarrow> (tab_callback \<times> 't variant) list \<Rightarrow> nat" where
  "results_of t results = length (filter (\<lambda>(c, r). callback_tag c = Some t) results)"

text \<open>A job that will be confirmed to the broker stores what was received under that tag.\<close>

definition from_receipt :: "'t mq_signal list \<Rightarrow> 't tab_job \<Rightarrow> tab_callback \<Rightarrow> bool" where
  "from_receipt em j c \<longleftrightarrow>
     (\<exists>i ts ty p r t pr. j = InsertJob (tabEnvelope i ts ty p) ''received'' pr \<and> c = ReceivedCallback t ty pr r i
        \<and> MessageReceived i ts ty p r t \<in> set em)"

definition inserted_for :: "u64 \<Rightarrow> string \<Rightarrow> ('t tab_job \<times> tab_callback) list \<Rightarrow> bool" where
  "inserted_for t i done \<longleftrightarrow> (\<exists>j ty pr r. (j, ReceivedCallback t ty pr r i) \<in> set done)"

definition mark_ok :: "'t mq_signal list \<Rightarrow> ('t tab_job \<times> tab_callback) list \<Rightarrow> 't tab_job \<Rightarrow> bool" where
  "mark_ok em done j \<longleftrightarrow>
     (\<forall>i. j = MarkAckedJob i \<longrightarrow> (\<exists>t. DeliveryAcked t \<in> set em \<and> inserted_for t i done))"

definition job_ok ::
  "'t mq_signal list \<Rightarrow> ('t tab_job \<times> tab_callback) list \<Rightarrow> 't tab_job \<times> tab_callback \<Rightarrow> bool" where
  "job_ok em done jc \<longleftrightarrow>
     (callback_tag (snd jc) \<noteq> None \<longrightarrow> from_receipt em (fst jc) (snd jc)) \<and> mark_ok em done (fst jc)"

abbreviation emitted_of :: "('c, 't, 'db, 'd) mq_tab \<Rightarrow> 't mq_signal list" where
  "emitted_of s \<equiv> svc_emitted (tab_service s)"

definition tab_jobs_ok :: "('c, 't, 'db, 'd) mq_tab \<Rightarrow> bool" where
  "tab_jobs_ok s \<longleftrightarrow>
     (\<forall>jc \<in> set (tab_jobs s) \<union> set (tab_done s). job_ok (emitted_of s) (tab_done s) jc)
   \<and> (\<forall>(c, r) \<in> set (tab_results s). \<exists>j. (j, c) \<in> set (tab_done s))
   \<and> (\<forall>t i. pendingAckEnvelopeIds s t = Some i \<longrightarrow> inserted_for t i (tab_done s))"

definition tab_claims_ok :: "('c, 't, 'db, 'd) mq_tab \<Rightarrow> bool" where
  "tab_claims_ok s \<longleftrightarrow>
     (\<forall>t. claims_of t (tab_service s) + results_of t (tab_results s) \<le> inserts_of t (tab_done s))"

lemma inserted_for_mono: "inserted_for t i d \<Longrightarrow> set d \<subseteq> set d' \<Longrightarrow> inserted_for t i d'"
  unfolding inserted_for_def by blast

lemma job_ok_mono:
  "job_ok em d jc \<Longrightarrow> set em \<subseteq> set em' \<Longrightarrow> set d \<subseteq> set d' \<Longrightarrow> job_ok em' d' jc"
  using inserted_for_mono [of _ _ d d'] by (fastforce simp: job_ok_def from_receipt_def mark_ok_def)

text \<open>Enqueueing, and what does not concern the deliveries.\<close>

lemma worker_call_fields [simp]:
  "tab_service (worker_call j c s) = tab_service s" "tab_results (worker_call j c s) = tab_results s"
  "tab_done (worker_call j c s) = tab_done s" "pendingAckEnvelopeIds (worker_call j c s) = pendingAckEnvelopeIds s"
  "tab_jobs (worker_call j c s) = tab_jobs s @ [(j, c)]" "tab_rows (worker_call j c s) = tab_rows s"
  "nextSequence (worker_call j c s) = nextSequence s" "tab_counters (worker_call j c s) = tab_counters s"
  "shownCounters (worker_call j c s) = shownCounters s" "tab_terminated (worker_call j c s) = tab_terminated s"
  "tab_db (worker_call j c s) = tab_db s"
  by (simp_all add: worker_call_def)

lemma count_with_fields [simp]:
  "tab_service (count_with f s) = tab_service s" "tab_results (count_with f s) = tab_results s"
  "tab_done (count_with f s) = tab_done s" "pendingAckEnvelopeIds (count_with f s) = pendingAckEnvelopeIds s"
  "tab_jobs (count_with f s) = tab_jobs s" "tab_rows (count_with f s) = tab_rows s"
  "nextSequence (count_with f s) = nextSequence s" "tab_counters (count_with f s) = f (tab_counters s)"
  "shownCounters (count_with f s) = f (tab_counters s)" "tab_terminated (count_with f s) = tab_terminated s"
  "tab_db (count_with f s) = tab_db s"
  by (simp_all add: count_with_def updateCounters_def)

text \<open>Two states that agree on the service, the queues and the pending identifiers.\<close>

definition same_queues :: "('c, 't, 'db, 'd) mq_tab \<Rightarrow> ('c, 't, 'db, 'd) mq_tab \<Rightarrow> bool" where
  "same_queues s' s \<longleftrightarrow> tab_service s' = tab_service s \<and> tab_jobs s' = tab_jobs s \<and> tab_results s' = tab_results s
     \<and> tab_done s' = tab_done s \<and> pendingAckEnvelopeIds s' = pendingAckEnvelopeIds s
     \<and> tab_terminated s' = tab_terminated s \<and> tab_db s' = tab_db s"

lemma same_queues_ok:
  "same_queues s' s \<Longrightarrow> tab_jobs_ok s' = tab_jobs_ok s" "same_queues s' s \<Longrightarrow> tab_claims_ok s' = tab_claims_ok s"
  by (simp_all add: same_queues_def tab_jobs_ok_def tab_claims_ok_def)

lemma insertRow_queues: "same_queues (insertRow clock direction type presented red ack s) s"
  by (simp add: same_queues_def insertRow_def Let_def)

lemma populateRow_queues: "same_queues (populateRow env clock msg s) s"
  by (simp add: populateRow_def Let_def insertRow_queues)

lemma same_queues_trans: "same_queues s2 s1 \<Longrightarrow> same_queues s1 s0 \<Longrightarrow> same_queues s2 s0"
  by (simp add: same_queues_def)

lemma populateAll_queues: "same_queues (fold (populateRow env clock) ms s) s"
proof (induction ms arbitrary: s)
  case Nil
  show ?case by (simp add: same_queues_def)
next
  case (Cons m ms)
  then show ?case using same_queues_trans populateRow_queues by (metis fold_simps(2))
qed

lemma populateRows_queues: "same_queues (populateRows env clock rows s) s"
  unfolding populateRows_def
  by (rule same_queues_trans [OF populateAll_queues]) (simp add: same_queues_def)

lemma updateDbSize_queues: "same_queues (updateDbSize env bytes s) s"
  by (simp add: same_queues_def updateDbSize_def Let_def)

lemma worker_call_ok:
  "tab_jobs_ok s \<Longrightarrow> job_ok (emitted_of s) (tab_done s) (j, c) \<Longrightarrow> tab_jobs_ok (worker_call j c s)"
  by (auto simp: tab_jobs_ok_def)

lemma worker_call_claims [simp]: "tab_claims_ok (worker_call j c s) = tab_claims_ok s"
  by (simp add: tab_claims_ok_def)

lemma job_ok_plain:
  "callback_tag c = None \<Longrightarrow> \<forall>i. j \<noteq> MarkAckedJob i \<Longrightarrow> job_ok em d (j, c)"
  by (simp add: job_ok_def mark_ok_def)

lemma requestDbSize_ok: "tab_jobs_ok s \<Longrightarrow> tab_jobs_ok (requestDbSize s)"
  by (simp add: requestDbSize_def worker_call_ok job_ok_plain)

lemma loadRecent_ok: "tab_jobs_ok s \<Longrightarrow> tab_jobs_ok (loadRecent s)"
  by (simp add: loadRecent_def worker_call_ok job_ok_plain)

section \<open>Slots and service operations keep the invariant\<close>

lemma tab_slot_fields [simp]:
  "tab_service (tab_slot env sig s) = tab_service s" "tab_results (tab_slot env sig s) = tab_results s"
  "tab_done (tab_slot env sig s) = tab_done s" "tab_rows (tab_slot env sig s) = tab_rows s"
  "nextSequence (tab_slot env sig s) = nextSequence s" "tab_terminated (tab_slot env sig s) = tab_terminated s"
  "tab_db (tab_slot env sig s) = tab_db s"
  by (cases sig; simp add: setConnectionError_def noteRejectedMessage_def noteReturnedMessage_def
      onDeliveryAcked_def Let_def)+

lemma tab_slots_fields [simp]:
  "tab_service (fold (tab_slot env) sigs s) = tab_service s" "tab_results (fold (tab_slot env) sigs s) = tab_results s"
  "tab_done (fold (tab_slot env) sigs s) = tab_done s" "tab_rows (fold (tab_slot env) sigs s) = tab_rows s"
  "nextSequence (fold (tab_slot env) sigs s) = nextSequence s"
  "tab_terminated (fold (tab_slot env) sigs s) = tab_terminated s" "tab_db (fold (tab_slot env) sigs s) = tab_db s"
  by (induction sigs arbitrary: s) simp_all

lemma onDeliveryAcked_ok:
  assumes "tab_jobs_ok s" and "DeliveryAcked t \<in> set (emitted_of s)"
  shows "tab_jobs_ok (onDeliveryAcked t s)"
proof -
  let ?s = "s\<lparr>pendingAckEnvelopeIds := (pendingAckEnvelopeIds s)(t := None)\<rparr>"
  have s: "tab_jobs_ok ?s" using assms(1) by (auto simp: tab_jobs_ok_def)
  show ?thesis
  proof (cases "pendingAckEnvelopeIds s t")
    case None
    then show ?thesis using s by (simp add: onDeliveryAcked_def)
  next
    case (Some i)
    then have "inserted_for t i (tab_done s)" using assms(1) by (simp add: tab_jobs_ok_def)
    then have "job_ok (emitted_of ?s) (tab_done ?s) (MarkAckedJob i, NoCallback)"
      using assms(2) by (auto simp: job_ok_def mark_ok_def)
    then show ?thesis using s Some worker_call_ok [OF s] by (simp add: onDeliveryAcked_def Let_def)
  qed
qed

lemma tab_slot_ok:
  assumes "tab_jobs_ok s" and "sig \<in> set (emitted_of s)"
  shows "tab_jobs_ok (tab_slot env sig s)"
proof (cases sig)
  case (Published i ts ty p)
  then show ?thesis using assms
    by (simp add: Let_def, intro worker_call_ok job_ok_plain) (simp_all add: same_queues_ok same_queues_def
        tab_jobs_ok_def)
next
  case (MessageReceived i ts ty p r t)
  have "job_ok (emitted_of s) (tab_done s) (InsertJob (tabEnvelope i ts ty p) ''received'' pr, ReceivedCallback t ty pr r i)" for pr
    using assms(2) MessageReceived by (auto simp: job_ok_def mark_ok_def from_receipt_def)
  then show ?thesis using assms(1) MessageReceived by (simp add: Let_def worker_call_ok)
next
  case (DeliveryAcked t)
  then show ?thesis using onDeliveryAcked_ok assms by simp
qed (use assms in \<open>simp_all add: setConnectionError_def noteRejectedMessage_def noteReturnedMessage_def Let_def tab_jobs_ok_def\<close>)

lemma tab_slots_ok:
  "tab_jobs_ok s \<Longrightarrow> set sigs \<subseteq> set (emitted_of s) \<Longrightarrow> tab_jobs_ok (fold (tab_slot env) sigs s)"
  by (induction sigs arbitrary: s) (simp_all add: tab_slot_ok)

lemma with_service_ok:
  assumes "tab_jobs_ok s" and "extends (f (tab_service s)) (tab_service s)"
  shows "tab_jobs_ok (with_service env f s)"
proof -
  let ?s = "s\<lparr>tab_service := f (tab_service s)\<rparr>"
  have "set (emitted_of s) \<subseteq> set (emitted_of ?s)" using assms(2) by (auto simp: extends_def)
  then have "tab_jobs_ok ?s" using assms(1) job_ok_mono [of "emitted_of s" "tab_done s" _ "emitted_of ?s" "tab_done s"]
    by (auto simp: tab_jobs_ok_def)
  moreover have "set (drop (length (emitted_of s)) (emitted_of ?s)) \<subseteq> set (emitted_of ?s)" by (rule set_drop_subset)
  ultimately show ?thesis using tab_slots_ok [of ?s] by (simp add: with_service_def Let_def)
qed

lemma with_service_fields [simp]:
  "tab_service (with_service env f s) = f (tab_service s)" "tab_results (with_service env f s) = tab_results s"
  "tab_done (with_service env f s) = tab_done s" "tab_rows (with_service env f s) = tab_rows s"
  "nextSequence (with_service env f s) = nextSequence s" "tab_terminated (with_service env f s) = tab_terminated s"
  "tab_db (with_service env f s) = tab_db s"
  by (simp_all add: with_service_def Let_def)

lemma with_service_both:
  assumes "tab_jobs_ok s \<and> tab_claims_ok s" and "keeps_claims (f (tab_service s)) (tab_service s)"
  shows "tab_jobs_ok (with_service env f s) \<and> tab_claims_ok (with_service env f s)"
proof -
  have "tab_claims_ok (with_service env f s)"
    using assms unfolding tab_claims_ok_def keeps_claims_def
    by (simp, meson add_le_mono1 order_trans)
  then show ?thesis using assms with_service_ok [of s f env] by (simp add: keeps_claims_def)
qed

section \<open>Rows and counters\<close>

text \<open>
  At most kMaximumRows rows, numbered consecutively up to the last number given out; the footer shows
  the counters.
\<close>

definition tab_table_ok :: "('c, 't, 'db, 'd) mq_tab \<Rightarrow> bool" where
  "tab_table_ok s \<longleftrightarrow> length (tab_rows s) \<le> kMaximumRows
     \<and> (\<forall>k < length (tab_rows s). row_sequence (tab_rows s ! k) = nextSequence s - of_nat (length (tab_rows s) - k))"

definition tab_shown_ok :: "('c, 't, 'db, 'd) mq_tab \<Rightarrow> bool" where
  "tab_shown_ok s \<longleftrightarrow> shownCounters s = tab_counters s"

lemma insertRow_table:
  assumes "tab_table_ok s"
  shows "tab_table_ok (insertRow clock direction type presented red ack s)"
proof -
  let ?rows = "if length (tab_rows s) \<ge> kMaximumRows then tl (tab_rows s) else tab_rows s"
  let ?s' = "insertRow clock direction type presented red ack s"
  have r: "\<exists>row. tab_rows ?s' = ?rows @ [row] \<and> row_sequence row = nextSequence s" and n: "nextSequence ?s' = nextSequence s + 1"
    by (simp_all add: insertRow_def Let_def)
  then obtain row where row: "tab_rows ?s' = ?rows @ [row]" "row_sequence row = nextSequence s" by blast
  have len: "length ?rows < kMaximumRows" using assms by (auto simp: tab_table_ok_def kMaximumRows_def)
  have old: "row_sequence (?rows ! k) = nextSequence s - of_nat (length ?rows - k)" if k: "k < length ?rows" for k
  proof (cases "length (tab_rows s) \<ge> kMaximumRows")
    case True
    then have "?rows ! k = tab_rows s ! Suc k" and "Suc k < length (tab_rows s)" using k by (simp_all add: nth_tl)
    then show ?thesis using assms True by (auto simp: tab_table_ok_def)
  next
    case False
    then show ?thesis using assms k by (auto simp: tab_table_ok_def)
  qed
  have "row_sequence (tab_rows ?s' ! k) = nextSequence ?s' - of_nat (length (tab_rows ?s') - k)"
    if "k < length (tab_rows ?s')" for k
  proof (cases "k < length ?rows")
    case True
    then have "length (?rows @ [row]) - k = Suc (length ?rows - k)" by simp
    then show ?thesis using old [OF True] True row n by (simp only: nth_append if_True) simp
  next
    case False
    then have "k = length ?rows" using that row by simp
    then show ?thesis using row n by (simp only: nth_append_length) simp
  qed
  moreover have "length (tab_rows ?s') \<le> kMaximumRows" using len row by (simp only: length_append) simp
  ultimately show ?thesis unfolding tab_table_ok_def by blast
qed

lemma insertRow_shown: "tab_shown_ok s \<Longrightarrow> tab_shown_ok (insertRow clock direction type presented red ack s)"
  by (simp add: tab_shown_ok_def insertRow_def Let_def)

definition tab_view_ok :: "('c, 't, 'db, 'd) mq_tab \<Rightarrow> bool" where
  "tab_view_ok s \<longleftrightarrow> tab_table_ok s \<and> tab_shown_ok s"

lemma insertRow_view: "tab_view_ok s \<Longrightarrow> tab_view_ok (insertRow clock direction type presented red ack s)"
  by (simp add: tab_view_ok_def insertRow_table insertRow_shown)

lemma populateRow_view: "tab_view_ok s \<Longrightarrow> tab_view_ok (populateRow env clock msg s)"
  by (simp add: populateRow_def Let_def insertRow_view)

lemma populateRows_view: "tab_view_ok s \<Longrightarrow> tab_view_ok (populateRows env clock rows s)"
proof -
  have "tab_view_ok s \<Longrightarrow> tab_view_ok (fold (populateRow env clock) ms s)" for ms and s :: "('a, 'b, 'c, 'd) mq_tab"
    by (induction ms arbitrary: s) (simp_all add: populateRow_view)
  then show "tab_view_ok s \<Longrightarrow> tab_view_ok (populateRows env clock rows s)"
    by (simp add: populateRows_def tab_view_ok_def tab_table_ok_def tab_shown_ok_def)
qed

lemma view_frame [simp]:
  "tab_view_ok (worker_call j c s) = tab_view_ok s"
  "tab_view_ok (s\<lparr>tab_results := R\<rparr>) = tab_view_ok s"
  "tab_view_ok (s\<lparr>pendingAckEnvelopeIds := m\<rparr>) = tab_view_ok s"
  "tab_view_ok (s\<lparr>tab_service := v\<rparr>) = tab_view_ok s"
  "tab_view_ok (s\<lparr>bodyEdit := b\<rparr>) = tab_view_ok s"
  "tab_view_ok (s\<lparr>tab_warnings := w\<rparr>) = tab_view_ok s"
  "tab_view_ok (setConnectionError msg s) = tab_view_ok s"
  "tab_view_ok (updateDbSize env bytes s) = tab_view_ok s"
  by (simp_all add: tab_view_ok_def tab_table_ok_def tab_shown_ok_def setConnectionError_def updateDbSize_def Let_def)

lemma count_with_view: "tab_view_ok s \<Longrightarrow> tab_view_ok (count_with f s)"
  by (simp add: tab_view_ok_def tab_table_ok_def tab_shown_ok_def)

lemma tab_slot_view: "tab_view_ok s \<Longrightarrow> tab_view_ok (tab_slot env sig s)"
  by (cases sig) (simp_all add: noteRejectedMessage_def noteReturnedMessage_def onDeliveryAcked_def Let_def count_with_view)

lemma with_service_view: "tab_view_ok s \<Longrightarrow> tab_view_ok (with_service env f s)"
proof -
  have "tab_view_ok s \<Longrightarrow> tab_view_ok (fold (tab_slot env) sigs s)" for sigs and s :: "('a, 'b, 'c, 'd) mq_tab"
    by (induction sigs arbitrary: s) (simp_all add: tab_slot_view)
  then show "tab_view_ok s \<Longrightarrow> tab_view_ok (with_service env f s)" by (simp add: with_service_def Let_def)
qed

section \<open>The invariant of the tab\<close>

definition tab_inv :: "('c, 't, 'db, 'd) mq_tab \<Rightarrow> bool" where
  "tab_inv s \<longleftrightarrow> (tab_jobs_ok s \<and> tab_claims_ok s) \<and> tab_view_ok s"

lemma with_service_inv:
  "tab_inv s \<Longrightarrow> keeps_claims (f (tab_service s)) (tab_service s) \<Longrightarrow> tab_inv (with_service env f s)"
  unfolding tab_inv_def using with_service_both [of s f env] with_service_view [of s env f] by blast

lemma worker_call_inv:
  "tab_inv s \<Longrightarrow> callback_tag c = None \<Longrightarrow> \<forall>i. j \<noteq> MarkAckedJob i \<Longrightarrow> tab_inv (worker_call j c s)"
  by (simp add: tab_inv_def worker_call_ok job_ok_plain)

lemma tab_inv_same:
  "tab_inv s \<Longrightarrow> same_queues s' s \<Longrightarrow> tab_view_ok s' \<Longrightarrow> tab_inv s'"
  by (simp add: tab_inv_def same_queues_ok)

lemma tab_inv_widgets [simp]:
  "tab_inv (s\<lparr>bodyEdit := b\<rparr>) = tab_inv s" "tab_inv (s\<lparr>sendType := st\<rparr>) = tab_inv s"
  "tab_inv (s\<lparr>tab_filter := f\<rparr>) = tab_inv s" "tab_inv (s\<lparr>tab_settings := st'\<rparr>) = tab_inv s"
  "tab_inv (s\<lparr>serviceError := e\<rparr>) = tab_inv s" "tab_inv (s\<lparr>connectionLabel := l\<rparr>) = tab_inv s"
  "tab_inv (s\<lparr>sendEnabled := b'\<rparr>) = tab_inv s"
  by (simp_all add: tab_inv_def tab_jobs_ok_def tab_claims_ok_def tab_view_ok_def tab_table_ok_def tab_shown_ok_def)

lemma refreshConnectionState_inv: "tab_inv s \<Longrightarrow> tab_inv (refreshConnectionState env conn err up s)"
  unfolding refreshConnectionState_def
  by (simp add: with_service_inv startConsuming_claims)

lemma sendCurrentBody_inv: "tab_inv s \<Longrightarrow> tab_inv (sendCurrentBody env conn ready uuid now today s)"
  by (simp add: sendCurrentBody_def Let_def with_service_inv publish_claims split: prod.split)

lemma worker_run_inv:
  assumes "tab_inv s"
  shows "tab_inv (worker_run env now s)"
proof (cases "tab_jobs s")
  case Nil
  then show ?thesis using assms by (simp add: worker_run_def)
next
  case (Cons jc jobs)
  obtain j c where jc: "jc = (j, c)" by fastforce
  have view: "tab_view_ok (s\<lparr>tab_jobs := jobs, tab_terminated := True\<rparr>)"
    "tab_view_ok (s\<lparr>tab_jobs := jobs, tab_db := db, tab_results := R, tab_done := D\<rparr>)" for db R D
    using assms by (simp_all add: tab_inv_def tab_view_ok_def tab_table_ok_def tab_shown_ok_def)
  have drop: "tab_inv (s\<lparr>tab_jobs := jobs, tab_terminated := True\<rparr>)"
    using assms view(1) Cons by (auto simp: tab_inv_def tab_jobs_ok_def tab_claims_ok_def)
  have move: "tab_inv (s\<lparr>tab_jobs := jobs, tab_db := db, tab_results := tab_results s @ [(c, r)],
                 tab_done := tab_done s @ [(j, c)]\<rparr>)" (is "tab_inv ?s'") for db r
  proof -
    have ok: "job_ok (emitted_of s) (tab_done s) x" if "x \<in> set (tab_jobs s) \<union> set (tab_done s)" for x
      using assms that by (auto simp: tab_inv_def tab_jobs_ok_def)
    have "job_ok (emitted_of s) (tab_done s @ [(j, c)]) x" if "x \<in> set (tab_jobs s) \<union> set (tab_done s)" for x
      by (rule job_ok_mono [OF ok [OF that]]) auto
    then have "tab_jobs_ok ?s'"
      using assms Cons jc inserted_for_mono [of _ _ "tab_done s" "tab_done s @ [(j, c)]"]
      by (fastforce simp: tab_inv_def tab_jobs_ok_def)
    moreover have "tab_claims_ok ?s'"
      using assms by (auto simp: tab_inv_def tab_claims_ok_def results_of_def inserts_of_def)
    ultimately show ?thesis using view(2) by (simp add: tab_inv_def)
  qed
  show ?thesis using Cons jc drop move assms
    by (simp add: worker_run_def split: option.split sum.split prod.split)
qed

text \<open>
  The callback of a received message: its result is taken out of the queue, which pays for the claim
  that confirming may add.
\<close>

lemma received_callback_inv:
  assumes "tab_inv s" and "tab_results s = (ReceivedCallback t type presented red i, r) # results"
  shows "tab_inv (tab_callback_run env clock (ReceivedCallback t type presented red i) r (s\<lparr>tab_results := results\<rparr>))"
proof -
  let ?s1 = "s\<lparr>tab_results := results, pendingAckEnvelopeIds := (pendingAckEnvelopeIds s)(t \<mapsto> i)\<rparr>"
  let ?f = "confirmInserted (te_channel env) t"
  let ?s2 = "with_service env ?f ?s1"
  have "\<exists>j. (j, ReceivedCallback t type presented red i) \<in> set (tab_done s)"
    using assms by (auto simp: tab_inv_def tab_jobs_ok_def)
  then have "inserted_for t i (tab_done s)" by (auto simp: inserted_for_def)
  then have "tab_jobs_ok ?s1" using assms by (auto simp: tab_inv_def tab_jobs_ok_def)
  then have jobs: "tab_jobs_ok ?s2" using confirm_extends by (intro with_service_ok) auto
  have "claims_of u (?f (tab_service s)) + results_of u results \<le> inserts_of u (tab_done s)" for u
  proof -
    have "claims_of u (tab_service s) + results_of u (tab_results s) \<le> inserts_of u (tab_done s)"
      using assms(1) by (simp add: tab_inv_def tab_claims_ok_def)
    moreover have "results_of u (tab_results s) = results_of u results + (if u = t then 1 else 0)"
      using assms(2) by (auto simp: results_of_def)
    ultimately show ?thesis using confirm_claims [of u "te_channel env" t "tab_service s"] by (simp split: if_splits)
  qed
  then have claims: "tab_claims_ok ?s2" by (simp add: tab_claims_ok_def)
  have "tab_view_ok ?s2" using assms(1) by (simp add: tab_inv_def with_service_view)
  then have inv: "tab_inv ?s2" using jobs claims by (simp add: tab_inv_def)
  have "tab_inv (insertRow clock ''received'' type presented red b ?s2)" for b
    using tab_inv_same [OF inv insertRow_queues insertRow_view] inv by (simp add: tab_inv_def)
  moreover have "tab_inv (count_with g ?s2)" for g
    using inv by (rule tab_inv_same) (use inv in \<open>simp_all add: same_queues_def tab_inv_def count_with_view\<close>)
  ultimately show ?thesis by (simp add: Let_def requestDbSize_def worker_call_inv)
qed

lemma run_callback_inv:
  assumes "tab_inv s"
  shows "tab_inv (run_callback env clock s)"
proof (cases "tab_results s")
  case Nil
  then show ?thesis using assms by (simp add: run_callback_def)
next
  case (Cons cr results)
  obtain c r where cr: "cr = (c, r)" by fastforce
  let ?s = "s\<lparr>tab_results := results\<rparr>"
  show ?thesis
  proof (cases "callback_tag c = None")
    case True
    have "results_of t results = results_of t (tab_results s)" for t using True Cons cr by (simp add: results_of_def)
    then have "tab_claims_ok ?s" using assms by (simp add: tab_inv_def tab_claims_ok_def)
    moreover have "tab_jobs_ok ?s" using assms Cons by (auto simp: tab_inv_def tab_jobs_ok_def)
    ultimately have s: "tab_inv ?s" using assms by (simp add: tab_inv_def)
    have v: "tab_view_ok ?s" using s by (simp add: tab_inv_def)
    have "tab_inv (insertRow clock ''sent'' type presented False False ?s)" for type presented
      using tab_inv_same [OF s insertRow_queues insertRow_view [OF v]] .
    moreover have "tab_inv (populateRows env clock r ?s)"
      using tab_inv_same [OF s populateRows_queues populateRows_view [OF v]] .
    moreover have "tab_inv (updateDbSize env b ?s)" for b
      using tab_inv_same [OF s updateDbSize_queues] v by simp
    ultimately show ?thesis using Cons cr True s
      by (cases c) (simp_all add: run_callback_def requestDbSize_def loadRecent_def worker_call_inv)
  next
    case False
    then show ?thesis using received_callback_inv assms Cons cr
      by (cases c) (simp_all only: run_callback_def callback_tag.simps list.case prod.case simp_thms)
  qed
qed

lemma tab_handle_inv:
  assumes "\<And>C. set (te_order env C) \<subseteq> C" and "tab_inv s"
  shows "tab_inv (tab_handle env s e)"
  using assms
  by (cases e)
     (auto simp: refreshConnectionState_inv with_service_inv connectionState_claims library_claims pauseConsuming_claims
        sendCurrentBody_inv applyFilter_def filterClear_def loadRecent_def showPurgeDialog_def worker_call_inv
        worker_run_inv run_callback_inv Let_def split: option.split)

lemma tab_step_inv:
  assumes "\<And>C. set (te_order env C) \<subseteq> C"
  shows "tab_inv s \<Longrightarrow> tab_inv (tab_step env s e)"
  using tab_handle_inv [OF assms] by (simp add: tab_step_def)

lemma blankTab_inv: "tab_inv (blankTab env st db today)"
  by (simp add: tab_inv_def blankTab_def tab_jobs_ok_def tab_claims_ok_def tab_view_ok_def tab_table_ok_def
      tab_shown_ok_def claims_of_def acks_of_def newMqService_def results_of_def inserts_of_def)

lemma newMqTab_inv: "tab_inv (newMqTab env st db today conn err ready)"
  by (simp add: newMqTab_def loadRecent_def worker_call_inv refreshConnectionState_inv blankTab_inv)

text \<open>An environment whose sets are iterated over their own elements, as those of the framework are.\<close>

definition fair_order :: "('a, 'c, 't, 'db, 'd) tab_env \<Rightarrow> bool" where
  "fair_order env \<longleftrightarrow> (\<forall>C. set (te_order env C) \<subseteq> C)"

definition tab_machine_step ::
  "('a, 'c, 't, 'db, 'd) tab_env \<Rightarrow> ('c, 't, 'db, 'd) mq_tab \<Rightarrow> ('a, 't, 'd) tab_event \<Rightarrow> ('c, 't, 'db, 'd) mq_tab" where
  "tab_machine_step env s e = (if fair_order env then tab_step env s e else s)"

interpretation tab: invariant_machine "tab_machine_step env" tab_inv for env
  by unfold_locales (use tab_step_inv in \<open>auto simp: tab_machine_step_def fair_order_def\<close>)

lemma tab_run_inv:
  "fair_order env \<Longrightarrow> tab_inv (run_steps (tab_step env) (newMqTab env st db today conn err ready) es)"
  using tab.run_inv [OF newMqTab_inv, of env env st db today conn err ready es]
  by (simp add: tab_machine_step_def [abs_def])

section \<open>Reloading the table\<close>

text \<open>The row shown for a stored message.\<close>

definition shownRow :: "('a, 'c, 't, 'db, 'd) tab_env \<Rightarrow> string \<Rightarrow> u64 \<Rightarrow> 't StoredMessage \<Rightarrow> table_row" where
  "shownRow env clock n msg =
     (let presented = presentOrFallback env (sm_envelopeType msg) (sm_payload msg)
      in \<lparr>row_sequence = n, row_time = clock, row_isReceived = (sm_direction msg = ''received''),
          row_type = sm_envelopeType msg,
          row_title = (if sm_displayTitle msg \<noteq> [] then sm_displayTitle msg else pm_displayTitle presented),
          row_detail = (if pm_detail presented = [] then ''-'' else pm_detail presented),
          row_redelivered = sm_redelivered msg, row_acked = sm_acked msg\<rparr>)"

definition receivedIn :: "'t StoredMessage list \<Rightarrow> nat" where
  "receivedIn ms = length (filter (\<lambda>m. sm_direction m = ''received'') ms)"

lemma populateRow_effect:
  "tab_rows (populateRow env clock m s) =
     (if length (tab_rows s) \<ge> kMaximumRows then tl (tab_rows s) else tab_rows s) @ [shownRow env clock (nextSequence s) m]"
  "nextSequence (populateRow env clock m s) = nextSequence s + 1"
  "receivedCount (tab_counters (populateRow env clock m s)) =
     receivedCount (tab_counters s) + (if sm_direction m = ''received'' then 1 else 0)"
  by (simp_all add: populateRow_def insertRow_def shownRow_def Let_def)

lemma populate_effect:
  assumes "tab_rows s = []"
  shows "nextSequence (fold (populateRow env clock) ms s) = nextSequence s + of_nat (length ms)
    \<and> tab_rows (fold (populateRow env clock) ms s) =
        drop (length ms - kMaximumRows) (map (\<lambda>k. shownRow env clock (nextSequence s + of_nat k) (ms ! k)) [0..<length ms])
    \<and> receivedCount (tab_counters (fold (populateRow env clock) ms s)) =
        receivedCount (tab_counters s) + of_nat (receivedIn ms)"
proof (induction ms rule: rev_induct)
  case Nil
  then show ?case using assms by (simp add: receivedIn_def)
next
  case (snoc m ms)
  let ?r = "\<lambda>k. shownRow env clock (nextSequence s + of_nat k) (ms ! k)"
  let ?X = "map ?r [0..<length ms]"
  have m: "map (\<lambda>k. shownRow env clock (nextSequence s + of_nat k) ((ms @ [m]) ! k)) [0..<length (ms @ [m])]
     = ?X @ [shownRow env clock (nextSequence s + of_nat (length ms)) m]"
    by (simp add: nth_append)
  have d: "drop (Suc n - kMaximumRows) (X @ [x]) =
      (if length (drop (n - kMaximumRows) X) \<ge> kMaximumRows then tl (drop (n - kMaximumRows) X) else drop (n - kMaximumRows) X) @ [x]"
    if "length X = n" for X and x :: table_row and n
  proof (cases "n \<ge> kMaximumRows")
    case True
    then have "Suc n - kMaximumRows = Suc (n - kMaximumRows)" by (rule Suc_diff_le)
    then show ?thesis using True that by (simp add: tl_drop drop_Suc kMaximumRows_def)
  qed (use that in simp)
  let ?f = "fold (populateRow env clock) ms s"
  have n: "nextSequence ?f = nextSequence s + of_nat (length ms)" and x: "tab_rows ?f = drop (length ms - kMaximumRows) ?X"
    and c: "receivedCount (tab_counters ?f) = receivedCount (tab_counters s) + of_nat (receivedIn ms)"
    using snoc by blast+
  have f: "fold (populateRow env clock) (ms @ [m]) s = populateRow env clock m ?f" by simp
  have "tab_rows (populateRow env clock m ?f) =
      drop (Suc (length ms) - kMaximumRows) (?X @ [shownRow env clock (nextSequence s + of_nat (length ms)) m])"
    unfolding populateRow_effect(1) n x by (rule d [symmetric]) simp
  moreover have "receivedCount (tab_counters (populateRow env clock m ?f)) =
      receivedCount (tab_counters s) + of_nat (receivedIn (ms @ [m]))"
    unfolding populateRow_effect(3) c by (simp add: receivedIn_def)
  moreover have "nextSequence (populateRow env clock m ?f) = nextSequence s + of_nat (length (ms @ [m]))"
    unfolding populateRow_effect(2) n by simp
  ultimately show ?case unfolding f m by simp
qed

section \<open>The steps of one delivery\<close>

abbreviation received_job ::
  "('a, 'c, 't, 'db, 'd) tab_env \<Rightarrow> 't Envelope \<Rightarrow> u64 \<Rightarrow> bool \<Rightarrow> 't tab_job \<times> tab_callback" where
  "received_job env e t red \<equiv>
     (InsertJob (tabEnvelope (env_id e) (env_timestamp e) (env_type e) (env_payload e)) ''received''
        (presentOrFallback env (env_type e) (env_payload e)),
      ReceivedCallback t (env_type e) (presentOrFallback env (env_type e) (env_payload e)) red (env_id e))"

lemma receive_step:
  assumes "\<not> tab_terminated s" and "svc_channel (tab_service s) = Some ch" and "length body \<le> 2147483647"
    and "mq_decode (qt_ops.truncate (te_qt env)) body = \<lparr>dr_envelope = e, dr_valid = True\<rparr>"
  shows "tab_step env s (BrokerCallback (ReceivedEv body t red)) =
     s\<lparr>tab_service := (tab_service s)\<lparr>pendingDeliveries := insert t (pendingDeliveries (tab_service s)),
          svc_emitted := emitted_of s @ [MessageReceived (env_id e) (env_timestamp e) (env_type e) (env_payload e) red t]\<rparr>,
       tab_jobs := tab_jobs s @ [received_job env e t red]\<rparr>"
  using assms
  by (simp add: tab_step_def on_channel_def onReceived_def with_service_def svc_emit_def worker_call_def Let_def)

lemma worker_step:
  assumes "\<not> tab_terminated s" and "tab_jobs s = (j, c) # jobs" and "run_job env now j (tab_db s) = Some (Inr (db, r))"
  shows "tab_step env s (WorkerRuns now) =
     s\<lparr>tab_jobs := jobs, tab_db := db, tab_results := tab_results s @ [(c, r)], tab_done := tab_done s @ [(j, c)]\<rparr>"
  using assms by (simp add: tab_step_def worker_run_def)

text \<open>The callback of a fresh message, when the service can acknowledge.\<close>

lemma confirm_step:
  assumes "\<not> tab_terminated s"
    and "tab_results s = (ReceivedCallback t type presented red i, VarBool True) # results"
    and "t \<in> pendingDeliveries (tab_service s)" and "\<not> svc_paused (tab_service s)"
    and "svc_channel (tab_service s) = Some ch" and "ch_ack (te_channel env) t ch = (True, ch')" and "i \<noteq> []"
  shows "let s' = tab_step env s (CallbackRuns clock)
    in tab_service s' = (tab_service s)\<lparr>svc_channel := Some ch',
           committedDeliveries := committedDeliveries (tab_service s) - {t},
           pendingDeliveries := pendingDeliveries (tab_service s) - {t},
           svc_emitted := emitted_of s @ [DeliveryAcked t]\<rparr>
     \<and> tab_jobs s' = tab_jobs s @ [(MarkAckedJob i, NoCallback), (FileSizeJob, DbSizeCallback)]
     \<and> tab_results s' = results \<and> tab_db s' = tab_db s \<and> \<not> tab_terminated s' \<and> tab_done s' = tab_done s
     \<and> receivedCount (tab_counters s') = receivedCount (tab_counters s) + 1
     \<and> last (tab_rows s') = \<lparr>row_sequence = nextSequence s, row_time = clock, row_isReceived = True, row_type = type,
           row_title = pm_displayTitle presented,
           row_detail = (if pm_detail presented = [] then ''-'' else pm_detail presented),
           row_redelivered = red, row_acked = True\<rparr>"
  using assms
  by (simp add: tab_step_def run_callback_def confirmInserted_def with_service_def svc_emit_def onDeliveryAcked_def
      worker_call_def insertRow_def count_with_def updateCounters_def requestDbSize_def Let_def)

lemma confirm_counters:
  "tab_counters (with_service env (confirmInserted (te_channel env) t) s) = tab_counters s"
  by (auto simp: with_service_def confirmInserted_def svc_emit_def onDeliveryAcked_def setConnectionError_def Let_def
      split: option.split prod.split)

section \<open>Properties\<close>

text \<open>
  C20. Acknowledgements follow insertions: in every run of the tab, with the user, the broker, the
  connection, the worker thread and the queued callbacks interleaved in any way, each acknowledgement of a
  delivery tag has a completed insertion of its own, of a message that was received under that tag (of
  this channel or of an earlier one that used the same tag: acknowledgements and insertions are counted by tag over
  all channels); and a job that marks a message as acknowledged is given only after some tag has been acknowledged
  under which a received message with that identifier was inserted. The acknowledged delivery need not be that of the message itself, since a new
  channel uses the tags of the old one again.
\<close>
theorem tab_ack_after_insert:
  assumes "fair_order env" and "s = run_steps (tab_step env) (newMqTab env st db today conn err ready) es"
  shows "acks_of t (tab_service s) \<le> inserts_of t (tab_done s)
    \<and> (\<forall>(j, c) \<in> set (tab_done s). callback_tag c = Some t \<longrightarrow> from_receipt (emitted_of s) j c)
    \<and> (\<forall>i c. (MarkAckedJob i, c) \<in> set (tab_jobs s) \<union> set (tab_done s) \<longrightarrow>
         (\<exists>u. DeliveryAcked u \<in> set (emitted_of s) \<and> inserted_for u i (tab_done s)))"
proof -
  have inv: "tab_inv s" unfolding assms(2) by (rule tab_run_inv [OF assms(1)])
  then have "claims_of t (tab_service s) + results_of t (tab_results s) \<le> inserts_of t (tab_done s)"
    by (simp add: tab_inv_def tab_claims_ok_def)
  then have "acks_of t (tab_service s) \<le> inserts_of t (tab_done s)" by (simp add: claims_of_def)
  moreover have ok: "job_ok (emitted_of s) (tab_done s) x" if "x \<in> set (tab_jobs s) \<union> set (tab_done s)" for x
    using inv that by (auto simp: tab_inv_def tab_jobs_ok_def)
  moreover have "from_receipt (emitted_of s) j c" if "(j, c) \<in> set (tab_done s)" and "callback_tag c = Some t" for j c
    using ok [of "(j, c)"] that by (simp add: job_ok_def)
  moreover have "\<exists>u. DeliveryAcked u \<in> set (emitted_of s) \<and> inserted_for u i (tab_done s)"
    if "(MarkAckedJob i, c) \<in> set (tab_jobs s) \<union> set (tab_done s)" for i c
    using ok [OF that] by (simp add: job_ok_def mark_ok_def)
  ultimately show ?thesis by blast
qed

text \<open>
  C34. The table stays bounded and consistent: after any run it has at most 5000 rows, their numbers are
  consecutive and end just below the next number, and the footer shows the current counters.
\<close>
theorem tab_table_bounded:
  assumes "fair_order env" and "s = run_steps (tab_step env) (newMqTab env st db today conn err ready) es"
  shows "length (tab_rows s) \<le> 5000 \<and> shownCounters s = tab_counters s
    \<and> (\<forall>k < length (tab_rows s). row_sequence (tab_rows s ! k) = nextSequence s - of_nat (length (tab_rows s) - k))"
  using tab_run_inv [OF assms(1), of st db today conn err ready es] assms(2)
  by (simp add: tab_inv_def tab_view_ok_def tab_table_ok_def tab_shown_ok_def kMaximumRows_def)

text \<open>
  Reloading shows the stored messages in the order the query gave them, numbered from 1, and of more
  than 5000 the last 5000. It also counts every reloaded message of the direction received once more
  in the footer's number of received messages.
\<close>
theorem tab_reload_shows_messages:
  "tab_rows (populateRows env clock (VarRows ms) s) =
     drop (length ms - 5000) (map (\<lambda>k. shownRow env clock (of_nat (Suc k)) (ms ! k)) [0..<length ms])
   \<and> nextSequence (populateRows env clock (VarRows ms) s) = of_nat (Suc (length ms))
   \<and> receivedCount (tab_counters (populateRows env clock (VarRows ms) s)) =
       receivedCount (tab_counters s) + of_nat (receivedIn ms)"
  using populate_effect [where s = "s\<lparr>tab_rows := [], nextSequence := 1\<rparr>" and env = env and clock = clock and ms = ms]
  by (simp add: populateRows_def kMaximumRows_def)

text \<open>
  C21. A received message goes all the way: with an open channel that takes acknowledgements and
  consuming not paused, and no job and no callback waiting, a decodable delivery whose insertion is the first of
  its identifier and succeeds, and whose marking succeeds, is,
  after two jobs of the worker and one callback, stored, acknowledged to the broker exactly then, counted and shown
  in the last row with a tick, and marked as acknowledged in the store; nothing is left
  pending under its tag.
\<close>
theorem tab_delivery_completes:
  assumes "\<not> tab_terminated s" and "tab_jobs s = []" and "tab_results s = []"
    and "svc_channel (tab_service s) = Some ch" and "\<not> svc_paused (tab_service s)"
    and "ch_ack (te_channel env) t ch = (True, ch')"
    and "length body \<le> 2147483647"
    and "mq_decode (qt_ops.truncate (te_qt env)) body = \<lparr>dr_envelope = e, dr_valid = True\<rparr>"
    and "store_insert (te_qt env) (te_sqlite env) now (tabEnvelope (env_id e) (env_timestamp e) (env_type e) (env_payload e))
           ''received'' (pm_displayTitle (presentOrFallback env (env_type e) (env_payload e)))
           (pm_searchText (presentOrFallback env (env_type e) (env_payload e))) (tab_db s) = Inr (db1, True)"
    and "store_markAcked (te_sqlite env) (env_id e) db1 = Inr db2"
  shows "let s' = run_steps (tab_step env) s
           [BrokerCallback (ReceivedEv body t red), WorkerRuns now, CallbackRuns clock, WorkerRuns now']
    in emitted_of s' = emitted_of s @ [MessageReceived (env_id e) (env_timestamp e) (env_type e) (env_payload e) red t, DeliveryAcked t]
     \<and> svc_channel (tab_service s') = Some ch' \<and> t \<notin> pendingDeliveries (tab_service s') \<and> tab_db s' = db2
     \<and> receivedCount (tab_counters s') = receivedCount (tab_counters s) + 1
     \<and> row_isReceived (last (tab_rows s')) \<and> row_acked (last (tab_rows s')) \<and> row_type (last (tab_rows s')) = env_type e"
proof -
  have id: "env_id e \<noteq> []" using mq_decode_valid [of "qt_ops.truncate (te_qt env)" body] assms(8) by simp
  let ?pr = "presentOrFallback env (env_type e) (env_payload e)"
  define s1 where "s1 = tab_step env s (BrokerCallback (ReceivedEv body t red))"
  define s2 where "s2 = tab_step env s1 (WorkerRuns now)"
  define s3 where "s3 = tab_step env s2 (CallbackRuns clock)"
  define s4 where "s4 = tab_step env s3 (WorkerRuns now')"
  note s1 = receive_step [where s = s and env = env and ch = ch and body = body and e = e and t = t and red = red, OF assms(1,4,7,8), folded s1_def]
  have s2: "s2 = s1\<lparr>tab_jobs := [], tab_db := db1,
      tab_results := [(ReceivedCallback t (env_type e) ?pr red (env_id e), VarBool True)],
      tab_done := tab_done s1 @ [received_job env e t red]\<rparr>"
    unfolding s2_def using worker_step [where s = s1 and jobs = "[]" and env = env and now = now and db = db1 and r = "VarBool True"]
      s1 assms by simp
  have s3: "emitted_of s3 = emitted_of s @ [MessageReceived (env_id e) (env_timestamp e) (env_type e) (env_payload e) red t, DeliveryAcked t]
      \<and> svc_channel (tab_service s3) = Some ch' \<and> t \<notin> pendingDeliveries (tab_service s3)
      \<and> tab_jobs s3 = [(MarkAckedJob (env_id e), NoCallback), (FileSizeJob, DbSizeCallback)] \<and> tab_db s3 = db1
      \<and> \<not> tab_terminated s3 \<and> receivedCount (tab_counters s3) = receivedCount (tab_counters s) + 1
      \<and> row_isReceived (last (tab_rows s3)) \<and> row_acked (last (tab_rows s3)) \<and> row_type (last (tab_rows s3)) = env_type e"
    unfolding s3_def
    using confirm_step [where s = s2 and env = env and clock = clock and t = t and type = "env_type e" and presented = ?pr and red = red
        and i = "env_id e" and results = "[]" and ch = ch and ch' = ch'] s1 s2 assms id by (simp add: Let_def)
  have "s4 = s3\<lparr>tab_jobs := [(FileSizeJob, DbSizeCallback)], tab_db := db2, tab_results := tab_results s3 @ [(NoCallback, Invalid)],
      tab_done := tab_done s3 @ [(MarkAckedJob (env_id e), NoCallback)]\<rparr>"
    unfolding s4_def using s3 assms(10) by (intro worker_step) simp_all
  then show ?thesis using s3 by (simp add: s1_def s2_def s3_def s4_def Let_def)
qed

text \<open>
  The message an application sends and gets back through its own queue is stored with the
  direction sent first, so that the insertion of the received copy is ignored: it is counted as a duplicate,
  no received row appears, and the number of waiting messages, raised when it was sent, is not lowered.
\<close>
theorem tab_own_message_is_duplicate:
  assumes "\<not> tab_terminated s" and "tab_results s = []"
    and "tab_jobs s = (InsertJob e1 ''sent'' p1, SentCallback ty p1) # (InsertJob e2 ''received'' p2, ReceivedCallback t ty p2 red i) # jobs"
    and "run_job env now (InsertJob e1 ''sent'' p1) (tab_db s) = Some (Inr (db1, r1))"
    and "run_job env now (InsertJob e2 ''received'' p2) db1 = Some (Inr (db2, VarBool False))"
  shows "let s' = run_steps (tab_step env) s [WorkerRuns now, WorkerRuns now, CallbackRuns clock, CallbackRuns clock]
    in waitingCount (tab_counters s') = waitingCount (tab_counters s)
     \<and> receivedCount (tab_counters s') = receivedCount (tab_counters s)
     \<and> duplicateCount (tab_counters s') = duplicateCount (tab_counters s) + 1
     \<and> \<not> row_isReceived (last (tab_rows s'))"
proof -
  define s1 where "s1 = tab_step env s (WorkerRuns now)"
  define s2 where "s2 = tab_step env s1 (WorkerRuns now)"
  define s3 where "s3 = tab_step env s2 (CallbackRuns clock)"
  define s4 where "s4 = tab_step env s3 (CallbackRuns clock)"
  note s1 = worker_step [OF assms(1,3,4), folded s1_def]
  have j1: "tab_jobs s1 = (InsertJob e2 ''received'' p2, ReceivedCallback t ty p2 red i) # jobs" and n1: "\<not> tab_terminated s1"
    and d1: "tab_db s1 = db1" using s1 assms(1) by simp_all
  have s2: "tab_results s2 = [(SentCallback ty p1, r1), (ReceivedCallback t ty p2 red i, VarBool False)]"
    "\<not> tab_terminated s2" "tab_counters s2 = tab_counters s"
    using worker_step [OF n1 j1, of env now db2 "VarBool False"] assms(1,2,5) d1 s1 by (simp_all add: s2_def)
  have s3: "tab_results s3 = [(ReceivedCallback t ty p2 red i, VarBool False)]" "\<not> tab_terminated s3"
    "tab_counters s3 = tab_counters s" "\<not> row_isReceived (last (tab_rows s3))"
    using s2 by (simp_all add: s3_def tab_step_def run_callback_def insertRow_def requestDbSize_def worker_call_def Let_def)
  have "tab_counters s4 = (tab_counters s)\<lparr>duplicateCount := duplicateCount (tab_counters s) + 1\<rparr>" "tab_rows s4 = tab_rows s3"
    using s3 by (simp_all add: s4_def tab_step_def run_callback_def requestDbSize_def confirm_counters Let_def)
  then show ?thesis using s3 by (simp add: s1_def s2_def s3_def s4_def Let_def)
qed

section \<open>A concrete tab\<close>

text \<open>
  A channel that remembers its connection and its acknowledgements, a database that remembers the
  identifiers inserted and the number of rows changed last, and two messages.
\<close>

definition demo_tab_channel :: "(nat, nat \<times> u64 list) channel_ops" where
  "demo_tab_channel = \<lparr>ch_create = (\<lambda>a. (a, [])), ch_publish = (\<lambda>x k b c. (True, c)), ch_setQos = (\<lambda>n c. c),
     ch_consume = (\<lambda>q c. c), ch_ack = (\<lambda>t c. (True, (fst c, snd c @ [t]))), ch_reject = (\<lambda>t c. (True, c)),
     ch_cancel = (\<lambda>tag c. c)\<rparr>"

definition demo_tab_object :: "string \<Rightarrow> QJsonObject" where
  "demo_tab_object i = [(''id'', JString i), (''ts'', JString ''t''), (''v'', JDouble 1),
     (''src'', JString ''qt-mq-lab''), (''type'', JString ''card''), (''payload'', JObject [])]"

definition demo_tab_qt :: "unit store_ops" where
  "demo_tab_qt = \<lparr>qt_fromJson = (\<lambda>b. Some (JObject (demo_tab_object (if b = [1] then ''a'' else ''b'')))),
     qt_toJson = (\<lambda>_. []), qt_parseIso = (\<lambda>_. Some ()), qt_formatIso = (\<lambda>_. ''t''), qt_isUtc = (\<lambda>_. True),
     so_toIsoMs = (\<lambda>_. ''t''), so_fromIsoMs = (\<lambda>_. Some ()), so_fromUtf8 = (\<lambda>_. ''{}''), so_toUtf8 = (\<lambda>_. [])\<rparr>"

definition demo_tab_sqlite :: "(string list \<times> int) sqlite" where
  "demo_tab_sqlite = \<lparr>sq_open = (\<lambda>_. Inr ([], 0)), sq_exec = (\<lambda>db _. Inr db), sq_prepare = (\<lambda>_ _. None),
     sq_run = (\<lambda>db st. case map_of (st_bindings st) 1 of
        Some (VText i) \<Rightarrow> if i \<in> set (fst db) then ((fst db, 0), [SQLITE_DONE]) else ((fst db @ [i], 1), [SQLITE_DONE])
      | _ \<Rightarrow> (db, [SQLITE_DONE])),
     sq_changes = snd, sq_textToInt = (\<lambda>_. 0)\<rparr>"

definition demo_dates :: "(nat, unit) date_ops" where
  "demo_dates = \<lparr>dt_at = (\<lambda>_ _. Some ()), d_addMonths = (\<lambda>n d. d), d_addYears = (\<lambda>n d. d), d_isoDate = (\<lambda>_. ''2027-01-01'')\<rparr>"

definition demo_tab_env :: "(nat, nat \<times> u64 list, unit, string list \<times> int, nat) tab_env" where
  "demo_tab_env = \<lparr>te_qt = demo_tab_qt, te_channel = demo_tab_channel, te_order = sorted_list_of_set,
     te_sqlite = demo_tab_sqlite, te_fileSize = (\<lambda>_. 4096), te_settings = demo_sops, te_dates = demo_dates,
     te_presenter = None\<rparr>"

definition demo_tab0 :: "(nat \<times> u64 list, unit, string list \<times> int, nat) mq_tab" where
  "demo_tab0 = newMqTab demo_tab_env Map.empty ([], 0) 0 (Some 1) [] True"

lemma demo_fair: "fair_order demo_tab_env"
proof -
  have "set (sorted_list_of_set C) \<subseteq> C" for C :: "u64 set" by (cases "finite C") simp_all
  then show ?thesis by (simp add: fair_order_def demo_tab_env_def)
qed

lemmas demo_tab_parts = demo_tab_env_def demo_tab_channel_def demo_tab_qt_def demo_tab_sqlite_def demo_dates_def
  demo_tab_object_def

text \<open>The parts of the example, evaluated once.\<close>

lemma demo_decode:
  "mq_decode (qt_ops.truncate demo_tab_qt) b =
     \<lparr>dr_envelope = \<lparr>env_id = (if b = [1] then ''a'' else ''b''), env_timestamp = Some (), env_version = 1,
        env_source = ''qt-mq-lab'', env_type = ''card'', env_payload = []\<rparr>, dr_valid = True\<rparr>"
  by (simp add: demo_tab_parts mq_decode_def decodeObject_def qt_ops.truncate_def)

lemma demo_insert:
  "store_insert demo_tab_qt demo_tab_sqlite now e d title txt db =
     (let i = takeWhile (\<lambda>c. c \<noteq> CHR 0x00) (env_id e)
      in Inr (if i \<in> set (fst db) then ((fst db, 0), False) else ((fst db @ [i], 1), True)))"
  by (simp add: store_insert_def runOnce_def prepareStatement_def demo_tab_sqlite_def insertBindings_list upt_rec Let_def)

lemma demo_recent: "store_recent demo_tab_qt demo_tab_sqlite n db = Some (Inr [])"
  by (simp add: store_recent_def runQuery_def prepareStatement_def demo_tab_sqlite_def bindInt_def)

lemma demo_env_fields:
  "te_qt demo_tab_env = demo_tab_qt" "te_channel demo_tab_env = demo_tab_channel" "te_sqlite demo_tab_env = demo_tab_sqlite"
  "te_fileSize demo_tab_env = (\<lambda>_. 4096)" "te_presenter demo_tab_env = None" "te_dates demo_tab_env = demo_dates"
  "te_settings demo_tab_env = demo_sops"
  by (simp_all add: demo_tab_env_def)

lemma demo_present:
  "presentOrFallback demo_tab_env type payload = \<lparr>pm_displayTitle = ''{}'', pm_searchText = [], pm_detail = []\<rparr>"
  by (simp add: presentOrFallback_def demo_env_fields demo_tab_qt_def Let_def)

lemmas demo_tab_eval = demo_decode demo_insert demo_recent demo_env_fields demo_present demo_tab_channel_def
  with_service_def loadRecent_def worker_call_def startConsuming_def ensureChannel_def worker_run_def run_callback_def
  tab_step_def refreshConnectionState_def requestDbSize_def populateRows_def

text \<open>
  Message a arrives under tag 1 and is stored; before its callback runs the connection is lost and
  another one is made, on which message b arrives, under tag 1 again.
\<close>

definition stale_events :: "(nat, unit, nat) tab_event list" where
  "stale_events = [BrokerCallback (ReceivedEv [1] 1 False), WorkerRuns (), WorkerRuns (), CallbackRuns [],
     ConnectionChanged False [] None, ConnectionChanged True [] (Some 2),
     BrokerCallback (ReceivedEv [2] 1 False), CallbackRuns []]"

definition demo_stale :: "(nat \<times> u64 list, unit, string list \<times> int, nat) mq_tab" where
  "demo_stale = run_steps (tab_step demo_tab_env) demo_tab0 stale_events"

lemma demo_tab0_eval:
  "demo_tab0 = (blankTab demo_tab_env Map.empty ([], 0) 0)
     \<lparr>tab_service := newMqService\<lparr>svc_channel := Some (1, []), consumerStarting := True\<rparr>,
      tab_jobs := [(RecentJob 200, PopulateCallback)], serviceError := [], connectionLabel := NowConnected, sendEnabled := True\<rparr>"
  by (simp add: demo_tab0_def newMqTab_def demo_tab_eval blankTab_def newMqService_def kRecentRows_def)

lemma demo_populate:
  "\<not> tab_terminated s \<Longrightarrow> tab_results s = (PopulateCallback, VarRows []) # results \<Longrightarrow>
   tab_step demo_tab_env s (CallbackRuns clock) =
     s\<lparr>tab_results := results, tab_rows := [], nextSequence := 1, tab_jobs := tab_jobs s @ [(FileSizeJob, DbSizeCallback)]\<rparr>"
  by (simp add: tab_step_def run_callback_def populateRows_def requestDbSize_def worker_call_def)

lemma demo_reconnect:
  assumes "\<not> tab_terminated s" and "\<not> svc_paused (tab_service s)"
  shows "tab_step demo_tab_env (tab_step demo_tab_env s (ConnectionChanged False [] None)) (ConnectionChanged True [] (Some k)) =
     s\<lparr>tab_service := (resetConnectionState (tab_service s))\<lparr>svc_channel := Some (k, []), consumerStarting := True\<rparr>,
       serviceError := [], connectionLabel := NowConnected, sendEnabled := True\<rparr>"
  using assms
  by (simp add: tab_step_def refreshConnectionState_def with_service_def svc_onConnectionStateChanged_def
      resetConnectionState_def startConsuming_def ensureChannel_def demo_env_fields demo_tab_channel_def Let_def)

lemma demo_stale_eval:
  "svc_channel (tab_service demo_stale) = Some (2, [1]) \<and> fst (tab_db demo_stale) = [''a'']
   \<and> InsertJob (tabEnvelope ''b'' (Some ()) ''card'' []) ''received''
          \<lparr>pm_displayTitle = ''{}'', pm_searchText = [], pm_detail = []\<rparr> \<in> fst ` set (tab_jobs demo_stale)"
proof -
  let ?env = demo_tab_env
  define s0 where "s0 = demo_tab0"
  define s1 where "s1 = tab_step ?env s0 (BrokerCallback (ReceivedEv [1] 1 False))"
  define s2 where "s2 = tab_step ?env s1 (WorkerRuns ())"
  define s3 where "s3 = tab_step ?env s2 (WorkerRuns ())"
  define s4 where "s4 = tab_step ?env s3 (CallbackRuns [])"
  define s5 where "s5 = tab_step ?env (tab_step ?env s4 (ConnectionChanged False [] None)) (ConnectionChanged True [] (Some 2))"
  define s6 where "s6 = tab_step ?env s5 (BrokerCallback (ReceivedEv [2] 1 False))"
  define s7 where "s7 = tab_step ?env s6 (CallbackRuns [])"
  have s0: "\<not> tab_terminated s0 \<and> tab_results s0 = [] \<and> tab_jobs s0 = [(RecentJob 200, PopulateCallback)]
      \<and> tab_db s0 = ([], 0) \<and> svc_channel (tab_service s0) = Some (1, []) \<and> \<not> svc_paused (tab_service s0)"
    by (simp add: s0_def demo_tab0_eval blankTab_def newMqService_def)
  let ?a = "received_job ?env (dr_envelope (mq_decode (qt_ops.truncate demo_tab_qt) [1])) 1 False"
  let ?b = "received_job ?env (dr_envelope (mq_decode (qt_ops.truncate demo_tab_qt) [2])) 1 False"
  have s1: "\<not> tab_terminated s1 \<and> tab_results s1 = [] \<and> tab_jobs s1 = [(RecentJob 200, PopulateCallback), ?a]
      \<and> tab_db s1 = ([], 0) \<and> \<not> svc_paused (tab_service s1)"
    using s0 by (simp add: s1_def receive_step [where ch = "(1, [])"] demo_env_fields demo_decode)
  have s2: "\<not> tab_terminated s2 \<and> tab_results s2 = [(PopulateCallback, VarRows [])] \<and> tab_jobs s2 = [?a]
      \<and> tab_db s2 = ([], 0) \<and> \<not> svc_paused (tab_service s2)"
    using s1 by (simp add: s2_def worker_step [where db = "([], 0)" and r = "VarRows []"] demo_env_fields demo_recent)
  have s3: "\<not> tab_terminated s3 \<and> tab_results s3 = [(PopulateCallback, VarRows []), (snd ?a, VarBool True)] \<and> tab_jobs s3 = []
      \<and> tab_db s3 = ([''a''], 1) \<and> \<not> svc_paused (tab_service s3)"
    using s2 by (simp add: s3_def worker_step [where db = "([''a''], 1)" and r = "VarBool True"] demo_env_fields demo_insert
        demo_decode tabEnvelope_def)
  have s4: "\<not> tab_terminated s4 \<and> tab_results s4 = [(snd ?a, VarBool True)] \<and> tab_jobs s4 = [(FileSizeJob, DbSizeCallback)]
      \<and> tab_db s4 = ([''a''], 1) \<and> \<not> svc_paused (tab_service s4)"
    using s3 by (simp add: s4_def demo_populate)
  have s5: "\<not> tab_terminated s5 \<and> tab_results s5 = [(snd ?a, VarBool True)] \<and> tab_jobs s5 = [(FileSizeJob, DbSizeCallback)]
      \<and> tab_db s5 = ([''a''], 1) \<and> \<not> svc_paused (tab_service s5) \<and> svc_channel (tab_service s5) = Some (2, [])"
    using s4 by (simp add: s5_def demo_reconnect resetConnectionState_def)
  have s6: "\<not> tab_terminated s6 \<and> tab_results s6 = [(snd ?a, VarBool True)] \<and> tab_jobs s6 = [(FileSizeJob, DbSizeCallback), ?b]
      \<and> tab_db s6 = ([''a''], 1) \<and> \<not> svc_paused (tab_service s6) \<and> svc_channel (tab_service s6) = Some (2, [])
      \<and> 1 \<in> pendingDeliveries (tab_service s6)"
    using s5 by (simp add: s6_def receive_step [where ch = "(2, [])"] demo_env_fields demo_decode)
  have "svc_channel (tab_service s7) = Some (2, [1]) \<and> tab_db s7 = ([''a''], 1) \<and> ?b \<in> set (tab_jobs s7)"
    using s6 confirm_step [where s = s6 and env = ?env and ch = "(2, [])" and ch' = "(2, [1])" and clock = "[]" and red = False]
    by (simp add: s7_def demo_env_fields demo_tab_channel_def demo_decode Let_def)
  moreover have "demo_stale = s7"
    by (simp add: demo_stale_def stale_events_def s0_def s1_def s2_def s3_def s4_def s5_def s6_def s7_def del: tab_handle.simps)
  ultimately show ?thesis by (force simp: demo_decode demo_present)
qed

text \<open>
  An acknowledgement can overtake the insertion after a reconnect: the delivery tags of the new channel
  start again, and the callback of a message of the old connection confirms its tag to the new one. Here
  the broker of connection 2 has been told that delivery 1 is done, while its message b is
  still waiting in the worker's queue and only message a is in the store.
\<close>
theorem tab_stale_tag_is_acknowledged:
  "svc_channel (tab_service demo_stale) = Some (2, [1]) \<and> fst (tab_db demo_stale) = [''a'']
   \<and> InsertJob (tabEnvelope ''b'' (Some ()) ''card'' []) ''received''
          \<lparr>pm_displayTitle = ''{}'', pm_searchText = [], pm_detail = []\<rparr> \<in> fst ` set (tab_jobs demo_stale)"
  by (rule demo_stale_eval)

theorem tab_ack_after_insert_witness:
  "acks_of 1 (tab_service demo_stale) \<le> inserts_of 1 (tab_done demo_stale)"
  using tab_ack_after_insert [OF demo_fair, of demo_stale Map.empty "([], 0)" 0 "Some 1" "[]" True stale_events 1]
  by (simp add: demo_stale_def demo_tab0_def)

theorem tab_table_bounded_witness: "length (tab_rows demo_stale) \<le> 5000"
  using tab_table_bounded [OF demo_fair, of demo_stale Map.empty "([], 0)" 0 "Some 1" "[]" True stale_events]
  by (simp add: demo_stale_def demo_tab0_def)

lemma demo_mark: "store_markAcked demo_tab_sqlite ''a'' ([''a''], n) = Inr ([''a''], 0)"
  by (simp add: store_markAcked_def runOnce_def prepareStatement_def demo_tab_sqlite_def bindText_def)

definition demo_idle :: "(nat \<times> u64 list, unit, string list \<times> int, nat) mq_tab" where
  "demo_idle = demo_tab0\<lparr>tab_jobs := []\<rparr>"

lemma demo_idle_fields:
  "\<not> tab_terminated demo_idle" "tab_jobs demo_idle = []" "tab_results demo_idle = []" "tab_db demo_idle = ([], 0)"
  "svc_channel (tab_service demo_idle) = Some (1, [])" "\<not> svc_paused (tab_service demo_idle)"
  "tab_counters demo_idle = noCounters"
  by (simp_all add: demo_idle_def demo_tab0_eval blankTab_def newMqService_def)

theorem tab_delivery_completes_witness:
  "let s' = run_steps (tab_step demo_tab_env) demo_idle
     [BrokerCallback (ReceivedEv [1] 5 False), WorkerRuns (), CallbackRuns ''12:00:00'', WorkerRuns ()]
   in svc_channel (tab_service s') = Some (1, [5]) \<and> tab_db s' = ([''a''], 0) \<and> row_acked (last (tab_rows s'))"
proof -
  let ?e = "dr_envelope (mq_decode (qt_ops.truncate demo_tab_qt) [1])"
  have "mq_decode (qt_ops.truncate (te_qt demo_tab_env)) [1] = \<lparr>dr_envelope = ?e, dr_valid = True\<rparr>"
    by (simp add: demo_env_fields demo_decode)
  moreover have "ch_ack (te_channel demo_tab_env) 5 (1, []) = (True, (1, [5]))"
    by (simp add: demo_env_fields demo_tab_channel_def)
  moreover have "length [1 :: u8] \<le> 2147483647" by simp
  moreover have "store_insert (te_qt demo_tab_env) (te_sqlite demo_tab_env) ()
      (tabEnvelope (env_id ?e) (env_timestamp ?e) (env_type ?e) (env_payload ?e)) ''received''
      (pm_displayTitle (presentOrFallback demo_tab_env (env_type ?e) (env_payload ?e)))
      (pm_searchText (presentOrFallback demo_tab_env (env_type ?e) (env_payload ?e))) (tab_db demo_idle) = Inr (([''a''], 1), True)"
    by (simp add: demo_env_fields demo_insert demo_decode demo_idle_fields tabEnvelope_def)
  moreover have "store_markAcked (te_sqlite demo_tab_env) (env_id ?e) ([''a''], 1) = Inr ([''a''], 0)"
    by (simp add: demo_env_fields demo_mark demo_decode)
  ultimately show ?thesis
    using tab_delivery_completes [where s = demo_idle and env = demo_tab_env and ch = "(1, [])" and t = 5 and ch' = "(1, [5])"
        and body = "[1]" and e = ?e and now = "()" and now' = "()" and clock = "''12:00:00''" and red = False
        and ?db1.0 = "([''a''], 1)" and ?db2.0 = "([''a''], 0)"] demo_idle_fields
    unfolding Let_def by blast
qed

theorem tab_own_message_is_duplicate_witness:
  "let p = \<lparr>pm_displayTitle = ''x'', pm_searchText = [], pm_detail = []\<rparr>; e = tabEnvelope ''m'' (Some ()) ''lab.note'' [];
       s = demo_idle\<lparr>tab_jobs := [(InsertJob e ''sent'' p, SentCallback ''lab.note'' p),
                                   (InsertJob e ''received'' p, ReceivedCallback 3 ''lab.note'' p False ''m'')]\<rparr>
   in duplicateCount (tab_counters (run_steps (tab_step demo_tab_env) s
        [WorkerRuns (), WorkerRuns (), CallbackRuns [], CallbackRuns []])) = 1"
proof -
  let ?p = "\<lparr>pm_displayTitle = ''x'', pm_searchText = [], pm_detail = []\<rparr>"
  let ?e = "tabEnvelope ''m'' (Some ()) ''lab.note'' []"
  let ?s = "demo_idle\<lparr>tab_jobs := [(InsertJob ?e ''sent'' ?p, SentCallback ''lab.note'' ?p),
     (InsertJob ?e ''received'' ?p, ReceivedCallback 3 ''lab.note'' ?p False ''m'')]\<rparr>"
  have "run_job demo_tab_env () (InsertJob ?e ''sent'' ?p) (tab_db ?s) = Some (Inr (([''m''], 1), VarBool True))"
    and "run_job demo_tab_env () (InsertJob ?e ''received'' ?p) ([''m''], 1) = Some (Inr (([''m''], 0), VarBool False))"
    by (simp_all add: demo_env_fields demo_insert demo_idle_fields tabEnvelope_def)
  from tab_own_message_is_duplicate [OF _ _ _ this, where clock = "[]" and red = False] show ?thesis
    by (simp add: demo_idle_fields Let_def noCounters_def)
qed

end
