(* ===== verification/App_Update.thy ===== *)
theory App_Update
  imports Qt_Strings "HOL-Library.List_Lexorder" Mq_Codec
begin

text \<open>
  Update checking and installing: src/infra/update/update_checker.\{h,cpp\}, update_installer.\{h,cpp\} and
  the result handling of curl_client.cpp. JSON reading and URL validation are parameters, as are
  the hash function, the file system's answers and the platform's installer. The log lines and the
  signals are the observable output, in order.
\<close>

section \<open>Versions\<close>

definition is_digit :: "char \<Rightarrow> bool" where
  "is_digit c = (48 \<le> (of_char c :: nat) \<and> (of_char c :: nat) \<le> 57)"

definition digits_value :: "string \<Rightarrow> nat" where
  "digits_value = foldl (\<lambda>v c. v * 10 + (of_char c - 48)) 0"

text \<open>QString::toInt on a string of digits: it fails when the number exceeds 32-bit signed range.\<close>

definition digitsToInt :: "string \<Rightarrow> int option" where
  "digitsToInt ds = (let v = digits_value ds in if v \<le> 2147483647 then Some (int v) else None)"

definition versionPart :: "string \<Rightarrow> int option" where
  "versionPart part =
     (let captured = takeWhile is_digit part in if captured = [] then None else digitsToInt captured)"

fun versionParts :: "string list \<Rightarrow> int list option" where
  "versionParts [] = Some []"
| "versionParts (p # ps) = do { v \<leftarrow> versionPart p; vs \<leftarrow> versionParts ps; Some (v # vs) }"

definition parseVersion :: "string \<Rightarrow> int list option" where
  "parseVersion version = versionParts (split_char CHR ''.'' version)"

text \<open>The loop over the components; a missing one counts as 0.\<close>

fun newerFrom :: "int list \<Rightarrow> int list \<Rightarrow> nat \<Rightarrow> nat \<Rightarrow> bool" where
  "newerFrom remote loc i 0 = False"
| "newerFrom remote loc i (Suc n) =
     (let remotePart = (if i < length remote then remote ! i else 0);
          localPart = (if i < length loc then loc ! i else 0)
      in if remotePart \<noteq> localPart then remotePart > localPart else newerFrom remote loc (i + 1) n)"

text \<open>The pair of the flag valid and the result.\<close>

definition isNewerVersion :: "string \<Rightarrow> string \<Rightarrow> bool \<times> bool" where
  "isNewerVersion remoteVersion localVersion =
     (case (parseVersion remoteVersion, parseVersion localVersion) of
        (Some remote, Some loc) \<Rightarrow> (True, newerFrom remote loc 0 (max (length remote) (length loc)))
      | _ \<Rightarrow> (False, False))"

section \<open>The checker\<close>

datatype update_out =
    LogInfo string | LogWarn string | LogError string
  | UpdateAvailable string string string
  | ReadyToInstall string
  | SelfUpdateUnsupported string
  | StartSelfInstall string
  | Quit

definition kInitialCheckDelayMs :: int where "kInitialCheckDelayMs = 3000"
definition kCheckIntervalMs :: int where "kCheckIntervalMs = 6 * 60 * 60 * 1000"

record update_checker =
  uc_started :: bool
  uc_initialTimer :: "int option"
  uc_timer :: "int option"
  uc_out :: "update_out list"

definition newUpdateChecker :: update_checker where
  "newUpdateChecker = \<lparr>uc_started = False, uc_initialTimer = None, uc_timer = None, uc_out = []\<rparr>"

definition uc_start :: "string \<Rightarrow> update_checker \<Rightarrow> update_checker" where
  "uc_start appVersion u0 =
     (if uc_started u0 then u0
      else (let u = u0\<lparr>uc_started := True\<rparr>
            in if indexOf ''-dev'' appVersion \<noteq> None
               then u\<lparr>uc_out := uc_out u @ [LogInfo ''update check disabled for a development build'']\<rparr>
               else u\<lparr>uc_initialTimer := Some kInitialCheckDelayMs, uc_timer := Some kCheckIntervalMs\<rparr>))"

fun asBool :: "json option \<Rightarrow> bool" where
  "asBool (Some (JBool b)) = b"
| "asBool _ = False"

fun asArray :: "json option \<Rightarrow> json list" where
  "asArray (Some (JArray xs)) = xs"
| "asArray _ = []"

text \<open>toString and toObject of a value of another type give the empty string and the empty object.\<close>

definition strOf :: "json option \<Rightarrow> string" where
  "strOf v = (case asString v of None \<Rightarrow> [] | Some x \<Rightarrow> x)"

definition objOf :: "json option \<Rightarrow> QJsonObject" where
  "objOf v = (case asObject v of None \<Rightarrow> [] | Some x \<Rightarrow> x)"

fun findAsset :: "string \<Rightarrow> json list \<Rightarrow> QJsonObject" where
  "findAsset name [] = []"
| "findAsset name (v # vs) =
     (let asset = objOf (Some v)
      in if strOf (map_of asset ''name'') = name then asset else findAsset name vs)"

text \<open>The callback of the fetch: what it logs and sends.\<close>

definition onFetched ::
  "(bytes \<Rightarrow> json option) \<Rightarrow> (bytes \<Rightarrow> string) \<Rightarrow> (string \<Rightarrow> bool) \<Rightarrow> string \<Rightarrow> string
   \<Rightarrow> bool \<Rightarrow> bytes \<Rightarrow> string \<Rightarrow> update_out list" where
  "onFetched fromJson parseError urlUsable assetName appVersion ok body err =
     (if \<not> ok then [LogWarn (''update check failed: '' @ err)]
      else (case asObject (fromJson body) of
              None \<Rightarrow> [LogWarn (''update check returned malformed JSON: '' @ parseError body)]
            | Some release \<Rightarrow>
                if asBool (map_of release ''prerelease'') then [LogWarn ''update check ignored a prerelease'']
                else (let tag = strOf (map_of release ''tag_name'');
                          remoteVersion = (if starts_with tag ''v'' then tl tag else tag)
                      in if remoteVersion = [] then [LogWarn ''update check response has no tag_name'']
                         else (let asset = findAsset assetName (asArray (map_of release ''assets''))
                               in if asset = []
                                  then [LogWarn (''update check found no installer asset named '' @ assetName)]
                                  else (let downloadUrl = strOf (map_of asset ''browser_download_url'');
                                            digest = strOf (map_of asset ''digest'')
                                        in if \<not> same_text (take 7 digest) ''sha256:''
                                           then [LogWarn ''update check installer asset has no SHA-256 digest'']
                                           else (let digest = drop 7 digest
                                                 in if \<not> urlUsable downloadUrl \<or> digest = []
                                                    then [LogWarn ''update check installer asset metadata is incomplete'']
                                                    else (case isNewerVersion remoteVersion appVersion of
                                                            (valid, newer) \<Rightarrow>
                                                              if \<not> valid
                                                              then [LogWarn (''update check could not compare versions local=''
                                                                     @ appVersion @ '' remote='' @ remoteVersion)]
                                                              else LogInfo (''update check found release version=''
                                                                     @ remoteVersion @ ''; current='' @ appVersion)
                                                                   # (if newer
                                                                      then [UpdateAvailable remoteVersion downloadUrl digest]
                                                                      else []))))))))"

section \<open>Running curl\<close>

text \<open>
  What happens to the process: it could not be started, it crashed, or it exited with a code. The
  framework sends errorOccurred for the first two and finished for the last two.
\<close>

datatype process_end = FailedToStart | Crashed | Exited int

text \<open>The handler of finished and the handler of errorOccurred: the arguments they pass to onDone.\<close>

definition onProcessFinished :: "bool \<Rightarrow> int \<Rightarrow> bytes \<Rightarrow> string \<Rightarrow> string \<Rightarrow> bool \<times> bytes \<times> string" where
  "onProcessFinished normalExit exitCode out err codeText =
     (if \<not> normalExit \<or> exitCode \<noteq> 0
      then (False, [], if trimmed err = [] then ''curl exit code '' @ codeText else trimmed err)
      else (True, out, []))"

definition onProcessError :: "string \<Rightarrow> bool \<times> bytes \<times> string" where
  "onProcessError errorText = (False, [], errorText)"

fun curlCallbacks :: "process_end \<Rightarrow> bytes \<Rightarrow> string \<Rightarrow> string \<Rightarrow> string \<Rightarrow> (bool \<times> bytes \<times> string) list" where
  "curlCallbacks FailedToStart out err codeText errorText = [onProcessError errorText]"
| "curlCallbacks Crashed out err codeText errorText =
     [onProcessError errorText, onProcessFinished False 0 out err codeText]"
| "curlCallbacks (Exited c) out err codeText errorText = [onProcessFinished True c out err codeText]"

text \<open>
  The command line of a request, and run itself: without a curl executable it answers at once,
  otherwise it starts the process.
\<close>

datatype curl_action =
    CurlWarn string
  | CurlDone bool bytes string
  | CurlStart string "string list"

definition curl_run :: "(int \<Rightarrow> string) \<Rightarrow> string \<Rightarrow> string list \<Rightarrow> int \<Rightarrow> curl_action list" where
  "curl_run number curlPath arguments timeoutSeconds =
     (if curlPath = []
      then [CurlWarn ''no system curl found; update checking is unavailable'', CurlDone False [] ''curl not found'']
      else [CurlStart curlPath ([''-sS'', ''-L'', ''--fail'', ''--max-time'', number timeoutSeconds] @ arguments)])"

definition curl_fetch :: "(int \<Rightarrow> string) \<Rightarrow> string \<Rightarrow> string \<Rightarrow> curl_action list" where
  "curl_fetch number curlPath url =
     curl_run number curlPath
       [''-H'', ''Accept: application/vnd.github+json'', ''-H'', ''User-Agent: ZKTecoProtocol'', url] 30"

definition curl_download :: "(int \<Rightarrow> string) \<Rightarrow> (string \<Rightarrow> string) \<Rightarrow> string \<Rightarrow> string \<Rightarrow> string \<Rightarrow> curl_action list" where
  "curl_download number toNative curlPath url destinationPath =
     curl_run number curlPath [''-H'', ''User-Agent: ZKTecoProtocol'', ''-o'', toNative destinationPath, url] 600"

text \<open>checkNow: a log line and the request of the latest release of the application's repository.\<close>

definition kLatestReleaseUrl :: "string \<Rightarrow> string" where
  "kLatestReleaseUrl repo = ''https://api.github.com/repos/'' @ repo @ ''/releases/latest''"

definition uc_checkNow :: "(int \<Rightarrow> string) \<Rightarrow> string \<Rightarrow> string \<Rightarrow> update_checker \<Rightarrow> update_checker \<times> curl_action list" where
  "uc_checkNow number curlPath repo u =
     (u\<lparr>uc_out := uc_out u @ [LogInfo ''update check started'']\<rparr>, curl_fetch number curlPath (kLatestReleaseUrl repo))"

section \<open>The installer\<close>

text \<open>
  The state of UpdateInstaller, the file at the download path, and the downloads that curl is still
  running (every one of them writes to that same path).
\<close>

record installer =
  in_verified :: bool
  in_path :: string
  in_flight :: "(string \<times> string) list"
  in_disk :: "bytes option"
  in_out :: "update_out list"

definition newInstaller :: installer where
  "newInstaller = \<lparr>in_verified = False, in_path = [], in_flight = [], in_disk = None, in_out = []\<rparr>"

definition in_log :: "update_out \<Rightarrow> installer \<Rightarrow> installer" where
  "in_log x s = s\<lparr>in_out := in_out s @ [x]\<rparr>"

definition in_download :: "string \<Rightarrow> string \<Rightarrow> installer \<Rightarrow> installer" where
  "in_download version sha256 s =
     s\<lparr>in_verified := False, in_path := [], in_flight := in_flight s @ [(version, sha256)]\<rparr>"

text \<open>The completion of a download; hash gives the hexadecimal SHA-256 of a file's content.\<close>

definition onDownloaded ::
  "(bytes \<Rightarrow> string) \<Rightarrow> string \<Rightarrow> string \<Rightarrow> string \<Rightarrow> bool \<Rightarrow> string \<Rightarrow> bool \<Rightarrow> bool \<Rightarrow> installer \<Rightarrow> installer" where
  "onDownloaded hash installerPath version sha256 ok err readable hashed s =
     (if \<not> ok then in_log (LogWarn (''update download failed: '' @ err)) (s\<lparr>in_disk := None\<rparr>)
      else (case in_disk s of
              None \<Rightarrow> in_log (LogError (''downloaded update could not be read back: '' @ err)) s
            | Some content \<Rightarrow>
                if \<not> readable
                then (in_log (LogError (''downloaded update could not be read back: '' @ err)) s)\<lparr>in_disk := None\<rparr>
                else if \<not> hashed
                then (in_log (LogError ''downloaded update could not be hashed'') s)\<lparr>in_disk := None\<rparr>
                else (let actualHash = hash content
                      in if \<not> same_text actualHash sha256
                         then in_log (LogError (''update installer SHA-256 mismatch; expected='' @ sha256
                                @ ''; actual='' @ actualHash)) (s\<lparr>in_disk := None\<rparr>)
                         else in_log (ReadyToInstall version)
                                (in_log (LogInfo (''update installer verified; version='' @ version
                                    @ ''; sha256='' @ actualHash))
                                  (s\<lparr>in_path := installerPath, in_verified := True\<rparr>)))))"

text \<open>What applyAndRestart does, given whether the platform can install and whether the start succeeds.\<close>

definition applyOut :: "bool \<Rightarrow> bool \<Rightarrow> string \<Rightarrow> installer \<Rightarrow> update_out list" where
  "applyOut supportsSelfUpdate started err s =
     (if \<not> in_verified s \<or> in_path s = []
      then [LogError ''update install requested without a verified installer'']
      else if \<not> supportsSelfUpdate
      then [LogWarn (''self-update is not supported on this platform; installer left at '' @ in_path s),
            SelfUpdateUnsupported (in_path s)]
      else StartSelfInstall (in_path s)
           # (if \<not> started then [LogError (''verified update could not be installed: '' @ err)]
              else [LogInfo ''verified update installed; handing over and exiting'', Quit]))"

definition applyAndRestart :: "bool \<Rightarrow> bool \<Rightarrow> string \<Rightarrow> installer \<Rightarrow> installer" where
  "applyAndRestart supportsSelfUpdate started err s =
     s\<lparr>in_out := in_out s @ applyOut supportsSelfUpdate started err s\<rparr>"

text \<open>Events: calls, writes of a running curl, and the completion of the i-th running download.\<close>

datatype in_event =
    DownloadEv string string
  | CurlWritesEv bytes
  | FinishedEv nat bool string bool bool
  | ApplyEv bool bool string

fun in_step :: "(bytes \<Rightarrow> string) \<Rightarrow> string \<Rightarrow> installer \<Rightarrow> in_event \<Rightarrow> installer" where
  "in_step hash path s (DownloadEv version sha256) = in_download version sha256 s"
| "in_step hash path s (CurlWritesEv content) =
     (if in_flight s = [] then s else s\<lparr>in_disk := Some content\<rparr>)"
| "in_step hash path s (FinishedEv i ok err readable hashed) =
     (if i < length (in_flight s)
      then (let (version, sha256) = in_flight s ! i;
                s = s\<lparr>in_flight := take i (in_flight s) @ drop (i + 1) (in_flight s)\<rparr>
            in onDownloaded hash path version sha256 ok err readable hashed s)
      else s)"
| "in_step hash path s (ApplyEv supported started err) = applyAndRestart supported started err s"

section \<open>Lemmas on versions\<close>

definition pad0 :: "nat \<Rightarrow> int list \<Rightarrow> int list" where
  "pad0 n v = v @ replicate (n - length v) 0"

lemma pad0_nth: "length v \<le> n \<Longrightarrow> i < n \<Longrightarrow> pad0 n v ! i = (if i < length v then v ! i else 0)"
  by (simp add: pad0_def nth_append)

lemma length_pad0 [simp]: "length v \<le> n \<Longrightarrow> length (pad0 n v) = n"
  by (simp add: pad0_def)

text \<open>The loop compares the padded component lists lexicographically.\<close>

lemma newerFrom_lex:
  assumes "length r \<le> n" "length l \<le> n"
  shows "i + k = n \<Longrightarrow> newerFrom r l i k \<longleftrightarrow> drop i (pad0 n l) < drop i (pad0 n r)"
proof (induction k arbitrary: i)
  case 0
  then show ?case using assms by simp
next
  case (Suc k)
  have "i < n" using Suc.prems by simp
  then have d: "drop i (pad0 n v) = (if i < length v then v ! i else 0) # drop (Suc i) (pad0 n v)"
    if "length v \<le> n" for v
    using that pad0_nth [of v n i] Cons_nth_drop_Suc [of i "pad0 n v"] by simp
  show ?case using Suc.IH [of "i + 1"] Suc.prems assms by (simp add: d Let_def)
qed

lemma isNewerVersion_lex:
  assumes "parseVersion a = Some r" and "parseVersion b = Some l" and "length r \<le> n" "length l \<le> n"
  shows "isNewerVersion a b = (True, pad0 n l < pad0 n r)"
proof -
  let ?m = "max (length r) (length l)"
  have "pad0 n v = pad0 ?m v @ replicate (n - ?m) 0" if "v = r \<or> v = l" for v
    using that assms(3,4) by (auto simp: pad0_def max_def simp flip: replicate_add)
  then have "pad0 n l < pad0 n r \<longleftrightarrow> pad0 ?m l @ replicate (n - ?m) 0 < pad0 ?m r @ replicate (n - ?m) 0"
    by simp
  also have "\<dots> \<longleftrightarrow> pad0 ?m l < pad0 ?m r"
  proof -
    have "length xs = length ys \<Longrightarrow> xs @ zs < ys @ zs \<longleftrightarrow> xs < ys" for xs ys zs :: "int list"
      by (induction xs ys rule: list_induct2) auto
    then show ?thesis by simp
  qed
  finally show ?thesis
    using assms newerFrom_lex [of r ?m l 0 ?m] by (simp add: isNewerVersion_def)
qed

section \<open>Lemmas on the installer\<close>

text \<open>The download in progress or last completed: the last call of download.\<close>

fun last_download :: "in_event list \<Rightarrow> (string \<times> string) option" where
  "last_download [] = None"
| "last_download (e # es) =
     (case last_download es of
        Some d \<Rightarrow> Some d
      | None \<Rightarrow> (case e of DownloadEv v h \<Rightarrow> Some (v, h) | _ \<Rightarrow> None))"

text \<open>A run in which a download is started only when no other is running.\<close>

fun serial_from :: "(bytes \<Rightarrow> string) \<Rightarrow> string \<Rightarrow> installer \<Rightarrow> in_event list \<Rightarrow> bool" where
  "serial_from hash path s [] = True"
| "serial_from hash path s (e # es) =
     ((case e of DownloadEv v h \<Rightarrow> in_flight s = [] | _ \<Rightarrow> True) \<and> serial_from hash path (in_step hash path s e) es)"

lemma last_download_snoc:
  "last_download (es @ [e]) = (case e of DownloadEv v h \<Rightarrow> Some (v, h) | _ \<Rightarrow> last_download es)"
  by (induction es) (auto split: in_event.splits option.splits)

lemma serial_from_append:
  "serial_from hash path s (es @ fs) \<longleftrightarrow>
     serial_from hash path s es \<and> serial_from hash path (run_steps (in_step hash path) s es) fs"
  by (induction es arbitrary: s) auto

definition in_inv :: "(bytes \<Rightarrow> string) \<Rightarrow> string \<Rightarrow> (string \<times> string) option \<Rightarrow> installer \<Rightarrow> bool" where
  "in_inv hash path d s \<longleftrightarrow>
     (in_flight s = [] \<or> (\<exists>x. d = Some x \<and> in_flight s = [x]) \<and> \<not> in_verified s)
   \<and> (in_verified s \<longrightarrow> in_path s = path
        \<and> (\<exists>version sha256 content. d = Some (version, sha256) \<and> in_disk s = Some content
             \<and> same_text (hash content) sha256))"

lemma in_run_inv:
  "serial_from hash path newInstaller es \<Longrightarrow>
     in_inv hash path (last_download es) (run_steps (in_step hash path) newInstaller es)"
proof (induction es rule: rev_induct)
  case Nil
  then show ?case by (simp add: in_inv_def newInstaller_def)
next
  case (snoc e es)
  let ?s = "run_steps (in_step hash path) newInstaller es"
  have ih: "in_inv hash path (last_download es) ?s" and ser: "serial_from hash path ?s [e]"
    using snoc by (simp_all add: serial_from_append)
  show ?case
  proof (cases e)
    case (FinishedEv i ok err readable hashed)
    show ?thesis
    proof (cases "in_flight ?s")
      case Nil
      then show ?thesis using ih FinishedEv by (simp add: run_steps_append last_download_snoc)
    next
      case (Cons x xs)
      then show ?thesis using ih FinishedEv
        by (cases x)
           (auto simp: in_inv_def run_steps_append last_download_snoc onDownloaded_def in_log_def Let_def
              split: option.splits)
    qed
  qed (use ih ser in \<open>auto simp: in_inv_def run_steps_append last_download_snoc in_download_def
         applyAndRestart_def\<close>)
qed

section \<open>Properties\<close>

text \<open>
  A crash of curl is reported twice, by both handlers: the caller is told of the failure two times.
\<close>

theorem curl_crash_reported_twice:
  "map fst (curlCallbacks Crashed out err codeText errorText) = [False, False]"
  by (simp add: onProcessError_def onProcessFinished_def)

text \<open>
  When both version strings can be parsed, isNewerVersion answers that the comparison is valid
  and orders the versions as the lexicographic order of their component lists filled up with zeros,
  to any common length.
\<close>

theorem update_version_order:
  "parseVersion remoteVersion = Some r \<Longrightarrow> parseVersion localVersion = Some l \<Longrightarrow>
     length r \<le> n \<Longrightarrow> length l \<le> n \<Longrightarrow>
     isNewerVersion remoteVersion localVersion = (True, pad0 n l < pad0 n r)"
  by (rule isNewerVersion_lex)

theorem update_version_order_witness:
  "isNewerVersion ''1.10.0'' ''1.9'' = (True, pad0 3 [1, 9] < pad0 3 [1, 10, 0])"
proof -
  have "parseVersion ''1.10.0'' = Some [1, 10, 0]"
    by (simp add: parseVersion_def versionPart_def is_digit_def digitsToInt_def digits_value_def Let_def)
  moreover have "parseVersion ''1.9'' = Some [1, 9]"
    by (simp add: parseVersion_def versionPart_def is_digit_def digitsToInt_def digits_value_def Let_def)
  ultimately show ?thesis by (rule update_version_order) simp_all
qed

text \<open>
  C29. In every run in which a download is only requested while none is running, the installer
  that applyAndRestart starts is the file at the download path, and the SHA-256 of that file's
  content is the one given with the last requested download. Nothing but the downloads writes to that
  path in the model.
\<close>

theorem update_installs_only_verified:
  assumes "serial_from hash path newInstaller es"
    and "StartSelfInstall p \<in> set (applyOut supported started err (run_steps (in_step hash path) newInstaller es))"
  shows "p = path \<and> (\<exists>version sha256 content.
           last_download es = Some (version, sha256)
         \<and> in_disk (run_steps (in_step hash path) newInstaller es) = Some content
         \<and> same_text (hash content) sha256)"
  using in_run_inv [OF assms(1)] assms(2) by (auto simp: in_inv_def applyOut_def split: if_splits)

theorem update_installs_only_verified_witness:
  "(\<exists>version sha256 content.
      last_download [DownloadEv ''2'' ''AB'', CurlWritesEv [171], FinishedEv 0 True [] True True] = Some (version, sha256)
    \<and> in_disk (run_steps (in_step (\<lambda>c. ''ab'') ''x'') newInstaller
        [DownloadEv ''2'' ''AB'', CurlWritesEv [171], FinishedEv 0 True [] True True]) = Some content
    \<and> same_text ''ab'' sha256)"
proof -
  let ?es = "[DownloadEv ''2'' ''AB'', CurlWritesEv [171], FinishedEv 0 True [] True True]"
  have same: "same_text ''ab'' ''AB''" by code_simp
  have "serial_from (\<lambda>c. ''ab'') ''x'' newInstaller ?es"
    by (simp add: newInstaller_def)
  moreover have "StartSelfInstall ''x'' \<in> set (applyOut True True [] (run_steps (in_step (\<lambda>c. ''ab'') ''x'') newInstaller ?es))"
    by (simp add: newInstaller_def in_download_def onDownloaded_def in_log_def applyOut_def same)
  ultimately show ?thesis
    using update_installs_only_verified [of "\<lambda>c. ''ab''" "''x''" ?es "''x''" True True "[]"] by blast
qed

text \<open>
  Without that restriction the check protects nothing: when a second download is requested
  while the first is running, the first one's completion marks the file as verified, the second
  keeps writing to the same path, and applyAndRestart then starts a file whatever its content.
\<close>

theorem update_overlap_installs_unverified:
  assumes "same_text (hash good) sha1" and "path \<noteq> []"
  shows "let s = run_steps (in_step hash path) newInstaller
                   [DownloadEv v1 sha1, CurlWritesEv good, DownloadEv v2 sha2, FinishedEv 0 True e1 True True,
                    CurlWritesEv bad]
         in in_disk s = Some bad \<and> StartSelfInstall path \<in> set (applyOut True started e2 s)"
  using assms by (simp add: newInstaller_def in_download_def onDownloaded_def in_log_def applyOut_def Let_def)

theorem update_overlap_installs_unverified_witness:
  "let s = run_steps (in_step (\<lambda>c. ''ab'') ''x'') newInstaller
             [DownloadEv ''1'' ''ab'', CurlWritesEv [1], DownloadEv ''2'' ''cd'', FinishedEv 0 True [] True True,
              CurlWritesEv [2]]
   in in_disk s = Some [2] \<and> StartSelfInstall ''x'' \<in> set (applyOut True True [] s)"
proof -
  have "same_text ((\<lambda>c. ''ab'') [1 :: 8 word]) ''ab''" by code_simp
  then show ?thesis by (rule update_overlap_installs_unverified) simp
qed

end
