(* ===== verification/Platform_Info.thy ===== *)
theory Platform_Info
  imports Qt_Strings
begin

text \<open>
  The pure part of src/infra/platform: platform_common.cpp (reading /proc/meminfo and /proc/cpuinfo and
  the low-resource test), with the structures of platform.h. QString::toLongLong is a parameter. The
  byte counts are mathematical integers: the product with 1024 stays within 64 bits for every
  amount of memory below eight exabytes.
\<close>

record SystemResources =
  res_valid :: bool
  availableRamBytes :: int
  totalRamBytes :: int
  availableDiskBytes :: int
  totalDiskBytes :: int

definition kLowRamBytes :: int where "kLowRamBytes = 64 * 1024 * 1024"
definition kLowDiskBytes :: int where "kLowDiskBytes = 20 * 1024 * 1024"

section \<open>Memory\<close>

definition memValue :: "(string \<Rightarrow> int) \<Rightarrow> string \<Rightarrow> int" where
  "memValue toLongLong rest = toLongLong (hd (split_char CHR '' '' (trimmed rest)))"

text \<open>One line: the available, free and total amounts seen so far, -1 when not seen.\<close>

definition memLine :: "(string \<Rightarrow> int) \<Rightarrow> string \<Rightarrow> int \<times> int \<times> int \<Rightarrow> int \<times> int \<times> int" where
  "memLine toLongLong line = (\<lambda>(availableKb, freeKb, totalKb).
     if starts_with line ''MemAvailable:'' then (memValue toLongLong (drop 13 line), freeKb, totalKb)
     else if starts_with line ''MemFree:'' then (availableKb, memValue toLongLong (drop 8 line), totalKb)
     else if starts_with line ''MemTotal:'' then (availableKb, freeKb, memValue toLongLong (drop 9 line))
     else (availableKb, freeKb, totalKb))"

text \<open>The pair of the two output parameters, or None for the result false.\<close>

definition parseMemInfo :: "(string \<Rightarrow> int) \<Rightarrow> string \<Rightarrow> (int \<times> int) option" where
  "parseMemInfo toLongLong content =
     (let (availableKb, freeKb, totalKb) =
        fold (memLine toLongLong) (split_char CHR 0x0A content) (- 1, - 1, - 1)
      in if totalKb < 0 \<or> availableKb < 0 \<and> freeKb < 0 then None
         else Some ((if availableKb \<ge> 0 then availableKb else freeKb) * 1024, totalKb * 1024))"

definition isResourceLow :: "SystemResources \<Rightarrow> bool" where
  "isResourceLow r =
     (if \<not> res_valid r then False
      else availableRamBytes r < kLowRamBytes \<or> availableDiskBytes r < kLowDiskBytes)"

section \<open>Processor\<close>

record cpu_fields =
  cpu_hardware :: string
  cpu_model :: string
  cpu_modelName :: string
  cpu_implementer :: string
  cpu_part :: string

definition cpuLine :: "string \<Rightarrow> cpu_fields \<Rightarrow> cpu_fields" where
  "cpuLine line f =
     (case indexOf '':'' line of
        None \<Rightarrow> f
      | Some colon \<Rightarrow>
          (let key = trimmed (take colon line); v = trimmed (drop (colon + 1) line)
           in if key = ''Hardware'' \<and> cpu_hardware f = [] then f\<lparr>cpu_hardware := v\<rparr>
              else if key = ''Model'' \<and> cpu_model f = [] then f\<lparr>cpu_model := v\<rparr>
              else if key = ''model name'' \<and> cpu_modelName f = [] then f\<lparr>cpu_modelName := v\<rparr>
              else if key = ''CPU implementer'' \<and> cpu_implementer f = [] then f\<lparr>cpu_implementer := v\<rparr>
              else if key = ''CPU part'' \<and> cpu_part f = [] then f\<lparr>cpu_part := v\<rparr>
              else f))"

text \<open>The two-argument form of QString::arg inserts its arguments literally.\<close>

definition parseCpuInfo :: "string \<Rightarrow> string" where
  "parseCpuInfo content =
     (let f = fold cpuLine (split_char CHR 0x0A content)
                \<lparr>cpu_hardware = [], cpu_model = [], cpu_modelName = [], cpu_implementer = [], cpu_part = []\<rparr>
      in if cpu_hardware f \<noteq> [] then cpu_hardware f
         else if cpu_model f \<noteq> [] then cpu_model f
         else if cpu_modelName f \<noteq> [] then cpu_modelName f
         else if cpu_implementer f \<noteq> [] \<or> cpu_part f \<noteq> []
           then ''unknown (implementer '' @ (if cpu_implementer f = [] then ''?'' else cpu_implementer f)
                @ '', part '' @ (if cpu_part f = [] then ''?'' else cpu_part f) @ '')''
         else ''unknown'')"

section \<open>Lemmas\<close>

text \<open>The header's promise that a chip name is never empty.\<close>

lemma parseCpuInfo_not_empty: "parseCpuInfo content \<noteq> []"
  by (simp add: parseCpuInfo_def Let_def)

lemma failed_query_not_low: "\<not> res_valid r \<Longrightarrow> \<not> isResourceLow r"
  by (simp add: isResourceLow_def)

lemma isResourceLow_monotone:
  "isResourceLow r \<Longrightarrow> availableRamBytes r' \<le> availableRamBytes r \<Longrightarrow>
     availableDiskBytes r' \<le> availableDiskBytes r \<Longrightarrow> res_valid r' \<Longrightarrow> isResourceLow r'"
  by (auto simp: isResourceLow_def split: if_splits)

text \<open>The kernel's format: a key, a colon, padding, a number and the unit.\<close>

definition mem_line :: "string \<times> nat \<times> nat \<Rightarrow> string" where
  "mem_line = (\<lambda>(key, pad, n). key @ '':'' @ replicate pad CHR '' '' @ dec_digits n @ '' kB'')"

lemma digit_chars: "c \<in> set (dec_digits n) \<Longrightarrow> 48 \<le> (of_char c :: nat) \<and> (of_char c :: nat) \<le> 57"
proof (induction n rule: dec_digits.induct)
  case (1 n)
  then show ?case
    by (subst (asm) dec_digits.simps) (auto split: if_splits)
qed

lemma dec_digits_not_Nil [simp]: "dec_digits n \<noteq> []"
  by (subst dec_digits.simps) simp

lemma digits_not_special: "c \<in> set (dec_digits n) \<Longrightarrow> \<not> is_space c \<and> c \<noteq> CHR '' '' \<and> c \<noteq> CHR 0x0A"
  using digit_chars [of c n] by (auto simp: is_space_def)

lemma memValue_digits:
  "memValue toLongLong (replicate pad CHR '' '' @ dec_digits n @ '' kB'') = toLongLong (dec_digits n)"
proof -
  have a: "dropWhile is_space (replicate pad CHR '' '' @ dec_digits n @ '' kB'') = dec_digits n @ '' kB''"
  proof (induction pad)
    case 0
    obtain d ds where d: "dec_digits n = d # ds" by (cases "dec_digits n") auto
    then show ?case using digits_not_special [of d n] by simp
  qed (simp add: is_space_def)
  have "trimmed (replicate pad CHR '' '' @ dec_digits n @ '' kB'') = dec_digits n @ '' kB''"
    unfolding trimmed_def a by (simp add: is_space_def)
  moreover have "split_char CHR '' '' (dec_digits n @ '' kB'') = dec_digits n # [''kB'']"
    using split_char_append [of "CHR '' ''" "dec_digits n" "''kB''"] digits_not_special [of _ n]
    by (auto simp: split_char_no_sep)
  ultimately show ?thesis by (simp add: memValue_def)
qed

lemma starts_with_key:
  "CHR '':'' \<notin> set k \<Longrightarrow> CHR '':'' \<notin> set key \<Longrightarrow> starts_with (k @ '':'' @ r) (key @ '':'') \<longleftrightarrow> k = key"
proof (induction k arbitrary: key)
  case Nil
  then show ?case by (cases key) (auto simp: starts_with_def)
next
  case (Cons c k)
  then show ?case by (cases key) (auto simp: starts_with_def)
qed

lemma memLine_entry:
  assumes "CHR '':'' \<notin> set k"
  shows "memLine toLongLong (mem_line (k, pad, n)) (a, f, t) =
     (if k = ''MemAvailable'' then toLongLong (dec_digits n) else a,
      if k = ''MemFree'' then toLongLong (dec_digits n) else f,
      if k = ''MemTotal'' then toLongLong (dec_digits n) else t)"
  using assms starts_with_key [of k "''MemAvailable''"] starts_with_key [of k "''MemFree''"]
    starts_with_key [of k "''MemTotal''"]
  by (auto simp: memLine_def mem_line_def memValue_digits)

definition mem_entry :: "(string \<times> nat \<times> nat) list \<Rightarrow> string \<Rightarrow> nat option" where
  "mem_entry es k = map_of (map (\<lambda>(k, pad, n). (k, n)) es) k"

lemma mem_entry_Cons: "mem_entry ((k, pad, n) # es) k' = (if k = k' then Some n else mem_entry es k')"
  by (simp add: mem_entry_def)

lemma mem_entry_None: "k \<notin> fst ` set es \<Longrightarrow> mem_entry es k = None"
  by (auto simp: mem_entry_def map_of_eq_None_iff image_iff)

lemma fold_memLine:
  assumes num: "\<And>n. toLongLong (dec_digits n) = int n"
  shows "\<forall>e \<in> set es. CHR '':'' \<notin> set (fst e) \<Longrightarrow> distinct (map fst es) \<Longrightarrow>
     fold (memLine toLongLong) (map mem_line es) (a, f, t) =
       (case_option a int (mem_entry es ''MemAvailable''), case_option f int (mem_entry es ''MemFree''),
        case_option t int (mem_entry es ''MemTotal''))"
proof (induction es arbitrary: a f t)
  case Nil
  then show ?case by (simp add: mem_entry_def)
next
  case (Cons e es)
  obtain k pad n where e: "e = (k, pad, n)" by (cases e) auto
  have "mem_entry es k = None" using Cons.prems e by (intro mem_entry_None) auto
  then show ?case using Cons.IH Cons.prems e
    by (auto simp: memLine_entry num mem_entry_Cons)
qed

text \<open>
  Reading back what the kernel prints: the available amount, or the free one on kernels without it,
  and the total, in bytes.
\<close>

theorem meminfo_roundtrip:
  assumes "\<And>n. toLongLong (dec_digits n) = int n"
    and "es \<noteq> []" and "distinct (map fst es)"
    and keys: "\<forall>e \<in> set es. CHR '':'' \<notin> set (fst e) \<and> CHR 0x0A \<notin> set (fst e)"
  shows "parseMemInfo toLongLong (unlines_with CHR 0x0A (map mem_line es)) =
     (case mem_entry es ''MemTotal'' of
        None \<Rightarrow> None
      | Some t \<Rightarrow>
          (case (mem_entry es ''MemAvailable'', mem_entry es ''MemFree'') of
             (Some a, _) \<Rightarrow> Some (int a * 1024, int t * 1024)
           | (None, Some f) \<Rightarrow> Some (int f * 1024, int t * 1024)
           | (None, None) \<Rightarrow> None))"
proof -
  have "CHR 0x0A \<notin> set (mem_line e)" if "e \<in> set es" for e
    using keys that digits_not_special by (cases e) (fastforce simp: mem_line_def)
  then have "split_char CHR 0x0A (unlines_with CHR 0x0A (map mem_line es)) = map mem_line es"
    using assms(2) by (intro split_unlines) auto
  moreover have "fold (memLine toLongLong) (map mem_line es) (- 1, - 1, - 1) =
       (case_option (- 1) int (mem_entry es ''MemAvailable''), case_option (- 1) int (mem_entry es ''MemFree''),
        case_option (- 1) int (mem_entry es ''MemTotal''))"
    using fold_memLine [OF assms(1)] assms(3) keys by auto
  ultimately show ?thesis by (simp add: parseMemInfo_def split: option.splits)
qed

end
