(* ===== verification/Platform_System.thy ===== *)
theory Platform_System
  imports Platform_Info
begin

text \<open>
  The system-dependent half of src/infra/platform: platform\_unix.cpp and platform\_win.cpp. The
  operations of the operating system and of the GUI framework on files and processes are a
  parameter (the records unix\_files and plain functions); what is relied on of them is the
  predicate files\_behave. Installing over the running program keeps the list of the states the
  file system goes through, because what matters is what is found at the program's path at any moment.
\<close>

section \<open>Finding curl\<close>

text \<open>The first candidate that exists; on Windows only the copy in System32.\<close>

definition curlExecutablePath_unix :: "(string \<Rightarrow> bool) \<Rightarrow> string" where
  "curlExecutablePath_unix exists =
     (case find exists [''/usr/bin/curl'', ''/bin/curl'', ''/usr/local/bin/curl''] of
        Some candidate \<Rightarrow> candidate
      | None \<Rightarrow> [])"

definition curlExecutablePath_win :: "(string \<Rightarrow> bool) \<Rightarrow> (string \<Rightarrow> string \<Rightarrow> string) \<Rightarrow> string \<Rightarrow> string" where
  "curlExecutablePath_win exists filePath systemRoot =
     (if systemRoot = [] then []
      else (let path = filePath systemRoot ''System32/curl.exe''
            in if exists path then path else []))"

definition installerFileName_unix :: "string \<Rightarrow> string" where
  "installerFileName_unix applicationName = applicationName @ ''-update''"

definition installerFileName_win :: "string \<Rightarrow> string" where
  "installerFileName_win applicationName = applicationName @ ''-setup.exe''"

definition supportsSelfUpdate :: bool where "supportsSelfUpdate = True"

section \<open>Installing an update\<close>

text \<open>
  QFile::remove, QFile::copy, setting the execute permissions, rename (the reason when it fails) and
  QProcess::startDetached, with what they leave; fs\_read is the content of a path.
\<close>

record 'fs unix_files =
  fs_read :: "'fs \<Rightarrow> string \<Rightarrow> bytes option"
  fs_remove :: "string \<Rightarrow> 'fs \<Rightarrow> 'fs"
  fs_copy :: "string \<Rightarrow> string \<Rightarrow> 'fs \<Rightarrow> bool \<times> 'fs"
  fs_makeExecutable :: "string \<Rightarrow> 'fs \<Rightarrow> bool \<times> 'fs"
  fs_rename :: "string \<Rightarrow> string \<Rightarrow> 'fs \<Rightarrow> string option \<times> 'fs"
  fs_startDetached :: "string \<Rightarrow> 'fs \<Rightarrow> bool \<times> 'fs"

text \<open>The result (the error message, or None for success) and the states passed through, in order.\<close>

definition startSelfInstall_unix ::
  "'fs unix_files \<Rightarrow> string \<Rightarrow> string \<Rightarrow> 'fs \<Rightarrow> string option \<times> 'fs list" where
  "startSelfInstall_unix ops downloadedPath currentExecutablePath s0 =
     (let stagedPath = currentExecutablePath @ ''.new'';
          s1 = fs_remove ops stagedPath s0;
          (copied, s2) = fs_copy ops downloadedPath stagedPath s1
      in if \<not> copied
         then (Some (''could not stage the new binary next to '' @ currentExecutablePath), [s0, s1, s2])
         else (let (permitted, s3) = fs_makeExecutable ops stagedPath s2
               in if \<not> permitted
                  then (Some ''could not make the staged binary executable'',
                        [s0, s1, s2, s3, fs_remove ops stagedPath s3])
                  else (case fs_rename ops stagedPath currentExecutablePath s3 of
                          (Some reason, s4) \<Rightarrow>
                            (Some (''could not replace '' @ currentExecutablePath @ '': '' @ reason),
                             [s0, s1, s2, s3, s4, fs_remove ops stagedPath s4])
                        | (None, s4) \<Rightarrow>
                            (let (started, s5) = fs_startDetached ops currentExecutablePath s4
                             in (if started then None else Some ''new binary installed but could not be relaunched'',
                                 [s0, s1, s2, s3, s4, s5])))))"

definition startSelfInstall_win :: "(string \<Rightarrow> string list \<Rightarrow> bool) \<Rightarrow> string \<Rightarrow> string option" where
  "startSelfInstall_win startDetached downloadedPath =
     (if startDetached downloadedPath [''/SILENT'', ''/NORESTART'', ''/relaunch=1''] then None
      else Some ''installer could not be started'')"

text \<open>
  What is relied on: an operation on one path leaves the content of the others alone, a copy that
  succeeds is complete, changing permissions and starting a program change no content, and a rename
  happens completely or not at all.
\<close>

definition files_behave :: "'fs unix_files \<Rightarrow> bool" where
  "files_behave ops \<longleftrightarrow>
     (\<forall>p q s. q \<noteq> p \<longrightarrow> fs_read ops (fs_remove ops p s) q = fs_read ops s q)
   \<and> (\<forall>a b q s. q \<noteq> b \<longrightarrow> fs_read ops (snd (fs_copy ops a b s)) q = fs_read ops s q)
   \<and> (\<forall>a b s. fst (fs_copy ops a b s) \<longrightarrow> fs_read ops s a \<noteq> None
        \<and> fs_read ops (snd (fs_copy ops a b s)) b = fs_read ops s a)
   \<and> (\<forall>p q s. fs_read ops (snd (fs_makeExecutable ops p s)) q = fs_read ops s q)
   \<and> (\<forall>a b s. fst (fs_rename ops a b s) \<noteq> None \<longrightarrow> (\<forall>q. fs_read ops (snd (fs_rename ops a b s)) q = fs_read ops s q))
   \<and> (\<forall>a b s. fst (fs_rename ops a b s) = None \<longrightarrow> fs_read ops (snd (fs_rename ops a b s)) b = fs_read ops s a)
   \<and> (\<forall>p q s. fs_read ops (snd (fs_startDetached ops p s)) q = fs_read ops s q)"

lemma files_behaveD:
  assumes "files_behave ops"
  shows "q \<noteq> p \<Longrightarrow> fs_read ops (fs_remove ops p s) q = fs_read ops s q"
    and "fs_copy ops a b s = (ok, s') \<Longrightarrow> q \<noteq> b \<Longrightarrow> fs_read ops s' q = fs_read ops s q"
    and "fs_copy ops a b s = (True, s') \<Longrightarrow> fs_read ops s' b = fs_read ops s a \<and> fs_read ops s a \<noteq> None"
    and "fs_makeExecutable ops p s = (ok, s') \<Longrightarrow> fs_read ops s' q = fs_read ops s q"
    and "fs_rename ops a b s = (Some reason, s') \<Longrightarrow> fs_read ops s' q = fs_read ops s q"
    and "fs_rename ops a b s = (None, s') \<Longrightarrow> fs_read ops s' b = fs_read ops s a"
    and "fs_startDetached ops p s = (ok, s') \<Longrightarrow> fs_read ops s' q = fs_read ops s q"
  using assms unfolding files_behave_def by (metis fst_conv snd_conv option.distinct(1))+

section \<open>Resources and identity\<close>

text \<open>
  The memory file when it can be opened; the free and total blocks and the block size when statvfs
  succeeds. The products are 64-bit machine products, read back as signed numbers.
\<close>

definition checkSystemResources_unix ::
  "(string \<Rightarrow> int) \<Rightarrow> string option \<Rightarrow> (string \<Rightarrow> (u64 \<times> u64 \<times> u64) option) \<Rightarrow> string \<Rightarrow> SystemResources" where
  "checkSystemResources_unix toLongLong meminfo statvfs logDirectory =
     (let r = \<lparr>res_valid = False, availableRamBytes = 0, totalRamBytes = 0, availableDiskBytes = 0, totalDiskBytes = 0\<rparr>;
          r = (case meminfo of
                 None \<Rightarrow> r
               | Some content \<Rightarrow>
                   (case parseMemInfo toLongLong content of
                      None \<Rightarrow> r
                    | Some (a, t) \<Rightarrow> r\<lparr>res_valid := True, availableRamBytes := a, totalRamBytes := t\<rparr>));
          path = (if logDirectory = [] then ''.'' else logDirectory)
      in case statvfs path of
           Some (bavail, blocks, frsize) \<Rightarrow>
             r\<lparr>availableDiskBytes := sint (bavail * frsize), totalDiskBytes := sint (blocks * frsize)\<rparr>
         | None \<Rightarrow> r\<lparr>res_valid := False\<rparr>)"

definition checkSystemResources_win ::
  "(u64 \<times> u64) option \<Rightarrow> (string \<Rightarrow> (u64 \<times> u64) option) \<Rightarrow> string \<Rightarrow> SystemResources" where
  "checkSystemResources_win memoryStatus diskFreeSpace logDirectory =
     (let r = \<lparr>res_valid = False, availableRamBytes = 0, totalRamBytes = 0, availableDiskBytes = 0, totalDiskBytes = 0\<rparr>;
          r = (case memoryStatus of
                 None \<Rightarrow> r
               | Some (a, t) \<Rightarrow> r\<lparr>availableRamBytes := sint a, totalRamBytes := sint t, res_valid := True\<rparr>);
          path = (if logDirectory = [] then ''.'' else logDirectory)
      in case diskFreeSpace path of
           Some (freeBytes, totalBytes) \<Rightarrow>
             r\<lparr>availableDiskBytes := sint freeBytes, totalDiskBytes := sint totalBytes\<rparr>
         | None \<Rightarrow> r\<lparr>res_valid := False\<rparr>)"

record SystemInfo =
  chipName :: string
  architecture :: string
  osVersion :: string

text \<open>The two files, when they can be opened, and the framework's answers.\<close>

definition querySystemInfo_unix :: "string option \<Rightarrow> string option \<Rightarrow> string \<Rightarrow> string \<Rightarrow> SystemInfo" where
  "querySystemInfo_unix deviceTreeModel cpuinfo arch os =
     (let chip = (case deviceTreeModel of
                    None \<Rightarrow> []
                  | Some content \<Rightarrow> trimmed (filter (\<lambda>c. c \<noteq> CHR 0x00) content));
          chip = (if chip = []
                  then (case cpuinfo of Some content \<Rightarrow> parseCpuInfo content | None \<Rightarrow> ''unknown'')
                  else chip)
      in \<lparr>chipName = chip, architecture = arch, osVersion = os\<rparr>)"

definition querySystemInfo_win :: "string \<Rightarrow> string \<Rightarrow> string \<Rightarrow> SystemInfo" where
  "querySystemInfo_win processorName arch os =
     \<lparr>chipName = (if processorName = [] then ''unknown'' else processorName), architecture = arch, osVersion = os\<rparr>"

section \<open>Crashes\<close>

text \<open>The signal handlers of the process, its log and whether it is dead.\<close>

datatype sig_handler = SIG_DFL | CrashHandler

record process =
  p_handlers :: "nat \<Rightarrow> sig_handler"
  p_log :: "string list"
  p_killedBy :: "nat option"

definition faultSignals :: "nat list" where
  "faultSignals = [11, 6, 8, 4]"

definition installCrashHandler_unix :: "process \<Rightarrow> process" where
  "installCrashHandler_unix p = p\<lparr>p_handlers := fold (\<lambda>n h. h(n := CrashHandler)) faultSignals (p_handlers p)\<rparr>"

text \<open>
  A signal is delivered: the default action kills the process; the crash handler writes a line, restores the
  default action and raises the signal again.
\<close>

function deliverSignal :: "nat \<Rightarrow> process \<Rightarrow> process" where
  "deliverSignal n p =
     (case p_handlers p n of
        SIG_DFL \<Rightarrow> p\<lparr>p_killedBy := Some n\<rparr>
      | CrashHandler \<Rightarrow>
          deliverSignal n (p\<lparr>p_log := p_log p @ [''fatal signal '' @ dec_digits n],
                             p_handlers := (p_handlers p)(n := SIG_DFL)\<rparr>))"
  by pat_completeness auto
termination
  by (relation "measure (\<lambda>(n, p). if p_handlers p n = CrashHandler then 1 else 0)") auto

declare deliverSignal.simps [simp del]

text \<open>
  On Windows the process has one filter for unhandled exceptions. The code and the address of the exception record are None when
  there is no record; hex prints in base 16. The filter lets the search for a handler go on (True is EXCEPTION\_CONTINUE\_SEARCH).
\<close>

record win_process =
  wp_filter :: bool
  wp_log :: "string list"

definition crashHandler_win :: "(nat \<Rightarrow> string) \<Rightarrow> (u32 \<times> u64) option \<Rightarrow> win_process \<Rightarrow> bool \<times> win_process" where
  "crashHandler_win hex info p =
     (True, case info of
        None \<Rightarrow> p
      | Some (code, address) \<Rightarrow>
          p\<lparr>wp_log := wp_log p @ [''unhandled exception; code=0x'' @ hex (unat code) @ ''; address=0x'' @ hex (unat address)]\<rparr>)"

definition installCrashHandler_win :: "win_process \<Rightarrow> win_process" where
  "installCrashHandler_win p = p\<lparr>wp_filter := True\<rparr>"

section \<open>Lemmas\<close>

lemma curl_unix_exists:
  "curlExecutablePath_unix exists \<noteq> [] \<Longrightarrow> exists (curlExecutablePath_unix exists)"
  by (auto simp: curlExecutablePath_unix_def split: option.splits simp: find_Some_iff)

section \<open>Properties\<close>

text \<open>
  C30. Replacing the program is atomic: whatever step of the installation fails, and at every moment
  in between, the program's path holds either the old program or the complete downloaded one; success means
  it holds the new one; every failure comes with a message, and except for the failure to
  relaunch it leaves the old program in place.
\<close>
theorem self_install_is_atomic:
  assumes "files_behave ops" and "downloadedPath \<noteq> currentExecutablePath @ ''.new''"
    and "startSelfInstall_unix ops downloadedPath currentExecutablePath s0 = (outcome, states)"
  shows "(\<forall>s \<in> set states. fs_read ops s currentExecutablePath
            \<in> {fs_read ops s0 currentExecutablePath, fs_read ops s0 downloadedPath})
    \<and> (outcome = None \<longrightarrow> fs_read ops (last states) currentExecutablePath = fs_read ops s0 downloadedPath
          \<and> fs_read ops s0 downloadedPath \<noteq> None)
    \<and> (outcome \<noteq> None \<longrightarrow> the outcome \<noteq> []
          \<and> (outcome = Some ''new binary installed but could not be relaunched''
             \<or> fs_read ops (last states) currentExecutablePath = fs_read ops s0 currentExecutablePath))"
proof -
  let ?staged = "currentExecutablePath @ ''.new''"
  note fb = files_behaveD [OF assms(1)]
  define s1 where "s1 = fs_remove ops ?staged s0"
  obtain copied s2 where c: "fs_copy ops downloadedPath ?staged s1 = (copied, s2)" by fastforce
  obtain permitted s3 where x: "fs_makeExecutable ops ?staged s2 = (permitted, s3)" by fastforce
  obtain why s4 where r: "fs_rename ops ?staged currentExecutablePath s3 = (why, s4)" by fastforce
  obtain started s5 where d: "fs_startDetached ops currentExecutablePath s4 = (started, s5)" by fastforce
  have cur: "currentExecutablePath \<noteq> ?staged" by simp
  have r1: "fs_read ops s1 currentExecutablePath = fs_read ops s0 currentExecutablePath"
      "fs_read ops s1 downloadedPath = fs_read ops s0 downloadedPath"
    using fb(1) [OF cur] fb(1) [OF assms(2)] by (simp_all add: s1_def)
  have r2: "fs_read ops s2 currentExecutablePath = fs_read ops s0 currentExecutablePath"
    using fb(2) [OF c cur] r1 by simp
  have r3: "fs_read ops s3 currentExecutablePath = fs_read ops s0 currentExecutablePath"
    using fb(4) [OF x] r2 by simp
  have staged: "fs_read ops s3 ?staged = fs_read ops s0 downloadedPath \<and> fs_read ops s0 downloadedPath \<noteq> None" if copied
    using fb(3) [of downloadedPath ?staged s1 s2] fb(4) [OF x] c that r1 by simp
  have rm: "fs_read ops (fs_remove ops ?staged s) currentExecutablePath = fs_read ops s currentExecutablePath" for s
    using fb(1) [OF cur] .
  have r4: "fs_read ops s4 currentExecutablePath = fs_read ops s0 currentExecutablePath" if "why \<noteq> None"
    using fb(5) [of ?staged currentExecutablePath s3] r that r3 by auto
  have r4': "fs_read ops s4 currentExecutablePath = fs_read ops s0 downloadedPath" if "why = None" copied
    using fb(6) [of ?staged currentExecutablePath s3 s4] r that staged by simp
  have r5: "fs_read ops s5 currentExecutablePath = fs_read ops s4 currentExecutablePath"
    using fb(7) [OF d] .
  note run = assms(3) [unfolded startSelfInstall_unix_def Let_def, folded s1_def, unfolded c prod.case x r d]
  consider "\<not> copied" | "copied" "\<not> permitted" | reason where "copied" "permitted" "why = Some reason"
    | "copied" "permitted" "why = None" by blast
  then show ?thesis
  proof cases
    case 1
    then have "outcome = Some (''could not stage the new binary next to '' @ currentExecutablePath)" "states = [s0, s1, s2]"
      using run by simp_all
    then show ?thesis using r1 r2 by simp
  next
    case 2
    then have "outcome = Some ''could not make the staged binary executable''" "states = [s0, s1, s2, s3, fs_remove ops ?staged s3]"
      using run by simp_all
    then show ?thesis using r1 r2 r3 rm by simp
  next
    case 3
    then have "outcome = Some (''could not replace '' @ currentExecutablePath @ '': '' @ reason)"
      "states = [s0, s1, s2, s3, s4, fs_remove ops ?staged s4]" using run by simp_all
    then show ?thesis using r1 r2 r3 r4 rm 3 by simp
  next
    case 4
    then have "outcome = (if started then None else Some ''new binary installed but could not be relaunched'')"
      "states = [s0, s1, s2, s3, s4, s5]" using run by simp_all
    then show ?thesis using r1 r2 r3 r4' [OF 4(3,1)] r5 staged [OF 4(1)] by simp
  qed
qed

text \<open>A file system that is a map.\<close>

definition map_files :: "(string \<rightharpoonup> bytes) unix_files" where
  "map_files = \<lparr>fs_read = (\<lambda>s p. s p), fs_remove = (\<lambda>p s. s(p := None)),
     fs_copy = (\<lambda>a b s. case s a of None \<Rightarrow> (False, s) | Some c \<Rightarrow> if s b = None then (True, s(b \<mapsto> c)) else (False, s)),
     fs_makeExecutable = (\<lambda>p s. (True, s)),
     fs_rename = (\<lambda>a b s. case s a of None \<Rightarrow> (Some ''No such file'', s) | Some c \<Rightarrow> (None, (s(a := None))(b \<mapsto> c))),
     fs_startDetached = (\<lambda>p s. (s p \<noteq> None, s))\<rparr>"

lemma map_files_behave: "files_behave map_files"
  by (auto simp: files_behave_def map_files_def split: option.splits if_splits)

theorem self_install_is_atomic_witness:
  "fst (startSelfInstall_unix map_files ''dl'' ''app'' [''app'' \<mapsto> [1], ''dl'' \<mapsto> [2, 3]]) = None
   \<and> last (snd (startSelfInstall_unix map_files ''dl'' ''app'' [''app'' \<mapsto> [1], ''dl'' \<mapsto> [2, 3]])) ''app'' = Some [2, 3]"
proof -
  let ?s = "[''app'' \<mapsto> [1], ''dl'' \<mapsto> [2, 3]] :: string \<rightharpoonup> bytes"
  obtain o' sts where e: "startSelfInstall_unix map_files ''dl'' ''app'' ?s = (o', sts)" by fastforce
  have "o' = None" using e by (auto simp: startSelfInstall_unix_def map_files_def Let_def)
  moreover have "fs_read map_files (last sts) ''app'' = fs_read map_files ?s ''dl''"
    using self_install_is_atomic [OF map_files_behave _ e] \<open>o' = None\<close> by simp
  ultimately show ?thesis using e by (simp add: map_files_def)
qed

text \<open>
  The system report is never blank and never falsely alarming: on both platforms the chip name is
  non-empty, whatever could be read; the resources are valid exactly when both the memory and the disk
  query succeeded, and a failed query is never reported as low.
\<close>
theorem system_report_is_sound:
  "chipName (querySystemInfo_unix model cpuinfo arch os) \<noteq> [] \<and> chipName (querySystemInfo_win name arch os) \<noteq> []
   \<and> res_valid (checkSystemResources_unix toLongLong meminfo statvfs dir)
       = ((\<exists>content. meminfo = Some content \<and> parseMemInfo toLongLong content \<noteq> None)
          \<and> statvfs (if dir = [] then ''.'' else dir) \<noteq> None)
   \<and> res_valid (checkSystemResources_win memory disk dir)
       = (memory \<noteq> None \<and> disk (if dir = [] then ''.'' else dir) \<noteq> None)
   \<and> \<not> (isResourceLow (checkSystemResources_unix toLongLong meminfo statvfs dir)
        \<and> (meminfo = None \<or> statvfs (if dir = [] then ''.'' else dir) = None))"
  by (simp add: querySystemInfo_unix_def querySystemInfo_win_def checkSystemResources_unix_def
      checkSystemResources_win_def isResourceLow_def parseCpuInfo_not_empty Let_def split: option.split prod.split)

text \<open>
  An abnormal death leaves evidence: with the handler installed, each of the four fault
  signals writes exactly one line and then kills the process by that signal, in particular the
  handler is not entered a second time; other signals and the handlers of the other signals are untouched.
\<close>
theorem crash_leaves_one_line:
  "let p = installCrashHandler_unix q
   in p_log (deliverSignal n p) = p_log q @ (if n \<in> set faultSignals \<or> p_handlers q n = CrashHandler
                                             then [''fatal signal '' @ dec_digits n] else [])
    \<and> p_killedBy (deliverSignal n p) = Some n"
  by (cases "p_handlers q n")
     (auto simp: installCrashHandler_unix_def faultSignals_def deliverSignal.simps Let_def)

end
