(* ===== verification/Ui_Style.thy ===== *)
theory Ui_Style
  imports App_Settings
begin

text \<open>
  The look of the application: src/ui/theme/thememanager.\{h,cpp\} and
  src/ui/widgets/table\_style.\{h,cpp\}. The compiled-in resources are a parameter (the content of a path, None when it
  cannot be opened); a widget is the record of the properties the code sets.
\<close>

section \<open>ThemeManager\<close>

datatype theme = Light | Dark

record theme_manager =
  s_current :: theme
  tm_styleSheet :: string
  tm_errors :: "string list"

definition themePath :: "theme \<Rightarrow> string" where
  "themePath t = (if t = Dark then '':/styles/theme_dark.qss'' else '':/styles/theme_light.qss'')"

definition theme_apply :: "(string \<Rightarrow> string option) \<Rightarrow> theme \<Rightarrow> theme_manager \<Rightarrow> bool \<times> theme_manager" where
  "theme_apply resources t m =
     (let path = themePath t
      in case resources path of
           None \<Rightarrow> (False, m\<lparr>tm_errors := tm_errors m @ [''theme stylesheet could not be opened: '' @ path
                              @ '' (is the .qrc compiled and the resource initialised?)'']\<rparr>)
         | Some sheet \<Rightarrow>
             if sheet = [] then (False, m\<lparr>tm_errors := tm_errors m @ [''theme stylesheet is empty: '' @ path]\<rparr>)
             else (True, m\<lparr>tm_styleSheet := sheet, s_current := t\<rparr>))"

definition theme_current :: "theme_manager \<Rightarrow> theme" where
  "theme_current m = s_current m"

definition theme_save :: "theme \<Rightarrow> settings \<Rightarrow> settings" where
  "theme_save t st = app_setTheme (if t = Dark then ''dark'' else ''light'') st"

definition theme_restore :: "setting_ops \<Rightarrow> settings \<Rightarrow> theme" where
  "theme_restore sops st = (if app_theme sops st = ''dark'' then Dark else Light)"

section \<open>Tables and buttons\<close>

record table_item =
  it_text :: string
  it_alignRight :: bool

record table_widget =
  tw_columns :: nat
  tw_cells :: "table_item option list list"
  tw_alternatingRowColors :: bool
  tw_selectRows :: bool
  tw_showGrid :: bool
  tw_wordWrap :: bool
  tw_verticalHeaderVisible :: bool
  tw_verticalSectionSize :: nat
  tw_highlightSections :: bool
  tw_stretchLastSection :: bool
  tw_horizontalHeaderHeight :: nat
  tw_font :: "string \<times> nat"

text \<open>A null pointer is None.\<close>

definition tuneTable :: "table_widget option \<Rightarrow> table_widget option" where
  "tuneTable table = map_option (\<lambda>t.
     t\<lparr>tw_alternatingRowColors := True, tw_selectRows := True, tw_showGrid := False, tw_wordWrap := False,
       tw_verticalHeaderVisible := False, tw_verticalSectionSize := 26, tw_highlightSections := False,
       tw_stretchLastSection := True, tw_horizontalHeaderHeight := 30, tw_font := (''Consolas'', 9)\<rparr>) table"

definition alignItem :: "nat \<Rightarrow> table_item option list \<Rightarrow> table_item option list" where
  "alignItem column row = row[column := map_option (\<lambda>i. i\<lparr>it_alignRight := True\<rparr>) (row ! column)]"

definition alignNumericColumn :: "table_widget option \<Rightarrow> int \<Rightarrow> table_widget option" where
  "alignNumericColumn table column =
     (case table of
        None \<Rightarrow> None
      | Some t \<Rightarrow>
          if column < 0 \<or> column \<ge> int (tw_columns t) then Some t
          else Some (t\<lparr>tw_cells := map (alignItem (nat column)) (tw_cells t)\<rparr>))"

record push_button =
  btn_fixedSize :: bool
  btn_minimumWidth :: nat
  btn_height :: nat
  btn_fixedProperty :: bool
  btn_accentProperty :: bool
  btn_polished :: nat

definition repolish :: "push_button option \<Rightarrow> push_button option" where
  "repolish button = map_option (\<lambda>b. b\<lparr>btn_polished := btn_polished b + 1\<rparr>) button"

definition makeBarButton :: "push_button option \<Rightarrow> bool \<Rightarrow> push_button option" where
  "makeBarButton button accent =
     (case button of
        None \<Rightarrow> None
      | Some b \<Rightarrow>
          (let b = b\<lparr>btn_fixedSize := True, btn_minimumWidth := 96, btn_height := 28, btn_fixedProperty := True\<rparr>;
               b = (if accent then b\<lparr>btn_accentProperty := True\<rparr> else b)
           in repolish (Some b)))"

section \<open>The hint of an empty table\<close>

text \<open>
  The relay, the hint label it guards (None once Qt has destroyed it), the viewport (None while the
  table is torn down) and the number of rows of the model.
\<close>

record hint_label =
  hl_text :: string
  hl_geometry :: "nat \<times> nat"
  hl_visible :: bool

record hint_relay =
  m_hint :: "hint_label option"
  m_viewport :: "(nat \<times> nat) option"
  m_rows :: nat

definition sync :: "hint_relay \<Rightarrow> hint_relay" where
  "sync r =
     (case m_hint r of
        None \<Rightarrow> r
      | Some h \<Rightarrow>
          (case m_viewport r of
             None \<Rightarrow> r
           | Some rect \<Rightarrow> r\<lparr>m_hint := Some (h\<lparr>hl_geometry := rect, hl_visible := (m_rows r = 0)\<rparr>)\<rparr>))"

definition attachEmptyHint :: "string \<Rightarrow> nat \<times> nat \<Rightarrow> nat \<Rightarrow> hint_relay" where
  "attachEmptyHint txt rect rows =
     sync \<lparr>m_hint = Some \<lparr>hl_text = txt, hl_geometry = (0, 0), hl_visible = True\<rparr>, m_viewport = Some rect, m_rows = rows\<rparr>"

text \<open>The model's signals, a resize of the viewport, and the two destructions.\<close>

datatype hint_event =
    RowsInserted nat | RowsRemoved nat | ModelReset nat | ViewportResized "nat \<times> nat" | HintDestroyed | ViewportDestroyed

fun hint_step :: "hint_relay \<Rightarrow> hint_event \<Rightarrow> hint_relay" where
  "hint_step r (RowsInserted n) = sync (r\<lparr>m_rows := m_rows r + n\<rparr>)"
| "hint_step r (RowsRemoved n) = sync (r\<lparr>m_rows := m_rows r - n\<rparr>)"
| "hint_step r (ModelReset n) = sync (r\<lparr>m_rows := n\<rparr>)"
| "hint_step r (ViewportResized rect) =
     (case m_viewport r of None \<Rightarrow> r | Some _ \<Rightarrow> sync (r\<lparr>m_viewport := Some rect\<rparr>))"
| "hint_step r HintDestroyed = r\<lparr>m_hint := None\<rparr>"
| "hint_step r ViewportDestroyed = r\<lparr>m_viewport := None, m_hint := None\<rparr>"

section \<open>Invariant\<close>

definition hint_ok :: "hint_relay \<Rightarrow> bool" where
  "hint_ok r \<longleftrightarrow> (\<forall>h. m_hint r = Some h \<longrightarrow> m_viewport r \<noteq> None
     \<and> hl_visible h = (m_rows r = 0) \<and> Some (hl_geometry h) = m_viewport r)"

lemma sync_ok: "m_hint r = None \<or> m_viewport r \<noteq> None \<Longrightarrow> hint_ok (sync r)"
  by (auto simp: sync_def hint_ok_def split: option.splits)

lemma hint_step_ok: "hint_ok r \<Longrightarrow> hint_ok (hint_step r e)"
  by (cases e) (auto intro!: sync_ok simp: hint_ok_def [of r] split: option.split, auto simp: hint_ok_def)

interpretation hint: invariant_machine hint_step hint_ok
  by unfold_locales (rule hint_step_ok)

section \<open>Properties\<close>

text \<open>
  The hint tells the truth: after any changes of the rows and of the size, and through the
  destruction of the widgets in either order, as long as the hint exists it is visible exactly when the table
  has no rows and covers the viewport.
\<close>
theorem empty_hint_is_accurate:
  "let r = run_steps hint_step (attachEmptyHint txt rect rows) es
   in \<forall>h. m_hint r = Some h \<longrightarrow> hl_visible h = (m_rows r = 0) \<and> Some (hl_geometry h) = m_viewport r"
proof -
  have "hint_ok (attachEmptyHint txt rect rows)" unfolding attachEmptyHint_def by (rule sync_ok) simp
  from hint.run_inv [OF this, of es] show ?thesis by (simp add: hint_ok_def Let_def)
qed

theorem empty_hint_is_accurate_witness:
  "hl_visible (the (m_hint (run_steps hint_step (attachEmptyHint ''none'' (10, 10) 2) [RowsRemoved 2])))"
  using empty_hint_is_accurate [of "''none''" "(10, 10)" 2 "[RowsRemoved 2]"] by (simp add: attachEmptyHint_def sync_def)

text \<open>
  The chosen theme survives a restart, and a theme that cannot be loaded changes nothing but
  the log: restoring after saving gives the saved theme; applying either installs a non-empty
  sheet of that theme and makes it current, or leaves the sheet and the current theme alone and
  writes exactly one error.
\<close>
theorem theme_is_kept:
  assumes "\<And>x. to_string sops (SString x) = x"
  shows "theme_restore sops (theme_save t st) = t
    \<and> (case theme_apply resources t m of
         (True, m') \<Rightarrow> theme_current m' = t \<and> resources (themePath t) = Some (tm_styleSheet m') \<and> tm_styleSheet m' \<noteq> []
           \<and> tm_errors m' = tm_errors m
       | (False, m') \<Rightarrow> theme_current m' = theme_current m \<and> tm_styleSheet m' = tm_styleSheet m
           \<and> length (tm_errors m') = length (tm_errors m) + 1)"
  using assms
  by (cases t) (simp_all add: theme_restore_def theme_save_def app_theme_def app_setTheme_def settings_get_set
      theme_apply_def theme_current_def Let_def split: option.split)

theorem theme_is_kept_witness: "theme_restore demo_sops (theme_save Dark Map.empty) = Dark"
  using theme_is_kept [of demo_sops Dark Map.empty "\<lambda>_. None" undefined] by (simp add: demo_sops_def)

end
