(* ===== verification/Worker_Queue.thy ===== *)
theory Worker_Queue
  imports Prelude
begin

text \<open>
  The worker thread: src/core/async/worker.\{h,cpp\}. A worker is the event loop of its thread, in which events are
  queued for its runner object, and what its thread is doing; the callers' thread has an event loop of its own and
  the context objects. The counter g\_pending is one global variable. The thread's
  part of call is three steps (take the event and run the job, count down and read the guard,
  post the delivery), because the callers' thread may run between any two of them.

  The event loops are Qt's, so their operations are a parameter of the model; what the code relies on is event\_loop
  below, the documented behaviour of QCoreApplication::postEvent and removePostedEvents. Jobs, contexts and callbacks
  are represented by identifiers: a context's is never used for a second object, and what a job returns is a
  parameter. A step that uses an object which does not exist any more is undefined behaviour; its outcome is None, and a
  run that contains one has no outcome either.
\<close>

section \<open>Event loops\<close>

text \<open>Posting an event to a receiver, taking the next one, and the removal of all events of a receiver.\<close>

record ('e, 'q) loop_ops =
  noEvents :: 'q
  postEvent :: "nat \<Rightarrow> 'e \<Rightarrow> 'q \<Rightarrow> 'q"
  takeEvent :: "'q \<Rightarrow> ((nat \<times> 'e) \<times> 'q) option"
  removePostedEvents :: "nat \<Rightarrow> 'q \<Rightarrow> 'q"

text \<open>
  The documented behaviour: events of one priority are delivered in the order in which they were posted, and the events of a
  receiver are removed with it. The second argument reads the events that wait.
\<close>

definition event_loop :: "('e, 'q) loop_ops \<Rightarrow> ('q \<Rightarrow> (nat \<times> 'e) list) \<Rightarrow> bool" where
  "event_loop ops waiting \<longleftrightarrow>
     waiting (noEvents ops) = []
   \<and> (\<forall>r e q. waiting (postEvent ops r e q) = waiting q @ [(r, e)])
   \<and> (\<forall>r q. waiting (removePostedEvents ops r q) = filter (\<lambda>x. fst x \<noteq> r) (waiting q))
   \<and> (\<forall>q. takeEvent ops q = None \<longrightarrow> waiting q = [])
   \<and> (\<forall>q x q'. takeEvent ops q = Some (x, q') \<longrightarrow> waiting q = x # waiting q')"

section \<open>State\<close>

text \<open>A queued event: the job with the guarded context and the callback, when it has one, of call; or a job of post.\<close>

datatype job =
    CallJob nat (job_context: "nat option") (job_callback: "nat option")
  | PostJob nat

text \<open>The worker thread: idle, running a job, or past the guard test with a result to post.\<close>

datatype activity = Idle | Running job | Delivering nat nat int

text \<open>The jobs that were run are the effect of a worker, as the callbacks that were run are that of the callers' thread.\<close>

record 'q worker =
  w_queue :: 'q
  w_activity :: activity
  w_ran :: "job list"

datatype object_life = Unborn | Alive | Destroyed

record ('q, 'd) world =
  workers :: "nat \<Rightarrow> 'q worker option"
  g_pending :: "32 word"
  contexts :: "nat \<Rightarrow> object_life"
  deliveries :: 'd
  delivered :: "(nat \<times> nat \<times> int) list"

text \<open>What the model is given: the two kinds of event loop and what the jobs return.\<close>

record ('q, 'd) environment =
  worker_loop :: "(job, 'q) loop_ops"
  main_loop :: "(nat \<times> int, 'd) loop_ops"
  job_result :: "nat \<Rightarrow> int"

definition newWorld :: "('q, 'd) environment \<Rightarrow> ('q, 'd) world" where
  "newWorld env = \<lparr>workers = (\<lambda>_. None), g_pending = 0, contexts = (\<lambda>_. Unborn),
                   deliveries = noEvents (main_loop env), delivered = []\<rparr>"

section \<open>Operations of the callers' thread\<close>

definition newWorker :: "('q, 'd) environment \<Rightarrow> nat \<Rightarrow> ('q, 'd) world \<Rightarrow> ('q, 'd) world" where
  "newWorker env w s =
     (case workers s w of
        None \<Rightarrow> s\<lparr>workers := (workers s)(w \<mapsto> \<lparr>w_queue = noEvents (worker_loop env), w_activity = Idle, w_ran = []\<rparr>)\<rparr>
      | Some _ \<Rightarrow> s)"

text \<open>QMetaObject::invokeMethod on the runner of a worker, queued, after the counter has been incremented.\<close>

definition enqueue :: "('q, 'd) environment \<Rightarrow> nat \<Rightarrow> job \<Rightarrow> ('q, 'd) world \<Rightarrow> ('q, 'd) world option" where
  "enqueue env w j s =
     (case workers s w of
        None \<Rightarrow> None
      | Some t \<Rightarrow>
          Some (s\<lparr>g_pending := g_pending s + 1,
                  workers := (workers s)(w \<mapsto> t\<lparr>w_queue := postEvent (worker_loop env) w j (w_queue t)\<rparr>)\<rparr>))"

text \<open>A null job is None, a null context too; the guard of any other context needs the object.\<close>

definition call :: "('q, 'd) environment \<Rightarrow> nat \<Rightarrow> nat option \<Rightarrow> nat option \<Rightarrow> nat option
    \<Rightarrow> ('q, 'd) world \<Rightarrow> ('q, 'd) world option" where
  "call env w job context onDone s =
     (case job of
        None \<Rightarrow> Some s
      | Some j \<Rightarrow>
          (case context of
             None \<Rightarrow> enqueue env w (CallJob j None onDone) s
           | Some c \<Rightarrow> if contexts s c = Alive then enqueue env w (CallJob j (Some c) onDone) s else None))"

definition post :: "('q, 'd) environment \<Rightarrow> nat \<Rightarrow> nat option \<Rightarrow> ('q, 'd) world \<Rightarrow> ('q, 'd) world option" where
  "post env w job s = (case job of None \<Rightarrow> Some s | Some j \<Rightarrow> enqueue env w (PostJob j) s)"

definition pending :: "('q, 'd) world \<Rightarrow> int" where
  "pending s = sint (g_pending s)"

text \<open>
  The destructor: wait returns when the thread has left its event loop, which is between two
  events; what is still queued then is discarded with the runner. Until then the caller is blocked.
\<close>

definition destroyWorker :: "nat \<Rightarrow> ('q, 'd) world \<Rightarrow> ('q, 'd) world option" where
  "destroyWorker w s =
     (case workers s w of
        None \<Rightarrow> None
      | Some t \<Rightarrow> Some (if w_activity t = Idle then s\<lparr>workers := (workers s)(w := None)\<rparr> else s))"

text \<open>Creating and destroying a context; the events queued for an object are removed with it.\<close>

definition createContext :: "nat \<Rightarrow> ('q, 'd) world \<Rightarrow> ('q, 'd) world" where
  "createContext c s = (if contexts s c = Unborn then s\<lparr>contexts := (contexts s)(c := Alive)\<rparr> else s)"

definition destroyContext :: "('q, 'd) environment \<Rightarrow> nat \<Rightarrow> ('q, 'd) world \<Rightarrow> ('q, 'd) world option" where
  "destroyContext env c s =
     (if contexts s c = Alive
      then Some (s\<lparr>contexts := (contexts s)(c := Destroyed),
                   deliveries := removePostedEvents (main_loop env) c (deliveries s)\<rparr>)
      else None)"

text \<open>The event loop of the callers' thread runs the next queued delivery: onDone(result).\<close>

definition deliverNext :: "('q, 'd) environment \<Rightarrow> ('q, 'd) world \<Rightarrow> ('q, 'd) world" where
  "deliverNext env s =
     (case takeEvent (main_loop env) (deliveries s) of
        None \<Rightarrow> s
      | Some (d, q) \<Rightarrow> s\<lparr>deliveries := q, delivered := delivered s @ [d]\<rparr>)"

section \<open>Steps of the worker thread\<close>

definition set_worker :: "nat \<Rightarrow> 'q worker \<Rightarrow> ('q, 'd) world \<Rightarrow> ('q, 'd) world" where
  "set_worker w t s = s\<lparr>workers := (workers s)(w \<mapsto> t)\<rparr>"

definition startNext :: "('q, 'd) environment \<Rightarrow> nat \<Rightarrow> ('q, 'd) world \<Rightarrow> ('q, 'd) world" where
  "startNext env w s =
     (case workers s w of
        None \<Rightarrow> s
      | Some t \<Rightarrow>
          (if w_activity t \<noteq> Idle then s
           else (case takeEvent (worker_loop env) (w_queue t) of
                   None \<Rightarrow> s
                 | Some ((_, j), q) \<Rightarrow>
                     set_worker w (t\<lparr>w_queue := q, w_activity := Running j, w_ran := w_ran t @ [j]\<rparr>) s)))"

text \<open>The job has returned: count down, and for call look at the guard and the callback.\<close>

definition afterJob :: "('q, 'd) environment \<Rightarrow> (nat \<Rightarrow> object_life) \<Rightarrow> job \<Rightarrow> activity" where
  "afterJob env ctx job =
     (case job of
        PostJob _ \<Rightarrow> Idle
      | CallJob j guard onDone \<Rightarrow>
          (case (guard, onDone) of
             (Some c, Some f) \<Rightarrow> if ctx c = Alive then Delivering c f (job_result env j) else Idle
           | _ \<Rightarrow> Idle))"

definition finishJob :: "('q, 'd) environment \<Rightarrow> nat \<Rightarrow> ('q, 'd) world \<Rightarrow> ('q, 'd) world" where
  "finishJob env w s =
     (case workers s w of
        None \<Rightarrow> s
      | Some t \<Rightarrow>
          (case w_activity t of
             Running j \<Rightarrow>
               set_worker w (t\<lparr>w_activity := afterJob env (contexts s) j\<rparr>) (s\<lparr>g_pending := g_pending s - 1\<rparr>)
           | _ \<Rightarrow> s))"

text \<open>
  The second invokeMethod, on the object the guard pointed to when it was tested. When that object
  has been destroyed in the meantime the call uses a dangling pointer.
\<close>

definition postDelivery :: "('q, 'd) environment \<Rightarrow> nat \<Rightarrow> ('q, 'd) world \<Rightarrow> ('q, 'd) world option" where
  "postDelivery env w s =
     (case workers s w of
        None \<Rightarrow> Some s
      | Some t \<Rightarrow>
          (case w_activity t of
             Delivering c f result \<Rightarrow>
               if contexts s c = Alive
               then Some (set_worker w (t\<lparr>w_activity := Idle\<rparr>)
                            (s\<lparr>deliveries := postEvent (main_loop env) c (f, result) (deliveries s)\<rparr>))
               else None
           | _ \<Rightarrow> Some s))"

datatype wq_event =
    NewWorker nat
  | DestroyWorker nat
  | Call nat "nat option" "nat option" "nat option"
  | Post nat "nat option"
  | CreateContext nat
  | DestroyContext nat
  | Deliver
  | Start nat
  | Finish nat
  | PostResult nat

fun wq_step :: "('q, 'd) environment \<Rightarrow> ('q, 'd) world \<Rightarrow> wq_event \<Rightarrow> ('q, 'd) world option" where
  "wq_step env s (NewWorker w) = Some (newWorker env w s)"
| "wq_step env s (DestroyWorker w) = destroyWorker w s"
| "wq_step env s (Call w j c f) = call env w j c f s"
| "wq_step env s (Post w j) = post env w j s"
| "wq_step env s (CreateContext c) = Some (createContext c s)"
| "wq_step env s (DestroyContext c) = destroyContext env c s"
| "wq_step env s Deliver = Some (deliverNext env s)"
| "wq_step env s (Start w) = Some (startNext env w s)"
| "wq_step env s (Finish w) = Some (finishJob env w s)"
| "wq_step env s (PostResult w) = postDelivery env w s"

fun wq_run :: "('q, 'd) environment \<Rightarrow> ('q, 'd) world \<Rightarrow> wq_event list \<Rightarrow> ('q, 'd) world option" where
  "wq_run env s [] = Some s"
| "wq_run env s (e # es) = Option.bind (wq_step env s e) (\<lambda>s'. wq_run env s' es)"

lemma wq_run_append: "wq_run env s (es @ fs) = Option.bind (wq_run env s es) (\<lambda>s'. wq_run env s' fs)"
  by (induction es arbitrary: s) (simp_all split: bind_split)

lemmas wq_defs =
  newWorker_def destroyWorker_def call_def post_def enqueue_def createContext_def destroyContext_def
  deliverNext_def startNext_def finishJob_def postDelivery_def set_worker_def

section \<open>Runs without misuse\<close>

text \<open>
  The callers use a worker and a context only while they exist, and destroy a context only when no worker thread is between its
  guard test and the posting of the result to that context; nothing else is required of a run.
\<close>

definition settled :: "nat \<Rightarrow> ('q, 'd) world \<Rightarrow> bool" where
  "settled c s \<longleftrightarrow> (\<forall>w t f r. workers s w = Some t \<longrightarrow> w_activity t \<noteq> Delivering c f r)"

fun proper :: "('q, 'd) world \<Rightarrow> wq_event \<Rightarrow> bool" where
  "proper s (DestroyWorker w) = (workers s w \<noteq> None)"
| "proper s (Call w j c f) =
     (j = None \<or> workers s w \<noteq> None \<and> (case c of None \<Rightarrow> True | Some x \<Rightarrow> contexts s x = Alive))"
| "proper s (Post w j) = (j = None \<or> workers s w \<noteq> None)"
| "proper s (DestroyContext c) = (contexts s c = Alive \<and> settled c s)"
| "proper s e = True"

fun careful :: "('q, 'd) environment \<Rightarrow> ('q, 'd) world \<Rightarrow> wq_event list \<Rightarrow> bool" where
  "careful env s [] = True"
| "careful env s (e # es) =
     (proper s e \<and> (case wq_step env s e of None \<Rightarrow> True | Some s' \<Rightarrow> careful env s' es))"

text \<open>A result is in the hand of a worker, or waits for delivery, only for an object that exists.\<close>

definition wq_inv :: "('d \<Rightarrow> (nat \<times> nat \<times> int) list) \<Rightarrow> ('q, 'd) world \<Rightarrow> bool" where
  "wq_inv waiting s \<longleftrightarrow>
     (\<forall>w t c f r. workers s w = Some t \<longrightarrow> w_activity t = Delivering c f r \<longrightarrow> contexts s c = Alive)
   \<and> (\<forall>d \<in> set (waiting (deliveries s)). contexts s (fst d) = Alive)"

lemma event_loopD:
  assumes "event_loop ops waiting"
  shows "waiting (noEvents ops) = []" and "waiting (postEvent ops r e q) = waiting q @ [(r, e)]"
    and "waiting (removePostedEvents ops r q) = filter (\<lambda>x. fst x \<noteq> r) (waiting q)"
    and "takeEvent ops q = None \<Longrightarrow> waiting q = []" and "takeEvent ops q = Some (x, q') \<Longrightarrow> waiting q = x # waiting q'"
  using assms unfolding event_loop_def by blast+

lemma afterJob_activity:
  "afterJob env ctx j \<noteq> Running k" "afterJob env ctx j = Delivering c f r \<Longrightarrow> ctx c = Alive"
  by (auto simp: afterJob_def split: job.splits option.splits if_splits)

lemma newWorld_inv: "event_loop (main_loop env) waiting \<Longrightarrow> wq_inv waiting (newWorld env)"
  by (simp add: wq_inv_def newWorld_def event_loopD)

lemma step_defined: "wq_inv waiting s \<Longrightarrow> proper s e \<Longrightarrow> \<exists>s'. wq_step env s e = Some s'"
  by (cases e) (auto simp: wq_inv_def wq_defs split: option.splits activity.splits)

lemma step_inv:
  assumes l: "event_loop (main_loop env) waiting" and i: "wq_inv waiting s" and p: "proper s e"
    and e: "wq_step env s e = Some s'"
  shows "wq_inv waiting s'"
proof -
  have "contexts s' c = Alive" if "workers s' w = Some t" "w_activity t = Delivering c f r" for w t c f r
    using i p e that afterJob_activity(2) [of env "contexts s" _ c f r]
    by (cases e) (auto simp: wq_inv_def wq_defs settled_def
        split: option.splits activity.splits if_splits)
  moreover have "contexts s' (fst d) = Alive" if "d \<in> set (waiting (deliveries s'))" for d
    using i p e that
    by (cases e) (auto simp: wq_inv_def wq_defs event_loopD [OF l] dest: event_loopD(5) [OF l]
        split: option.splits activity.splits if_splits)
  ultimately show ?thesis by (simp add: wq_inv_def)
qed

lemma careful_run:
  assumes l: "event_loop (main_loop env) waiting"
  shows "wq_inv waiting s \<Longrightarrow> careful env s es \<Longrightarrow> \<exists>s'. wq_run env s es = Some s' \<and> wq_inv waiting s'"
proof (induction es arbitrary: s)
  case (Cons e es)
  obtain s1 where s1: "wq_step env s e = Some s1" using step_defined [OF Cons.prems(1)] Cons.prems(2) by auto
  have "wq_inv waiting s1" using step_inv [OF l Cons.prems(1) _ s1] Cons.prems(2) by simp
  then show ?case using Cons.IH [of s1] Cons.prems(2) s1 by simp
qed simp

lemma careful_append:
  "careful env s (es @ fs) \<Longrightarrow> wq_run env s es = Some s' \<Longrightarrow> careful env s es \<and> careful env s' fs"
  by (induction es arbitrary: s) (auto split: option.splits)

lemma careful_prefix: "careful env s (es @ fs) \<Longrightarrow> careful env s es"
  by (induction es arbitrary: s) (auto split: option.splits)

section \<open>A single worker that is never destroyed\<close>

text \<open>The jobs the callers have given to a worker, read off their calls; and what a job has to answer.\<close>

fun job_given :: "nat \<Rightarrow> wq_event \<Rightarrow> job list" where
  "job_given w (Call v (Some j) c f) = (if v = w then [CallJob j c f] else [])"
| "job_given w (Post v (Some j)) = (if v = w then [PostJob j] else [])"
| "job_given w e = []"

definition jobs_given :: "nat \<Rightarrow> wq_event list \<Rightarrow> job list" where
  "jobs_given w es = concat (map (job_given w) es)"

fun answer :: "(nat \<Rightarrow> int) \<Rightarrow> job \<Rightarrow> (nat \<times> nat \<times> int) list" where
  "answer res (CallJob j (Some c) (Some f)) = [(c, f, res j)]"
| "answer res j = []"

definition in_hand :: "(nat \<Rightarrow> int) \<Rightarrow> activity \<Rightarrow> (nat \<times> nat \<times> int) list" where
  "in_hand res a = (case a of Idle \<Rightarrow> [] | Running j \<Rightarrow> answer res j | Delivering c f r \<Rightarrow> [(c, f, r)])"

text \<open>The jobs of a worker that are queued or running.\<close>

definition unfinished :: "('q \<Rightarrow> (nat \<times> job) list) \<Rightarrow> 'q worker \<Rightarrow> nat" where
  "unfinished queued t = length (queued (w_queue t)) + (case w_activity t of Running j \<Rightarrow> 1 | _ \<Rightarrow> 0)"

fun solo :: "nat \<Rightarrow> wq_event \<Rightarrow> bool" where
  "solo w (NewWorker v) = (v = w)"
| "solo w (DestroyWorker v) = False"
| "solo w (DestroyContext c) = False"
| "solo w e = True"

definition solo_inv :: "('q, 'd) environment \<Rightarrow> ('q \<Rightarrow> (nat \<times> job) list) \<Rightarrow> ('d \<Rightarrow> (nat \<times> nat \<times> int) list)
    \<Rightarrow> nat \<Rightarrow> job list \<Rightarrow> ('q, 'd) world \<Rightarrow> bool" where
  "solo_inv env queued waiting w given s \<longleftrightarrow>
     (\<forall>v. v \<noteq> w \<longrightarrow> workers s v = None)
   \<and> (\<forall>j \<in> set given. \<forall>d \<in> set (answer (job_result env) j). contexts s (fst d) = Alive)
   \<and> g_pending s = of_nat (case workers s w of None \<Rightarrow> 0 | Some t \<Rightarrow> unfinished queued t)
   \<and> (case workers s w of
        None \<Rightarrow> given = [] \<and> delivered s = [] \<and> waiting (deliveries s) = []
      | Some t \<Rightarrow> w_ran t @ map snd (queued (w_queue t)) = given
          \<and> (\<forall>j. w_activity t = Running j \<longrightarrow> j \<in> set given)
          \<and> delivered s @ waiting (deliveries s) @ in_hand (job_result env) (w_activity t)
              = concat (map (answer (job_result env)) (w_ran t)))"

lemma answer_afterJob:
  assumes "\<forall>d \<in> set (answer (job_result env) j). ctx (fst d) = Alive"
  shows "in_hand (job_result env) (afterJob env ctx j) = answer (job_result env) j"
  using assms by (cases "(job_result env, j)" rule: answer.cases)
    (auto simp: afterJob_def in_hand_def split: option.splits)

lemma solo_new: "event_loop (main_loop env) waiting \<Longrightarrow> solo_inv env queued waiting w [] (newWorld env)"
  by (simp add: solo_inv_def newWorld_def event_loopD)

lemma solo_enqueue:
  assumes q: "event_loop (worker_loop env) queued"
    and i: "solo_inv env queued waiting w given s" and e: "enqueue env v j s = Some s'"
    and a: "\<forall>d \<in> set (answer (job_result env) j). contexts s (fst d) = Alive"
  shows "v = w \<and> solo_inv env queued waiting w (given @ [j]) s'"
proof -
  have vw: "v = w" using i e by (cases "v = w") (auto simp: solo_inv_def enqueue_def split: option.splits)
  obtain t where t: "workers s w = Some t" using e by (auto simp: vw enqueue_def split: option.splits)
  have "s' = s\<lparr>g_pending := g_pending s + 1,
      workers := (workers s)(w \<mapsto> t\<lparr>w_queue := postEvent (worker_loop env) w j (w_queue t)\<rparr>)\<rparr>"
    using e t by (simp add: vw enqueue_def)
  then show ?thesis using i t a vw by (auto simp: solo_inv_def event_loopD [OF q] unfinished_def split: activity.splits)
qed

lemma solo_start:
  assumes q: "event_loop (worker_loop env) queued" and i: "solo_inv env queued waiting w given s"
  shows "solo_inv env queued waiting w given (startNext env v s)"
proof (cases "startNext env v s = s")
  case False
  then have vw: "v = w" using i by (auto simp: startNext_def solo_inv_def split: option.splits)
  from False obtain t r j q' where t: "workers s w = Some t" "w_activity t = Idle"
      "takeEvent (worker_loop env) (w_queue t) = Some ((r, j), q')"
    by (auto simp: startNext_def vw split: option.splits if_splits)
  have "startNext env v s = set_worker w (t\<lparr>w_queue := q', w_activity := Running j, w_ran := w_ran t @ [j]\<rparr>) s"
    using t by (simp add: startNext_def vw)
  then show ?thesis using i t event_loopD(5) [OF q t(3)]
    by (auto simp: solo_inv_def set_worker_def in_hand_def unfinished_def)
qed (use i in simp)

lemma solo_finish:
  assumes i: "solo_inv env queued waiting w given s"
  shows "solo_inv env queued waiting w given (finishJob env v s)"
proof (cases "finishJob env v s = s")
  case False
  then have vw: "v = w" using i by (auto simp: finishJob_def solo_inv_def split: option.splits)
  from False obtain t j where t: "workers s w = Some t" "w_activity t = Running j"
    by (auto simp: finishJob_def vw split: option.splits activity.splits)
  have f: "finishJob env v s
      = set_worker w (t\<lparr>w_activity := afterJob env (contexts s) j\<rparr>) (s\<lparr>g_pending := g_pending s - 1\<rparr>)"
    using t by (simp add: finishJob_def vw)
  have "\<forall>d \<in> set (answer (job_result env) j). contexts s (fst d) = Alive" using i t by (auto simp: solo_inv_def)
  from answer_afterJob [OF this] show ?thesis unfolding f using i t
    by (auto simp: solo_inv_def set_worker_def in_hand_def unfinished_def afterJob_activity split: activity.splits)
qed (use i in simp)

lemma solo_post:
  assumes l: "event_loop (main_loop env) waiting" and i: "solo_inv env queued waiting w given s"
    and e: "postDelivery env v s = Some s'"
  shows "solo_inv env queued waiting w given s'"
proof (cases "s' = s")
  case False
  then have vw: "v = w" using i e by (auto simp: postDelivery_def solo_inv_def split: option.splits)
  from False obtain t c f r where t: "workers s w = Some t" "w_activity t = Delivering c f r"
    using e by (auto simp: postDelivery_def vw split: option.splits activity.splits)
  have "s' = set_worker w (t\<lparr>w_activity := Idle\<rparr>)
      (s\<lparr>deliveries := postEvent (main_loop env) c (f, r) (deliveries s)\<rparr>)"
    using e t by (simp add: postDelivery_def vw split: if_splits)
  then show ?thesis using i t by (auto simp: solo_inv_def set_worker_def in_hand_def unfinished_def event_loopD [OF l])
qed (use i in simp)

lemma solo_deliver:
  assumes l: "event_loop (main_loop env) waiting" and i: "solo_inv env queued waiting w given s"
  shows "solo_inv env queued waiting w given (deliverNext env s)"
proof (cases "takeEvent (main_loop env) (deliveries s)")
  case (Some x)
  then obtain d q where x: "x = (d, q)" by (cases x)
  have "waiting (deliveries s) = d # waiting q" using event_loopD(5) [OF l] Some x by blast
  then show ?thesis using i Some x by (simp add: solo_inv_def deliverNext_def split: option.splits)
qed (use i in \<open>simp add: deliverNext_def\<close>)

lemma solo_step:
  assumes q: "event_loop (worker_loop env) queued" and l: "event_loop (main_loop env) waiting"
    and i: "solo_inv env queued waiting w given s" and o: "solo w e" and e: "wq_step env s e = Some s'"
  shows "solo_inv env queued waiting w (given @ job_given w e) s'"
proof (cases e)
  case (NewWorker v)
  then show ?thesis using i o e
    by (auto simp: solo_inv_def newWorker_def event_loopD [OF q] in_hand_def unfinished_def split: option.splits)
next
  case (Call v j c f)
  show ?thesis
  proof (cases j)
    case (Some x)
    then have "enqueue env v (CallJob x c f) s = Some s'" "case c of None \<Rightarrow> True | Some y \<Rightarrow> contexts s y = Alive"
      using e Call by (auto simp: call_def split: option.splits if_splits)
    then show ?thesis using solo_enqueue [OF q i] Call Some
      by (cases c; cases f) auto
  qed (use i e Call in \<open>simp add: call_def\<close>)
next
  case (Post v j)
  then show ?thesis using solo_enqueue [OF q i, of v "PostJob x" s' for x] i e by (cases j) (auto simp: post_def)
next
  case (CreateContext c)
  then have s': "s' = s \<or> s' = s\<lparr>contexts := (contexts s)(c := Alive)\<rparr>" using e by (auto simp: createContext_def)
  have "solo_inv env queued waiting w given (s\<lparr>contexts := (contexts s)(c := Alive)\<rparr>)" using i
    by (simp add: solo_inv_def cong: option.case_cong)
  then show ?thesis using s' i CreateContext by auto
qed (use o e solo_start [OF q i] solo_finish [OF i] solo_post [OF l i] solo_deliver [OF l i] in auto)

lemma solo_run:
  assumes q: "event_loop (worker_loop env) queued" and l: "event_loop (main_loop env) waiting"
  shows "solo_inv env queued waiting w given s \<Longrightarrow> \<forall>e \<in> set es. solo w e \<Longrightarrow> wq_run env s es = Some s' \<Longrightarrow>
    solo_inv env queued waiting w (given @ jobs_given w es) s'"
proof (induction es arbitrary: s given)
  case (Cons e es)
  obtain s1 where s1: "wq_step env s e = Some s1" "wq_run env s1 es = Some s'"
    using Cons.prems(3) by (auto simp: Option.bind_eq_Some_conv)
  from Cons.IH [OF solo_step [OF q l Cons.prems(1) _ s1(1)] _ s1(2)] Cons.prems(2) show ?case
    by (simp add: jobs_given_def)
qed (simp add: jobs_given_def)

section \<open>Deliveries to a destroyed context\<close>

definition got :: "nat \<Rightarrow> ('q, 'd) world \<Rightarrow> (nat \<times> nat \<times> int) list" where
  "got c s = filter (\<lambda>d. fst d = c) (delivered s)"

lemma step_gone:
  assumes l: "event_loop (main_loop env) waiting" and i: "wq_inv waiting s" and c: "contexts s c = Destroyed"
    and e: "wq_step env s e = Some s'"
  shows "contexts s' c = Destroyed \<and> got c s' = got c s"
proof
  show "contexts s' c = Destroyed"
    using c e by (cases e) (auto simp: wq_defs split: option.splits activity.splits if_splits)
  have "fst d \<noteq> c" if "takeEvent (main_loop env) (deliveries s) = Some (d, q)" for d q
    using event_loopD(5) [OF l that] i c by (auto simp: wq_inv_def)
  then show "got c s' = got c s"
    using e by (cases e) (auto simp: got_def wq_defs split: option.splits activity.splits if_splits)
qed

lemma run_gone:
  assumes l: "event_loop (main_loop env) waiting"
  shows "wq_inv waiting s \<Longrightarrow> contexts s c = Destroyed \<Longrightarrow> careful env s es \<Longrightarrow> wq_run env s es = Some s'
    \<Longrightarrow> got c s' = got c s"
proof (induction es arbitrary: s)
  case (Cons e es)
  obtain s1 where s1: "wq_step env s e = Some s1" "wq_run env s1 es = Some s'"
    using Cons.prems(4) by (auto simp: Option.bind_eq_Some_conv)
  have "wq_inv waiting s1" "careful env s1 es" using step_inv [OF l Cons.prems(1) _ s1(1)] Cons.prems(3) s1(1) by simp_all
  then show ?case using Cons.IH [of s1] s1(2) step_gone [OF l Cons.prems(1,2) s1(1)] by simp
qed simp

section \<open>An event loop\<close>

text \<open>A list of events is an event loop, so the hypothesis on Qt's can hold.\<close>

definition list_loop :: "('e, (nat \<times> 'e) list) loop_ops" where
  "list_loop = \<lparr>noEvents = [], postEvent = (\<lambda>r e q. q @ [(r, e)]),
     takeEvent = (\<lambda>q. case q of [] \<Rightarrow> None | x # q' \<Rightarrow> Some (x, q')),
     removePostedEvents = (\<lambda>r. filter (\<lambda>x. fst x \<noteq> r))\<rparr>"

lemma list_loop: "event_loop list_loop (\<lambda>q. q)"
  by (simp add: event_loop_def list_loop_def split: list.split)

definition list_env :: "((nat \<times> job) list, (nat \<times> nat \<times> int) list) environment" where
  "list_env = \<lparr>worker_loop = list_loop, main_loop = list_loop, job_result = (\<lambda>j. int j * 10)\<rparr>"

lemma list_env_loops: "event_loop (worker_loop list_env) (\<lambda>q. q)" "event_loop (main_loop list_env) (\<lambda>q. q)"
  by (simp_all add: list_env_def list_loop)

lemmas demo_wq = list_env_def list_loop_def newWorld_def wq_defs settled_def afterJob_def

section \<open>Properties\<close>

text \<open>
  C31. With one worker and contexts that stay alive, and callers that use them only when they exist, every run is
  defined. The jobs that were run and the jobs that are queued are, together and in order, exactly the
  jobs the callers have given to call and post: none is lost, repeated or overtaken. The callbacks that were called,
  those that wait in the callers' event loop and the one in the worker's hand are, in order, one for each job of call that was
  run and has a context and a callback, with that context, that callback and the result of that job.
\<close>

theorem worker_answers_in_order:
  assumes "event_loop (worker_loop env) queued" and "event_loop (main_loop env) waiting"
    and "\<forall>e \<in> set es. solo w e" and "careful env (newWorld env) es"
  shows "\<exists>s. wq_run env (newWorld env) es = Some s
     \<and> (case workers s w of
          None \<Rightarrow> jobs_given w es = []
        | Some t \<Rightarrow> w_ran t @ map snd (queued (w_queue t)) = jobs_given w es
            \<and> delivered s @ waiting (deliveries s) @ in_hand (job_result env) (w_activity t)
                = concat (map (answer (job_result env)) (w_ran t)))"
proof -
  obtain s where s: "wq_run env (newWorld env) es = Some s"
    using careful_run [OF assms(2) newWorld_inv [OF assms(2)] assms(4)] by blast
  have "solo_inv env queued waiting w (jobs_given w es) s"
    using solo_run [OF assms(1,2) solo_new [OF assms(2)] assms(3) s] by simp
  then show ?thesis using s by (auto simp: solo_inv_def split: option.splits)
qed

theorem worker_answers_in_order_witness:
  "\<exists>s t. wq_run list_env (newWorld list_env)
       [NewWorker 1, CreateContext 5, Call 1 (Some 8) (Some 5) (Some 9), Post 1 (Some 7), Call 1 (Some 6) (Some 5) (Some 4),
        Start 1, Finish 1, PostResult 1, Start 1, Finish 1, Deliver] = Some s
     \<and> workers s 1 = Some t \<and> w_ran t = [CallJob 8 (Some 5) (Some 9), PostJob 7]
     \<and> w_queue t = [(1, CallJob 6 (Some 5) (Some 4))] \<and> delivered s = [(5, 9, 80)]"
  using worker_answers_in_order [OF list_env_loops, of "[NewWorker 1, CreateContext 5, Call 1 (Some 8) (Some 5) (Some 9),
        Post 1 (Some 7), Call 1 (Some 6) (Some 5) (Some 4), Start 1, Finish 1, PostResult 1, Start 1, Finish 1, Deliver]" 1]
  by (simp add: demo_wq)

text \<open>
  C32. A context that has been destroyed is never called back, as long as no context is destroyed while
  a worker thread is between its guard test and the posting of a result to it, and the callers use workers and contexts only while they
  exist: every such run, with any number of workers and contexts, is defined, so no destroyed object is used, and
  what was delivered to a context when it is destroyed stays the same for ever.
\<close>

theorem worker_no_callback_after_destroy:
  assumes "event_loop (main_loop env) waiting" and "careful env (newWorld env) (pre @ DestroyContext c # es)"
  shows "\<exists>s s'. wq_run env (newWorld env) pre = Some s
     \<and> wq_run env (newWorld env) (pre @ DestroyContext c # es) = Some s' \<and> got c s' = got c s"
proof -
  note l = assms(1)
  obtain s where s: "wq_run env (newWorld env) pre = Some s" and i: "wq_inv waiting s"
    using careful_run [OF l newWorld_inv [OF l] careful_prefix [OF assms(2)]] by blast
  have cs: "careful env s (DestroyContext c # es)" using careful_append [OF assms(2) s] by blast
  then obtain s1 where s1: "destroyContext env c s = Some s1" by (auto simp: destroyContext_def)
  have i1: "wq_inv waiting s1" using step_inv [OF l i, of "DestroyContext c"] cs s1 by simp
  have c1: "contexts s1 c = Destroyed" "got c s1 = got c s" using s1 by (auto simp: destroyContext_def got_def split: if_splits)
  have ce: "careful env s1 es" using cs s1 by simp
  obtain s' where s': "wq_run env s1 es = Some s'" using careful_run [OF l i1 ce] by blast
  have "got c s' = got c s" using run_gone [OF l i1 c1(1) ce s'] c1(2) by simp
  then show ?thesis using s s1 s' by (simp add: wq_run_append)
qed

theorem worker_no_callback_after_destroy_witness:
  "\<exists>s. wq_run list_env (newWorld list_env)
     ([NewWorker 1, CreateContext 5, Call 1 (Some 8) (Some 5) (Some 9), Call 1 (Some 6) (Some 5) (Some 9), Start 1, Finish 1, PostResult 1,
       Start 1] @ DestroyContext 5 # [Finish 1, PostResult 1, Deliver]) = Some s \<and> got 5 s = []"
  using worker_no_callback_after_destroy [OF list_env_loops(2), of "[NewWorker 1, CreateContext 5,
       Call 1 (Some 8) (Some 5) (Some 9), Call 1 (Some 6) (Some 5) (Some 9), Start 1, Finish 1, PostResult 1, Start 1]" 5
       "[Finish 1, PostResult 1, Deliver]"]
  by (simp add: demo_wq got_def)

text \<open>
  The condition is needed. The guard does not protect the thread that reads it: the context can be destroyed after the
  worker thread has seen it alive and before the result is posted to it, and then the worker thread
  uses the destroyed object: the run has no outcome.
\<close>

theorem worker_guard_race:
  assumes "workers s w = Some t" and "w_activity t = Running (CallJob j (Some c) (Some f))" and "contexts s c = Alive"
  shows "wq_run env s [Finish w, DestroyContext c, PostResult w] = None"
  using assms by (simp add: wq_defs afterJob_def)

theorem worker_guard_race_witness:
  "wq_run list_env (newWorld list_env) [NewWorker 1, CreateContext 5, Call 1 (Some 8) (Some 5) (Some 9), Start 1,
     Finish 1, DestroyContext 5, PostResult 1] = None"
proof -
  obtain s t where s: "wq_run list_env (newWorld list_env)
        [NewWorker 1, CreateContext 5, Call 1 (Some 8) (Some 5) (Some 9), Start 1] = Some s"
      "workers s 1 = Some t" "w_activity t = Running (CallJob 8 (Some 5) (Some 9))" "contexts s 5 = Alive"
    by (simp add: demo_wq)
  then show ?thesis
    using wq_run_append [of list_env "newWorld list_env" "[NewWorker 1, CreateContext 5, Call 1 (Some 8) (Some 5) (Some 9), Start 1]"
        "[Finish 1, DestroyContext 5, PostResult 1]"] worker_guard_race [OF s(2-4), of list_env]
    by simp
qed

text \<open>
  With one worker that lives as long as the program, the counter is the number of jobs that are queued plus
  the one that is running; so a single running job already makes pending answer 1 with an empty queue.
\<close>

theorem worker_pending_counts_unfinished:
  assumes "event_loop (worker_loop env) queued" and "event_loop (main_loop env) waiting"
    and "\<forall>e \<in> set es. solo w e" and "wq_run env (newWorld env) es = Some s" and "workers s w = Some t"
    and "unfinished queued t < 2 ^ 31"
  shows "pending s = int (unfinished queued t)"
proof -
  have "solo_inv env queued waiting w (jobs_given w es) s"
    using solo_run [OF assms(1,2) solo_new [OF assms(2)] assms(3,4)] by simp
  then show ?thesis using assms(5,6) by (simp add: solo_inv_def pending_def signed_of_nat signed_take_bit_int_eq_self)
qed

theorem worker_pending_counts_unfinished_witness:
  "\<exists>s. wq_run list_env (newWorld list_env) [NewWorker 1, Post 1 (Some 7), Start 1] = Some s \<and> pending s = 1"
  using worker_pending_counts_unfinished [OF list_env_loops, of "[NewWorker 1, Post 1 (Some 7), Start 1]" 1]
  by (simp add: demo_wq unfinished_def)

text \<open>
  Destroying a worker with a queued job leaves the global counter too high for good: with no
  worker left, pending still answers 1.
\<close>

theorem worker_pending_leaks:
  "\<exists>s. wq_run list_env (newWorld list_env) [NewWorker 1, Post 1 (Some 7), DestroyWorker 1] = Some s
     \<and> pending s = 1 \<and> workers s = (\<lambda>_. None)"
  by (simp add: demo_wq pending_def fun_eq_iff)

end
