(* ===== verification/App_Log.thy ===== *)
theory App_Log
  imports Qt_Strings
begin

text \<open>
  The log file: src/infra/log/app\_log.\{h,cpp\}. The state is the two global flags, the log file, the
  rotated file and what was written to the standard error stream; whether the file can be opened, the
  error text and the time are given with each call. The file's size is the length of its text.
\<close>

record app_log =
  al_initialized :: bool
  al_writeFailed :: bool
  al_file :: "string option"
  al_rotated :: "string option"
  al_stderr :: "string list"

definition newline :: char where "newline = CHR 0x0A"

text \<open>QString::leftJustified.\<close>

definition leftJustified :: "string \<Rightarrow> nat \<Rightarrow> string" where
  "leftJustified s n = s @ replicate (n - length s) CHR 0x20"

definition singleLine :: "string \<Rightarrow> string" where
  "singleLine message =
     map (\<lambda>c. if c = newline then CHR 0x20 else c) (map (\<lambda>c. if c = CHR 0x0D then CHR 0x20 else c) message)"

definition logLine :: "string \<Rightarrow> string \<Rightarrow> string \<Rightarrow> string" where
  "logLine now level message = now @ ''  '' @ leftJustified level 5 @ ''  '' @ singleLine message @ [newline]"

text \<open>What opening the file gives: None when it can be opened, otherwise the error text.\<close>

definition writeLine :: "string \<Rightarrow> string option \<Rightarrow> string \<Rightarrow> string \<Rightarrow> string \<Rightarrow> app_log \<Rightarrow> app_log" where
  "writeLine path openError now level message s =
     (if \<not> al_initialized s then s
      else case openError of
        Some errorText \<Rightarrow>
          if al_writeFailed s then s
          else s\<lparr>al_writeFailed := True,
                 al_stderr := al_stderr s @ [''AppLog: failed to open '' @ path @ '': '' @ errorText @ [newline]]\<rparr>
      | None \<Rightarrow>
          s\<lparr>al_file := Some ((case al_file s of None \<Rightarrow> [] | Some t \<Rightarrow> t) @ logLine now level message)\<rparr>)"

definition log_info :: "string \<Rightarrow> string option \<Rightarrow> string \<Rightarrow> string \<Rightarrow> app_log \<Rightarrow> app_log" where
  "log_info path openError now message = writeLine path openError now ''INFO'' message"

definition log_warn :: "string \<Rightarrow> string option \<Rightarrow> string \<Rightarrow> string \<Rightarrow> app_log \<Rightarrow> app_log" where
  "log_warn path openError now message = writeLine path openError now ''WARN'' message"

definition log_error :: "string \<Rightarrow> string option \<Rightarrow> string \<Rightarrow> string \<Rightarrow> app_log \<Rightarrow> app_log" where
  "log_error path openError now message = writeLine path openError now ''ERROR'' message"

definition log_init :: "string \<Rightarrow> string option \<Rightarrow> string \<Rightarrow> string \<Rightarrow> string \<Rightarrow> app_log \<Rightarrow> app_log" where
  "log_init path openError now version pid s =
     (let s = (case al_file s of
                 None \<Rightarrow> s
               | Some t \<Rightarrow>
                   if length t > 1024 * 1024 then s\<lparr>al_rotated := Some t, al_file := None\<rparr> else s);
          s = s\<lparr>al_initialized := True\<rparr>
      in log_info path openError now (''application started; version='' @ version @ ''; pid='' @ pid) s)"

definition log_isHealthy :: "app_log \<Rightarrow> bool" where
  "log_isHealthy s = (\<not> al_writeFailed s)"

definition log_filePath ::
  "bool \<Rightarrow> string \<Rightarrow> string \<Rightarrow> (string \<Rightarrow> string \<Rightarrow> string) \<Rightarrow> string \<Rightarrow> string" where
  "log_filePath iniFormat settingsDirectory appData filePath applicationName =
     filePath (if iniFormat then settingsDirectory else appData)
       ((if applicationName = [] then ''app'' else applicationName) @ ''.log'')"

section \<open>Lemmas\<close>

lemma singleLine_no_newline: "newline \<notin> set (singleLine message)"
  by (auto simp: singleLine_def newline_def)

text \<open>
  A message is one line of the file whatever it contains: the file's lines are those it had and
  one more. (The last element of the split is the empty rest behind the final newline.)
\<close>

lemma count_log_line:
  assumes "newline \<notin> set now" and "newline \<notin> set level"
  shows "count_list (logLine now level message) newline = 1"
proof -
  have "newline \<notin> set (leftJustified level 5)" using assms(2) by (simp add: leftJustified_def newline_def)
  moreover have "newline \<notin> set (''  '')" by (simp add: newline_def)
  ultimately show ?thesis
    using assms(1) singleLine_no_newline [of message] by (simp add: logLine_def count_list_append count_notin)
qed

theorem log_one_line_per_message:
  assumes "al_initialized s" and "newline \<notin> set now" and "level \<in> {''INFO'', ''WARN'', ''ERROR''}" and "al_file s = Some t"
  shows "\<exists>t'. al_file (writeLine path None now level message s) = Some t' \<and> last t' = newline
       \<and> count_list t' newline = count_list t newline + 1"
proof -
  have l: "newline \<notin> set level" using assms(3) by (auto simp: newline_def)
  have w: "al_file (writeLine path None now level message s) = Some (t @ logLine now level message)"
    using assms(1,4) by (simp add: writeLine_def)
  have "last (t @ logLine now level message) = newline" by (simp add: logLine_def)
  moreover have "count_list (t @ logLine now level message) newline = count_list t newline + 1"
    using count_log_line [OF assms(2) l] by (simp add: count_list_append)
  ultimately show ?thesis using w by blast
qed

text \<open>The flag never goes back, and a failure is reported on the error stream once.\<close>

theorem log_failure_is_permanent:
  assumes "\<not> log_isHealthy s"
  shows "\<not> log_isHealthy (writeLine path openError now level message s)
       \<and> al_stderr (writeLine path openError now level message s) = al_stderr s"
  using assms by (simp add: writeLine_def log_isHealthy_def split: option.splits)

end
