(* ===== verification/Single_Instance.thy ===== *)
theory Single_Instance
  imports Prelude
begin

text \<open>
  The guard against a second instance: src/infra/singleinstance/single\_instance.\{h,cpp\}. The name of the local
  socket is owned by at most one server; the constructor first probes the name and then
  listens, and another process may run between the two. The processes are numbered.
\<close>

record instances =
  si_owner :: "nat option"
  si_probed :: "nat \<Rightarrow> bool option"
  si_primary :: "nat \<Rightarrow> bool"

definition no_instances :: instances where
  "no_instances = \<lparr>si_owner = None, si_probed = (\<lambda>_. None), si_primary = (\<lambda>_. False)\<rparr>"

text \<open>The probe: whether a connection to the name succeeds.\<close>

definition si_probe :: "nat \<Rightarrow> instances \<Rightarrow> instances" where
  "si_probe i s = s\<lparr>si_probed := (si_probed s)(i \<mapsto> si_owner s \<noteq> None)\<rparr>"

text \<open>
  The rest of the constructor: nothing after a successful probe. Listening fails while the name is
  taken; then the constructor removes the name, whoever owns it, and listens again, which may fail for
  another reason.
\<close>

definition si_listen :: "nat \<Rightarrow> bool \<Rightarrow> instances \<Rightarrow> instances" where
  "si_listen i again s =
     (case si_probed s i of
        None \<Rightarrow> s
      | Some True \<Rightarrow> s
      | Some False \<Rightarrow>
          if si_owner s = None then s\<lparr>si_owner := Some i, si_primary := (si_primary s)(i := True)\<rparr>
          else (let s = s\<lparr>si_owner := None\<rparr>
                in if \<not> again then s else s\<lparr>si_owner := Some i, si_primary := (si_primary s)(i := True)\<rparr>))"

definition si_isPrimary :: "nat \<Rightarrow> instances \<Rightarrow> bool" where
  "si_isPrimary i s = si_primary s i"

text \<open>The handler of readyRead in the primary: whether raiseRequested is sent.\<close>

definition onRaiseData :: "bytes \<Rightarrow> bool" where
  "onRaiseData d = (d \<noteq> [])"

text \<open>Asking the primary to appear: connecting, writing and waiting may each fail.\<close>

definition kRaiseMessage :: string where "kRaiseMessage = ''raise''"

definition signalPrimaryToRaise :: "bool \<Rightarrow> int \<Rightarrow> bool \<Rightarrow> bool" where
  "signalPrimaryToRaise waitForConnected written waitForBytesWritten =
     (if \<not> waitForConnected then False
      else if written < 0 \<or> \<not> waitForBytesWritten then False
      else True)"

definition newSingleInstance :: "bool \<Rightarrow> nat \<Rightarrow> instances \<Rightarrow> instances" where
  "newSingleInstance again i s = si_listen i again (si_probe i s)"

text \<open>
  When the constructors run one after the other, the first process is the primary and the
  only one, whoever else starts.
\<close>

theorem single_instance_sequential:
  "si_owner (fold (newSingleInstance again) js (newSingleInstance again i no_instances)) = Some i
   \<and> (\<forall>k. si_isPrimary k (fold (newSingleInstance again) js (newSingleInstance again i no_instances)) \<longleftrightarrow> k = i)"
proof (induction js rule: rev_induct)
  case Nil
  then show ?case by (simp add: newSingleInstance_def si_probe_def si_listen_def no_instances_def si_isPrimary_def)
next
  case (snoc j js)
  then show ?case by (simp add: newSingleInstance_def si_probe_def si_listen_def si_isPrimary_def)
qed

text \<open>
  When two processes probe before either listens, both become the primary, and the first
  loses the name, so that nobody can raise it.
\<close>

theorem single_instance_race:
  "i \<noteq> j \<Longrightarrow>
     si_isPrimary i (si_listen j True (si_listen i True (si_probe j (si_probe i no_instances))))
   \<and> si_isPrimary j (si_listen j True (si_listen i True (si_probe j (si_probe i no_instances))))
   \<and> si_owner (si_listen j True (si_listen i True (si_probe j (si_probe i no_instances)))) = Some j"
  by (simp add: si_probe_def si_listen_def si_isPrimary_def no_instances_def Let_def)

end
