(* ===== verification/Sqlite_Varint.thy ===== *)
theory Sqlite_Varint
  imports Prelude
begin

text \<open>
  SQLite's variable-length integers (util.c inside src/infra/db/sqlite3.c): the writer, the unrolled
  reader and the helpers for fixed-width big-endian integers. A writer is the list of the bytes it
  stores at p, its return value the length of that list. A reader gets the bytes that start at p and
  reads them with checked indexing.
\<close>

section \<open>Writing\<close>

text \<open>The loop that fills p[7] down to p[0]; what is already stored behind them is the accumulator.\<close>

fun putHigh :: "nat \<Rightarrow> u64 \<Rightarrow> bytes \<Rightarrow> bytes" where
  "putHigh 0 v p = p"
| "putHigh (Suc i) v p = putHigh i (drop_bit 7 v) (ucast ((v AND 0x7f) OR 0x80) # p)"

lemma drop_bit_7_less: "drop_bit 7 v \<noteq> 0 \<Longrightarrow> unat (drop_bit 7 v) < unat (v :: u64)"
  by (simp add: drop_bit_eq_div unat_div unat_eq_zero word_le_nat_alt)
     (metis div_0 div_less_dividend gr0I one_less_numeral_iff semiring_norm(76) unat_eq_zero)

text \<open>The do-while loop that fills buf.\<close>

function putBuf :: "u64 \<Rightarrow> bytes" where
  "putBuf v = ucast ((v AND 0x7f) OR 0x80) #
              (if drop_bit 7 v \<noteq> 0 then putBuf (drop_bit 7 v) else [])"
  by pat_completeness auto
termination
  by (relation "measure unat") (auto intro: drop_bit_7_less)

declare putBuf.simps [simp del]

definition putVarint64 :: "u64 \<Rightarrow> bytes" where
  "putVarint64 v =
     (if v AND push_bit 32 0xff000000 \<noteq> 0 then putHigh 8 (drop_bit 8 v) [ucast v]
      else (let buf = putBuf v; buf = buf[0 := buf ! 0 AND 0x7f] in rev buf))"

definition sqlite3PutVarint :: "u64 \<Rightarrow> bytes" where
  "sqlite3PutVarint v =
     (if v \<le> 0x7f then [ucast (v AND 0x7f)]
      else if v \<le> 0x3fff then [ucast ((drop_bit 7 v AND 0x7f) OR 0x80), ucast (v AND 0x7f)]
      else putVarint64 v)"

section \<open>Reading\<close>

definition SLOT_2_0 :: u32 where "SLOT_2_0 = 0x001fc07f"
definition SLOT_4_2_0 :: u32 where "SLOT_4_2_0 = 0xf01fc07f"

abbreviation u64_join :: "u32 \<Rightarrow> u32 \<Rightarrow> u64" where
  "u64_join s a \<equiv> push_bit 32 (ucast s) OR ucast a"

text \<open>The value stored in v and the number of bytes read.\<close>

definition sqlite3GetVarint :: "bytes \<Rightarrow> (u64 \<times> nat) option" where
  "sqlite3GetVarint p = do {
     p0 \<leftarrow> byte_at p 0;
     if 0 \<le>s p0 then Some (ucast p0, 1)
     else do {
     p1 \<leftarrow> byte_at p 1;
     if 0 \<le>s p1 then Some (ucast (push_bit 7 (ucast (p0 AND 0x7f)) OR ucast p1 :: u32), 2)
     else do {
     let a = (push_bit 14 (ucast p0) :: u32);
     let b = (ucast p1 :: u32);
     p2 \<leftarrow> byte_at p 2;
     let a = a OR ucast p2;
     if a AND 0x80 = 0 then
       (let a = a AND SLOT_2_0; b = b AND 0x7f; b = push_bit 7 b; a = a OR b in Some (ucast a, 3))
     else do {
     let a = a AND SLOT_2_0;
     p3 \<leftarrow> byte_at p 3;
     let b = push_bit 14 b OR ucast p3;
     if b AND 0x80 = 0 then
       (let b = b AND SLOT_2_0; a = push_bit 7 a; a = a OR b in Some (ucast a, 4))
     else do {
     let b = b AND SLOT_2_0;
     let s = a;
     p4 \<leftarrow> byte_at p 4;
     let a = push_bit 14 a OR ucast p4;
     if a AND 0x80 = 0 then
       (let b = push_bit 7 b; a = a OR b; s = drop_bit 18 s in Some (u64_join s a, 5))
     else do {
     let s = push_bit 7 s OR b;
     p5 \<leftarrow> byte_at p 5;
     let b = push_bit 14 b OR ucast p5;
     if b AND 0x80 = 0 then
       (let a = a AND SLOT_2_0; a = push_bit 7 a; a = a OR b; s = drop_bit 18 s
        in Some (u64_join s a, 6))
     else do {
     p6 \<leftarrow> byte_at p 6;
     let a = push_bit 14 a OR ucast p6;
     if a AND 0x80 = 0 then
       (let a = a AND SLOT_4_2_0; b = b AND SLOT_2_0; b = push_bit 7 b; a = a OR b; s = drop_bit 11 s
        in Some (u64_join s a, 7))
     else do {
     let a = a AND SLOT_2_0;
     p7 \<leftarrow> byte_at p 7;
     let b = push_bit 14 b OR ucast p7;
     if b AND 0x80 = 0 then
       (let b = b AND SLOT_4_2_0; a = push_bit 7 a; a = a OR b; s = drop_bit 4 s
        in Some (u64_join s a, 8))
     else do {
     p8 \<leftarrow> byte_at p 8;
     let a = push_bit 15 a OR ucast p8;
     let b = b AND SLOT_2_0;
     let b = push_bit 8 b;
     let a = a OR b;
     let s = push_bit 4 s;
     let b = (ucast p4 :: u32);
     let b = b AND 0x7f;
     let b = drop_bit 3 b;
     let s = s OR b;
     Some (u64_join s a, 9) }}}}}}}} }"

text \<open>The single-byte case belongs to the macro getVarint32, which wraps the function.\<close>

definition sqlite3GetVarint32 :: "bytes \<Rightarrow> (u32 \<times> nat) option" where
  "sqlite3GetVarint32 p = do {
     p0 \<leftarrow> byte_at p 0;
     p1 \<leftarrow> byte_at p 1;
     if p1 AND 0x80 = 0 then Some (push_bit 7 (ucast (p0 AND 0x7f)) OR ucast p1, 2)
     else do {
       p2 \<leftarrow> byte_at p 2;
       if p2 AND 0x80 = 0 then
         Some (push_bit 14 (ucast (p0 AND 0x7f)) OR push_bit 7 (ucast (p1 AND 0x7f)) OR ucast p2, 3)
       else do {
         (v64, n) \<leftarrow> sqlite3GetVarint p;
         if v64 AND 0xffffffff \<noteq> v64 then Some (0xffffffff, n) else Some (ucast v64, n) } } }"

definition getVarint32 :: "bytes \<Rightarrow> (u32 \<times> nat) option" where
  "getVarint32 p = do {
     p0 \<leftarrow> byte_at p 0;
     if p0 < 0x80 then Some (ucast p0, 1) else sqlite3GetVarint32 p }"

function varintLenFrom :: "nat \<Rightarrow> u64 \<Rightarrow> nat" where
  "varintLenFrom i v =
     (let v = drop_bit 7 v in if v \<noteq> 0 then varintLenFrom (i + 1) v else i)"
  by pat_completeness auto
termination
  by (relation "measure (\<lambda>(i, v). unat v)") (auto intro: drop_bit_7_less)

declare varintLenFrom.simps [simp del]

definition sqlite3VarintLen :: "u64 \<Rightarrow> nat" where
  "sqlite3VarintLen v = varintLenFrom 1 v"

section \<open>Fixed-width integers\<close>

definition sqlite3Get4byte :: "bytes \<Rightarrow> u32 option" where
  "sqlite3Get4byte p = do {
     p0 \<leftarrow> byte_at p 0; p1 \<leftarrow> byte_at p 1; p2 \<leftarrow> byte_at p 2; p3 \<leftarrow> byte_at p 3;
     Some (push_bit 24 (ucast p0) OR push_bit 16 (ucast p1) OR push_bit 8 (ucast p2) OR ucast p3) }"

definition sqlite3Put4byte :: "u32 \<Rightarrow> bytes" where
  "sqlite3Put4byte v = [ucast (drop_bit 24 v), ucast (drop_bit 16 v), ucast (drop_bit 8 v), ucast v]"

section \<open>The encoding as a number system\<close>

text \<open>
  The specification of the format: groups of seven bits, most significant first, all but the last
  marked by the top bit; the ninth byte, if there is one, carries eight bits.
\<close>

fun varint_spec :: "nat \<Rightarrow> nat \<Rightarrow> bytes \<Rightarrow> (nat \<times> nat) option" where
  "varint_spec k acc [] = None"
| "varint_spec k acc (b # bs) =
     (if k \<ge> 8 then Some (acc * 256 + unat b, k + 1)
      else if unat b < 128 then Some (acc * 128 + unat b, k + 1)
      else varint_spec (k + 1) (acc * 128 + (unat b - 128)) bs)"

lemma bytes_of_length:
  "length p \<ge> Suc n \<longleftrightarrow> (\<exists>b q. p = b # q \<and> length q \<ge> n)"
  by (cases p) auto

lemma bit7_byte: "\<not> bit (b :: u8) 7 \<longleftrightarrow> unat b < 128"
proof
  assume "\<not> bit b 7"
  then have "b = take_bit 7 b"
    by (intro bit_word_eqI) (auto simp: bit_simps less_Suc_eq numeral_eq_Suc)
  then have "unat b = take_bit 7 (unat b)" by (metis unsigned_take_bit_eq)
  also have "\<dots> < 128" using take_bit_nat_less_exp [of 7 "unat b"] by simp
  finally show "unat b < 128" .
next
  assume "unat b < 128"
  then have "take_bit 7 (unat b) = unat b" by (simp add: take_bit_nat_eq_self)
  then have "bit (unat b) 7 = False" by (metis bit_take_bit_iff less_irrefl)
  then show "\<not> bit b 7" by (simp add: bit_unsigned_iff)
qed

lemma sless_byte: "(0 \<le>s (b :: u8)) \<longleftrightarrow> \<not> bit b 7"
  using bit_last_iff [of b] by (simp add: word_sle_eq not_less)

lemma top_bit_byte: "(b :: u8) AND 0x80 = 0 \<longleftrightarrow> \<not> bit b 7"
  using and_exp_eq_0_iff_not_bit [of b 7] by simp

lemma top_bit_u32: "(a :: u32) AND 0x80 = 0 \<longleftrightarrow> \<not> bit a 7"
  using and_exp_eq_0_iff_not_bit [of a 7] by simp

text \<open>One more group of seven bits.\<close>

definition group7 :: "u64 \<Rightarrow> u8 \<Rightarrow> u64" where
  "group7 acc b = push_bit 7 acc OR ucast (b AND 0x7f)"

lemma masks: "(0x7f :: u8) = mask 7" "(0x7f :: u32) = mask 7"
  "SLOT_2_0 = mask 7 OR push_bit 14 (mask 7)"
  "SLOT_4_2_0 = mask 7 OR push_bit 14 (mask 7) OR push_bit 28 (mask 4)"
  by (simp_all add: mask_eq_exp_minus_1 SLOT_2_0_def SLOT_4_2_0_def push_bit_eq_mult)

lemma word64_eqI_all: "list_all (\<lambda>n. bit x n = bit y n) [0..<64] \<Longrightarrow> x = (y :: u64)"
  by (rule bit_word_eqI) (simp add: list_all_iff)

lemma upt64: "[0..<64] = map nat [0,1,2,3,4,5,6,7,8,9,10,11,12,13,14,15,16,17,18,19,20,21,22,23,24,25,26,27,28,29,30,31,
  32,33,34,35,36,37,38,39,40,41,42,43,44,45,46,47,48,49,50,51,52,53,54,55,56,57,58,59,60,61,62,63]"
  by (simp add: upt_rec)

lemma bit_byte_out [simp]: "8 \<le> n \<Longrightarrow> \<not> bit (b :: u8) n"
  using bit_imp_le_length [of b n] by auto

lemmas varint_bits = bit_simps upt64 masks group7_def

text \<open>The nine exits of the unrolled reader, each against the groups it has read.\<close>

lemma get_exits:
  "\<not> bit p0 7 \<Longrightarrow>
   sqlite3GetVarint (p0 # q) = Some (group7 0 p0, 1)"
  "bit p0 7 \<Longrightarrow> \<not> bit p1 7 \<Longrightarrow>
   sqlite3GetVarint (p0 # p1 # q) = Some (group7 (group7 0 p0) p1, 2)"
  "bit p0 7 \<Longrightarrow> bit p1 7 \<Longrightarrow> \<not> bit p2 7 \<Longrightarrow>
   sqlite3GetVarint (p0 # p1 # p2 # q) = Some (group7 (group7 (group7 0 p0) p1) p2, 3)"
  "bit p0 7 \<Longrightarrow> bit p1 7 \<Longrightarrow> bit p2 7 \<Longrightarrow> \<not> bit p3 7 \<Longrightarrow>
   sqlite3GetVarint (p0 # p1 # p2 # p3 # q) = Some (group7 (group7 (group7 (group7 0 p0) p1) p2) p3, 4)"
  "bit p0 7 \<Longrightarrow> bit p1 7 \<Longrightarrow> bit p2 7 \<Longrightarrow> bit p3 7 \<Longrightarrow> \<not> bit p4 7 \<Longrightarrow>
   sqlite3GetVarint (p0 # p1 # p2 # p3 # p4 # q) = Some (group7 (group7 (group7 (group7 (group7 0 p0) p1) p2) p3) p4, 5)"
  "bit p0 7 \<Longrightarrow> bit p1 7 \<Longrightarrow> bit p2 7 \<Longrightarrow> bit p3 7 \<Longrightarrow> bit p4 7 \<Longrightarrow> \<not> bit p5 7 \<Longrightarrow>
   sqlite3GetVarint (p0 # p1 # p2 # p3 # p4 # p5 # q) = Some (group7 (group7 (group7 (group7 (group7 (group7 0 p0) p1) p2) p3) p4) p5, 6)"
  "bit p0 7 \<Longrightarrow> bit p1 7 \<Longrightarrow> bit p2 7 \<Longrightarrow> bit p3 7 \<Longrightarrow> bit p4 7 \<Longrightarrow> bit p5 7 \<Longrightarrow> \<not> bit p6 7 \<Longrightarrow>
   sqlite3GetVarint (p0 # p1 # p2 # p3 # p4 # p5 # p6 # q) = Some (group7 (group7 (group7 (group7 (group7 (group7 (group7 0 p0) p1) p2) p3) p4) p5) p6, 7)"
  "bit p0 7 \<Longrightarrow> bit p1 7 \<Longrightarrow> bit p2 7 \<Longrightarrow> bit p3 7 \<Longrightarrow> bit p4 7 \<Longrightarrow> bit p5 7 \<Longrightarrow> bit p6 7 \<Longrightarrow> \<not> bit p7 7 \<Longrightarrow>
   sqlite3GetVarint (p0 # p1 # p2 # p3 # p4 # p5 # p6 # p7 # q) = Some (group7 (group7 (group7 (group7 (group7 (group7 (group7 (group7 0 p0) p1) p2) p3) p4) p5) p6) p7, 8)"
  "bit p0 7 \<Longrightarrow> bit p1 7 \<Longrightarrow> bit p2 7 \<Longrightarrow> bit p3 7 \<Longrightarrow> bit p4 7 \<Longrightarrow> bit p5 7 \<Longrightarrow> bit p6 7 \<Longrightarrow> bit p7 7 \<Longrightarrow>
   sqlite3GetVarint (p0 # p1 # p2 # p3 # p4 # p5 # p6 # p7 # p8 # q) = Some (push_bit 8 (group7 (group7 (group7 (group7 (group7 (group7 (group7 (group7 0 p0) p1) p2) p3) p4) p5) p6) p7) OR ucast p8, 9)"
  unfolding sqlite3GetVarint_def
  by (simp add: byte_at_def sless_byte top_bit_u32 Let_def bit_simps masks;
      rule word64_eqI_all; simp add: varint_bits)+

lemma get_none:
  "length ys < 9 \<Longrightarrow> \<forall>b \<in> set ys. bit b 7 \<Longrightarrow> sqlite3GetVarint ys = None"
  unfolding sqlite3GetVarint_def
  by (auto simp: byte_at_def sless_byte top_bit_u32 Let_def bit_simps masks split: bind_splits)

lemma get_groups:
  assumes "length ys \<le> 7" and "\<forall>y \<in> set ys. bit y 7" and "\<not> bit b 7"
  shows "sqlite3GetVarint (ys @ b # q) = Some (group7 (foldl group7 0 ys) b, length ys + 1)"
proof -
  have "length ys = 0 \<or> length ys = 1 \<or> length ys = 2 \<or> length ys = 3 \<or> length ys = 4
        \<or> length ys = 5 \<or> length ys = 6 \<or> length ys = 7" using assms(1) by linarith
  then show ?thesis using assms(2,3)
    by (auto simp: numeral_eq_Suc length_Suc_conv get_exits [simplified numeral_eq_Suc])
qed

lemma get_nine:
  assumes "length ys = 8" and "\<forall>y \<in> set ys. bit y 7"
  shows "sqlite3GetVarint (ys @ b # q) = Some (push_bit 8 (foldl group7 0 ys) OR ucast b, 9)"
  using assms by (auto simp: numeral_eq_Suc length_Suc_conv get_exits [simplified numeral_eq_Suc])

text \<open>The groups as numbers.\<close>

definition groups_nat :: "nat \<Rightarrow> bytes \<Rightarrow> nat" where
  "groups_nat = foldl (\<lambda>a b. a * 128 + (unat b - 128))"

lemma and_7f_byte: "unat (b AND 0x7f :: u8) = (if bit b 7 then unat b - 128 else unat b)"
proof -
  have "unat (b AND 0x7f) = take_bit 7 (unat b)"
    by (simp add: masks flip: take_bit_eq_mask) (simp add: unsigned_take_bit_eq flip: take_bit_eq_mod)
  also have "\<dots> = unat b mod 128" by (simp add: take_bit_eq_mod)
  finally have m: "unat (b AND 0x7f) = unat b mod 128" .
  show ?thesis
  proof (cases "bit b 7")
    case True
    then have "128 \<le> unat b" "unat b < 256" using bit7_byte [of b] unat_byte_less [of b] by auto
    then have "unat b mod 128 = unat b - 128" by (simp add: mod_if)
    then show ?thesis using m True by simp
  next
    case False
    then show ?thesis using m bit7_byte [of b] by simp
  qed
qed

lemma push_bit_or_add:
  "(\<And>n. n \<ge> k \<Longrightarrow> \<not> bit b n) \<Longrightarrow> push_bit k a OR ucast b = a * 2 ^ k + ucast (b :: u8)" for a :: u64
proof -
  assume b: "\<And>n. n \<ge> k \<Longrightarrow> \<not> bit b n"
  have "push_bit k a + ucast b = push_bit k a OR ucast b"
    by (rule disjunctive_add) (auto simp: bit_push_bit_iff bit_unsigned_iff b)
  then show ?thesis by (simp add: push_bit_eq_mult)
qed

lemma ucast_u8_of_nat: "ucast (b :: u8) = (of_nat (unat b) :: u64)"
  by simp

lemma group7_of_nat:
  "group7 (of_nat acc) b = of_nat (acc * 128 + (if bit b 7 then unat b - 128 else unat b))"
proof -
  have "group7 (of_nat acc) b = of_nat acc * 2 ^ 7 + ucast (b AND 0x7f)"
    unfolding group7_def by (rule push_bit_or_add) (auto simp: bit_simps masks)
  then show ?thesis by (simp add: ucast_u8_of_nat and_7f_byte)
qed

lemma foldl_group7: "\<forall>y \<in> set ys. bit y 7 \<Longrightarrow> foldl group7 (of_nat acc) ys = of_nat (groups_nat acc ys)"
  by (induction ys arbitrary: acc)
     (auto simp: groups_nat_def group7_of_nat simp del: of_nat_add of_nat_mult)

lemma spec_groups:
  "k + length ys \<le> 8 \<Longrightarrow> \<forall>y \<in> set ys. bit y 7 \<Longrightarrow>
     varint_spec k acc (ys @ r) = varint_spec (k + length ys) (groups_nat acc ys) r"
  by (induction ys arbitrary: k acc) (auto simp: groups_nat_def bit7_byte [symmetric])

lemma varint_shape:
  obtains ys b q where "p = ys @ b # q" "length ys \<le> 7" "\<forall>y \<in> set ys. bit y 7" "\<not> bit b 7"
  | ys b q where "p = ys @ b # q" "length ys = 8" "\<forall>y \<in> set ys. bit y 7"
  | "length p < 9" "\<forall>y \<in> set p. bit y 7"
proof (cases "\<exists>x \<in> set (take 8 p). \<not> bit x 7")
  case True
  then obtain ys b q where t: "take 8 p = ys @ b # q" "\<not> bit b 7" "\<forall>y \<in> set ys. bit y 7"
    using split_list_first_prop [of "take 8 p" "\<lambda>x. \<not> bit x 7"] by auto
  have "length (take 8 p) \<le> 8" by simp
  then have "length ys \<le> 7" using t(1) by simp
  moreover have "p = ys @ b # q @ drop 8 p" using t(1) append_take_drop_id [of 8 p] by simp
  ultimately show thesis using t that(1) by blast
next
  case False
  show thesis
  proof (cases "drop 8 p")
    case Nil
    then show thesis using False that(3) by simp
  next
    case (Cons b q)
    then have "p = take 8 p @ b # q" using append_take_drop_id [of 8 p] by simp
    moreover have "8 < length p" using Cons by (metis drop_eq_Nil list.distinct(1) not_le)
    then have "length (take 8 p) = 8" by simp
    ultimately show thesis using that(2) False by blast
  qed
qed

lemma nine_of_nat: "push_bit 8 (of_nat acc) OR ucast (b :: u8) = (of_nat (acc * 256 + unat b) :: u64)"
proof -
  have "push_bit 8 (of_nat acc :: u64) OR ucast b = of_nat acc * 2 ^ 8 + ucast b"
    by (rule push_bit_or_add) simp
  then show ?thesis by simp
qed

lemma get_varint_spec:
  "sqlite3GetVarint p = map_option (\<lambda>(v, n). (of_nat v, n)) (varint_spec 0 0 p)"
proof (cases rule: varint_shape [of p])
  case (1 ys b q)
  then show ?thesis
    using foldl_group7 [of ys 0] bit7_byte [of b]
    by (simp add: get_groups spec_groups group7_of_nat)
next
  case (2 ys b q)
  then show ?thesis
    using foldl_group7 [of ys 0] by (simp add: get_nine spec_groups nine_of_nat del: of_nat_add of_nat_mult)
next
  case 3
  then show ?thesis using spec_groups [of 0 p 0 "[]"] by (simp add: get_none)
qed

section \<open>What the writer stores\<close>

lemma bits_128: "bit (128 :: int) n \<longleftrightarrow> n = 7" "bit (0x80 :: u64) n \<longleftrightarrow> n = 7"
  using bit_exp_iff [where 'a = int, of 7 n] bit_exp_iff [where 'a = "64 word", of 7 n] by auto

lemma mark_unmark: "(ucast ((x AND 0x7f) OR 0x80 :: u64) :: u8) AND 0x7f = ucast (x AND 0x7f)"
proof -
  have m: "(0x7f :: u64) = mask 7" by (simp add: mask_eq_exp_minus_1)
  show ?thesis unfolding m masks by (rule bit_word_eqI) (auto simp: bit_simps bits_128)
qed

lemma put_byte:
  "bit (ucast ((v AND 0x7f) OR 0x80 :: u64) :: u8) 7"
  "unat (ucast ((v AND 0x7f) OR 0x80 :: u64) :: u8) - 128 = unat v mod 128"
  "unat (ucast (v AND 0x7f :: u64) :: u8) = unat v mod 128"
  "unat ((ucast ((v AND 0x7f) OR 0x80 :: u64) :: u8) AND 0x7f) = unat v mod 128"
proof -
  have m: "(0x7f :: u64) = mask 7" by (simp add: mask_eq_exp_minus_1)
  show b: "bit (ucast ((v AND 0x7f) OR 0x80 :: u64) :: u8) 7" by (simp add: bit_simps bits_128)
  have "(ucast (v AND 0x7f) :: u8) = ucast (take_bit 7 v)" by (simp add: m flip: take_bit_eq_mask)
  then have "unat (ucast (v AND 0x7f) :: u8) = take_bit 8 (unat (take_bit 7 v))"
    by (simp only: unsigned_ucast_eq) simp
  also have "\<dots> = unat (take_bit 7 v)" by (simp add: unsigned_take_bit_eq del: take_bit_word_numeral)
  also have "\<dots> = take_bit 7 (unat v)" by (rule unsigned_take_bit_eq)
  also have "\<dots> = unat v mod 128" by (simp add: take_bit_eq_mod)
  finally show f: "unat (ucast (v AND 0x7f :: u64) :: u8) = unat v mod 128" .
  then show g: "unat ((ucast ((v AND 0x7f) OR 0x80 :: u64) :: u8) AND 0x7f) = unat v mod 128" by (simp add: mark_unmark)
  then show "unat (ucast ((v AND 0x7f) OR 0x80 :: u64) :: u8) - 128 = unat v mod 128"
    using b by (simp add: and_7f_byte)
qed

lemma unat_drop_bit_7: "unat (drop_bit 7 v :: u64) = unat v div 128"
  by (simp add: drop_bit_eq_div unat_div)

text \<open>The groups of the do-while loop, least significant first.\<close>

lemma putBuf_tops: "\<forall>y \<in> set (putBuf v). bit y 7"
  by (induction v rule: putBuf.induct) (subst putBuf.simps, auto simp: put_byte)

lemma putBuf_value: "foldr (\<lambda>b a. a * 128 + (unat b - 128)) (putBuf v) 0 = unat v"
proof (induction v rule: putBuf.induct)
  case (1 v)
  show ?case
  proof (cases "drop_bit 7 v = 0")
    case True
    then have "unat v div 128 = 0" by (metis unat_0 unat_drop_bit_7)
    then have "unat v mod 128 = unat v" by (metis div_eq_0_iff mod_less zero_neq_numeral)
    then show ?thesis using True by (subst putBuf.simps) (simp add: put_byte)
  next
    case False
    then have "foldr (\<lambda>b a. a * 128 + (unat b - 128)) (putBuf v) 0 = unat (drop_bit 7 v) * 128 + unat v mod 128"
      using 1 by (subst putBuf.simps) (simp add: put_byte)
    then show ?thesis by (simp add: unat_drop_bit_7)
  qed
qed

lemma putBuf_length: "unat v < 128 ^ Suc n \<Longrightarrow> length (putBuf v) \<le> Suc n"
proof (induction n arbitrary: v)
  case 0
  then have "unat (drop_bit 7 v) = 0" by (simp add: unat_drop_bit_7)
  then show ?case by (subst putBuf.simps) (simp add: unat_eq_zero)
next
  case (Suc n)
  have "unat (drop_bit 7 v) < 128 ^ Suc n"
    using Suc.prems by (simp add: unat_drop_bit_7 less_mult_imp_div_less mult.commute)
  then show ?case using Suc.IH by (subst putBuf.simps) auto
qed

lemma putHigh_groups:
  "\<exists>hs. putHigh i v p = hs @ p \<and> length hs = i \<and> (\<forall>y \<in> set hs. bit y 7)
      \<and> groups_nat 0 hs = unat v mod 128 ^ i"
proof (induction i arbitrary: v p)
  case 0
  then show ?case by (simp add: groups_nat_def)
next
  case (Suc i)
  let ?b = "ucast ((v AND 0x7f) OR 0x80) :: u8"
  obtain hs where hs: "putHigh i (drop_bit 7 v) (?b # p) = hs @ ?b # p" "length hs = i"
      "\<forall>y \<in> set hs. bit y 7" "groups_nat 0 hs = unat (drop_bit 7 v) mod 128 ^ i"
    using Suc.IH by blast
  have "unat v mod 128 ^ Suc i = (unat v div 128 mod 128 ^ i) * 128 + unat v mod 128"
    by (simp add: mod_mult2_eq)
  then have "groups_nat 0 (hs @ [?b]) = unat v mod 128 ^ Suc i"
    using hs(4) by (simp add: groups_nat_def put_byte unat_drop_bit_7)
  then show ?case using hs put_byte(1) by (intro exI [of _ "hs @ [?b]"]) auto
qed

lemma high_byte_test: "(v AND push_bit 32 0xff000000 \<noteq> (0 :: u64)) \<longleftrightarrow> unat v \<ge> 2 ^ 56"
proof -
  have m: "push_bit 32 0xff000000 = (push_bit 56 (mask 8) :: u64)"
    by (simp add: mask_eq_exp_minus_1 push_bit_eq_mult)
  have "v AND push_bit 56 (mask 8) = push_bit 56 (drop_bit 56 v)"
    by (rule bit_word_eqI) (auto simp: bit_simps)
  then have "v AND push_bit 32 0xff000000 = 0 \<longleftrightarrow> push_bit 56 (drop_bit 56 v) = 0" by (simp only: m)
  also have "\<dots> \<longleftrightarrow> drop_bit 56 v = 0"
  proof
    assume z: "push_bit 56 (drop_bit 56 v) = 0"
    have "drop_bit 56 v = drop_bit 56 (push_bit 56 (drop_bit 56 v))"
      by (rule bit_word_eqI) (auto simp: bit_simps dest: bit_imp_le_length)
    then show "drop_bit 56 v = 0" by (simp only: z) simp
  qed simp
  also have "\<dots> \<longleftrightarrow> unat v div 2 ^ 56 = 0" by (simp add: drop_bit_eq_div unat_div flip: unat_eq_zero)
  also have "\<dots> \<longleftrightarrow> unat v < 2 ^ 56" by (simp add: div_eq_0_iff)
  finally show ?thesis by auto
qed

lemma putVarint64_if:
  "putVarint64 v =
     (if unat v \<ge> 2 ^ 56 then putHigh 8 (drop_bit 8 v) [ucast v]
      else (let buf = putBuf v; buf = buf[0 := buf ! 0 AND 0x7f] in rev buf))"
  unfolding putVarint64_def high_byte_test ..

lemma putVarint64_big:
  assumes "unat v \<ge> 2 ^ 56"
  obtains ys where "putVarint64 v = ys @ [ucast v]" "length ys = 8" "\<forall>y \<in> set ys. bit y 7"
    "groups_nat 0 ys = unat v div 256"
proof -
  have "unat v div 256 < 128 ^ 8"
    using unsigned_less [where 'a = nat, of v] by (simp add: less_mult_imp_div_less)
  then have "unat (drop_bit 8 v) mod 128 ^ 8 = unat v div 256"
    by (simp add: drop_bit_eq_div unat_div)
  then show thesis using putHigh_groups [of 8 "drop_bit 8 v" "[ucast v]"] assms that
    by (auto simp: putVarint64_if)
qed

lemma putVarint64_small:
  assumes "unat v < 2 ^ 56"
  obtains ys b where "putVarint64 v = ys @ [b]" "length (putBuf v) = length ys + 1" "length ys \<le> 7"
    "\<forall>y \<in> set ys. bit y 7" "\<not> bit b 7" "groups_nat 0 ys * 128 + unat b = unat v"
proof -
  obtain x xs where buf: "putBuf v = x # xs" and x: "x = ucast ((v AND 0x7f) OR 0x80)"
    by (metis putBuf.simps)
  have "length (putBuf v) \<le> 8" using putBuf_length [of v 7] assms by simp
  moreover have "foldr (\<lambda>b a. a * 128 + (unat b - 128)) xs 0 * 128 + unat v mod 128 = unat v"
    using putBuf_value [of v] by (simp add: buf x put_byte)
  moreover have "unat (x AND 0x7f) = unat v mod 128" by (simp add: x put_byte)
  moreover have "\<not> bit (x AND 0x7f) 7" by (simp add: masks bit_simps)
  ultimately show thesis using putBuf_tops [of v] assms
    by (intro that [of "rev xs" "x AND 0x7f"])
       (auto simp: putVarint64_if buf groups_nat_def foldl_conv_foldr)
qed

text \<open>The one- and two-byte cases of the writer only anticipate the general one.\<close>

lemma sqlite3PutVarint_eq: "sqlite3PutVarint v = putVarint64 v"
proof -
  have u: "drop_bit 7 x = 0 \<longleftrightarrow> unat x < 128" for x :: u64
    by (simp add: unat_drop_bit_7 div_eq_0_iff flip: unat_eq_zero)
  have small: "unat v \<le> 0x3fff \<Longrightarrow> \<not> unat v \<ge> 2 ^ 56" by simp
  consider "v \<le> 0x7f" | "\<not> v \<le> 0x7f" "v \<le> 0x3fff" | "\<not> v \<le> 0x7f" "\<not> v \<le> 0x3fff" by blast
  then show ?thesis
  proof cases
    case 1
    then have "unat v < 128" by (simp add: word_le_nat_alt)
    then have "putBuf v = [ucast ((v AND 0x7f) OR 0x80)]" by (subst putBuf.simps) (simp add: u)
    then show ?thesis using 1 \<open>unat v < 128\<close>
      by (simp add: sqlite3PutVarint_def putVarint64_if mark_unmark)
  next
    case 2
    then have v: "128 \<le> unat v" "unat v < 16384" by (simp_all add: word_le_nat_alt)
    moreover have "unat v div 128 < 128" using v by (simp add: less_mult_imp_div_less)
    ultimately have "putBuf v = [ucast ((v AND 0x7f) OR 0x80), ucast ((drop_bit 7 v AND 0x7f) OR 0x80)]"
      using u [of v] u [of "drop_bit 7 v"]
      by (subst putBuf.simps, subst putBuf.simps) (simp add: unat_drop_bit_7 del: drop_bit_drop_bit)
    then show ?thesis using 2 v
      by (simp add: sqlite3PutVarint_def putVarint64_if mark_unmark)
  next
    case 3
    then show ?thesis by (simp add: sqlite3PutVarint_def)
  qed
qed

section \<open>The varint as a prefix code\<close>

lemma varint_get_put: "sqlite3GetVarint (sqlite3PutVarint v @ rest) = Some (v, length (sqlite3PutVarint v))"
proof (cases "unat v < 2 ^ 56")
  case True
  then obtain ys b where w: "putVarint64 v = ys @ [b]" "length ys \<le> 7" "\<forall>y \<in> set ys. bit y 7"
      "\<not> bit b 7" "groups_nat 0 ys * 128 + unat b = unat v"
    using putVarint64_small by metis
  then have "varint_spec 0 0 (ys @ b # rest) = Some (unat v, length ys + 1)"
    using bit7_byte [of b] by (simp add: spec_groups)
  then show ?thesis using w(1) by (simp add: sqlite3PutVarint_eq get_varint_spec)
next
  case False
  then obtain ys where w: "putVarint64 v = ys @ [ucast v]" "length ys = 8" "\<forall>y \<in> set ys. bit y 7"
      "groups_nat 0 ys = unat v div 256"
    using putVarint64_big by (metis not_less)
  have "unat (ucast v :: u8) = unat v mod 256" by (simp add: unsigned_ucast_eq take_bit_eq_mod)
  then have "varint_spec 0 0 (ys @ ucast v # rest) = Some (unat v, 9)"
    using w by (simp add: spec_groups)
  then show ?thesis using w(1,2) by (simp add: sqlite3PutVarint_eq get_varint_spec)
qed

interpretation varint: prefix_code sqlite3PutVarint sqlite3GetVarint
  by unfold_locales (rule varint_get_put)

lemma varint_length: "length (sqlite3PutVarint v) = (if unat v < 2 ^ 56 then length (putBuf v) else 9)"
proof (cases "unat v < 2 ^ 56")
  case True
  then obtain ys b where "putVarint64 v = ys @ [b]" "length (putBuf v) = length ys + 1"
    using putVarint64_small by metis
  then show ?thesis using True by (simp add: sqlite3PutVarint_eq)
next
  case False
  then obtain ys where "putVarint64 v = ys @ [ucast v]" "length ys = 8"
    using putVarint64_big by (metis not_less)
  then show ?thesis using False by (simp add: sqlite3PutVarint_eq)
qed

lemma varintLenFrom_eq: "varintLenFrom i v + 1 = i + length (putBuf v)"
proof (induction i v rule: varintLenFrom.induct)
  case (1 i v)
  then show ?case by (subst varintLenFrom.simps, subst putBuf.simps) (auto simp: Let_def)
qed

lemma putBuf_length_ge: "128 ^ n \<le> unat v \<Longrightarrow> n < length (putBuf v)"
proof (induction n arbitrary: v)
  case 0
  then show ?case by (subst putBuf.simps) simp
next
  case (Suc n)
  then have "128 ^ n \<le> unat v div 128" by (simp add: less_eq_div_iff_mult_less_eq mult.commute)
  then have n: "128 ^ n \<le> unat (drop_bit 7 v)" by (simp add: unat_drop_bit_7)
  then have "drop_bit 7 v \<noteq> 0" by (metis not_one_le_zero one_le_power one_le_numeral order_trans unat_0)
  then show ?case using Suc.IH [OF n] by (subst putBuf.simps) simp
qed

lemma and_mask32: "(v :: u64) AND 0xffffffff = v \<longleftrightarrow> unat v < 2 ^ 32"
proof -
  have "v AND 0xffffffff = take_bit 32 v" by (simp add: take_bit_eq_mask mask_eq_exp_minus_1)
  then have "v AND 0xffffffff = v \<longleftrightarrow> take_bit 32 (unat v) = unat v"
    by (metis unsigned_take_bit_eq unsigned_word_eqI)
  then show ?thesis by (simp add: take_bit_nat_eq_self_iff)
qed

lemma word32_eqI_all: "list_all (\<lambda>n. bit x n = bit y n) [0..<32] \<Longrightarrow> x = (y :: u32)"
  by (rule bit_word_eqI) (simp add: list_all_iff)

lemma upt32: "[0..<32] = map nat [0,1,2,3,4,5,6,7,8,9,10,11,12,13,14,15,16,17,18,19,20,21,22,23,24,25,26,27,28,29,30,31]"
  by (simp add: upt_rec)

text \<open>The short cases of the 32-bit reader.\<close>

lemma short_values:
  "\<not> bit p0 7 \<Longrightarrow> unat (group7 0 p0) < 2 ^ 32"
  "bit p0 7 \<Longrightarrow> \<not> bit p1 7 \<Longrightarrow> unat (group7 (group7 0 p0) p1) < 2 ^ 32"
  "bit p0 7 \<Longrightarrow> bit p1 7 \<Longrightarrow> \<not> bit p2 7 \<Longrightarrow> unat (group7 (group7 (group7 0 p0) p1) p2) < 2 ^ 32"
proof -
  have z: "(0 :: u64) = of_nat 0" by simp
  note b = unat_byte_less [of p0] unat_byte_less [of p1] unat_byte_less [of p2]
  show "\<not> bit p0 7 \<Longrightarrow> unat (group7 0 p0) < 2 ^ 32"
    using b by (subst z) (simp only: group7_of_nat unat_of_nat, simp)
  show "bit p0 7 \<Longrightarrow> \<not> bit p1 7 \<Longrightarrow> unat (group7 (group7 0 p0) p1) < 2 ^ 32"
    using b by (subst z) (simp only: group7_of_nat unat_of_nat, simp)
  show "bit p0 7 \<Longrightarrow> bit p1 7 \<Longrightarrow> \<not> bit p2 7 \<Longrightarrow> unat (group7 (group7 (group7 0 p0) p1) p2) < 2 ^ 32"
    using b by (subst z) (simp only: group7_of_nat unat_of_nat, simp)
qed

lemma short_casts:
  "\<not> bit p0 7 \<Longrightarrow> ucast (group7 0 p0) = (ucast p0 :: u32)"
  "\<not> bit p1 7 \<Longrightarrow> ucast (group7 (group7 0 p0) p1) = (push_bit 7 (ucast (p0 AND 0x7f)) OR ucast p1 :: u32)"
  "\<not> bit p2 7 \<Longrightarrow> ucast (group7 (group7 (group7 0 p0) p1) p2)
     = (push_bit 14 (ucast (p0 AND 0x7f)) OR push_bit 7 (ucast (p1 AND 0x7f)) OR ucast p2 :: u32)"
  by (rule word32_eqI_all; simp add: varint_bits upt32)+

lemma getVarint32_eq:
  "getVarint32 p =
     map_option (\<lambda>(v, n). (if unat v < 2 ^ 32 then ucast v else 0xffffffff, n)) (sqlite3GetVarint p)"
proof -
  have long: "map_option (\<lambda>(v, n). (if unat v < 2 ^ 32 then ucast v else 0xffffffff, n)) r =
     do { (v64, n) \<leftarrow> r; if v64 AND 0xffffffff \<noteq> v64 then Some (0xffffffff, n) else Some (ucast v64, n) }"
    for r :: "(u64 \<times> nat) option"
    by (cases r) (auto simp: and_mask32)
  have lt: "(b < 0x80) = (\<not> bit b 7)" for b :: u8 by (simp add: bit7_byte word_less_nat_alt)
  note d = getVarint32_def sqlite3GetVarint32_def byte_at_def top_bit_byte lt
  consider "p = []" | b q where "p = b # q" "\<not> bit b 7"
    | b where "p = [b]" "bit b 7" | b c q where "p = b # c # q" "bit b 7" "\<not> bit c 7"
    | b c where "p = [b, c]" "bit b 7" "bit c 7"
    | b c e q where "p = b # c # e # q" "bit b 7" "bit c 7" "\<not> bit e 7"
    | b c e q where "p = b # c # e # q" "bit b 7" "bit c 7" "bit e 7"
    by (metis list.exhaust)
  then show ?thesis
  proof cases
    case 1 then show ?thesis by (simp add: d get_none)
  next
    case 2 then show ?thesis using short_values short_casts by (simp add: d get_exits)
  next
    case 3 then show ?thesis by (simp add: d get_none)
  next
    case 4 then show ?thesis using short_values short_casts by (simp add: d get_exits)
  next
    case 5 then show ?thesis by (simp add: d get_none)
  next
    case 6 then show ?thesis using short_values short_casts by (simp add: d get_exits)
  next
    case 7 then show ?thesis unfolding long by (simp add: d)
  qed
qed

text \<open>The fixed-width integers are a prefix code too.\<close>

interpretation be32: prefix_code sqlite3Put4byte "\<lambda>p. map_option (\<lambda>v. (v, 4)) (sqlite3Get4byte p)"
proof unfold_locales
  fix x :: u32 and rest
  have "push_bit 24 (ucast (ucast (drop_bit 24 x) :: u8)) OR push_bit 16 (ucast (ucast (drop_bit 16 x) :: u8))
        OR push_bit 8 (ucast (ucast (drop_bit 8 x) :: u8)) OR ucast (ucast x :: u8) = x"
    by (rule word32_eqI_all) (simp add: bit_simps upt32)
  then show "map_option (\<lambda>v. (v, 4)) (sqlite3Get4byte (sqlite3Put4byte x @ rest))
      = Some (x, length (sqlite3Put4byte x))"
    by (simp add: sqlite3Get4byte_def sqlite3Put4byte_def byte_at_def)
qed

section \<open>Properties\<close>

text \<open>
  C38. The unrolled reader sqlite3GetVarint, with its shared partial results and masks, computes the
  textbook value of the encoding: on every byte sequence its result is the groups of seven bits read
  most significant first (eight bits in a ninth byte) with the number of bytes taken, and it never
  reads past the byte that ends the integer (a sequence without such a byte is the only undefined
  read).
\<close>
theorem varint_reader_is_spec:
  "sqlite3GetVarint p = map_option (\<lambda>(v, n). (of_nat v, n)) (varint_spec 0 0 p)"
  by (rule get_varint_spec)

text \<open>
  C35. Variable-length integers survive the trip, whatever follows them: a sequence of 64-bit values
  written one after the other is determined by the bytes, because reading the front gives back the
  first value and its length, for every value. The length is between 1 and 9.
\<close>
theorem varint_roundtrip:
  "sqlite3GetVarint (sqlite3PutVarint v @ rest) = Some (v, length (sqlite3PutVarint v))
   \<and> 1 \<le> length (sqlite3PutVarint v) \<and> length (sqlite3PutVarint v) \<le> 9"
proof -
  have "putBuf v \<noteq> []" by (subst putBuf.simps) simp
  then have "1 \<le> length (putBuf v)" by (cases "putBuf v") auto
  moreover have "length (putBuf v) \<le> 8" if "unat v < 2 ^ 56" using putBuf_length [of v 7] that by simp
  ultimately show ?thesis by (auto simp: varint.dec_enc varint_length)
qed

text \<open>
  The 32-bit reader agrees with the 64-bit one: it takes the same bytes and returns the value,
  or the largest 32-bit number when the value does not fit.
\<close>
theorem varint32_saturates:
  "getVarint32 p =
     map_option (\<lambda>(v, n). (if unat v < 2 ^ 32 then ucast v else 0xffffffff, n)) (sqlite3GetVarint p)"
  by (rule getVarint32_eq)

text \<open>
  sqlite3VarintLen computes the number of bytes the writer uses exactly for the values below
  2 to the 63; for the larger ones, which the writer stores in nine bytes, it answers ten.
\<close>
theorem varint_len_exact_below_2_63:
  "sqlite3VarintLen v = length (sqlite3PutVarint v) + (if unat v < 2 ^ 63 then 0 else 1)"
proof -
  have len: "sqlite3VarintLen v = length (putBuf v)"
    using varintLenFrom_eq [of 1 v] by (simp add: sqlite3VarintLen_def)
  consider "unat v < 2 ^ 56" | "2 ^ 56 \<le> unat v" "unat v < 2 ^ 63" | "2 ^ 63 \<le> unat v" by linarith
  then show ?thesis
  proof cases
    case 1
    then show ?thesis by (simp add: len varint_length)
  next
    case 2
    then have "length (putBuf v) = 9" using putBuf_length [of v 8] putBuf_length_ge [of 8 v] by simp
    then show ?thesis using 2 by (simp add: len varint_length)
  next
    case 3
    then have "9 < length (putBuf v)" using putBuf_length_ge [of 9 v] by simp
    moreover have "length (putBuf v) \<le> 10"
      using putBuf_length [of v 9] unsigned_less [where 'a = nat, of v] by simp
    ultimately show ?thesis using 3 by (simp add: len varint_length)
  qed
qed

end
