(* ===== verification/Sqlite_Bitvec.thy ===== *)
theory Sqlite_Bitvec
  imports Prelude
begin

text \<open>
  The sparse bitmap of SQLite's pager: bitvec.c in src/infra/db/sqlite3.c. A Bitvec is a bitmap when it
  is small, a hash table with linear probing while it has few bits, and otherwise an array of 62
  smaller ones. The sizes are those of a 64-bit platform. Reading the union through a member that is not the
  stored one, an index outside an array and a probe that never ends are all the value None. The outcomes of
  the memory allocations are an argument: a list of answers, after which every allocation succeeds.
  The theory shows that the structure implements a set of page numbers.
\<close>

section \<open>Sizes\<close>

definition BITVEC_SZ :: nat where "BITVEC_SZ = 512"
definition BITVEC_USIZE :: nat where "BITVEC_USIZE = ((BITVEC_SZ - 3 * 4) div 8) * 8"
definition BITVEC_SZELEM :: nat where "BITVEC_SZELEM = 8"
definition BITVEC_NELEM :: nat where "BITVEC_NELEM = BITVEC_USIZE div 1"
definition BITVEC_NBIT :: nat where "BITVEC_NBIT = BITVEC_NELEM * BITVEC_SZELEM"
definition BITVEC_NINT :: nat where "BITVEC_NINT = BITVEC_USIZE div 4"
definition BITVEC_MXHASH :: nat where "BITVEC_MXHASH = BITVEC_NINT div 2"
definition BITVEC_HASH :: "nat \<Rightarrow> nat" where "BITVEC_HASH x = (x * 1) mod BITVEC_NINT"
definition BITVEC_NPTR :: nat where "BITVEC_NPTR = BITVEC_USIZE div 8"

lemmas bitvec_sizes = BITVEC_SZ_def BITVEC_USIZE_def BITVEC_SZELEM_def BITVEC_NELEM_def BITVEC_NBIT_def
  BITVEC_NINT_def BITVEC_MXHASH_def BITVEC_NPTR_def

section \<open>The structure\<close>

datatype Bitvec = Bitvec (iSize: nat) (nSet: nat) (iDivisor: nat) (bv_u: bitvec_union)
and bitvec_union = ABitmap "u8 list" | AHash "nat list" | ApSub "Bitvec option list"

text \<open>A zeroed structure with its size: zero bytes are an empty bitmap and an empty table.\<close>

definition newBitvec :: "nat \<Rightarrow> Bitvec" where
  "newBitvec n =
     Bitvec n 0 0 (if n \<le> BITVEC_NBIT then ABitmap (replicate BITVEC_NELEM 0) else AHash (replicate BITVEC_NINT 0))"

type_synonym mem = "bool list"

definition alloc :: "mem \<Rightarrow> bool \<times> mem" where
  "alloc m = (case m of [] \<Rightarrow> (True, []) | b # bs \<Rightarrow> (b, bs))"

definition sqlite3BitvecCreate :: "mem \<Rightarrow> nat \<Rightarrow> Bitvec option \<times> mem" where
  "sqlite3BitvecCreate m n = (case alloc m of (ok, m') \<Rightarrow> (if ok then Some (newBitvec n) else None, m'))"

text \<open>The decrement of an unsigned 32-bit number.\<close>

definition dec32 :: "nat \<Rightarrow> nat" where
  "dec32 i = (if i = 0 then 2 ^ 32 - 1 else i - 1)"

section \<open>Testing\<close>

partial_function (option) probeTest :: "nat list \<Rightarrow> nat \<Rightarrow> nat \<Rightarrow> bool option" where
  "probeTest t i h =
     (if h \<ge> length t then None
      else if t ! h = 0 then Some False
      else if t ! h = i then Some True
      else probeTest t i ((h + 1) mod BITVEC_NINT))"

partial_function (option) bvTestAt :: "Bitvec \<Rightarrow> nat \<Rightarrow> bool option" where
  "bvTestAt p i =
     (if iDivisor p \<noteq> 0 then
        (case bv_u p of
           ApSub subs \<Rightarrow>
             (if i div iDivisor p \<ge> length subs then None
              else case subs ! (i div iDivisor p) of
                     None \<Rightarrow> Some False
                   | Some q \<Rightarrow> bvTestAt q (i mod iDivisor p))
         | _ \<Rightarrow> None)
      else if iSize p \<le> BITVEC_NBIT then
        (case bv_u p of
           ABitmap b \<Rightarrow>
             (if i div BITVEC_SZELEM \<ge> length b then None
              else Some (b ! (i div BITVEC_SZELEM) AND push_bit (i mod BITVEC_SZELEM) 1 \<noteq> 0))
         | _ \<Rightarrow> None)
      else
        (case bv_u p of
           AHash t \<Rightarrow> probeTest t (i + 1) (BITVEC_HASH i)
         | _ \<Rightarrow> None))"

definition sqlite3BitvecTestNotNull :: "Bitvec \<Rightarrow> nat \<Rightarrow> bool option" where
  "sqlite3BitvecTestNotNull p i = (let i = dec32 i in if i \<ge> iSize p then Some False else bvTestAt p i)"

definition sqlite3BitvecTest :: "Bitvec option \<Rightarrow> nat \<Rightarrow> bool option" where
  "sqlite3BitvecTest p i = (case p of None \<Rightarrow> Some False | Some q \<Rightarrow> sqlite3BitvecTestNotNull q i)"

section \<open>Setting\<close>

definition SQLITE_OK :: nat where "SQLITE_OK = 0"
definition SQLITE_NOMEM :: nat where "SQLITE_NOMEM = 7"

text \<open>
  The search for a place in the hash table, entered at an occupied slot: None inside the result
  when the value is there already, otherwise the first free slot.
\<close>

partial_function (option) findPlace :: "nat list \<Rightarrow> nat \<Rightarrow> nat \<Rightarrow> nat option option" where
  "findPlace t i h =
     (if h \<ge> length t then None
      else if t ! h = i then Some None
      else (let h' = (if h + 1 \<ge> BITVEC_NINT then 0 else h + 1)
            in if h' \<ge> length t then None
               else if t ! h' = 0 then Some (Some h')
               else findPlace t i h'))"

definition newDivisor :: "nat \<Rightarrow> nat" where
  "newDivisor n =
     (let d = n div BITVEC_NPTR;
          d = (if n mod BITVEC_NPTR \<noteq> 0 then d + 1 else d)
      in if d < BITVEC_NBIT then BITVEC_NBIT else d)"

text \<open>
  The body of sqlite3BitvecSet after its i--, with the walk down the sub-bitmaps as a recursive
  call: the result code, the remaining allocations and the structure.
\<close>

partial_function (option) bvSetAt :: "mem \<Rightarrow> Bitvec \<Rightarrow> nat \<Rightarrow> (nat \<times> mem \<times> Bitvec) option" where
  "bvSetAt m p i =
     (if iSize p > BITVEC_NBIT \<and> iDivisor p \<noteq> 0 then
        (case bv_u p of
           ApSub subs \<Rightarrow>
             (let bin = i div iDivisor p
              in if bin \<ge> length subs then None
                 else case (case subs ! bin of None \<Rightarrow> sqlite3BitvecCreate m (iDivisor p) | Some q \<Rightarrow> (Some q, m)) of
                        (None, m') \<Rightarrow> Some (SQLITE_NOMEM, m', p)
                      | (Some q, m') \<Rightarrow>
                          Option.bind (bvSetAt m' q (i mod iDivisor p))
                            (\<lambda>(rc, m'', q'). Some (rc, m'', Bitvec (iSize p) (nSet p) (iDivisor p) (ApSub (subs[bin := Some q'])))))
         | _ \<Rightarrow> None)
      else if iSize p \<le> BITVEC_NBIT then
        (case bv_u p of
           ABitmap b \<Rightarrow>
             (let k = i div BITVEC_SZELEM
              in if k \<ge> length b then None
                 else Some (SQLITE_OK, m, Bitvec (iSize p) (nSet p) (iDivisor p)
                              (ABitmap (b[k := b ! k OR push_bit (i mod BITVEC_SZELEM) 1]))))
         | _ \<Rightarrow> None)
      else
        (case bv_u p of
           AHash t \<Rightarrow>
             (let h = BITVEC_HASH i
              in if h \<ge> length t then None
                 else case (if t ! h = 0 then Some (Some h) else findPlace t (i + 1) h) of
                   None \<Rightarrow> None
                 | Some None \<Rightarrow> Some (SQLITE_OK, m, p)
                 | Some (Some h') \<Rightarrow>
                     if t ! h = 0 \<and> nSet p < BITVEC_NINT - 1 \<or> nSet p < BITVEC_MXHASH
                     then Some (SQLITE_OK, m, Bitvec (iSize p) (nSet p + 1) (iDivisor p) (AHash (t[h' := i + 1])))
                     else if \<not> fst (alloc m) then Some (SQLITE_NOMEM, snd (alloc m), p)
                     else Option.bind
                           (bvSetAt (snd (alloc m)) (Bitvec (iSize p) (nSet p) (newDivisor (iSize p)) (ApSub (replicate BITVEC_NPTR None))) i)
                           (\<lambda>s. loopM (\<lambda>v (rc, m, p).
                              if v = 0 then Some (rc, m, p)
                              else Option.bind (bvSetAt m p (v - 1)) (\<lambda>(rc', m', p'). Some (rc OR rc', m', p'))) t s))
         | _ \<Rightarrow> None))"

definition sqlite3BitvecSet :: "mem \<Rightarrow> Bitvec option \<Rightarrow> nat \<Rightarrow> (nat \<times> mem \<times> Bitvec option) option" where
  "sqlite3BitvecSet m p i =
     (case p of
        None \<Rightarrow> Some (SQLITE_OK, m, None)
      | Some q \<Rightarrow> map_option (\<lambda>(rc, m', q'). (rc, m', Some q')) (bvSetAt m q (dec32 i)))"

section \<open>Clearing\<close>

partial_function (option) freeSlot :: "nat list \<Rightarrow> nat \<Rightarrow> nat option" where
  "freeSlot t h =
     (if h \<ge> length t then None
      else if t ! h = 0 then Some h
      else freeSlot t (if h + 1 \<ge> BITVEC_NINT then 0 else h + 1))"

text \<open>One round of the loop that rebuilds the table without the value i + 1.\<close>

definition rebuildStep :: "nat \<Rightarrow> nat \<Rightarrow> nat \<times> nat list \<Rightarrow> (nat \<times> nat list) option" where
  "rebuildStep i v s =
     (case s of (n, t) \<Rightarrow>
        if v \<noteq> 0 \<and> v \<noteq> i + 1 then map_option (\<lambda>h. (n + 1, t[h := v])) (freeSlot t (BITVEC_HASH (v - 1)))
        else Some (n, t))"

partial_function (option) bvClearAt :: "Bitvec \<Rightarrow> nat \<Rightarrow> Bitvec option" where
  "bvClearAt p i =
     (if iDivisor p \<noteq> 0 then
        (case bv_u p of
           ApSub subs \<Rightarrow>
             (let bin = i div iDivisor p
              in if bin \<ge> length subs then None
                 else case subs ! bin of
                        None \<Rightarrow> Some p
                      | Some q \<Rightarrow>
                          Option.bind (bvClearAt q (i mod iDivisor p))
                            (\<lambda>q'. Some (Bitvec (iSize p) (nSet p) (iDivisor p) (ApSub (subs[bin := Some q'])))))
         | _ \<Rightarrow> None)
      else if iSize p \<le> BITVEC_NBIT then
        (case bv_u p of
           ABitmap b \<Rightarrow>
             (let k = i div BITVEC_SZELEM
              in if k \<ge> length b then None
                 else Some (Bitvec (iSize p) (nSet p) (iDivisor p)
                              (ABitmap (b[k := b ! k AND NOT (push_bit (i mod BITVEC_SZELEM) 1)]))))
         | _ \<Rightarrow> None)
      else
        (case bv_u p of
           AHash t \<Rightarrow>
             map_option (\<lambda>(n, t'). Bitvec (iSize p) n (iDivisor p) (AHash t'))
               (loopM (rebuildStep i) t (0, replicate BITVEC_NINT 0))
         | _ \<Rightarrow> None))"

definition sqlite3BitvecClear :: "Bitvec option \<Rightarrow> nat \<Rightarrow> Bitvec option option" where
  "sqlite3BitvecClear p i = (case p of None \<Rightarrow> Some None | Some q \<Rightarrow> map_option Some (bvClearAt q (dec32 i)))"

definition sqlite3BitvecSize :: "Bitvec \<Rightarrow> nat" where
  "sqlite3BitvecSize p = iSize p"

section \<open>The hash table\<close>

declare neq0_conv [simp del]

lemma bitvec_values [simp]:
  "BITVEC_NBIT = 3968" "BITVEC_NINT = 124" "BITVEC_MXHASH = 62" "BITVEC_NPTR = 62" "BITVEC_NELEM = 496"
  "BITVEC_SZELEM = 8"
  by (simp_all add: bitvec_sizes)

text \<open>The k-th slot that a probe starting at the home position h looks at; the slots before it are taken.\<close>

definition slot :: "nat \<Rightarrow> nat \<Rightarrow> nat" where
  "slot h k = (h + k) mod 124"

definition taken :: "nat list \<Rightarrow> nat \<Rightarrow> nat \<Rightarrow> bool" where
  "taken t h k \<longleftrightarrow> (\<forall>m<k. t ! slot h m \<noteq> 0)"

lemma slot_less [simp]: "slot h k < 124" "\<not> 124 \<le> slot h k"
  by (simp_all add: slot_def not_le)

lemma slot_next: "(slot h k + 1) mod 124 = slot h (Suc k)"
  by (simp add: slot_def mod_simps)

lemma slot_next_if: "(if slot h k + 1 \<ge> 124 then 0 else slot h k + 1) = slot h (Suc k)"
proof -
  have "slot h k + 1 = 124 \<or> slot h k + 1 < 124" using slot_less [of h k] by linarith
  then show ?thesis using slot_next [of h k] by auto
qed

lemma slot_home: "BITVEC_HASH x = slot x 0"
  by (simp add: BITVEC_HASH_def slot_def)

lemma slot_reaches:
  assumes "j < 124"
  shows "\<exists>k<124. slot h k = j"
proof -
  have "slot h ((j + (124 - h mod 124)) mod 124) = (h mod 124 + (j + (124 - h mod 124))) mod 124"
    by (simp only: slot_def mod_add_left_eq mod_add_right_eq)
  also have "h mod 124 + (j + (124 - h mod 124)) = j + 124"
    using mod_less_divisor [of 124 h] by linarith
  finally have "slot h ((j + (124 - h mod 124)) mod 124) = j" using assms by simp
  then show ?thesis by (metis mod_less_divisor zero_less_numeral)
qed

text \<open>The table: its counter is the number of used slots, at least one slot is free, and every value is on its own probe path.\<close>

definition on_path :: "nat list \<Rightarrow> nat \<Rightarrow> bool" where
  "on_path t v \<longleftrightarrow> (\<exists>k<124. t ! slot (v - 1) k = v \<and> taken t (v - 1) k)"

definition used :: "nat list \<Rightarrow> nat set" where
  "used t = {j. j < length t \<and> t ! j \<noteq> 0}"

definition hash_ok :: "nat \<Rightarrow> nat \<Rightarrow> nat list \<Rightarrow> bool" where
  "hash_ok n s t \<longleftrightarrow>
     length t = 124 \<and> s = card (used t) \<and> s \<le> 123 \<and> (\<forall>v \<in> set t. v \<le> n) \<and> (\<forall>v \<in> set t. v \<noteq> 0 \<longrightarrow> on_path t v)"

lemma finite_used [simp]: "finite (used t)"
  by (simp add: used_def)

lemma hash_ok_empty: "hash_ok n 0 (replicate 124 0)"
  by (simp add: hash_ok_def used_def)

lemma free_on_path:
  assumes "length t = 124" and "card (used t) \<le> 123"
  obtains k where "k < 124" "t ! slot h k = 0" "taken t h k"
proof -
  have "used t \<noteq> {..<124}"
  proof
    assume "used t = {..<124}"
    then have "card (used t) = 124" by simp
    with assms(2) show False by simp
  qed
  then obtain j where "j < 124" "t ! j = 0" using assms(1) by (auto simp: used_def)
  then have ex: "\<exists>k. k < 124 \<and> t ! slot h k = 0" using slot_reaches [of j h] by auto
  define k where "k = (LEAST k. k < 124 \<and> t ! slot h k = 0)"
  have k: "k < 124 \<and> t ! slot h k = 0" unfolding k_def using ex by (rule LeastI_ex)
  have "t ! slot h m \<noteq> 0" if "m < k" for m
  proof
    assume "t ! slot h m = 0"
    moreover have "m < 124" using that k by simp
    ultimately have "k \<le> m" unfolding k_def by (intro Least_le) simp
    with that show False by simp
  qed
  then have "taken t h k" by (simp add: taken_def)
  with k show thesis by (intro that [of k]) simp_all
qed

text \<open>The three loops walk along the path.\<close>

lemma probeTest_walk:
  assumes "length t = 124" and "taken t h k" and "\<forall>m<k. t ! slot h m \<noteq> i"
  shows "m \<le> k \<Longrightarrow> probeTest t i (slot h m) = probeTest t i (slot h k)"
proof (induction "k - m" arbitrary: m)
  case 0
  then show ?case by simp
next
  case (Suc x)
  then have m: "m < k" by simp
  have "probeTest t i (slot h m) = probeTest t i (slot h (Suc m))"
    using assms m slot_next [of h m] by (subst probeTest.simps) (simp add: taken_def)
  also have "\<dots> = probeTest t i (slot h k)" using Suc m by simp
  finally show ?case .
qed

lemma freeSlot_walk:
  assumes "length t = 124" and "taken t h k" and "t ! slot h k = 0"
  shows "m \<le> k \<Longrightarrow> freeSlot t (slot h m) = Some (slot h k)"
proof (induction "k - m" arbitrary: m)
  case 0
  then show ?case using assms by (subst freeSlot.simps) simp
next
  case (Suc x)
  then have m: "m < k" by simp
  have "freeSlot t (slot h m) = freeSlot t (slot h (Suc m))"
    using assms m slot_next_if [of h m] by (subst freeSlot.simps) (simp add: taken_def)
  also have "\<dots> = Some (slot h k)" using Suc m by simp
  finally show ?case .
qed

lemma findPlace_free:
  assumes "length t = 124" and "taken t h k" and "t ! slot h k = 0" and "\<forall>m<k. t ! slot h m \<noteq> i"
  shows "m < k \<Longrightarrow> findPlace t i (slot h m) = Some (Some (slot h k))"
proof (induction "k - m" arbitrary: m)
  case 0
  then show ?case by simp
next
  case (Suc x)
  show ?case
  proof (cases "Suc m = k")
    case True
    then show ?thesis using assms slot_next_if [of h m] by (subst findPlace.simps) (simp add: Let_def)
  next
    case False
    then have m: "Suc m < k" using Suc by simp
    have "findPlace t i (slot h m) = findPlace t i (slot h (Suc m))"
      using assms m slot_next_if [of h m] by (subst findPlace.simps) (simp add: taken_def Let_def)
    also have "\<dots> = Some (Some (slot h k))" using Suc m by simp
    finally show ?thesis .
  qed
qed

lemma findPlace_found:
  assumes "length t = 124" and "taken t h k" and "t ! slot h k = i" and "i \<noteq> 0" and "\<forall>m<k. t ! slot h m \<noteq> i"
  shows "m \<le> k \<Longrightarrow> findPlace t i (slot h m) = Some None"
proof (induction "k - m" arbitrary: m)
  case 0
  then show ?case using assms by (subst findPlace.simps) simp
next
  case (Suc x)
  then have m: "m < k" by simp
  have "t ! slot h (Suc m) \<noteq> 0" using assms m by (cases "Suc m = k") (auto simp: taken_def)
  then have "findPlace t i (slot h m) = findPlace t i (slot h (Suc m))"
    using assms m slot_next_if [of h m] by (subst findPlace.simps) (simp add: Let_def)
  also have "\<dots> = Some None" using Suc m by simp
  finally show ?case .
qed

lemma first_on_path:
  assumes "on_path t v"
  obtains k where "k < 124" "t ! slot (v - 1) k = v" "taken t (v - 1) k" "\<forall>m<k. t ! slot (v - 1) m \<noteq> v"
proof -
  obtain k0 where k0: "k0 < 124 \<and> t ! slot (v - 1) k0 = v \<and> taken t (v - 1) k0" using assms by (auto simp: on_path_def)
  define k where "k = (LEAST k. t ! slot (v - 1) k = v)"
  have kv: "t ! slot (v - 1) k = v" unfolding k_def by (rule LeastI [of _ k0]) (use k0 in simp)
  have le: "k \<le> k0" unfolding k_def by (rule Least_le) (use k0 in simp)
  have "\<forall>m<k. t ! slot (v - 1) m \<noteq> v" unfolding k_def using not_less_Least by blast
  moreover have "taken t (v - 1) k" using k0 le by (auto simp: taken_def)
  moreover have "k < 124" using k0 le by simp
  ultimately show thesis using kv by (intro that [of k])
qed

lemma hash_test:
  assumes "hash_ok n s t"
  shows "probeTest t (i + 1) (BITVEC_HASH i) = Some (i + 1 \<in> set t)"
proof (cases "i + 1 \<in> set t")
  case True
  then have "on_path t (i + 1)" using assms by (simp add: hash_ok_def)
  then obtain k where k: "k < 124" "t ! slot i k = i + 1" "taken t i k" "\<forall>m<k. t ! slot i m \<noteq> i + 1"
    by (rule first_on_path) simp
  then have "probeTest t (i + 1) (slot i 0) = probeTest t (i + 1) (slot i k)"
    using assms by (intro probeTest_walk) (simp_all add: hash_ok_def)
  also have "\<dots> = Some True" using k assms by (subst probeTest.simps) (simp add: hash_ok_def)
  finally show ?thesis using True by (simp add: slot_home)
next
  case False
  have len: "length t = 124" using assms by (simp add: hash_ok_def)
  obtain k where k: "k < 124" "t ! slot i k = 0" "taken t i k"
    using assms free_on_path [of t i] by (auto simp: hash_ok_def)
  have "\<forall>m<k. t ! slot i m \<noteq> i + 1" using False len by (metis nth_mem slot_less)
  then have "probeTest t (i + 1) (slot i 0) = probeTest t (i + 1) (slot i k)"
    using k len by (intro probeTest_walk) simp_all
  also have "\<dots> = Some False" using k len by (subst probeTest.simps) simp
  finally show ?thesis using False by (simp add: slot_home)
qed

text \<open>Storing a value in the first free slot of its path.\<close>

lemma taken_update: "taken t h k \<Longrightarrow> v \<noteq> 0 \<Longrightarrow> length t = 124 \<Longrightarrow> taken (t[j := v]) h k"
  unfolding taken_def using slot_less(1) by (metis nth_list_update_eq nth_list_update_neq)

lemma hash_ok_store:
  assumes ok: "hash_ok n s t" and k: "k < 124" "t ! slot i k = 0" "taken t i k" and i: "i < n" and s: "s < 123"
  shows "hash_ok n (s + 1) (t[slot i k := i + 1])"
proof -
  let ?t = "t[slot i k := i + 1]"
  have len: "length t = 124" using ok by (simp add: hash_ok_def)
  have "used ?t = insert (slot i k) (used t)"
    using len by (auto simp: used_def nth_list_update)
  moreover have "slot i k \<notin> used t" using k by (simp add: used_def)
  ultimately have "card (used ?t) = s + 1" using ok by (simp add: hash_ok_def)
  moreover have "v \<le> n" if "v \<in> set ?t" for v
    using that ok i set_update_subset_insert [of t "slot i k" "i + 1"] by (auto simp: hash_ok_def)
  moreover have "on_path ?t v" if "v \<in> set ?t" "v \<noteq> 0" for v
  proof (cases "v = i + 1")
    case True
    then show ?thesis using k len taken_update [OF k(3), of "i + 1"] by (auto simp: on_path_def)
  next
    case False
    then have "v \<in> set t" using that set_update_subset_insert [of t "slot i k" "i + 1"] by auto
    then have "on_path t v" using ok that(2) by (simp add: hash_ok_def)
    then obtain k' where k': "k' < 124" "t ! slot (v - 1) k' = v" "taken t (v - 1) k'"
      unfolding on_path_def by blast
    then have "slot i k \<noteq> slot (v - 1) k'" using k(2) that(2) by metis
    then have "?t ! slot (v - 1) k' = v" using k'(2) by simp
    then show ?thesis using k' len taken_update [OF k'(3), of "i + 1"] by (auto simp: on_path_def)
  qed
  ultimately show ?thesis using len s by (simp add: hash_ok_def)
qed

lemma set_store:
  assumes "length t = 124" and "t ! slot i k = 0" and "v \<noteq> 0"
  shows "v \<in> set (t[slot i k := i + 1]) \<longleftrightarrow> v = i + 1 \<or> v \<in> set t"
proof
  assume "v \<in> set (t[slot i k := i + 1])"
  then show "v = i + 1 \<or> v \<in> set t" using set_update_subset_insert [of t "slot i k" "i + 1"] by auto
next
  assume "v = i + 1 \<or> v \<in> set t"
  then show "v \<in> set (t[slot i k := i + 1])"
  proof
    assume "v = i + 1"
    then show ?thesis using assms(1) set_update_memI [of "slot i k" t "i + 1"] by simp
  next
    assume "v \<in> set t"
    then obtain j where j: "j < length t" "t ! j = v" by (auto simp: in_set_conv_nth)
    then have "t[slot i k := i + 1] ! j = v" using assms(2,3) by (cases "j = slot i k") simp_all
    then show ?thesis using j(1) nth_mem [of j "t[slot i k := i + 1]"] by simp
  qed
qed

text \<open>What the search for a place finds.\<close>

lemma hash_place:
  assumes ok: "hash_ok n s t"
  shows "(case (if t ! slot i 0 = 0 then Some (Some (slot i 0)) else findPlace t (i + 1) (slot i 0)) of
            None \<Rightarrow> False
          | Some None \<Rightarrow> i + 1 \<in> set t
          | Some (Some h) \<Rightarrow> \<exists>k<124. h = slot i k \<and> t ! slot i k = 0 \<and> taken t i k)"
proof (cases "t ! slot i 0 = 0")
  case True
  then show ?thesis by (auto simp: taken_def intro!: exI [of _ 0])
next
  case home: False
  have len: "length t = 124" using ok by (simp add: hash_ok_def)
  show ?thesis
  proof (cases "i + 1 \<in> set t")
    case True
    then have "on_path t (i + 1)" using ok by (simp add: hash_ok_def)
    then obtain k where k: "k < 124" "t ! slot i k = i + 1" "taken t i k" "\<forall>m<k. t ! slot i m \<noteq> i + 1"
      by (rule first_on_path) simp
    then have "findPlace t (i + 1) (slot i 0) = Some None"
      using len by (intro findPlace_found [of t i k]) simp_all
    then show ?thesis using home True by simp
  next
    case False
    obtain k where k: "k < 124" "t ! slot i k = 0" "taken t i k"
      using ok free_on_path [of t i] by (auto simp: hash_ok_def)
    have "\<forall>m<k. t ! slot i m \<noteq> i + 1" using False len by (metis nth_mem slot_less(1))
    moreover have "0 < k" using home k(2) by (cases k) simp_all
    ultimately have "findPlace t (i + 1) (slot i 0) = Some (Some (slot i k))"
      using k len by (intro findPlace_free) simp_all
    then show ?thesis using home k by auto
  qed
qed

section \<open>Well-formed structures and the set they stand for\<close>

inductive bv_wf :: "Bitvec \<Rightarrow> bool" where
  wf_bitmap: "n \<le> 3968 \<Longrightarrow> length b = 496 \<Longrightarrow> bv_wf (Bitvec n s 0 (ABitmap b))"
| wf_hash: "3968 < n \<Longrightarrow> hash_ok n s t \<Longrightarrow> bv_wf (Bitvec n s 0 (AHash t))"
| wf_subs: "3968 < n \<Longrightarrow> 0 < d \<Longrightarrow> d < n \<Longrightarrow> n \<le> d * 62 \<Longrightarrow> length subs = 62 \<Longrightarrow>
    (\<forall>q. Some q \<in> set subs \<longrightarrow> iSize q = d \<and> bv_wf q) \<Longrightarrow> bv_wf (Bitvec n s d (ApSub subs))"

inductive_simps bv_wf_bitmap_iff: "bv_wf (Bitvec n s d (ABitmap b))"
inductive_simps bv_wf_hash_iff: "bv_wf (Bitvec n s d (AHash t))"
inductive_simps bv_wf_subs_iff: "bv_wf (Bitvec n s d (ApSub subs))"

lemmas bv_wf_iff = bv_wf_bitmap_iff bv_wf_hash_iff bv_wf_subs_iff

text \<open>The set of numbers, counted from 0, that a structure holds.\<close>

definition bits :: "Bitvec \<Rightarrow> nat set" where
  "bits p = {i. i < iSize p \<and> bvTestAt p i = Some True}"

lemma bits_bitmap:
  "bits (Bitvec n s 0 (ABitmap b)) = {i. i < n \<and> bit (b ! (i div 8)) (i mod 8)}"
  if "n \<le> 3968" "length b = 496"
proof -
  have "bvTestAt (Bitvec n s 0 (ABitmap b)) i = Some (bit (b ! (i div 8)) (i mod 8))" if i: "i < n" for i
  proof -
    have "\<not> 496 \<le> i div 8" using i \<open>n \<le> 3968\<close> by simp
    then show ?thesis using that \<open>n \<le> 3968\<close> \<open>length b = 496\<close>
      by (subst bvTestAt.simps) (simp add: push_bit_eq_mult)
  qed
  then show ?thesis by (auto simp: bits_def)
qed

lemma bits_hash:
  assumes "3968 < n" and "hash_ok n s t"
  shows "bits (Bitvec n s 0 (AHash t)) = {i. i < n \<and> i + 1 \<in> set t}"
proof -
  have "bvTestAt (Bitvec n s 0 (AHash t)) i = Some (i + 1 \<in> set t)" for i
    using assms hash_test [OF assms(2), of i] by (subst bvTestAt.simps) simp
  then show ?thesis by (auto simp: bits_def)
qed

lemma sub_index: "i < n \<Longrightarrow> n \<le> d * 62 \<Longrightarrow> i div d < (62 :: nat)"
  using less_mult_imp_div_less [of i 62 d] by (simp add: mult.commute)

lemma bits_subs:
  assumes "0 < d" and "n \<le> d * 62" and "length subs = 62" and "\<forall>q. Some q \<in> set subs \<longrightarrow> iSize q = d"
  shows "i \<in> bits (Bitvec n s d (ApSub subs)) \<longleftrightarrow>
           i < n \<and> (case subs ! (i div d) of None \<Rightarrow> False | Some q \<Rightarrow> i mod d \<in> bits q)"
proof (cases "i < n")
  case True
  then have bin: "i div d < 62" using assms(2) by (rule sub_index)
  then have "subs ! (i div d) \<in> set subs" using assms(3) by simp
  then have "subs ! (i div d) = Some q \<Longrightarrow> iSize q = d" for q using assms(4) by metis
  then show ?thesis using True bin assms(1,3) unfolding bits_def
    by (subst bvTestAt.simps) (auto split: option.splits)
next
  case False
  then show ?thesis by (simp add: bits_def)
qed

lemma bvTestAt_total: "bv_wf p \<Longrightarrow> i < iSize p \<Longrightarrow> bvTestAt p i = Some (i \<in> bits p)"
proof (induction p arbitrary: i rule: bv_wf.induct)
  case (wf_bitmap n b s)
  then have "\<not> 496 \<le> i div 8" by simp
  then show ?case using wf_bitmap bits_bitmap [of n b s]
    by (subst bvTestAt.simps) (simp add: push_bit_eq_mult)
next
  case (wf_hash n s t)
  then show ?case using hash_test [of n s t i] bits_hash [of n s t] by (subst bvTestAt.simps) simp
next
  case (wf_subs n d subs s)
  then have bin: "i div d < 62" using sub_index by simp
  then have mem: "subs ! (i div d) \<in> set subs" using wf_subs by simp
  have "\<forall>q. Some q \<in> set subs \<longrightarrow> iSize q = d" using wf_subs by blast
  then have b: "i \<in> bits (Bitvec n s d (ApSub subs)) \<longleftrightarrow>
     (case subs ! (i div d) of None \<Rightarrow> False | Some q \<Rightarrow> i mod d \<in> bits q)"
    using bits_subs [of d n subs i s] wf_subs by simp
  show ?case
  proof (cases "subs ! (i div d)")
    case None
    then show ?thesis using b bin wf_subs by (subst bvTestAt.simps) simp
  next
    case (Some q)
    then have "bvTestAt q (i mod d) = Some (i mod d \<in> bits q)" using wf_subs mem by simp
    then show ?thesis using Some b bin wf_subs by (subst bvTestAt.simps) simp
  qed
qed

lemma bv_wf_new: "bv_wf (newBitvec n)"
  by (simp add: newBitvec_def bv_wf_iff hash_ok_empty)

lemma bits_new: "bits (newBitvec n) = {}"
proof (cases "n \<le> 3968")
  case True
  then have "i div 8 < 496" if "i < n" for i using that by simp
  then show ?thesis using True bits_bitmap [of n "replicate 496 0" 0] by (auto simp: newBitvec_def)
next
  case False
  then show ?thesis using bits_hash [of n 0 "replicate 124 0"] hash_ok_empty by (auto simp: newBitvec_def)
qed

lemma iSize_new [simp]: "iSize (newBitvec n) = n"
  by (simp add: newBitvec_def)

section \<open>Setting a bit\<close>

text \<open>What a call of the body of sqlite3BitvecSet promises: it returns, keeps the structure
  well-formed, adds nothing but the bit, and adds it when it reports success.\<close>

definition set_post :: "nat \<Rightarrow> Bitvec \<Rightarrow> nat \<times> mem \<times> Bitvec \<Rightarrow> bool" where
  "set_post i p r \<longleftrightarrow>
     (case r of (rc, m', p') \<Rightarrow>
        bv_wf p' \<and> iSize p' = iSize p \<and> bits p' \<subseteq> insert i (bits p) \<and> (rc = SQLITE_OK \<longrightarrow> bits p' = insert i (bits p)))"

definition sets_ok :: "Bitvec \<Rightarrow> bool" where
  "sets_ok q \<longleftrightarrow> (\<forall>m j. j < iSize q \<longrightarrow> (\<exists>r. bvSetAt m q j = Some r \<and> set_post j q r))"

lemma bit_byte_mask: "k < 8 \<Longrightarrow> bit (push_bit m 1 :: u8) k \<longleftrightarrow> k = m"
  by (auto simp: bit_exp_iff)

lemma set_bitmap:
  assumes "n \<le> 3968" and "length b = 496" and "i < n"
  shows "\<exists>r. bvSetAt m (Bitvec n s 0 (ABitmap b)) i = Some r \<and> set_post i (Bitvec n s 0 (ABitmap b)) r"
proof -
  let ?b = "b[i div 8 := b ! (i div 8) OR push_bit (i mod 8) 1]"
  have k: "\<not> 496 \<le> i div 8" "i div 8 < 496" using assms by simp_all
  have "bit (?b ! (j div 8)) (j mod 8) \<longleftrightarrow> j = i \<or> bit (b ! (j div 8)) (j mod 8)" for j
  proof (cases "j div 8 = i div 8")
    case True
    then have "j mod 8 = i mod 8 \<longleftrightarrow> j = i" by (metis div_mult_mod_eq)
    moreover have "j mod 8 < 8" by simp
    ultimately show ?thesis using True k assms(2) by (simp add: bit_or_iff bit_byte_mask del: push_bit_of_1) auto
  next
    case False
    then show ?thesis by auto
  qed
  then have "bits (Bitvec n s 0 (ABitmap ?b)) = insert i (bits (Bitvec n s 0 (ABitmap b)))"
    using bits_bitmap [of n b s] bits_bitmap [of n ?b s] assms by auto
  moreover have "bvSetAt m (Bitvec n s 0 (ABitmap b)) i = Some (SQLITE_OK, m, Bitvec n s 0 (ABitmap ?b))"
    using assms k by (subst bvSetAt.simps) (simp add: Let_def)
  ultimately show ?thesis using assms by (simp add: set_post_def bv_wf_iff)
qed

lemma bits_sub_update:
  assumes wf: "bv_wf (Bitvec n s d (ApSub subs))" and i: "i < n" and q': "iSize q' = d" "bv_wf q'"
    and old: "old = (case subs ! (i div d) of None \<Rightarrow> {} | Some q \<Rightarrow> bits q)"
  shows "bv_wf (Bitvec n s d (ApSub (subs[i div d := Some q'])))"
    and "j \<in> bits (Bitvec n s d (ApSub (subs[i div d := Some q']))) \<longleftrightarrow>
           j < n \<and> (if j div d = i div d then j mod d \<in> bits q' else j \<in> bits (Bitvec n s d (ApSub subs)))"
    and "j < n \<Longrightarrow> j div d = i div d \<Longrightarrow> j \<in> bits (Bitvec n s d (ApSub subs)) \<longleftrightarrow> j mod d \<in> old"
proof -
  have d: "0 < d" "n \<le> d * 62" "length subs = 62" using wf by (simp_all add: bv_wf_iff)
  have sub: "\<forall>q. Some q \<in> set subs \<longrightarrow> iSize q = d \<and> bv_wf q" using wf by (simp add: bv_wf_iff)
  have sub': "\<forall>q. Some q \<in> set (subs[i div d := Some q']) \<longrightarrow> iSize q = d \<and> bv_wf q"
    using sub q' set_update_subset_insert [of subs "i div d" "Some q'"] by blast
  show "bv_wf (Bitvec n s d (ApSub (subs[i div d := Some q'])))"
    using wf sub' by (simp add: bv_wf_iff)
  have bin: "i div d < 62" using i d(2) by (rule sub_index)
  have b: "j \<in> bits (Bitvec n s d (ApSub subs)) \<longleftrightarrow>
       j < n \<and> (case subs ! (j div d) of None \<Rightarrow> False | Some q \<Rightarrow> j mod d \<in> bits q)" for j
    by (rule bits_subs) (use d sub in auto)
  have "j \<in> bits (Bitvec n s d (ApSub (subs[i div d := Some q']))) \<longleftrightarrow>
       j < n \<and> (case subs[i div d := Some q'] ! (j div d) of None \<Rightarrow> False | Some q \<Rightarrow> j mod d \<in> bits q)"
    by (rule bits_subs) (use d sub' in auto)
  then show "j \<in> bits (Bitvec n s d (ApSub (subs[i div d := Some q']))) \<longleftrightarrow>
           j < n \<and> (if j div d = i div d then j mod d \<in> bits q' else j \<in> bits (Bitvec n s d (ApSub subs)))"
    using b [of j] bin d(3) by simp
  show "j < n \<Longrightarrow> j div d = i div d \<Longrightarrow> j \<in> bits (Bitvec n s d (ApSub subs)) \<longleftrightarrow> j mod d \<in> old"
    using b [of j] by (simp add: old split: option.splits)
qed

lemma same_number: "(j div d = i div d \<and> j mod d = i mod d) \<longleftrightarrow> j = (i :: nat)"
  by (metis div_mult_mod_eq)

text \<open>A structure with sub-bitmaps sets bits correctly when all its smaller parts do.\<close>

lemma set_subs:
  assumes wf: "bv_wf (Bitvec n s d (ApSub subs))" and i: "i < n"
    and IH: "\<And>q. bv_wf q \<Longrightarrow> iSize q = d \<Longrightarrow> sets_ok q"
  shows "\<exists>rc m' subs'. bvSetAt m (Bitvec n s d (ApSub subs)) i = Some (rc, m', Bitvec n s d (ApSub subs'))
       \<and> set_post i (Bitvec n s d (ApSub subs)) (rc, m', Bitvec n s d (ApSub subs'))"
proof -
  let ?p = "Bitvec n s d (ApSub subs)" and ?bin = "i div d"
  have d: "3968 < n" "0 < d" "d \<noteq> 0" "n \<le> d * 62" "length subs = 62" using wf by (simp_all add: bv_wf_iff)
  have bin: "?bin < 62" using i d(4) by (rule sub_index)
  have im: "i mod d < d" using d(2) by simp
  define old where "old = (case subs ! ?bin of None \<Rightarrow> {} | Some q \<Rightarrow> bits q)"
  have go: "\<exists>rc m'' subs'. Option.bind (bvSetAt m' q (i mod d))
              (\<lambda>(rc, m'', q'). Some (rc, m'', Bitvec n s d (ApSub (subs[?bin := Some q']))))
              = Some (rc, m'', Bitvec n s d (ApSub subs')) \<and> set_post i ?p (rc, m'', Bitvec n s d (ApSub subs'))"
    if q: "bv_wf q" "iSize q = d" "bits q = old" for q m'
  proof -
    obtain rc m'' q' where r: "bvSetAt m' q (i mod d) = Some (rc, m'', q')" and post: "set_post (i mod d) q (rc, m'', q')"
      using IH [OF q(1,2)] im q(2) unfolding sets_ok_def by (metis prod_cases3)
    have q': "iSize q' = d" "bv_wf q'" "bits q' \<subseteq> insert (i mod d) old" "rc = SQLITE_OK \<Longrightarrow> bits q' = insert (i mod d) old"
      using post q by (auto simp: set_post_def)
    note upd = bits_sub_update [OF wf i q'(1,2) old_def]
    have new: "j \<in> insert i (bits ?p) \<longleftrightarrow> j < n \<and> (if j div d = ?bin then j mod d \<in> insert (i mod d) old else j \<in> bits ?p)" for j
    proof (cases "j < n")
      case True
      then show ?thesis using upd(3) [of j] same_number [of j d i] by auto
    next
      case False
      then show ?thesis using i by (auto simp: bits_def)
    qed
    have "bits (Bitvec n s d (ApSub (subs[?bin := Some q']))) \<subseteq> insert i (bits ?p)"
    proof
      fix j assume "j \<in> bits (Bitvec n s d (ApSub (subs[?bin := Some q'])))"
      then show "j \<in> insert i (bits ?p)" using upd(2) [of j] new [of j] q'(3) by auto
    qed
    moreover have "bits (Bitvec n s d (ApSub (subs[?bin := Some q']))) = insert i (bits ?p)" if "rc = SQLITE_OK"
    proof (rule set_eqI)
      fix j show "j \<in> bits (Bitvec n s d (ApSub (subs[?bin := Some q']))) \<longleftrightarrow> j \<in> insert i (bits ?p)"
        using upd(2) [of j] new [of j] q'(4) [OF that] by simp
    qed
    ultimately show ?thesis using r upd(1) by (simp add: set_post_def)
  qed
  show ?thesis
  proof (cases "subs ! ?bin")
    case None
    show ?thesis
    proof (cases "alloc m")
      case (Pair ok m')
      show ?thesis
      proof (cases ok)
        case True
        have "bvSetAt m ?p i = Option.bind (bvSetAt m' (newBitvec d) (i mod d))
              (\<lambda>(rc, m'', q'). Some (rc, m'', Bitvec n s d (ApSub (subs[?bin := Some q']))))"
          using d None bin Pair True by (subst bvSetAt.simps) (simp add: sqlite3BitvecCreate_def Let_def)
        then show ?thesis using go [OF bv_wf_new iSize_new] None by (simp add: bits_new old_def)
      next
        case False
        have "bvSetAt m ?p i = Some (SQLITE_NOMEM, m', ?p)"
          using d None bin Pair False by (subst bvSetAt.simps) (simp add: sqlite3BitvecCreate_def Let_def)
        then show ?thesis using wf by (auto simp: set_post_def SQLITE_NOMEM_def SQLITE_OK_def)
      qed
    qed
  next
    case (Some q)
    then have "Some q \<in> set subs" using bin d(5) by (metis nth_mem)
    then have q: "bv_wf q" "iSize q = d" using wf by (simp_all add: bv_wf_iff)
    have "bvSetAt m ?p i = Option.bind (bvSetAt m q (i mod d))
          (\<lambda>(rc, m'', q'). Some (rc, m'', Bitvec n s d (ApSub (subs[?bin := Some q']))))"
      using d Some bin by (subst bvSetAt.simps) (simp add: Let_def)
    then show ?thesis using go [OF q] Some by (simp add: old_def)
  qed
qed

text \<open>The loop that sets the saved values again.\<close>

definition reinsert :: "nat \<Rightarrow> nat \<times> mem \<times> Bitvec \<Rightarrow> (nat \<times> mem \<times> Bitvec) option" where
  "reinsert v s =
     (case s of (rc, m, p) \<Rightarrow>
        if v = 0 then Some (rc, m, p)
        else Option.bind (bvSetAt m p (v - 1)) (\<lambda>(rc', m', p'). Some (rc OR rc', m', p')))"

definition numbers :: "nat list \<Rightarrow> nat set" where
  "numbers t = {i. i + 1 \<in> set t}"

lemma numbers_Cons: "numbers (v # vs) = (if v = 0 then numbers vs else insert (v - 1) (numbers vs))"
  by (auto simp: numbers_def neq0_conv)

lemma reinsert_loop:
  assumes IH: "\<And>q. bv_wf q \<Longrightarrow> iSize q = d \<Longrightarrow> sets_ok q"
  shows "bv_wf (Bitvec n s d (ApSub subs)) \<Longrightarrow> \<forall>v \<in> set vs. v \<le> n \<Longrightarrow>
    \<exists>rc' m' subs'. loopM reinsert vs (rc, m, Bitvec n s d (ApSub subs)) = Some (rc', m', Bitvec n s d (ApSub subs'))
       \<and> bv_wf (Bitvec n s d (ApSub subs'))
       \<and> bits (Bitvec n s d (ApSub subs')) \<subseteq> bits (Bitvec n s d (ApSub subs)) \<union> numbers vs
       \<and> (rc' = 0 \<longrightarrow> rc = 0 \<and> bits (Bitvec n s d (ApSub subs')) = bits (Bitvec n s d (ApSub subs)) \<union> numbers vs)"
proof (induction vs arbitrary: rc m subs)
  case Nil
  then show ?case by (simp add: numbers_def)
next
  case (Cons v vs)
  show ?case
  proof (cases "v = 0")
    case True
    then show ?thesis using Cons by (simp add: reinsert_def numbers_Cons)
  next
    case False
    have "v - 1 < n" using False Cons.prems by auto
    from set_subs [OF Cons.prems(1) this IH, of m] obtain rc1 m1 subs1 where
      r: "bvSetAt m (Bitvec n s d (ApSub subs)) (v - 1) = Some (rc1, m1, Bitvec n s d (ApSub subs1))"
      and post: "set_post (v - 1) (Bitvec n s d (ApSub subs)) (rc1, m1, Bitvec n s d (ApSub subs1))"
      by blast
    have wf1: "bv_wf (Bitvec n s d (ApSub subs1))" using post by (simp add: set_post_def)
    from Cons.IH [OF wf1, of "rc OR rc1" m1] Cons.prems(2) obtain rc' m' subs' where
      l: "loopM reinsert vs (rc OR rc1, m1, Bitvec n s d (ApSub subs1)) = Some (rc', m', Bitvec n s d (ApSub subs'))"
      "bv_wf (Bitvec n s d (ApSub subs'))"
      "bits (Bitvec n s d (ApSub subs')) \<subseteq> bits (Bitvec n s d (ApSub subs1)) \<union> numbers vs"
      "rc' = 0 \<longrightarrow> rc OR rc1 = 0 \<and> bits (Bitvec n s d (ApSub subs')) = bits (Bitvec n s d (ApSub subs1)) \<union> numbers vs"
      by auto
    have "loopM reinsert (v # vs) (rc, m, Bitvec n s d (ApSub subs)) = Some (rc', m', Bitvec n s d (ApSub subs'))"
      using False r l(1) by (simp add: reinsert_def)
    moreover have "bits (Bitvec n s d (ApSub subs')) \<subseteq> bits (Bitvec n s d (ApSub subs)) \<union> numbers (v # vs)"
      using post l(3) False by (auto simp: set_post_def numbers_Cons)
    moreover have "rc' = 0 \<longrightarrow> rc = 0 \<and> bits (Bitvec n s d (ApSub subs')) = bits (Bitvec n s d (ApSub subs)) \<union> numbers (v # vs)"
      using post l(4) False by (auto simp: set_post_def numbers_Cons SQLITE_OK_def or_eq_0_iff)
    ultimately show ?thesis using l(2) by blast
  qed
qed

lemma newDivisor_bounds:
  assumes "3968 < n"
  shows "0 < newDivisor n" "newDivisor n < n" "n \<le> newDivisor n * 62"
proof -
  have "n = n div 62 * 62 + n mod 62" "n mod 62 < 62" by simp_all
  then show "0 < newDivisor n" "newDivisor n < n" "n \<le> newDivisor n * 62"
    using assms by (auto simp: newDivisor_def Let_def)
qed

lemma bits_no_subs: "0 < d \<Longrightarrow> n \<le> d * 62 \<Longrightarrow> bits (Bitvec n s d (ApSub (replicate 62 None))) = {}"
proof -
  assume d: "0 < d" "n \<le> d * 62"
  have "i \<notin> bits (Bitvec n s d (ApSub (replicate 62 None)))" for i
    using bits_subs [of d n "replicate 62 None" i s] d sub_index [of i n d] by auto
  then show ?thesis by blast
qed

lemma set_hash:
  assumes n: "3968 < n" and ok: "hash_ok n s t" and i: "i < n"
    and IH: "\<And>q. bv_wf q \<Longrightarrow> iSize q < n \<Longrightarrow> sets_ok q"
  shows "\<exists>r. bvSetAt m (Bitvec n s 0 (AHash t)) i = Some r \<and> set_post i (Bitvec n s 0 (AHash t)) r"
proof -
  let ?p = "Bitvec n s 0 (AHash t)" and ?d = "newDivisor n"
  let ?fresh = "Bitvec n s ?d (ApSub (replicate 62 None))"
  let ?place = "if t ! slot i 0 = 0 then Some (Some (slot i 0)) else findPlace t (i + 1) (slot i 0)"
  have len: "length t = 124" using ok by (simp add: hash_ok_def)
  have wf: "bv_wf ?p" using n ok by (simp add: bv_wf_iff)
  have eq: "bvSetAt m ?p i =
     (case ?place of
        None \<Rightarrow> None
      | Some None \<Rightarrow> Some (SQLITE_OK, m, ?p)
      | Some (Some h') \<Rightarrow>
          if t ! slot i 0 = 0 \<and> s < 123 \<or> s < 62 then Some (SQLITE_OK, m, Bitvec n (s + 1) 0 (AHash (t[h' := i + 1])))
          else if \<not> fst (alloc m) then Some (SQLITE_NOMEM, snd (alloc m), ?p)
          else Option.bind (bvSetAt (snd (alloc m)) ?fresh i) (loopM reinsert t))"
    using n len by (subst bvSetAt.simps) (simp add: Let_def slot_home reinsert_def [abs_def] split: option.split)
  consider (there) "?place = Some None" "i + 1 \<in> set t"
    | (free) k where "?place = Some (Some (slot i k))" "k < 124" "t ! slot i k = 0" "taken t i k"
    using hash_place [OF ok, of i] by (auto split: option.splits)
  then show ?thesis
  proof cases
    case there
    then have "i \<in> bits ?p" using bits_hash [OF n ok] i by simp
    then show ?thesis using eq there wf by (auto simp: set_post_def)
  next
    case free
    show ?thesis
    proof (cases "t ! slot i 0 = 0 \<and> s < 123 \<or> s < 62")
      case True
      then have s: "s < 123" by auto
      note ok' = hash_ok_store [OF ok free(2-4) i s]
      have "bits (Bitvec n (s + 1) 0 (AHash (t[slot i k := i + 1]))) = insert i (bits ?p)"
        using bits_hash [OF n ok] bits_hash [OF n ok'] set_store [OF len free(3)] i by auto
      moreover have "bv_wf (Bitvec n (s + 1) 0 (AHash (t[slot i k := i + 1])))" using n ok' by (simp add: bv_wf_iff)
      ultimately show ?thesis using eq free(1) True by (simp add: set_post_def)
    next
      case full: False
      note d = newDivisor_bounds [OF n]
      show ?thesis
      proof (cases "fst (alloc m)")
        case True
        have IHd: "sets_ok q" if "bv_wf q" "iSize q = ?d" for q using IH that d(2) by simp
        have wf0: "bv_wf ?fresh" using n d by (simp add: bv_wf_iff)
        have b0: "bits ?fresh = {}" using d by (intro bits_no_subs)
        from set_subs [OF wf0 i IHd, of "snd (alloc m)"] obtain rc1 m1 subs1 where
          r1: "bvSetAt (snd (alloc m)) ?fresh i = Some (rc1, m1, Bitvec n s ?d (ApSub subs1))"
          and post1: "set_post i ?fresh (rc1, m1, Bitvec n s ?d (ApSub subs1))" by blast
        have wf1: "bv_wf (Bitvec n s ?d (ApSub subs1))" using post1 by (simp add: set_post_def)
        have "\<forall>v \<in> set t. v \<le> n" using ok by (simp add: hash_ok_def)
        from reinsert_loop [OF IHd wf1 this, of rc1 m1] obtain rc' m' subs' where
          l: "loopM reinsert t (rc1, m1, Bitvec n s ?d (ApSub subs1)) = Some (rc', m', Bitvec n s ?d (ApSub subs'))"
          "bv_wf (Bitvec n s ?d (ApSub subs'))"
          "bits (Bitvec n s ?d (ApSub subs')) \<subseteq> bits (Bitvec n s ?d (ApSub subs1)) \<union> numbers t"
          "rc' = 0 \<longrightarrow> rc1 = 0 \<and> bits (Bitvec n s ?d (ApSub subs')) = bits (Bitvec n s ?d (ApSub subs1)) \<union> numbers t"
          by auto
        have "numbers t = bits ?p" using bits_hash [OF n ok] ok by (auto simp: numbers_def hash_ok_def)
        then show ?thesis using eq free(1) full True r1 l post1 b0
          by (auto simp: set_post_def SQLITE_OK_def)
      next
        case False
        then show ?thesis using eq free(1) full wf by (auto simp: set_post_def SQLITE_NOMEM_def SQLITE_OK_def)
      qed
    qed
  qed
qed

lemma bvSetAt_correct: "bv_wf p \<Longrightarrow> sets_ok p"
proof (induction "iSize p" arbitrary: p rule: less_induct)
  case less
  show ?case unfolding sets_ok_def
  proof (intro allI impI)
    fix m j assume j: "j < iSize p"
    from less.prems show "\<exists>r. bvSetAt m p j = Some r \<and> set_post j p r"
    proof cases
      case (wf_bitmap n b s)
      then show ?thesis using set_bitmap [of n b j m s] j by simp
    next
      case (wf_hash n s t)
      then show ?thesis using set_hash [of n s t j m] less.hyps j by simp
    next
      case (wf_subs n d subs s)
      have "sets_ok q" if "bv_wf q" "iSize q = d" for q using less.hyps that wf_subs by simp
      then show ?thesis using set_subs [of n s d subs j m] less.prems wf_subs(1) j by fastforce
    qed
  qed
qed

section \<open>Clearing a bit\<close>

definition clear_post :: "nat \<Rightarrow> Bitvec \<Rightarrow> Bitvec option \<Rightarrow> bool" where
  "clear_post i p r \<longleftrightarrow> (\<exists>p'. r = Some p' \<and> bv_wf p' \<and> iSize p' = iSize p \<and> bits p' = bits p - {i})"

lemma clear_bitmap:
  assumes "n \<le> 3968" and "length b = 496" and "i < n"
  shows "clear_post i (Bitvec n s 0 (ABitmap b)) (bvClearAt (Bitvec n s 0 (ABitmap b)) i)"
proof -
  let ?b = "b[i div 8 := b ! (i div 8) AND NOT (push_bit (i mod 8) 1)]"
  have k: "\<not> 496 \<le> i div 8" "i div 8 < 496" using assms by simp_all
  have "bit (?b ! (j div 8)) (j mod 8) \<longleftrightarrow> j \<noteq> i \<and> bit (b ! (j div 8)) (j mod 8)" for j
  proof (cases "j div 8 = i div 8")
    case True
    then have "j mod 8 = i mod 8 \<longleftrightarrow> j = i" by (metis div_mult_mod_eq)
    moreover have "j mod 8 < 8" by simp
    ultimately show ?thesis using True k assms(2)
      by (simp add: bit_and_iff bit_not_iff bit_byte_mask del: push_bit_of_1) auto
  next
    case False
    then show ?thesis by auto
  qed
  then have "bits (Bitvec n s 0 (ABitmap ?b)) = bits (Bitvec n s 0 (ABitmap b)) - {i}"
    using bits_bitmap [of n b s] bits_bitmap [of n ?b s] assms by auto
  moreover have "bvClearAt (Bitvec n s 0 (ABitmap b)) i = Some (Bitvec n s 0 (ABitmap ?b))"
    using assms k by (subst bvClearAt.simps) (simp add: Let_def)
  ultimately show ?thesis using assms by (simp add: clear_post_def bv_wf_iff)
qed

definition kept :: "nat \<Rightarrow> nat list \<Rightarrow> nat list" where
  "kept i = filter (\<lambda>v. v \<noteq> 0 \<and> v \<noteq> i + 1)"

lemma rebuild_loop:
  "hash_ok n c T \<Longrightarrow> c + length (kept i vs) \<le> 123 \<Longrightarrow> \<forall>v \<in> set vs. v \<le> n \<Longrightarrow>
     \<exists>c' T'. loopM (rebuildStep i) vs (c, T) = Some (c', T') \<and> hash_ok n c' T'
       \<and> (\<forall>x. x \<noteq> 0 \<longrightarrow> x \<in> set T' \<longleftrightarrow> x \<in> set T \<or> x \<in> set (kept i vs))"
proof (induction vs arbitrary: c T)
  case Nil
  then show ?case by (simp add: kept_def)
next
  case (Cons v vs)
  show ?case
  proof (cases "v \<noteq> 0 \<and> v \<noteq> i + 1")
    case False
    then show ?thesis using Cons by (auto simp: rebuildStep_def kept_def)
  next
    case True
    have len: "length T = 124" and card: "card (used T) \<le> 123" using Cons.prems(1) by (auto simp: hash_ok_def)
    obtain k where k: "k < 124" "T ! slot (v - 1) k = 0" "taken T (v - 1) k"
      using free_on_path [OF len card] by blast
    have "freeSlot T (slot (v - 1) 0) = Some (slot (v - 1) k)" using freeSlot_walk [OF len k(3,2)] by simp
    then have st: "rebuildStep i v (c, T) = Some (c + 1, T[slot (v - 1) k := v])"
      using True by (simp add: rebuildStep_def slot_home)
    have v: "v - 1 < n" "v - 1 + 1 = v" using True Cons.prems(3) by auto
    have c: "c < 123" "c + 1 + length (kept i vs) \<le> 123" using Cons.prems(2) True by (simp_all add: kept_def)
    have ok: "hash_ok n (c + 1) (T[slot (v - 1) k := v])"
      using hash_ok_store [OF Cons.prems(1) k v(1) c(1)] v(2) by simp
    have "x \<in> set (T[slot (v - 1) k := v]) \<longleftrightarrow> x = v \<or> x \<in> set T" if "x \<noteq> 0" for x
      using set_store [OF len k(2) that] v(2) by simp
    then show ?thesis using Cons.IH [OF ok c(2)] Cons.prems(3) st True by (auto simp: kept_def)
  qed
qed

lemma clear_hash:
  assumes n: "3968 < n" and ok: "hash_ok n s t" and i: "i < n"
  shows "clear_post i (Bitvec n s 0 (AHash t)) (bvClearAt (Bitvec n s 0 (AHash t)) i)"
proof -
  have "length (kept i t) \<le> length (filter (\<lambda>v. v \<noteq> 0) t)"
    unfolding kept_def by (induction t) simp_all
  also have "\<dots> = card (used t)" by (simp add: length_filter_conv_card used_def)
  finally have "0 + length (kept i t) \<le> 123" using ok by (simp add: hash_ok_def)
  moreover have "\<forall>v \<in> set t. v \<le> n" using ok by (simp add: hash_ok_def)
  ultimately obtain c' T' where r: "loopM (rebuildStep i) t (0, replicate 124 0) = Some (c', T')" "hash_ok n c' T'"
    and mem: "\<forall>x. x \<noteq> 0 \<longrightarrow> x \<in> set T' \<longleftrightarrow> x \<in> set (replicate 124 0) \<or> x \<in> set (kept i t)"
    using rebuild_loop [OF hash_ok_empty] by blast
  have "bits (Bitvec n c' 0 (AHash T')) = bits (Bitvec n s 0 (AHash t)) - {i}"
    using bits_hash [OF n ok] bits_hash [OF n r(2)] mem by (auto simp: kept_def)
  moreover have "bvClearAt (Bitvec n s 0 (AHash t)) i = Some (Bitvec n c' 0 (AHash T'))"
    using n r(1) by (subst bvClearAt.simps) simp
  ultimately show ?thesis using n r(2) by (simp add: clear_post_def bv_wf_iff)
qed

lemma bvClearAt_correct: "bv_wf p \<Longrightarrow> i < iSize p \<Longrightarrow> clear_post i p (bvClearAt p i)"
proof (induction p arbitrary: i rule: bv_wf.induct)
  case (wf_bitmap n b s)
  then show ?case by (simp add: clear_bitmap)
next
  case (wf_hash n s t)
  then show ?case by (simp add: clear_hash)
next
  case (wf_subs n d subs s)
  let ?p = "Bitvec n s d (ApSub subs)" and ?bin = "i div d"
  have wf: "bv_wf ?p" using wf_subs by (simp add: bv_wf_iff)
  have i: "i < n" using wf_subs by simp
  have bin: "?bin < 62" using i wf_subs sub_index by simp
  have d: "d \<noteq> 0" using wf_subs by simp
  show ?case
  proof (cases "subs ! ?bin")
    case None
    have "bits_here \<longleftrightarrow> False" if "bits_here = (i \<in> bits ?p)" for bits_here
      using that bits_subs [of d n subs i s] wf_subs None by simp
    then have "i \<notin> bits ?p" by blast
    moreover have "bvClearAt ?p i = Some ?p" using None bin wf_subs d by (subst bvClearAt.simps) (simp add: Let_def)
    ultimately show ?thesis using wf by (simp add: clear_post_def)
  next
    case (Some q)
    then have q: "Some q \<in> set subs" using bin wf_subs by (metis nth_mem)
    then have "clear_post (i mod d) q (bvClearAt q (i mod d))" using wf_subs by simp
    then obtain q' where q': "bvClearAt q (i mod d) = Some q'" "bv_wf q'" "iSize q' = d" "bits q' = bits q - {i mod d}"
      using q wf_subs by (auto simp: clear_post_def)
    have old: "bits q = (case subs ! ?bin of None \<Rightarrow> {} | Some q \<Rightarrow> bits q)" using Some by simp
    note upd = bits_sub_update [OF wf i q'(3,2) old]
    have "bits (Bitvec n s d (ApSub (subs[?bin := Some q']))) = bits ?p - {i}"
    proof (rule set_eqI)
      fix j
      have "j \<in> bits ?p \<Longrightarrow> j < n" by (simp add: bits_def)
      then show "j \<in> bits (Bitvec n s d (ApSub (subs[?bin := Some q']))) \<longleftrightarrow> j \<in> bits ?p - {i}"
        using upd(2) [of j] upd(3) [of j] q'(4) same_number [of j d i] by auto
    qed
    moreover have "bvClearAt ?p i = Some (Bitvec n s d (ApSub (subs[?bin := Some q'])))"
      using Some bin wf_subs d q'(1) by (subst bvClearAt.simps) (simp add: Let_def)
    ultimately show ?thesis using upd(1) by (simp add: clear_post_def)
  qed
qed

declare neq0_conv [simp]

section \<open>Sequences of operations\<close>

datatype bv_op = BSet nat | BClear nat

definition bv_do :: "nat \<times> mem \<times> Bitvec option \<Rightarrow> bv_op \<Rightarrow> (nat \<times> mem \<times> Bitvec option) option" where
  "bv_do s e =
     (case s of (rc, m, p) \<Rightarrow>
        (case e of
           BSet i \<Rightarrow> map_option (\<lambda>(rc', m', p'). (rc OR rc', m', p')) (sqlite3BitvecSet m p i)
         | BClear i \<Rightarrow> map_option (\<lambda>p'. (rc, m, p')) (sqlite3BitvecClear p i)))"

text \<open>The abstract operations on a set of page numbers; and the pages that have ever been set.\<close>

fun set_do :: "nat set \<Rightarrow> bv_op \<Rightarrow> nat set" where
  "set_do A (BSet i) = insert i A"
| "set_do A (BClear i) = A - {i}"

fun ever_set :: "nat set \<Rightarrow> bv_op \<Rightarrow> nat set" where
  "ever_set A (BSet i) = insert i A"
| "ever_set A (BClear i) = A"

text \<open>Page numbers of operations are between 1 and the size.\<close>

fun in_range :: "nat \<Rightarrow> bv_op \<Rightarrow> bool" where
  "in_range n (BSet i) = (1 \<le> i \<and> i \<le> n)"
| "in_range n (BClear i) = (1 \<le> i \<and> i \<le> n)"

definition bv_rel :: "nat \<Rightarrow> nat \<times> mem \<times> Bitvec option \<Rightarrow> nat set \<Rightarrow> bool" where
  "bv_rel n s A \<longleftrightarrow>
     (\<exists>rc m p. s = (rc, m, Some p) \<and> bv_wf p \<and> iSize p = n \<and> (rc = 0 \<longrightarrow> (\<forall>i. i \<in> bits p \<longleftrightarrow> i + 1 \<in> A)))"

definition bv_sub :: "nat \<Rightarrow> nat \<times> mem \<times> Bitvec option \<Rightarrow> nat set \<Rightarrow> bool" where
  "bv_sub n s A \<longleftrightarrow>
     (\<exists>rc m p. s = (rc, m, Some p) \<and> bv_wf p \<and> iSize p = n \<and> (\<forall>i. i \<in> bits p \<longrightarrow> i + 1 \<in> A))"

lemma bv_do_set:
  assumes "bv_wf p" and "1 \<le> i" and "i \<le> iSize p"
  shows "\<exists>rc' m' p'. bv_do (rc, m, Some p) (BSet i) = Some (rc OR rc', m', Some p') \<and> bv_wf p' \<and> iSize p' = iSize p
       \<and> bits p' \<subseteq> insert (i - 1) (bits p) \<and> (rc' = 0 \<longrightarrow> bits p' = insert (i - 1) (bits p))"
proof -
  have "i - 1 < iSize p" using assms by simp
  then obtain r where r: "bvSetAt m p (i - 1) = Some r" "set_post (i - 1) p r"
    using bvSetAt_correct [OF assms(1)] unfolding sets_ok_def by blast
  obtain rc' m' p' where "r = (rc', m', p')" by (cases r)
  then show ?thesis using r assms(2) by (auto simp: bv_do_def sqlite3BitvecSet_def dec32_def set_post_def SQLITE_OK_def)
qed

lemma bv_do_clear:
  assumes "bv_wf p" and "1 \<le> i" and "i \<le> iSize p"
  shows "\<exists>p'. bv_do (rc, m, Some p) (BClear i) = Some (rc, m, Some p') \<and> bv_wf p' \<and> iSize p' = iSize p
       \<and> bits p' = bits p - {i - 1}"
proof -
  have "i - 1 < iSize p" using assms by simp
  then show ?thesis using bvClearAt_correct [OF assms(1)] assms(2)
    by (auto simp: clear_post_def bv_do_def sqlite3BitvecClear_def dec32_def)
qed

interpretation bv: simulation bv_do set_do "bv_rel n" "in_range n" for n
proof
  fix s A e assume rel: "bv_rel n s A" and ok: "in_range n e"
  obtain rc m p where s: "s = (rc, m, Some p)" "bv_wf p" "iSize p = n" "rc = 0 \<longrightarrow> (\<forall>i. i \<in> bits p \<longleftrightarrow> i + 1 \<in> A)"
    using rel by (auto simp: bv_rel_def)
  show "\<exists>s'. bv_do s e = Some s' \<and> bv_rel n s' (set_do A e)"
  proof (cases e)
    case (BSet i)
    then have i: "1 \<le> i" "i \<le> iSize p" using ok s(3) by simp_all
    show ?thesis using bv_do_set [OF s(2) i, of rc m] BSet s i by (auto simp: bv_rel_def or_eq_0_iff)
  next
    case (BClear i)
    then have i: "1 \<le> i" "i \<le> iSize p" using ok s(3) by simp_all
    show ?thesis using bv_do_clear [OF s(2) i, of rc m] BClear s i by (auto simp: bv_rel_def)
  qed
qed

interpretation bvs: simulation bv_do ever_set "bv_sub n" "in_range n" for n
proof
  fix s A e assume rel: "bv_sub n s A" and ok: "in_range n e"
  obtain rc m p where s: "s = (rc, m, Some p)" "bv_wf p" "iSize p = n" "\<forall>i. i \<in> bits p \<longrightarrow> i + 1 \<in> A"
    using rel by (auto simp: bv_sub_def)
  show "\<exists>s'. bv_do s e = Some s' \<and> bv_sub n s' (ever_set A e)"
  proof (cases e)
    case (BSet i)
    then have i: "1 \<le> i" "i \<le> iSize p" using ok s(3) by simp_all
    obtain rc' m' p' where r: "bv_do (rc, m, Some p) (BSet i) = Some (rc OR rc', m', Some p')" "bv_wf p'" "iSize p' = n"
      "bits p' \<subseteq> insert (i - 1) (bits p)" using bv_do_set [OF s(2) i, of rc m] s(3) by blast
    have "j + 1 \<in> insert i A" if "j \<in> bits p'" for j using that r(4) s(4) i(1) by auto
    then show ?thesis using r BSet s(1) by (simp add: bv_sub_def)
  next
    case (BClear i)
    then have i: "1 \<le> i" "i \<le> iSize p" using ok s(3) by simp_all
    show ?thesis using bv_do_clear [OF s(2) i, of rc m] BClear s i by (auto simp: bv_sub_def)
  qed
qed

lemma ever_set_iff: "i \<in> fold (\<lambda>e A. ever_set A e) ops A \<longleftrightarrow> i \<in> A \<or> BSet i \<in> set ops"
proof (induction ops arbitrary: A)
  case (Cons e ops)
  then show ?case by (cases e) auto
qed simp

lemma test_bits:
  assumes "bv_wf p" and "iSize p < 2 ^ 32" and "i < 2 ^ 32"
  shows "sqlite3BitvecTest (Some p) i = Some (1 \<le> i \<and> i - 1 \<in> bits p)"
proof -
  have "i - 1 \<in> bits p \<Longrightarrow> i - 1 < iSize p" by (simp add: bits_def)
  then show ?thesis using bvTestAt_total [OF assms(1), of "i - 1"] assms
    by (auto simp: sqlite3BitvecTest_def sqlite3BitvecTestNotNull_def dec32_def Let_def)
qed

section \<open>Properties\<close>

text \<open>
  C15. A Bitvec of any size implements a set of page numbers: every sequence of sqlite3BitvecSet and
  sqlite3BitvecClear calls on pages in range returns, and when no allocation failed, sqlite3BitvecTest then
  answers membership in the set that the same operations produce, for every 32-bit number, 0 and numbers out of range
  included. The change from hash table to sub-bitmaps, at any depth, is invisible.
\<close>

theorem bitvec_refines_set:
  assumes "n < 2 ^ 32" and "list_all (in_range n) ops"
  shows "\<exists>rc m' p. loopM (\<lambda>e s. bv_do s e) ops (0, m, Some (newBitvec n)) = Some (rc, m', p)
       \<and> (rc = SQLITE_OK \<longrightarrow> (\<forall>i < 2 ^ 32. sqlite3BitvecTest p i = Some (i \<in> fold (\<lambda>e A. set_do A e) ops {})))"
proof -
  have "bv_rel n (0, m, Some (newBitvec n)) {}" by (simp add: bv_rel_def bv_wf_new bits_new)
  from bv.run_sim [OF this, of ops] assms(2) obtain s' where
    s': "loopM (\<lambda>e s. bv_do s e) ops (0, m, Some (newBitvec n)) = Some s'" "bv_rel n s' (fold (\<lambda>e A. set_do A e) ops {})"
    by (auto simp: list_all_iff)
  have pos: "0 \<notin> fold (\<lambda>e A. set_do A e) ops A" if "0 \<notin> A" for A
    using that assms(2)
  proof (induction ops arbitrary: A)
    case (Cons e ops)
    then show ?case by (cases e) simp_all
  qed simp
  obtain rc m' p where p: "s' = (rc, m', Some p)" "bv_wf p" "iSize p = n"
     "rc = 0 \<longrightarrow> (\<forall>i. i \<in> bits p \<longleftrightarrow> i + 1 \<in> fold (\<lambda>e A. set_do A e) ops {})"
    using s'(2) by (auto simp: bv_rel_def)
  have "sqlite3BitvecTest (Some p) i = Some (i \<in> fold (\<lambda>e A. set_do A e) ops {})" if "rc = 0" "i < 2 ^ 32" for i
    using test_bits [OF p(2) _ that(2)] p(3,4) that(1) assms(1) pos [of "{}"] by (cases i) auto
  then show ?thesis using s'(1) p(1) by (auto simp: SQLITE_OK_def)
qed

theorem bitvec_refines_set_witness:
  "\<exists>rc m' p. loopM (\<lambda>e s. bv_do s e) [BSet 5, BSet 7000, BClear 5] (0, [], Some (newBitvec 8000)) = Some (rc, m', p)
     \<and> (rc = SQLITE_OK \<longrightarrow> (\<forall>i < 2 ^ 32. sqlite3BitvecTest p i =
          Some (i \<in> fold (\<lambda>e A. set_do A e) [BSet 5, BSet 7000, BClear 5] {})))"
  by (rule bitvec_refines_set) simp_all

text \<open>
  C39. Whatever allocations fail, the structure stays usable: every sequence of operations returns, no loop
  runs for ever and no array is read out of bounds, and a test for any 32-bit number answers; it never says yes for a page
  that no call has set.
\<close>

theorem bitvec_survives_out_of_memory:
  assumes "n < 2 ^ 32" and "list_all (in_range n) ops" and "i < 2 ^ 32"
  shows "\<exists>rc m' p b. loopM (\<lambda>e s. bv_do s e) ops (0, m, Some (newBitvec n)) = Some (rc, m', p)
       \<and> sqlite3BitvecTest p i = Some b \<and> (b \<longrightarrow> BSet i \<in> set ops)"
proof -
  have "bv_sub n (0, m, Some (newBitvec n)) {}" by (simp add: bv_sub_def bv_wf_new bits_new)
  from bvs.run_sim [OF this, of ops] assms(2) obtain s' where
    s': "loopM (\<lambda>e s. bv_do s e) ops (0, m, Some (newBitvec n)) = Some s'" "bv_sub n s' (fold (\<lambda>e A. ever_set A e) ops {})"
    by (auto simp: list_all_iff)
  obtain rc m' p where p: "s' = (rc, m', Some p)" "bv_wf p" "iSize p = n" "\<forall>i. i \<in> bits p \<longrightarrow> BSet (i + 1) \<in> set ops"
    using s'(2) by (auto simp: bv_sub_def ever_set_iff)
  then show ?thesis using s'(1) test_bits [OF p(2) _ assms(3)] assms(1) by (cases i) auto
qed

theorem bitvec_survives_out_of_memory_witness:
  "\<exists>rc m' p b. loopM (\<lambda>e s. bv_do s e) [BSet 5] (0, [False], Some (newBitvec 8000)) = Some (rc, m', p)
     \<and> sqlite3BitvecTest p 6 = Some b \<and> (b \<longrightarrow> BSet 6 \<in> set [BSet 5])"
  by (rule bitvec_survives_out_of_memory) simp_all

end
