(* ===== verification/Sqlite_Like.thy ===== *)
theory Sqlite_Like
  imports Prelude
begin

text \<open>
  The LIKE and GLOB operators of SQLite: patternCompare of func.c with the UTF-8 reader of utf.c and the case tables of
  global.c, in src/infra/db/sqlite3.c. A C string is the list of its bytes with the
  terminating zero; reading behind the zero is the value None. Characters are 32-bit words.
  The theory shows that the function, with its early exits, decides the definition of LIKE.
\<close>

section \<open>Characters\<close>

definition sqlite3Utf8Trans1 :: "nat list" where
  "sqlite3Utf8Trans1 = [0..<32] @ [0..<16] @ [0..<8] @ [0, 1, 2, 3, 0, 1, 0, 0]"

definition is_cont :: "u8 \<Rightarrow> bool" where
  "is_cont b \<longleftrightarrow> b AND 0xc0 = 0x80"

text \<open>The loop over the continuation bytes: the value and the rest.\<close>

fun readCont :: "u32 \<Rightarrow> bytes \<Rightarrow> (u32 \<times> bytes) option" where
  "readCont c [] = None"
| "readCont c (b # z) = (if is_cont b then readCont (push_bit 6 c + (0x3f AND ucast b)) z else Some (c, b # z))"

definition sqlite3Utf8Read :: "bytes \<Rightarrow> (u32 \<times> bytes) option" where
  "sqlite3Utf8Read z =
     (case z of
        [] \<Rightarrow> None
      | b # z' \<Rightarrow>
          if b \<ge> 0xc0 then
            (case readCont (of_nat (sqlite3Utf8Trans1 ! unat (b - 0xc0))) z' of
               None \<Rightarrow> None
             | Some (c, z'') \<Rightarrow>
                 Some (if c < 0x80 \<or> c AND 0xFFFFF800 = 0xD800 \<or> c AND 0xFFFFFFFE = 0xFFFE then 0xFFFD else c, z''))
          else Some (ucast b, z'))"

fun skipCont :: "bytes \<Rightarrow> bytes option" where
  "skipCont [] = None"
| "skipCont (b # z) = (if is_cont b then skipCont z else Some (b # z))"

definition SQLITE_SKIP_UTF8 :: "bytes \<Rightarrow> bytes option" where
  "SQLITE_SKIP_UTF8 z = (case z of [] \<Rightarrow> None | b # z' \<Rightarrow> if b \<ge> 0xc0 then skipCont z' else Some z')"

definition sqlite3UpperToLower :: "u8 \<Rightarrow> u8" where
  "sqlite3UpperToLower b = (if 65 \<le> b \<and> b \<le> 90 then b + 32 else b)"

definition sqlite3Tolower :: "u32 \<Rightarrow> u32" where
  "sqlite3Tolower c = ucast (sqlite3UpperToLower (ucast c))"

definition sqlite3Toupper :: "u32 \<Rightarrow> u32" where
  "sqlite3Toupper c = c AND NOT (if 97 \<le> (ucast c :: u8) \<and> (ucast c :: u8) \<le> 122 then 0x20 else 0)"

lemma readCont_length: "readCont c z = Some (c', z') \<Longrightarrow> length z' \<le> length z"
  by (induction c z rule: readCont.induct) (auto split: if_splits)

lemma sqlite3Utf8Read_length: "sqlite3Utf8Read z = Some (c, z') \<Longrightarrow> length z' < length z"
  by (auto simp: sqlite3Utf8Read_def le_imp_less_Suc split: list.splits if_splits option.splits dest: readCont_length)

section \<open>patternCompare\<close>

record compareInfo =
  matchAll :: u32
  matchOne :: u32
  matchSet :: u32
  noCase :: bool

definition globInfo :: compareInfo where
  "globInfo = \<lparr>matchAll = 42, matchOne = 63, matchSet = 91, noCase = False\<rparr>"

definition likeInfoNorm :: compareInfo where
  "likeInfoNorm = \<lparr>matchAll = 37, matchOne = 95, matchSet = 0, noCase = True\<rparr>"

datatype match_result = SQLITE_MATCH | SQLITE_NOMATCH | SQLITE_NOWILDCARDMATCH

text \<open>
  The inner loop after a star: it skips further stars, and single-character wildcards together with a character of the
  string each. Inside the result, None when the string ends; otherwise the first other character, the
  pattern from that character on and behind it, and the string.
\<close>

function skipStars :: "compareInfo \<Rightarrow> bytes \<Rightarrow> bytes \<Rightarrow> (u32 \<times> bytes \<times> bytes \<times> bytes) option option" where
  "skipStars info zPattern zString =
     (case sqlite3Utf8Read zPattern of
        None \<Rightarrow> None
      | Some (c, zPattern') \<Rightarrow>
          if c = matchAll info \<or> c = matchOne info \<and> matchOne info \<noteq> 0 then
            (if c = matchOne info then
               (case sqlite3Utf8Read zString of
                  None \<Rightarrow> None
                | Some (c2, zString') \<Rightarrow> if c2 = 0 then Some None else skipStars info zPattern' zString')
             else skipStars info zPattern' zString)
          else Some (Some (c, zPattern, zPattern', zString)))"
  by pat_completeness auto

termination
  by (relation "measure (\<lambda>(info, p, s). length p)") (auto dest: sqlite3Utf8Read_length)

text \<open>The loop over the members of a set [...]: whether one matched, the last character read and the pattern behind it.\<close>

function setMembers :: "u32 \<Rightarrow> bool \<Rightarrow> u32 \<Rightarrow> u32 \<Rightarrow> bytes \<Rightarrow> (bool \<times> u32 \<times> bytes) option" where
  "setMembers c seen prior_c c2 zPattern =
     (if c2 = 0 \<or> c2 = 93 then Some (seen, c2, zPattern)
      else case zPattern of
        [] \<Rightarrow> None
      | b # _ \<Rightarrow>
          if c2 = 45 \<and> b \<noteq> 93 \<and> b \<noteq> 0 \<and> prior_c > 0 then
            (case sqlite3Utf8Read zPattern of
               None \<Rightarrow> None
             | Some (c2', zPattern') \<Rightarrow>
                 (case sqlite3Utf8Read zPattern' of
                    None \<Rightarrow> None
                  | Some (c2'', zPattern'') \<Rightarrow> setMembers c (seen \<or> c \<ge> prior_c \<and> c \<le> c2') 0 c2'' zPattern''))
          else
            (case sqlite3Utf8Read zPattern of
               None \<Rightarrow> None
             | Some (c2', zPattern') \<Rightarrow> setMembers c (seen \<or> c = c2) c2 c2' zPattern'))"
  by pat_completeness auto

termination
  by (relation "measure (\<lambda>(c, seen, prior, c2, p). length p)") (auto dest!: sqlite3Utf8Read_length)

text \<open>The branch for a set: None inside the result when it does not match.\<close>

definition matchCharSet :: "bytes \<Rightarrow> bytes \<Rightarrow> (bytes \<times> bytes) option option" where
  "matchCharSet zPattern zString =
     (case sqlite3Utf8Read zString of
        None \<Rightarrow> None
      | Some (c, zString') \<Rightarrow>
          if c = 0 then Some None
          else do {
            (c2, p) \<leftarrow> sqlite3Utf8Read zPattern;
            (invert, c2, p) \<leftarrow> (if c2 = 94 then map_option (\<lambda>(c2, p). (True, c2, p)) (sqlite3Utf8Read p)
                              else Some (False, c2, p));
            (seen, c2, p) \<leftarrow> (if c2 = 93 then map_option (\<lambda>(c2', p). (c = 93, c2', p)) (sqlite3Utf8Read p)
                            else Some (False, c2, p));
            (seen, c2, p) \<leftarrow> setMembers c seen 0 c2 p;
            Some (if c2 = 0 \<or> seen = invert then None else Some (p, zString')) })"

text \<open>The bytes that the search after a star stops at.\<close>

definition stopBytes :: "compareInfo \<Rightarrow> u32 \<Rightarrow> bytes" where
  "stopBytes info c = (if noCase info then [ucast (sqlite3Toupper c), ucast (sqlite3Tolower c)] else [ucast c])"

text \<open>The comparison of one character of the pattern with one of the string.\<close>

definition matchesOne :: "compareInfo \<Rightarrow> bool \<Rightarrow> u32 \<Rightarrow> u32 \<Rightarrow> bool" where
  "matchesOne info escaped c c2 \<longleftrightarrow>
     c = c2 \<or> noCase info \<and> sqlite3Tolower c = sqlite3Tolower c2 \<and> c < 0x80 \<and> c2 < 0x80
     \<or> c = matchOne info \<and> \<not> escaped \<and> c2 \<noteq> 0"

declare skipStars.simps [simp del] setMembers.simps [simp del]

lemma skipStars_length:
  "skipStars info p s = Some (Some (c, p1, p2, s')) \<Longrightarrow> length p1 \<le> length p \<and> length p2 < length p"
proof (induction "length p" arbitrary: p s rule: less_induct)
  case less
  obtain c1 q where r: "sqlite3Utf8Read p = Some (c1, q)"
    using less.prems by (subst (asm) skipStars.simps) (auto split: option.splits)
  then have q: "length q < length p" by (rule sqlite3Utf8Read_length)
  have IH: "length p1 \<le> length p \<and> length p2 < length p" if "skipStars info q t = Some (Some (c, p1, p2, s'))" for t
    using less.hyps [OF q that] q by simp
  from less.prems q show ?case
    by (subst (asm) skipStars.simps) (auto simp: r split: option.splits if_splits dest!: IH)
qed

lemma setMembers_length: "setMembers c seen prior c2 p = Some (x, y, p') \<Longrightarrow> length p' \<le> length p"
proof (induction "length p" arbitrary: seen prior c2 p rule: less_induct)
  case less
  show ?case
  proof (cases "c2 = 0 \<or> c2 = 93")
    case True
    then show ?thesis using less.prems by (subst (asm) setMembers.simps) simp
  next
    case False
    obtain c3 q where r: "sqlite3Utf8Read p = Some (c3, q)"
      using less.prems False by (subst (asm) setMembers.simps) (auto split: option.splits list.splits if_splits)
    then have q: "length q < length p" by (rule sqlite3Utf8Read_length)
    define N where "N = length p"
    have IH: "length p' \<le> N" if "setMembers c sn pr cc q = Some (x, y, p')" for sn pr cc
      using less.hyps [OF q that] q by (simp add: N_def)
    have IH2: "length p' \<le> N"
      if "sqlite3Utf8Read q = Some (c4, q2)" "setMembers c sn pr cc q2 = Some (x, y, p')" for c4 q2 sn pr cc
    proof -
      have "length q2 < length p" using sqlite3Utf8Read_length [OF that(1)] q by simp
      from less.hyps [OF this that(2)] this show ?thesis by (simp add: N_def)
    qed
    from less.prems False have "length p' \<le> N"
      by (subst (asm) setMembers.simps) (auto simp: r split: option.splits if_splits list.splits intro: IH IH2)
    then show ?thesis by (simp add: N_def)
  qed
qed

lemma matchCharSet_length: "matchCharSet p s = Some (Some (p', s')) \<Longrightarrow> length p' < length p"
  by (auto simp: matchCharSet_def split: option.splits if_splits bind_splits
        dest!: setMembers_length sqlite3Utf8Read_length)

lemma skipCont_length: "skipCont z = Some z' \<Longrightarrow> length z' \<le> length z"
  by (induction z) (auto split: if_splits)

lemma SQLITE_SKIP_UTF8_length: "SQLITE_SKIP_UTF8 z = Some z' \<Longrightarrow> length z' < length z"
  by (auto simp: SQLITE_SKIP_UTF8_def le_imp_less_Suc split: list.splits if_splits dest: skipCont_length)

text \<open>
  The function, with its three loops over the string as functions of their own: the search for an
  ASCII character after a star (by bytes, as strcspn does), for another character, and for a set.
\<close>

function (sequential) patternCompare :: "compareInfo \<Rightarrow> u32 \<Rightarrow> bytes \<Rightarrow> bytes \<Rightarrow> match_result option"
and starAscii :: "compareInfo \<Rightarrow> u32 \<Rightarrow> bytes \<Rightarrow> bytes \<Rightarrow> bytes \<Rightarrow> match_result option"
and starWide :: "compareInfo \<Rightarrow> u32 \<Rightarrow> u32 \<Rightarrow> bytes \<Rightarrow> bytes \<Rightarrow> match_result option"
and starSet :: "compareInfo \<Rightarrow> u32 \<Rightarrow> bytes \<Rightarrow> bytes \<Rightarrow> match_result option" where
  "patternCompare info matchOther zPattern zString =
     (case sqlite3Utf8Read zPattern of
        None \<Rightarrow> None
      | Some (c, p1) \<Rightarrow>
          if c = 0 then
            (case zString of [] \<Rightarrow> None | b # _ \<Rightarrow> Some (if b = 0 then SQLITE_MATCH else SQLITE_NOMATCH))
          else if c = matchAll info then
            (case skipStars info p1 zString of
               None \<Rightarrow> None
             | Some None \<Rightarrow> Some SQLITE_NOWILDCARDMATCH
             | Some (Some (c, pHere, p2, s)) \<Rightarrow>
                 if c = 0 then Some SQLITE_MATCH
                 else if c = matchOther \<and> matchSet info \<noteq> 0 then starSet info matchOther pHere s
                 else if c = matchOther then
                   (case sqlite3Utf8Read p2 of
                      None \<Rightarrow> None
                    | Some (c, p3) \<Rightarrow>
                        if c = 0 then Some SQLITE_NOWILDCARDMATCH
                        else if c < 0x80 then starAscii info matchOther (stopBytes info c) p3 s
                        else starWide info matchOther c p3 s)
                 else if c < 0x80 then starAscii info matchOther (stopBytes info c) p2 s
                 else starWide info matchOther c p2 s)
          else if c = matchOther \<and> matchSet info \<noteq> 0 then
            (case matchCharSet p1 zString of
               None \<Rightarrow> None
             | Some None \<Rightarrow> Some SQLITE_NOMATCH
             | Some (Some (p2, s)) \<Rightarrow> patternCompare info matchOther p2 s)
          else if c = matchOther then
            (case sqlite3Utf8Read p1 of
               None \<Rightarrow> None
             | Some (c, p2) \<Rightarrow>
                 if c = 0 then Some SQLITE_NOMATCH
                 else (case sqlite3Utf8Read zString of
                         None \<Rightarrow> None
                       | Some (c2, s) \<Rightarrow>
                           if matchesOne info True c c2 then patternCompare info matchOther p2 s
                           else Some SQLITE_NOMATCH))
          else
            (case sqlite3Utf8Read zString of
               None \<Rightarrow> None
             | Some (c2, s) \<Rightarrow>
                 if matchesOne info False c c2 then patternCompare info matchOther p1 s
                 else Some SQLITE_NOMATCH))"
| "starAscii info matchOther stops zPattern [] = None"
| "starAscii info matchOther stops zPattern (b # s) =
     (if b = 0 then Some SQLITE_NOWILDCARDMATCH
      else if b \<in> set stops then
        (case patternCompare info matchOther zPattern s of
           None \<Rightarrow> None
         | Some bMatch \<Rightarrow>
             if bMatch \<noteq> SQLITE_NOMATCH then Some bMatch else starAscii info matchOther stops zPattern s)
      else starAscii info matchOther stops zPattern s)"
| "starWide info matchOther c zPattern zString =
     (case sqlite3Utf8Read zString of
        None \<Rightarrow> None
      | Some (c2, s) \<Rightarrow>
          if c2 = 0 then Some SQLITE_NOWILDCARDMATCH
          else if c2 \<noteq> c then starWide info matchOther c zPattern s
          else (case patternCompare info matchOther zPattern s of
                  None \<Rightarrow> None
                | Some bMatch \<Rightarrow>
                    if bMatch \<noteq> SQLITE_NOMATCH then Some bMatch else starWide info matchOther c zPattern s))"
| "starSet info matchOther zPattern zString =
     (case zString of
        [] \<Rightarrow> None
      | b # _ \<Rightarrow>
          if b = 0 then Some SQLITE_NOWILDCARDMATCH
          else (case patternCompare info matchOther zPattern zString of
                  None \<Rightarrow> None
                | Some bMatch \<Rightarrow>
                    if bMatch \<noteq> SQLITE_NOMATCH then Some bMatch
                    else (case SQLITE_SKIP_UTF8 zString of
                            None \<Rightarrow> None
                          | Some s \<Rightarrow> starSet info matchOther zPattern s)))"
  by pat_completeness auto

termination
  by (relation "measures
       [case_sum (case_sum (\<lambda>(_, _, p, _). length p) (\<lambda>(_, _, _, p, _). length p))
                 (case_sum (\<lambda>(_, _, _, p, _). length p) (\<lambda>(_, _, p, _). length p)),
        case_sum (case_sum (\<lambda>_. 0) (\<lambda>_. 1)) (case_sum (\<lambda>_. 1) (\<lambda>_. 1)),
        case_sum (case_sum (\<lambda>(_, _, _, s). length s) (\<lambda>(_, _, _, _, s). length s))
                 (case_sum (\<lambda>(_, _, _, _, s). length s) (\<lambda>(_, _, _, s). length s))]")
     (auto dest!: sqlite3Utf8Read_length skipStars_length matchCharSet_length SQLITE_SKIP_UTF8_length)

declare patternCompare.simps [simp del] starWide.simps [simp del] starSet.simps [simp del]

text \<open>The operators: no match for a null argument is left to the caller; LIKE without ESCAPE has the escape character 0.\<close>

definition sqlite3_strglob :: "bytes option \<Rightarrow> bytes option \<Rightarrow> nat option" where
  "sqlite3_strglob zGlobPattern zString =
     (case (zString, zGlobPattern) of
        (None, _) \<Rightarrow> Some (if zGlobPattern \<noteq> None then 1 else 0)
      | (Some _, None) \<Rightarrow> Some 1
      | (Some s, Some p) \<Rightarrow>
          map_option (\<lambda>r. case r of SQLITE_MATCH \<Rightarrow> 0 | SQLITE_NOMATCH \<Rightarrow> 1 | SQLITE_NOWILDCARDMATCH \<Rightarrow> 2)
            (patternCompare globInfo 91 p s))"

definition sqlite3_strlike :: "bytes option \<Rightarrow> bytes option \<Rightarrow> u32 \<Rightarrow> nat option" where
  "sqlite3_strlike zPattern zStr esc =
     (case (zStr, zPattern) of
        (None, _) \<Rightarrow> Some (if zPattern \<noteq> None then 1 else 0)
      | (Some _, None) \<Rightarrow> Some 1
      | (Some s, Some p) \<Rightarrow>
          map_option (\<lambda>r. case r of SQLITE_MATCH \<Rightarrow> 0 | SQLITE_NOMATCH \<Rightarrow> 1 | SQLITE_NOWILDCARDMATCH \<Rightarrow> 2)
            (patternCompare likeInfoNorm esc p s))"

section \<open>Reading whole strings\<close>

text \<open>The characters of a string up to its end.\<close>

function chars :: "bytes \<Rightarrow> u32 list" where
  "chars z = (case sqlite3Utf8Read z of None \<Rightarrow> [] | Some (c, z') \<Rightarrow> if c = 0 then [] else c # chars z')"
  by pat_completeness auto

termination
  by (relation "measure length") (auto dest: sqlite3Utf8Read_length)

declare chars.simps [simp del]

definition terminated :: "bytes \<Rightarrow> bool" where
  "terminated z \<longleftrightarrow> 0 \<in> set z"

lemma not_cont [simp]: "\<not> is_cont 0" "b < 0x80 \<Longrightarrow> \<not> is_cont b"
proof -
  show "\<not> is_cont 0" by (simp add: is_cont_def)
  assume b: "b < 0x80"
  have "bit (0x80 :: u8) 7" by code_simp
  moreover have "\<not> bit b 7"
  proof -
    have "unat b < 128" using b by (simp add: word_less_nat_alt)
    moreover have "bit (unat b) 7 \<longleftrightarrow> bit b 7" by (simp add: bit_unsigned_iff)
    ultimately show ?thesis by (simp add: bit_iff_odd)
  qed
  ultimately show "\<not> is_cont b" unfolding is_cont_def by (metis bit_and_iff)
qed

lemma readCont_terminated:
  "terminated z \<Longrightarrow> \<exists>c' pre z'. readCont c z = Some (c', z') \<and> z = pre @ z' \<and> 0 \<notin> set pre \<and> terminated z' \<and> (\<forall>b \<in> set pre. is_cont b)"
proof (induction z arbitrary: c)
  case Nil
  then show ?case by (simp add: terminated_def)
next
  case (Cons b z)
  show ?case
  proof (cases "is_cont b")
    case True
    then have b: "b \<noteq> 0" by auto
    then have "terminated z" using Cons.prems by (auto simp: terminated_def)
    from Cons.IH [OF this] obtain c' pre z' where
      r: "readCont (push_bit 6 c + (0x3f AND ucast b)) z = Some (c', z')" "z = pre @ z'" "0 \<notin> set pre"
         "terminated z'" "\<forall>b \<in> set pre. is_cont b" by blast
    have "readCont c (b # z) = Some (c', z') \<and> b # z = (b # pre) @ z' \<and> 0 \<notin> set (b # pre) \<and> terminated z'
        \<and> (\<forall>x \<in> set (b # pre). is_cont x)"
      using r True b by auto
    then show ?thesis by blast
  next
    case False
    then show ?thesis using Cons.prems by (intro exI [of _ c] exI [of _ "[]"] exI [of _ "b # z"]) simp
  qed
qed

text \<open>
  One read of a terminated string: it takes a non-empty prefix without the terminator, of which
  only the first byte can be ASCII, unless it is at the end.
\<close>

lemma sqlite3Utf8Read_terminated:
  assumes "terminated z"
  obtains (end_of_string) z' where "z = 0 # z'" "sqlite3Utf8Read z = Some (0, z')"
  | (ascii) b z' where "z = b # z'" "b \<noteq> 0" "b < 0x80" "sqlite3Utf8Read z = Some (ucast b, z')" "terminated z'"
  | (wide) c b pre z' where "z = b # pre @ z'" "\<not> b < 0x80" "\<forall>x \<in> set pre. is_cont x" "0 \<notin> set pre" "0x80 \<le> c"
      "sqlite3Utf8Read z = Some (c, z')" "terminated z'"
proof (cases z)
  case Nil
  then show ?thesis using assms by (simp add: terminated_def)
next
  case (Cons b z1)
  show ?thesis
  proof (cases "b \<ge> 0xc0")
    case True
    have nz: "b \<noteq> 0" "\<not> b < 0x80" using True by (auto simp: word_le_nat_alt word_less_nat_alt)
    then have "terminated z1" using assms Cons by (auto simp: terminated_def)
    from readCont_terminated [OF this] obtain c' pre z' where
      r: "readCont (of_nat (sqlite3Utf8Trans1 ! unat (b - 0xc0))) z1 = Some (c', z')" "z1 = pre @ z'" "0 \<notin> set pre"
         "terminated z'" "\<forall>b \<in> set pre. is_cont b" by blast
    let ?c = "if c' < 0x80 \<or> c' AND 0xFFFFF800 = 0xD800 \<or> c' AND 0xFFFFFFFE = 0xFFFE then 0xFFFD else c'"
    have "0x80 \<le> ?c" by (simp add: not_less)
    moreover have "sqlite3Utf8Read z = Some (?c, z')" using True Cons r(1) by (simp add: sqlite3Utf8Read_def)
    ultimately show ?thesis using wide [of b pre z' ?c] Cons r nz by simp
  next
    case False
    then have rd: "sqlite3Utf8Read z = Some (ucast b, z1)" using Cons by (simp add: sqlite3Utf8Read_def)
    consider "b = 0" | "b \<noteq> 0" "b < 0x80" | "\<not> b < 0x80" by blast
    then show ?thesis
    proof cases
      case 1
      then show ?thesis using end_of_string rd Cons by simp
    next
      case 2
      then show ?thesis using ascii [of b z1] rd Cons assms by (simp add: terminated_def)
    next
      case 3
      then have "b \<noteq> 0" by auto
      moreover have "(0x80 :: u32) \<le> ucast b" using 3 by (simp add: word_le_nat_alt word_less_nat_alt)
      ultimately show ?thesis using wide [of b "[]" z1 "ucast b"] rd Cons assms 3 by (simp add: terminated_def)
    qed
  qed
qed

lemma ucast_ascii: "b \<noteq> 0 \<Longrightarrow> (ucast (b :: u8) :: u32) \<noteq> 0"
  by (metis unat_eq_zero unat_ucast_byte(2))

lemma chars_end: "chars (0 # z) = []"
  by (subst chars.simps) (simp add: sqlite3Utf8Read_def)

lemma chars_ascii: "b \<noteq> 0 \<Longrightarrow> b < 0x80 \<Longrightarrow> chars (b # z) = ucast b # chars z"
proof -
  assume b: "b \<noteq> 0" "b < 0x80"
  then have "\<not> 0xc0 \<le> b" by (simp add: word_le_nat_alt word_less_nat_alt)
  then show ?thesis using ucast_ascii [OF b(1)] by (subst chars.simps) (simp add: sqlite3Utf8Read_def)
qed

lemma chars_read: "sqlite3Utf8Read z = Some (c, z') \<Longrightarrow> c \<noteq> 0 \<Longrightarrow> chars z = c # chars z'"
  by (subst chars.simps) simp

text \<open>An ASCII byte of the string is a character of it, and the other way round.\<close>

lemma chars_split_ascii:
  "terminated (u @ b # v) \<Longrightarrow> 0 \<notin> set u \<Longrightarrow> b \<noteq> 0 \<Longrightarrow> b < 0x80 \<Longrightarrow> \<exists>xs. chars (u @ b # v) = xs @ ucast b # chars v"
proof (induction "length u" arbitrary: u rule: less_induct)
  case less
  show ?case
  proof (cases u)
    case Nil
    then show ?thesis using less.prems by (intro exI [of _ "[]"]) (simp add: chars_ascii)
  next
    case u: (Cons a u1)
    from less.prems(1) show ?thesis
    proof (cases rule: sqlite3Utf8Read_terminated)
      case (end_of_string z')
      then show ?thesis using less.prems u by simp
    next
      case (ascii a' z')
      then have "length u1 < length u" "terminated (u1 @ b # v)" "0 \<notin> set u1" using u less.prems by auto
      from less.hyps [OF this less.prems(3,4)] obtain xs where "chars (u1 @ b # v) = xs @ ucast b # chars v" by blast
      then show ?thesis using ascii u chars_ascii [of a "u1 @ b # v"] by (intro exI [of _ "ucast a # xs"]) simp
    next
      case (wide c a' pre z')
      then have eq: "u1 @ b # v = pre @ z'" using u by simp
      have "\<exists>u2. u1 = pre @ u2 \<and> z' = u2 @ b # v"
      proof -
        consider us where "u1 @ us = pre" "b # v = us @ z'" | us where "u1 = pre @ us" "us @ b # v = z'"
          using eq by (auto simp: append_eq_append_conv2)
        then show ?thesis
        proof cases
          case 1
          then show ?thesis using wide(3) less.prems(4) not_cont(2) by (cases us) auto
        next
          case 2
          then show ?thesis by auto
        qed
      qed
      then obtain u2 where u2: "u1 = pre @ u2" "z' = u2 @ b # v" by blast
      then have "length u2 < length u" "terminated (u2 @ b # v)" "0 \<notin> set u2" using u less.prems wide by auto
      from less.hyps [OF this less.prems(3,4)] obtain xs where "chars z' = xs @ ucast b # chars v" using u2 by blast
      moreover have "chars (u @ b # v) = c # chars z'" 
      proof (rule chars_read [OF wide(6)])
        show "c \<noteq> 0" using wide(5) by auto
      qed
      ultimately show ?thesis by (intro exI [of _ "c # xs"]) simp
    qed
  qed
qed

lemma ucast_ucast_byte [simp]: "(ucast (ucast (b :: u8) :: u32) :: u8) = b"
  by (rule bit_word_eqI) (simp add: bit_simps)

lemma wide_nonzero: "(0x80 :: u32) \<le> c \<Longrightarrow> c \<noteq> 0"
  by auto

lemma chars_locate_ascii:
  "terminated z \<Longrightarrow> drop k (chars z) = d # t \<Longrightarrow> d < 0x80 \<Longrightarrow>
     \<exists>u v. z = u @ ucast d # v \<and> 0 \<notin> set u \<and> t = chars v \<and> (ucast d :: u8) \<noteq> 0 \<and> (ucast d :: u8) < 0x80"
proof (induction "length z" arbitrary: z k rule: less_induct)
  case less
  from less.prems(1) show ?case
  proof (cases rule: sqlite3Utf8Read_terminated)
    case (end_of_string z')
    then show ?thesis using less.prems by (simp add: chars_end)
  next
    case (ascii b z')
    have ch: "chars z = ucast b # chars z'" using ascii by (simp add: chars_ascii)
    show ?thesis
    proof (cases k)
      case 0
      then have "d = ucast b" "t = chars z'" using less.prems ch by auto
      then show ?thesis using ascii by (rule_tac exI [of _ "[]"], rule_tac exI [of _ z']) simp
    next
      case (Suc k')
      then have "drop k' (chars z') = d # t" using less.prems ch by simp
      moreover have "length z' < length z" using ascii by simp
      ultimately obtain u v where "z' = u @ ucast d # v \<and> 0 \<notin> set u \<and> t = chars v \<and> (ucast d :: u8) \<noteq> 0 \<and> (ucast d :: u8) < 0x80"
        using less.hyps ascii(5) less.prems(3) by blast
      then show ?thesis using ascii by (intro exI [of _ "b # u"] exI [of _ v]) simp
    qed
  next
    case (wide c b pre z')
    have ch: "chars z = c # chars z'" using chars_read [OF wide(6) wide_nonzero [OF wide(5)]] .
    show ?thesis
    proof (cases k)
      case 0
      then have "d = c" using less.prems ch by auto
      then show ?thesis using wide(5) less.prems(3) by simp
    next
      case (Suc k')
      then have "drop k' (chars z') = d # t" using less.prems ch by simp
      moreover have "length z' < length z" using wide by simp
      ultimately obtain u v where uv: "z' = u @ ucast d # v \<and> 0 \<notin> set u \<and> t = chars v \<and> (ucast d :: u8) \<noteq> 0 \<and> (ucast d :: u8) < 0x80"
        using less.hyps wide(7) less.prems(3) by blast
      have "b \<noteq> 0" using wide(2) by auto
      then show ?thesis using uv wide by (intro exI [of _ "b # pre @ u"] exI [of _ v]) simp
    qed
  qed
qed

section \<open>The definition of LIKE\<close>

text \<open>
  Characters are compared without regard to the case of ASCII letters; an underscore matches any
  character and a percent sign any sequence.
\<close>

definition ascii_lower :: "u32 \<Rightarrow> u32" where
  "ascii_lower c = (if 65 \<le> c \<and> c \<le> 90 then c + 32 else c)"

fun like :: "u32 list \<Rightarrow> u32 list \<Rightarrow> bool" where
  "like [] s = (s = [])"
| "like (c # p) s =
     (if c = 37 then \<exists>k \<le> length s. like p (drop k s)
      else (case s of [] \<Rightarrow> False | d # s' \<Rightarrow> (c = 95 \<or> ascii_lower c = ascii_lower d) \<and> like p s'))"

lemma like_star: "like (37 # p) s \<longleftrightarrow> (\<exists>k. like p (drop k s))"
proof
  assume "\<exists>k. like p (drop k s)"
  then obtain k where k: "like p (drop k s)" by blast
  show "like (37 # p) s"
  proof (cases "k \<le> length s")
    case True
    then show ?thesis using k by auto
  next
    case False
    then have "like p (drop (length s) s)" using k by simp
    then show ?thesis by auto
  qed
qed auto

lemma like_star_drop: "like (37 # p) (drop k s) \<Longrightarrow> like (37 # p) s"
  unfolding like_star by (auto simp: add.commute)

lemma like_star_star: "like (37 # 37 # p) s \<longleftrightarrow> like (37 # p) s"
  using like_star_drop [of p _ s] unfolding like_star [of "37 # p"] by (metis drop0)

lemma like_star_one: "like (37 # 95 # p) s \<longleftrightarrow> s \<noteq> [] \<and> like (37 # p) (tl s)"
proof -
  have "like (95 # p) x \<longleftrightarrow> x \<noteq> [] \<and> like p (tl x)" for x by (cases x) simp_all
  then have "like (37 # 95 # p) s \<longleftrightarrow> (\<exists>k. drop k s \<noteq> [] \<and> like p (tl (drop k s)))" by (simp only: like_star)
  also have "\<dots> \<longleftrightarrow> s \<noteq> [] \<and> (\<exists>k. like p (drop k (tl s)))"
  proof
    assume "\<exists>k. drop k s \<noteq> [] \<and> like p (tl (drop k s))"
    then show "s \<noteq> [] \<and> (\<exists>k. like p (drop k (tl s)))" by (metis drop_Nil drop_tl tl_drop)
  next
    assume r: "s \<noteq> [] \<and> (\<exists>k. like p (drop k (tl s)))"
    then obtain k where k: "like p (drop k (tl s))" by blast
    show "\<exists>k. drop k s \<noteq> [] \<and> like p (tl (drop k s))"
    proof (cases "k < length s")
      case True
      then show ?thesis using k by (intro exI [of _ k]) (simp add: tl_drop)
    next
      case False
      then have "like p (tl (drop (length s - 1) s))" using k by (simp add: tl_drop)
      moreover have "drop (length s - 1) s \<noteq> []" using r by (cases s) simp_all
      ultimately show ?thesis by blast
    qed
  qed
  finally show ?thesis by (simp only: like_star)
qed

lemma like_star_char:
  "c \<noteq> 37 \<Longrightarrow> c \<noteq> 95 \<Longrightarrow>
     like (37 # c # p) s \<longleftrightarrow> (\<exists>k d t. drop k s = d # t \<and> ascii_lower c = ascii_lower d \<and> like p t)"
proof -
  assume c: "c \<noteq> 37" "c \<noteq> 95"
  have "like (c # p) x \<longleftrightarrow> (\<exists>d t. x = d # t \<and> ascii_lower c = ascii_lower d \<and> like p t)" for x
    using c by (cases x) simp_all
  then show ?thesis by (simp only: like_star)
qed

text \<open>The tables give this comparison.\<close>

lemma ascii_byte: "c < 0x80 \<Longrightarrow> (ucast (ucast c :: u8) :: u32) = c"
proof -
  assume "c < 0x80"
  then have "unat c < 256" by (simp add: word_less_nat_alt)
  then show ?thesis by (intro unsigned_word_eqI [where 'a = nat]) (simp add: unsigned_ucast_eq unsigned_take_bit_eq take_bit_nat_eq_self)
qed

lemma upper_letters: "\<forall>n \<in> set [97..<123]. (of_nat n :: u32) AND NOT 0x20 = of_nat (n - 32)"
  by code_simp

lemma tables_ascii:
  assumes "c < 0x80"
  shows "sqlite3Tolower c = ascii_lower c"
    and "sqlite3Toupper c = (if 97 \<le> c \<and> c \<le> 122 then c - 32 else c)"
proof -
  have n: "unat c < 128" using assms by (simp add: word_less_nat_alt)
  have u8: "unat (ucast c :: u8) = unat c" using n by (simp add: unsigned_ucast_eq take_bit_nat_eq_self)
  have cmp: "65 \<le> (ucast c :: u8) \<longleftrightarrow> 65 \<le> c" "(ucast c :: u8) \<le> 90 \<longleftrightarrow> c \<le> 90"
     "97 \<le> (ucast c :: u8) \<longleftrightarrow> 97 \<le> c" "(ucast c :: u8) \<le> 122 \<longleftrightarrow> c \<le> 122"
    using u8 by (simp_all add: word_le_nat_alt)
  have "ucast ((ucast c :: u8) + 32) = c + 32" if "c \<le> 90"
  proof (rule unsigned_word_eqI [where 'a = nat])
    have "unat c \<le> 90" using that by (simp add: word_le_nat_alt)
    then show "unat (ucast ((ucast c :: u8) + 32) :: u32) = unat (c + 32)"
      using u8 by (simp add: unat_word_ariths)
  qed
  then show "sqlite3Tolower c = ascii_lower c"
    using cmp ascii_byte [OF assms] by (simp add: sqlite3Tolower_def sqlite3UpperToLower_def ascii_lower_def)
  have "c AND NOT 0x20 = c - 32" if "97 \<le> c" "c \<le> 122"
  proof -
    have n': "97 \<le> unat c" "unat c < 123" using that by (simp_all add: word_le_nat_alt)
    then have m: "unat c \<in> set [97..<123]" by (simp only: set_upt atLeastLessThan_iff)
    have "(of_nat (unat c) :: u32) AND NOT 0x20 = of_nat (unat c - 32)" using upper_letters m by blast
    moreover have "of_nat (unat c - 32) = c - 32" using n' by (simp add: of_nat_diff)
    ultimately show ?thesis by simp
  qed
  then show "sqlite3Toupper c = (if 97 \<le> c \<and> c \<le> 122 then c - 32 else c)"
    using cmp by (auto simp: sqlite3Toupper_def)
qed

lemma unat_ascii_lower: "unat (ascii_lower x) = (if 65 \<le> unat x \<and> unat x \<le> 90 then unat x + 32 else unat x)"
proof (cases "65 \<le> unat x \<and> unat x \<le> 90")
  case True
  then show ?thesis by (simp add: ascii_lower_def word_le_nat_alt unat_word_ariths)
next
  case False
  then show ?thesis by (auto simp: ascii_lower_def word_le_nat_alt)
qed

lemma ascii_lower_wide: "0x80 \<le> c \<Longrightarrow> ascii_lower c = ascii_lower d \<longleftrightarrow> c = d"
proof -
  assume c: "0x80 \<le> c"
  then have "ascii_lower c = c" by (auto simp: ascii_lower_def word_le_nat_alt)
  moreover have "ascii_lower d = d \<or> ascii_lower d < 0x80"
  proof (cases "65 \<le> d \<and> d \<le> 90")
    case True
    then have "unat d \<le> 90" by (simp add: word_le_nat_alt)
    then have "unat (d + 32) < 128" by (simp add: unat_word_ariths)
    then show ?thesis using True by (simp add: ascii_lower_def word_less_nat_alt)
  next
    case False
    then show ?thesis by (auto simp: ascii_lower_def)
  qed
  ultimately show ?thesis using c by auto
qed

lemma matchesOne_like:
  assumes "c \<noteq> 0" "c \<noteq> 37"
  shows "matchesOne likeInfoNorm False c c2 \<longleftrightarrow> c2 \<noteq> 0 \<and> (c = 95 \<or> ascii_lower c = ascii_lower c2)"
proof -
  have z: "ascii_lower c = ascii_lower 0 \<longleftrightarrow> c = 0"
    unfolding word_unat_eq_iff [of "ascii_lower c"] unat_ascii_lower by (auto simp: unat_eq_zero)
  consider "c < 0x80" "c2 < 0x80" | "0x80 \<le> c" | "0x80 \<le> c2" using linorder_not_less by blast
  then show ?thesis
  proof cases
    case 1
    then show ?thesis using z assms by (auto simp: matchesOne_def likeInfoNorm_def tables_ascii)
  next
    case 2
    then show ?thesis using ascii_lower_wide [OF 2, of c2] z assms
      by (auto simp: matchesOne_def likeInfoNorm_def)
  next
    case 3
    have "ascii_lower c = ascii_lower c2 \<longleftrightarrow> c2 = c" using ascii_lower_wide [OF 3, of c] by metis
    then show ?thesis using 3 z assms wide_nonzero [OF 3] by (auto simp: matchesOne_def likeInfoNorm_def)
  qed
qed

text \<open>Two ASCII codes are the same letter exactly when one is the other in upper or lower case.\<close>

lemma case_arith:
  fixes m k :: nat
  assumes "m < 128" and "m \<noteq> 0"
  shows "(k = (if 97 \<le> m \<and> m \<le> 122 then m - 32 else m) \<or> k = (if 65 \<le> m \<and> m \<le> 90 then m + 32 else m)) \<longleftrightarrow>
    (k \<noteq> 0 \<and> k < 128 \<and> (if 65 \<le> m \<and> m \<le> 90 then m + 32 else m) = (if 65 \<le> k \<and> k \<le> 90 then k + 32 else k))"
proof -
  consider "97 \<le> m" "m \<le> 122" | "65 \<le> m" "m \<le> 90" | "\<not> (97 \<le> m \<and> m \<le> 122)" "\<not> (65 \<le> m \<and> m \<le> 90)" by linarith
  then show ?thesis
  proof cases
    case 1
    then have "(k = m - 32 \<or> k = m) \<longleftrightarrow> k \<noteq> 0 \<and> k < 128 \<and> m = (if 65 \<le> k \<and> k \<le> 90 then k + 32 else k)"
      by presburger
    then show ?thesis using 1 by simp
  next
    case 2
    then have "(k = m \<or> k = m + 32) \<longleftrightarrow> k \<noteq> 0 \<and> k < 128 \<and> m + 32 = (if 65 \<le> k \<and> k \<le> 90 then k + 32 else k)"
      by presburger
    then show ?thesis using 2 by simp
  next
    case 3
    then have "k = m \<longleftrightarrow> k \<noteq> 0 \<and> k < 128 \<and> m = (if 65 \<le> k \<and> k \<le> 90 then k + 32 else k)"
      using assms by presburger
    then show ?thesis using 3 by auto
  qed
qed

lemma unat_numeral_128: "unat (0x80 :: u8) = 128"
  by simp

lemma stopBytes_like:
  assumes "c < 0x80" and "c \<noteq> 0"
  shows "b \<in> set (stopBytes likeInfoNorm c) \<longleftrightarrow> b \<noteq> 0 \<and> b < 0x80 \<and> ascii_lower c = ascii_lower (ucast b)"
proof -
  let ?u = "if 97 \<le> c \<and> c \<le> 122 then c - 32 else c"
  have n: "unat c < 128" "unat c \<noteq> 0" using assms by (simp_all add: word_less_nat_alt unat_eq_zero)
  have ule: "(65 \<le> x \<longleftrightarrow> 65 \<le> unat x) \<and> (x \<le> 90 \<longleftrightarrow> unat x \<le> 90) \<and> (97 \<le> x \<longleftrightarrow> 97 \<le> unat x) \<and> (x \<le> 122 \<longleftrightarrow> unat x \<le> 122)"
    for x :: u32 by (simp add: word_le_nat_alt)
  have sub: "97 \<le> unat c \<Longrightarrow> unat (c - 32) = unat c - 32" by (simp add: unat_sub word_le_nat_alt)
  have b8: "unat (ucast x :: u8) = unat x" if "unat x < 256" for x :: u32
    using that by (simp add: unsigned_ucast_eq unsigned_take_bit_eq take_bit_nat_eq_self)
  note low = unat_ascii_lower
  have up: "unat ?u = (if 97 \<le> unat c \<and> unat c \<le> 122 then unat c - 32 else unat c)"
    using ule [of c] sub by simp
  have lo8: "unat (ucast (ascii_lower c) :: u8) = unat (ascii_lower c)" by (rule b8) (use low [of c] n in auto)
  have up8: "unat (ucast ?u :: u8) = unat ?u" by (rule b8) (use up n in auto)
  have "b \<in> set (stopBytes likeInfoNorm c) \<longleftrightarrow> unat b = unat ?u \<or> unat b = unat (ascii_lower c)"
    using lo8 up8 by (simp add: stopBytes_def likeInfoNorm_def tables_ascii [OF assms(1)] word_unat_eq_iff [of b])
  also have "\<dots> \<longleftrightarrow> unat b \<noteq> 0 \<and> unat b < 128 \<and> unat (ascii_lower c) = unat (ascii_lower (ucast b))"
    unfolding up low [of c] low [of "ucast b"] unat_ucast_byte
    by (rule case_arith [of "unat c" "unat b"]) (use n in simp_all)
  also have "\<dots> \<longleftrightarrow> b \<noteq> 0 \<and> b < 0x80 \<and> ascii_lower c = ascii_lower (ucast b)"
    using word_unat_eq_iff [of "ascii_lower c" "ascii_lower (ucast b)"]
    by (simp only: word_less_nat_alt unat_eq_zero unat_numeral_128)
  finally show ?thesis .
qed

section \<open>The function decides LIKE\<close>

text \<open>
  The meaning of the three results: a match is a match, and a failure in spite of wildcards means that
  no suffix of the string matches either, so that an enclosing search may give up.
\<close>

definition like_post :: "u32 list \<Rightarrow> u32 list \<Rightarrow> match_result option \<Rightarrow> bool" where
  "like_post P S res \<longleftrightarrow>
     (\<exists>r. res = Some r \<and> (r = SQLITE_MATCH \<longleftrightarrow> like P S) \<and> (r = SQLITE_NOWILDCARDMATCH \<longrightarrow> (\<forall>k. \<not> like P (drop k S))))"

definition star_post :: "bool \<Rightarrow> match_result option \<Rightarrow> bool" where
  "star_post matches res \<longleftrightarrow> res = Some (if matches then SQLITE_MATCH else SQLITE_NOWILDCARDMATCH)"

lemma like_info [simp]:
  "matchAll likeInfoNorm = 37" "matchOne likeInfoNorm = 95" "matchSet likeInfoNorm = 0" "noCase likeInfoNorm"
  by (simp_all add: likeInfoNorm_def)

text \<open>The characters of the pattern from a character that has been read.\<close>

definition from_char :: "u32 \<Rightarrow> bytes \<Rightarrow> u32 list" where
  "from_char c p = (if c = 0 then [] else c # chars p)"

lemma read_from_char:
  assumes "terminated p"
  shows "\<exists>c p'. sqlite3Utf8Read p = Some (c, p') \<and> chars p = from_char c p' \<and> (c \<noteq> 0 \<longrightarrow> terminated p')"
  using assms
proof (cases rule: sqlite3Utf8Read_terminated)
  case (ascii b z')
  then show ?thesis using ucast_ascii by (auto simp: from_char_def chars_ascii)
next
  case (wide c b pre z')
  then show ?thesis using chars_read [OF wide(6) wide_nonzero [OF wide(5)]] wide_nonzero [OF wide(5)]
    by (auto simp: from_char_def)
qed (auto simp: from_char_def chars_end)

lemma skipStars_like:
  "terminated p \<Longrightarrow> terminated s \<Longrightarrow>
     skipStars likeInfoNorm p s = Some None \<and> \<not> like (37 # chars p) (chars s)
   \<or> (\<exists>c ph p2 s'. skipStars likeInfoNorm p s = Some (Some (c, ph, p2, s')) \<and> terminated s' \<and> c \<noteq> 37 \<and> c \<noteq> 95
        \<and> (c \<noteq> 0 \<longrightarrow> terminated p2) \<and> (like (37 # chars p) (chars s) \<longleftrightarrow> like (37 # from_char c p2) (chars s')))"
proof (induction "length p" arbitrary: p s rule: less_induct)
  case less
  obtain c p' where r: "sqlite3Utf8Read p = Some (c, p')" "chars p = from_char c p'" "c \<noteq> 0 \<longrightarrow> terminated p'"
    using read_from_char [OF less.prems(1)] by blast
  have len: "length p' < length p" using r(1) by (rule sqlite3Utf8Read_length)
  consider "c = 37" | "c = 95" | "c \<noteq> 37" "c \<noteq> 95" by blast
  then show ?case
  proof cases
    case 1
    then have eq: "skipStars likeInfoNorm p s = skipStars likeInfoNorm p' s"
      using r(1) by (subst skipStars.simps) simp
    have "terminated p'" using r(3) 1 by simp
    moreover have "chars p = 37 # chars p'" using 1 r(2) by (simp add: from_char_def)
    then have "like (37 # chars p) (chars s) \<longleftrightarrow> like (37 # chars p') (chars s)" by (simp only: like_star_star)
    ultimately show ?thesis using less.hyps [OF len _ less.prems(2)] unfolding eq by blast
  next
    case 2
    have p': "terminated p'" using r(3) 2 by simp
    obtain d s' where rs: "sqlite3Utf8Read s = Some (d, s')" "chars s = from_char d s'" "d \<noteq> 0 \<longrightarrow> terminated s'"
      using read_from_char [OF less.prems(2)] by blast
    show ?thesis
    proof (cases "d = 0")
      case True
      then have "skipStars likeInfoNorm p s = Some None" using r(1) rs(1) 2 by (subst skipStars.simps) simp
      moreover have "\<not> like (37 # chars p) (chars s)"
        unfolding r(2) rs(2) using 2 True by (simp only: from_char_def like_star_one) simp
      ultimately show ?thesis by blast
    next
      case False
      then have eq: "skipStars likeInfoNorm p s = skipStars likeInfoNorm p' s'"
        using r(1) rs(1) 2 by (subst skipStars.simps) simp
      have "terminated s'" using rs(3) False by simp
      moreover have "chars p = 95 # chars p'" "chars s = d # chars s'" using 2 False r(2) rs(2) by (simp_all add: from_char_def)
      then have "like (37 # chars p) (chars s) \<longleftrightarrow> like (37 # chars p') (chars s')"
        by (simp only: like_star_one list.sel list.distinct) simp
      ultimately show ?thesis using less.hyps [OF len p'] unfolding eq by blast
    qed
  next
    case 3
    then have "skipStars likeInfoNorm p s = Some (Some (c, p, p', s))" using r(1) by (subst skipStars.simps) simp
    then show ?thesis using 3 r(2,3) less.prems(2) by simp
  qed
qed

text \<open>The searches after a star, given that the rest of the pattern is compared correctly.\<close>

lemma starAscii_like:
  assumes IH: "\<And>t. terminated t \<Longrightarrow> like_post P (chars t) (patternCompare likeInfoNorm 0 p t)"
    and stops: "\<And>b. b \<in> set stops \<Longrightarrow> b \<noteq> 0 \<and> b < 0x80"
  shows "terminated s \<Longrightarrow>
    star_post (\<exists>u b v. s = u @ b # v \<and> 0 \<notin> set u \<and> b \<in> set stops \<and> like P (chars v)) (starAscii likeInfoNorm 0 stops p s)"
proof (induction s)
  case Nil
  then show ?case by (simp add: terminated_def)
next
  case (Cons b s)
  let ?Q = "\<lambda>s. \<exists>u b v. s = u @ b # v \<and> 0 \<notin> set u \<and> b \<in> set stops \<and> like P (chars v)"
  have Q: "?Q (b # s) \<longleftrightarrow> b \<in> set stops \<and> like P (chars s) \<or> b \<noteq> 0 \<and> ?Q s"
  proof
    assume "?Q (b # s)"
    then obtain u x v where "b # s = u @ x # v" "0 \<notin> set u" "x \<in> set stops" "like P (chars v)" by blast
    then show "b \<in> set stops \<and> like P (chars s) \<or> b \<noteq> 0 \<and> ?Q s" by (cases u) auto
  next
    assume "b \<in> set stops \<and> like P (chars s) \<or> b \<noteq> 0 \<and> ?Q s"
    then show "?Q (b # s)"
    proof
      assume "b \<in> set stops \<and> like P (chars s)"
      then show ?thesis by (metis append_Nil empty_iff list.set(1))
    next
      assume "b \<noteq> 0 \<and> ?Q s"
      then obtain u x v where "s = u @ x # v" "0 \<notin> set u" "x \<in> set stops" "like P (chars v)" "b \<noteq> 0" by blast
      then have "b # s = (b # u) @ x # v \<and> 0 \<notin> set (b # u) \<and> x \<in> set stops \<and> like P (chars v)" by simp
      then show ?thesis by blast
    qed
  qed
  show ?case
  proof (cases "b = 0")
    case True
    then have "\<not> ?Q (b # s)" using Q stops by auto
    then show ?thesis using True by (simp add: star_post_def)
  next
    case False
    then have s: "terminated s" using Cons.prems by (auto simp: terminated_def)
    show ?thesis
    proof (cases "b \<in> set stops")
      case no: False
      then show ?thesis using Cons.IH [OF s] Q False by simp
    next
      case True
      obtain r where r: "patternCompare likeInfoNorm 0 p s = Some r" "r = SQLITE_MATCH \<longleftrightarrow> like P (chars s)"
         "r = SQLITE_NOWILDCARDMATCH \<longrightarrow> (\<forall>k. \<not> like P (drop k (chars s)))"
        using IH [OF s] by (auto simp: like_post_def)
      show ?thesis
      proof (cases r)
        case SQLITE_MATCH
        then have "?Q (b # s)" using Q True r(2) by simp
        then show ?thesis using r(1) SQLITE_MATCH True False by (simp add: star_post_def)
      next
        case SQLITE_NOMATCH
        then have "?Q (b # s) \<longleftrightarrow> ?Q s" using Q True r(2) False by simp
        then show ?thesis using Cons.IH [OF s] r(1) SQLITE_NOMATCH True False by simp
      next
        case SQLITE_NOWILDCARDMATCH
        have "\<not> ?Q s"
        proof
          assume "?Q s"
          then obtain u x v where x: "s = u @ x # v" "0 \<notin> set u" "x \<in> set stops" "like P (chars v)" by blast
          then obtain xs where "chars s = xs @ ucast x # chars v"
            using chars_split_ascii [of u x v] s stops [OF x(3)] by auto
          then have "drop (length xs + 1) (chars s) = chars v" by simp
          then show False using r(3) SQLITE_NOWILDCARDMATCH x(4) by metis
        qed
        then have "\<not> ?Q (b # s)" using Q r(2) SQLITE_NOWILDCARDMATCH by simp
        then show ?thesis using r(1) SQLITE_NOWILDCARDMATCH True False by (simp add: star_post_def)
      qed
    qed
  qed
qed

lemma starWide_like:
  assumes IH: "\<And>t. terminated t \<Longrightarrow> like_post P (chars t) (patternCompare likeInfoNorm 0 p t)"
  shows "terminated s \<Longrightarrow> star_post (\<exists>k t. drop k (chars s) = c # t \<and> like P t) (starWide likeInfoNorm 0 c p s)"
proof (induction "length s" arbitrary: s rule: less_induct)
  case less
  obtain d s' where rs: "sqlite3Utf8Read s = Some (d, s')" "chars s = from_char d s'" "d \<noteq> 0 \<longrightarrow> terminated s'"
    using read_from_char [OF less.prems] by blast
  let ?Q = "\<lambda>S. \<exists>k t. drop k S = c # t \<and> like P t"
  have len: "length s' < length s" using rs(1) by (rule sqlite3Utf8Read_length)
  show ?case
  proof (cases "d = 0")
    case True
    then show ?thesis using rs by (subst starWide.simps) (simp add: star_post_def from_char_def)
  next
    case False
    then have s': "terminated s'" and ch: "chars s = d # chars s'" using rs by (simp_all add: from_char_def)
    have Q: "?Q (chars s) \<longleftrightarrow> d = c \<and> like P (chars s') \<or> ?Q (chars s')"
      unfolding ch by (metis drop0 drop_Suc_Cons list.inject not0_implies_Suc)
    note IHs = less.hyps [OF len s']
    show ?thesis
    proof (cases "d = c")
      case no: False
      then show ?thesis using IHs Q rs(1) False by (subst starWide.simps) simp
    next
      case True
      obtain r where r: "patternCompare likeInfoNorm 0 p s' = Some r" "r = SQLITE_MATCH \<longleftrightarrow> like P (chars s')"
         "r = SQLITE_NOWILDCARDMATCH \<longrightarrow> (\<forall>k. \<not> like P (drop k (chars s')))"
        using IH [OF s'] by (auto simp: like_post_def)
      have "\<not> ?Q (chars s')" if "r = SQLITE_NOWILDCARDMATCH"
      proof
        assume "?Q (chars s')"
        then obtain k t where "drop k (chars s') = c # t" "like P t" by blast
        then have "drop (Suc k) (chars s') = t" by (metis drop_Suc list.sel(3) tl_drop)
        then show False using r(3) that \<open>like P t\<close> by metis
      qed
      then show ?thesis using IHs Q rs(1) False True r
        by (subst starWide.simps) (cases r; simp add: star_post_def)
    qed
  qed
qed

lemma patternCompare_like:
  "terminated p \<Longrightarrow> terminated s \<Longrightarrow> like_post (chars p) (chars s) (patternCompare likeInfoNorm 0 p s)"
proof (induction "length p" arbitrary: p s rule: less_induct)
  case less
  obtain c p1 where r: "sqlite3Utf8Read p = Some (c, p1)" "chars p = from_char c p1" "c \<noteq> 0 \<longrightarrow> terminated p1"
    using read_from_char [OF less.prems(1)] by blast
  obtain d s1 where rs: "sqlite3Utf8Read s = Some (d, s1)" "chars s = from_char d s1" "d \<noteq> 0 \<longrightarrow> terminated s1"
    using read_from_char [OF less.prems(2)] by blast
  have len: "length p1 < length p" using r(1) by (rule sqlite3Utf8Read_length)
  consider "c = 0" | "c = 37" | "c \<noteq> 0" "c \<noteq> 37" by blast
  then show ?case
  proof cases
    case 1
    from less.prems(2) have "\<exists>b z. s = b # z \<and> (b = 0 \<longleftrightarrow> chars s = [])"
    proof (cases rule: sqlite3Utf8Read_terminated)
      case (wide c b pre z')
      have "b \<noteq> 0" using wide(2) by auto
      then show ?thesis using wide(1) chars_read [OF wide(6) wide_nonzero [OF wide(5)]] by auto
    qed (auto simp: chars_end chars_ascii)
    then show ?thesis using 1 r(1,2) by (subst patternCompare.simps) (auto simp: like_post_def from_char_def)
  next
    case 2
    have star: "chars p = 37 # chars p1" and p1: "terminated p1" using r 2 by (simp_all add: from_char_def)
    have post: "like_post (chars p) (chars s) res" if "star_post (like (chars p) (chars s)) res" for res
      using that like_star_drop [of "chars p1" _ "chars s"] unfolding star_post_def like_post_def star by auto
    from skipStars_like [OF p1 less.prems(2)] show ?thesis
    proof (elim disjE exE conjE)
      assume "skipStars likeInfoNorm p1 s = Some None" "\<not> like (37 # chars p1) (chars s)"
      then show ?thesis using r(1) 2 star by (intro post, subst patternCompare.simps) (simp add: star_post_def)
    next
      fix c' ph p2 s'
      assume sk: "skipStars likeInfoNorm p1 s = Some (Some (c', ph, p2, s'))" and s': "terminated s'"
        and c': "c' \<noteq> 37" "c' \<noteq> 95" "c' \<noteq> 0 \<longrightarrow> terminated p2"
        and iff: "like (37 # chars p1) (chars s) \<longleftrightarrow> like (37 # from_char c' p2) (chars s')"
      show ?thesis
      proof (cases "c' = 0")
        case True
        have "like (37 # from_char c' p2) (chars s')" unfolding like_star using True
          by (intro exI [of _ "length (chars s')"]) (simp add: from_char_def)
        then have "like (chars p) (chars s)" using iff star by simp
        then show ?thesis using r(1) 2 sk True by (intro post, subst patternCompare.simps) (simp add: star_post_def)
      next
        case False
        have p2: "terminated p2" using c'(3) False by simp
        have "length p2 < length p" using skipStars_length [OF sk] len by simp
        then have IH: "like_post (chars p2) (chars t) (patternCompare likeInfoNorm 0 p2 t)" if "terminated t" for t
          using less.hyps p2 that by blast
        have sp: "like (chars p) (chars s) \<longleftrightarrow>
            (\<exists>k d t. drop k (chars s') = d # t \<and> ascii_lower c' = ascii_lower d \<and> like (chars p2) t)"
          using iff like_star_char [OF c'(1,2), of "chars p2" "chars s'"] star False by (simp only: from_char_def) simp
        show ?thesis
        proof (cases "c' < 0x80")
          case True
          note st = stopBytes_like [OF True False]
          have "like (chars p) (chars s) \<longleftrightarrow>
              (\<exists>u b v. s' = u @ b # v \<and> 0 \<notin> set u \<and> b \<in> set (stopBytes likeInfoNorm c') \<and> like (chars p2) (chars v))"
            unfolding sp
          proof
            assume "\<exists>k d t. drop k (chars s') = d # t \<and> ascii_lower c' = ascii_lower d \<and> like (chars p2) t"
            then obtain k d t where d: "drop k (chars s') = d # t" "ascii_lower c' = ascii_lower d" "like (chars p2) t" by blast
            have d80: "d < 0x80" using ascii_lower_wide [of d c'] d(2) True linorder_not_less by metis
            from chars_locate_ascii [OF s' d(1) d80] obtain u v where
              u: "s' = u @ ucast d # v" "0 \<notin> set u" "t = chars v" "(ucast d :: u8) \<noteq> 0" "(ucast d :: u8) < 0x80" by blast
            have "ucast d \<in> set (stopBytes likeInfoNorm c')" using st u(4,5) d(2) ascii_byte [OF d80] by simp
            then show "\<exists>u b v. s' = u @ b # v \<and> 0 \<notin> set u \<and> b \<in> set (stopBytes likeInfoNorm c') \<and> like (chars p2) (chars v)"
              using u d(3) by blast
          next
            assume "\<exists>u b v. s' = u @ b # v \<and> 0 \<notin> set u \<and> b \<in> set (stopBytes likeInfoNorm c') \<and> like (chars p2) (chars v)"
            then obtain u b v where u: "s' = u @ b # v" "0 \<notin> set u" "b \<in> set (stopBytes likeInfoNorm c')" "like (chars p2) (chars v)" by blast
            then have b: "b \<noteq> 0" "b < 0x80" "ascii_lower c' = ascii_lower (ucast b)" using st by simp_all
            obtain xs where "chars s' = xs @ ucast b # chars v" using chars_split_ascii [of u b v] u s' b by auto
            then have "drop (length xs) (chars s') = ucast b # chars v" by simp
            then show "\<exists>k d t. drop k (chars s') = d # t \<and> ascii_lower c' = ascii_lower d \<and> like (chars p2) t"
              using b(3) u(4) by blast
          qed
          moreover have "patternCompare likeInfoNorm 0 p s = starAscii likeInfoNorm 0 (stopBytes likeInfoNorm c') p2 s'"
            using r(1) 2 sk False True by (subst patternCompare.simps) simp
          ultimately show ?thesis using starAscii_like [OF IH _ s', of "stopBytes likeInfoNorm c'"] st by (intro post) simp
        next
          case wide: False
          then have "0x80 \<le> c'" by simp
          then have w: "ascii_lower c' = ascii_lower d \<longleftrightarrow> c' = d" for d by (rule ascii_lower_wide)
          have "like (chars p) (chars s) \<longleftrightarrow> (\<exists>k t. drop k (chars s') = c' # t \<and> like (chars p2) t)"
            unfolding sp w by blast
          moreover have "patternCompare likeInfoNorm 0 p s = starWide likeInfoNorm 0 c' p2 s'"
            using r(1) 2 sk False wide by (subst patternCompare.simps) simp
          ultimately show ?thesis using starWide_like [OF IH s', of c'] by (intro post) simp
        qed
      qed
    qed
  next
    case 3
    have p: "chars p = c # chars p1" and p1: "terminated p1" using r 3 by (simp_all add: from_char_def)
    have eq: "patternCompare likeInfoNorm 0 p s =
        (if matchesOne likeInfoNorm False c d then patternCompare likeInfoNorm 0 p1 s1 else Some SQLITE_NOMATCH)"
      using r(1) rs(1) 3 by (subst patternCompare.simps) simp
    show ?thesis
    proof (cases "matchesOne likeInfoNorm False c d")
      case True
      then have d: "d \<noteq> 0" "c = 95 \<or> ascii_lower c = ascii_lower d" using matchesOne_like [OF 3] by simp_all
      then have s: "chars s = d # chars s1" and s1: "terminated s1" using rs by (simp_all add: from_char_def)
      from less.hyps [OF len p1 s1] obtain res where
        res: "patternCompare likeInfoNorm 0 p1 s1 = Some res" "res = SQLITE_MATCH \<longleftrightarrow> like (chars p1) (chars s1)"
          "res = SQLITE_NOWILDCARDMATCH \<longrightarrow> (\<forall>k. \<not> like (chars p1) (drop k (chars s1)))" by (auto simp: like_post_def)
      have "\<not> like (c # chars p1) (drop k (d # chars s1))" if "res = SQLITE_NOWILDCARDMATCH" for k
      proof
        assume "like (c # chars p1) (drop k (d # chars s1))"
        then obtain e t where "drop k (d # chars s1) = e # t" "like (chars p1) t" using 3(2) by (auto split: list.splits)
        then have "drop k (chars s1) = t" by (metis drop_Suc drop_Suc_Cons list.sel(3) tl_drop)
        then show False using res(3) that \<open>like (chars p1) t\<close> by metis
      qed
      then show ?thesis using eq True res p s d(2) 3(2) by (simp add: like_post_def)
    next
      case False
      then have "d = 0 \<or> \<not> (c = 95 \<or> ascii_lower c = ascii_lower d)" using matchesOne_like [OF 3] by blast
      then have "\<not> like (chars p) (chars s)" using p rs(2) 3(2) by (auto simp: from_char_def)
      then show ?thesis using eq False by (simp add: like_post_def)
    qed
  qed
qed

section \<open>Patterns with a text between two percent signs\<close>

lemma like_literal:
  "37 \<notin> set T \<Longrightarrow> 95 \<notin> set T \<Longrightarrow>
     like (T @ P) S \<longleftrightarrow> (\<exists>v w. S = v @ w \<and> map ascii_lower v = map ascii_lower T \<and> like P w)"
proof (induction T arbitrary: S)
  case Nil
  then show ?case by simp
next
  case (Cons c T)
  show ?case
  proof (cases S)
    case Nil
    then show ?thesis using Cons.prems by simp
  next
    case (Cons d S')
    have "like ((c # T) @ P) S \<longleftrightarrow> ascii_lower c = ascii_lower d \<and> like (T @ P) S'"
      using Cons Cons.prems by auto
    also have "\<dots> \<longleftrightarrow> ascii_lower c = ascii_lower d \<and> (\<exists>v w. S' = v @ w \<and> map ascii_lower v = map ascii_lower T \<and> like P w)"
      using Cons.IH Cons.prems by simp
    also have "\<dots> \<longleftrightarrow> (\<exists>v w. S = v @ w \<and> map ascii_lower v = map ascii_lower (c # T) \<and> like P w)"
    proof
      assume "ascii_lower c = ascii_lower d \<and> (\<exists>v w. S' = v @ w \<and> map ascii_lower v = map ascii_lower T \<and> like P w)"
      then obtain v w where "ascii_lower c = ascii_lower d" "S' = v @ w" "map ascii_lower v = map ascii_lower T" "like P w" by blast
      then have "S = (d # v) @ w \<and> map ascii_lower (d # v) = map ascii_lower (c # T) \<and> like P w" using Cons by simp
      then show "\<exists>v w. S = v @ w \<and> map ascii_lower v = map ascii_lower (c # T) \<and> like P w" by blast
    next
      assume "\<exists>v w. S = v @ w \<and> map ascii_lower v = map ascii_lower (c # T) \<and> like P w"
      then obtain v w where v: "S = v @ w" "map ascii_lower v = map ascii_lower (c # T)" "like P w" by blast
      then obtain e v' where "v = e # v'" by (cases v) auto
      then show "ascii_lower c = ascii_lower d \<and> (\<exists>v w. S' = v @ w \<and> map ascii_lower v = map ascii_lower T \<and> like P w)"
        using v Cons by auto
    qed
    finally show ?thesis .
  qed
qed

lemma like_everything: "like [37] S"
  unfolding like_star by (intro exI [of _ "length S"]) simp

lemma like_contains:
  assumes "37 \<notin> set T" and "95 \<notin> set T"
  shows "like (37 # T @ [37]) S \<longleftrightarrow> (\<exists>u v w. S = u @ v @ w \<and> map ascii_lower v = map ascii_lower T)"
proof -
  have "like (37 # T @ [37]) S \<longleftrightarrow> (\<exists>k. like (T @ [37]) (drop k S))" by (rule like_star)
  also have "\<dots> \<longleftrightarrow> (\<exists>k v w. drop k S = v @ w \<and> map ascii_lower v = map ascii_lower T)"
    by (simp only: like_literal [OF assms] like_everything simp_thms)
  also have "\<dots> \<longleftrightarrow> (\<exists>u v w. S = u @ v @ w \<and> map ascii_lower v = map ascii_lower T)"
  proof
    assume "\<exists>k v w. drop k S = v @ w \<and> map ascii_lower v = map ascii_lower T"
    then obtain k v w where v: "drop k S = v @ w" "map ascii_lower v = map ascii_lower T" by blast
    have "S = take k S @ v @ w" using v(1) append_take_drop_id [of k S] by simp
    then show "\<exists>u v w. S = u @ v @ w \<and> map ascii_lower v = map ascii_lower T" using v(2) by blast
  next
    assume "\<exists>u v w. S = u @ v @ w \<and> map ascii_lower v = map ascii_lower T"
    then obtain u v w where v: "S = u @ v @ w" "map ascii_lower v = map ascii_lower T" by blast
    then have "drop (length u) S = v @ w" by simp
    then show "\<exists>k v w. drop k S = v @ w \<and> map ascii_lower v = map ascii_lower T" using v(2) by blast
  qed
  finally show ?thesis .
qed

lemma strlike_returns:
  assumes "terminated zPattern" and "terminated zStr"
  shows "\<exists>r. sqlite3_strlike (Some zPattern) (Some zStr) 0 = Some r \<and> (r = 0 \<longleftrightarrow> like (chars zPattern) (chars zStr))"
proof -
  obtain r where "patternCompare likeInfoNorm 0 zPattern zStr = Some r" "r = SQLITE_MATCH \<longleftrightarrow> like (chars zPattern) (chars zStr)"
    using patternCompare_like [OF assms] by (auto simp: like_post_def)
  then show ?thesis by (cases r) (simp_all add: sqlite3_strlike_def)
qed

lemma strlike_iff:
  assumes "terminated zPattern" and "terminated zStr"
  shows "sqlite3_strlike (Some zPattern) (Some zStr) 0 = Some 0 \<longleftrightarrow> like (chars zPattern) (chars zStr)"
  using strlike_returns [OF assms] by auto

section \<open>Properties\<close>

text \<open>
  C25. The LIKE operator without an escape character decides the definition of LIKE on every two
  terminated byte strings, well-formed UTF-8 or not: it always returns, never reads behind
  the end of either string, and reports a match exactly when the characters match. In particular giving up
  a search after a failure in spite of wildcards never loses a match.
\<close>

theorem like_decides:
  assumes "terminated zPattern" and "terminated zStr"
  shows "\<exists>r. sqlite3_strlike (Some zPattern) (Some zStr) 0 = Some r \<and> (r = 0 \<longleftrightarrow> like (chars zPattern) (chars zStr))"
  by (rule strlike_returns [OF assms])

theorem like_decides_witness:
  "\<exists>r. sqlite3_strlike (Some [37, 98, 95, 0]) (Some [65, 66, 67, 0]) 0 = Some r
     \<and> (r = 0 \<longleftrightarrow> like (chars [37, 98, 95, 0]) (chars [65, 66, 67, 0]))"
  by (rule like_decides) (simp_all add: terminated_def)

end
