(* ===== verification/Sqlite_Hash.thy ===== *)
theory Sqlite_Hash
  imports Sqlite_Like "HOL-Library.Monad_Syntax"
begin

text \<open>
  The hash table of SQLite, which holds its tables, indexes, functions and collations by name:
  hash.c inside src/infra/db/sqlite3.c, with sqlite3StrICmp of util.c. The elements are cells on a heap, a
  partial map from addresses (0 is the null pointer); all of them are on one doubly linked list, in which
  the elements of a bucket are adjacent. Every read and write of a cell is a step that fails (None) when the
  pointer is not a live cell, so that a theorem that an operation returns says that it uses no
  null or dangling pointer. Keys are memory from the key's first byte on, with a terminating zero byte. The
  counters are mathematical numbers: a wrap-around needs billions of elements. The outcome of an allocation is an
  argument; SQLITE\_MALLOC\_SOFT\_LIMIT is 1024 and a bucket has 16 bytes.
\<close>

section \<open>Data\<close>

type_synonym addr = nat

record HashElem =
  e_next :: addr
  e_prev :: addr
  e_data :: nat
  e_key :: bytes
  e_h :: u32

type_synonym heap = "addr \<rightharpoonup> HashElem"

record Hash =
  htsize :: nat
  h_count :: nat
  h_first :: addr
  h_ht :: "(nat \<times> addr) list option"

definition sqlite3HashInit :: Hash where
  "sqlite3HashInit = \<lparr>htsize = 0, h_count = 0, h_first = 0, h_ht = None\<rparr>"

text \<open>Access to a cell.\<close>

definition set_next :: "addr \<Rightarrow> addr \<Rightarrow> heap \<Rightarrow> heap option" where
  "set_next a v hp = (case hp a of None \<Rightarrow> None | Some e \<Rightarrow> Some (hp(a \<mapsto> e\<lparr>e_next := v\<rparr>)))"

definition set_prev :: "addr \<Rightarrow> addr \<Rightarrow> heap \<Rightarrow> heap option" where
  "set_prev a v hp = (case hp a of None \<Rightarrow> None | Some e \<Rightarrow> Some (hp(a \<mapsto> e\<lparr>e_prev := v\<rparr>)))"

section \<open>Comparing and hashing names\<close>

fun sqlite3StrICmp :: "bytes \<Rightarrow> bytes \<Rightarrow> int option" where
  "sqlite3StrICmp (c # a) (x # b) =
     (if c = x then (if c = 0 then Some 0 else sqlite3StrICmp a b)
      else (let d = int (unat (sqlite3UpperToLower c)) - int (unat (sqlite3UpperToLower x))
            in if d \<noteq> 0 then Some d else sqlite3StrICmp a b))"
| "sqlite3StrICmp _ _ = None"

fun strHash_loop :: "u32 \<Rightarrow> bytes \<Rightarrow> u32 option" where
  "strHash_loop h [] = None"
| "strHash_loop h (c # z) = (if c = 0 then Some h else strHash_loop ((h + (0xdf AND ucast c)) * 0x9e3779b1) z)"

definition strHash :: "bytes \<Rightarrow> u32 option" where
  "strHash z = strHash_loop 0 z"

section \<open>Operations\<close>

text \<open>The loop of sqlite3HashClear over the elements, freeing each; it may only not end on a cyclic list.\<close>

partial_function (option) free_all :: "addr \<Rightarrow> heap \<Rightarrow> heap option" where
  "free_all elem hp =
     (if elem = 0 then Some hp
      else Option.bind (hp elem) (\<lambda>e. free_all (e_next e) (hp(elem := None))))"

definition sqlite3HashClear :: "Hash \<Rightarrow> heap \<Rightarrow> (Hash \<times> heap) option" where
  "sqlite3HashClear H hp =
     Option.bind (free_all (h_first H) hp)
       (\<lambda>hp. Some (H\<lparr>h_first := 0, h_ht := None, htsize := 0, h_count := 0\<rparr>, hp))"

text \<open>Bucket i of the table; None for an access outside of it.\<close>

definition bucket :: "Hash \<Rightarrow> nat \<Rightarrow> (nat \<times> addr) option" where
  "bucket H i = (case h_ht H of None \<Rightarrow> None | Some bs \<Rightarrow> if i < length bs then Some (bs ! i) else None)"

definition set_bucket :: "nat \<Rightarrow> nat \<times> addr \<Rightarrow> Hash \<Rightarrow> Hash" where
  "set_bucket i b H = H\<lparr>h_ht := map_option (\<lambda>bs. bs[i := b]) (h_ht H)\<rparr>"

text \<open>pEntry is the number of the bucket, None for the null pointer.\<close>

definition insertElement :: "nat option \<Rightarrow> addr \<Rightarrow> Hash \<Rightarrow> heap \<Rightarrow> (Hash \<times> heap) option" where
  "insertElement pEntry pNew H hp = do {
     (pHead, H) \<leftarrow> (case pEntry of
        None \<Rightarrow> Some (0, H)
      | Some i \<Rightarrow> do {
          (cnt, chain) \<leftarrow> bucket H i;
          Some (if cnt \<noteq> 0 then chain else 0, set_bucket i (cnt + 1, pNew) H) });
     if pHead \<noteq> 0 then do {
       hp \<leftarrow> set_next pNew pHead hp;
       hd \<leftarrow> hp pHead;
       hp \<leftarrow> set_prev pNew (e_prev hd) hp;
       (H, hp) \<leftarrow> (if e_prev hd \<noteq> 0 then do { hp \<leftarrow> set_next (e_prev hd) pNew hp; Some (H, hp) }
                   else Some (H\<lparr>h_first := pNew\<rparr>, hp));
       hp \<leftarrow> set_prev pHead pNew hp;
       Some (H, hp) }
     else do {
       hp \<leftarrow> set_next pNew (h_first H) hp;
       hp \<leftarrow> (if h_first H \<noteq> 0 then set_prev (h_first H) pNew hp else Some hp);
       hp \<leftarrow> set_prev pNew 0 hp;
       Some (H\<lparr>h_first := pNew\<rparr>, hp) } }"

text \<open>The loop of rehash.\<close>

partial_function (option) rehash_loop :: "nat \<Rightarrow> addr \<Rightarrow> Hash \<Rightarrow> heap \<Rightarrow> (Hash \<times> heap) option" where
  "rehash_loop new_size elem H hp =
     (if elem = 0 then Some (H, hp)
      else Option.bind (hp elem) (\<lambda>e.
             Option.bind (insertElement (Some (unat (e_h e) mod new_size)) elem H hp) (\<lambda>r.
               rehash_loop new_size (e_next e) (fst r) (snd r))))"

text \<open>
  The size asked for and the number of buckets the allocated memory has room for; None when the
  allocation fails, which leaves the table as it is. The outcome is an argument of each call. The bucket array is not a cell of the heap but
  a value owned by the table: nothing points into it but pH->ht and, during an insertion, pEntry.
\<close>

definition rehash :: "(nat \<Rightarrow> nat option) \<Rightarrow> nat \<Rightarrow> Hash \<Rightarrow> heap \<Rightarrow> (Hash \<times> heap) option" where
  "rehash allocated new_size H hp =
     (let new_size = (if new_size * 16 > 1024 then 1024 div 16 else new_size)
      in if new_size = htsize H then Some (H, hp)
         else (case allocated new_size of
                 None \<Rightarrow> Some (H, hp)
               | Some n \<Rightarrow>
                   rehash_loop n (h_first H) (H\<lparr>h_ht := Some (replicate n (0, 0)), htsize := n, h_first := 0\<rparr>) hp))"

fun find_loop :: "heap \<Rightarrow> u32 \<Rightarrow> bytes \<Rightarrow> addr \<Rightarrow> nat \<Rightarrow> addr option" where
  "find_loop hp h pKey elem 0 = Some 0"
| "find_loop hp h pKey elem (Suc cnt) = do {
     e \<leftarrow> hp elem;
     same \<leftarrow> (if h = e_h e then do { c \<leftarrow> sqlite3StrICmp (e_key e) pKey; Some (c = 0) } else Some False);
     if same then Some elem else find_loop hp h pKey (e_next e) cnt }"

text \<open>The element and the hash value; address 0 stands for the static null element.\<close>

definition findElementWithHash :: "Hash \<Rightarrow> bytes \<Rightarrow> heap \<Rightarrow> (addr \<times> u32) option" where
  "findElementWithHash H pKey hp = do {
     h \<leftarrow> strHash pKey;
     (cnt, elem) \<leftarrow> (case h_ht H of None \<Rightarrow> Some (h_count H, h_first H)
                      | Some _ \<Rightarrow> if htsize H = 0 then None else bucket H (unat h mod htsize H));
     a \<leftarrow> find_loop hp h pKey elem cnt;
     Some (a, h) }"

definition removeElement :: "addr \<Rightarrow> Hash \<Rightarrow> heap \<Rightarrow> (Hash \<times> heap) option" where
  "removeElement elem H hp = do {
     e \<leftarrow> hp elem;
     (H, hp) \<leftarrow> (if e_prev e \<noteq> 0 then do { hp \<leftarrow> set_next (e_prev e) (e_next e) hp; Some (H, hp) }
                 else Some (H\<lparr>h_first := e_next e\<rparr>, hp));
     hp \<leftarrow> (if e_next e \<noteq> 0 then set_prev (e_next e) (e_prev e) hp else Some hp);
     H \<leftarrow> (case h_ht H of
        None \<Rightarrow> Some H
      | Some _ \<Rightarrow> do {
          (cnt, chain) \<leftarrow> bucket H (unat (e_h e) mod htsize H);
          if cnt = 0 then None
          else Some (set_bucket (unat (e_h e) mod htsize H)
                       (cnt - 1, if chain = elem then e_next e else chain) H) });
     let hp = hp(elem := None);
         H = H\<lparr>h_count := h_count H - 1\<rparr>
     in if h_count H = 0 then sqlite3HashClear H hp else Some (H, hp) }"

definition elem_data :: "addr \<Rightarrow> heap \<Rightarrow> nat option" where
  "elem_data a hp = (if a = 0 then Some 0 else map_option e_data (hp a))"

definition sqlite3HashFind :: "Hash \<Rightarrow> bytes \<Rightarrow> heap \<Rightarrow> nat option" where
  "sqlite3HashFind H pKey hp = do { (a, h) \<leftarrow> findElementWithHash H pKey hp; elem_data a hp }"

text \<open>malloc is the address of the new cell, None when the allocation fails.\<close>

definition sqlite3HashInsert ::
  "(heap \<Rightarrow> addr option) \<Rightarrow> (nat \<Rightarrow> nat option) \<Rightarrow> bytes \<Rightarrow> nat \<Rightarrow> Hash \<Rightarrow> heap \<Rightarrow> (nat \<times> Hash \<times> heap) option" where
  "sqlite3HashInsert malloc allocated pKey data H hp = do {
     (elem, h) \<leftarrow> findElementWithHash H pKey hp;
     old_data \<leftarrow> elem_data elem hp;
     if old_data \<noteq> 0 then
       (if data = 0 then do { (H, hp) \<leftarrow> removeElement elem H hp; Some (old_data, H, hp) }
        else do { e \<leftarrow> hp elem; Some (old_data, H, hp(elem \<mapsto> e\<lparr>e_data := data, e_key := pKey\<rparr>)) })
     else if data = 0 then Some (0, H, hp)
     else (case malloc hp of
             None \<Rightarrow> Some (data, H, hp)
           | Some new_elem \<Rightarrow> do {
               let hp = hp(new_elem \<mapsto> \<lparr>e_next = 0, e_prev = 0, e_data = data, e_key = pKey, e_h = h\<rparr>);
               let H = H\<lparr>h_count := h_count H + 1\<rparr>;
               (H, hp) \<leftarrow> (if h_count H \<ge> 5 \<and> h_count H > 2 * htsize H then rehash allocated (h_count H * 3) H hp
                           else Some (H, hp));
               (H, hp) \<leftarrow> insertElement (if h_ht H = None then None else Some (unat h mod htsize H)) new_elem H hp;
               Some (0, H, hp) }) }"

section \<open>Names\<close>

text \<open>The name a key stands for: its bytes up to the terminator, with the ASCII letters in lower case.\<close>

definition keyname :: "bytes \<Rightarrow> bytes" where
  "keyname z = map sqlite3UpperToLower (takeWhile (\<lambda>b. b \<noteq> 0) z)"

definition name_hash :: "bytes \<Rightarrow> u32" where
  "name_hash n = foldl (\<lambda>h c. (h + (0xdf AND ucast c)) * 0x9e3779b1) 0 n"

lemma lower_zero: "sqlite3UpperToLower b = 0 \<longleftrightarrow> b = 0"
  by (auto simp: sqlite3UpperToLower_def word_le_nat_alt word_unat_eq_iff unat_word_ariths)

text \<open>Upper and lower case differ in the bit that is not hashed.\<close>

lemma lower_case_bit: "(0xdf :: u8) AND sqlite3UpperToLower b = 0xdf AND b"
proof (cases "65 \<le> b \<and> b \<le> 90")
  case True
  then have "65 \<le> unat b \<and> unat b < 91" by (auto simp: word_le_nat_alt)
  then have "unat b \<in> set [65..<91]" by (simp only: set_upt atLeastLessThan_iff)
  moreover have "list_all (\<lambda>n. (0xdf :: u8) AND (of_nat n + 32) = 0xdf AND of_nat n) [65..<91]"
    by (simp add: upt_rec)
  ultimately have "(0xdf :: u8) AND (of_nat (unat b) + 32) = 0xdf AND of_nat (unat b)"
    unfolding list_all_iff by (rule bspec [rotated])
  then show ?thesis using True by (simp add: sqlite3UpperToLower_def)
qed (auto simp: sqlite3UpperToLower_def)

lemma hashed_bits: "(0xdf :: u32) AND ucast (sqlite3UpperToLower b) = 0xdf AND ucast b"
proof -
  have w: "(0xdf :: u32) AND ucast (x :: u8) = ucast (0xdf AND x)" for x
    by (rule bit_word_eqI) (auto simp: bit_simps dest: bit_imp_le_length)
  show ?thesis unfolding w lower_case_bit by (rule refl)
qed

lemma strHash_loop_name:
  "0 \<in> set z \<Longrightarrow> strHash_loop h z = Some (foldl (\<lambda>h c. (h + (0xdf AND ucast c)) * 0x9e3779b1) h (keyname z))"
  by (induction z arbitrary: h) (auto simp: keyname_def hashed_bits)

lemma strHash_name: "terminated z \<Longrightarrow> strHash z = Some (name_hash (keyname z))"
  by (simp add: strHash_def strHash_loop_name name_hash_def terminated_def)

lemma StrICmp_name:
  "terminated a \<Longrightarrow> terminated b \<Longrightarrow> \<exists>c. sqlite3StrICmp a b = Some c \<and> (c = 0) = (keyname a = keyname b)"
  unfolding terminated_def
proof (induction a b rule: sqlite3StrICmp.induct)
  case (1 c a x b)
  have d: "int (unat u) - int (unat v) = 0 \<longleftrightarrow> u = v" for u v :: u8 by (simp add: word_uint_eq_iff)
  consider "c = x" "c = 0" | "c = x" "c \<noteq> 0" | "c \<noteq> x" "sqlite3UpperToLower c \<noteq> sqlite3UpperToLower x"
    | "c \<noteq> x" "sqlite3UpperToLower c = sqlite3UpperToLower x" by blast
  then show ?case
  proof cases
    case 1
    then show ?thesis by (simp add: keyname_def)
  next
    case 2
    then have "0 \<in> set a" "0 \<in> set b" using "1.prems" by auto
    then show ?thesis using "1.IH"(1) 2 by (simp add: keyname_def)
  next
    case 3
    then have "keyname (c # a) \<noteq> keyname (x # b)" by (auto simp: keyname_def)
    then show ?thesis using 3 d [of "sqlite3UpperToLower c" "sqlite3UpperToLower x"] by (simp add: Let_def)
  next
    case 4
    then have "c \<noteq> 0" "x \<noteq> 0" using lower_zero [of c] lower_zero [of x] by auto
    then have "0 \<in> set a" "0 \<in> set b" using "1.prems" by auto
    then show ?thesis using "1.IH"(2) 4 \<open>c \<noteq> 0\<close> \<open>x \<noteq> 0\<close> by (simp add: keyname_def Let_def)
  qed
qed auto

section \<open>Doubly linked segments\<close>

text \<open>
  The cells xs in order, entered with predecessor p at address a; q is where the last cell points and l is the
  last cell (a = q and p = l for no cells).
\<close>

fun lseg :: "heap \<Rightarrow> addr \<Rightarrow> addr \<Rightarrow> addr list \<Rightarrow> addr \<Rightarrow> addr \<Rightarrow> bool" where
  "lseg hp p a [] q l \<longleftrightarrow> a = q \<and> p = l"
| "lseg hp p a (x # xs) q l \<longleftrightarrow> a = x \<and> x \<noteq> 0 \<and> (\<exists>e. hp x = Some e \<and> e_prev e = p \<and> lseg hp x (e_next e) xs q l)"

lemma lseg_append: "lseg hp p a (xs @ ys) q l \<longleftrightarrow> (\<exists>b m. lseg hp p a xs b m \<and> lseg hp m b ys q l)"
  by (induction xs arbitrary: p a) auto

lemma lseg_frame: "set xs \<inter> D = {} \<Longrightarrow> (\<And>x. x \<notin> D \<Longrightarrow> hp' x = hp x) \<Longrightarrow> lseg hp' p a xs q l = lseg hp p a xs q l"
  by (induction xs arbitrary: p a) auto

lemma lseg_upd [simp]: "x \<notin> set xs \<Longrightarrow> lseg (hp(x := v)) p a xs q l = lseg hp p a xs q l"
  by (rule lseg_frame [where D = "{x}"]) auto

text \<open>Cells keep their links when only the other fields change.\<close>

lemma lseg_last: "lseg hp p a xs q l \<Longrightarrow> xs \<noteq> [] \<Longrightarrow> l = last xs \<and> l \<noteq> 0"
  by (induction xs arbitrary: p a) auto

lemma lseg_first: "lseg hp p a xs q l \<Longrightarrow> xs \<noteq> [] \<Longrightarrow> a = hd xs \<and> a \<noteq> 0"
  by (cases xs) auto

lemma lseg_in_heap: "lseg hp p a xs q l \<Longrightarrow> x \<in> set xs \<Longrightarrow> x \<noteq> 0 \<and> hp x \<noteq> None"
  by (induction xs arbitrary: p a) auto

text \<open>Changing where a segment is entered from, and where it leads to.\<close>

lemma lseg_set_prev:
  assumes "lseg hp p a (x # xs) q l" and "x \<notin> set xs"
  shows "\<exists>e. hp x = Some e \<and> set_prev x p' hp = Some (hp(x \<mapsto> e\<lparr>e_prev := p'\<rparr>))
    \<and> lseg (hp(x \<mapsto> e\<lparr>e_prev := p'\<rparr>)) p' a (x # xs) q l"
  using assms by (auto simp: set_prev_def)

lemma lseg_set_next:
  assumes "lseg hp p a (xs @ [x]) q l" and "x \<notin> set xs"
  shows "\<exists>e. hp x = Some e \<and> set_next x q' hp = Some (hp(x \<mapsto> e\<lparr>e_next := q'\<rparr>))
    \<and> lseg (hp(x \<mapsto> e\<lparr>e_next := q'\<rparr>)) p a (xs @ [x]) q' l"
  using assms by (auto simp: set_next_def lseg_append)

text \<open>Cells that agree in what is stored, whatever their links.\<close>

definition payload :: "heap \<Rightarrow> addr \<Rightarrow> (nat \<times> bytes \<times> u32) option" where
  "payload hp x = map_option (\<lambda>e. (e_data e, e_key e, e_h e)) (hp x)"

lemma payload_links [simp]:
  "hp x = Some e \<Longrightarrow> payload (hp(x \<mapsto> e\<lparr>e_next := v\<rparr>)) = payload hp"
  "hp x = Some e \<Longrightarrow> payload (hp(x \<mapsto> e\<lparr>e_prev := v\<rparr>)) = payload hp"
  by (auto simp: payload_def fun_eq_iff)

lemma dom_payload: "dom (payload hp) = dom hp"
  by (auto simp: payload_def dom_def)

lemma payload_dom: "payload hp' = payload hp \<Longrightarrow> dom hp' = dom hp"
  by (metis dom_payload)

text \<open>A change of links confined to the cells of D.\<close>

definition relinked :: "addr set \<Rightarrow> heap \<Rightarrow> heap \<Rightarrow> bool" where
  "relinked D hp hp' \<longleftrightarrow> payload hp' = payload hp \<and> (\<forall>x. x \<notin> D \<longrightarrow> hp' x = hp x)"

lemma relinked_trans: "relinked D hp hp' \<Longrightarrow> relinked D hp' hp'' \<Longrightarrow> relinked D hp hp''"
  by (auto simp: relinked_def)

lemma set_next_relinked: "set_next x v hp = Some hp' \<Longrightarrow> x \<in> D \<Longrightarrow> relinked D hp hp'"
  by (auto simp: set_next_def relinked_def split: option.splits)

lemma set_prev_relinked: "set_prev x v hp = Some hp' \<Longrightarrow> x \<in> D \<Longrightarrow> relinked D hp hp'"
  by (auto simp: set_prev_def relinked_def split: option.splits)

section \<open>Linking and unlinking\<close>

text \<open>insertElement at the front of the list.\<close>

definition link_front :: "addr \<Rightarrow> addr \<Rightarrow> heap \<Rightarrow> heap option" where
  "link_front pNew fst' hp = do {
     hp \<leftarrow> set_next pNew fst' hp;
     hp \<leftarrow> (if fst' \<noteq> 0 then set_prev fst' pNew hp else Some hp);
     set_prev pNew 0 hp }"

lemma link_front_ok:
  assumes "lseg hp 0 a xs 0 l" and "hp n = Some e" and "n \<noteq> 0" and "n \<notin> set xs" and "distinct xs"
  shows "\<exists>hp'. link_front n a hp = Some hp' \<and> (\<exists>l'. lseg hp' 0 n (n # xs) 0 l') \<and> relinked (insert n (set xs)) hp hp'"
proof -
  define hp1 where "hp1 = hp(n \<mapsto> e\<lparr>e_next := a\<rparr>)"
  have s1: "set_next n a hp = Some hp1" using assms(2) by (simp add: set_next_def hp1_def)
  have l1: "lseg hp1 0 a xs 0 l" using assms by (simp add: hp1_def)
  show ?thesis
  proof (cases xs)
    case Nil
    then have "a = 0" using assms(1) by simp
    moreover have "set_prev n 0 hp1 = Some (hp1(n \<mapsto> e\<lparr>e_next := a, e_prev := 0\<rparr>))" by (simp add: set_prev_def hp1_def)
    moreover have "relinked (insert n (set xs)) hp (hp1(n \<mapsto> e\<lparr>e_next := a, e_prev := 0\<rparr>))"
      using assms(2) by (auto simp: relinked_def payload_def hp1_def fun_eq_iff)
    ultimately show ?thesis using s1 Nil assms(3) by (auto simp: link_front_def)
  next
    case (Cons x ys)
    have x: "a = x" "x \<noteq> 0" using assms(1) Cons by auto
    obtain f where f: "hp1 x = Some f" and s2: "set_prev x n hp1 = Some (hp1(x \<mapsto> f\<lparr>e_prev := n\<rparr>))"
        and l2: "lseg (hp1(x \<mapsto> f\<lparr>e_prev := n\<rparr>)) n x xs 0 l"
      using lseg_set_prev [of hp1 0 a x ys 0 l n] l1 Cons assms(5) x by auto
    define hp2 where "hp2 = hp1(x \<mapsto> f\<lparr>e_prev := n\<rparr>)"
    have nx: "n \<noteq> x" using assms(4) Cons by auto
    have n2: "hp2 n = Some (e\<lparr>e_next := a\<rparr>)" using nx by (simp add: hp2_def hp1_def)
    define hp3 where "hp3 = hp2(n \<mapsto> e\<lparr>e_next := a, e_prev := 0\<rparr>)"
    have s3: "set_prev n 0 hp2 = Some hp3" using n2 by (simp add: set_prev_def hp3_def)
    have "lseg hp3 n x xs 0 l" using l2 assms(4) by (simp add: hp3_def hp2_def)
    then have "lseg hp3 0 n (n # xs) 0 l" using assms(3) x by (simp add: hp3_def)
    moreover have "relinked (insert n (set xs)) hp hp3"
      using set_next_relinked [OF s1, of "insert n (set xs)"] set_prev_relinked [OF s2, of "insert n (set xs)"]
        set_prev_relinked [OF s3, of "insert n (set xs)"] Cons relinked_trans by (metis hp2_def insertCI list.set_intros(1))
    moreover have "link_front n a hp = Some hp3"
      using s1 s2 s3 x by (simp add: link_front_def hp2_def)
    ultimately show ?thesis by blast
  qed
qed

text \<open>insertElement in front of an element; the new first element of the list, when it changes.\<close>

definition link_before :: "addr \<Rightarrow> addr \<Rightarrow> heap \<Rightarrow> (addr option \<times> heap) option" where
  "link_before pNew pHead hp = do {
     hp \<leftarrow> set_next pNew pHead hp;
     hd \<leftarrow> hp pHead;
     hp \<leftarrow> set_prev pNew (e_prev hd) hp;
     hp' \<leftarrow> (if e_prev hd \<noteq> 0 then set_next (e_prev hd) pNew hp else Some hp);
     hp'' \<leftarrow> set_prev pHead pNew hp';
     Some (if e_prev hd \<noteq> 0 then None else Some pNew, hp'') }"

lemma link_before_ok:
  assumes "lseg hp 0 a (us @ y # vs) 0 l" and "hp n = Some e" and "n \<noteq> 0" and "n \<notin> set (us @ y # vs)"
    and "distinct (us @ y # vs)"
  shows "\<exists>r hp'. link_before n y hp = Some (r, hp') \<and> (\<exists>l'. lseg hp' 0 (case r of None \<Rightarrow> a | Some f \<Rightarrow> f) (us @ n # y # vs) 0 l')
    \<and> relinked (insert n (set (us @ y # vs))) hp hp'"
proof -
  let ?D = "insert n (set (us @ y # vs))"
  obtain m where lu: "lseg hp 0 a us y m" and lv: "lseg hp m y (y # vs) 0 l"
    using assms(1) by (auto simp: lseg_append)
  define hp1 where "hp1 = hp(n \<mapsto> e\<lparr>e_next := y\<rparr>)"
  have s1: "set_next n y hp = Some hp1" using assms(2) by (simp add: set_next_def hp1_def)
  have lu1: "lseg hp1 0 a us y m" and lv1: "lseg hp1 m y (y # vs) 0 l"
    using lu lv assms(4) by (simp_all only: hp1_def lseg_upd) (simp_all add: hp1_def)
  obtain h where h: "hp1 y = Some h" "e_prev h = m" using lv1 by auto
  define hp2 where "hp2 = hp1(n \<mapsto> e\<lparr>e_next := y, e_prev := m\<rparr>)"
  have s2: "set_prev n m hp1 = Some hp2" by (simp add: set_prev_def hp1_def hp2_def)
  have lu2: "lseg hp2 0 a us y m" and lv2: "lseg hp2 m y (y # vs) 0 l"
    using lu1 lv1 assms(4) by (auto simp: hp2_def)
  have n2: "hp2 n = Some (e\<lparr>e_next := y, e_prev := m\<rparr>)" by (simp add: hp2_def)
  have r2: "relinked ?D hp hp2"
    using relinked_trans [OF set_next_relinked [OF s1] set_prev_relinked [OF s2]] by simp
  have "\<exists>hp3. (if m \<noteq> 0 then set_next m n hp2 else Some hp2) = Some hp3 \<and> lseg hp3 0 (if m \<noteq> 0 then a else n) us n m
      \<and> lseg hp3 m y (y # vs) 0 l \<and> hp3 n = hp2 n \<and> relinked ?D hp2 hp3"
  proof (cases "us = []")
    case True
    then have "m = 0" "a = y" using lu by auto
    then show ?thesis using True lu2 lv2 by (simp add: relinked_def)
  next
    case False
    then obtain ws z where us: "us = ws @ [z]" by (metis rev_exhaust)
    have z: "m = z" "m \<noteq> 0" using lseg_last [OF lu False] us by auto
    obtain f where f: "hp2 z = Some f" and s3: "set_next z n hp2 = Some (hp2(z \<mapsto> f\<lparr>e_next := n\<rparr>))"
        and l3: "lseg (hp2(z \<mapsto> f\<lparr>e_next := n\<rparr>)) 0 a (ws @ [z]) n m"
      using lseg_set_next [of hp2 0 a ws z y m n] lu2 us assms(5) by auto
    have "z \<notin> set (y # vs)" "z \<noteq> n" using assms(4,5) us by auto
    then have "lseg (hp2(z \<mapsto> f\<lparr>e_next := n\<rparr>)) m y (y # vs) 0 l" "(hp2(z \<mapsto> f\<lparr>e_next := n\<rparr>)) n = hp2 n"
      using lv2 lseg_upd [of z "y # vs" hp2] by (blast, simp)
    moreover have "relinked ?D hp2 (hp2(z \<mapsto> f\<lparr>e_next := n\<rparr>))" using set_next_relinked [OF s3] us by simp
    ultimately show ?thesis using z us l3 s3 by auto
  qed
  then obtain hp3 where s3: "(if m \<noteq> 0 then set_next m n hp2 else Some hp2) = Some hp3"
      and lu3: "lseg hp3 0 (if m \<noteq> 0 then a else n) us n m" and lv3: "lseg hp3 m y (y # vs) 0 l"
      and n3: "hp3 n = hp2 n" and r3: "relinked ?D hp2 hp3" by blast
  obtain g where s4: "set_prev y n hp3 = Some (hp3(y \<mapsto> g\<lparr>e_prev := n\<rparr>))"
      and l4: "lseg (hp3(y \<mapsto> g\<lparr>e_prev := n\<rparr>)) n y (y # vs) 0 l"
    using lseg_set_prev [OF lv3, of n] assms(5) by auto
  define hp4 where "hp4 = hp3(y \<mapsto> g\<lparr>e_prev := n\<rparr>)"
  have yn: "y \<noteq> n" "y \<notin> set us" using assms(4,5) by auto
  have "lseg hp4 0 (if m \<noteq> 0 then a else n) us n m" using lu3 yn by (simp add: hp4_def)
  moreover have "lseg hp4 m n (n # y # vs) 0 l" using l4 n3 n2 yn assms(3) by (simp add: hp4_def)
  ultimately have "lseg hp4 0 (if m \<noteq> 0 then a else n) (us @ n # y # vs) 0 l" by (auto simp: lseg_append)
  moreover have "relinked ?D hp hp4"
    using relinked_trans [OF relinked_trans [OF r2 r3] set_prev_relinked [OF s4]] by (simp add: hp4_def)
  moreover have "link_before n y hp = Some (if m \<noteq> 0 then None else Some n, hp4)"
    using s1 s2 s3 s4 h by (cases "m = 0") (simp_all add: link_before_def hp4_def)
  ultimately show ?thesis by (cases "m = 0") auto
qed

text \<open>removeElement's unlinking; the address that is first afterwards, when it changes.\<close>

definition unlink :: "HashElem \<Rightarrow> heap \<Rightarrow> heap option" where
  "unlink e hp = do {
     hp \<leftarrow> (if e_prev e \<noteq> 0 then set_next (e_prev e) (e_next e) hp else Some hp);
     if e_next e \<noteq> 0 then set_prev (e_next e) (e_prev e) hp else Some hp }"

lemma unlink_ok:
  assumes "lseg hp 0 a (us @ x # vs) 0 l" and "distinct (us @ x # vs)"
  shows "\<exists>e hp'. hp x = Some e \<and> unlink e hp = Some hp'
    \<and> (\<exists>l'. lseg hp' 0 (if e_prev e \<noteq> 0 then a else e_next e) (us @ vs) 0 l')
    \<and> e_next e = (if vs = [] then 0 else hd vs) \<and> relinked (set (us @ vs)) hp hp'"
proof -
  let ?D = "set (us @ vs)"
  obtain m e where lu: "lseg hp 0 a us x m" and e: "hp x = Some e" "e_prev e = m" and lv: "lseg hp x (e_next e) vs 0 l"
    using assms(1) by (auto simp: lseg_append)
  let ?b = "e_next e"
  have xs: "x \<notin> set us" "x \<notin> set vs" "distinct us" "distinct vs" "set us \<inter> set vs = {}" using assms(2) by auto
  have "\<exists>hp1. (if m \<noteq> 0 then set_next m ?b hp else Some hp) = Some hp1 \<and> lseg hp1 0 (if m \<noteq> 0 then a else ?b) us ?b m
      \<and> lseg hp1 x ?b vs 0 l \<and> relinked ?D hp hp1"
  proof (cases "us = []")
    case True
    then have "m = 0" using lu by auto
    then show ?thesis using True lv by (simp add: relinked_def)
  next
    case False
    then obtain ws z where us: "us = ws @ [z]" by (metis rev_exhaust)
    have z: "m = z" "m \<noteq> 0" using lseg_last [OF lu False] us by auto
    obtain f where s: "set_next z ?b hp = Some (hp(z \<mapsto> f\<lparr>e_next := ?b\<rparr>))"
        and l1: "lseg (hp(z \<mapsto> f\<lparr>e_next := ?b\<rparr>)) 0 a (ws @ [z]) ?b m"
      using lseg_set_next [of hp 0 a ws z x m ?b] lu us xs by auto
    have "z \<notin> set vs" using xs us by auto
    then have "lseg (hp(z \<mapsto> f\<lparr>e_next := ?b\<rparr>)) x ?b vs 0 l" using lv by simp
    then show ?thesis using z us l1 s set_next_relinked [OF s, of ?D] by auto
  qed
  then obtain hp1 where s1: "(if m \<noteq> 0 then set_next m ?b hp else Some hp) = Some hp1"
      and lu1: "lseg hp1 0 (if m \<noteq> 0 then a else ?b) us ?b m" and lv1: "lseg hp1 x ?b vs 0 l" and r1: "relinked ?D hp hp1"
    by blast
  have "\<exists>hp2 l'. (if ?b \<noteq> 0 then set_prev ?b m hp1 else Some hp1) = Some hp2 \<and> lseg hp2 0 (if m \<noteq> 0 then a else ?b) (us @ vs) 0 l'
      \<and> relinked ?D hp1 hp2"
  proof (cases vs)
    case Nil
    then show ?thesis using lu1 lv1 by (auto simp: relinked_def)
  next
    case (Cons v ws)
    then have b: "?b = v" "?b \<noteq> 0" using lseg_first [OF lv1] by auto
    obtain f where s: "set_prev v m hp1 = Some (hp1(v \<mapsto> f\<lparr>e_prev := m\<rparr>))"
        and l2: "lseg (hp1(v \<mapsto> f\<lparr>e_prev := m\<rparr>)) m v (v # ws) 0 l"
      using lseg_set_prev [of hp1 x ?b v ws 0 l m] lv1 Cons xs b by auto
    have "v \<notin> set us" using xs Cons by auto
    then have "lseg (hp1(v \<mapsto> f\<lparr>e_prev := m\<rparr>)) 0 (if m \<noteq> 0 then a else ?b) us ?b m" using lu1 by simp
    then have "lseg (hp1(v \<mapsto> f\<lparr>e_prev := m\<rparr>)) 0 (if m \<noteq> 0 then a else ?b) (us @ vs) 0 l"
      using l2 b Cons by (auto simp: lseg_append)
    then show ?thesis using b s Cons set_prev_relinked [OF s, of ?D] by auto
  qed
  then obtain hp2 l' where s2: "(if ?b \<noteq> 0 then set_prev ?b m hp1 else Some hp1) = Some hp2"
      and l2: "lseg hp2 0 (if m \<noteq> 0 then a else ?b) (us @ vs) 0 l'" and r2: "relinked ?D hp1 hp2" by blast
  have "?b = (if vs = [] then 0 else hd vs)" using lv by (cases vs) auto
  moreover have "unlink e hp = Some hp2" using s1 s2 e by (cases "m = 0"; cases "?b = 0") (simp_all add: unlink_def)
  ultimately show ?thesis using e l2 relinked_trans [OF r1 r2] by auto
qed

section \<open>The invariant\<close>

definition name_at :: "heap \<Rightarrow> addr \<Rightarrow> bytes" where
  "name_at hp x = (case payload hp x of None \<Rightarrow> [] | Some (d, k, h) \<Rightarrow> keyname k)"

definition hash_at :: "heap \<Rightarrow> addr \<Rightarrow> u32" where
  "hash_at hp x = (case payload hp x of None \<Rightarrow> 0 | Some (d, k, h) \<Rightarrow> h)"

definition data_at :: "heap \<Rightarrow> addr \<Rightarrow> nat" where
  "data_at hp x = (case payload hp x of None \<Rightarrow> 0 | Some (d, k, h) \<Rightarrow> d)"

definition elem_ok :: "heap \<Rightarrow> addr \<Rightarrow> bool" where
  "elem_ok hp x \<longleftrightarrow> (\<exists>d k. payload hp x = Some (d, k, name_hash (keyname k)) \<and> d \<noteq> 0 \<and> terminated k)"

text \<open>
  The elements of the list fall into groups, one per non-empty bucket, that follow one another; a
  bucket has the length of its group and the group's first element.
\<close>

definition groups_ok :: "nat \<Rightarrow> (nat \<times> addr) list \<Rightarrow> heap \<Rightarrow> (nat \<times> addr list) list \<Rightarrow> bool" where
  "groups_ok n bs hp gs \<longleftrightarrow> length bs = n \<and> 0 < n \<and> distinct (map fst gs)
     \<and> (\<forall>(i, ys) \<in> set gs. i < n \<and> ys \<noteq> [] \<and> (\<forall>y \<in> set ys. unat (hash_at hp y) mod n = i))
     \<and> (\<forall>i < n. case map_of gs i of None \<Rightarrow> fst (bs ! i) = 0 | Some ys \<Rightarrow> bs ! i = (length ys, hd ys))"

definition table_ok :: "Hash \<Rightarrow> heap \<Rightarrow> addr list \<Rightarrow> bool" where
  "table_ok H hp xs \<longleftrightarrow>
     (case h_ht H of
        None \<Rightarrow> htsize H = 0
      | Some bs \<Rightarrow> \<exists>gs. xs = concat (map snd gs) \<and> groups_ok (htsize H) bs hp gs)"

definition linked :: "Hash \<Rightarrow> heap \<Rightarrow> addr list \<Rightarrow> bool" where
  "linked H hp xs \<longleftrightarrow> (\<exists>l. lseg hp 0 (h_first H) xs 0 l) \<and> distinct xs \<and> table_ok H hp xs"

definition hash_ok :: "Hash \<Rightarrow> heap \<Rightarrow> addr list \<Rightarrow> bool" where
  "hash_ok H hp xs \<longleftrightarrow> linked H hp xs \<and> finite (dom hp) \<and> h_count H = length xs
     \<and> (\<forall>x \<in> set xs. elem_ok hp x) \<and> distinct (map (name_at hp) xs)"

text \<open>The contents: the map from names to data.\<close>

definition contents :: "heap \<Rightarrow> addr list \<Rightarrow> bytes \<rightharpoonup> nat" where
  "contents hp xs = map_of (map (\<lambda>x. (name_at hp x, data_at hp x)) xs)"

lemma at_payload:
  "payload hp' = payload hp \<Longrightarrow> name_at hp' = name_at hp" "payload hp' = payload hp \<Longrightarrow> hash_at hp' = hash_at hp"
  "payload hp' = payload hp \<Longrightarrow> data_at hp' = data_at hp" "payload hp' = payload hp \<Longrightarrow> elem_ok hp' = elem_ok hp"
  "payload hp' = payload hp \<Longrightarrow> contents hp' xs = contents hp xs"
  "payload hp' = payload hp \<Longrightarrow> groups_ok n bs hp' gs = groups_ok n bs hp gs"
  by (simp_all add: name_at_def hash_at_def data_at_def elem_ok_def contents_def groups_ok_def fun_eq_iff)

section \<open>insertElement\<close>

lemma insertElement_plain:
  "insertElement None n H hp = map_option (\<lambda>hp'. (H\<lparr>h_first := n\<rparr>, hp')) (link_front n (h_first H) hp)"
  by (simp add: insertElement_def link_front_def map_option_case bind_eq_Some_conv split: option.split)
     (auto split: option.splits bind_splits)

lemma insertElement_bucket:
  assumes "bucket H i = Some (cnt, chain)"
  shows "insertElement (Some i) n H hp =
     (if cnt \<noteq> 0 \<and> chain \<noteq> 0
      then map_option (\<lambda>(r, hp'). ((set_bucket i (cnt + 1, n) H)\<lparr>h_first := (case r of None \<Rightarrow> h_first H | Some f \<Rightarrow> f)\<rparr>, hp'))
             (link_before n chain hp)
      else map_option (\<lambda>hp'. ((set_bucket i (cnt + 1, n) H)\<lparr>h_first := n\<rparr>, hp')) (link_front n (h_first H) hp))"
  using assms
  by (auto simp: insertElement_def link_before_def link_front_def set_bucket_def split: option.splits bind_splits if_splits)

end
