(* ===== verification/Sqlite_Hash_Map.thy ===== *)
theory Sqlite_Hash_Map
  imports Sqlite_Hash "HOL-Library.Multiset"
begin

text \<open>
  The hash table implements a map from names to data, where names that differ only in the case of ASCII letters
  are the same: every operation on a table that satisfies the invariant returns (no null or dangling pointer
  is used, no loop runs on), keeps the invariant and changes the map as its documentation says.
\<close>

section \<open>Groups\<close>

lemma groups_new:
  assumes "groups_ok n bs hp gs" and "map_of gs i = None" and "i < n" and "unat (hash_at hp x) mod n = i"
  shows "groups_ok n (bs[i := (Suc 0, x)]) hp ((i, [x]) # gs)"
  using assms unfolding groups_ok_def by (auto simp: map_of_eq_None_iff nth_list_update split: option.splits)

lemma groups_split:
  assumes "distinct (map fst gs)" and "map_of gs i = Some ys"
  shows "\<exists>g1 g2. gs = g1 @ (i, ys) # g2 \<and> i \<notin> fst ` set g1 \<and> i \<notin> fst ` set g2"
proof -
  obtain g1 g2 where "gs = g1 @ (i, ys) # g2" using split_list [OF map_of_SomeD [OF assms(2)]] by blast
  then show ?thesis using assms(1) by (intro exI [of _ g1] exI [of _ g2]) auto
qed

text \<open>Replacing the group of a bucket, and dropping it.\<close>

lemma groups_replace:
  assumes "groups_ok n bs hp (g1 @ (i, ys) # g2)" and "zs \<noteq> []" and "\<forall>z \<in> set zs. unat (hash_at hp z) mod n = i"
  shows "groups_ok n (bs[i := (length zs, hd zs)]) hp (g1 @ (i, zs) # g2)"
proof -
  have i: "i \<notin> fst ` set g1" "i \<notin> fst ` set g2" "i < n" and d: "distinct (map fst (g1 @ (i, zs) # g2))"
    using assms(1) by (auto simp: groups_ok_def)
  have no: "map_of g1 i = None" "map_of g2 i = None" using i by (simp_all add: map_of_eq_None_iff)
  have m: "map_of (g1 @ (i, zs) # g2) j = (if j = i then Some zs else map_of (g1 @ (i, ys) # g2) j)" for j
    using no by (simp add: map_add_def split: option.split)
  show ?thesis using assms d i(3) unfolding groups_ok_def m by (auto simp: nth_list_update split: option.splits)
qed

lemma groups_drop:
  assumes "groups_ok n bs hp (g1 @ (i, ys) # g2)"
  shows "groups_ok n (bs[i := (0, c)]) hp (g1 @ g2)"
proof -
  have i: "i \<notin> fst ` set g1" "i \<notin> fst ` set g2" "i < n" and d: "distinct (map fst (g1 @ g2))"
    using assms(1) by (auto simp: groups_ok_def)
  have no: "map_of g1 i = None" "map_of g2 i = None" using i by (simp_all add: map_of_eq_None_iff)
  have m: "map_of (g1 @ g2) j = (if j = i then None else map_of (g1 @ (i, ys) # g2) j)" for j
    using no by (simp add: map_add_def split: option.split)
  show ?thesis using assms d i(3) unfolding groups_ok_def m by (auto simp: nth_list_update split: option.splits)
qed

text \<open>The bucket of a hash value.\<close>

lemma groups_bucket:
  assumes "groups_ok n bs hp gs" and "i < n"
  shows "case map_of gs i of None \<Rightarrow> fst (bs ! i) = 0 | Some ys \<Rightarrow> bs ! i = (length ys, hd ys) \<and> ys \<noteq> []"
  using assms by (fastforce simp: groups_ok_def split: option.splits dest: map_of_SomeD)

section \<open>insertElement\<close>

lemma insertElement_ok:
  assumes "linked H hp xs" and "hp n = Some e" and "n \<noteq> 0" and "n \<notin> set xs"
    and "pe = (if h_ht H = None then None else Some (unat (e_h e) mod htsize H))"
  shows "\<exists>H' hp' us vs. insertElement pe n H hp = Some (H', hp') \<and> xs = us @ vs \<and> linked H' hp' (us @ n # vs)
    \<and> relinked (insert n (set xs)) hp hp' \<and> h_count H' = h_count H \<and> htsize H' = htsize H
    \<and> (h_ht H' = None) = (h_ht H = None)"
proof -
  obtain l where l: "lseg hp 0 (h_first H) xs 0 l" and d: "distinct xs" and t: "table_ok H hp xs"
    using assms(1) by (auto simp: linked_def)
  obtain hpf lf where f: "link_front n (h_first H) hp = Some hpf" "lseg hpf 0 n (n # xs) 0 lf" "relinked (insert n (set xs)) hp hpf"
    using link_front_ok [OF l assms(2,3,4) d] by blast
  show ?thesis
  proof (cases "h_ht H")
    case None
    have "linked (H\<lparr>h_first := n\<rparr>) hpf (n # xs)"
      using f None t d assms(4) by (auto simp: linked_def table_ok_def)
    then have "insertElement pe n H hp = Some (H\<lparr>h_first := n\<rparr>, hpf) \<and> xs = [] @ xs \<and> linked (H\<lparr>h_first := n\<rparr>) hpf ([] @ n # xs)"
      using f None assms(5) by (simp add: insertElement_plain)
    with f(3) show ?thesis by (intro exI [of _ "H\<lparr>h_first := n\<rparr>"] exI [of _ hpf] exI [of _ "[]"] exI [of _ xs]) simp
  next
    case (Some bs)
    let ?n = "htsize H"
    let ?i = "unat (e_h e) mod ?n"
    obtain gs where gs: "xs = concat (map snd gs)" "groups_ok ?n bs hp gs" using t Some by (auto simp: table_ok_def)
    have i: "?i < ?n" "length bs = ?n" using gs(2) by (auto simp: groups_ok_def)
    have b: "bucket H ?i = Some (bs ! ?i)" using Some i by (simp add: bucket_def)
    have hn: "unat (hash_at hp n) mod ?n = ?i" using assms(2) by (simp add: hash_at_def payload_def)
    obtain cnt chain where bs: "bs ! ?i = (cnt, chain)" by fastforce
    have pe: "pe = Some ?i" using assms(5) Some by simp
    show ?thesis
    proof (cases "map_of gs ?i")
      case None
      then have "cnt = 0" using groups_bucket [OF gs(2) i(1)] bs by simp
      let ?H' = "(set_bucket ?i (1, n) H)\<lparr>h_first := n\<rparr>"
      have r: "insertElement pe n H hp = Some (?H', hpf)"
        using insertElement_bucket [of H ?i cnt chain n hp] b bs \<open>cnt = 0\<close> f(1) pe by simp
      have "groups_ok ?n (bs[?i := (1, n)]) hpf ((?i, [n]) # gs)"
        using groups_new [OF gs(2) None i(1) hn] at_payload(6) [of hpf hp] f(3) by (simp add: relinked_def)
      moreover have "n # xs = concat (map snd ((?i, [n]) # gs))" using gs(1) by simp
      ultimately have "table_ok ?H' hpf (n # xs)"
        using \<open>h_ht H = Some bs\<close> by (auto simp: table_ok_def set_bucket_def intro: exI [of _ "(?i, [n]) # gs"])
      then have "linked ?H' hpf (n # xs)" using f(2) d assms(4) by (auto simp: linked_def)
      then have "insertElement pe n H hp = Some (?H', hpf) \<and> xs = [] @ xs \<and> linked ?H' hpf ([] @ n # xs)
          \<and> h_count ?H' = h_count H \<and> htsize ?H' = htsize H \<and> (h_ht ?H' = None) = (h_ht H = None)"
        using r by (simp add: set_bucket_def)
      with f(3) show ?thesis by (intro exI [of _ ?H'] exI [of _ hpf] exI [of _ "[]"] exI [of _ xs]) simp
    next
      case (Some ys)
      then have ys: "cnt = length ys" "chain = hd ys" "ys \<noteq> []" using groups_bucket [OF gs(2) i(1)] bs by auto
      obtain g1 g2 where g: "gs = g1 @ (?i, ys) # g2" using groups_split [OF _ Some] gs(2) by (auto simp: groups_ok_def)
      let ?us = "concat (map snd g1)"
      let ?vs = "concat (map snd g2)"
      obtain y zs where y: "ys = y # zs" using ys(3) by (cases ys) auto
      have xs: "xs = ?us @ y # zs @ ?vs" using gs(1) g y by simp
      have "chain \<noteq> 0" using lseg_in_heap [OF l, of y] xs ys y by simp
      obtain r hpb lb where lb: "link_before n y hp = Some (r, hpb)"
          "lseg hpb 0 (case r of None \<Rightarrow> h_first H | Some f \<Rightarrow> f) (?us @ n # y # zs @ ?vs) 0 lb" "relinked (insert n (set xs)) hp hpb"
        using link_before_ok [of hp "h_first H" ?us y "zs @ ?vs" l n e] l d assms(2,3,4) xs by auto
      let ?H' = "(set_bucket ?i (cnt + 1, n) H)\<lparr>h_first := (case r of None \<Rightarrow> h_first H | Some f \<Rightarrow> f)\<rparr>"
      have ins: "insertElement pe n H hp = Some (?H', hpb)"
        using insertElement_bucket [of H ?i cnt chain n hp] b bs ys y \<open>chain \<noteq> 0\<close> lb(1) pe by simp
      have "\<forall>z \<in> set (n # ys). unat (hash_at hp z) mod ?n = ?i" using gs(2) g hn by (auto simp: groups_ok_def)
      then have "groups_ok ?n (bs[?i := (length (n # ys), hd (n # ys))]) hp (g1 @ (?i, n # ys) # g2)"
        using groups_replace [of ?n bs hp g1 ?i ys g2 "n # ys"] gs(2) g by simp
      then have "groups_ok ?n (bs[?i := (cnt + 1, n)]) hpb (g1 @ (?i, n # ys) # g2)"
        using lb(3) at_payload(6) [of hpb hp] ys by (simp add: relinked_def)
      moreover have "?us @ n # y # zs @ ?vs = concat (map snd (g1 @ (?i, n # ys) # g2))" using y by simp
      ultimately have "table_ok ?H' hpb (?us @ n # y # zs @ ?vs)"
        using \<open>h_ht H = Some bs\<close> by (auto simp: table_ok_def set_bucket_def intro: exI [of _ "g1 @ (?i, n # ys) # g2"])
      moreover have "distinct (?us @ n # y # zs @ ?vs)" using d xs assms(4) by auto
      ultimately have "linked ?H' hpb (?us @ n # (y # zs @ ?vs))" using lb(2) by (auto simp: linked_def)
      then have "insertElement pe n H hp = Some (?H', hpb) \<and> xs = ?us @ (y # zs @ ?vs) \<and> linked ?H' hpb (?us @ n # (y # zs @ ?vs))
          \<and> h_count ?H' = h_count H \<and> htsize ?H' = htsize H \<and> (h_ht ?H' = None) = (h_ht H = None)"
        using ins xs by (simp add: set_bucket_def)
      with lb(3) show ?thesis by (intro exI [of _ ?H'] exI [of _ hpb] exI [of _ ?us] exI [of _ "y # zs @ ?vs"]) simp
    qed
  qed
qed

section \<open>rehash\<close>

text \<open>The elements still to be moved: reached by next pointers, whatever their prev pointers say.\<close>

fun npath :: "heap \<Rightarrow> addr \<Rightarrow> addr list \<Rightarrow> bool" where
  "npath hp a [] \<longleftrightarrow> a = 0"
| "npath hp a (x # xs) \<longleftrightarrow> a = x \<and> x \<noteq> 0 \<and> (\<exists>e. hp x = Some e \<and> npath hp (e_next e) xs)"

lemma npath_frame: "set xs \<inter> D = {} \<Longrightarrow> (\<And>x. x \<notin> D \<Longrightarrow> hp' x = hp x) \<Longrightarrow> npath hp' a xs = npath hp a xs"
  by (induction xs arbitrary: a) auto

lemma lseg_npath: "lseg hp p a xs 0 l \<Longrightarrow> npath hp a xs"
  by (induction xs arbitrary: p a) auto

lemma rehash_loop_ok:
  assumes "linked H hp ps" and "npath hp a rs" and "distinct (rs @ ps)" and "h_ht H \<noteq> None" and "htsize H = n"
  shows "\<exists>H' hp' xs. rehash_loop n a H hp = Some (H', hp') \<and> linked H' hp' xs \<and> mset xs = mset (rs @ ps)
    \<and> relinked (set (rs @ ps)) hp hp' \<and> h_count H' = h_count H \<and> htsize H' = n \<and> h_ht H' \<noteq> None"
  using assms
proof (induction rs arbitrary: a H hp ps)
  case Nil
  then show ?case by (subst rehash_loop.simps) (auto simp: relinked_def)
next
  case (Cons r rs)
  obtain e where e: "a = r" "r \<noteq> 0" "hp r = Some e" "npath hp (e_next e) rs" using Cons.prems(2) by auto
  obtain H1 hp1 us vs where i: "insertElement (Some (unat (e_h e) mod n)) r H hp = Some (H1, hp1)" "ps = us @ vs"
      "linked H1 hp1 (us @ r # vs)" "relinked (insert r (set ps)) hp hp1" "h_count H1 = h_count H" "htsize H1 = n" "h_ht H1 \<noteq> None"
    using insertElement_ok [OF Cons.prems(1) e(3,2), of "Some (unat (e_h e) mod n)"] Cons.prems by auto
  have "npath hp1 (e_next e) rs"
    using npath_frame [of rs "insert r (set ps)" hp1 hp] i(4) Cons.prems(3) e(4) by (auto simp: relinked_def)
  moreover have "distinct (rs @ us @ r # vs)" using Cons.prems(3) i(2) by auto
  ultimately obtain H' hp' xs where n: "rehash_loop n (e_next e) H1 hp1 = Some (H', hp')" "linked H' hp' xs"
      "mset xs = mset (rs @ us @ r # vs)" "relinked (set (rs @ us @ r # vs)) hp1 hp'" "h_count H' = h_count H1"
      "htsize H' = n" "h_ht H' \<noteq> None"
    using Cons.IH [OF i(3), of "e_next e"] i(6,7) by blast
  have "relinked (set ((r # rs) @ ps)) hp hp'" using i(2,4) n(4) by (auto simp: relinked_def)
  moreover have "rehash_loop n a H hp = Some (H', hp')" using n(1) i(1) e by (subst rehash_loop.simps) simp
  moreover have "mset xs = mset ((r # rs) @ ps)" using n(3) i(2) by simp
  ultimately show ?case using n(2,5,6,7) i(5) by (intro exI [of _ H'] exI [of _ hp'] exI [of _ xs]) simp
qed

lemma rehash_ok:
  assumes "linked H hp xs" and "\<And>k m. allocated k = Some m \<Longrightarrow> 0 < m"
  shows "\<exists>H' hp' ys. rehash allocated k H hp = Some (H', hp') \<and> linked H' hp' ys \<and> mset ys = mset xs
    \<and> relinked (set xs) hp hp' \<and> h_count H' = h_count H"
proof -
  let ?k = "if k * 16 > 1024 then 1024 div 16 else k"
  show ?thesis
  proof (cases "?k = htsize H \<or> allocated ?k = None")
    case True
    then have "rehash allocated k H hp = Some (H, hp)" by (auto simp: rehash_def Let_def)
    then show ?thesis using assms(1) by (auto simp: relinked_def)
  next
    case False
    then obtain m where m: "allocated ?k = Some m" by auto
    let ?H = "H\<lparr>h_ht := Some (replicate m (0, 0)), htsize := m, h_first := 0\<rparr>"
    have "0 < m" using assms(2) m by blast
    then have "groups_ok m (replicate m (0, 0)) hp []" by (simp add: groups_ok_def)
    then have "linked ?H hp []" by (auto simp: linked_def table_ok_def intro: exI [of _ "[]"])
    moreover have "npath hp (h_first H) xs" "distinct xs" using assms(1) lseg_npath by (auto simp: linked_def)
    ultimately obtain H' hp' ys where r: "rehash_loop m (h_first H) ?H hp = Some (H', hp')" "linked H' hp' ys"
        "mset ys = mset xs" "relinked (set xs) hp hp'" "h_count H' = h_count ?H"
      using rehash_loop_ok [of ?H hp "[]" "h_first H" xs m] by auto
    moreover have "rehash allocated k H hp = rehash_loop m (h_first H) ?H hp" using False m by (simp add: rehash_def Let_def)
    ultimately show ?thesis by auto
  qed
qed

section \<open>Finding\<close>

lemma elem_okD:
  assumes "elem_ok hp x" and "hp x = Some e"
  shows "e_h e = name_hash (name_at hp x)" "hash_at hp x = e_h e" "keyname (e_key e) = name_at hp x" "terminated (e_key e)"
    "data_at hp x = e_data e" "e_data e \<noteq> 0"
  using assms by (auto simp: elem_ok_def name_at_def hash_at_def data_at_def payload_def)

definition found :: "heap \<Rightarrow> addr list \<Rightarrow> bytes \<Rightarrow> addr \<Rightarrow> bool" where
  "found hp xs n a \<longleftrightarrow> (if n \<in> name_at hp ` set xs then a \<in> set xs \<and> name_at hp a = n else a = 0)"

lemma find_loop_ok:
  assumes "lseg hp p a ys q l" and "\<forall>y \<in> set ys. elem_ok hp y" and "terminated k"
  shows "\<exists>b. find_loop hp (name_hash (keyname k)) k a (length ys) = Some b \<and> found hp ys (keyname k) b"
  using assms(1,2)
proof (induction ys arbitrary: p a)
  case Nil
  then show ?case by (simp add: found_def)
next
  case (Cons y ys)
  obtain e where e: "a = y" "hp y = Some e" "lseg hp y (e_next e) ys q l" using Cons.prems(1) by auto
  have ok: "elem_ok hp y" using Cons.prems(2) by simp
  obtain c where c: "sqlite3StrICmp (e_key e) k = Some c" "(c = 0) = (name_at hp y = keyname k)"
    using StrICmp_name [OF elem_okD(4) [OF ok e(2)] assms(3)] elem_okD(3) [OF ok e(2)] by auto
  obtain b where b: "find_loop hp (name_hash (keyname k)) k (e_next e) (length ys) = Some b" "found hp ys (keyname k) b"
    using Cons.IH [OF e(3)] Cons.prems(2) by auto
  show ?case
  proof (cases "name_at hp y = keyname k")
    case True
    then show ?thesis using e c elem_okD(1) [OF ok e(2)] by (auto simp: found_def)
  next
    case False
    then have "find_loop hp (name_hash (keyname k)) k a (length (y # ys)) = Some b" using e c b(1) by auto
    moreover have "found hp (y # ys) (keyname k) b" using b(2) False by (auto simp: found_def)
    ultimately show ?thesis by blast
  qed
qed

lemma findElementWithHash_ok:
  assumes "hash_ok H hp xs" and "terminated k"
  shows "\<exists>a. findElementWithHash H k hp = Some (a, name_hash (keyname k)) \<and> found hp xs (keyname k) a"
proof -
  let ?h = "name_hash (keyname k)"
  obtain l where l: "lseg hp 0 (h_first H) xs 0 l" and t: "table_ok H hp xs" and ok: "\<forall>x \<in> set xs. elem_ok hp x"
      and c: "h_count H = length xs"
    using assms(1) by (auto simp: hash_ok_def linked_def)
  show ?thesis
  proof (cases "h_ht H")
    case None
    then show ?thesis using find_loop_ok [OF l ok assms(2)] c strHash_name [OF assms(2)]
      by (auto simp: findElementWithHash_def)
  next
    case (Some bs)
    let ?n = "htsize H"
    let ?i = "unat ?h mod ?n"
    obtain gs where gs: "xs = concat (map snd gs)" "groups_ok ?n bs hp gs" using t Some by (auto simp: table_ok_def)
    have i: "?i < ?n" "length bs = ?n" "?n \<noteq> 0" using gs(2) by (auto simp: groups_ok_def)
    have b: "bucket H ?i = Some (bs ! ?i)" using Some i by (simp add: bucket_def)
    have here: "x \<in> set ys" if x: "x \<in> set xs" "name_at hp x = keyname k" and "map_of gs ?i = ys'" and "ys = (case ys' of None \<Rightarrow> [] | Some ys \<Rightarrow> ys)" for x ys ys'
    proof -
      obtain j zs where z: "(j, zs) \<in> set gs" "x \<in> set zs" using x(1) gs(1) by auto
      obtain e where "hp x = Some e" using lseg_in_heap [OF l x(1)] by auto
      then have "hash_at hp x = ?h" using elem_okD(1,2) [of hp x e] ok x by auto
      then have "j = ?i" using z gs(2) by (fastforce simp: groups_ok_def)
      then have "map_of gs ?i = Some zs" using z(1) gs(2) by (simp add: groups_ok_def)
      then show ?thesis using z(2) that by simp
    qed
    show ?thesis
    proof (cases "map_of gs ?i")
      case None
      then have "fst (bs ! ?i) = 0" using groups_bucket [OF gs(2) i(1)] by simp
      moreover have "keyname k \<notin> name_at hp ` set xs" using here [OF _ _ None refl] by force
      ultimately show ?thesis using Some b i strHash_name [OF assms(2)]
        by (auto simp: findElementWithHash_def found_def split: prod.splits)
    next
      case (Some ys)
      then have y: "bs ! ?i = (length ys, hd ys)" "ys \<noteq> []" using groups_bucket [OF gs(2) i(1)] by auto
      obtain g1 g2 where g: "gs = g1 @ (?i, ys) # g2" using groups_split [OF _ Some] gs(2) by (auto simp: groups_ok_def)
      then have xs: "xs = concat (map snd g1) @ ys @ concat (map snd g2)" using gs(1) by simp
      obtain a p q m where "lseg hp p a ys q m" using l xs by (auto simp: lseg_append)
      then have s: "lseg hp p (hd ys) ys q m" using lseg_first y(2) by blast
      obtain b' where f: "find_loop hp ?h k (hd ys) (length ys) = Some b'" "found hp ys (keyname k) b'"
        using find_loop_ok [OF s _ assms(2)] ok xs by auto
      have "found hp xs (keyname k) b'"
        using f(2) here [OF _ _ Some refl] xs by (fastforce simp: found_def split: if_splits)
      then show ?thesis using \<open>h_ht H = Some bs\<close> b y f(1) i strHash_name [OF assms(2)] by (auto simp: findElementWithHash_def)
    qed
  qed
qed

section \<open>The contents\<close>

lemma contents_iff:
  assumes "distinct (map (name_at hp) xs)"
  shows "contents hp xs n = Some d \<longleftrightarrow> (\<exists>x \<in> set xs. name_at hp x = n \<and> data_at hp x = d)"
  using assms unfolding contents_def by (subst map_of_eq_Some_iff) (auto simp: comp_def)

lemma contents_eqI:
  assumes "distinct (map (name_at hp) xs)"
    and "\<And>n d. m n = Some d \<longleftrightarrow> (\<exists>x \<in> set xs. name_at hp x = n \<and> data_at hp x = d)"
  shows "contents hp xs = m"
proof (rule ext)
  fix n
  show "contents hp xs n = m n" using contents_iff [OF assms(1)] assms(2) by (metis not_Some_eq)
qed

lemma contents_found:
  assumes "hash_ok H hp xs" and "found hp xs n a"
  shows "contents hp xs n = (if a = 0 then None else Some (data_at hp a))"
    and "a \<noteq> 0 \<Longrightarrow> a \<in> set xs \<and> name_at hp a = n"
    and "elem_data a hp = Some (case contents hp xs n of None \<Rightarrow> 0 | Some d \<Rightarrow> d)"
proof -
  obtain l where l: "lseg hp 0 (h_first H) xs 0 l" and d: "distinct (map (name_at hp) xs)"
      and ok: "\<forall>x \<in> set xs. elem_ok hp x"
    using assms(1) by (auto simp: hash_ok_def linked_def)
  have nz: "x \<noteq> 0 \<and> hp x \<noteq> None" if "x \<in> set xs" for x using lseg_in_heap [OF l that] .
  show 1: "contents hp xs n = (if a = 0 then None else Some (data_at hp a))"
  proof (cases "n \<in> name_at hp ` set xs")
    case True
    then have "a \<in> set xs" "name_at hp a = n" using assms(2) by (auto simp: found_def)
    then show ?thesis using nz contents_iff [OF d, of n "data_at hp a"] by auto
  next
    case False
    then have "contents hp xs n = None" using contents_iff [OF d, of n] by (metis imageI not_Some_eq)
    then show ?thesis using assms(2) False by (simp add: found_def)
  qed
  show 2: "a \<noteq> 0 \<Longrightarrow> a \<in> set xs \<and> name_at hp a = n" using assms(2) by (auto simp: found_def split: if_splits)
  show "elem_data a hp = Some (case contents hp xs n of None \<Rightarrow> 0 | Some d \<Rightarrow> d)"
    using 1 2 nz ok elem_okD(5) by (cases "a = 0") (fastforce simp: elem_data_def)+
qed

lemma HashFind_ok:
  assumes "hash_ok H hp xs" and "terminated k"
  shows "sqlite3HashFind H k hp = Some (case contents hp xs (keyname k) of None \<Rightarrow> 0 | Some d \<Rightarrow> d)"
  using findElementWithHash_ok [OF assms] contents_found(3) [OF assms(1)] by (auto simp: sqlite3HashFind_def)

section \<open>Clearing and removing\<close>

lemma free_all_ok:
  assumes "npath hp a xs" and "distinct xs"
  shows "free_all a hp = Some (hp |` (- set xs))"
  using assms
proof (induction xs arbitrary: a hp)
  case Nil
  then show ?case by (subst free_all.simps) (simp add: restrict_map_def)
next
  case (Cons x xs)
  obtain e where e: "a = x" "x \<noteq> 0" "hp x = Some e" "npath hp (e_next e) xs" using Cons.prems(1) by auto
  have "npath (hp(x := None)) (e_next e) xs"
    using npath_frame [of xs "{x}" "hp(x := None)" hp] e(4) Cons.prems(2) by auto
  then have "free_all (e_next e) (hp(x := None)) = Some (hp(x := None) |` (- set xs))"
    using Cons.IH Cons.prems(2) by (simp only: distinct.simps)
  moreover have "hp(x := None) |` (- set xs) = hp |` (- set (x # xs))" by (auto simp: restrict_map_def fun_eq_iff)
  ultimately show ?case using e by (subst free_all.simps) simp
qed

lemma HashClear_ok:
  assumes "hash_ok H hp xs"
  shows "sqlite3HashClear H hp = Some (sqlite3HashInit, hp |` (- set xs))"
proof -
  have "npath hp (h_first H) xs" "distinct xs" using assms lseg_npath by (auto simp: hash_ok_def linked_def)
  then show ?thesis using free_all_ok by (simp add: sqlite3HashClear_def sqlite3HashInit_def)
qed

lemma HashInit_ok: "finite (dom hp) \<Longrightarrow> hash_ok sqlite3HashInit hp []"
  by (simp add: hash_ok_def linked_def table_ok_def sqlite3HashInit_def)

lemma contents_drop:
  assumes "distinct (map (name_at hp) (us @ x # vs))"
    and "\<And>y. y \<in> set (us @ vs) \<Longrightarrow> name_at hp' y = name_at hp y" and "\<And>y. y \<in> set (us @ vs) \<Longrightarrow> data_at hp' y = data_at hp y"
  shows "contents hp' (us @ vs) = (contents hp (us @ x # vs))(name_at hp x := None)"
proof (rule contents_eqI)
  have "map (name_at hp') (us @ vs) = map (name_at hp) (us @ vs)" using assms(2) by (intro map_cong refl)
  moreover have "distinct (map (name_at hp) (us @ vs))" using assms(1) by auto
  ultimately show "distinct (map (name_at hp') (us @ vs))" by metis
  fix n v
  have "(\<exists>y \<in> set (us @ vs). name_at hp' y = n \<and> data_at hp' y = v) \<longleftrightarrow>
      (\<exists>y \<in> set (us @ vs). name_at hp y = n \<and> data_at hp y = v)" using assms(2,3) by (metis (no_types, lifting))
  moreover have "\<forall>y \<in> set (us @ vs). name_at hp y \<noteq> name_at hp x" using assms(1) by (auto, (metis imageI)+)
  ultimately show "((contents hp (us @ x # vs))(name_at hp x := None)) n = Some v \<longleftrightarrow>
      (\<exists>y \<in> set (us @ vs). name_at hp' y = n \<and> data_at hp' y = v)"
    using contents_iff [OF assms(1), of n v] by (cases "n = name_at hp x") auto
qed

text \<open>The buckets after an element has left.\<close>

definition leave_bucket :: "addr \<Rightarrow> HashElem \<Rightarrow> Hash \<Rightarrow> Hash option" where
  "leave_bucket elem e H =
     (case h_ht H of
        None \<Rightarrow> Some H
      | Some _ \<Rightarrow> do {
          (cnt, chain) \<leftarrow> bucket H (unat (e_h e) mod htsize H);
          if cnt = 0 then None
          else Some (set_bucket (unat (e_h e) mod htsize H)
                       (cnt - 1, if chain = elem then e_next e else chain) H) })"

lemma removeElement_parts:
  assumes "hp x = Some e"
    and "unlink e hp = Some hp1"
    and "leave_bucket x e (if e_prev e \<noteq> 0 then H else H\<lparr>h_first := e_next e\<rparr>) = Some H1"
  shows "removeElement x H hp =
    (let hp2 = hp1(x := None); H2 = H1\<lparr>h_count := h_count H1 - 1\<rparr>
     in if h_count H2 = 0 then sqlite3HashClear H2 hp2 else Some (H2, hp2))"
  using assms by (auto simp: removeElement_def unlink_def leave_bucket_def Let_def bind_eq_Some_conv split: if_splits)

lemma leave_bucket_ok:
  assumes "table_ok H hp (us @ x # vs)" and "distinct (us @ x # vs)" and "hp x = Some e"
    and "e_next e = (if vs = [] then 0 else hd vs)"
    and "payload hp' = (payload hp)(x := None)" and "h_ht K = h_ht H" and "htsize K = htsize H"
  shows "\<exists>H'. leave_bucket x e K = Some H' \<and> h_first H' = h_first K \<and> h_count H' = h_count K \<and> table_ok H' hp' (us @ vs)"
proof (cases "h_ht H")
  case None
  then show ?thesis using assms by (simp add: leave_bucket_def table_ok_def)
next
  case (Some bs)
  let ?n = "htsize H"
  let ?i = "unat (e_h e) mod ?n"
  obtain gs where gs: "us @ x # vs = concat (map snd gs)" "groups_ok ?n bs hp gs" using assms(1) Some by (auto simp: table_ok_def)
  have i: "?i < ?n" "length bs = ?n" using gs(2) by (auto simp: groups_ok_def)
  have hx: "unat (hash_at hp x) mod ?n = ?i" using assms(3) by (simp add: hash_at_def payload_def)
  have same: "hash_at hp' y = hash_at hp y" if "y \<noteq> x" for y using assms(5) that by (simp add: hash_at_def)
  obtain ys where "(?i, ys) \<in> set gs" "x \<in> set ys"
  proof -
    have "x \<in> set (concat (map snd gs))" using gs(1) by (metis in_set_conv_decomp)
    then obtain j zs where z: "(j, zs) \<in> set gs" "x \<in> set zs" by auto
    then have "j = ?i" using gs(2) hx by (fastforce simp: groups_ok_def)
    then show ?thesis using that z by blast
  qed
  then have m: "map_of gs ?i = Some ys" and x: "x \<in> set ys" using gs(2) by (auto simp: groups_ok_def)
  obtain g1 g2 where g: "gs = g1 @ (?i, ys) # g2" using groups_split [OF _ m] gs(2) by (auto simp: groups_ok_def)
  let ?g1 = "concat (map snd g1)"
  let ?g2 = "concat (map snd g2)"
  obtain y1 y2 where ys: "ys = y1 @ x # y2" using x by (metis split_list)
  have "us @ x # vs = (?g1 @ y1) @ x # (y2 @ ?g2)" using gs(1) g ys by simp
  moreover have "x \<notin> set us" "x \<notin> set vs" using assms(2) by auto
  ultimately have uv: "us = ?g1 @ y1" "vs = y2 @ ?g2" using append_Cons_eq_iff by metis+
  have b: "bucket K ?i = Some (length ys, hd ys)"
    using groups_bucket [OF gs(2) i(1)] m Some i assms(6) by (simp add: bucket_def)
  let ?b = "(length ys - 1, if hd ys = x then e_next e else hd ys)"
  have l: "leave_bucket x e K = Some (set_bucket ?i ?b K)"
    using b Some assms(6,7) ys by (simp add: leave_bucket_def)
  have g': "groups_ok ?n bs hp (g1 @ (?i, ys) # g2)" using gs(2) g by simp
  have x': "x \<notin> set (concat (map snd g1))" "x \<notin> set (concat (map snd g2))" "x \<notin> set (y1 @ y2)" using assms(2) uv by auto
  have "\<exists>gs'. us @ vs = concat (map snd gs') \<and> groups_ok ?n (bs[?i := ?b]) hp gs'"
  proof (cases "y1 @ y2 = []")
    case True
    then show ?thesis using groups_drop [OF g', of "snd ?b"] uv ys by (intro exI [of _ "g1 @ g2"]) simp
  next
    case False
    have "?b = (length (y1 @ y2), hd (y1 @ y2))" using False ys assms(4) uv x' by (cases y1; cases y2) auto
    moreover have "\<forall>z \<in> set (y1 @ y2). unat (hash_at hp z) mod ?n = ?i" using g' ys by (auto simp: groups_ok_def)
    ultimately show ?thesis using groups_replace [OF g' False] uv by (intro exI [of _ "g1 @ (?i, y1 @ y2) # g2"]) simp
  qed
  then obtain gs' where n: "us @ vs = concat (map snd gs')" "groups_ok ?n (bs[?i := ?b]) hp gs'" by blast
  have "x \<notin> set (concat (map snd gs'))" using assms(2) n(1) [symmetric] by auto
  then have "groups_ok ?n (bs[?i := ?b]) hp' gs'" using n(2) same by (fastforce simp: groups_ok_def)
  then have "table_ok (set_bucket ?i ?b K) hp' (us @ vs)" using n(1) Some assms(6,7) by (auto simp: table_ok_def set_bucket_def)
  then show ?thesis using l by (simp add: set_bucket_def)
qed

lemma table_ok_upd [simp]:
  "table_ok (H\<lparr>h_count := v\<rparr>) hp xs = table_ok H hp xs"
  "table_ok (H\<lparr>h_first := a\<rparr>) hp xs = table_ok H hp xs"
  by (simp_all add: table_ok_def split: option.split)

lemma removeElement_ok:
  assumes "hash_ok H hp xs" and "x \<in> set xs"
  shows "\<exists>H' hp' ys. removeElement x H hp = Some (H', hp') \<and> hash_ok H' hp' ys \<and> set ys = set xs - {x}
    \<and> contents hp' ys = (contents hp xs)(name_at hp x := None) \<and> dom hp' = dom hp - {x}"
proof -
  obtain l where l: "lseg hp 0 (h_first H) xs 0 l" and t: "table_ok H hp xs" and d: "distinct xs"
      and c: "h_count H = length xs" and ok: "\<forall>x \<in> set xs. elem_ok hp x" and dn: "distinct (map (name_at hp) xs)"
      and fin: "finite (dom hp)"
    using assms(1) by (auto simp: hash_ok_def linked_def)
  obtain us vs where xs: "xs = us @ x # vs" using assms(2) by (metis split_list)
  obtain e hp1 l' where e: "hp x = Some e" and u: "unlink e hp = Some hp1"
      and l1: "lseg hp1 0 (if e_prev e \<noteq> 0 then h_first H else e_next e) (us @ vs) 0 l'"
      and nx: "e_next e = (if vs = [] then 0 else hd vs)" and r: "relinked (set (us @ vs)) hp hp1"
    using unlink_ok [of hp "h_first H" us x vs l] l d xs by blast
  define hp2 where "hp2 = hp1(x := None)"
  define K where "K = (if e_prev e \<noteq> 0 then H else H\<lparr>h_first := e_next e\<rparr>)"
  have x: "x \<notin> set (us @ vs)" "distinct (us @ vs)" using d xs by auto
  have p2: "payload hp2 = (payload hp)(x := None)" using r by (simp add: relinked_def hp2_def payload_def fun_eq_iff)
  obtain H1 where H1: "leave_bucket x e K = Some H1" "h_first H1 = h_first K" "h_count H1 = h_count K" "table_ok H1 hp2 (us @ vs)"
  proof -
    have "h_ht K = h_ht H" "htsize K = htsize H" by (simp_all add: K_def)
    then show ?thesis using that leave_bucket_ok [of H hp us x vs e hp2 K] t d e nx p2 xs by blast
  qed
  define H2 where "H2 = H1\<lparr>h_count := h_count H1 - 1\<rparr>"
  have at: "name_at hp2 y = name_at hp y" "data_at hp2 y = data_at hp y" "elem_ok hp2 y = elem_ok hp y" if "y \<in> set (us @ vs)" for y
  proof -
    have "payload hp2 y = payload hp y" using p2 that x(1) by (auto simp: fun_upd_apply)
    then show "name_at hp2 y = name_at hp y" "data_at hp2 y = data_at hp y" "elem_ok hp2 y = elem_ok hp y"
      by (simp_all add: name_at_def data_at_def elem_ok_def)
  qed
  have n2: "map (name_at hp2) (us @ vs) = map (name_at hp) (us @ vs)" using at(1) by (intro map_cong refl)
  have "lseg hp2 0 (h_first H2) (us @ vs) 0 l'" using l1 x H1(2) by (auto simp: hp2_def H2_def K_def)
  moreover have "h_count H2 = length (us @ vs)" using H1(3) c xs by (simp add: H2_def K_def)
  moreover have "table_ok H2 hp2 (us @ vs)" using H1(4) by (simp add: H2_def)
  moreover have dom2: "dom hp2 = dom hp - {x}" using p2 dom_payload [of hp2] dom_payload [of hp] by simp
  moreover have "\<forall>y \<in> set (us @ vs). elem_ok hp2 y" using ok xs at(3) by simp
  moreover have "distinct (map (name_at hp) (us @ vs))" using dn xs by auto
  ultimately have ok2: "hash_ok H2 hp2 (us @ vs)" using x(2) fin unfolding hash_ok_def linked_def n2 by auto
  have cnt: "contents hp2 (us @ vs) = (contents hp xs)(name_at hp x := None)"
    using contents_drop [of hp us x vs hp2] dn at xs by simp
  have rm: "removeElement x H hp = (if h_count H2 = 0 then sqlite3HashClear H2 hp2 else Some (H2, hp2))"
    using removeElement_parts [OF e u, of H H1] H1(1) by (simp add: K_def H2_def hp2_def Let_def)
  have s: "set (us @ vs) = set xs - {x}" using xs x(1) by auto
  show ?thesis
  proof (cases "h_count H2 = 0")
    case True
    then have "us @ vs = []" using ok2 by (simp add: hash_ok_def)
    then have "removeElement x H hp = Some (sqlite3HashInit, hp2)"
      using rm True HashClear_ok [OF ok2] by (simp add: restrict_map_def)
    moreover have "hash_ok sqlite3HashInit hp2 []" using fin dom2 HashInit_ok by simp
    ultimately show ?thesis using \<open>us @ vs = []\<close> s dom2 cnt
      by (intro exI [of _ sqlite3HashInit] exI [of _ hp2] exI [of _ "[]"]) simp
  next
    case False
    then show ?thesis using rm ok2 s dom2 cnt
      by (intro exI [of _ H2] exI [of _ hp2] exI [of _ "us @ vs"]) simp
  qed
qed

section \<open>Replacing and adding\<close>

lemma lseg_same_links:
  "(\<And>x. map_option (\<lambda>e. (e_next e, e_prev e)) (hp' x) = map_option (\<lambda>e. (e_next e, e_prev e)) (hp x)) \<Longrightarrow>
   lseg hp' p a xs q l = lseg hp p a xs q l"
proof (induction xs arbitrary: p a)
  case (Cons x xs)
  show ?case using Cons.IH Cons.prems [of x] Cons.prems by (cases "hp x"; cases "hp' x") auto
qed simp

lemma replace_ok:
  assumes "hash_ok H hp xs" and "a \<in> set xs" and "hp a = Some e" and "d \<noteq> 0" and "terminated k" and "name_at hp a = keyname k"
  shows "hash_ok H (hp(a \<mapsto> e\<lparr>e_data := d, e_key := k\<rparr>)) xs
    \<and> contents (hp(a \<mapsto> e\<lparr>e_data := d, e_key := k\<rparr>)) xs = (contents hp xs)(keyname k \<mapsto> d)"
proof -
  let ?hp = "hp(a \<mapsto> e\<lparr>e_data := d, e_key := k\<rparr>)"
  obtain l where l: "lseg hp 0 (h_first H) xs 0 l" and t: "table_ok H hp xs" and ok: "\<forall>x \<in> set xs. elem_ok hp x"
      and dn: "distinct (map (name_at hp) xs)"
    using assms(1) by (auto simp: hash_ok_def linked_def)
  have n: "name_at ?hp = name_at hp" using assms(3,6) by (auto simp: name_at_def payload_def fun_eq_iff)
  have h: "hash_at ?hp = hash_at hp" using assms(3) by (auto simp: hash_at_def payload_def fun_eq_iff)
  have v: "data_at ?hp = (data_at hp)(a := d)" by (auto simp: data_at_def payload_def fun_eq_iff)
  have "elem_ok ?hp x" if "x \<in> set xs" for x
  proof (cases "x = a")
    case True
    have "e_h e = name_hash (keyname k)" using elem_okD(1) [of hp a e] ok assms(2,3,6) by simp
    then show ?thesis using True assms(4,5) by (simp add: elem_ok_def payload_def)
  next
    case False
    then show ?thesis using ok that by (simp add: elem_ok_def payload_def)
  qed
  moreover have "lseg ?hp 0 (h_first H) xs 0 l" using l by (subst lseg_same_links [where hp = hp]) (auto simp: assms(3))
  moreover have "groups_ok n bs ?hp gs = groups_ok n bs hp gs" for n bs gs by (simp add: groups_ok_def h)
  then have "table_ok H ?hp xs" using t by (simp add: table_ok_def split: option.splits)
  ultimately have "hash_ok H ?hp xs" using assms(1,2) dn n by (auto simp: hash_ok_def linked_def)
  moreover have "contents ?hp xs = (contents hp xs)(keyname k \<mapsto> d)"
  proof (rule contents_eqI)
    show "distinct (map (name_at ?hp) xs)" using dn n by simp
    fix m w
    have one: "(\<exists>x \<in> set xs. name_at hp x = keyname k \<and> P x) \<longleftrightarrow> P a" for P
      using dn assms(2,6) by (auto simp: distinct_map inj_on_def)
    have other: "m \<noteq> keyname k \<Longrightarrow> name_at hp x = m \<and> ((data_at hp)(a := d)) x = w \<longleftrightarrow> name_at hp x = m \<and> data_at hp x = w" for x
      using assms(6) by auto
    show "((contents hp xs)(keyname k \<mapsto> d)) m = Some w \<longleftrightarrow> (\<exists>x \<in> set xs. name_at ?hp x = m \<and> data_at ?hp x = w)"
      unfolding n v using contents_iff [OF dn, of m w] one [of "\<lambda>x. ((data_at hp)(a := d)) x = w"] other
      by (cases "m = keyname k") simp_all
  qed
  ultimately show ?thesis by blast
qed

text \<open>The new element with its optional rehash.\<close>

definition add_new :: "(nat \<Rightarrow> nat option) \<Rightarrow> u32 \<Rightarrow> addr \<Rightarrow> Hash \<Rightarrow> heap \<Rightarrow> (Hash \<times> heap) option" where
  "add_new allocated h new_elem H hp = do {
     (H, hp) \<leftarrow> (if h_count H \<ge> 5 \<and> h_count H > 2 * htsize H then rehash allocated (h_count H * 3) H hp
                 else Some (H, hp));
     insertElement (if h_ht H = None then None else Some (unat h mod htsize H)) new_elem H hp }"

lemma add_new_ok:
  assumes "linked H hp xs" and "hp a = Some e" and "a \<noteq> 0" and "a \<notin> set xs" and "\<And>k m. allocated k = Some m \<Longrightarrow> 0 < m"
  shows "\<exists>H' hp' ys. add_new allocated (e_h e) a H hp = Some (H', hp') \<and> linked H' hp' ys \<and> mset ys = mset (a # xs)
    \<and> payload hp' = payload hp \<and> h_count H' = h_count H"
proof -
  let ?r = "if h_count H \<ge> 5 \<and> h_count H > 2 * htsize H then rehash allocated (h_count H * 3) H hp else Some (H, hp)"
  obtain H1 hp1 xs1 where r: "?r = Some (H1, hp1)" "linked H1 hp1 xs1" "mset xs1 = mset xs" "relinked (set xs) hp hp1" "h_count H1 = h_count H"
  proof (cases "h_count H \<ge> 5 \<and> h_count H > 2 * htsize H")
    case True
    then show ?thesis using that rehash_ok [OF assms(1), of allocated "h_count H * 3"] assms(5) by auto
  next
    case False
    then have "?r = Some (H, hp)" by (rule if_not_P)
    then show ?thesis using that [of H hp xs] assms(1) by (simp add: relinked_def)
  qed
  have "set xs1 = set xs" using r(3) by (rule mset_eq_setD)
  then have a: "hp1 a = Some e" "a \<notin> set xs1" using assms(2,4) r(4) by (auto simp: relinked_def)
  obtain H' hp' us vs where i: "insertElement (if h_ht H1 = None then None else Some (unat (e_h e) mod htsize H1)) a H1 hp1 = Some (H', hp')"
      "xs1 = us @ vs" "linked H' hp' (us @ a # vs)" "relinked (insert a (set xs1)) hp1 hp'" "h_count H' = h_count H1"
    using insertElement_ok [OF r(2) a(1) assms(3) a(2) refl] by blast
  have "add_new allocated (e_h e) a H hp = Some (H', hp')" unfolding add_new_def r(1) using i(1) by simp
  moreover have "payload hp' = payload hp" using i(4) r(4) by (simp add: relinked_def)
  moreover have "mset (us @ a # vs) = mset (a # xs)" using r(3) i(2) by simp
  ultimately show ?thesis using i(3,5) r(5) by (intro exI [of _ H'] exI [of _ hp'] exI [of _ "us @ a # vs"]) simp
qed

lemma add_ok:
  assumes "hash_ok H hp xs" and "a \<noteq> 0" and "hp a = None" and "d \<noteq> 0" and "terminated k"
    and "keyname k \<notin> name_at hp ` set xs" and "\<And>k m. allocated k = Some m \<Longrightarrow> 0 < m"
    and "new = \<lparr>e_next = 0, e_prev = 0, e_data = d, e_key = k, e_h = name_hash (keyname k)\<rparr>"
  shows "\<exists>H' hp' ys. add_new allocated (name_hash (keyname k)) a (H\<lparr>h_count := h_count H + 1\<rparr>) (hp(a \<mapsto> new)) = Some (H', hp')
    \<and> hash_ok H' hp' ys \<and> set ys = insert a (set xs) \<and> contents hp' ys = (contents hp xs)(keyname k \<mapsto> d)
    \<and> dom hp' = insert a (dom hp)"
proof -
  let ?hp = "hp(a \<mapsto> new)"
  let ?H = "H\<lparr>h_count := h_count H + 1\<rparr>"
  obtain l where l: "lseg hp 0 (h_first H) xs 0 l" and t: "table_ok H hp xs" and ok: "\<forall>x \<in> set xs. elem_ok hp x"
      and dn: "distinct (map (name_at hp) xs)" and dx: "distinct xs" and c: "h_count H = length xs" and fin: "finite (dom hp)"
    using assms(1) by (auto simp: hash_ok_def linked_def)
  have a: "a \<notin> set xs" using lseg_in_heap [OF l, of a] assms(3) by auto
  have n: "name_at ?hp a = keyname k" "data_at ?hp a = d" "elem_ok ?hp a"
    using assms(4,5,8) by (simp_all add: name_at_def data_at_def elem_ok_def payload_def)
  have at: "name_at ?hp y = name_at hp y" "data_at ?hp y = data_at hp y" "elem_ok ?hp y = elem_ok hp y" "hash_at ?hp y = hash_at hp y"
    if "y \<in> set xs" for y
  proof -
    have "payload ?hp y = payload hp y" using that a by (auto simp: payload_def)
    then show "name_at ?hp y = name_at hp y" "data_at ?hp y = data_at hp y" "elem_ok ?hp y = elem_ok hp y" "hash_at ?hp y = hash_at hp y"
      by (simp_all add: name_at_def data_at_def elem_ok_def hash_at_def)
  qed
  have "table_ok ?H ?hp xs"
  proof (cases "h_ht H")
    case (Some bs)
    then obtain gs where gs: "xs = concat (map snd gs)" "groups_ok (htsize H) bs hp gs" using t by (auto simp: table_ok_def)
    then have "groups_ok (htsize H) bs ?hp gs" using a at(4) by (fastforce simp: groups_ok_def)
    then show ?thesis using gs Some by (auto simp: table_ok_def)
  qed (use t in \<open>simp add: table_ok_def\<close>)
  then have "linked ?H ?hp xs" using l dx a by (auto simp: linked_def)
  then obtain H' hp' ys where i: "add_new allocated (name_hash (keyname k)) a ?H ?hp = Some (H', hp')" "linked H' hp' ys"
      "mset ys = mset (a # xs)" "payload hp' = payload ?hp" "h_count H' = h_count ?H"
    using add_new_ok [of ?H ?hp xs a new allocated] a assms(2,7,8) by auto
  have s: "set ys = insert a (set xs)" using mset_eq_setD [OF i(3)] by simp
  note same = at_payload(1-4) [OF i(4)]
  have "map (name_at ?hp) xs = map (name_at hp) xs" using at(1) by (intro map_cong refl)
  then have "distinct (map (name_at ?hp) (a # xs))" using dn assms(6) n(1) by (metis distinct.simps(2) list.simps(9) set_map)
  then have dn': "distinct (map (name_at ?hp) ys)" using i(3) by (metis mset_map mset_eq_imp_distinct_iff)
  have dom': "dom hp' = insert a (dom hp)" using payload_dom [OF i(4)] by simp
  have "length ys = h_count H'" using i(5) c mset_eq_length [OF i(3)] by simp
  moreover have "\<forall>y \<in> set ys. elem_ok hp' y" using s ok n(3) at(3) a unfolding same by auto
  ultimately have ok': "hash_ok H' hp' ys" using i(2) dn' fin dom' unfolding hash_ok_def same by simp
  have "contents hp' ys = (contents hp xs)(keyname k \<mapsto> d)"
  proof (rule contents_eqI)
    show "distinct (map (name_at hp') ys)" using dn' same by simp
    fix m w
    have "(\<exists>y \<in> set ys. name_at hp' y = m \<and> data_at hp' y = w) \<longleftrightarrow>
        m = keyname k \<and> d = w \<or> (\<exists>y \<in> set xs. name_at hp y = m \<and> data_at hp y = w)"
      unfolding same s using n(1,2) at(1,2) a by (auto intro: bexI)
    then show "((contents hp xs)(keyname k \<mapsto> d)) m = Some w \<longleftrightarrow> (\<exists>y \<in> set ys. name_at hp' y = m \<and> data_at hp' y = w)"
      using contents_iff [OF dn, of m w] assms(6) by (cases "m = keyname k") (auto simp: image_iff)
  qed
  then show ?thesis using i(1) ok' s dom' by blast
qed

section \<open>sqlite3HashInsert\<close>

text \<open>What the documentation of sqlite3HashInsert says: the value returned and the new map.\<close>

definition spec_insert :: "bool \<Rightarrow> bytes \<Rightarrow> nat \<Rightarrow> (bytes \<rightharpoonup> nat) \<Rightarrow> nat \<times> (bytes \<rightharpoonup> nat)" where
  "spec_insert room n d m =
     (case m n of
        Some old \<Rightarrow> (old, m(n := if d = 0 then None else Some d))
      | None \<Rightarrow> if d = 0 then (0, m) else if room then (0, m(n \<mapsto> d)) else (d, m))"

lemma HashInsert_add:
  assumes "findElementWithHash H k hp = Some (0, h)" and "d \<noteq> 0" and "malloc hp = Some a"
  shows "sqlite3HashInsert malloc allocated k d H hp =
    map_option (Pair 0) (add_new allocated h a (H\<lparr>h_count := h_count H + 1\<rparr>)
      (hp(a \<mapsto> \<lparr>e_next = 0, e_prev = 0, e_data = d, e_key = k, e_h = h\<rparr>)))"
  using assms
  by (auto simp: sqlite3HashInsert_def add_new_def elem_data_def Let_def map_option_case bind_eq_Some_conv split: option.splits bind_splits)

lemma HashInsert_ok:
  assumes "hash_ok H hp xs" and "terminated k" and "\<And>k m. allocated k = Some m \<Longrightarrow> 0 < m"
    and "\<And>a. malloc hp = Some a \<Longrightarrow> a \<noteq> 0 \<and> hp a = None" and "spec_insert (malloc hp \<noteq> None) (keyname k) d (contents hp xs) = (r, m)"
  shows "\<exists>H' hp' ys. sqlite3HashInsert malloc allocated k d H hp = Some (r, H', hp') \<and> hash_ok H' hp' ys
    \<and> contents hp' ys = m \<and> (dom hp = set xs \<longrightarrow> dom hp' = set ys)"
proof -
  obtain a where f: "findElementWithHash H k hp = Some (a, name_hash (keyname k))" and fa: "found hp xs (keyname k) a"
    using findElementWithHash_ok [OF assms(1,2)] by blast
  note c = contents_found [OF assms(1) fa]
  show ?thesis
  proof (cases "contents hp xs (keyname k)")
    case (Some old)
    then have a: "a \<noteq> 0" "a \<in> set xs" "name_at hp a = keyname k" using c by (auto split: if_splits)
    obtain e where e: "hp a = Some e" using lseg_in_heap assms(1) a(2) by (fastforce simp: hash_ok_def linked_def)
    have "elem_ok hp a" using assms(1) a(2) by (simp add: hash_ok_def)
    then have old: "old \<noteq> 0" "elem_data a hp = Some old" using elem_okD(5,6) [of hp a e] e c Some a(1) by auto
    show ?thesis
    proof (cases "d = 0")
      case True
      then show ?thesis using removeElement_ok [OF assms(1) a(2)] f old Some assms(5) a(3)
        by (fastforce simp: sqlite3HashInsert_def spec_insert_def)
    next
      case False
      let ?hp = "hp(a \<mapsto> e\<lparr>e_data := d, e_key := k\<rparr>)"
      have "sqlite3HashInsert malloc allocated k d H hp = Some (old, H, ?hp)"
        using f old False e by (simp add: sqlite3HashInsert_def)
      moreover have "dom ?hp = dom hp" using e by auto
      ultimately show ?thesis using replace_ok [OF assms(1) a(2) e False assms(2) a(3)] assms(5) Some False
        by (intro exI [of _ H] exI [of _ ?hp] exI [of _ xs]) (auto simp: spec_insert_def)
    qed
  next
    case None
    then have a: "a = 0" using c(1) by (auto split: if_splits)
    then have e: "elem_data a hp = Some 0" and new: "keyname k \<notin> name_at hp ` set xs"
      using fa assms(1) lseg_in_heap [of hp 0 "h_first H" xs 0] by (auto simp: elem_data_def found_def hash_ok_def linked_def split: if_splits)
    show ?thesis
    proof (cases "d = 0 \<or> malloc hp = None")
      case True
      then have "sqlite3HashInsert malloc allocated k d H hp = Some (d, H, hp)"
        using f e by (auto simp: sqlite3HashInsert_def)
      moreover have "(r, m) = (d, contents hp xs)" using assms(5) True None by (auto simp: spec_insert_def split: if_splits)
      ultimately show ?thesis using assms(1) by (intro exI [of _ H] exI [of _ hp] exI [of _ xs]) simp
    next
      case False
      then obtain b where b: "malloc hp = Some b" and d: "d \<noteq> 0" by auto
      then have "b \<noteq> 0" "hp b = None" using assms(4) by auto
      from add_ok [OF assms(1) this d assms(2) new assms(3) refl] obtain H' hp' ys
        where i: "add_new allocated (name_hash (keyname k)) b (H\<lparr>h_count := h_count H + 1\<rparr>)
            (hp(b \<mapsto> \<lparr>e_next = 0, e_prev = 0, e_data = d, e_key = k, e_h = name_hash (keyname k)\<rparr>)) = Some (H', hp')"
          "hash_ok H' hp' ys" "set ys = insert b (set xs)" "contents hp' ys = (contents hp xs)(keyname k \<mapsto> d)"
          "dom hp' = insert b (dom hp)" by metis
      have "sqlite3HashInsert malloc allocated k d H hp = Some (0, H', hp')"
        using HashInsert_add [of H k hp _ d malloc b allocated] f a d b i(1) by simp
      moreover have "r = 0" "m = (contents hp xs)(keyname k \<mapsto> d)" using assms(5) None d b by (simp_all add: spec_insert_def)
      ultimately show ?thesis using i by auto
    qed
  qed
qed

section \<open>Refinement\<close>

text \<open>
  Calls of the interface; an insertion says whether there is memory for an element and, should the table have to
  grow, for a table, so that an allocation that fails in one call may succeed in a later one. The state has
  the values the calls returned, latest first.
\<close>

datatype hash_call = HashFindCall bytes | HashInsertCall bool bool bytes nat | HashClearCall

definition hash_call_step ::
  "(heap \<Rightarrow> addr) \<Rightarrow> (nat \<Rightarrow> nat option) \<Rightarrow> Hash \<times> heap \<times> nat list \<Rightarrow> hash_call \<Rightarrow> (Hash \<times> heap \<times> nat list) option" where
  "hash_call_step fresh allocated s c =
     (case (s, c) of
        ((H, hp, out), HashFindCall k) \<Rightarrow> do { r \<leftarrow> sqlite3HashFind H k hp; Some (H, hp, r # out) }
      | ((H, hp, out), HashInsertCall room tableRoom k d) \<Rightarrow> do {
          (r, H, hp) \<leftarrow> sqlite3HashInsert (\<lambda>hp. if room then Some (fresh hp) else None)
                           (\<lambda>n. if tableRoom then allocated n else None) k d H hp;
          Some (H, hp, r # out) }
      | ((H, hp, out), HashClearCall) \<Rightarrow> do { (H, hp) \<leftarrow> sqlite3HashClear H hp; Some (H, hp, out) })"

definition map_call_step :: "(bytes \<rightharpoonup> nat) \<times> nat list \<Rightarrow> hash_call \<Rightarrow> (bytes \<rightharpoonup> nat) \<times> nat list" where
  "map_call_step a c =
     (case (a, c) of
        ((m, out), HashFindCall k) \<Rightarrow> (m, (case m (keyname k) of None \<Rightarrow> 0 | Some d \<Rightarrow> d) # out)
      | ((m, out), HashInsertCall room _ k d) \<Rightarrow> (let (r, m') = spec_insert room (keyname k) d m in (m', r # out))
      | ((m, out), HashClearCall) \<Rightarrow> (Map.empty, out))"

fun call_permitted :: "hash_call \<Rightarrow> bool" where
  "call_permitted (HashFindCall k) = terminated k"
| "call_permitted (HashInsertCall room tableRoom k d) = terminated k"
| "call_permitted HashClearCall = True"

text \<open>No cell is on the heap but the elements: nothing leaks.\<close>

definition hash_rel :: "Hash \<times> heap \<times> nat list \<Rightarrow> (bytes \<rightharpoonup> nat) \<times> nat list \<Rightarrow> bool" where
  "hash_rel s a \<longleftrightarrow> (case (s, a) of ((H, hp, out), (m, out')) \<Rightarrow>
     out = out' \<and> (\<exists>xs. hash_ok H hp xs \<and> contents hp xs = m \<and> dom hp = set xs))"

text \<open>What the code relies on of malloc: a new block is not null and not one in use, a table has a bucket at least.\<close>

definition memory_behaves :: "(heap \<Rightarrow> addr) \<Rightarrow> (nat \<Rightarrow> nat option) \<Rightarrow> bool" where
  "memory_behaves fresh allocated \<longleftrightarrow>
     (\<forall>hp. finite (dom hp) \<longrightarrow> fresh hp \<noteq> 0 \<and> hp (fresh hp) = None) \<and> (\<forall>k m. allocated k = Some m \<longrightarrow> 0 < m)"

lemma hash_call_simulates:
  assumes "memory_behaves fresh allocated" and "hash_rel s a" and "call_permitted c"
  shows "\<exists>s'. hash_call_step fresh allocated s c = Some s' \<and> hash_rel s' (map_call_step a c)"
proof -
  obtain H hp out m where s: "s = (H, hp, out)" "a = (m, out)" using assms(2) by (cases s; cases a) (auto simp: hash_rel_def)
  then obtain xs where ok: "hash_ok H hp xs" "contents hp xs = m" "dom hp = set xs" using assms(2) by (auto simp: hash_rel_def)
  have mem: "0 < j" if "allocated i = Some j" for i j using assms(1) that by (auto simp: memory_behaves_def)
  have fr: "fresh hp \<noteq> 0 \<and> hp (fresh hp) = None" using assms(1) ok(3) by (auto simp: memory_behaves_def)
  show ?thesis
  proof (cases c)
    case (HashFindCall k)
    then show ?thesis using HashFind_ok [OF ok(1), of k] assms(3) ok s by (auto simp: hash_call_step_def map_call_step_def hash_rel_def)
  next
    case (HashInsertCall room tableRoom k d)
    obtain r m' where r: "spec_insert room (keyname k) d m = (r, m')" by fastforce
    let ?malloc = "\<lambda>hp. if room then Some (fresh hp) else None" and ?table = "\<lambda>n. if tableRoom then allocated n else None"
    have "\<exists>H' hp' ys. sqlite3HashInsert ?malloc ?table k d H hp = Some (r, H', hp') \<and> hash_ok H' hp' ys
        \<and> contents hp' ys = m' \<and> (dom hp = set xs \<longrightarrow> dom hp' = set ys)"
    proof (rule HashInsert_ok [OF ok(1)])
      show "terminated k" using assms(3) HashInsertCall by simp
      show "a \<noteq> 0 \<and> hp a = None" if "?malloc hp = Some a" for a using that fr by (simp split: if_splits)
      show "spec_insert (?malloc hp \<noteq> None) (keyname k) d (contents hp xs) = (r, m')" using r ok(2) by (cases room) simp_all
      show "0 < j" if "?table i = Some j" for i j using that mem by (simp split: if_splits)
    qed
    then show ?thesis using HashInsertCall s r ok(3) by (auto simp: hash_call_step_def map_call_step_def hash_rel_def)
  next
    case HashClearCall
    have "hash_ok sqlite3HashInit (hp |` (- set xs)) []" using HashInit_ok ok(3) by simp
    moreover have "hp |` (- set xs) = Map.empty" using ok(3) by (auto simp: restrict_map_def fun_eq_iff)
    ultimately show ?thesis using HashClearCall HashClear_ok [OF ok(1)] s
      by (auto simp: hash_call_step_def map_call_step_def hash_rel_def contents_def)
  qed
qed

text \<open>Memory of a bump allocator, for the interpretation: the block above all that are in use.\<close>

definition bump :: "heap \<Rightarrow> addr" where
  "bump hp = Suc (Max (insert 0 (dom hp)))"

lemma bump_behaves: "memory_behaves bump (\<lambda>n. if n = 0 then None else Some n)"
proof -
  have "hp (bump hp) = None" if "finite (dom hp)" for hp
  proof (rule ccontr)
    assume "hp (bump hp) \<noteq> None"
    then have "bump hp \<in> insert 0 (dom hp)" by auto
    then have "bump hp \<le> Max (insert 0 (dom hp))" using that by (intro Max_ge) auto
    then show False by (simp add: bump_def)
  qed
  then show ?thesis by (simp add: memory_behaves_def bump_def split: if_splits)
qed

text \<open>Where memory behaves the table simulates a map; the bump allocator is such a memory.\<close>

locale hash_memory =
  fixes fresh :: "heap \<Rightarrow> addr" and allocated :: "nat \<Rightarrow> nat option"
  assumes behaves: "memory_behaves fresh allocated"

sublocale hash_memory \<subseteq> calls: simulation "hash_call_step fresh allocated" map_call_step hash_rel call_permitted
  by unfold_locales (rule hash_call_simulates [OF behaves])

lemma empty_table_rel: "hash_rel (sqlite3HashInit, Map.empty, []) (Map.empty, [])"
  by (auto simp: hash_rel_def contents_def intro!: exI [of _ "[]"] HashInit_ok)

context hash_memory
begin

lemma calls_refine:
  "\<forall>c \<in> set cs. call_permitted c \<Longrightarrow>
     \<exists>s. loopM (\<lambda>c s. hash_call_step fresh allocated s c) cs (sqlite3HashInit, Map.empty, []) = Some s
       \<and> hash_rel s (fold (\<lambda>c a. map_call_step a c) cs (Map.empty, []))"
  by (rule calls.run_sim [OF empty_table_rel])

end

interpretation bump_memory: hash_memory bump "\<lambda>n. if n = 0 then None else Some n"
  by unfold_locales (rule bump_behaves)

text \<open>
  C16. From the empty table, any sequence of calls of sqlite3HashFind, sqlite3HashInsert and
  sqlite3HashClear with zero-terminated keys returns, without a use of a null or dangling pointer
  and without a loop that runs on, whichever allocations of elements and tables fail; the values returned are those of a map from names
  to data that does not tell upper from lower case ASCII letters, an insertion that fails for lack
  of memory gives the data back and leaves the map as it is, and
  at the end the table holds that map and the heap nothing but its elements.
\<close>

theorem hash_table_is_a_map:
  assumes "memory_behaves fresh allocated" and "\<forall>c \<in> set cs. call_permitted c"
  shows "\<exists>s. loopM (\<lambda>c s. hash_call_step fresh allocated s c) cs (sqlite3HashInit, Map.empty, []) = Some s
    \<and> hash_rel s (fold (\<lambda>c a. map_call_step a c) cs (Map.empty, []))"
proof -
  have "hash_memory fresh allocated" using assms(1) by (rule hash_memory.intro)
  then show ?thesis using assms(2) by (rule hash_memory.calls_refine)
qed

definition sample_calls :: "hash_call list" where
  "sample_calls = [HashInsertCall True True [84, 97, 98, 0] 7, HashInsertCall False True [98, 0] 8, HashFindCall [116, 65, 66, 0],
     HashInsertCall True False [84, 65, 66, 0] 0, HashFindCall [84, 97, 98, 0]]"

lemma hash_table_is_a_map_witness:
  "\<exists>H hp. loopM (\<lambda>c s. hash_call_step bump (\<lambda>n. if n = 0 then None else Some n) s c) sample_calls (sqlite3HashInit, Map.empty, [])
     = Some (H, hp, [0, 7, 7, 8, 0]) \<and> dom hp = {}"
proof -
  have p: "\<forall>c \<in> set sample_calls. call_permitted c" by (simp add: sample_calls_def terminated_def)
  have f: "fold (\<lambda>c a. map_call_step a c) sample_calls (Map.empty, []) = (Map.empty, [0, 7, 7, 8, 0])"
    by (simp add: sample_calls_def map_call_step_def spec_insert_def keyname_def sqlite3UpperToLower_def fun_upd_idem)
  have "contents hp xs = Map.empty \<Longrightarrow> xs = []" for hp xs by (cases xs) (auto simp: contents_def)
  then show ?thesis using hash_table_is_a_map [OF bump_behaves p] unfolding f by (fastforce simp: hash_rel_def)
qed

end
