(* ===== verification/Sqlite_Rowset.thy ===== *)
theory Sqlite_Rowset
  imports Sqlite_Bitvec "HOL-Library.Tree"
begin

text \<open>
  rowset.c of src/infra/db/sqlite3.c: a collection of row ids that is filled in any order and then either
  tested for membership, batch by batch, or read out in ascending order. The entries of a RowSet are on exactly one list or in exactly one
  tree, and no operation keeps a pointer to an entry that another one moves; so a list linked by pRight is the list of its
  values and a tree its tree of values, with Leaf for the null pointer. Row ids are only compared. A violated assertion or an access outside the array of buckets is the value None. The
  memory allocations are a list of answers as for the Bitvec.
\<close>

section \<open>Structure\<close>

definition ROWSET_ENTRY_PER_CHUNK :: nat where "ROWSET_ENTRY_PER_CHUNK = (1024 - 8) div 24"

record RowSet =
  rs_chunks :: nat
  rs_entry :: "int list"
  rs_last :: "int option"
  rs_forest :: "int tree list"
  rs_nFresh :: nat
  rs_sorted :: bool
  rs_next :: bool
  rs_iBatch :: int

text \<open>The size of the allocated object is the allocator's answer; 56 bytes are the structure itself.\<close>

definition sqlite3RowSetInit :: "mem \<Rightarrow> nat \<Rightarrow> RowSet option \<times> mem" where
  "sqlite3RowSetInit m nAlloc =
     (case alloc m of (ok, m') \<Rightarrow>
        (if ok then Some \<lparr>rs_chunks = 0, rs_entry = [], rs_last = None, rs_forest = [], rs_nFresh = (nAlloc - 56) div 24 mod 65536,
                          rs_sorted = True, rs_next = False, rs_iBatch = 0\<rparr>
         else None, m'))"

definition sqlite3RowSetClear :: "RowSet \<Rightarrow> RowSet" where
  "sqlite3RowSetClear p =
     p\<lparr>rs_chunks := 0, rs_nFresh := 0, rs_entry := [], rs_last := None, rs_forest := [], rs_sorted := True, rs_next := False\<rparr>"

definition rowSetEntryAlloc :: "mem \<Rightarrow> RowSet \<Rightarrow> bool \<times> mem \<times> RowSet" where
  "rowSetEntryAlloc m p =
     (if rs_nFresh p = 0 then
        (case alloc m of (ok, m') \<Rightarrow>
           if \<not> ok then (False, m', p)
           else (True, m', p\<lparr>rs_chunks := rs_chunks p + 1, rs_nFresh := ROWSET_ENTRY_PER_CHUNK - 1\<rparr>))
      else (True, m, p\<lparr>rs_nFresh := rs_nFresh p - 1\<rparr>))"

definition sqlite3RowSetInsert :: "mem \<Rightarrow> RowSet \<Rightarrow> int \<Rightarrow> (bool \<times> mem \<times> RowSet) option" where
  "sqlite3RowSetInsert m p rowid =
     (if rs_next p then None
      else Some (case rowSetEntryAlloc m p of (ok, m, p) \<Rightarrow>
        if \<not> ok then (False, m, p)
        else (let p = (case rs_last p of
                         Some l \<Rightarrow> p\<lparr>rs_sorted := (if rowid \<le> l then False else rs_sorted p), rs_entry := rs_entry p @ [rowid]\<rparr>
                       | None \<Rightarrow> p\<lparr>rs_entry := [rowid]\<rparr>)
              in (True, m, p\<lparr>rs_last := Some rowid\<rparr>))))"

section \<open>Sorting\<close>

text \<open>The merge of two sorted lists, neither empty, without duplicates.\<close>

fun rowSetEntryMerge :: "int list \<Rightarrow> int list \<Rightarrow> int list" where
  "rowSetEntryMerge (a # pA) (b # pB) =
     (if a \<le> b then
        (let rest = (if pA = [] then b # pB else rowSetEntryMerge pA (b # pB)) in if a < b then a # rest else rest)
      else b # (if pB = [] then a # pA else rowSetEntryMerge (a # pA) pB))"
| "rowSetEntryMerge [] pB = pB"
| "rowSetEntryMerge pA [] = pA"

text \<open>The inner loop over the buckets; the empty list is the null pointer.\<close>

function sortBuckets :: "int list list \<Rightarrow> nat \<Rightarrow> int list \<Rightarrow> int list list option" where
  "sortBuckets aBucket i pIn =
     (if i \<ge> length aBucket then None
      else if aBucket ! i \<noteq> [] then sortBuckets (aBucket[i := []]) (i + 1) (rowSetEntryMerge (aBucket ! i) pIn)
      else Some (aBucket[i := pIn]))"
  by pat_completeness auto
termination by (relation "measure (\<lambda>(aBucket, i, pIn). length aBucket - i)") auto

declare sortBuckets.simps [simp del]

definition rowSetEntrySort :: "int list \<Rightarrow> int list option" where
  "rowSetEntrySort pIn = do {
     aBucket \<leftarrow> loopM (\<lambda>v aBucket. sortBuckets aBucket 0 [v]) pIn (replicate 40 []);
     Some (fold (\<lambda>b pIn. if b = [] then pIn else if pIn \<noteq> [] then rowSetEntryMerge pIn b else b) (tl aBucket) (hd aBucket)) }"

section \<open>Trees\<close>

fun rowSetTreeToList :: "int tree \<Rightarrow> int list" where
  "rowSetTreeToList Leaf = []"
| "rowSetTreeToList (Node l v r) =
     (if l \<noteq> Leaf then rowSetTreeToList l else []) @ v # (if r \<noteq> Leaf then rowSetTreeToList r else [])"

text \<open>The tree of the given depth from the head of the list, and the rest of the list.\<close>

fun rowSetNDeepTree :: "nat \<Rightarrow> int list \<Rightarrow> int tree \<times> int list" where
  "rowSetNDeepTree iDepth [] = (Leaf, [])"
| "rowSetNDeepTree iDepth (x # xs) =
     (if iDepth > 1 then
        (case rowSetNDeepTree (iDepth - 1) (x # xs) of (pLeft, ppList) \<Rightarrow>
           (case ppList of
              [] \<Rightarrow> (pLeft, [])
            | p # ppList' \<Rightarrow> (case rowSetNDeepTree (iDepth - 1) ppList' of (pRight, rest) \<Rightarrow> (Node pLeft p pRight, rest))))
      else (Node Leaf x Leaf, xs))"

lemma rowSetNDeepTree_inorder: "rowSetNDeepTree d xs = (t, rest) \<Longrightarrow> inorder t @ rest = xs"
proof (induction d xs arbitrary: t rest rule: rowSetNDeepTree.induct)
  case (2 d x xs)
  show ?case
  proof (cases "d > 1")
    case True
    obtain l ys where l: "rowSetNDeepTree (d - 1) (x # xs) = (l, ys)" by fastforce
    have e: "inorder l @ ys = x # xs" using "2.IH"(1) [OF True l] .
    show ?thesis
    proof (cases ys)
      case Nil
      then show ?thesis using "2.prems" True l e by simp
    next
      case (Cons y ys')
      obtain r zs where r: "rowSetNDeepTree (d - 1) ys' = (r, zs)" by fastforce
      have "inorder r @ zs = ys'" using "2.IH"(2) [OF True l [symmetric] Cons r] .
      then show ?thesis using "2.prems" True l e Cons r by auto
    qed
  qed (use "2.prems" in auto)
qed simp

lemma rowSetNDeepTree_shorter: "rowSetNDeepTree d xs = (t, rest) \<Longrightarrow> length rest \<le> length xs"
  using rowSetNDeepTree_inorder [of d xs t rest] by (metis length_append trans_le_add2 order_refl)

function listToTree_loop :: "int tree \<Rightarrow> nat \<Rightarrow> int list \<Rightarrow> int tree" where
  "listToTree_loop p iDepth [] = p"
| "listToTree_loop p iDepth (v # pList) =
     listToTree_loop (Node p v (fst (rowSetNDeepTree iDepth pList))) (iDepth + 1) (snd (rowSetNDeepTree iDepth pList))"
  by pat_completeness auto
termination
  by (relation "measure (\<lambda>(p, iDepth, pList). length pList)")
     (auto simp: less_Suc_eq_le intro: rowSetNDeepTree_shorter [OF surjective_pairing])

fun rowSetListToTree :: "int list \<Rightarrow> int tree" where
  "rowSetListToTree [] = Leaf"
| "rowSetListToTree (v # pList) = listToTree_loop (Node Leaf v Leaf) 1 pList"

section \<open>Reading and testing\<close>

text \<open>The answer is the row id, or None when the RowSet is empty.\<close>

definition sqlite3RowSetNext :: "RowSet \<Rightarrow> (int option \<times> RowSet) option" where
  "sqlite3RowSetNext p =
     (if rs_forest p \<noteq> [] then None
      else do {
        p \<leftarrow> (if \<not> rs_next p then do {
               entry \<leftarrow> (if \<not> rs_sorted p then rowSetEntrySort (rs_entry p) else Some (rs_entry p));
               Some (p\<lparr>rs_entry := entry, rs_sorted := True, rs_next := True\<rparr>) }
             else Some p);
        case rs_entry p of
          v # rest \<Rightarrow>
            (let p = p\<lparr>rs_entry := rest\<rparr> in Some (Some v, if rs_entry p = [] then sqlite3RowSetClear p else p))
        | [] \<Rightarrow> Some (None, p) })"

text \<open>
  The loop over the forest: the trees before the first empty place are merged into the list, which becomes the tree of that
  place; or no place is empty and the list is left over.
\<close>

fun forestInsert :: "int tree list \<Rightarrow> int list \<Rightarrow> int tree list \<times> int list option" where
  "forestInsert [] p = ([], Some p)"
| "forestInsert (t # ts) p =
     (if t = Leaf then (rowSetListToTree p # ts, None)
      else (case forestInsert ts (rowSetEntryMerge (rowSetTreeToList t) p) of (ts', over) \<Rightarrow> (Leaf # ts', over)))"

fun treeTest :: "int tree \<Rightarrow> int \<Rightarrow> bool" where
  "treeTest Leaf iRowid = False"
| "treeTest (Node l v r) iRowid = (if v < iRowid then treeTest r iRowid else if v > iRowid then treeTest l iRowid else True)"

text \<open>The first test of a new batch: the entries go into the forest.\<close>

definition newBatch :: "mem \<Rightarrow> RowSet \<Rightarrow> (bool \<times> mem \<times> RowSet) option" where
  "newBatch m p =
     (if rs_entry p = [] then Some (True, m, p)
      else do {
        entry \<leftarrow> (if \<not> rs_sorted p then rowSetEntrySort (rs_entry p) else Some (rs_entry p));
        let (forest, over) = forestInsert (rs_forest p) entry;
        let (ok, m, p) =
          (case over of
             None \<Rightarrow> (True, m, p\<lparr>rs_forest := forest\<rparr>)
           | Some l \<Rightarrow>
               (case rowSetEntryAlloc m p of (ok, m, p) \<Rightarrow>
                  (ok, m, p\<lparr>rs_forest := (if ok then forest @ [rowSetListToTree l] else forest)\<rparr>)));
        Some (ok, m, p\<lparr>rs_entry := [], rs_last := None, rs_sorted := True\<rparr>) })"

definition sqlite3RowSetTest :: "mem \<Rightarrow> RowSet \<Rightarrow> int \<Rightarrow> int \<Rightarrow> (bool \<times> bool \<times> mem \<times> RowSet) option" where
  "sqlite3RowSetTest m p iBatch iRowid =
     (if rs_next p then None
      else do {
        (ok, m, p) \<leftarrow> (if iBatch \<noteq> rs_iBatch p then do {
                          (ok, m, p) \<leftarrow> newBatch m p;
                          Some (ok, m, p\<lparr>rs_iBatch := iBatch\<rparr>) }
                        else Some (True, m, p));
        Some (list_ex (\<lambda>t. treeTest t iRowid) (rs_forest p), ok, m, p) })"

section \<open>Merging and sorting\<close>

abbreviation ascending :: "int list \<Rightarrow> bool" where "ascending \<equiv> sorted_wrt (<)"

lemma set_rowSetEntryMerge [simp]: "set (rowSetEntryMerge xs ys) = set xs \<union> set ys"
  by (induction xs ys rule: rowSetEntryMerge.induct) (auto simp: Let_def)

lemma ascending_rowSetEntryMerge: "ascending xs \<Longrightarrow> ascending ys \<Longrightarrow> ascending (rowSetEntryMerge xs ys)"
  by (induction xs ys rule: rowSetEntryMerge.induct) (fastforce simp: Let_def split: if_splits)+

lemma rowSetEntryMerge_Nil: "rowSetEntryMerge xs ys = [] \<longleftrightarrow> xs = [] \<and> ys = []"
  using set_rowSetEntryMerge [of xs ys] by (metis Un_empty set_empty)

text \<open>The buckets as a binary counter of the entries put in, without the index.\<close>

fun put :: "int list list \<Rightarrow> int list \<Rightarrow> int list list option" where
  "put [] p = None"
| "put (b # bs) p = (if b = [] then Some (p # bs) else map_option (Cons []) (put bs (rowSetEntryMerge b p)))"

fun counter :: "int list list \<Rightarrow> nat" where
  "counter [] = 0"
| "counter (b # bs) = (if b = [] then 0 else 1) + 2 * counter bs"

lemma sortBuckets_put: "i \<le> length bs \<Longrightarrow> sortBuckets bs i p = map_option (\<lambda>r. take i bs @ r) (put (drop i bs) p)"
proof (induction "length bs - i" arbitrary: bs i p)
  case 0
  then show ?case by (simp add: sortBuckets.simps)
next
  case (Suc n)
  then have i: "i < length bs" by simp
  then have d: "drop i bs = bs ! i # drop (i + 1) bs" by (simp add: Cons_nth_drop_Suc)
  show ?case
  proof (cases "bs ! i = []")
    case True
    then show ?thesis using i d by (simp add: sortBuckets.simps [of bs] upd_conv_take_nth_drop)
  next
    case False
    have "sortBuckets bs i p = sortBuckets (bs[i := []]) (i + 1) (rowSetEntryMerge (bs ! i) p)"
      using False i by (simp add: sortBuckets.simps [of bs])
    also have "\<dots> = map_option (\<lambda>r. take (i + 1) (bs[i := []]) @ r) (put (drop (i + 1) bs) (rowSetEntryMerge (bs ! i) p))"
      using Suc.hyps(1) [of "bs[i := []]" "i + 1"] Suc.hyps(2) i by simp
    finally show ?thesis using False i d by (simp add: take_Suc_conv_app_nth option.map_comp comp_def)
  qed
qed

lemma put_ok: "counter bs + 1 < 2 ^ length bs \<Longrightarrow> \<exists>bs'. put bs p = Some bs'"
proof (induction bs arbitrary: p)
  case (Cons b bs)
  then show ?case by (cases "b = []") (auto simp: map_option_case dest: Cons.IH split: option.splits)
qed simp

lemma put_keeps:
  "put bs p = Some bs' \<Longrightarrow> p \<noteq> [] \<Longrightarrow> ascending p \<Longrightarrow> list_all ascending bs \<Longrightarrow>
     length bs' = length bs \<and> counter bs' = counter bs + 1 \<and> list_all ascending bs'
     \<and> \<Union> (set (map set bs')) = set p \<union> \<Union> (set (map set bs))"
proof (induction bs arbitrary: p bs')
  case (Cons b bs)
  show ?case
  proof (cases "b = []")
    case False
    then obtain r where r: "put bs (rowSetEntryMerge b p) = Some r" "bs' = [] # r" using Cons.prems(1) by auto
    show ?thesis using Cons.IH [OF r(1)] Cons.prems r(2) False
      by (auto simp: rowSetEntryMerge_Nil ascending_rowSetEntryMerge)
  qed (use Cons.prems in auto)
qed simp

lemma buckets_filled:
  assumes "list_all ascending bs" and "length bs = 40" and "counter bs + length xs < 2 ^ 40"
  shows "\<exists>bs'. loopM (\<lambda>v b. sortBuckets b 0 [v]) xs bs = Some bs' \<and> list_all ascending bs' \<and> length bs' = 40
     \<and> \<Union> (set (map set bs')) = set xs \<union> \<Union> (set (map set bs))"
  using assms
proof (induction xs arbitrary: bs)
  case (Cons x xs)
  have s: "sortBuckets bs 0 [x] = put bs [x]" using sortBuckets_put [of 0 bs "[x]"] by (simp add: option.map_ident)
  obtain b where b: "put bs [x] = Some b" using put_ok [of bs "[x]"] Cons.prems by auto
  have k: "length b = 40" "counter b = counter bs + 1" "list_all ascending b"
    "\<Union> (set (map set b)) = {x} \<union> \<Union> (set (map set bs))"
    using put_keeps [OF b] Cons.prems by simp_all
  show ?case using Cons.IH [OF k(3,1)] Cons.prems(3) k s b by auto
qed simp

lemma merge_buckets:
  "list_all ascending bs \<Longrightarrow> ascending a \<Longrightarrow>
     (let r = fold (\<lambda>b pIn. if b = [] then pIn else if pIn \<noteq> [] then rowSetEntryMerge pIn b else b) bs a
      in ascending r \<and> set r = set a \<union> \<Union> (set (map set bs)))"
proof (induction bs arbitrary: a)
  case (Cons b bs)
  let ?a = "if b = [] then a else if a \<noteq> [] then rowSetEntryMerge a b else b"
  have "ascending ?a" "set ?a = set a \<union> set b" using Cons.prems by (auto simp: ascending_rowSetEntryMerge)
  then show ?case using Cons.IH [of ?a] Cons.prems by (auto simp: Let_def)
qed simp

lemma rowSetEntrySort_sorts:
  assumes "length xs < 2 ^ 40"
  shows "\<exists>ys. rowSetEntrySort xs = Some ys \<and> ascending ys \<and> set ys = set xs"
proof -
  have c: "counter (replicate n []) = 0" for n by (induction n) simp_all
  have "list_all ascending (replicate 40 [])" by (simp add: list_all_iff)
  from buckets_filled [OF this, of xs] obtain bs where bs: "loopM (\<lambda>v b. sortBuckets b 0 [v]) xs (replicate 40 []) = Some bs"
    "list_all ascending bs" "length bs = 40" "\<Union> (set (map set bs)) = set xs" using assms c by auto
  obtain b bs' where e: "bs = b # bs'" using bs(3) by (cases bs) simp_all
  show ?thesis using merge_buckets [of bs' b] bs e by (auto simp: rowSetEntrySort_def Let_def)
qed

section \<open>Trees hold their lists\<close>

lemma rowSetTreeToList_inorder [simp]: "rowSetTreeToList t = inorder t"
  by (induction t) simp_all

lemma listToTree_loop_inorder: "inorder (listToTree_loop p d xs) = inorder p @ xs"
proof (induction p d xs rule: listToTree_loop.induct)
  case (2 p d v xs)
  have "inorder (fst (rowSetNDeepTree d xs)) @ snd (rowSetNDeepTree d xs) = xs"
    by (rule rowSetNDeepTree_inorder) simp
  then show ?case using 2 by simp
qed simp

lemma rowSetListToTree_inorder [simp]: "inorder (rowSetListToTree xs) = xs"
  by (cases xs) (simp_all add: listToTree_loop_inorder)

lemma set_rowSetListToTree [simp]: "set_tree (rowSetListToTree xs) = set xs"
  using set_inorder [of "rowSetListToTree xs"] by simp

lemma treeTest_inorder: "ascending (inorder t) \<Longrightarrow> treeTest t x \<longleftrightarrow> x \<in> set (inorder t)"
  by (induction t) (auto simp: sorted_wrt_append)

text \<open>A tree of the given depth is complete unless the list ends.\<close>

lemma rowSetNDeepTree_depth:
  "rowSetNDeepTree d xs = (t, rest) \<Longrightarrow> 1 \<le> d \<Longrightarrow>
     height t \<le> d \<and> (rest \<noteq> [] \<longrightarrow> complete t \<and> height t = d)"
proof (induction d xs arbitrary: t rest rule: rowSetNDeepTree.induct)
  case (2 d x xs)
  show ?case
  proof (cases "d > 1")
    case True
    obtain l ys where l: "rowSetNDeepTree (d - 1) (x # xs) = (l, ys)" by fastforce
    have hl: "height l \<le> d - 1 \<and> (ys \<noteq> [] \<longrightarrow> complete l \<and> height l = d - 1)" using "2.IH"(1) [OF True l] True by simp
    show ?thesis
    proof (cases ys)
      case Nil
      then show ?thesis using "2.prems" True l hl by auto
    next
      case (Cons y ys')
      obtain r zs where r: "rowSetNDeepTree (d - 1) ys' = (r, zs)" by fastforce
      have "height r \<le> d - 1 \<and> (zs \<noteq> [] \<longrightarrow> complete r \<and> height r = d - 1)"
        using "2.IH"(2) [OF True l [symmetric] Cons r] True by simp
      moreover have "t = Node l y r" "rest = zs" using "2.prems"(1) True l Cons r by auto
      ultimately show ?thesis using hl Cons True by auto
    qed
  qed (use "2.prems" in auto)
qed simp

text \<open>Before each round the tree is complete, so its height grows by one only when it at least doubles.\<close>

lemma listToTree_loop_depth:
  "height p = d \<Longrightarrow> 1 \<le> d \<Longrightarrow> (xs \<noteq> [] \<longrightarrow> complete p) \<Longrightarrow> 2 ^ (d - 1) \<le> size p \<Longrightarrow>
     2 ^ (height (listToTree_loop p d xs) - 1) \<le> size (listToTree_loop p d xs)"
proof (induction p d xs rule: listToTree_loop.induct)
  case (2 p d v xs)
  obtain r rest where r: "rowSetNDeepTree d xs = (r, rest)" by fastforce
  have h: "height r \<le> d \<and> (rest \<noteq> [] \<longrightarrow> complete r \<and> height r = d)" using rowSetNDeepTree_depth [OF r "2.prems"(2)] .
  have c: "complete p" using "2.prems"(3) by simp
  then have "size p = 2 ^ d - 1" using size_if_complete [of p] "2.prems"(1) by simp
  then have "2 ^ d \<le> size (Node p v r)" by simp
  then show ?case using "2.IH" r h c "2.prems" by simp
qed simp

section \<open>The contract of insert and test\<close>

datatype rs_op = RInsert int | RTest int int

text \<open>What the program has answered, whether an allocation has failed, the allocations to come, and the object.\<close>

type_synonym rs_state = "bool list \<times> bool \<times> mem \<times> RowSet"

fun rs_do :: "rs_op \<Rightarrow> rs_state \<Rightarrow> rs_state option" where
  "rs_do (RInsert v) (answers, failed, m, p) = do {
     (ok, m, p) \<leftarrow> sqlite3RowSetInsert m p v;
     Some (answers, failed \<or> \<not> ok, m, p) }"
| "rs_do (RTest b v) (answers, failed, m, p) = do {
     (answer, ok, m, p) \<leftarrow> sqlite3RowSetTest m p b v;
     Some (answers @ [answer], failed \<or> \<not> ok, m, p) }"

text \<open>The contract: a test sees what was inserted before the batch number last changed.\<close>

record row_spec =
  sp_answers :: "bool list"
  sp_seen :: "int set"
  sp_waiting :: "int set"
  sp_batch :: int

fun spec_do :: "rs_op \<Rightarrow> row_spec \<Rightarrow> row_spec" where
  "spec_do (RInsert v) a = a\<lparr>sp_waiting := insert v (sp_waiting a)\<rparr>"
| "spec_do (RTest b v) a =
     (let a = (if b \<noteq> sp_batch a then a\<lparr>sp_seen := sp_seen a \<union> sp_waiting a, sp_waiting := {}, sp_batch := b\<rparr> else a)
      in a\<lparr>sp_answers := sp_answers a @ [v \<in> sp_seen a]\<rparr>)"

definition forest_set :: "int tree list \<Rightarrow> int set" where
  "forest_set ts = \<Union> (set (map (\<lambda>t. set (inorder t)) ts))"

lemma forest_set_simps [simp]:
  "forest_set [] = {}" "forest_set (t # ts) = set_tree t \<union> forest_set ts" "forest_set (ts @ ts') = forest_set ts \<union> forest_set ts'"
  by (auto simp: forest_set_def)

definition rs_wf :: "nat \<Rightarrow> RowSet \<Rightarrow> bool" where
  "rs_wf k p \<longleftrightarrow> \<not> rs_next p \<and> (rs_sorted p \<longrightarrow> ascending (rs_entry p)) \<and> length (rs_entry p) \<le> k
     \<and> rs_last p = (if rs_entry p = [] then None else Some (last (rs_entry p)))
     \<and> list_all (\<lambda>t. ascending (inorder t)) (rs_forest p)"

definition rs_rel :: "nat \<Rightarrow> rs_state \<Rightarrow> row_spec \<Rightarrow> bool" where
  "rs_rel k s a \<longleftrightarrow> (case s of (answers, failed, m, p) \<Rightarrow>
     rs_wf k p \<and> rs_iBatch p = sp_batch a
   \<and> forest_set (rs_forest p) \<subseteq> sp_seen a \<and> set (rs_entry p) \<subseteq> sp_waiting a \<and> list_all2 (\<longrightarrow>) answers (sp_answers a)
   \<and> (\<not> failed \<longrightarrow> forest_set (rs_forest p) = sp_seen a \<and> set (rs_entry p) = sp_waiting a \<and> answers = sp_answers a))"

lemma entryAlloc_keeps:
  "rowSetEntryAlloc m p = (ok, m', p') \<Longrightarrow>
     rs_entry p' = rs_entry p \<and> rs_last p' = rs_last p \<and> rs_forest p' = rs_forest p \<and> rs_sorted p' = rs_sorted p
     \<and> rs_next p' = rs_next p \<and> rs_iBatch p' = rs_iBatch p"
  by (auto simp: rowSetEntryAlloc_def split: if_splits prod.splits)

lemma forestInsert_keeps:
  "forestInsert ts p = (ts', over) \<Longrightarrow> p \<noteq> [] \<Longrightarrow> ascending p \<Longrightarrow> list_all (\<lambda>t. ascending (inorder t)) ts \<Longrightarrow>
     list_all (\<lambda>t. ascending (inorder t)) ts'
   \<and> (case over of None \<Rightarrow> forest_set ts' = forest_set ts \<union> set p
      | Some l \<Rightarrow> ascending l \<and> forest_set ts' \<union> set l = forest_set ts \<union> set p)"
proof (induction ts p arbitrary: ts' over rule: forestInsert.induct)
  case (2 t ts p)
  show ?case
  proof (cases "t = Leaf")
    case True
    then show ?thesis using "2.prems" by auto
  next
    case False
    let ?p = "rowSetEntryMerge (rowSetTreeToList t) p"
    obtain ts1 where f: "forestInsert ts ?p = (ts1, over)" "ts' = Leaf # ts1"
      using "2.prems"(1) False by (auto split: prod.splits)
    have "?p \<noteq> []" "ascending ?p" using "2.prems" by (simp_all add: rowSetEntryMerge_Nil ascending_rowSetEntryMerge)
    then show ?thesis using "2.IH" [OF False f(1)] "2.prems"(4) f(2)
      by (cases over) auto
  qed
qed simp

lemma entries_sorted:
  assumes "rs_wf k p" and "k < 2 ^ 40"
  shows "\<exists>e. (if \<not> rs_sorted p then rowSetEntrySort (rs_entry p) else Some (rs_entry p)) = Some e \<and> ascending e \<and> set e = set (rs_entry p)"
  using assms rowSetEntrySort_sorts [of "rs_entry p"] by (auto simp: rs_wf_def)

text \<open>A new batch moves the waiting entries into the forest, or loses entries when the allocation fails.\<close>

lemma newBatch_keeps:
  assumes wf: "rs_wf k p" and k: "k < 2 ^ 40"
  shows "\<exists>ok m' p'. newBatch m p = Some (ok, m', p') \<and> rs_wf k p' \<and> rs_entry p' = []
     \<and> forest_set (rs_forest p') \<subseteq> forest_set (rs_forest p) \<union> set (rs_entry p)
     \<and> (ok \<longrightarrow> forest_set (rs_forest p') = forest_set (rs_forest p) \<union> set (rs_entry p))"
proof (cases "rs_entry p = []")
  case True
  then show ?thesis using wf by (intro exI [of _ True] exI [of _ m] exI [of _ p]) (simp add: newBatch_def)
next
  case False
  obtain e where e: "(if \<not> rs_sorted p then rowSetEntrySort (rs_entry p) else Some (rs_entry p)) = Some e" "ascending e"
    "set e = set (rs_entry p)" using entries_sorted [OF wf k] by blast
  have "e \<noteq> []" using e(3) False by auto
  obtain ts over where f: "forestInsert (rs_forest p) e = (ts, over)" by fastforce
  have fk: "list_all (\<lambda>t. ascending (inorder t)) ts"
    "case over of None \<Rightarrow> forest_set ts = forest_set (rs_forest p) \<union> set e
     | Some l \<Rightarrow> ascending l \<and> forest_set ts \<union> set l = forest_set (rs_forest p) \<union> set e"
    using forestInsert_keeps [OF f \<open>e \<noteq> []\<close> e(2)] wf by (auto simp: rs_wf_def)
  show ?thesis
  proof (cases over)
    case None
    then show ?thesis using e f fk False wf by (auto simp: newBatch_def rs_wf_def)
  next
    case (Some l)
    obtain ok m' p' where a: "rowSetEntryAlloc m p = (ok, m', p')" using prod_cases3 by blast
    show ?thesis using e f fk False wf Some a entryAlloc_keeps [OF a] by (auto simp: newBatch_def rs_wf_def)
  qed
qed

lemma forest_test:
  "list_all (\<lambda>t. ascending (inorder t)) ts \<Longrightarrow> list_ex (\<lambda>t. treeTest t v) ts \<longleftrightarrow> v \<in> forest_set ts"
  by (induction ts) (auto simp: treeTest_inorder)

lemma list_all2_snoc: "list_all2 Q (xs @ [x]) (ys @ [y]) \<longleftrightarrow> list_all2 Q xs ys \<and> Q x y"
  by (cases "length xs = length ys") (auto simp: list_all2_append dest: list_all2_lengthD)

lemma rs_wf_batch [simp]: "rs_wf k (p\<lparr>rs_iBatch := b\<rparr>) = rs_wf k p"
  by (simp add: rs_wf_def)

lemma rs_insert_rel:
  assumes r: "rs_rel k (answers, failed, m, p) a"
  shows "\<exists>s'. rs_do (RInsert v) (answers, failed, m, p) = Some s' \<and> rs_rel (Suc k) s' (spec_do (RInsert v) a)"
proof -
  obtain ok m' p' where a: "rowSetEntryAlloc m p = (ok, m', p')" using prod_cases3 by blast
  show ?thesis using r a entryAlloc_keeps [OF a]
    by (cases "rs_entry p" rule: rev_cases)
       (auto simp: sqlite3RowSetInsert_def rs_rel_def rs_wf_def sorted_wrt_append split: if_splits)
qed

lemma rs_test_rel:
  assumes r: "rs_rel k (answers, failed, m, p) a" and k: "k < 2 ^ 40"
  shows "\<exists>s'. rs_do (RTest b v) (answers, failed, m, p) = Some s' \<and> rs_rel k s' (spec_do (RTest b v) a)"
proof -
  have wf: "rs_wf k p" and rel: "rs_iBatch p = sp_batch a" "forest_set (rs_forest p) \<subseteq> sp_seen a" "set (rs_entry p) \<subseteq> sp_waiting a"
      "list_all2 (\<longrightarrow>) answers (sp_answers a)"
      "\<not> failed \<longrightarrow> forest_set (rs_forest p) = sp_seen a \<and> set (rs_entry p) = sp_waiting a \<and> answers = sp_answers a"
    using r by (simp_all add: rs_rel_def)
  have nx: "\<not> rs_next p" using wf by (simp add: rs_wf_def)
  show ?thesis
  proof (cases "b = rs_iBatch p")
    case True
    then show ?thesis using nx wf rel forest_test [of "rs_forest p" v]
      by (auto simp: sqlite3RowSetTest_def rs_rel_def rs_wf_def list_all2_snoc)
  next
    case False
    obtain ok m' q where q: "newBatch m p = Some (ok, m', q)" "rs_wf k q" "rs_entry q = []"
        "forest_set (rs_forest q) \<subseteq> forest_set (rs_forest p) \<union> set (rs_entry p)"
        "ok \<longrightarrow> forest_set (rs_forest q) = forest_set (rs_forest p) \<union> set (rs_entry p)"
      using newBatch_keeps [OF wf k, of m] by blast
    have t: "list_ex (\<lambda>t. treeTest t v) (rs_forest q) \<longleftrightarrow> v \<in> forest_set (rs_forest q)"
      using q(2) by (intro forest_test) (simp add: rs_wf_def)
    show ?thesis using False nx q rel t
      by (auto simp: sqlite3RowSetTest_def rs_rel_def list_all2_snoc)
  qed
qed

lemma rs_run:
  "rs_rel k s a \<Longrightarrow> k + length es < 2 ^ 40 \<Longrightarrow>
     \<exists>s'. loopM rs_do es s = Some s' \<and> (\<exists>k'. rs_rel k' s' (fold spec_do es a))"
proof (induction es arbitrary: k s a)
  case (Cons e es)
  obtain answers failed m p where s: "s = (answers, failed, m, p)" using prod_cases4 by blast
  have "\<exists>s'. rs_do e s = Some s' \<and> rs_rel (Suc k) s' (spec_do e a)"
  proof (cases e)
    case (RInsert v)
    then show ?thesis using rs_insert_rel Cons.prems(1) s by blast
  next
    case (RTest b v)
    then obtain s' where "rs_do e s = Some s'" "rs_rel k s' (spec_do e a)"
      using rs_test_rel [of k answers failed m p a b v] Cons.prems s by auto
    then show ?thesis by (auto simp: rs_rel_def rs_wf_def)
  qed
  then show ?case using Cons by force
qed auto

text \<open>
  C17. A RowSet keeps its contract: every sequence of fewer than 2 to the 40 insertions and tests on a new RowSet returns, no
  bucket outside the array is used, and unless an allocation has failed the tests answer exactly whether the row id was
  inserted before the batch number last changed. When allocations fail, a test still never reports a row id that was not inserted.
\<close>

theorem rowset_test_refines:
  assumes "sqlite3RowSetInit m nAlloc = (Some p, m')" and "length es < 2 ^ 40"
  shows "\<exists>answers failed m'' p'. loopM rs_do es ([], False, m', p) = Some (answers, failed, m'', p')
     \<and> (let a = fold spec_do es \<lparr>sp_answers = [], sp_seen = {}, sp_waiting = {}, sp_batch = 0\<rparr>
        in list_all2 (\<longrightarrow>) answers (sp_answers a) \<and> (\<not> failed \<longrightarrow> answers = sp_answers a))"
proof -
  have "rs_rel 0 ([], False, m', p) \<lparr>sp_answers = [], sp_seen = {}, sp_waiting = {}, sp_batch = 0\<rparr>"
    using assms(1) by (auto simp: sqlite3RowSetInit_def rs_rel_def rs_wf_def split: prod.splits if_splits)
  from rs_run [OF this] assms(2) show ?thesis by (fastforce simp: rs_rel_def Let_def)
qed

section \<open>Reading in order\<close>

text \<open>The answers of n calls of sqlite3RowSetNext.\<close>

fun nexts :: "nat \<Rightarrow> RowSet \<Rightarrow> (int option list \<times> RowSet) option" where
  "nexts 0 p = Some ([], p)"
| "nexts (Suc n) p = do {
     (v, p) \<leftarrow> sqlite3RowSetNext p;
     (vs, p) \<leftarrow> nexts n p;
     Some (v # vs, p) }"

lemma nexts_snoc: "nexts n p = Some (vs, q) \<Longrightarrow> sqlite3RowSetNext q = Some (v, q') \<Longrightarrow> nexts (Suc n) p = Some (vs @ [v], q')"
  by (induction n arbitrary: p vs) (auto simp: Option.bind_eq_Some_conv)

lemma nexts_drain:
  "rs_next p \<Longrightarrow> rs_forest p = [] \<Longrightarrow> rs_entry p = x # xs \<Longrightarrow> n = length xs \<Longrightarrow>
     \<exists>p'. nexts (Suc n) p = Some (map Some (x # xs), p') \<and> rs_chunks p' = 0 \<and> rs_entry p' = [] \<and> rs_forest p' = [] \<and> rs_sorted p'"
proof (induction n arbitrary: p x xs)
  case 0
  then show ?case by (simp add: sqlite3RowSetNext_def sqlite3RowSetClear_def)
next
  case (Suc n)
  then obtain y ys where xs: "xs = y # ys" by (cases xs) simp_all
  have "\<exists>p'. nexts (Suc n) (p\<lparr>rs_entry := xs\<rparr>) = Some (map Some (y # ys), p') \<and> rs_chunks p' = 0 \<and> rs_entry p' = []
      \<and> rs_forest p' = [] \<and> rs_sorted p'"
    using Suc.prems xs by (intro Suc.IH) simp_all
  moreover have "sqlite3RowSetNext p = Some (Some x, p\<lparr>rs_entry := xs\<rparr>)"
    using Suc.prems xs by (simp add: sqlite3RowSetNext_def Let_def)
  ultimately show ?case using xs by (auto simp del: nexts.simps simp: nexts.simps(2) [of "Suc n"])
qed

lemma rs_inserts:
  assumes "loopM rs_do (map RInsert vs) ([], False, m, p) = Some (answers, False, m', p')"
    and "rs_rel 0 ([], False, m, p) \<lparr>sp_answers = [], sp_seen = {}, sp_waiting = {}, sp_batch = 0\<rparr>" and "length vs < 2 ^ 40"
    and "rs_forest p = []"
  shows "\<exists>k < 2 ^ 40. rs_wf k p' \<and> set (rs_entry p') = set vs \<and> rs_forest p' = []"
proof -
  have "rs_rel (k + length vs) s' (fold spec_do (map RInsert vs) a) \<and> rs_forest (snd (snd (snd s'))) = rs_forest (snd (snd (snd s)))"
    if "rs_rel k s a" "loopM rs_do (map RInsert vs) s = Some s'" for k s s' a
    using that
  proof (induction vs arbitrary: k s a)
    case (Cons v vs)
    obtain an f mm q where s: "s = (an, f, mm, q)" using prod_cases4 by blast
    obtain s1 where s1: "rs_do (RInsert v) s = Some s1" "rs_rel (Suc k) s1 (spec_do (RInsert v) a)"
      using rs_insert_rel Cons.prems(1) s by blast
    have "rs_forest (snd (snd (snd s1))) = rs_forest q"
      using s1(1) s by (auto simp: sqlite3RowSetInsert_def Option.bind_eq_Some_conv dest: entryAlloc_keeps
          split: if_splits prod.splits option.splits)
    then show ?case using Cons.IH [OF s1(2)] Cons.prems(2) s1(1) s by simp
  qed simp
  from this [OF assms(2,1)] have r: "rs_rel (length vs) (answers, False, m', p')
      (fold spec_do (map RInsert vs) \<lparr>sp_answers = [], sp_seen = {}, sp_waiting = {}, sp_batch = 0\<rparr>)" "rs_forest p' = []"
    using assms(4) by simp_all
  have "sp_waiting (fold spec_do (map RInsert vs) a) = sp_waiting a \<union> set vs" for a
    by (induction vs arbitrary: a) auto
  then show ?thesis using r assms(3) by (intro exI [of _ "length vs"]) (auto simp: rs_rel_def)
qed

lemma rowset_next_ok:
  assumes "sqlite3RowSetInit m nAlloc = (Some p, m')" and "length vs < 2 ^ 40"
    and "loopM rs_do (map RInsert vs) ([], False, m', p) = Some (answers, False, m'', p')"
  shows "\<exists>q. nexts (card (set vs) + 1) p' = Some (map Some (sorted_list_of_set (set vs)) @ [None], q)
     \<and> (vs \<noteq> [] \<longrightarrow> rs_chunks q = 0)"
proof -
  have "rs_rel 0 ([], False, m', p) \<lparr>sp_answers = [], sp_seen = {}, sp_waiting = {}, sp_batch = 0\<rparr>" "rs_forest p = []"
    using assms(1) by (auto simp: sqlite3RowSetInit_def rs_rel_def rs_wf_def split: prod.splits if_splits)
  then obtain k where k: "k < 2 ^ 40" "rs_wf k p'" "set (rs_entry p') = set vs" "rs_forest p' = []"
    using rs_inserts [OF assms(3)] assms(2) by blast
  obtain e where e: "(if \<not> rs_sorted p' then rowSetEntrySort (rs_entry p') else Some (rs_entry p')) = Some e" "ascending e"
      "set e = set vs" using entries_sorted [OF k(2,1)] k(3) by auto
  have l: "sorted_list_of_set (set vs) = e" "card (set vs) = length e"
    using e(2,3) by (metis sorted_list_of_set.idem_if_sorted_distinct strict_sorted_iff, metis distinct_card strict_sorted_iff)
  let ?p = "p'\<lparr>rs_entry := e, rs_sorted := True, rs_next := True\<rparr>"
  have first: "sqlite3RowSetNext p' = sqlite3RowSetNext ?p"
    using e(1) k by (auto simp: sqlite3RowSetNext_def rs_wf_def)
  show ?thesis
  proof (cases e)
    case Nil
    then show ?thesis using e(3) l first k(4) by (simp add: sqlite3RowSetNext_def)
  next
    case (Cons x xs)
    obtain q where q: "nexts (Suc (length xs)) ?p = Some (map Some (x # xs), q)" "rs_chunks q = 0" "rs_entry q = []"
        "rs_forest q = []" "rs_sorted q"
      using nexts_drain [of ?p x xs "length xs"] Cons k(4) by auto
    have "nexts (Suc (length xs)) p' = nexts (Suc (length xs)) ?p" by (simp add: first)
    then have "nexts (Suc (length xs)) p' = Some (map Some (x # xs), q)" using q(1) by simp
    moreover have "sqlite3RowSetNext q = Some (None, q\<lparr>rs_sorted := True, rs_next := True\<rparr>)"
      using q by (cases "rs_next q") (simp_all add: sqlite3RowSetNext_def)
    ultimately have "nexts (Suc (Suc (length xs))) p' = Some (map Some (x # xs) @ [None], q\<lparr>rs_sorted := True, rs_next := True\<rparr>)"
      by (rule nexts_snoc)
    then show ?thesis using q(2) Cons l by simp
  qed
qed

text \<open>
  C18. Reading a RowSet sorts it: any fewer than 2 to the 40 insertions return and, when no allocation has failed, the successive
  calls of sqlite3RowSetNext return every inserted row id once, in ascending order, and then report that the
  set is empty; by then all its memory has been released.
\<close>

theorem rowset_next_sorts:
  assumes "sqlite3RowSetInit m nAlloc = (Some p, m')" and "length vs < 2 ^ 40"
  shows "\<exists>answers failed m'' p'. loopM rs_do (map RInsert vs) ([], False, m', p) = Some (answers, failed, m'', p')
     \<and> (\<not> failed \<longrightarrow> (\<exists>q. nexts (card (set vs) + 1) p' = Some (map Some (sorted_list_of_set (set vs)) @ [None], q)
          \<and> (vs \<noteq> [] \<longrightarrow> rs_chunks q = 0)))"
proof -
  have "rs_rel 0 ([], False, m', p) \<lparr>sp_answers = [], sp_seen = {}, sp_waiting = {}, sp_batch = 0\<rparr>"
    using assms(1) by (auto simp: sqlite3RowSetInit_def rs_rel_def rs_wf_def split: prod.splits if_splits)
  from rs_run [OF this, of "map RInsert vs"] assms(2) obtain s where "loopM rs_do (map RInsert vs) ([], False, m', p) = Some s"
    unfolding length_map add_0 by blast
  moreover obtain answers failed m'' p' where "s = (answers, failed, m'', p')" by (rule prod_cases4)
  ultimately have run: "loopM rs_do (map RInsert vs) ([], False, m', p) = Some (answers, failed, m'', p')" by simp
  have "\<exists>q. nexts (card (set vs) + 1) p' = Some (map Some (sorted_list_of_set (set vs)) @ [None], q)
      \<and> (vs \<noteq> [] \<longrightarrow> rs_chunks q = 0)" if "\<not> failed"
    by (rule rowset_next_ok [OF assms]) (use run that in simp)
  then show ?thesis using run by blast
qed

text \<open>
  The trees a test searches are balanced: the tree built from a list of n entries holds exactly these in order, and its height h
  satisfies 2 to the h minus 1 is at most n, so a test follows at most about log n links in each tree.
\<close>

theorem rowset_tree_balanced:
  "inorder (rowSetListToTree xs) = xs \<and> (xs \<noteq> [] \<longrightarrow> 2 ^ (height (rowSetListToTree xs) - 1) \<le> length xs)"
proof -
  have "size (rowSetListToTree xs) = length xs" by (metis length_inorder rowSetListToTree_inorder)
  then show ?thesis using listToTree_loop_depth [of "Node Leaf (hd xs) Leaf" 1 "tl xs"]
    by (cases xs) (simp_all add: listToTree_loop_inorder)
qed

section \<open>Examples\<close>

text \<open>A RowSet in an allocation of 128 bytes, with room for three entries.\<close>

definition demo_rowset :: RowSet where
  "demo_rowset = \<lparr>rs_chunks = 0, rs_entry = [], rs_last = None, rs_forest = [], rs_nFresh = 3, rs_sorted = True, rs_next = False, rs_iBatch = 0\<rparr>"

lemma demo_rowset_init: "sqlite3RowSetInit [] 128 = (Some demo_rowset, [])"
  by (simp add: sqlite3RowSetInit_def alloc_def demo_rowset_def)

theorem rowset_test_refines_witness:
  "\<exists>answers failed m p. loopM rs_do [RInsert 5, RTest 1 5, RInsert 3, RTest 1 3, RTest 2 3] ([], False, [], demo_rowset)
       = Some (answers, failed, m, p) \<and> list_all2 (\<longrightarrow>) answers [True, False, True]"
  using rowset_test_refines [OF demo_rowset_init, of "[RInsert 5, RTest 1 5, RInsert 3, RTest 1 3, RTest 2 3]"]
  by (auto simp: Let_def)

definition demo_filled :: RowSet where
  "demo_filled = \<lparr>rs_chunks = 1, rs_entry = [3, 1, 3, 2], rs_last = Some 2, rs_forest = [], rs_nFresh = 41, rs_sorted = False,
     rs_next = False, rs_iBatch = 0\<rparr>"

theorem rowset_next_sorts_witness:
  "\<exists>q. nexts 4 demo_filled = Some ([Some 1, Some 2, Some 3, None], q) \<and> rs_chunks q = 0"
proof -
  have i: "loopM rs_do (map RInsert [3, 1, 3, 2]) ([], False, [], demo_rowset) = Some ([], False, [], demo_filled)"
    by (simp add: demo_rowset_def demo_filled_def sqlite3RowSetInsert_def rowSetEntryAlloc_def alloc_def ROWSET_ENTRY_PER_CHUNK_def)
  have e: "set [3, 1, 3, 2] = {1, 2, 3 :: int}" by auto
  have c: "card (set [3, 1, 3, 2 :: int]) + 1 = 4" and l: "sorted_list_of_set (set [3, 1, 3, 2 :: int]) = [1, 2, 3]"
    unfolding e by simp_all
  have len: "length [3, 1, 3, 2 :: int] < 2 ^ 40" by simp
  show ?thesis using rowset_next_sorts [OF demo_rowset_init len] unfolding c l i by auto
qed

theorem rowset_tree_balanced_witness: "2 ^ (height (rowSetListToTree [1, 2, 3, 4, 5]) - 1) \<le> (5 :: nat)"
  using rowset_tree_balanced [of "[1, 2, 3, 4, 5]"] by simp

end
