(* ===== verification/Sqlite_Atoi.thy ===== *)
theory Sqlite_Atoi
  imports Prelude
begin

text \<open>
  Integers as text in util.c of src/infra/db/sqlite3.c: sqlite3Atoi64 for the three encodings and
  sqlite3Int64ToText. A string is its bytes with a length; positions are offsets, every read is checked, and the buffer of the
  printer has the size it has in the source. The accumulated value is an unsigned 64-bit word that wraps.
\<close>

section \<open>Character classes\<close>

definition sqlite3CtypeMap :: "u8 list" where
  "sqlite3CtypeMap =
     replicate 9 0x00 @ replicate 5 0x01 @ replicate 18 0x00
     @ [0x01, 0x00, 0x80, 0x00, 0x40, 0x00, 0x00, 0x80] @ replicate 8 0x00 @ replicate 10 0x0c @ replicate 7 0x00
     @ replicate 6 0x0a @ replicate 20 0x02 @ [0x80, 0x00, 0x00, 0x00, 0x40]
     @ [0x80] @ replicate 6 0x2a @ replicate 20 0x22 @ replicate 5 0x00 @ replicate 128 0x40"

definition sqlite3Isspace :: "u8 \<Rightarrow> bool" where
  "sqlite3Isspace x = (sqlite3CtypeMap ! unat x AND 0x01 \<noteq> 0)"

section \<open>Reading\<close>

text \<open>The encodings are 1 for UTF-8, 2 for UTF-16 little endian and 3 for UTF-16 big endian.\<close>

definition SQLITE_UTF8 :: nat where "SQLITE_UTF8 = 1"

definition incr :: "nat \<Rightarrow> nat" where
  "incr enc = (if enc = SQLITE_UTF8 then 1 else 2)"

lemma incr_pos [simp]: "0 < incr enc"
  by (simp add: incr_def)

text \<open>while( zNum<zEnd && P(*zNum) ) zNum += incr.\<close>

function skipChars :: "(u8 \<Rightarrow> bool) \<Rightarrow> bytes \<Rightarrow> nat \<Rightarrow> nat \<Rightarrow> nat \<Rightarrow> nat option" where
  "skipChars P z zEnd enc zNum =
     (if zNum < zEnd then do {
        b \<leftarrow> byte_at z zNum;
        if P b then skipChars P z zEnd enc (zNum + incr enc) else Some zNum }
      else Some zNum)"
  by pat_completeness auto
termination by (relation "measure (\<lambda>(P, z, zEnd, enc, zNum). zEnd - zNum)") (auto intro: diff_less_mono2)

text \<open>The digits, with the unsigned value of a signed character minus the code of zero.\<close>

function readDigits :: "bytes \<Rightarrow> nat \<Rightarrow> nat \<Rightarrow> nat \<Rightarrow> nat \<Rightarrow> u64 \<Rightarrow> (nat \<times> u64) option" where
  "readDigits z zEnd enc zNum i u =
     (if zNum + i < zEnd then do {
        b \<leftarrow> byte_at z (zNum + i);
        let c = (of_int (sint b) :: u32) - 48;
        if c \<le> 9 then readDigits z zEnd enc zNum (i + incr enc) (u * 10 + ucast c) else Some (i, u) }
      else Some (i, u))"
  by pat_completeness auto
termination by (relation "measure (\<lambda>(z, zEnd, enc, zNum, i, u). zEnd - (zNum + i))") (auto intro: diff_less_mono2)

text \<open>Whether there is text that is not white space after the number.\<close>

function extraText :: "bytes \<Rightarrow> nat \<Rightarrow> nat \<Rightarrow> nat \<Rightarrow> bool option" where
  "extraText z zEnd enc jj = do {
     b \<leftarrow> byte_at z jj;
     if \<not> sqlite3Isspace b then Some True
     else if jj + incr enc < zEnd then extraText z zEnd enc (jj + incr enc) else Some False }"
  by pat_completeness auto
termination by (relation "measure (\<lambda>(z, zEnd, enc, jj). zEnd - jj)") (auto intro: diff_less_mono2)

declare skipChars.simps [simp del] readDigits.simps [simp del] extraText.simps [simp del]

definition pow63 :: "int list" where
  "pow63 = map (\<lambda>d. d + 48) [9, 2, 2, 3, 3, 7, 2, 0, 3, 6, 8, 5, 4, 7, 7, 5, 8, 0]"

fun compareLoop :: "bytes \<Rightarrow> nat \<Rightarrow> nat \<Rightarrow> int list \<Rightarrow> nat \<Rightarrow> int option" where
  "compareLoop z zNum enc [] i = Some 0"
| "compareLoop z zNum enc (d # ds) i = do {
     b \<leftarrow> byte_at z (zNum + i * incr enc);
     let c = (sint b - d) * 10;
     if c = 0 then compareLoop z zNum enc ds (i + 1) else Some c }"

definition compare2pow63 :: "bytes \<Rightarrow> nat \<Rightarrow> nat \<Rightarrow> int option" where
  "compare2pow63 z zNum enc = do {
     c \<leftarrow> compareLoop z zNum enc pow63 0;
     if c = 0 then do { b \<leftarrow> byte_at z (zNum + 18 * incr enc); Some (sint b - 56) } else Some c }"

definition LARGEST_INT64 :: int where "LARGEST_INT64 = 2 ^ 63 - 1"
definition SMALLEST_INT64 :: int where "SMALLEST_INT64 = - (2 ^ 63)"

text \<open>
  The UTF-16 preparation: where the text ends that has only zero high bytes. The result is nonNum, the end and the start.
\<close>

definition utf16Extent :: "bytes \<Rightarrow> nat \<Rightarrow> nat \<Rightarrow> (bool \<times> nat \<times> nat) option" where
  "utf16Extent z len enc = do {
     let len = len - len mod 2;
     i \<leftarrow> skipChars (\<lambda>b. b = 0) z len enc (3 - enc);
     Some (i < len, (if even i then i + 1 else i - 1), enc mod 2) }"

text \<open>The answer is the result code and *pNum.\<close>

definition sqlite3Atoi64 :: "bytes \<Rightarrow> nat \<Rightarrow> nat \<Rightarrow> (int \<times> int) option" where
  "sqlite3Atoi64 z len enc = do {
     (nonNum, zEnd, zNum) \<leftarrow> (if enc = SQLITE_UTF8 then Some (False, len, 0) else utf16Extent z len enc);
     zNum \<leftarrow> skipChars sqlite3Isspace z zEnd enc zNum;
     (neg, zNum) \<leftarrow>
       (if zNum < zEnd then do {
          b \<leftarrow> byte_at z zNum;
          Some (if b = 45 then (True, zNum + incr enc) else if b = 43 then (False, zNum + incr enc) else (False, zNum)) }
        else Some (False, zNum));
     let zStart = zNum;
     zNum \<leftarrow> skipChars (\<lambda>b. b = 48) z zEnd enc zNum;
     (i, u) \<leftarrow> readDigits z zEnd enc zNum 0 0;
     let value = (if uint u > LARGEST_INT64 then if neg then SMALLEST_INT64 else LARGEST_INT64 else if neg then - uint u else uint u);
     rc \<leftarrow> (if i = 0 \<and> zStart = zNum then Some (- 1)
            else if nonNum then Some 1
            else if zNum + i < zEnd then do { extra \<leftarrow> extraText z zEnd enc (zNum + i); Some (if extra then 1 else 0) }
            else Some 0);
     if i < 19 * incr enc then Some (rc, value)
     else do {
       j \<leftarrow> (if i > 19 * incr enc then Some 1 else compare2pow63 z zNum enc);
       if j < 0 then Some (rc, value)
       else (let value = (if neg then SMALLEST_INT64 else LARGEST_INT64)
             in if j > 0 then Some (2, value) else Some (if neg then rc else 3, value)) } }"

section \<open>Printing\<close>

definition sqlite3DigitPairs :: bytes where
  "sqlite3DigitPairs = concat (map (\<lambda>k. [of_nat (48 + k div 10), of_nat (48 + k mod 10)]) [0..<100])"

definition SQLITE_U64_DIGITS :: nat where "SQLITE_U64_DIGITS = 20"

text \<open>The buffer is filled from its end; what has been written so far is the end of the buffer.\<close>

definition fits :: "nat \<Rightarrow> bytes \<Rightarrow> bool" where
  "fits n a = (length a + n \<le> SQLITE_U64_DIGITS + 1)"

function int64Digits :: "u64 \<Rightarrow> bytes \<Rightarrow> (u64 \<times> bytes) option" where
  "int64Digits x a =
     (if x \<ge> 10 then
        (if \<not> fits 2 a then None
         else (let kk = unat (x mod 100) * 2
               in int64Digits (x div 100) (sqlite3DigitPairs ! kk # sqlite3DigitPairs ! (kk + 1) # a)))
      else Some (x, a))"
  by pat_completeness auto
termination
  by (relation "measure (\<lambda>(x, a). unat x)") (auto simp: unat_div_distrib word_le_nat_alt)

declare int64Digits.simps [simp del]

text \<open>The number of bytes and the bytes copied to zOut, with the terminating zero.\<close>

definition sqlite3Int64ToText :: "int \<Rightarrow> (nat \<times> bytes) option" where
  "sqlite3Int64ToText v =
     (if v = 0 then Some (1, [48, 0])
      else do {
        let x = (if v > 0 then (of_int v :: u64) else if v = SMALLEST_INT64 then push_bit 63 1 else of_int (- v));
        (x, a) \<leftarrow> int64Digits x [0];
        a \<leftarrow> (if x \<noteq> 0 then if fits 1 a then Some ((ucast x + 48) # a) else None else Some a);
        a \<leftarrow> (if v < 0 then if fits 1 a then Some (45 # a) else None else Some a);
        Some (length a - 1, a) })"

section \<open>What is read\<close>

lemma byte_bounds: "uint (b :: u8) < 256" "unat (b :: u8) < 256"
proof -
  show "uint b < 256" using uint_lt2p [of b] by simp
  show "unat b < 256" by (rule less_le_trans [OF unsigned_less]) simp
qed

lemma sint_byte: "sint (b::u8) = (if uint b < 128 then uint b else uint b - 256)"
proof -
  have e: "sint b = (uint b + 128) mod 256 - 128"
    by (simp add: sint_uint signed_take_bit_eq_take_bit_shift take_bit_eq_mod add.commute)
  show ?thesis
  proof (cases "uint b < 128")
    case True
    then show ?thesis using e uint_ge_0 [of b] by simp
  next
    case False
    have "(uint b + 128) mod 256 = (uint b - 128) mod 256"
      using mod_add_self2 [of "uint b - 128" 256] by (simp add: add.commute)
    then show ?thesis using e False byte_bounds(1) [of b] by simp
  qed
qed

definition isdigit :: "u8 \<Rightarrow> bool" where "isdigit b \<longleftrightarrow> 48 \<le> b \<and> b \<le> 57"

definition digit :: "u8 \<Rightarrow> nat" where "digit b = unat b - 48"

lemma isdigit_uint: "isdigit b \<longleftrightarrow> 48 \<le> uint b \<and> uint b \<le> 57"
  by (simp add: isdigit_def word_le_def)

lemma char_code: "uint ((of_int (sint (b::u8)) :: u32) - 48) = (sint b - 48) mod 4294967296"
proof -
  have "(of_int (sint b) :: u32) - 48 = of_int (sint b - 48)" by simp
  then show ?thesis by (simp only: uint_word_of_int) simp
qed

lemma digit_code:
  "(of_int (sint b) :: u32) - 48 \<le> 9 \<longleftrightarrow> isdigit b" (is ?a)
  "isdigit b \<Longrightarrow> (ucast ((of_int (sint b) :: u32) - 48) :: u64) = of_nat (digit b) \<and> sint b = int (digit b) + 48 \<and> digit b \<le> 9"
proof -
  have s: "sint b < 128" "- 128 \<le> sint b" unfolding sint_byte using byte_bounds(1) [of b]
    by (auto simp: order_trans [OF _ uint_ge_0])
  have "(of_int (sint b) :: u32) - 48 \<le> 9 \<longleftrightarrow> (sint b - 48) mod 4294967296 \<le> 9"
    unfolding word_le_def char_code by simp
  also have "\<dots> \<longleftrightarrow> 48 \<le> sint b \<and> sint b \<le> 57"
  proof (cases "48 \<le> sint b")
    case True then show ?thesis using s by simp
  next
    case False
    have "(sint b - 48) mod 4294967296 = sint b - 48 + 4294967296"
      using s False mod_add_self2 [of "sint b - 48" 4294967296] by simp
    then show ?thesis using s False by simp
  qed
  also have "\<dots> \<longleftrightarrow> isdigit b" using sint_byte [of b] byte_bounds(1) [of b] by (auto simp: isdigit_uint split: if_splits)
  finally show ?a .
next
  assume d: "isdigit b"
  then have u: "48 \<le> uint b" "uint b \<le> 57" "sint b = uint b" using sint_byte [of b] by (auto simp: isdigit_uint)
  have "48 \<le> unat b" using d by (simp add: isdigit_def word_le_nat_alt)
  then have n: "int (digit b) = uint b - 48" by (simp add: digit_def of_nat_diff)
  define x where "x = (of_int (sint b) :: u32) - 48"
  have "uint x = (sint b - 48) mod 4294967296" unfolding x_def by (rule char_code)
  also have "\<dots> = int (digit b)" using u n by simp
  finally have "of_int (uint x) = (of_int (int (digit b)) :: u32)" by (rule arg_cong)
  then have x: "x = of_nat (digit b)" by simp
  have d9: "digit b \<le> 9" using u n by simp
  then have "unat x = digit b" unfolding x by (simp add: unat_of_nat)
  moreover have "(ucast x :: u64) = of_nat (unat x)" by simp
  ultimately have "(ucast x :: u64) = of_nat (digit b)" by (simp only:)
  then show "(ucast ((of_int (sint b) :: u32) - 48) :: u64) = of_nat (digit b) \<and> sint b = int (digit b) + 48 \<and> digit b \<le> 9"
    using d9 u n unfolding x_def by simp
qed

lemma isspace_iff: "sqlite3Isspace b \<longleftrightarrow> b = 32 \<or> (9 \<le> b \<and> b \<le> 13)"
proof -
  have m: "map (\<lambda>x. x AND 0x01 \<noteq> 0) sqlite3CtypeMap = map (\<lambda>n. n = 32 \<or> (9 \<le> n \<and> n \<le> 13)) [0..<256]"
    by code_simp
  have len: "length sqlite3CtypeMap = 256" by (simp add: sqlite3CtypeMap_def)
  have b: "unat b < 256" by (rule byte_bounds)
  have "(sqlite3CtypeMap ! unat b AND 0x01 \<noteq> 0) = map (\<lambda>x. x AND 0x01 \<noteq> 0) sqlite3CtypeMap ! unat b"
    using b len by simp
  also have "\<dots> = (unat b = 32 \<or> (9 \<le> unat b \<and> unat b \<le> 13))" unfolding m using b by (simp del: upt.simps upt_Suc)
  finally show ?thesis unfolding sqlite3Isspace_def by (simp add: word_le_nat_alt word_unat_eq_iff)
qed

lemma incr_utf8 [simp]: "incr 1 = 1" "incr (Suc 0) = 1"
  by (simp_all add: incr_def SQLITE_UTF8_def)

lemma drop_unfold: "i < length z \<Longrightarrow> drop i z = z ! i # drop (Suc i) z"
  by (simp add: Cons_nth_drop_Suc)

lemma skip_utf8: "i \<le> length z \<Longrightarrow> skipChars P z (length z) 1 i = Some (i + length (takeWhile P (drop i z)))"
proof (induction "length z - i" arbitrary: i)
  case 0
  then show ?case by (simp add: skipChars.simps)
next
  case (Suc n)
  then have "i < length z" by simp
  then show ?case using Suc.hyps(1) [of "i + 1"] Suc.hyps(2) by (simp add: skipChars.simps [of P z _ _ i] byte_at_def drop_unfold)
qed

lemma digits_utf8:
  "n + i \<le> length z \<Longrightarrow> readDigits z (length z) 1 n i u =
     (let ds = takeWhile isdigit (drop (n + i) z) in Some (i + length ds, foldl (\<lambda>u b. u * 10 + of_nat (digit b)) u ds))"
proof (induction "length z - (n + i)" arbitrary: i u)
  case 0
  then show ?case by (simp add: readDigits.simps)
next
  case (Suc k)
  then have "n + i < length z" by simp
  then show ?case using Suc.hyps(1) [of "i + 1"] Suc.hyps(2) digit_code [of "z ! (n + i)"]
    by (simp add: readDigits.simps [of z _ _ n i] byte_at_def drop_unfold Let_def)
qed

lemma extra_utf8: "j < length z \<Longrightarrow> extraText z (length z) 1 j = Some (\<exists>b \<in> set (drop j z). \<not> sqlite3Isspace b)"
proof (induction "length z - j" arbitrary: j)
  case (Suc k)
  show ?case
  proof (cases "Suc j < length z")
    case True
    then show ?thesis using Suc.hyps(1) [of "Suc j"] Suc.hyps(2) Suc.prems
      by (simp add: extraText.simps [of z _ _ j] byte_at_def drop_unfold)
  next
    case False
    then show ?thesis using Suc.prems by (simp add: extraText.simps [of z _ _ j] byte_at_def drop_unfold)
  qed
qed simp

section \<open>The value of digits\<close>

definition dec_val :: "bytes \<Rightarrow> nat" where
  "dec_val ds = foldl (\<lambda>n b. n * 10 + digit b) 0 ds"

lemma foldl_dec: "foldl (\<lambda>n b. n * 10 + digit b) k ds = k * 10 ^ length ds + dec_val ds"
proof (induction ds arbitrary: k)
  case (Cons b ds)
  show ?case using Cons [of "k * 10 + digit b"] Cons [of "digit b"] by (simp add: dec_val_def algebra_simps)
qed (simp add: dec_val_def)

lemma dec_val_simps [simp]:
  "dec_val [] = 0" "dec_val (b # ds) = digit b * 10 ^ length ds + dec_val ds"
  using foldl_dec [of "digit b" ds] by (simp_all add: dec_val_def)

lemma foldl_word: "foldl (\<lambda>u b. u * 10 + of_nat (digit b)) (of_nat k :: u64) ds = of_nat (foldl (\<lambda>n b. n * 10 + digit b) k ds)"
proof (induction ds arbitrary: k)
  case (Cons b ds)
  show ?case using Cons [of "k * 10 + digit b"] by simp
qed simp

lemma dec_val_less: "list_all isdigit ds \<Longrightarrow> dec_val ds < 10 ^ length ds"
proof (induction ds)
  case (Cons b ds)
  then have "digit b \<le> 9" "dec_val ds < 10 ^ length ds" using digit_code(2) by auto
  then have "digit b * 10 ^ length ds + dec_val ds < 9 * 10 ^ length ds + 10 ^ length ds"
    by (intro add_le_less_mono mult_right_mono) simp_all
  then show ?case by simp
qed simp

lemma dec_val_zeros: "dec_val (dropWhile (\<lambda>b. b = 48) ds) = dec_val ds"
  by (induction ds) (auto simp: digit_def)

lemma dec_val_ge: "ds \<noteq> [] \<Longrightarrow> isdigit (hd ds) \<Longrightarrow> hd ds \<noteq> 48 \<Longrightarrow> 10 ^ (length ds - 1) \<le> dec_val ds"
proof (cases ds)
  case (Cons b bs)
  assume "isdigit (hd ds)" "hd ds \<noteq> 48"
  then have "1 \<le> digit b" using Cons
    by (auto simp: isdigit_def digit_def word_le_nat_alt word_unat_eq_iff)
  then have "1 * 10 ^ length bs \<le> digit b * 10 ^ length bs" by (rule mult_right_mono) simp
  then show ?thesis using Cons by (simp add: trans_le_add1)
qed simp

section \<open>The comparison with 2 to the 63\<close>

lemma digits_compare:
  fixes c d x y k :: nat
  assumes "x < k" and "y < k"
  shows "c < d \<Longrightarrow> c * k + x < d * k + y" "d < c \<Longrightarrow> d * k + y < c * k + x"
proof -
  have *: "a * k + u < e * k + v" if "a < e" "u < k" for a e u v
  proof -
    have "a * k + u < (a + 1) * k" using that(2) by simp
    also have "\<dots> \<le> e * k" using that(1) by (intro mult_right_mono) simp_all
    finally show ?thesis by simp
  qed
  show "c < d \<Longrightarrow> c * k + x < d * k + y" "d < c \<Longrightarrow> d * k + y < c * k + x" using * assms by blast+
qed

lemma compareLoop_utf8:
  assumes "n + i + length qs \<le> length z" and "list_all isdigit (take (length qs) (drop (n + i) z))" and "list_all isdigit qs"
  shows "\<exists>c. compareLoop z n 1 (map (\<lambda>q. int (digit q) + 48) qs) i = Some c
     \<and> (let v = dec_val (take (length qs) (drop (n + i) z)) in (c < 0 \<longleftrightarrow> v < dec_val qs) \<and> (c = 0 \<longleftrightarrow> v = dec_val qs))"
  using assms
proof (induction qs arbitrary: i)
  case (Cons q qs)
  let ?b = "z ! (n + i)" and ?rest = "take (length qs) (drop (n + Suc i) z)"
  have l: "n + i < length z" using Cons.prems(1) by simp
  then have t: "take (length (q # qs)) (drop (n + i) z) = ?b # ?rest" by (simp add: drop_unfold)
  have b: "sint ?b = int (digit ?b) + 48" and r: "list_all isdigit ?rest" "list_all isdigit qs"
    using Cons.prems(2,3) t digit_code(2) by auto
  have len: "length ?rest = length qs" using Cons.prems(1) by simp
  have v: "dec_val ?rest < 10 ^ length qs" "dec_val qs < 10 ^ length qs"
    using dec_val_less [OF r(1)] dec_val_less [OF r(2)] len by simp_all
  show ?case
  proof (cases "digit ?b = digit q")
    case True
    then show ?thesis using Cons.IH [of "Suc i"] Cons.prems(1) r t b l len by (simp add: byte_at_def Let_def)
  next
    case False
    then consider "digit ?b < digit q" | "digit q < digit ?b" by linarith
    then show ?thesis
    proof cases
      case 1
      then show ?thesis using t b l len digits_compare(1) [OF v 1] by (simp add: byte_at_def Let_def)
    next
      case 2
      then show ?thesis using t b l len digits_compare(2) [OF v 2] by (simp add: byte_at_def Let_def)
    qed
  qed
qed simp

definition pow63_digits :: bytes where
  "pow63_digits = [57, 50, 50, 51, 51, 55, 50, 48, 51, 54, 56, 53, 52, 55, 55, 53, 56, 48]"

lemma pow63_digits:
  "pow63 = map (\<lambda>q. int (digit q) + 48) pow63_digits" "list_all isdigit pow63_digits" "length pow63_digits = 18"
  "dec_val pow63_digits = 922337203685477580"
  by (simp_all add: pow63_digits_def pow63_def digit_def isdigit_def)

lemma compare_utf8:
  assumes "n + 19 \<le> length z" and d: "list_all isdigit (take 19 (drop n z))"
  shows "\<exists>c. compare2pow63 z n 1 = Some c
     \<and> (c < 0 \<longleftrightarrow> dec_val (take 19 (drop n z)) < 2 ^ 63) \<and> (c = 0 \<longleftrightarrow> dec_val (take 19 (drop n z)) = 2 ^ 63)"
proof -
  let ?D = "take 18 (drop n z)" and ?b = "z ! (n + 18)"
  have t: "take 19 (drop n z) = ?D @ [?b]"
    using assms(1) take_Suc_conv_app_nth [of 18 "drop n z"] by (simp add: add.commute)
  have D: "list_all isdigit ?D" "isdigit ?b" using d unfolding t by simp_all
  have v: "dec_val (take 19 (drop n z)) = dec_val ?D * 10 + digit ?b"
    unfolding t dec_val_def by simp
  have b: "sint ?b = int (digit ?b) + 48" "digit ?b \<le> 9" using digit_code(2) [OF D(2)] by simp_all
  obtain c where c: "compareLoop z n 1 pow63 0 = Some c" "c < 0 \<longleftrightarrow> dec_val ?D < 922337203685477580"
      "c = 0 \<longleftrightarrow> dec_val ?D = 922337203685477580"
    using compareLoop_utf8 [of n 0 pow63_digits z] assms(1) D(1) pow63_digits by (auto simp: Let_def)
  show ?thesis
  proof (cases "c = 0")
    case True
    then show ?thesis using c b v assms(1) by (simp add: compare2pow63_def byte_at_def)
  next
    case False
    then show ?thesis using c b v by (auto simp: compare2pow63_def)
  qed
qed

section \<open>The specification of sqlite3Atoi64\<close>

definition clamp :: "int \<Rightarrow> int" where
  "clamp v = max SMALLEST_INT64 (min LARGEST_INT64 v)"

definition number_spec :: "bool \<Rightarrow> bytes \<Rightarrow> int \<times> int" where
  "number_spec neg s =
     (let ds = takeWhile isdigit s;
          v = (if neg then - int (dec_val ds) else int (dec_val ds));
          rc = (if ds = [] then - 1
                else if SMALLEST_INT64 \<le> v \<and> v \<le> LARGEST_INT64 then
                  (if list_all sqlite3Isspace (dropWhile isdigit s) then 0 else 1)
                else if v = 2 ^ 63 then 3 else 2)
      in (rc, clamp v))"

definition atoi_spec :: "bytes \<Rightarrow> int \<times> int" where
  "atoi_spec z =
     (let s = dropWhile sqlite3Isspace z
      in if s \<noteq> [] \<and> hd s = 45 then number_spec True (tl s)
         else if s \<noteq> [] \<and> hd s = 43 then number_spec False (tl s) else number_spec False s)"

lemma takeWhile_zeros: "takeWhile isdigit (dropWhile (\<lambda>b. b = 48) s) = dropWhile (\<lambda>b. b = 48) (takeWhile isdigit s)"
  by (induction s) (auto simp: isdigit_def)

lemma dropWhile_zeros: "dropWhile isdigit (dropWhile (\<lambda>b. b = 48) s) = dropWhile isdigit s"
  by (induction s) (auto simp: isdigit_def)

lemma drop_takeWhile: "drop (length (takeWhile P xs)) xs = dropWhile P xs"
  by (induction xs) simp_all

lemma takeWhile_take: "takeWhile P xs = take (length (takeWhile P xs)) xs"
  by (induction xs) auto

text \<open>The part after the sign: zeros, digits, the rest.\<close>

definition atoiTail :: "bytes \<Rightarrow> nat \<Rightarrow> bool \<Rightarrow> (int \<times> int) option" where
  "atoiTail z zStart neg = do {
     zNum \<leftarrow> skipChars (\<lambda>b. b = 48) z (length z) 1 zStart;
     (i, u) \<leftarrow> readDigits z (length z) 1 zNum 0 0;
     let value = (if uint u > LARGEST_INT64 then if neg then SMALLEST_INT64 else LARGEST_INT64 else if neg then - uint u else uint u);
     rc \<leftarrow> (if i = 0 \<and> zStart = zNum then Some (- 1)
            else if zNum + i < length z then do { extra \<leftarrow> extraText z (length z) 1 (zNum + i); Some (if extra then 1 else 0) }
            else Some 0);
     if i < 19 then Some (rc, value)
     else do {
       j \<leftarrow> (if i > 19 then Some 1 else compare2pow63 z zNum 1);
       if j < 0 then Some (rc, value)
       else (let value = (if neg then SMALLEST_INT64 else LARGEST_INT64)
             in if j > 0 then Some (2, value) else Some (if neg then rc else 3, value)) } }"

lemma atoi_sign:
  "sqlite3Atoi64 z (length z) 1 = do {
     zNum \<leftarrow> skipChars sqlite3Isspace z (length z) 1 0;
     (neg, zNum) \<leftarrow>
       (if zNum < length z then do {
          b \<leftarrow> byte_at z zNum;
          Some (if b = 45 then (True, zNum + 1) else if b = 43 then (False, zNum + 1) else (False, zNum)) }
        else Some (False, zNum));
     atoiTail z zNum neg }"
  unfolding sqlite3Atoi64_def atoiTail_def SQLITE_UTF8_def incr_utf8 by (simp cong: if_cong add: Let_def)

lemma atoi_tail:
  "sqlite3Atoi64 z (length z) 1 =
     (let s = dropWhile sqlite3Isspace z; n = length z - length s
      in if s \<noteq> [] \<and> hd s = 45 then atoiTail z (n + 1) True
         else if s \<noteq> [] \<and> hd s = 43 then atoiTail z (n + 1) False else atoiTail z n False)"
proof -
  let ?s = "dropWhile sqlite3Isspace z" and ?n = "length (takeWhile sqlite3Isspace z)"
  have n: "length z - length ?s = ?n" by (metis add_diff_cancel_right' length_append takeWhile_dropWhile_id)
  have d: "drop ?n z = ?s" by (rule drop_takeWhile)
  have e: "?n < length z \<longleftrightarrow> ?s \<noteq> []" using arg_cong [OF d, of "\<lambda>x. x = []"] by auto
  have h: "z ! ?n = hd ?s" if "?n < length z" using that d by (metis hd_drop_conv_nth)
  show ?thesis
    using skip_utf8 [of 0 z sqlite3Isspace] e h unfolding Let_def n atoi_sign
    by (cases "?n < length z") (simp_all add: byte_at_def)
qed

lemma tail_value:
  assumes p: "p \<le> length z" and s: "s = drop p z" and ds: "ds = takeWhile isdigit s"
    and v: "v = (if neg then - int (dec_val ds) else int (dec_val ds))"
  shows "atoiTail z p neg = Some
     (if ds = [] then - 1
      else if SMALLEST_INT64 \<le> v \<and> v \<le> LARGEST_INT64 then (if list_all sqlite3Isspace (dropWhile isdigit s) then 0 else 1)
      else if v = 2 ^ 63 then 3 else 2, clamp v)"
proof -
  let ?k = "length (takeWhile (\<lambda>b. b = 48) s)" and ?es = "dropWhile (\<lambda>b. b = 48) ds"
  let ?n = "p + ?k" and ?u = "of_nat (dec_val ds) :: u64" and ?i = "length ?es"
  have n: "?n \<le> length z" using p s length_takeWhile_le [of "\<lambda>b. b = 48" s] by simp
  have dn: "drop ?n z = dropWhile (\<lambda>b. b = 48) s" unfolding s add.commute [of p] drop_drop [symmetric] by (rule drop_takeWhile)
  have es: "takeWhile isdigit (drop ?n z) = ?es" unfolding dn ds by (rule takeWhile_zeros)
  have all: "list_all isdigit ?es" unfolding es [symmetric] by (simp add: list_all_iff) (metis set_takeWhileD)
  have sk: "skipChars (\<lambda>b. b = 48) z (length z) 1 p = Some ?n" using skip_utf8 [OF p] s by simp
  have "foldl (\<lambda>u b. u * 10 + of_nat (digit b)) 0 ?es = (of_nat (dec_val ?es) :: u64)"
    using foldl_word [of 0 ?es] by (simp add: dec_val_def)
  then have rd: "readDigits z (length z) 1 ?n 0 0 = Some (?i, ?u)"
    using digits_utf8 [of ?n 0 z 0] n es dec_val_zeros [of ds] by (simp add: Let_def)
  have rest: "drop (?n + ?i) z = dropWhile isdigit s"
  proof -
    have "drop (?n + ?i) z = drop ?i (drop ?n z)" by (simp add: add.commute)
    also have "\<dots> = dropWhile isdigit (drop ?n z)" using drop_takeWhile [of isdigit "drop ?n z"] unfolding es .
    finally show ?thesis unfolding dn dropWhile_zeros .
  qed
  have none: "?i = 0 \<and> p = ?n \<longleftrightarrow> ds = []"
    by (cases s) (auto simp: ds isdigit_def)
  let ?rc = "if ds = [] then - 1 else if list_all sqlite3Isspace (dropWhile isdigit s) then 0 else (1 :: int)"
  have ex: "(if ?i = 0 \<and> p = ?n then Some (- 1)
            else if ?n + ?i < length z then do { extra \<leftarrow> extraText z (length z) 1 (?n + ?i); Some (if extra then 1 else 0) }
            else Some 0) = Some ?rc"
  proof (cases "?n + ?i < length z")
    case True
    then show ?thesis unfolding none using extra_utf8 [OF True] rest by (auto simp: list_all_iff)
  next
    case False
    then have r: "dropWhile isdigit s = []" using rest by (metis drop_all not_less)
    show ?thesis unfolding none r using False by simp
  qed
  have bound: "dec_val ds < 10 ^ ?i" using dec_val_less [OF all] by (simp add: dec_val_zeros)
  have big: "10 ^ (?i - 1) \<le> dec_val ds" if "?i \<noteq> 0"
  proof -
    have "?es \<noteq> []" using that by auto
    then have "hd ?es \<noteq> 48" "isdigit (hd ?es)" using hd_dropWhile [of "\<lambda>b. b = 48" ds] all by (auto simp: list_all_iff)
    then show ?thesis using dec_val_ge [OF \<open>?es \<noteq> []\<close>] dec_val_zeros [of ds] by simp
  qed
  let ?val = "if uint ?u > LARGEST_INT64 then if neg then SMALLEST_INT64 else LARGEST_INT64 else if neg then - uint ?u else uint ?u"
  have step: "atoiTail z p neg =
     (if ?i < 19 then Some (?rc, ?val)
      else do {
        j \<leftarrow> (if ?i > 19 then Some 1 else compare2pow63 z ?n 1);
        if j < 0 then Some (?rc, ?val)
        else (let value = (if neg then SMALLEST_INT64 else LARGEST_INT64)
              in if j > 0 then Some (2, value) else Some (if neg then ?rc else 3, value)) })"
    unfolding atoiTail_def by (simp only: sk rd Option.bind.simps prod.case Let_def ex)
  have fit: "uint ?u = int (dec_val ds)" "?val = v" "clamp v = v" "SMALLEST_INT64 \<le> v \<and> v \<le> LARGEST_INT64"
    if "dec_val ds < 2 ^ 63"
  proof -
    show u: "uint ?u = int (dec_val ds)" using that by (simp add: unsigned_of_nat take_bit_eq_mod)
    show "?val = v" "clamp v = v" "SMALLEST_INT64 \<le> v \<and> v \<le> LARGEST_INT64"
      using that unfolding u v clamp_def LARGEST_INT64_def SMALLEST_INT64_def by simp_all
  qed
  have some: "ds \<noteq> []" if "?i \<noteq> 0" using that by auto
  consider (short) "?i < 19" | (even) "?i = 19" | (long) "?i > 19" by linarith
  then show ?thesis
  proof cases
    case short
    then have "10 ^ ?i \<le> (10 :: nat) ^ 18" by (intro power_increasing) simp_all
    then have "dec_val ds < 2 ^ 63" using bound by simp
    from fit(2-4) [OF this] show ?thesis unfolding step using short by simp
  next
    case even
    have "take 19 (drop ?n z) = ?es" using takeWhile_take [of isdigit "drop ?n z"] es even by simp
    moreover have "?n + 19 \<le> length z"
      using length_takeWhile_le [of isdigit "drop ?n z"] n unfolding es even by simp
    ultimately obtain c where c: "compare2pow63 z ?n 1 = Some c" "c < 0 \<longleftrightarrow> dec_val ds < 2 ^ 63" "c = 0 \<longleftrightarrow> dec_val ds = 2 ^ 63"
      using compare_utf8 [of ?n z] all dec_val_zeros [of ds] by auto
    show ?thesis
    proof (cases "dec_val ds < 2 ^ 63")
      case True
      from fit(2-4) [OF this] show ?thesis unfolding step using even c True some by simp
    next
      case False
      then show ?thesis unfolding step v using even c some
        by (auto simp: clamp_def LARGEST_INT64_def SMALLEST_INT64_def Let_def)
    qed
  next
    case long
    then have "(10 :: nat) ^ 19 \<le> 10 ^ (?i - 1)" by (intro power_increasing) simp_all
    also have "\<dots> \<le> dec_val ds" using long by (intro big) linarith
    finally have "2 ^ 63 < dec_val ds" by simp
    then show ?thesis unfolding step v using long some
      by (auto simp: clamp_def LARGEST_INT64_def SMALLEST_INT64_def Let_def)
  qed
qed

lemma tail_number: "p \<le> length z \<Longrightarrow> atoiTail z p neg = Some (number_spec neg (drop p z))"
  unfolding number_spec_def Let_def by (rule tail_value [OF _ refl refl refl])

lemma atoi_all: "sqlite3Atoi64 z (length z) 1 = Some (atoi_spec z)"
proof -
  let ?s = "dropWhile sqlite3Isspace z"
  let ?n = "length z - length ?s"
  have d: "drop ?n z = ?s"
    by (metis add_diff_cancel_right' append_eq_conv_conj length_append takeWhile_dropWhile_id)
  have n: "?n + 1 \<le> length z" if "?s \<noteq> []" using that length_dropWhile_le [of sqlite3Isspace z] by (cases ?s) simp_all
  have t: "drop (?n + 1) z = tl ?s" using tl_drop [of ?n z] unfolding d by (simp add: drop_Suc drop_tl)
  have r: "atoiTail z ?n neg = Some (number_spec neg ?s)" for neg using tail_number [of ?n z neg] d by simp
  have r1: "atoiTail z (?n + 1) neg = Some (number_spec neg (tl ?s))" if "?s \<noteq> []" for neg
    using tail_number [OF n [OF that], of neg] t by simp
  show ?thesis
  proof (cases "?s = []")
    case True
    then show ?thesis unfolding atoi_tail atoi_spec_def Let_def r by simp
  next
    case False
    show ?thesis unfolding atoi_tail atoi_spec_def Let_def r r1 [OF False] by simp
  qed
qed

text \<open>
  C36. sqlite3Atoi64 on UTF-8 text of any length reads only inside the text and computes the specification: white space, an optional
  sign, the value of the digits clamped to the 64-bit range although the accumulator wraps, and the result code that tells
  apart no digits, an exact number, text after the number, an overflow and the special case of 2 to the 63.
\<close>

theorem atoi64_spec: "sqlite3Atoi64 z (length z) SQLITE_UTF8 = Some (atoi_spec z)"
  unfolding SQLITE_UTF8_def by (rule atoi_all)

section \<open>Round trip\<close>

lemma concat_pairs:
  "length (concat (map (\<lambda>k. [f k, g k]) [0..<n])) = 2 * n"
  "k < n \<Longrightarrow> concat (map (\<lambda>k. [f k, g k]) [0..<n]) ! (k * 2) = f k \<and> concat (map (\<lambda>k. [f k, g k]) [0..<n]) ! (k * 2 + 1) = g k"
proof -
  show len: "length (concat (map (\<lambda>k. [f k, g k]) [0..<n])) = 2 * n" for n by (induction n) simp_all
  show "concat (map (\<lambda>k. [f k, g k]) [0..<n]) ! (k * 2) = f k \<and> concat (map (\<lambda>k. [f k, g k]) [0..<n]) ! (k * 2 + 1) = g k"
    if "k < n" using that
  proof (induction n)
    case (Suc n)
    then show ?case by (cases "k < n") (auto simp: nth_append len less_Suc_eq)
  qed simp
qed

lemma digitPairs:
  assumes "k < 100"
  shows "sqlite3DigitPairs ! (k * 2) = of_nat (48 + k div 10)" "sqlite3DigitPairs ! (k * 2 + 1) = of_nat (48 + k mod 10)"
  using concat_pairs(2) [OF assms, of "\<lambda>k. of_nat (48 + k div 10)" "\<lambda>k. of_nat (48 + k mod 10)"]
  unfolding sqlite3DigitPairs_def by blast+

lemma digit_char: "k \<le> 9 \<Longrightarrow> isdigit (of_nat (48 + k)) \<and> digit (of_nat (48 + k)) = k"
  by (simp add: isdigit_def digit_def word_le_nat_alt unat_of_nat del: of_nat_add)

lemma int64Digits_value:
  "unat x < 10 * 100 ^ k \<Longrightarrow> length a + 2 * k \<le> 21 \<Longrightarrow>
   \<exists>y ds. int64Digits x a = Some (y, ds @ a) \<and> unat y < 10 \<and> length ds \<le> 2 * k \<and> list_all isdigit ds
     \<and> unat x = unat y * 10 ^ length ds + dec_val ds"
proof (induction k arbitrary: x a)
  case 0
  then show ?case by (simp add: int64Digits.simps word_le_nat_alt)
next
  case (Suc k)
  show ?case
  proof (cases "10 \<le> x")
    case False
    then show ?thesis by (simp add: int64Digits.simps word_le_nat_alt)
  next
    case True
    let ?m = "unat x mod 100"
    let ?p = "of_nat (48 + ?m div 10) :: u8" and ?q = "of_nat (48 + ?m mod 10) :: u8"
    have m: "unat (x mod 100) = ?m" "unat (x div 100) = unat x div 100" by (simp_all add: unat_mod_distrib unat_div_distrib)
    have "unat x div 100 < 10 * 100 ^ k" using Suc.prems(1) by (simp add: less_mult_imp_div_less algebra_simps)
    moreover have "length (?p # ?q # a) + 2 * k \<le> 21" using Suc.prems(2) by simp
    ultimately obtain y ds where y: "int64Digits (x div 100) (?p # ?q # a) = Some (y, ds @ ?p # ?q # a)" "unat y < 10"
        "length ds \<le> 2 * k" "list_all isdigit ds" "unat x div 100 = unat y * 10 ^ length ds + dec_val ds"
      using Suc.IH [of "x div 100" "?p # ?q # a"] m(2) by auto
    have g: "isdigit ?p" "digit ?p = ?m div 10" "isdigit ?q" "digit ?q = ?m mod 10"
      using digit_char [of "?m div 10"] digit_char [of "?m mod 10"] by (simp_all add: less_Suc_eq_le [symmetric])
    have "fits 2 a" using Suc.prems(2) by (simp add: fits_def SQLITE_U64_DIGITS_def)
    then have "int64Digits x a = Some (y, (ds @ [?p, ?q]) @ a)"
      using True y(1) digitPairs [of ?m] m(1) by (simp add: int64Digits.simps [of x a] Let_def)
    moreover have "dec_val (ds @ [?p, ?q]) = dec_val ds * 100 + ?m"
      using g(2,4) by (simp add: dec_val_def)
    moreover have "unat x = unat x div 100 * 100 + ?m" by simp
    ultimately show ?thesis using y g by (intro exI [of _ y] exI [of _ "ds @ [?p, ?q]"]) (simp add: algebra_simps)
  qed
qed

lemma isdigit_space: "isdigit b \<Longrightarrow> \<not> sqlite3Isspace b \<and> b \<noteq> 45 \<and> b \<noteq> 43"
  by (auto simp: isdigit_def isspace_iff word_le_nat_alt)

lemma atoi_spec_digits:
  assumes "list_all isdigit es" and "es \<noteq> []" and "SMALLEST_INT64 \<le> v" and "v \<le> LARGEST_INT64" and "int (dec_val es) = \<bar>v\<bar>"
  shows "atoi_spec ((if v < 0 then [45] else []) @ es) = (0, v)"
proof -
  obtain b bs where es: "es = b # bs" using assms(2) by (cases es) simp_all
  have all: "takeWhile isdigit es = es" "dropWhile isdigit es = []" using assms(1) by (simp_all add: list_all_iff takeWhile_eq_all_conv)
  have b: "\<not> sqlite3Isspace b" "b \<noteq> 45" "b \<noteq> 43" "\<not> sqlite3Isspace 45"
    using assms(1) es isdigit_space [of b] by (simp_all add: isspace_iff)
  have c: "clamp v = v" using assms(3,4) by (simp add: clamp_def)
  show ?thesis
  proof (cases "v < 0")
    case True
    then have "- int (dec_val es) = v" using assms(5) by simp
    then have "number_spec True es = (0, v)" using c assms(2-4) unfolding number_spec_def Let_def all by simp
    then show ?thesis using True b by (simp add: atoi_spec_def Let_def)
  next
    case False
    then have "int (dec_val es) = v" using assms(5) by simp
    then have "number_spec False es = (0, v)" using c assms(2-4) unfolding number_spec_def Let_def all by simp
    then show ?thesis using False b es by (simp add: atoi_spec_def Let_def)
  qed
qed

lemma int64_magnitude:
  assumes "SMALLEST_INT64 \<le> v" and "v \<le> LARGEST_INT64"
  shows "int (unat (if v > 0 then (of_int v :: u64) else if v = SMALLEST_INT64 then push_bit 63 1 else of_int (- v))) = \<bar>v\<bar>"
proof -
  have e: "int (unat (of_int w :: u64)) = w" if "0 \<le> w" "w < 2 ^ 64" for w
    using that by (simp add: unsigned_of_int take_bit_int_eq_self)
  have p: "int (unat (push_bit 63 1 :: u64)) = 2 ^ 63" by (simp add: push_bit_of_1)
  consider "v > 0" | "v = SMALLEST_INT64" | "v \<le> 0" "v \<noteq> SMALLEST_INT64" by linarith
  then show ?thesis
  proof cases
    case 1
    then show ?thesis using assms(2) e [of v] by (simp add: LARGEST_INT64_def)
  next
    case 2
    have "\<bar>v\<bar> = 2 ^ 63" "\<not> v > 0" unfolding 2 SMALLEST_INT64_def by simp_all
    then show ?thesis using p 2 by simp
  next
    case 3
    then have "int (unat (of_int (- v) :: u64)) = - v" using assms(1) by (intro e) (simp_all add: SMALLEST_INT64_def)
    then show ?thesis using 3 by simp
  qed
qed

lemma int64_text:
  assumes "SMALLEST_INT64 \<le> v" and "v \<le> LARGEST_INT64"
  shows "\<exists>es. sqlite3Int64ToText v = Some (length ((if v < 0 then [45] else []) @ es), (if v < 0 then [45] else []) @ es @ [0])
     \<and> es \<noteq> [] \<and> length es \<le> 19 \<and> list_all isdigit es \<and> int (dec_val es) = \<bar>v\<bar>"
proof (cases "v = 0")
  case True
  then show ?thesis by (intro exI [of _ "[48]"]) (simp add: sqlite3Int64ToText_def isdigit_def digit_def)
next
  case False
  define x where "x = (if v > 0 then (of_int v :: u64) else if v = SMALLEST_INT64 then push_bit 63 1 else of_int (- v))"
  have x: "int (unat x) = \<bar>v\<bar>" unfolding x_def by (rule int64_magnitude [OF assms])
  then have "int (unat x) < int (10 * 100 ^ 9)" using assms unfolding SMALLEST_INT64_def LARGEST_INT64_def by simp
  then have "unat x < 10 * 100 ^ 9" unfolding of_nat_less_iff .
  then obtain y ds where y: "int64Digits x [0] = Some (y, ds @ [0])" "unat y < 10" "length ds \<le> 18" "list_all isdigit ds"
      "unat x = unat y * 10 ^ length ds + dec_val ds"
    using int64Digits_value [of x 9 "[0]"] by auto
  define es where "es = (if y \<noteq> 0 then [ucast y + 48] else []) @ ds"
  have "(ucast y :: u8) + 48 = of_nat (48 + unat y)" by simp
  then have d: "isdigit (ucast y + 48)" "digit (ucast y + 48) = unat y" using digit_char [of "unat y"] y(2) by (simp_all add: add.commute)
  have val: "dec_val es = unat x" "list_all isdigit es" "length es \<le> 19" using y d by (auto simp: es_def)
  moreover have "es \<noteq> []" using val(1) x False unfolding val(1) [symmetric] by auto
  moreover have "sqlite3Int64ToText v = Some (length ((if v < 0 then [45] else []) @ es), (if v < 0 then [45] else []) @ es @ [0])"
    using False y(1,3) unfolding sqlite3Int64ToText_def x_def [symmetric] Let_def
    by (auto simp: es_def fits_def SQLITE_U64_DIGITS_def)
  ultimately show ?thesis using x by (intro exI [of _ es]) simp
qed

text \<open>
  C37. Every 64-bit integer is printed by sqlite3Int64ToText inside its 21-byte buffer, as at most 20 characters and a zero, and
  sqlite3Atoi64 reads exactly this integer back from the text, with result code 0.
\<close>

theorem int64_text_roundtrip:
  assumes "SMALLEST_INT64 \<le> v" and "v \<le> LARGEST_INT64"
  shows "\<exists>n a. sqlite3Int64ToText v = Some (n, a @ [0]) \<and> length a = n \<and> n \<le> 20 \<and> sqlite3Atoi64 a n SQLITE_UTF8 = Some (0, v)"
proof -
  obtain es where es: "sqlite3Int64ToText v = Some (length ((if v < 0 then [45] else []) @ es), (if v < 0 then [45] else []) @ es @ [0])"
      "es \<noteq> []" "length es \<le> 19" "list_all isdigit es" "int (dec_val es) = \<bar>v\<bar>"
    using int64_text [OF assms] by blast
  let ?a = "(if v < 0 then [45] else []) @ es"
  have "sqlite3Atoi64 ?a (length ?a) SQLITE_UTF8 = Some (0, v)"
    unfolding SQLITE_UTF8_def atoi_all atoi_spec_digits [OF es(4,2) assms es(5)] by (rule refl)
  then show ?thesis using es(1,3) by (intro exI [of _ "length ?a"] exI [of _ ?a]) simp
qed

theorem int64_text_roundtrip_witness:
  "\<exists>n a. sqlite3Int64ToText SMALLEST_INT64 = Some (n, a @ [0]) \<and> length a = n \<and> n \<le> 20
     \<and> sqlite3Atoi64 a n SQLITE_UTF8 = Some (0, SMALLEST_INT64)"
  by (rule int64_text_roundtrip) (simp_all add: SMALLEST_INT64_def LARGEST_INT64_def)

section \<open>Bounds for every encoding\<close>

text \<open>Every position the scan can reach before zEnd is a byte of the text.\<close>

definition inside :: "bytes \<Rightarrow> nat \<Rightarrow> nat \<Rightarrow> nat \<Rightarrow> bool" where
  "inside z zEnd enc p \<longleftrightarrow> (\<forall>k. p + k * incr enc < zEnd \<longrightarrow> p + k * incr enc < length z)"

lemma inside_add [simp]: "inside z zEnd enc p \<Longrightarrow> inside z zEnd enc (p + k * incr enc)"
  unfolding inside_def add.assoc by (simp add: distrib_right [symmetric])

lemma inside_incr [simp]: "inside z zEnd enc p \<Longrightarrow> inside z zEnd enc (p + incr enc)"
  using inside_add [of z zEnd enc p 1] by simp

lemma inside_byte: "inside z zEnd enc p \<Longrightarrow> p < zEnd \<Longrightarrow> byte_at z p = Some (z ! p)"
  by (auto simp: inside_def byte_at_def dest: spec [of _ 0])

lemma skip_inside: "inside z zEnd enc p \<Longrightarrow> \<exists>q. skipChars P z zEnd enc p = Some q \<and> inside z zEnd enc q"
proof (induction P z zEnd enc p rule: skipChars.induct)
  case (1 P z zEnd enc p)
  then show ?case using inside_byte [of z zEnd enc p] by (simp add: skipChars.simps [of P z zEnd enc p])
qed

lemma digits_inside:
  "inside z zEnd enc (p + i) \<Longrightarrow> incr enc dvd i \<Longrightarrow> 0 < i \<longrightarrow> p + i < zEnd + incr enc \<Longrightarrow>
   \<exists>j w. readDigits z zEnd enc p i u = Some (j, w) \<and> inside z zEnd enc (p + j) \<and> incr enc dvd j \<and> (0 < j \<longrightarrow> p + j < zEnd + incr enc)"
proof (induction z zEnd enc p i u rule: readDigits.induct)
  case (1 z zEnd enc p i u)
  then show ?case using inside_byte [of z zEnd enc "p + i"]
    by (cases "p + i < zEnd") (auto simp: readDigits.simps [of z zEnd enc p i u] Let_def add.assoc [symmetric])
qed

lemma extra_inside: "inside z zEnd enc p \<Longrightarrow> p < zEnd \<Longrightarrow> \<exists>x. extraText z zEnd enc p = Some x"
proof (induction z zEnd enc p rule: extraText.induct)
  case (1 z zEnd enc p)
  then show ?case using inside_byte [of z zEnd enc p] by (cases "sqlite3Isspace (z ! p)") (auto simp: extraText.simps [of z zEnd enc p])
qed

lemma compareLoop_inside:
  "inside z zEnd enc p \<Longrightarrow> p + (i + length qs) * incr enc < zEnd + incr enc \<Longrightarrow> \<exists>c. compareLoop z p enc qs i = Some c"
proof (induction qs arbitrary: i)
  case (Cons q qs)
  have "p + i * incr enc < zEnd" using Cons.prems(2) by (simp add: algebra_simps)
  then have "byte_at z (p + i * incr enc) = Some (z ! (p + i * incr enc))" using inside_byte [OF inside_add [OF Cons.prems(1)]] by blast
  then show ?case using Cons.IH [of "i + 1"] Cons.prems by (auto simp: Let_def)
qed simp

lemma compare_inside:
  assumes "inside z zEnd enc p" and "p + 19 * incr enc < zEnd + incr enc"
  shows "\<exists>c. compare2pow63 z p enc = Some c"
proof -
  obtain c where "compareLoop z p enc pow63 0 = Some c"
    using compareLoop_inside [OF assms(1), of 0 pow63] assms(2) by (auto simp: pow63_def)
  moreover have "byte_at z (p + 18 * incr enc) = Some (z ! (p + 18 * incr enc))"
    using assms(2) by (intro inside_byte [OF inside_add [OF assms(1)]]) simp
  ultimately show ?thesis by (simp add: compare2pow63_def)
qed

lemma skip_parity: "skipChars P z zEnd enc p = Some q \<Longrightarrow> enc \<noteq> 1 \<Longrightarrow> even q = even p \<and> q \<le> max p (zEnd + 1)"
proof (induction P z zEnd enc p rule: skipChars.induct)
  case (1 P z zEnd enc p)
  then show ?case
    by (auto simp: skipChars.simps [of P z zEnd enc p] incr_def SQLITE_UTF8_def split: if_splits Option.bind_splits)
qed

lemma extent_inside:
  assumes "enc = 2 \<or> enc = 3"
  shows "\<exists>nonNum zEnd. utf16Extent z (length z) enc = Some (nonNum, zEnd, enc mod 2) \<and> inside z zEnd enc (enc mod 2)"
proof -
  let ?L = "length z - length z mod 2"
  have L: "even ?L" "?L \<le> length z" by (simp_all add: minus_mod_eq_mult_div)
  have "inside z ?L enc (3 - enc)" using L(2) by (auto simp: inside_def)
  then obtain i where i: "skipChars (\<lambda>b. b = 0) z ?L enc (3 - enc) = Some i" using skip_inside by blast
  have par: "even i = even (3 - enc)" "i \<le> max (3 - enc) (?L + 1)" using skip_parity [OF i] assms by auto
  let ?e = "if even i then i + 1 else i - 1"
  have "inside z ?e enc (enc mod 2)"
  proof (cases "enc = 2")
    case True
    then show ?thesis using par L(2) by (auto simp: inside_def)
  next
    case False
    then have e: "enc = 3" "incr enc = 2" using assms by (auto simp: incr_def SQLITE_UTF8_def)
    then have "even i" "i \<le> ?L + 1" using par by simp_all
    then have "i \<noteq> ?L + 1" using L(1) by auto
    then have "i \<le> ?L" using \<open>i \<le> ?L + 1\<close> by simp
    show ?thesis unfolding inside_def e(2)
    proof (intro allI impI)
      fix k assume "enc mod 2 + k * 2 < ?e"
      then have "1 + k * 2 < i + 1" using e(1) \<open>even i\<close> by simp
      then have "1 + k * 2 \<noteq> i \<Longrightarrow> 1 + k * 2 < i" by simp
      moreover have "1 + k * 2 \<noteq> i" using \<open>even i\<close> by auto
      ultimately show "enc mod 2 + k * 2 < length z" using \<open>i \<le> ?L\<close> L(2) e(1) by simp
    qed
  qed
  then show ?thesis using i by (simp add: utf16Extent_def Let_def)
qed

lemma extent_some:
  assumes "enc \<in> {1, 2, 3}"
  shows "\<exists>nonNum zEnd p. (if enc = SQLITE_UTF8 then Some (False, length z, 0) else utf16Extent z (length z) enc)
     = Some (nonNum, zEnd, p) \<and> inside z zEnd enc p"
  using assms extent_inside [of enc z] by (auto simp: SQLITE_UTF8_def inside_def)

lemma sign_inside:
  assumes "inside z zEnd enc p"
  shows "\<exists>neg q. (if p < zEnd then do {
          b \<leftarrow> byte_at z p;
          Some (if b = 45 then (True, p + incr enc) else if b = 43 then (False, p + incr enc) else (False, p)) }
        else Some (False, p)) = Some (neg, q) \<and> inside z zEnd enc q"
  using assms inside_byte [OF assms] by auto

lemma rc_inside:
  assumes "inside z zEnd enc p"
  shows "\<exists>rc. (if none then Some (- 1)
            else if nonNum then Some 1
            else if p < zEnd then do { extra \<leftarrow> extraText z zEnd enc p; Some (if extra then 1 else 0) }
            else Some 0) = Some rc \<and> rc \<in> {- 1, 0, 1 :: int}"
  using extra_inside [OF assms] by auto

text \<open>
  For each of the three encodings sqlite3Atoi64 reads no byte outside the text, whatever the text is and also when a UTF-16 text
  has an odd number of bytes; the result code is one of the five documented ones and the number is in the 64-bit range.
\<close>

lemma atoi64_in_bounds:
  assumes "enc \<in> {1, 2, 3}"
  shows "\<exists>rc v. sqlite3Atoi64 z (length z) enc = Some (rc, v) \<and> rc \<in> {- 1, 0, 1, 2, 3} \<and> SMALLEST_INT64 \<le> v \<and> v \<le> LARGEST_INT64"
proof -
  obtain nonNum zEnd p where 1: "(if enc = SQLITE_UTF8 then Some (False, length z, 0) else utf16Extent z (length z) enc)
     = Some (nonNum, zEnd, p)" "inside z zEnd enc p" using extent_some [OF assms] by blast
  obtain q where 2: "skipChars sqlite3Isspace z zEnd enc p = Some q" "inside z zEnd enc q" using skip_inside [OF 1(2)] by blast
  obtain neg r where 3: "(if q < zEnd then do {
          b \<leftarrow> byte_at z q;
          Some (if b = 45 then (True, q + incr enc) else if b = 43 then (False, q + incr enc) else (False, q)) }
        else Some (False, q)) = Some (neg, r)" "inside z zEnd enc r" using sign_inside [OF 2(2)] by blast
  obtain n where 4: "skipChars (\<lambda>b. b = 48) z zEnd enc r = Some n" "inside z zEnd enc n" using skip_inside [OF 3(2)] by blast
  obtain i u where 5: "readDigits z zEnd enc n 0 0 = Some (i, u)" "inside z zEnd enc (n + i)" "0 < i \<longrightarrow> n + i < zEnd + incr enc"
    using digits_inside [of z zEnd enc n 0 0] 4(2) by auto
  obtain rc where 6: "(if i = 0 \<and> r = n then Some (- 1)
            else if nonNum then Some 1
            else if n + i < zEnd then do { extra \<leftarrow> extraText z zEnd enc (n + i); Some (if extra then 1 else 0) }
            else Some 0) = Some rc" "rc \<in> {- 1, 0, 1 :: int}"
    using rc_inside [OF 5(2), of "i = 0 \<and> r = n" nonNum] by blast
  have 7: "\<exists>j. (if i > 19 * incr enc then Some 1 else compare2pow63 z n enc) = Some j" if "\<not> i < 19 * incr enc"
    using that compare_inside [OF 4(2)] 5(3) incr_pos [of enc] by (cases "i > 19 * incr enc") (auto simp: not_less simp del: incr_pos)
  let ?val = "if uint u > LARGEST_INT64 then if neg then SMALLEST_INT64 else LARGEST_INT64 else if neg then - uint u else uint u"
  have v: "SMALLEST_INT64 \<le> ?val \<and> ?val \<le> LARGEST_INT64"
  proof -
    obtain w where "uint u = w" "0 \<le> w" using uint_ge_0 [of u] by blast
    then show ?thesis by (simp add: SMALLEST_INT64_def LARGEST_INT64_def)
  qed
  have lim: "SMALLEST_INT64 \<le> LARGEST_INT64" by (simp add: SMALLEST_INT64_def LARGEST_INT64_def)
  have run: "sqlite3Atoi64 z (length z) enc =
     (if i < 19 * incr enc then Some (rc, ?val)
      else do {
        j \<leftarrow> (if i > 19 * incr enc then Some 1 else compare2pow63 z n enc);
        if j < 0 then Some (rc, ?val)
        else (let value = (if neg then SMALLEST_INT64 else LARGEST_INT64)
              in if j > 0 then Some (2, value) else Some (if neg then rc else 3, value)) })"
    unfolding sqlite3Atoi64_def by (simp only: 1(1) 2(1) 3(1) 4(1) 5(1) 6(1) Option.bind.simps prod.case Let_def)
  show ?thesis
  proof (cases "i < 19 * incr enc")
    case True
    show ?thesis unfolding run using True 6(2) v by auto
  next
    case False
    then obtain j where "(if i > 19 * incr enc then Some 1 else compare2pow63 z n enc) = Some j" using 7 by blast
    then show ?thesis unfolding run using False 6(2) v lim by (auto simp: Let_def)
  qed
qed

end
