(* ===== verification/Demo_Modbus.thy ===== *)
theory Demo_Modbus
  imports Modbus_Connection Qt_Strings
begin

text \<open>
  The Modbus page of the example window: demo/demowindow.\{h,cpp\}. It holds a Modbus connection, polls it with
  the function the user has chosen and shows the answers in a table. The table is modelled as the framework has it: a number of
  columns and cells that may have no item. Setting the text of a missing item is a use of a null pointer, the value None of the step
  function. Slots of the driver's signals run in the order the signals are sent and do not call the driver back;
  connectionStateChanged finds isReady with the value it announces, since the state is stored before it is announced. The write dialog is modal: while it
  is open the controls of the window do not react, but timers and the socket do. QString::toInt
  is a parameter.
\<close>

section \<open>The table\<close>

record cell_table =
  ct_columns :: nat
  ct_cells :: "string option list list"

definition rowCount :: "cell_table \<Rightarrow> nat" where
  "rowCount t = length (ct_cells t)"

text \<open>setColumnCount keeps the items of the columns that remain; new columns have none.\<close>

definition setColumnCount :: "nat \<Rightarrow> cell_table \<Rightarrow> cell_table" where
  "setColumnCount n t = \<lparr>ct_columns = n, ct_cells = map (\<lambda>r. take n r @ replicate (n - length r) None) (ct_cells t)\<rparr>"

definition item :: "cell_table \<Rightarrow> nat \<Rightarrow> nat \<Rightarrow> string option" where
  "item t row col = (if row < rowCount t \<and> col < length (ct_cells t ! row) then ct_cells t ! row ! col else None)"

text \<open>item(row, col)->setText(text).\<close>

definition setText :: "nat \<Rightarrow> nat \<Rightarrow> string \<Rightarrow> cell_table \<Rightarrow> cell_table option" where
  "setText row col txt t =
     (case item t row col of
        None \<Rightarrow> None
      | Some _ \<Rightarrow> Some (t\<lparr>ct_cells := (ct_cells t)[row := (ct_cells t ! row)[col := Some txt]]\<rparr>))"

section \<open>The page\<close>

definition kFunctionReadCoils :: nat where "kFunctionReadCoils = 0"
definition kFunctionReadDiscreteInputs :: nat where "kFunctionReadDiscreteInputs = 1"
definition kFunctionReadHoldingRegisters :: nat where "kFunctionReadHoldingRegisters = 2"
definition kFunctionReadInputRegisters :: nat where "kFunctionReadInputRegisters = 3"
definition kFunctionWriteSingleCoil :: nat where "kFunctionWriteSingleCoil = 4"
definition kFunctionWriteSingleRegister :: nat where "kFunctionWriteSingleRegister = 5"
definition kFunctionWriteMultipleCoils :: nat where "kFunctionWriteMultipleCoils = 6"
definition kFunctionWriteMultipleRegisters :: nat where "kFunctionWriteMultipleRegisters = 7"

lemmas function_indices = kFunctionReadCoils_def kFunctionReadDiscreteInputs_def kFunctionReadHoldingRegisters_def
  kFunctionReadInputRegisters_def kFunctionWriteSingleCoil_def kFunctionWriteSingleRegister_def
  kFunctionWriteMultipleCoils_def kFunctionWriteMultipleRegisters_def

text \<open>What the write dialog has captured, and its error label.\<close>

record write_dialog =
  wd_function :: nat
  wd_slaveId :: u8
  wd_address :: u16
  wd_error :: string

record 's modbus_page =
  pg_modbus :: "'s modbus"
  pg_table :: cell_table
  pg_host :: string
  pg_port :: int
  pg_timeout :: int
  pg_slaveId :: int
  pg_registerStart :: int
  pg_count :: int
  pg_pollRate :: int
  pg_function :: nat
  pg_pollInterval :: int
  pg_showsConnected :: bool
  pg_writeResult :: string
  pg_dialog :: "write_dialog option"

definition isModbusCoilFunction :: "'s modbus_page \<Rightarrow> bool" where
  "isModbusCoilFunction p = (pg_function p = kFunctionReadCoils \<or> pg_function p = kFunctionReadDiscreteInputs)"

definition isModbusWriteFunction :: "'s modbus_page \<Rightarrow> bool" where
  "isModbusWriteFunction p = (pg_function p \<ge> kFunctionWriteSingleCoil)"

section \<open>Filling the table\<close>

definition dec_signed :: "int \<Rightarrow> string" where
  "dec_signed i = (if i < 0 then CHR ''-'' # dec_digits (nat (- i)) else dec_digits (nat i))"

text \<open>The items of a row: the address, a dash in the columns between, an empty name in the last one.\<close>

definition rebuiltRow :: "nat \<Rightarrow> int \<Rightarrow> string option list" where
  "rebuiltRow columns address =
     (let nameCol = columns - 1
      in map (\<lambda>col. if col = nameCol then Some [] else if col = 0 then Some (dec_signed address) else Some ''-'') [0..<columns])"

definition rebuildModbusTableRows :: "'s modbus_page \<Rightarrow> 's modbus_page" where
  "rebuildModbusTableRows p =
     (let columns = ct_columns (pg_table p)
      in p\<lparr>pg_table := (pg_table p)\<lparr>ct_cells :=
             map (\<lambda>row. rebuiltRow columns (pg_registerStart p + int row)) [0..<nat (pg_count p)]\<rparr>\<rparr>)"

definition onModbusFunctionChanged :: "'s modbus_page \<Rightarrow> 's modbus_page" where
  "onModbusFunctionChanged p =
     rebuildModbusTableRows
       (p\<lparr>pg_table := setColumnCount (if isModbusWriteFunction p then 2 else if isModbusCoilFunction p then 3 else 7)
                        (pg_table p)\<rparr>)"

text \<open>The four readings of two registers as a number of 32 bits.\<close>

definition swapBytes :: "u16 \<Rightarrow> u16" where
  "swapBytes v = push_bit 8 v OR drop_bit 8 v"

definition joinWords :: "u16 \<Rightarrow> u16 \<Rightarrow> u32" where
  "joinWords hi lo = push_bit 16 (ucast hi) OR ucast lo"

definition number32 :: "u32 \<Rightarrow> string" where
  "number32 v = dec_digits (unat v)"

definition updateRegisterRow :: "u16 list \<Rightarrow> nat \<Rightarrow> cell_table \<Rightarrow> cell_table option" where
  "updateRegisterRow registers row t =
     (let v = registers ! row in do {
        t \<leftarrow> setText row 1 (dec_digits (unat v)) t;
        if row + 1 < length registers then
          (let n = registers ! (row + 1) in do {
             t \<leftarrow> setText row 2 (number32 (joinWords v n)) t;
             t \<leftarrow> setText row 3 (number32 (joinWords (swapBytes n) (swapBytes v))) t;
             t \<leftarrow> setText row 4 (number32 (joinWords n v)) t;
             setText row 5 (number32 (joinWords (swapBytes v) (swapBytes n))) t })
        else loopM (\<lambda>col t. setText row col ''-'' t) [2..<6] t })"

definition updateModbusRegisterTableValues :: "u16 list \<Rightarrow> 's modbus_page \<Rightarrow> 's modbus_page option" where
  "updateModbusRegisterTableValues registers p = do {
     t \<leftarrow> loopM (updateRegisterRow registers) [0..<min (length registers) (rowCount (pg_table p))] (pg_table p);
     Some (p\<lparr>pg_table := t\<rparr>) }"

definition updateModbusCoilTableValues :: "bool list \<Rightarrow> 's modbus_page \<Rightarrow> 's modbus_page option" where
  "updateModbusCoilTableValues bits p = do {
     t \<leftarrow> loopM (\<lambda>row t. setText row 1 (if bits ! row then ''ON'' else ''OFF'') t)
            [0..<min (length bits) (rowCount (pg_table p))] (pg_table p);
     Some (p\<lparr>pg_table := t\<rparr>) }"

definition clearModbusTableValues :: "'s modbus_page \<Rightarrow> 's modbus_page option" where
  "clearModbusTableValues p =
     (let nameCol = ct_columns (pg_table p) - 1 in do {
        t \<leftarrow> loopM (\<lambda>row t. loopM (\<lambda>col t. setText row col ''-'' t) [1..<nameCol] t)
               [0..<rowCount (pg_table p)] (pg_table p);
        Some (p\<lparr>pg_table := t\<rparr>) })"

definition updateModbusLabels :: "bool \<Rightarrow> 's modbus_page \<Rightarrow> 's modbus_page option" where
  "updateModbusLabels ready p =
     (let p = p\<lparr>pg_showsConnected := ready\<rparr> in if \<not> ready then clearModbusTableValues p else Some p)"

section \<open>The slots on the driver's signals\<close>

definition writeResult :: "string \<Rightarrow> 's modbus_page \<Rightarrow> 's modbus_page option" where
  "writeResult txt p = Some (p\<lparr>pg_writeResult := txt\<rparr>)"

fun modbus_slot :: "mb_signal \<Rightarrow> 's modbus_page \<Rightarrow> 's modbus_page option" where
  "modbus_slot (MbConnectionStateChanged up) p = updateModbusLabels up p"
| "modbus_slot (HoldingRegistersRead registers) p = updateModbusRegisterTableValues registers p"
| "modbus_slot (InputRegistersRead registers) p = updateModbusRegisterTableValues registers p"
| "modbus_slot (CoilsRead bits) p = updateModbusCoilTableValues bits p"
| "modbus_slot (DiscreteInputsRead bits) p = updateModbusCoilTableValues bits p"
| "modbus_slot (ReadFailed _) p = clearModbusTableValues p"
| "modbus_slot (SingleRegisterWritten address v) p =
     writeResult (''Last write: address '' @ dec_digits (unat address) @ '' = '' @ dec_digits (unat v) @ '' (confirmed)'') p"
| "modbus_slot (WriteFailed err) p = writeResult (''Last write failed -- '' @ err) p"
| "modbus_slot (MultipleRegistersWritten startAddress quantity) p =
     writeResult (''Last write: '' @ dec_digits (unat quantity) @ '' register(s) from address '' @ dec_digits (unat startAddress)
       @ '' (confirmed)'') p"
| "modbus_slot (MultipleWriteFailed err) p = writeResult (''Last write failed -- '' @ err) p"
| "modbus_slot (SingleCoilWritten address v) p =
     writeResult (''Last write: coil '' @ dec_digits (unat address) @ '' = '' @ (if v then ''ON'' else ''OFF'') @ '' (confirmed)'') p"
| "modbus_slot (SingleCoilWriteFailed err) p = writeResult (''Last write failed -- '' @ err) p"
| "modbus_slot (MultipleCoilsWritten startAddress quantity) p =
     writeResult (''Last write: '' @ dec_digits (unat quantity) @ '' coil(s) from address '' @ dec_digits (unat startAddress)
       @ '' (confirmed)'') p"
| "modbus_slot (MultipleCoilWriteFailed err) p = writeResult (''Last write failed -- '' @ err) p"

text \<open>An operation of the driver, followed by the slots for the signals it has sent.\<close>

definition with_modbus :: "'s modbus \<Rightarrow> 's modbus_page \<Rightarrow> 's modbus_page option" where
  "with_modbus m p =
     loopM modbus_slot (drop (length (mb_emitted (world (pg_modbus p)))) (mb_emitted (world m))) (p\<lparr>pg_modbus := m\<rparr>)"

section \<open>The user's actions and the poll timer\<close>

definition onModbusConnectClicked :: "'s socket_ops \<Rightarrow> 's modbus_page \<Rightarrow> 's modbus_page option" where
  "onModbusConnectClicked ops p = do {
     p \<leftarrow> with_modbus (if mb_isReady (pg_modbus p) then mb_disconnectNow ops (pg_modbus p)
                       else mb_connectToHost ops (pg_host p) (of_int (pg_port p)) (pg_modbus p)) p;
     updateModbusLabels (mb_isReady (pg_modbus p)) p }"

definition pollModbusRegisters :: "'s socket_ops \<Rightarrow> 's modbus_page \<Rightarrow> 's modbus_page option" where
  "pollModbusRegisters ops p =
     (if \<not> mb_isReady (pg_modbus p) then Some p
      else (let slaveId = of_int (pg_slaveId p);
                start = of_int (pg_registerStart p);
                count = of_int (pg_count p);
                f = pg_function p;
                m = pg_modbus p
            in with_modbus
                 (if f = kFunctionReadCoils then readCoils ops slaveId start count m
                  else if f = kFunctionReadDiscreteInputs then readDiscreteInputs ops slaveId start count m
                  else if f = kFunctionReadHoldingRegisters then readHoldingRegisters ops slaveId start count m
                  else if f = kFunctionReadInputRegisters then readInputRegisters ops slaveId start count m
                  else m) p))"

definition onModbusTableDoubleClicked :: "nat \<Rightarrow> 's modbus_page \<Rightarrow> 's modbus_page" where
  "onModbusTableDoubleClicked row p =
     (if \<not> isModbusWriteFunction p \<or> \<not> mb_isReady (pg_modbus p) then p
      else p\<lparr>pg_dialog := Some \<lparr>wd_function = pg_function p, wd_slaveId = of_int (pg_slaveId p),
               wd_address = of_int (pg_registerStart p + int row), wd_error = []\<rparr>\<rparr>)"

text \<open>split(',', Qt::SkipEmptyParts); the values of the parts, or None when one is not valid.\<close>

definition parts_of :: "string \<Rightarrow> string list" where
  "parts_of txt = filter (\<lambda>part. part \<noteq> []) (split_char CHR '','' txt)"

fun coilParts :: "string list \<Rightarrow> bool list option" where
  "coilParts [] = Some []"
| "coilParts (part # parts) =
     (if trimmed part = ''1'' then map_option ((#) True) (coilParts parts)
      else if trimmed part = ''0'' then map_option ((#) False) (coilParts parts)
      else None)"

definition registerPart :: "(string \<Rightarrow> int option) \<Rightarrow> string \<Rightarrow> u16 option" where
  "registerPart toInt part =
     (case toInt (trimmed part) of
        None \<Rightarrow> None
      | Some v \<Rightarrow> if v < 0 \<or> v > 65535 then None else Some (of_int v))"

fun registerParts :: "(string \<Rightarrow> int option) \<Rightarrow> string list \<Rightarrow> u16 list option" where
  "registerParts toInt [] = Some []"
| "registerParts toInt (part # parts) =
     (case registerPart toInt part of None \<Rightarrow> None | Some v \<Rightarrow> map_option ((#) v) (registerParts toInt parts))"

definition dialogError :: "string \<Rightarrow> 's modbus_page \<Rightarrow> 's modbus_page option" where
  "dialogError txt p = Some (p\<lparr>pg_dialog := map_option (\<lambda>d. d\<lparr>wd_error := txt\<rparr>) (pg_dialog p)\<rparr>)"

text \<open>The send button of the dialog: the request is sent and the dialog closed, or the error shown.\<close>

definition dialogSend ::
  "'s socket_ops \<Rightarrow> (string \<Rightarrow> int option) \<Rightarrow> write_dialog \<Rightarrow> bool \<Rightarrow> string \<Rightarrow> 's modbus_page \<Rightarrow> 's modbus_page option" where
  "dialogSend ops toInt d coilOn txt p =
     (let m = pg_modbus p;
          accept = (\<lambda>m. with_modbus m (p\<lparr>pg_dialog := None\<rparr>));
          parts = parts_of txt
      in if wd_function d = kFunctionWriteSingleCoil
         then accept (writeSingleCoil ops (wd_slaveId d) (wd_address d) coilOn m)
         else if wd_function d = kFunctionWriteSingleRegister
         then (case registerPart toInt txt of
                 None \<Rightarrow> dialogError ''Value must be an integer 0-65535'' p
               | Some v \<Rightarrow> accept (writeSingleRegister ops (wd_slaveId d) (wd_address d) v m))
         else if wd_function d = kFunctionWriteMultipleCoils
         then (case (if parts \<noteq> [] \<and> length parts \<le> 1968 then coilParts parts else None) of
                 None \<Rightarrow> dialogError ''Values must be 1-1968 comma-separated 0/1'' p
               | Some coils \<Rightarrow> accept (writeMultipleCoils ops (wd_slaveId d) (wd_address d) coils m))
         else (case (if parts \<noteq> [] \<and> length parts \<le> 123 then registerParts toInt parts else None) of
                 None \<Rightarrow> dialogError ''Values must be 1-123 comma-separated integers 0-65535'' p
               | Some vs \<Rightarrow> accept (writeMultipleRegisters ops (wd_slaveId d) (wd_address d) vs m)))"

section \<open>Construction and events\<close>

definition newModbusPage :: "'s \<Rightarrow> 's modbus_page option" where
  "newModbusPage sk =
     updateModbusLabels False (onModbusFunctionChanged
       \<lparr>pg_modbus = mb_setRequestTimeoutMs 1000 (newModbusConnection sk), pg_table = \<lparr>ct_columns = 7, ct_cells = []\<rparr>,
        pg_host = ''127.0.0.1'', pg_port = 5020, pg_timeout = 1000, pg_slaveId = 1, pg_registerStart = 0, pg_count = 5,
        pg_pollRate = 2000, pg_function = kFunctionReadHoldingRegisters, pg_pollInterval = 2000, pg_showsConnected = False,
        pg_writeResult = ''Last write: -'', pg_dialog = None\<rparr>)"

text \<open>A spin box keeps its value in its range.\<close>

definition spin :: "int \<Rightarrow> int \<Rightarrow> int \<Rightarrow> int" where
  "spin lo hi v = max lo (min hi v)"

datatype 's page_event =
    ConnectClicked
  | HostEdited string
  | PortChanged int
  | TimeoutChanged int
  | SlaveIdChanged int
  | StartChanged int
  | CountChanged int
  | PollRateChanged int
  | FunctionChanged nat
  | NameEdited nat string
  | DoubleClicked nat
  | DialogSend bool string
  | DialogCancel
  | PollTimer
  | SocketConnected
  | SocketError
  | ReadyRead
  | RequestTimeout
  | Heartbeat
  | Reconnect
  | SocketChanges 's

fun is_control :: "'s page_event \<Rightarrow> bool" where
  "is_control PollTimer = False"
| "is_control SocketConnected = False"
| "is_control SocketError = False"
| "is_control ReadyRead = False"
| "is_control RequestTimeout = False"
| "is_control Heartbeat = False"
| "is_control Reconnect = False"
| "is_control (SocketChanges _) = False"
| "is_control (DialogSend _ _) = False"
| "is_control DialogCancel = False"
| "is_control _ = True"

fun page_handle ::
  "'s socket_ops \<Rightarrow> (string \<Rightarrow> int option) \<Rightarrow> 's modbus_page \<Rightarrow> 's page_event \<Rightarrow> 's modbus_page option" where
  "page_handle ops toInt p ConnectClicked = onModbusConnectClicked ops p"
| "page_handle ops toInt p (HostEdited h) = Some (p\<lparr>pg_host := h\<rparr>)"
| "page_handle ops toInt p (PortChanged v) = Some (p\<lparr>pg_port := spin 1 65535 v\<rparr>)"
| "page_handle ops toInt p (TimeoutChanged v) =
     with_modbus (mb_setRequestTimeoutMs (spin 100 30000 v) (pg_modbus p)) (p\<lparr>pg_timeout := spin 100 30000 v\<rparr>)"
| "page_handle ops toInt p (SlaveIdChanged v) = Some (p\<lparr>pg_slaveId := spin 0 255 v\<rparr>)"
| "page_handle ops toInt p (StartChanged v) =
     Some (let v = spin 0 65535 v in if v = pg_registerStart p then p else rebuildModbusTableRows (p\<lparr>pg_registerStart := v\<rparr>))"
| "page_handle ops toInt p (CountChanged v) =
     Some (let v = spin 1 125 v in if v = pg_count p then p else rebuildModbusTableRows (p\<lparr>pg_count := v\<rparr>))"
| "page_handle ops toInt p (PollRateChanged v) =
     Some (p\<lparr>pg_pollRate := spin 100 60000 v, pg_pollInterval := spin 100 60000 v\<rparr>)"
| "page_handle ops toInt p (FunctionChanged f) =
     Some (if f < 8 \<and> f \<noteq> pg_function p then onModbusFunctionChanged (p\<lparr>pg_function := f\<rparr>) else p)"
| "page_handle ops toInt p (NameEdited row txt) =
     Some (case setText row (ct_columns (pg_table p) - 1) txt (pg_table p) of None \<Rightarrow> p | Some t \<Rightarrow> p\<lparr>pg_table := t\<rparr>)"
| "page_handle ops toInt p (DoubleClicked row) = Some (if row < rowCount (pg_table p) then onModbusTableDoubleClicked row p else p)"
| "page_handle ops toInt p (DialogSend coilOn txt) =
     (case pg_dialog p of None \<Rightarrow> Some p | Some d \<Rightarrow> dialogSend ops toInt d coilOn txt p)"
| "page_handle ops toInt p DialogCancel = Some (p\<lparr>pg_dialog := None\<rparr>)"
| "page_handle ops toInt p PollTimer = pollModbusRegisters ops p"
| "page_handle ops toInt p SocketConnected = with_modbus (mb_onSocketConnected (pg_modbus p)) p"
| "page_handle ops toInt p SocketError = with_modbus (mb_onSocketError ops (pg_modbus p)) p"
| "page_handle ops toInt p ReadyRead =
     (case mb_onSocketReadyRead ops (pg_modbus p) of None \<Rightarrow> None | Some m \<Rightarrow> with_modbus m p)"
| "page_handle ops toInt p RequestTimeout =
     (let m = pg_modbus p
      in if mb_requestTimer (world m) = None then Some p
         else with_modbus (mb_onRequestTimeout (m\<lparr>world := (world m)\<lparr>mb_requestTimer := None\<rparr>\<rparr>)) p)"
| "page_handle ops toInt p Heartbeat = with_modbus (cs_step (pg_modbus p) HeartbeatTick) p"
| "page_handle ops toInt p Reconnect = with_modbus (cs_step (pg_modbus p) ReconnectTick) p"
| "page_handle ops toInt p (SocketChanges sk) =
     with_modbus ((pg_modbus p)\<lparr>world := (world (pg_modbus p))\<lparr>mb_socket := sk\<rparr>\<rparr>) p"

text \<open>While the dialog is open the controls of the window do not react.\<close>

definition page_step ::
  "'s socket_ops \<Rightarrow> (string \<Rightarrow> int option) \<Rightarrow> 's modbus_page \<Rightarrow> 's page_event \<Rightarrow> 's modbus_page option" where
  "page_step ops toInt p e = (if pg_dialog p \<noteq> None \<and> is_control e then Some p else page_handle ops toInt p e)"

end
