(* ===== verification/Demo_Modbus_Safe.thy ===== *)
theory Demo_Modbus_Safe
  imports Demo_Modbus
begin

text \<open>
  What holds of the Modbus page: as long as the function is not changed to another family while a register read is pending, no
  missing table item is ever used, and the table has the shape of the function. The change crashes the page
  when the answer arrives.
\<close>

section \<open>Full tables\<close>

definition full_table :: "cell_table \<Rightarrow> bool" where
  "full_table t \<longleftrightarrow> (\<forall>r \<in> set (ct_cells t). length r = ct_columns t \<and> (\<forall>c \<in> set r. c \<noteq> None))"

definition same_shape :: "cell_table \<Rightarrow> cell_table \<Rightarrow> bool" where
  "same_shape t t' \<longleftrightarrow> full_table t' \<and> ct_columns t' = ct_columns t \<and> rowCount t' = rowCount t"

lemma same_shape_refl: "full_table t \<Longrightarrow> same_shape t t"
  by (simp add: same_shape_def)

lemma item_full: "full_table t \<Longrightarrow> row < rowCount t \<Longrightarrow> col < ct_columns t \<Longrightarrow> item t row col \<noteq> None"
  unfolding full_table_def item_def rowCount_def using nth_mem by fastforce

lemma setText_full:
  assumes "same_shape t0 t" and "row < rowCount t0" and "col < ct_columns t0"
  shows "\<exists>t'. setText row col tx t = Some t' \<and> same_shape t0 t'"
proof -
  have f: "full_table t" "row < rowCount t" "col < ct_columns t" using assms by (simp_all add: same_shape_def)
  then obtain s where s: "item t row col = Some s" using item_full [of t row col] by auto
  let ?t = "t\<lparr>ct_cells := (ct_cells t)[row := (ct_cells t ! row)[col := Some tx]]\<rparr>"
  have r: "ct_cells t ! row \<in> set (ct_cells t)" using f(2) by (simp add: rowCount_def)
  have "\<forall>r \<in> set (ct_cells ?t). length r = ct_columns ?t \<and> (\<forall>c \<in> set r. c \<noteq> None)"
  proof
    fix r assume "r \<in> set (ct_cells ?t)"
    then consider "r \<in> set (ct_cells t)" | "r = (ct_cells t ! row)[col := Some tx]"
      using set_update_subset_insert [of "ct_cells t" row] by auto
    then show "length r = ct_columns ?t \<and> (\<forall>c \<in> set r. c \<noteq> None)"
    proof cases
      case 1
      then show ?thesis using f(1) by (simp add: full_table_def)
    next
      case 2
      then show ?thesis using f(1) r set_update_subset_insert [of "ct_cells t ! row" col "Some tx"]
        by (auto simp: full_table_def)
    qed
  qed
  then have "same_shape t0 ?t" using assms(1) by (simp add: same_shape_def full_table_def rowCount_def)
  then show ?thesis using s by (simp add: setText_def)
qed

lemma loopM_total:
  assumes "\<And>x t. x \<in> set xs \<Longrightarrow> I t \<Longrightarrow> \<exists>t'. f x t = Some t' \<and> I t'" and "I t"
  shows "\<exists>t'. loopM f xs t = Some t' \<and> I t'"
  using assms
proof (induction xs arbitrary: t)
  case Nil
  then show ?case by simp
next
  case (Cons x xs)
  obtain t' where "f x t = Some t'" "I t'" using Cons.prems(1) [of x t] Cons.prems(2) by auto
  then show ?case using Cons.IH [of t'] Cons.prems(1) by auto
qed

lemma updateRegisterRow_full:
  assumes "same_shape t0 t" and "row < rowCount t0" and "ct_columns t0 = 7"
  shows "\<exists>t'. updateRegisterRow registers row t = Some t' \<and> same_shape t0 t'"
proof -
  have s: "\<exists>t'. setText row col tx t = Some t' \<and> same_shape t0 t'" if "same_shape t0 t" "col < 7" for col tx t
    using setText_full [OF that(1) assms(2)] that(2) assms(3) by simp
  obtain t1 where t1: "setText row 1 (dec_digits (unat (registers ! row))) t = Some t1" "same_shape t0 t1"
    using s [OF assms(1), where col = 1 and tx = "dec_digits (unat (registers ! row))"] by auto
  show ?thesis
  proof (cases "row + 1 < length registers")
    case True
    let ?v = "registers ! row" and ?n = "registers ! (row + 1)"
    obtain t2 where t2: "setText row 2 (number32 (joinWords ?v ?n)) t1 = Some t2" "same_shape t0 t2"
      using s [OF t1(2), where col = 2 and tx = "number32 (joinWords ?v ?n)"] by auto
    obtain t3 where t3: "setText row 3 (number32 (joinWords (swapBytes ?n) (swapBytes ?v))) t2 = Some t3" "same_shape t0 t3"
      using s [OF t2(2), where col = 3 and tx = "number32 (joinWords (swapBytes ?n) (swapBytes ?v))"] by auto
    obtain t4 where t4: "setText row 4 (number32 (joinWords ?n ?v)) t3 = Some t4" "same_shape t0 t4"
      using s [OF t3(2), where col = 4 and tx = "number32 (joinWords ?n ?v)"] by auto
    obtain t5 where "setText row 5 (number32 (joinWords (swapBytes ?v) (swapBytes ?n))) t4 = Some t5" "same_shape t0 t5"
      using s [OF t4(2), where col = 5 and tx = "number32 (joinWords (swapBytes ?v) (swapBytes ?n))"] by auto
    then show ?thesis using True t1(1) t2(1) t3(1) t4(1) by (simp add: updateRegisterRow_def)
  next
    case False
    have "\<exists>t'. loopM (\<lambda>col t. setText row col ''-'' t) [2..<6] t1 = Some t' \<and> same_shape t0 t'"
      by (rule loopM_total [where I = "same_shape t0"], rule s) (auto simp: t1(2))
    then show ?thesis using False t1(1) by (simp add: updateRegisterRow_def)
  qed
qed

section \<open>The shape of the page\<close>

definition columns_for :: "nat \<Rightarrow> nat" where
  "columns_for f = (if f \<ge> 4 then 2 else if f < 2 then 3 else 7)"

definition page_ok :: "'s modbus_page \<Rightarrow> bool" where
  "page_ok p \<longleftrightarrow> full_table (pg_table p) \<and> ct_columns (pg_table p) = columns_for (pg_function p)
     \<and> rowCount (pg_table p) = nat (pg_count p) \<and> pg_function p < 8
     \<and> 1 \<le> pg_count p \<and> pg_count p \<le> 125 \<and> 0 \<le> pg_registerStart p \<and> pg_registerStart p \<le> 65535"

lemma page_ok_edit [simp]:
  "page_ok (p\<lparr>pg_host := h\<rparr>) = page_ok p" "page_ok (p\<lparr>pg_port := n\<rparr>) = page_ok p" "page_ok (p\<lparr>pg_timeout := n\<rparr>) = page_ok p"
  "page_ok (p\<lparr>pg_slaveId := n\<rparr>) = page_ok p" "page_ok (p\<lparr>pg_pollRate := n\<rparr>) = page_ok p" "page_ok (p\<lparr>pg_pollInterval := n\<rparr>) = page_ok p"
  "page_ok (p\<lparr>pg_dialog := d\<rparr>) = page_ok p" "page_ok (p\<lparr>pg_modbus := m\<rparr>) = page_ok p" "page_ok (p\<lparr>pg_showsConnected := b\<rparr>) = page_ok p"
  by (simp_all add: page_ok_def)

lemma columns_for_ge [simp]: "2 \<le> columns_for f" "0 < columns_for f" "Suc 0 < columns_for f"
  by (simp_all add: columns_for_def)

lemma full_rebuilt: "0 < n \<Longrightarrow> full_table \<lparr>ct_columns = n, ct_cells = map (\<lambda>row. rebuiltRow n (g row)) rows\<rparr>"
  by (auto simp: full_table_def rebuiltRow_def Let_def)

text \<open>What only changes the table within its shape, and the driver.\<close>

definition page_kept :: "'s modbus_page \<Rightarrow> 's modbus_page \<Rightarrow> bool" where
  "page_kept p p' \<longleftrightarrow> same_shape (pg_table p) (pg_table p') \<and> pg_function p' = pg_function p \<and> pg_count p' = pg_count p
     \<and> pg_registerStart p' = pg_registerStart p \<and> pg_modbus p' = pg_modbus p \<and> pg_dialog p' = pg_dialog p"

lemma page_kept_ok: "page_ok p \<Longrightarrow> page_kept p p' \<Longrightarrow> page_ok p'"
  by (simp add: page_ok_def page_kept_def same_shape_def)

lemma page_kept_trans: "page_kept p p' \<Longrightarrow> page_kept p' p'' \<Longrightarrow> page_kept p p''"
  by (simp add: page_kept_def same_shape_def)

lemma page_kept_refl: "page_ok p \<Longrightarrow> page_kept p p"
  by (simp add: page_ok_def page_kept_def same_shape_def)

lemma clear_kept:
  assumes "page_ok p"
  shows "\<exists>p'. clearModbusTableValues p = Some p' \<and> page_kept p p'"
proof -
  let ?t0 = "pg_table p"
  have "\<exists>t'. loopM (\<lambda>row t. loopM (\<lambda>col t. setText row col ''-'' t) [1..<ct_columns ?t0 - 1] t) [0..<rowCount ?t0] ?t0 = Some t'
      \<and> same_shape ?t0 t'"
  proof (rule loopM_total [where I = "same_shape ?t0"])
    fix row t
    assume r: "row \<in> set [0..<rowCount ?t0]" and t: "same_shape ?t0 t"
    show "\<exists>t'. loopM (\<lambda>col t. setText row col ''-'' t) [1..<ct_columns ?t0 - 1] t = Some t' \<and> same_shape ?t0 t'"
      by (rule loopM_total [where I = "same_shape ?t0"], rule setText_full) (use r t in auto)
  qed (use assms in \<open>simp add: same_shape_def page_ok_def\<close>)
  then show ?thesis by (auto simp: clearModbusTableValues_def page_kept_def)
qed

lemma registers_kept:
  assumes "page_ok p" and "ct_columns (pg_table p) = 7"
  shows "\<exists>p'. updateModbusRegisterTableValues registers p = Some p' \<and> page_kept p p'"
proof -
  let ?t0 = "pg_table p"
  have "\<exists>t'. loopM (updateRegisterRow registers) [0..<min (length registers) (rowCount ?t0)] ?t0 = Some t' \<and> same_shape ?t0 t'"
    by (rule loopM_total [where I = "same_shape ?t0"], rule updateRegisterRow_full) (use assms in \<open>auto simp: same_shape_def page_ok_def\<close>)
  then show ?thesis by (auto simp: updateModbusRegisterTableValues_def page_kept_def)
qed

lemma coils_kept:
  assumes "page_ok p"
  shows "\<exists>p'. updateModbusCoilTableValues bits p = Some p' \<and> page_kept p p'"
proof -
  let ?t0 = "pg_table p"
  have "\<exists>t'. loopM (\<lambda>row t. setText row 1 (if bits ! row then ''ON'' else ''OFF'') t)
      [0..<min (length bits) (rowCount ?t0)] ?t0 = Some t' \<and> same_shape ?t0 t'"
    by (rule loopM_total [where I = "same_shape ?t0"], rule setText_full) (use assms in \<open>auto simp: same_shape_def page_ok_def\<close>)
  then show ?thesis by (auto simp: updateModbusCoilTableValues_def page_kept_def)
qed

lemma labels_kept:
  assumes "page_ok p"
  shows "\<exists>p'. updateModbusLabels ready p = Some p' \<and> page_kept p p'"
proof -
  let ?p = "p\<lparr>pg_showsConnected := ready\<rparr>"
  have "page_ok ?p" "page_kept p ?p" using assms by (simp_all add: page_ok_def page_kept_def same_shape_def)
  then show ?thesis using clear_kept [of ?p] page_kept_trans by (fastforce simp: updateModbusLabels_def Let_def)
qed

text \<open>Only an answer to a register read needs the seven columns.\<close>

definition register_read :: "PendingRequest \<Rightarrow> bool" where
  "register_read k \<longleftrightarrow> k = PReadHoldingRegisters \<or> k = PReadInputRegisters"

lemma slot_kept:
  assumes "page_ok p" and "(\<exists>b. sig = MbConnectionStateChanged b) \<or> answers k sig"
    and "register_read k \<longrightarrow> ct_columns (pg_table p) = 7"
  shows "\<exists>p'. modbus_slot sig p = Some p' \<and> page_kept p p'"
proof -
  have w: "\<exists>p'. writeResult tx p = Some p' \<and> page_kept p p'" for tx
    using assms(1) by (simp add: writeResult_def page_ok_def page_kept_def same_shape_def)
  show ?thesis
    using assms clear_kept [OF assms(1)] coils_kept [OF assms(1)] labels_kept [OF assms(1)] registers_kept [OF assms(1)]
    by (cases sig) (simp_all add: w answers_def register_read_def)
qed

lemma slots_kept:
  assumes "page_ok p" and "\<forall>sig \<in> set sigs. (\<exists>b. sig = MbConnectionStateChanged b) \<or> answers k sig"
    and "register_read k \<longrightarrow> ct_columns (pg_table p) = 7"
  shows "\<exists>p'. loopM modbus_slot sigs p = Some p' \<and> page_kept p p'"
proof (rule loopM_total [where I = "page_kept p"])
  fix sig q
  assume sig: "sig \<in> set sigs" and q: "page_kept p q"
  have s: "(\<exists>b. sig = MbConnectionStateChanged b) \<or> answers k sig" using assms(2) sig by blast
  have "page_ok q" "register_read k \<longrightarrow> ct_columns (pg_table q) = 7"
    using page_kept_ok [OF assms(1) q] assms(3) q by (simp_all add: page_kept_def same_shape_def)
  from slot_kept [OF this(1) s this(2)] show "\<exists>q'. modbus_slot sig q = Some q' \<and> page_kept p q'"
    using page_kept_trans [OF q] by blast
qed (rule page_kept_refl [OF assms(1)])

section \<open>What the driver sends\<close>

definition driven :: "PendingRequest \<Rightarrow> mb_signal list \<Rightarrow> 's modbus \<Rightarrow> bool" where
  "driven k sent m \<longleftrightarrow> mb_inv m \<and> mb_pendingRequest (world m) \<in> {k, NoRequest}
     \<and> (\<exists>sigs. mb_emitted (world m) = sent @ sigs
          \<and> (\<forall>sig \<in> set sigs. (\<exists>b. sig = MbConnectionStateChanged b) \<or> answers k sig))"

text \<open>The operations of ConnectionState only announce states.\<close>

definition announces :: "PendingRequest \<Rightarrow> mb_signal list \<Rightarrow> 's mb_world \<Rightarrow> bool" where
  "announces k sent w \<longleftrightarrow> mb_pendingRequest w \<in> {k, NoRequest}
     \<and> (\<exists>bs. mb_emitted w = sent @ map MbConnectionStateChanged bs)"

lemma keeps_announces:
  fixes m :: "'s modbus"
  assumes "mb_inv m" and "announces k sent (world m)"
  shows "cs_keeps (announces k sent) m"
proof -
  have c: "announces k sent w' = announces k sent w" if "mb_core w' = mb_core w" for w w' :: "'s mb_world"
    using that by (simp add: announces_def mb_core_def)
  have s: "announces k sent (mb_onStateChanged b w)" if a: "announces k sent w" for b and w :: "'s mb_world"
  proof -
    obtain bs where "mb_emitted w = sent @ map MbConnectionStateChanged bs" using a by (auto simp: announces_def)
    then have "mb_emitted (mb_onStateChanged b w) = sent @ map MbConnectionStateChanged (bs @ [b])"
      by (simp add: mb_onStateChanged_def Let_def)
    then have "\<exists>cs. mb_emitted (mb_onStateChanged b w) = sent @ map MbConnectionStateChanged cs" by blast
    moreover have "mb_pendingRequest (mb_onStateChanged b w) \<in> {k, NoRequest}"
      using a by (simp add: announces_def mb_onStateChanged_def Let_def)
    ultimately show ?thesis by (simp only: announces_def)
  qed
  show ?thesis
    unfolding cs_keeps_def wired_mb_inv [OF assms(1)]
  proof (intro conjI allI impI)
    show "announces k sent (snd (f w))" if "m_connect m = Some f" "announces k sent w" for f w
      using c [OF callable_core(1) [OF assms(1) that(1)]] that(2) by simp
    show "announces k sent (snd (f w))" if "m_probe m = Some f" "announces k sent w" for f w
      using c [OF callable_core(2) [OF assms(1) that(1)]] that(2) by simp
    show "announces k sent (f w)" if "m_disconnect m = Some f" "announces k sent w" for f w
      using c [OF callable_core(3) [OF assms(1) that(1)]] that(2) by simp
  qed (use assms(2) s in simp_all)
qed

lemma announces_driven: "mb_inv m \<Longrightarrow> cs_keeps (announces k sent) m \<Longrightarrow> driven k sent m"
  unfolding cs_keeps_def announces_def driven_def by auto

lemma driven_start: "mb_inv m \<Longrightarrow> announces (mb_pendingRequest (world m)) (mb_emitted (world m)) (world m)"
  by (simp add: announces_def)

lemma driven_ops:
  assumes "mb_inv m"
  defines "K \<equiv> mb_pendingRequest (world m)" and "E \<equiv> mb_emitted (world m)"
  shows "driven K E (cs_step m HeartbeatTick)" and "driven K E (cs_step m ReconnectTick)"
    and "driven K E (mb_onSocketConnected m)" and "driven K E (mb_onSocketError ops m)"
    and "driven K E (mb_disconnectNow ops m)" and "driven K E (mb_connectToHost ops host port m)"
    and "driven K E (mb_setRequestTimeoutMs ms m)" and "driven K E (m\<lparr>world := (world m)\<lparr>mb_socket := sk\<rparr>\<rparr>)"
proof -
  have k: "cs_keeps (announces K E) m" unfolding K_def E_def by (rule keeps_announces [OF assms(1) driven_start [OF assms(1)]])
  show "driven K E (cs_step m HeartbeatTick)" "driven K E (cs_step m ReconnectTick)"
    using ticks_keep [OF k] mbi.K_ticks [OF assms(1)] announces_driven by blast+
  show "driven K E (mb_onSocketConnected m)"
    unfolding mb_onSocketConnected_def by (rule announces_driven [OF mbi.K_report [OF assms(1)] reportPending_keeps [OF k]])
  have w: "cs_keeps (announces K E) (m\<lparr>world := (world m)\<lparr>mb_error := e\<rparr>\<rparr>)" for e
    using k by (intro cs_keeps_world) (simp_all add: cs_keeps_def announces_def)
  show "driven K E (mb_onSocketError ops m)"
    by (rule announces_driven [OF mb_onSocketError_inv [OF assms(1)]])
       (unfold mb_onSocketError_def, rule reportPending_keeps, rule w)
  show "driven K E (mb_setRequestTimeoutMs ms m)" "driven K E (m\<lparr>world := (world m)\<lparr>mb_socket := sk\<rparr>\<rparr>)"
    using assms(1) mb_inv_core [OF assms(1)] by (simp_all add: driven_def K_def E_def mb_setRequestTimeoutMs_def mb_core_def)
  have "cs_keeps (announces K E) (disconnectNow m)" by (rule disconnectNow_keeps [OF k])
  then show "driven K E (mb_disconnectNow ops m)"
    using mb_disconnectNow_inv [OF assms(1), of ops]
    by (intro announces_driven) (auto simp: mb_disconnectNow_def Let_def cs_keeps_def announces_def)
  have h: "mb_pendingRequest (snd (mb_connectHandler ops host port w)) = mb_pendingRequest w"
    "mb_emitted (snd (mb_connectHandler ops host port w)) = mb_emitted w" for w
    using connectHandler_core [of ops host port w] by (simp_all add: mb_core_def)
  have "cs_keeps (announces K E) (mb_connectToHost ops host port m)"
    unfolding mb_connectToHost_def Let_def
    by (rule beginAutoConnect_keeps)
       (use k in \<open>simp add: cs_keeps_def setHandlers_def announces_def E_def wired_mb_inv [OF assms(1)] h\<close>)
  then show "driven K E (mb_connectToHost ops host port m)"
    using mb_connectToHost_inv [OF assms(1)] announces_driven by blast
qed

lemma driven_answer: "mb_inv m' \<Longrightarrow> mb_answered m m' \<Longrightarrow> driven (mb_pendingRequest (world m)) (mb_emitted (world m)) m'"
  by (auto simp: mb_answered_def driven_def)

lemma driven_timeout:
  assumes "mb_inv m"
  shows "driven (mb_pendingRequest (world m)) (mb_emitted (world m))
    (mb_onRequestTimeout (m\<lparr>world := (world m)\<lparr>mb_requestTimer := None\<rparr>\<rparr>))"
proof (cases "mb_pendingRequest (world m) = NoRequest")
  case True
  then show ?thesis using mb_onRequestTimeout_inv [OF assms] by (simp add: driven_def mb_onRequestTimeout_def Let_def)
next
  case False
  then show ?thesis using driven_answer [OF mb_onRequestTimeout_inv [OF assms] timeout_answers] by blast
qed

lemma driven_read:
  assumes "mb_inv m"
  shows "\<exists>m'. mb_onSocketReadyRead ops m = Some m' \<and> driven (mb_pendingRequest (world m)) (mb_emitted (world m)) m'"
proof -
  let ?k = "mb_pendingRequest (world m)" and ?sk = "mb_socket (world m)"
  let ?c = "fst (sock_readAll ops ?sk)"
  let ?m = "mb_appendChunk ?c (m\<lparr>world := (world m)\<lparr>mb_socket := snd (sock_readAll ops ?sk)\<rparr>\<rparr>)"
  have rd: "mb_onSocketReadyRead ops m = dispatchResponse ?m"
    using mb_onSocketReadyRead_at [where ops = ops and m = m and sk = ?sk] by simp
  obtain m' where m': "mb_onSocketReadyRead ops m = Some m'" unfolding rd using dispatch_total by blast
  have inv: "mb_inv m'" by (rule mb_onSocketReadyRead_inv [OF assms m'])
  show ?thesis
  proof (cases "?k = NoRequest")
    case True
    then have "m' = ?m\<lparr>world := (world ?m)\<lparr>mb_readBuffer := []\<rparr>\<rparr>" using m' unfolding rd by (simp add: dispatchResponse_def)
    then show ?thesis using m' inv True by (simp add: driven_def)
  next
    case False
    obtain v where v: "mb_verdict ?k (mb_readBuffer (world m) @ ?c) = Some v" using mbv.dec_total by blast
    have "dispatchResponse ?m = Some (if undecided v then ?m else mb_settle (snd v) ?m)"
      by (rule dispatch_verdict [OF _ False]) (use v in simp_all)
    then have "m' = (if undecided v then ?m else mb_settle (snd v) ?m)" using m' rd by simp
    then show ?thesis using m' inv verdict_answers [OF False v] by (auto simp: driven_def mb_settle_def)
  qed
qed

text \<open>A request is silent.\<close>

definition asks :: "PendingRequest \<Rightarrow> 's modbus \<Rightarrow> 's modbus \<Rightarrow> bool" where
  "asks k m m' \<longleftrightarrow> mb_inv m' \<and> mb_emitted (world m') = mb_emitted (world m)
     \<and> mb_pendingRequest (world m') \<in> {mb_pendingRequest (world m), k}"

lemma sendRequest_asks: "mb_inv m \<Longrightarrow> k \<noteq> NoRequest \<Longrightarrow> asks k m (sendRequest ops k enc m)"
  using sendRequest_inv [of k "\<lambda>_. True" m ops enc] by (auto simp: asks_def sendRequest_def Let_def)

lemma requests_ask:
  assumes "mb_inv m"
  shows "asks PReadCoils m (readCoils ops u a n m)" and "asks PReadDiscreteInputs m (readDiscreteInputs ops u a n m)"
    and "asks PReadHoldingRegisters m (readHoldingRegisters ops u a n m)" and "asks PReadInputRegisters m (readInputRegisters ops u a n m)"
    and "asks PWriteSingleCoil m (writeSingleCoil ops u a b m)" and "asks PWriteSingleRegister m (writeSingleRegister ops u a v m)"
    and "asks PWriteMultipleCoils m (writeMultipleCoils ops u a bs m)" and "asks PWriteMultipleRegisters m (writeMultipleRegisters ops u a vs m)"
  unfolding request_defs by (rule sendRequest_asks [OF assms]; simp)+

section \<open>The invariant of the page\<close>

definition page_inv :: "'s modbus_page \<Rightarrow> bool" where
  "page_inv p \<longleftrightarrow> page_ok p \<and> mb_inv (pg_modbus p)
     \<and> (register_read (mb_pendingRequest (world (pg_modbus p))) \<longrightarrow> ct_columns (pg_table p) = 7)"

lemma page_inv_ok: "page_inv p \<Longrightarrow> page_ok p" "page_inv p \<Longrightarrow> mb_inv (pg_modbus p)"
  by (simp_all add: page_inv_def)

lemma with_modbus_kept:
  assumes "page_inv p" and "driven (mb_pendingRequest (world (pg_modbus p))) (mb_emitted (world (pg_modbus p))) m"
  shows "\<exists>p'. with_modbus m p = Some p' \<and> page_inv p' \<and> page_kept (p\<lparr>pg_modbus := m\<rparr>) p'"
proof -
  let ?k = "mb_pendingRequest (world (pg_modbus p))"
  let ?p = "p\<lparr>pg_modbus := m\<rparr>"
  obtain sigs where sigs: "mb_emitted (world m) = mb_emitted (world (pg_modbus p)) @ sigs"
      "\<forall>sig \<in> set sigs. (\<exists>b. sig = MbConnectionStateChanged b) \<or> answers ?k sig"
    using assms(2) by (auto simp: driven_def)
  have p: "page_ok ?p" "register_read ?k \<longrightarrow> ct_columns (pg_table ?p) = 7"
    using assms(1) by (simp_all add: page_inv_def)
  obtain p' where p': "loopM modbus_slot sigs ?p = Some p'" "page_kept ?p p'" using slots_kept [OF p(1) sigs(2) p(2)] by blast
  have "page_ok p'" by (rule page_kept_ok [OF p(1) p'(2)])
  moreover have "mb_pendingRequest (world m) = ?k \<or> mb_pendingRequest (world m) = NoRequest" using assms(2) by (simp add: driven_def)
  ultimately have "page_inv p'" using p'(2) p(2) assms(2)
    by (auto simp: page_inv_def page_kept_def same_shape_def driven_def register_read_def)
  then show ?thesis using p' sigs(1) by (simp add: with_modbus_def)
qed

lemma with_modbus_inv:
  "page_inv p \<Longrightarrow> driven (mb_pendingRequest (world (pg_modbus p))) (mb_emitted (world (pg_modbus p))) m \<Longrightarrow>
   \<exists>p'. with_modbus m p = Some p' \<and> page_inv p'"
  using with_modbus_kept by blast

lemma with_request_inv:
  assumes "page_inv p" and "asks k (pg_modbus p) m" and "register_read k \<longrightarrow> ct_columns (pg_table p) = 7"
  shows "\<exists>p'. with_modbus m p = Some p' \<and> page_inv p'"
proof -
  have "page_ok (p\<lparr>pg_modbus := m\<rparr>)" using assms(1) by (simp add: page_inv_def)
  moreover have "register_read (mb_pendingRequest (world m)) \<longrightarrow> ct_columns (pg_table p) = 7"
    using assms by (auto simp: asks_def page_inv_def)
  ultimately show ?thesis using assms(2) by (simp add: with_modbus_def asks_def page_inv_def)
qed

lemma labels_inv: "page_inv p \<Longrightarrow> \<exists>p'. updateModbusLabels b p = Some p' \<and> page_inv p'"
  using labels_kept [of p b] page_kept_ok by (fastforce simp: page_inv_def page_kept_def same_shape_def)

lemma rebuild_ok:
  assumes "ct_columns (pg_table p) = columns_for (pg_function p)" and "pg_function p < 8" and "1 \<le> pg_count p" and "pg_count p \<le> 125"
    and "0 \<le> pg_registerStart p" and "pg_registerStart p \<le> 65535"
  shows "page_ok (rebuildModbusTableRows p) \<and> pg_modbus (rebuildModbusTableRows p) = pg_modbus p
    \<and> ct_columns (pg_table (rebuildModbusTableRows p)) = columns_for (pg_function p)"
  using assms full_rebuilt [of "columns_for (pg_function p)" "\<lambda>row. pg_registerStart p + int row" "[0..<nat (pg_count p)]"]
  by (simp add: rebuildModbusTableRows_def page_ok_def full_table_def rowCount_def Let_def)

lemma function_changed_ok:
  assumes "page_ok p" and "f < 8"
  shows "page_ok (onModbusFunctionChanged (p\<lparr>pg_function := f\<rparr>))
    \<and> pg_modbus (onModbusFunctionChanged (p\<lparr>pg_function := f\<rparr>)) = pg_modbus p
    \<and> ct_columns (pg_table (onModbusFunctionChanged (p\<lparr>pg_function := f\<rparr>))) = columns_for f"
proof -
  let ?n = "if 4 \<le> f then 2 else if f = 0 \<or> f = 1 then 3 else 7"
  let ?q = "p\<lparr>pg_function := f, pg_table := setColumnCount ?n (pg_table p)\<rparr>"
  have "?n = columns_for f" by (auto simp: columns_for_def)
  then have "page_ok (rebuildModbusTableRows ?q) \<and> pg_modbus (rebuildModbusTableRows ?q) = pg_modbus ?q
      \<and> ct_columns (pg_table (rebuildModbusTableRows ?q)) = columns_for (pg_function ?q)"
    using assms by (intro rebuild_ok) (simp_all add: page_ok_def setColumnCount_def)
  moreover have "onModbusFunctionChanged (p\<lparr>pg_function := f\<rparr>) = rebuildModbusTableRows ?q"
    by (simp add: onModbusFunctionChanged_def isModbusWriteFunction_def isModbusCoilFunction_def function_indices)
  ultimately show ?thesis by simp
qed

text \<open>The function is not changed away from the register functions while a register read is pending.\<close>

fun careful :: "'s modbus_page \<Rightarrow> 's page_event \<Rightarrow> bool" where
  "careful p (FunctionChanged f) = (register_read (mb_pendingRequest (world (pg_modbus p))) \<longrightarrow> f = 2 \<or> f = 3)"
| "careful p _ = True"

lemma page_inv_edit:
  assumes "page_inv p"
  shows "page_inv (p\<lparr>pg_host := h\<rparr>)" "page_inv (p\<lparr>pg_port := n\<rparr>)" "page_inv (p\<lparr>pg_timeout := n\<rparr>)" "page_inv (p\<lparr>pg_slaveId := n\<rparr>)"
    "page_inv (p\<lparr>pg_pollRate := n, pg_pollInterval := n'\<rparr>)" "page_inv (p\<lparr>pg_dialog := d\<rparr>)"
  using assms by (simp_all add: page_inv_def)

lemma rebuild_inv:
  assumes "page_inv p" and "q = p\<lparr>pg_count := n, pg_registerStart := a\<rparr>" and "1 \<le> n" and "n \<le> 125" and "0 \<le> a" and "a \<le> 65535"
  shows "page_inv (rebuildModbusTableRows q)"
proof -
  have c: "ct_columns (pg_table p) = columns_for (pg_function p)" "pg_function p < 8" using assms(1) by (simp_all add: page_inv_def page_ok_def)
  then have "page_ok (rebuildModbusTableRows q) \<and> pg_modbus (rebuildModbusTableRows q) = pg_modbus p
      \<and> ct_columns (pg_table (rebuildModbusTableRows q)) = columns_for (pg_function p)"
    using rebuild_ok [of q] assms(2-6) by simp
  then show ?thesis using assms(1) c by (simp add: page_inv_def)
qed

lemma spin_range: "lo \<le> hi \<Longrightarrow> lo \<le> spin lo hi v \<and> spin lo hi v \<le> hi"
  by (simp add: spin_def)

lemma connect_clicked_inv:
  assumes "page_inv p"
  shows "\<exists>p'. onModbusConnectClicked ops p = Some p' \<and> page_inv p'"
proof -
  let ?m = "if mb_isReady (pg_modbus p) then mb_disconnectNow ops (pg_modbus p)
            else mb_connectToHost ops (pg_host p) (of_int (pg_port p)) (pg_modbus p)"
  have "driven (mb_pendingRequest (world (pg_modbus p))) (mb_emitted (world (pg_modbus p))) ?m"
    by (simp add: driven_ops(5,6) [OF page_inv_ok(2) [OF assms]])
  then obtain q where q: "with_modbus ?m p = Some q" "page_inv q" using with_modbus_inv [OF assms] by blast
  then show ?thesis using labels_inv [OF q(2)] by (simp add: onModbusConnectClicked_def)
qed

lemma poll_inv:
  assumes "page_inv p"
  shows "\<exists>p'. pollModbusRegisters ops p = Some p' \<and> page_inv p'"
proof -
  note ask = requests_ask [OF page_inv_ok(2) [OF assms]]
  have c: "ct_columns (pg_table p) = columns_for (pg_function p)" using assms by (simp add: page_inv_def page_ok_def)
  have own: "\<exists>p'. with_modbus (pg_modbus p) p = Some p' \<and> page_inv p'" using assms by (simp add: with_modbus_def)
  show ?thesis
    unfolding pollModbusRegisters_def Let_def
    using assms own c with_request_inv [OF assms ask(1)] with_request_inv [OF assms ask(2)]
      with_request_inv [OF assms ask(3)] with_request_inv [OF assms ask(4)]
    by (simp add: register_read_def columns_for_def function_indices)
qed

lemma send_inv:
  assumes "page_inv p"
  shows "\<exists>p'. dialogSend ops toInt d b tx p = Some p' \<and> page_inv p'"
proof -
  let ?p = "p\<lparr>pg_dialog := None\<rparr>"
  have p: "page_inv ?p" by (rule page_inv_edit [OF assms])
  note ask = requests_ask(5-8) [OF page_inv_ok(2) [OF p], simplified]
  note w = with_request_inv [OF p, simplified]
  have e: "\<exists>p'. dialogError t p = Some p' \<and> page_inv p'" for t by (simp add: dialogError_def page_inv_edit(6) [OF assms])
  show ?thesis
    unfolding dialogSend_def Let_def
    using w [OF ask(1)] w [OF ask(2)] w [OF ask(3)] w [OF ask(4)] e
    by (simp add: register_read_def split: option.split)
qed

lemma name_inv:
  assumes "page_inv p" and "setText row col tx (pg_table p) = Some t"
  shows "page_inv (p\<lparr>pg_table := t\<rparr>)"
proof -
  have f: "full_table (pg_table p)" using assms(1) by (simp add: page_inv_def page_ok_def)
  have i: "row < rowCount (pg_table p)" "col < length (ct_cells (pg_table p) ! row)"
    using assms(2) by (auto simp: setText_def item_def split: option.splits if_splits)
  then have "col < ct_columns (pg_table p)" using f by (simp add: full_table_def rowCount_def)
  then have "same_shape (pg_table p) t"
    using setText_full [OF same_shape_refl [OF f] i(1), of col tx] assms(2) by simp
  then have "page_ok (p\<lparr>pg_table := t\<rparr>)" "ct_columns t = ct_columns (pg_table p)"
    using page_inv_ok(1) [OF assms(1)] by (simp_all add: page_ok_def same_shape_def)
  then show ?thesis using assms(1) by (simp add: page_inv_def)
qed

lemma page_handle_inv:
  assumes "page_inv p" and "careful p e"
  shows "\<exists>p'. page_handle ops toInt p e = Some p' \<and> page_inv p'"
proof (cases e)
  case (FunctionChanged f)
  have c: "page_ok p" "mb_inv (pg_modbus p)" using assms(1) by (simp_all add: page_inv_def)
  show ?thesis
  proof (cases "f < 8 \<and> f \<noteq> pg_function p")
    case True
    then have "page_inv (onModbusFunctionChanged (p\<lparr>pg_function := f\<rparr>))"
      using function_changed_ok [OF c(1), of f] c(2) assms(2) FunctionChanged by (auto simp: page_inv_def columns_for_def)
    then show ?thesis using FunctionChanged True by simp
  qed (use assms(1) FunctionChanged in auto)
next
  case (StartChanged v)
  have "1 \<le> pg_count p" "pg_count p \<le> 125" using assms(1) by (simp_all add: page_inv_def page_ok_def)
  then have "page_inv (rebuildModbusTableRows (p\<lparr>pg_registerStart := spin 0 65535 v\<rparr>))"
    using spin_range [of 0 65535 v] by (intro rebuild_inv [OF assms(1), where n = "pg_count p"]) auto
  then show ?thesis using StartChanged assms(1) by (simp add: Let_def)
next
  case (CountChanged v)
  have "0 \<le> pg_registerStart p" "pg_registerStart p \<le> 65535" using assms(1) by (simp_all add: page_inv_def page_ok_def)
  then have "page_inv (rebuildModbusTableRows (p\<lparr>pg_count := spin 1 125 v\<rparr>))"
    using spin_range [of 1 125 v] by (intro rebuild_inv [OF assms(1), where a = "pg_registerStart p"]) auto
  then show ?thesis using CountChanged assms(1) by (simp add: Let_def)
next
  case (TimeoutChanged v)
  have "page_inv (p\<lparr>pg_timeout := spin 100 30000 v\<rparr>)" by (rule page_inv_edit [OF assms(1)])
  from with_modbus_inv [OF this] show ?thesis
    using driven_ops(7) [OF page_inv_ok(2) [OF assms(1)]] TimeoutChanged by simp
next
  case (NameEdited row tx)
  then show ?thesis using name_inv [OF assms(1)] assms(1) by (auto split: option.split)
next
  case (DialogSend b tx)
  then show ?thesis using send_inv [OF assms(1)] assms(1) by (auto split: option.split)
next
  case ReadyRead
  obtain m where "mb_onSocketReadyRead ops (pg_modbus p) = Some m"
      "driven (mb_pendingRequest (world (pg_modbus p))) (mb_emitted (world (pg_modbus p))) m"
    using driven_read [OF page_inv_ok(2) [OF assms(1)]] by blast
  then show ?thesis using with_modbus_inv [OF assms(1)] ReadyRead by simp
next
  case RequestTimeout
  then show ?thesis
    using with_modbus_inv [OF assms(1) driven_timeout [OF page_inv_ok(2) [OF assms(1)]]] assms(1) by (simp add: Let_def)
next
  case (DoubleClicked row)
  then show ?thesis using assms(1) by (simp add: onModbusTableDoubleClicked_def page_inv_edit)
qed (use with_modbus_inv [OF assms(1)] driven_ops [OF page_inv_ok(2) [OF assms(1)]] connect_clicked_inv [OF assms(1)] poll_inv [OF assms(1)]
  in \<open>simp_all add: page_inv_edit assms(1)\<close>)

lemma page_step_inv: "page_inv p \<Longrightarrow> careful p e \<Longrightarrow> \<exists>p'. page_step ops toInt p e = Some p' \<and> page_inv p'"
  using page_handle_inv [of p e ops toInt] by (simp add: page_step_def)

lemma new_page_inv:
  "\<exists>p. newModbusPage sk = Some p \<and> page_inv p \<and> pg_modbus p = mb_setRequestTimeoutMs 1000 (newModbusConnection sk)
     \<and> pg_function p = 2 \<and> pg_dialog p = None"
proof -
  define m where "m = mb_setRequestTimeoutMs 1000 (newModbusConnection sk)"
  have m: "mb_inv m" "mb_pendingRequest (world m) = NoRequest"
    unfolding m_def using mb_step_inv [OF mb_step.set_timeout mb_reachable_inv [OF mb_reachable.mb_start]]
    by (simp_all add: mb_setRequestTimeoutMs_def newModbusConnection_def newConnectionState_def)
  define p where "p = \<lparr>pg_modbus = m, pg_table = \<lparr>ct_columns = 7, ct_cells = []\<rparr>,
        pg_host = ''127.0.0.1'', pg_port = 5020, pg_timeout = 1000, pg_slaveId = 1, pg_registerStart = 0, pg_count = 5,
        pg_pollRate = 2000, pg_function = kFunctionReadHoldingRegisters, pg_pollInterval = 2000, pg_showsConnected = False,
        pg_writeResult = ''Last write: -'', pg_dialog = None\<rparr>"
  have "onModbusFunctionChanged p = rebuildModbusTableRows p"
    by (simp add: p_def onModbusFunctionChanged_def isModbusWriteFunction_def isModbusCoilFunction_def function_indices setColumnCount_def)
  moreover have "page_ok (rebuildModbusTableRows p) \<and> pg_modbus (rebuildModbusTableRows p) = pg_modbus p
      \<and> ct_columns (pg_table (rebuildModbusTableRows p)) = columns_for (pg_function p)"
    by (rule rebuild_ok) (simp_all add: p_def columns_for_def function_indices)
  ultimately have "page_inv (onModbusFunctionChanged p)"
    using m by (simp add: page_inv_def p_def register_read_def)
  then obtain p' where p': "updateModbusLabels False (onModbusFunctionChanged p) = Some p'" "page_inv p'" "page_kept (onModbusFunctionChanged p) p'"
    using labels_inv labels_kept page_inv_ok(1) by (metis option.inject)
  moreover have "pg_modbus (onModbusFunctionChanged p) = m" "pg_function (onModbusFunctionChanged p) = 2" "pg_dialog (onModbusFunctionChanged p) = None"
    by (simp_all add: onModbusFunctionChanged_def rebuildModbusTableRows_def Let_def p_def function_indices)
  ultimately show ?thesis by (intro exI [of _ p']) (simp add: newModbusPage_def p_def m_def page_kept_def)
qed

section \<open>Runs\<close>

inductive page_reachable :: "'s socket_ops \<Rightarrow> (string \<Rightarrow> int option) \<Rightarrow> 's modbus_page \<Rightarrow> bool" for ops toInt where
  page_start: "newModbusPage sk = Some p \<Longrightarrow> page_reachable ops toInt p"
| page_next: "page_reachable ops toInt p \<Longrightarrow> careful p e \<Longrightarrow> page_step ops toInt p e = Some p' \<Longrightarrow> page_reachable ops toInt p'"

lemma page_reachable_inv: "page_reachable ops toInt p \<Longrightarrow> page_inv p"
proof (induction rule: page_reachable.induct)
  case (page_start sk p)
  then show ?case using new_page_inv [of sk] by auto
next
  case (page_next p e p')
  then show ?case using page_step_inv [of p e ops toInt] by simp
qed

section \<open>Properties\<close>

text \<open>
  C23. The Modbus page never uses a missing table item, and its table always fits: in every run of user, timers and network, as long as the function is not
  changed to a coil or write function while a register read is pending, every next event is handled; the table has as many rows as the count says, the columns of
  the chosen function, and an item in every cell.
\<close>
theorem demo_table_never_missing:
  assumes "page_reachable ops toInt p" and "careful p e"
  shows "(\<exists>p'. page_step ops toInt p e = Some p') \<and> full_table (pg_table p)
    \<and> rowCount (pg_table p) = nat (pg_count p) \<and> ct_columns (pg_table p) = columns_for (pg_function p)"
  using page_step_inv [OF page_reachable_inv [OF assms(1)] assms(2), of ops toInt] page_reachable_inv [OF assms(1)]
  by (auto simp: page_inv_def page_ok_def)

text \<open>
  The excepted case crashes: when the function is changed to a write function while a register read is pending, the table is
  rebuilt with two columns, and the answer that arrives then uses the missing item of the third one.
\<close>

lemma narrow_table_crashes:
  assumes "page_ok p" and "ct_columns (pg_table p) = 2" and "registers \<noteq> []"
  shows "updateModbusRegisterTableValues registers p = None"
proof -
  let ?t = "pg_table p"
  have t: "same_shape ?t ?t" "0 < rowCount ?t" using assms(1) by (auto simp: page_ok_def same_shape_def)
  obtain t' where t': "setText 0 1 (dec_digits (unat (registers ! 0))) ?t = Some t'" "same_shape ?t t'"
    using setText_full [OF t, of 1 "dec_digits (unat (registers ! 0))"] assms(2) by auto
  have "length (ct_cells t' ! 0) = 2" using t'(2) t(2) assms(2) by (simp add: same_shape_def full_table_def rowCount_def)
  then have none: "setText 0 2 x t' = None" for x by (simp add: setText_def item_def)
  have "[2..<6] = 2 # [3..<(6 :: nat)]" by (simp add: upt_rec)
  then have "updateRegisterRow registers 0 ?t = None" using t'(1) none by (simp add: updateRegisterRow_def Let_def)
  moreover have "[0..<min (length registers) (rowCount ?t)] = 0 # [1..<min (length registers) (rowCount ?t)]"
    using assms(3) t(2) by (simp add: upt_rec)
  ultimately show ?thesis by (simp add: updateModbusRegisterTableValues_def)
qed

theorem demo_late_answer_crashes:
  assumes "page_reachable ops toInt p" and "pg_dialog p = None" and "4 \<le> f" and "f < 8" and "pg_function p = 2"
    and "mb_pendingRequest (world (pg_modbus p)) = PReadHoldingRegisters" and "mb_readBuffer (world (pg_modbus p)) = []"
    and "sock_readAll ops (mb_socket (world (pg_modbus p))) = (mbap_frame tid unit (registers_pdu 0x03 registers), sk)"
    and "registers \<noteq> []" and "length registers \<le> 127"
  shows "\<exists>p'. page_step ops toInt p (FunctionChanged f) = Some p' \<and> page_step ops toInt p' ReadyRead = None"
proof -
  let ?p = "onModbusFunctionChanged (p\<lparr>pg_function := f\<rparr>)"
  have inv: "page_inv p" by (rule page_reachable_inv [OF assms(1)])
  have q: "page_ok ?p" "pg_modbus ?p = pg_modbus p" "ct_columns (pg_table ?p) = 2"
    using function_changed_ok [OF page_inv_ok(1) [OF inv] assms(4)] assms(3) by (simp_all add: columns_for_def)
  have d: "pg_dialog ?p = None" using assms(2) by (simp add: onModbusFunctionChanged_def rebuildModbusTableRows_def Let_def)
  have "page_step ops toInt p (FunctionChanged f) = Some ?p" using assms(2,3,4,5) by (simp add: page_step_def)
  let ?m = "mb_appendChunk (mbap_frame tid unit (registers_pdu 0x03 registers))
      ((pg_modbus p)\<lparr>world := (world (pg_modbus p))\<lparr>mb_socket := sk\<rparr>\<rparr>)"
  have "mb_onSocketReadyRead ops (pg_modbus p) = dispatchResponse ?m"
    using assms(8) by (simp add: mb_onSocketReadyRead_def)
  also have "\<dots> = Some (mb_settle (HoldingRegistersRead registers) ?m)"
    using dispatch_verdict [of ?m PReadHoldingRegisters "(Ok, HoldingRegistersRead registers)"]
      verdict_registers [OF assms(10), of tid unit "[]"] assms(6,7) by (simp add: undecided_def del: mb_verdict.simps)
  finally have "page_step ops toInt ?p ReadyRead = modbus_slot (HoldingRegistersRead registers)
      (?p\<lparr>pg_modbus := mb_settle (HoldingRegistersRead registers) ?m\<rparr>)"
    using q(2) d by (simp add: page_step_def with_modbus_def mb_settle_def split: option.split)
  also have "\<dots> = None" using narrow_table_crashes [of "?p\<lparr>pg_modbus := mb_settle (HoldingRegistersRead registers) ?m\<rparr>"] q(1,3) assms(9) by simp
  finally show ?thesis using \<open>page_step ops toInt p (FunctionChanged f) = Some ?p\<close> by blast
qed

section \<open>What the table shows\<close>

lemma setText_item:
  "setText row col tx t = Some t' \<Longrightarrow> item t' r c = (if r = row \<and> c = col then Some tx else item t r c) \<and> rowCount t' = rowCount t"
  by (auto simp: setText_def item_def rowCount_def nth_list_update split: option.splits if_splits)

lemma loopM_Cons: "loopM f (x # xs) s = Option.bind (f x s) (loopM f xs)"
  by (simp split: option.split)

lemma loopM_append: "loopM f (xs @ ys) s = Option.bind (loopM f xs s) (loopM f ys)"
  by (induction xs arbitrary: s) (auto split: option.split)

definition be32 :: "u8 \<Rightarrow> u8 \<Rightarrow> u8 \<Rightarrow> u8 \<Rightarrow> u32" where
  "be32 a b c d = push_bit 24 (ucast a) OR push_bit 16 (ucast b) OR push_bit 8 (ucast c) OR ucast d"

definition pair16 :: "u8 \<times> u8 \<Rightarrow> u16" where
  "pair16 w = push_bit 8 (ucast (fst w)) OR ucast (snd w)"

lemma swap_pair16: "swapBytes (pair16 (a, b)) = pair16 (b, a)"
  unfolding swapBytes_def pair16_def by (rule bit_word_eqI) (auto simp: bit_simps dest: bit_imp_le_length)

lemma join_pair16: "joinWords (pair16 (a, b)) (pair16 (c, d)) = be32 a b c d"
  unfolding joinWords_def pair16_def be32_def by (rule bit_word_eqI) (auto simp: bit_simps dest: bit_imp_le_length)

text \<open>The texts of a row; the columns 0 and 6 are not touched.\<close>

definition shownCell :: "u16 list \<Rightarrow> nat \<Rightarrow> nat \<Rightarrow> string" where
  "shownCell registers row col =
     (let v = registers ! row; n = registers ! (row + 1)
      in if col = 1 then dec_digits (unat v)
         else if row + 1 < length registers then
           number32 (if col = 2 then joinWords v n else if col = 3 then joinWords (swapBytes n) (swapBytes v)
                     else if col = 4 then joinWords n v else joinWords (swapBytes v) (swapBytes n))
         else ''-'')"

lemma updateRegisterRow_items:
  assumes "updateRegisterRow registers row t = Some t'"
  shows "item t' r c = (if r = row \<and> 1 \<le> c \<and> c \<le> 5 then Some (shownCell registers row c) else item t r c)"
proof (cases "row + 1 < length registers")
  case True
  let ?v = "registers ! row" and ?n = "registers ! (row + 1)"
  obtain t1 t2 t3 t4 where t: "setText row 1 (dec_digits (unat ?v)) t = Some t1" "setText row 2 (number32 (joinWords ?v ?n)) t1 = Some t2"
      "setText row 3 (number32 (joinWords (swapBytes ?n) (swapBytes ?v))) t2 = Some t3" "setText row 4 (number32 (joinWords ?n ?v)) t3 = Some t4"
      "setText row 5 (number32 (joinWords (swapBytes ?v) (swapBytes ?n))) t4 = Some t'"
    using assms True by (auto simp: updateRegisterRow_def Let_def bind_eq_Some_conv)
  have c: "1 \<le> c \<and> c \<le> 5 \<longleftrightarrow> c = 1 \<or> c = 2 \<or> c = 3 \<or> c = 4 \<or> c = 5" by auto
  show ?thesis
    using t [THEN setText_item, of r c] True unfolding c by (auto simp: shownCell_def Let_def)
next
  case False
  have u: "[2..<6] = [2, 3, 4, 5 :: nat]" by (simp add: upt_rec)
  obtain t1 t2 t3 t4 where t: "setText row 1 (dec_digits (unat (registers ! row))) t = Some t1" "setText row 2 ''-'' t1 = Some t2"
      "setText row 3 ''-'' t2 = Some t3" "setText row 4 ''-'' t3 = Some t4" "setText row 5 ''-'' t4 = Some t'"
    using assms False unfolding updateRegisterRow_def Let_def u loopM_Cons
    by (simp only: if_False bind_eq_Some_conv loopM.simps(1)) blast
  have c: "1 \<le> c \<and> c \<le> 5 \<longleftrightarrow> c = 1 \<or> c = 2 \<or> c = 3 \<or> c = 4 \<or> c = 5" by auto
  show ?thesis
    using t [THEN setText_item, of r c] False unfolding c by (auto simp: shownCell_def Let_def)
qed

lemma update_rows_items:
  "loopM (updateRegisterRow registers) [0..<n] t = Some t' \<Longrightarrow>
   item t' r c = (if r < n \<and> 1 \<le> c \<and> c \<le> 5 then Some (shownCell registers r c) else item t r c)"
proof (induction n arbitrary: t')
  case 0
  then show ?case by simp
next
  case (Suc n)
  obtain t1 where t1: "loopM (updateRegisterRow registers) [0..<n] t = Some t1" "updateRegisterRow registers n t1 = Some t'"
    using Suc.prems by (auto simp: loopM_append bind_eq_Some_conv split: option.splits)
  show ?case using Suc.IH [OF t1(1)] updateRegisterRow_items [OF t1(2), of r c] by auto
qed

text \<open>
  A read of registers is shown in all byte orders: with the bytes of the registers as they were on the wire, the row of a register shows
  its value and, for it and its successor with the bytes a b and c d, the numbers of 32 bits with the bytes a b c d,
  d c b a, c d a b and b a d c; the row of the last register shows a dash instead.
\<close>
theorem demo_registers_shown:
  assumes "page_ok p" and "ct_columns (pg_table p) = 7" and "row < length wire" and "row < rowCount (pg_table p)"
    and "wire ! row = (a, b)"
  shows "\<exists>p'. updateModbusRegisterTableValues (map pair16 wire) p = Some p'
    \<and> item (pg_table p') row 1 = Some (dec_digits (unat (pair16 (a, b))))
    \<and> (row + 1 = length wire \<longrightarrow> (\<forall>col \<in> {2..5}. item (pg_table p') row col = Some ''-''))
    \<and> (\<forall>c d. row + 1 < length wire \<and> wire ! (row + 1) = (c, d) \<longrightarrow>
          item (pg_table p') row 2 = Some (number32 (be32 a b c d)) \<and> item (pg_table p') row 3 = Some (number32 (be32 d c b a))
        \<and> item (pg_table p') row 4 = Some (number32 (be32 c d a b)) \<and> item (pg_table p') row 5 = Some (number32 (be32 b a d c)))"
proof -
  let ?r = "map pair16 wire"
  let ?n = "min (length ?r) (rowCount (pg_table p))"
  obtain p' where p': "updateModbusRegisterTableValues ?r p = Some p'" using registers_kept [OF assms(1,2)] by blast
  then have "loopM (updateRegisterRow ?r) [0..<?n] (pg_table p) = Some (pg_table p')"
    by (auto simp: updateModbusRegisterTableValues_def bind_eq_Some_conv)
  then have i: "item (pg_table p') row c = Some (shownCell ?r row c)" if "1 \<le> c" "c \<le> 5" for c
    using update_rows_items [of ?r ?n "pg_table p" "pg_table p'" row c] assms(3,4) that by simp
  show ?thesis
    using p' i assms(3,5) by (intro exI [of _ p']) (simp add: shownCell_def Let_def swap_pair16 join_pair16)
qed

section \<open>The write dialog\<close>

lemma registerParts_values:
  "registerParts toInt parts = Some vs \<Longrightarrow> map (\<lambda>v. Some (uint v)) vs = map (\<lambda>part. toInt (trimmed part)) parts"
proof (induction parts arbitrary: vs)
  case Nil
  then show ?case by simp
next
  case (Cons part parts)
  obtain v ws where v: "registerPart toInt part = Some v" "registerParts toInt parts = Some ws" "vs = v # ws"
    using Cons.prems by (auto split: option.splits)
  then have "Some (uint v) = toInt (trimmed part)"
    by (auto simp: registerPart_def uint_word_of_int_eq take_bit_int_eq_self split: option.splits if_splits)
  then show ?case using Cons.IH [OF v(2)] v(3) by simp
qed

lemma write_keeps_signals: "mb_emitted (world (writeMultipleRegisters ops u a vs m)) = mb_emitted (world m)"
  by (simp add: writeMultipleRegisters_def sendRequest_def Let_def)

text \<open>
  The dialog for several registers sends what was typed or nothing: on every text it either shows its error, stays open and leaves the
  driver alone, or closes and hands the driver between 1 and 123 registers whose values are exactly
  the numbers of the text, for the address and slave of the row.
\<close>
theorem demo_dialog_sends_typed_values:
  assumes "wd_function d = kFunctionWriteMultipleRegisters"
  shows "dialogSend ops toInt d coilOn tx p = dialogError ''Values must be 1-123 comma-separated integers 0-65535'' p
    \<or> (\<exists>vs. 1 \<le> length vs \<and> length vs \<le> 123
         \<and> map (\<lambda>v. Some (uint v)) vs = map (\<lambda>part. toInt (trimmed part)) (parts_of tx)
         \<and> dialogSend ops toInt d coilOn tx p =
             Some (p\<lparr>pg_dialog := None, pg_modbus := writeMultipleRegisters ops (wd_slaveId d) (wd_address d) vs (pg_modbus p)\<rparr>))"
proof (cases "if parts_of tx \<noteq> [] \<and> length (parts_of tx) \<le> 123 then registerParts toInt (parts_of tx) else None")
  case None
  then show ?thesis using assms by (simp add: dialogSend_def function_indices Let_def)
next
  case (Some vs)
  then have s: "registerParts toInt (parts_of tx) = Some vs" "parts_of tx \<noteq> []" "length (parts_of tx) \<le> 123" by (auto split: if_splits)
  have "length vs = length (parts_of tx)" using registerParts_values [OF s(1)] by (metis length_map)
  moreover have "0 < length (parts_of tx)" using s(2) by simp
  ultimately have "1 \<le> length vs" "length vs \<le> 123" using s(3) by linarith+
  then show ?thesis using assms Some registerParts_values [OF s(1)]
    by (auto simp: dialogSend_def function_indices Let_def with_modbus_def write_keeps_signals)
qed

text \<open>A write while another request is pending is dropped without a word: the dialog closes and nothing is sent.\<close>

theorem demo_write_dropped:
  assumes "wd_function d = kFunctionWriteSingleCoil" and "mb_pendingRequest (world (pg_modbus p)) \<noteq> NoRequest"
  shows "dialogSend ops toInt d coilOn tx p = Some (p\<lparr>pg_dialog := None\<rparr>)"
  using assms by (simp add: dialogSend_def writeSingleCoil_def sendRequest_def with_modbus_def Let_def)

text \<open>With the highest start address the second row is labelled with an address that does not exist, and a double click on it writes to address 0.\<close>

theorem demo_address_wraps:
  assumes "pg_registerStart p = 65535" and "2 \<le> pg_count p" and "2 \<le> ct_columns (pg_table p)" and "isModbusWriteFunction p"
    and "mb_isReady (pg_modbus p)"
  shows "item (pg_table (rebuildModbusTableRows p)) 1 0 = Some ''65536''
    \<and> map_option wd_address (pg_dialog (onModbusTableDoubleClicked 1 (rebuildModbusTableRows p))) = Some 0"
proof -
  have "dec_digits 65536 = ''65536''" by (simp add: dec_digits.simps char_of_def bit_0)
  then show ?thesis using assms
    by (simp add: rebuildModbusTableRows_def item_def rowCount_def rebuiltRow_def dec_signed_def onModbusTableDoubleClicked_def
        isModbusWriteFunction_def Let_def)
qed

section \<open>Witnesses\<close>

text \<open>A run: the page connects and polls its five holding registers.\<close>

definition page_run ::
  "'s socket_ops \<Rightarrow> (string \<Rightarrow> int option) \<Rightarrow> 's page_event list \<Rightarrow> 's modbus_page \<Rightarrow> 's modbus_page option" where
  "page_run ops toInt es p = loopM (\<lambda>e p. page_step ops toInt p e) es p"

lemma page_run_reachable:
  "page_reachable ops toInt p \<Longrightarrow> page_run ops toInt es p = Some p' \<Longrightarrow> \<forall>e \<in> set es. \<forall>f. e \<noteq> FunctionChanged f \<Longrightarrow>
   page_reachable ops toInt p'"
  unfolding page_run_def
proof (induction es arbitrary: p)
  case Nil
  then show ?case by simp
next
  case (Cons e es)
  obtain q where q: "page_step ops toInt p e = Some q" "loopM (\<lambda>e p. page_step ops toInt p e) es q = Some p'"
    using Cons.prems(2) by (auto split: option.splits)
  have "careful p e" using Cons.prems(3) by (cases e) auto
  then have "page_reachable ops toInt q" using page_next Cons.prems(1) q(1) by metis
  then show ?case using Cons.IH q(2) Cons.prems(3) by simp
qed

definition demo_answer :: bytes where
  "demo_answer = mbap_frame 1 1 (registers_pdu 0x03 [7, 515])"

lemma polled_page:
  "\<exists>p. page_reachable log_ops (\<lambda>_. None) p \<and> pg_dialog p = None \<and> pg_function p = 2
     \<and> mb_pendingRequest (world (pg_modbus p)) = PReadHoldingRegisters \<and> mb_readBuffer (world (pg_modbus p)) = []
     \<and> mb_socket (world (pg_modbus p)) = demo_chunk demo_answer"
proof -
  let ?reach = "page_reachable log_ops (\<lambda>_. None)"
  let ?sk = "\<lparr>log_written = [], log_incoming = [], log_up = False\<rparr>"
  define m0 where "m0 = mb_setRequestTimeoutMs 1000 (newModbusConnection ?sk)"
  obtain p0 where p0: "newModbusPage ?sk = Some p0" "page_inv p0" "pg_modbus p0 = m0" "pg_function p0 = 2" "pg_dialog p0 = None"
    using new_page_inv [of ?sk] unfolding m0_def by metis
  have r0: "?reach p0" by (rule page_start [OF p0(1)])
  define m1 where "m1 = mb_connectToHost log_ops (pg_host p0) (of_int (pg_port p0)) m0"
  have m1: "driven (mb_pendingRequest (world m0)) (mb_emitted (world m0)) m1" "\<not> mb_isReady m0"
    unfolding m1_def using driven_ops(6) [OF page_inv_ok(2) [OF p0(2)]] p0(3)
    by (simp, simp add: m0_def mb_setRequestTimeoutMs_def demo_defs)
  obtain q1 where q1: "with_modbus m1 p0 = Some q1" "page_inv q1" "page_kept (p0\<lparr>pg_modbus := m1\<rparr>) q1"
    using with_modbus_kept [OF p0(2), of m1] m1(1) p0(3) by metis
  obtain p1 where p1: "updateModbusLabels (mb_isReady (pg_modbus q1)) q1 = Some p1" "page_kept q1 p1"
    using labels_kept [OF page_inv_ok(1) [OF q1(2)]] by metis
  have e1: "page_step log_ops (\<lambda>_. None) p0 ConnectClicked = Some p1"
    using q1(1) p1(1) p0(3,5) m1(2) by (simp add: page_step_def onModbusConnectClicked_def m1_def)
  have r1: "?reach p1" by (rule page_reachable.page_next [OF r0 _ e1]) simp
  have f1: "pg_modbus p1 = m1" "pg_function p1 = 2" "pg_dialog p1 = None"
    using q1(3) p1(2) p0(4,5) by (simp_all add: page_kept_def)
  define m2 where "m2 = mb_onSocketConnected m1"
  have i1: "page_inv p1" by (rule page_reachable_inv [OF r1])
  have "driven (mb_pendingRequest (world m1)) (mb_emitted (world m1)) m2"
    using driven_ops(3) [OF page_inv_ok(2) [OF i1]] f1(1) by (simp add: m2_def)
  then obtain p2 where p2: "with_modbus m2 p1 = Some p2" "page_inv p2" "page_kept (p1\<lparr>pg_modbus := m2\<rparr>) p2"
    using with_modbus_kept [OF i1, of m2] f1(1) by metis
  have e2: "page_step log_ops (\<lambda>_. None) p1 SocketConnected = Some p2" using p2(1) f1 by (simp add: page_step_def m2_def)
  have r2: "?reach p2" by (rule page_reachable.page_next [OF r1 _ e2]) simp
  have f2: "pg_modbus p2 = m2" "pg_function p2 = 2" "pg_dialog p2 = None" using p2(3) f1 by (simp_all add: page_kept_def)
  define m3 where "m3 = readHoldingRegisters log_ops (of_int (pg_slaveId p2)) (of_int (pg_registerStart p2)) (of_int (pg_count p2)) m2"
  have m2: "mb_isReady m2" "mb_pendingRequest (world m2) = NoRequest" "mb_readBuffer (world m2) = []"
    by (simp_all add: m2_def m1_def m0_def mb_setRequestTimeoutMs_def demo_defs)
  have m3: "mb_emitted (world m3) = mb_emitted (world m2)" "mb_pendingRequest (world m3) = PReadHoldingRegisters" "mb_readBuffer (world m3) = []"
    using m2 by (simp_all add: m3_def readHoldingRegisters_def sendRequest_def Let_def)
  have e3: "page_step log_ops (\<lambda>_. None) p2 PollTimer = Some (p2\<lparr>pg_modbus := m3\<rparr>)"
    using f2 m2(1) m3(1) by (simp add: page_step_def pollModbusRegisters_def Let_def with_modbus_def m3_def function_indices)
  have r3: "?reach (p2\<lparr>pg_modbus := m3\<rparr>)" by (rule page_reachable.page_next [OF r2 _ e3]) simp
  let ?m4 = "m3\<lparr>world := (world m3)\<lparr>mb_socket := demo_chunk demo_answer\<rparr>\<rparr>"
  have e4: "page_step log_ops (\<lambda>_. None) (p2\<lparr>pg_modbus := m3\<rparr>) (SocketChanges (demo_chunk demo_answer)) = Some (p2\<lparr>pg_modbus := ?m4\<rparr>)"
    by (simp add: page_step_def with_modbus_def)
  have "?reach (p2\<lparr>pg_modbus := ?m4\<rparr>)" by (rule page_reachable.page_next [OF r3 _ e4]) simp
  then show ?thesis using f2 m3 by (intro exI [of _ "p2\<lparr>pg_modbus := ?m4\<rparr>"]) simp
qed

theorem demo_table_never_missing_witness:
  "\<exists>p p'. mb_pendingRequest (world (pg_modbus p)) = PReadHoldingRegisters
     \<and> page_step log_ops (\<lambda>_. None) p ReadyRead = Some p' \<and> full_table (pg_table p)"
  using polled_page demo_table_never_missing [where ops = log_ops and toInt = "\<lambda>_. None" and e = ReadyRead] by fastforce

theorem demo_late_answer_crashes_witness:
  "\<exists>p p'. page_reachable log_ops (\<lambda>_. None) p \<and> page_step log_ops (\<lambda>_. None) p (FunctionChanged 6) = Some p'
     \<and> page_step log_ops (\<lambda>_. None) p' ReadyRead = None"
proof -
  obtain p where p: "page_reachable log_ops (\<lambda>_. None) p" "pg_dialog p = None" "pg_function p = 2"
      "mb_pendingRequest (world (pg_modbus p)) = PReadHoldingRegisters" "mb_readBuffer (world (pg_modbus p)) = []"
      "mb_socket (world (pg_modbus p)) = demo_chunk demo_answer"
    using polled_page by blast
  have "sock_readAll log_ops (mb_socket (world (pg_modbus p))) =
      (mbap_frame 1 1 (registers_pdu 0x03 [7, 515]), \<lparr>log_written = [], log_incoming = [], log_up = True\<rparr>)"
    by (simp add: p(6) log_ops_def demo_chunk_def demo_answer_def)
  from demo_late_answer_crashes [OF p(1,2) _ _ p(3,4,5) this, of 6] show ?thesis using p(1) by auto
qed

definition wide_page :: "log_socket modbus_page" where
  "wide_page = rebuildModbusTableRows
     \<lparr>pg_modbus = demo_pending, pg_table = \<lparr>ct_columns = 7, ct_cells = []\<rparr>, pg_host = [], pg_port = 1, pg_timeout = 1000,
      pg_slaveId = 1, pg_registerStart = 65535, pg_count = 3, pg_pollRate = 2000, pg_function = 2, pg_pollInterval = 2000,
      pg_showsConnected = True, pg_writeResult = [], pg_dialog = None\<rparr>"

lemma wide_page_ok: "page_ok wide_page \<and> ct_columns (pg_table wide_page) = 7 \<and> rowCount (pg_table wide_page) = 3"
  using rebuild_ok [of "\<lparr>pg_modbus = demo_pending, pg_table = \<lparr>ct_columns = 7, ct_cells = []\<rparr>, pg_host = [], pg_port = 1, pg_timeout = 1000,
      pg_slaveId = 1, pg_registerStart = 65535, pg_count = 3, pg_pollRate = 2000, pg_function = 2, pg_pollInterval = 2000,
      pg_showsConnected = True, pg_writeResult = [], pg_dialog = None\<rparr>"]
  by (simp add: wide_page_def columns_for_def) (simp add: rebuildModbusTableRows_def rowCount_def Let_def)

theorem demo_registers_shown_witness:
  "\<exists>p'. updateModbusRegisterTableValues (map pair16 [(0, 7), (2, 3)]) wide_page = Some p'
     \<and> item (pg_table p') 0 2 = Some (number32 (be32 0 7 2 3))"
  using demo_registers_shown [of wide_page 0 "[(0, 7), (2, 3)]" 0 7] wide_page_ok by auto

definition dialog_page :: "log_socket modbus_page" where
  "dialog_page = wide_page\<lparr>pg_modbus := demo_connected,
     pg_dialog := Some \<lparr>wd_function = 7, wd_slaveId = 1, wd_address = 40, wd_error = []\<rparr>\<rparr>"

theorem demo_dialog_sends_typed_values_witness:
  "\<exists>vs. map (\<lambda>v. Some (uint v)) vs = [Some 12, Some (65535 :: int)]
     \<and> dialogSend log_ops (\<lambda>t. if t = ''12'' then Some 12 else if t = ''65535'' then Some 65535 else None)
         \<lparr>wd_function = 7, wd_slaveId = 1, wd_address = 40, wd_error = []\<rparr> False ''12, 65535'' dialog_page
       = Some (dialog_page\<lparr>pg_dialog := None, pg_modbus := writeMultipleRegisters log_ops 1 40 vs (pg_modbus dialog_page)\<rparr>)"
proof -
  let ?d = "\<lparr>wd_function = 7, wd_slaveId = 1, wd_address = 40, wd_error = []\<rparr> :: write_dialog"
  let ?toInt = "\<lambda>t. if t = ''12'' then Some 12 else if t = ''65535'' then Some 65535 else None"
  have parts: "parts_of ''12, 65535'' = [''12'', '' 65535'']" by (simp add: parts_of_def)
  have trim: "trimmed ''12'' = ''12''" "trimmed '' 65535'' = ''65535''" by (simp_all add: trimmed_def is_space_def)
  have "registerParts ?toInt [''12'', '' 65535''] = Some [12, 65535]" by (simp add: registerPart_def trim)
  then have "dialogSend log_ops ?toInt ?d False ''12, 65535'' dialog_page
      = Some (dialog_page\<lparr>pg_dialog := None, pg_modbus := writeMultipleRegisters log_ops 1 40 [12, 65535] (pg_modbus dialog_page)\<rparr>)"
    by (simp add: dialogSend_def function_indices Let_def parts with_modbus_def write_keeps_signals)
  moreover have "pg_dialog dialog_page = Some ?d" by (simp add: dialog_page_def)
  ultimately have ne: "dialogSend log_ops ?toInt ?d False ''12, 65535'' dialog_page
      \<noteq> dialogError ''Values must be 1-123 comma-separated integers 0-65535'' dialog_page"
    by (auto simp: dialogError_def dest: arg_cong [where f = pg_dialog])
  have w: "wd_function ?d = kFunctionWriteMultipleRegisters" by (simp add: function_indices)
  obtain vs where vs: "map (\<lambda>v. Some (uint v)) vs = map (\<lambda>part. ?toInt (trimmed part)) (parts_of ''12, 65535'')"
      "dialogSend log_ops ?toInt ?d False ''12, 65535'' dialog_page = Some (dialog_page\<lparr>pg_dialog := None,
         pg_modbus := writeMultipleRegisters log_ops (wd_slaveId ?d) (wd_address ?d) vs (pg_modbus dialog_page)\<rparr>)"
    using demo_dialog_sends_typed_values [OF w, of log_ops ?toInt False "''12, 65535''" dialog_page] ne by blast
  have "map (\<lambda>v. Some (uint v)) vs = [Some 12, Some 65535]" using vs(1) by (simp add: parts trim)
  with vs(2) show ?thesis by (intro exI [of _ vs]) simp
qed

end
