(* ===== verification/Demo_C3.thy ===== *)
theory Demo_C3
  imports C3_Connection Demo_Modbus "HOL-Library.List_Lexorder" "HOL-Library.Char_ord"
begin

text \<open>
  The sidebar and the C3 page of the example window: demo/demowindow.\{h,cpp\}, in the build with the
  broker page. The page shows what a C3 connection reports and sends it requests when the user selects a view, presses a
  button or the poll timer ticks. Its slot on connectionStateChanged sends a request itself, from within the driver's
  emission; every emission of that signal is followed in the driver only by changes of the reconnect timers, which
  no request reads, so the slots run here after the driver's operation, in the order of the signals.
  QString::toUInt and QString::toULongLong are parameters.
\<close>

section \<open>State\<close>

definition kC3ViewDeviceInfo :: nat where "kC3ViewDeviceInfo = 0"
definition kC3ViewUsers :: nat where "kC3ViewUsers = 1"
definition kC3ViewTemplates :: nat where "kC3ViewTemplates = 2"
definition kC3ViewTransaction :: nat where "kC3ViewTransaction = 3"
definition kC3ViewRealtimeLog :: nat where "kC3ViewRealtimeLog = 4"
definition kC3ViewControl :: nat where "kC3ViewControl = 5"
definition kC3ViewRecordCount :: nat where "kC3ViewRecordCount = 6"

lemmas view_indices = kC3ViewDeviceInfo_def kC3ViewUsers_def kC3ViewTemplates_def kC3ViewTransaction_def
  kC3ViewRealtimeLog_def kC3ViewControl_def kC3ViewRecordCount_def

record text_conv =
  tc_toUInt :: "string \<Rightarrow> u32"
  tc_toULongLong :: "string \<Rightarrow> u64 option"

text \<open>
  The sidebar: its current row, which rows are hidden, and the targets of the deferred jumps. The tables are their
  header labels and their rows, since every item of a row is set when the row is made.
\<close>

record 's c3_page =
  cp_c3 :: "'s c3"
  cp_row :: int
  cp_hidden :: "bool list"
  cp_jumps :: "int list"
  cp_protocolStack :: nat
  cp_viewStack :: nat
  cp_lastView :: nat
  cp_host :: string
  cp_port :: int
  cp_showsConnected :: bool
  cp_headers :: "string list"
  cp_rows :: "string list list"
  cp_log :: "string list list"
  cp_door :: int
  cp_duration :: int
  cp_controlResult :: string
  cp_countTable :: nat
  cp_countResult :: string

section \<open>The tables\<close>

text \<open>QVariant::toString, toUInt and toULongLong; a missing value is an invalid QVariant.\<close>

fun variantText :: "QVariant option \<Rightarrow> string" where
  "variantText None = []"
| "variantText (Some (VLongLong v)) = dec_signed (sint v)"
| "variantText (Some (VString s)) = s"

fun variantUInt :: "text_conv \<Rightarrow> QVariant option \<Rightarrow> u32" where
  "variantUInt cv None = 0"
| "variantUInt cv (Some (VLongLong v)) = ucast v"
| "variantUInt cv (Some (VString s)) = tc_toUInt cv s"

fun variantULongLong :: "text_conv \<Rightarrow> QVariant option \<Rightarrow> u64 option" where
  "variantULongLong cv None = None"
| "variantULongLong cv (Some (VLongLong v)) = Some v"
| "variantULongLong cv (Some (VString s)) = tc_toULongLong cv s"

text \<open>The keys of a QVariantMap are iterated in ascending order.\<close>

definition mapKeys :: "QVariantMap \<Rightarrow> string list" where
  "mapKeys m = sorted_list_of_set (dom m)"

definition rebuildC3TableForKeyValueMap :: "QVariantMap \<Rightarrow> 's c3_page \<Rightarrow> 's c3_page" where
  "rebuildC3TableForKeyValueMap vs p =
     p\<lparr>cp_headers := [''Parameter'', ''Value''], cp_rows := map (\<lambda>k. [k, variantText (vs k)]) (mapKeys vs)\<rparr>"

definition showC3Status :: "string \<Rightarrow> 's c3_page \<Rightarrow> 's c3_page" where
  "showC3Status statusText p = p\<lparr>cp_headers := [''Status''], cp_rows := [[statusText]]\<rparr>"

definition recordCell :: "text_conv \<Rightarrow> QVariantMap \<Rightarrow> string \<Rightarrow> string" where
  "recordCell cv record key =
     (if key = ''Time_second'' then decodeC3DateTime (variantUInt cv (record key)) else variantText (record key))"

definition rebuildC3TableForRecords :: "text_conv \<Rightarrow> QVariantMap list \<Rightarrow> 's c3_page \<Rightarrow> 's c3_page" where
  "rebuildC3TableForRecords cv records p =
     (if records = [] then showC3Status ''No records returned by the panel'' p
      else (let keys = mapKeys (hd records)
            in p\<lparr>cp_headers := keys, cp_rows := map (\<lambda>record. map (recordCell cv record) keys) records\<rparr>))"

definition kMaxLogRows :: nat where "kMaxLogRows = 500"

text \<open>while (rowCount() > limit) removeRow(0).\<close>

fun removeFirstRows :: "nat \<Rightarrow> 'a list \<Rightarrow> 'a list" where
  "removeFirstRows limit [] = []"
| "removeFirstRows limit (r # rs) = (if length (r # rs) > limit then removeFirstRows limit rs else r # rs)"

definition appendC3LogRow :: "string list \<Rightarrow> 's c3_page \<Rightarrow> 's c3_page" where
  "appendC3LogRow cells p = p\<lparr>cp_log := removeFirstRows kMaxLogRows (cp_log p @ [cells])\<rparr>"

text \<open>The rows of a card event in the two log formats; other records have none.\<close>

definition binaryLogRow :: "RtLogRecord \<Rightarrow> string list option" where
  "binaryLogRow record =
     (if rt_kind record \<noteq> Event \<or> rt_cardNo record = 0 then None
      else Some [decodeC3DateTime (rt_timeSecond record), dec_digits (unat (rt_cardNo record)),
                 dec_digits (unat (rt_pin record)), dec_digits (unat (rt_doorId record)),
                 dec_digits (unat (rt_eventType record)), dec_digits (unat (rt_inOutState record)),
                 dec_digits (unat (rt_verified record))])"

definition keyValueLogRow :: "text_conv \<Rightarrow> QVariantMap \<Rightarrow> string list option" where
  "keyValueLogRow cv record =
     (case variantULongLong cv (record ''cardno'') of
        None \<Rightarrow> None
      | Some cardNo \<Rightarrow>
          if cardNo = 0 then None
          else (let time = variantText (record ''time'')
                in Some [if time = [] then ''-'' else time, dec_digits (unat cardNo), ''-'', ''-'', ''-'', ''-'', ''-'']))"

definition appendLogRows :: "('r \<Rightarrow> string list option) \<Rightarrow> 'r list \<Rightarrow> 's c3_page \<Rightarrow> 's c3_page" where
  "appendLogRows rowOf records p =
     fold (\<lambda>record p. case rowOf record of None \<Rightarrow> p | Some cells \<Rightarrow> appendC3LogRow cells p) records p"

section \<open>Requests\<close>

definition deviceInfoNames :: "string list" where
  "deviceInfoNames = [''~SerialNumber'', ''FirmVer'', ''DeviceName'', ''LockCount'', ''AuxInCount'', ''AuxOutCount'']"

definition countTables :: "string list" where
  "countTables = [''user'', ''userauthorize'', ''holiday'', ''timezone'', ''transaction'', ''firstcard'', ''multicard'', ''inoutfun'']"

definition c3_ready :: "'s socket_ops \<Rightarrow> 's c3_page \<Rightarrow> bool" where
  "c3_ready ops p = c3_isReady ops (world (cp_c3 p))"

text \<open>A request to the driver; requests send no signals.\<close>

definition c3_request :: "('s c3_world \<Rightarrow> 's c3_world) \<Rightarrow> 's c3_page \<Rightarrow> 's c3_page" where
  "c3_request f p = p\<lparr>cp_c3 := (cp_c3 p)\<lparr>world := f (world (cp_c3 p))\<rparr>\<rparr>"

definition refreshC3View :: "'s socket_ops \<Rightarrow> 's c3_page \<Rightarrow> 's c3_page" where
  "refreshC3View ops p =
     (if \<not> c3_ready ops p then p
      else if cp_lastView p = kC3ViewDeviceInfo then c3_request (requestDeviceParams ops deviceInfoNames) p
      else if cp_lastView p = kC3ViewUsers then c3_request (requestTableData ops ''user'') p
      else if cp_lastView p = kC3ViewTemplates then c3_request (requestTableData ops ''template'') p
      else if cp_lastView p = kC3ViewTransaction then c3_request (requestTableData ops ''transaction'') p
      else p)"

definition refreshC3RecordCount :: "'s socket_ops \<Rightarrow> 's c3_page \<Rightarrow> 's c3_page" where
  "refreshC3RecordCount ops p =
     (if \<not> c3_ready ops p then p else c3_request (requestTableRecordCount ops (countTables ! cp_countTable p)) p)"

definition pollC3RealtimeLog :: "'s socket_ops \<Rightarrow> 's c3_page \<Rightarrow> 's c3_page" where
  "pollC3RealtimeLog ops p =
     (if \<not> c3_ready ops p \<or> cp_lastView p \<noteq> kC3ViewRealtimeLog then p else c3_request (requestRealtimeLog ops) p)"

definition doorOpenClicked :: "'s socket_ops \<Rightarrow> 's c3_page \<Rightarrow> 's c3_page" where
  "doorOpenClicked ops p =
     (if \<not> c3_ready ops p then p
      else (c3_request (controlDoorOutput ops (of_int (cp_door p)) (of_int (cp_duration p))) p)
             \<lparr>cp_controlResult := ''Last result: sent, waiting...''\<rparr>)"

definition cancelAlarmClicked :: "'s socket_ops \<Rightarrow> 's c3_page \<Rightarrow> 's c3_page" where
  "cancelAlarmClicked ops p =
     (if \<not> c3_ready ops p then p
      else (c3_request (cancelAlarm ops) p)\<lparr>cp_controlResult := ''Last result: sent, waiting...''\<rparr>)"

section \<open>The slots on the driver's signals\<close>

definition updateC3Labels :: "'s socket_ops \<Rightarrow> 's c3_page \<Rightarrow> 's c3_page" where
  "updateC3Labels ops p =
     (let ready = c3_ready ops p;
          p = p\<lparr>cp_showsConnected := ready\<rparr>
      in if \<not> ready then p\<lparr>cp_rows := [], cp_log := [], cp_controlResult := ''Last result: -''\<rparr>
         else refreshC3View ops p)"

fun c3_slot :: "'s socket_ops \<Rightarrow> text_conv \<Rightarrow> c3_signal \<Rightarrow> 's c3_page \<Rightarrow> 's c3_page" where
  "c3_slot ops cv (C3ConnectionStateChanged _) p = updateC3Labels ops p"
| "c3_slot ops cv (DeviceParamsReceived vs) p = rebuildC3TableForKeyValueMap vs p"
| "c3_slot ops cv (DeviceParamsFailed err) p = showC3Status (''Failed: '' @ err) p"
| "c3_slot ops cv (TableDataReceived _ records) p = rebuildC3TableForRecords cv records p"
| "c3_slot ops cv (TableDataFailed _ err) p = showC3Status (''Failed: '' @ err) p"
| "c3_slot ops cv (RealtimeLogReceived records) p = appendLogRows binaryLogRow records p"
| "c3_slot ops cv (RealtimeLogKeyValueReceived records) p = appendLogRows (keyValueLogRow cv) records p"
| "c3_slot ops cv ControlAcknowledged p = p\<lparr>cp_controlResult := ''Last result: acknowledged''\<rparr>"
| "c3_slot ops cv (ControlFailed err) p = p\<lparr>cp_controlResult := ''Last result: failed -- '' @ err\<rparr>"
| "c3_slot ops cv (TableRecordCountReceived _ count) p = p\<lparr>cp_countResult := ''Count: '' @ dec_digits (unat count)\<rparr>"
| "c3_slot ops cv (TableRecordCountFailed tableName err) p =
     p\<lparr>cp_countResult := ''Count: failed -- '' @ err @ '' ('' @ tableName @ '')''\<rparr>"
| "c3_slot ops cv _ p = p"

definition with_c3 :: "'s socket_ops \<Rightarrow> text_conv \<Rightarrow> 's c3 \<Rightarrow> 's c3_page \<Rightarrow> 's c3_page" where
  "with_c3 ops cv m p =
     fold (c3_slot ops cv) (drop (length (c3_emitted (world (cp_c3 p)))) (c3_emitted (world m))) (p\<lparr>cp_c3 := m\<rparr>)"

definition onC3ConnectClicked :: "'s socket_ops \<Rightarrow> text_conv \<Rightarrow> 's c3_page \<Rightarrow> 's c3_page" where
  "onC3ConnectClicked ops cv p =
     updateC3Labels ops
       (with_c3 ops cv (if c3_ready ops p then c3_disconnectNow ops (cp_c3 p)
                        else c3_connectToHost ops (cp_host p) (of_int (cp_port p)) (cp_c3 p)) p)"

section \<open>The sidebar\<close>

definition setSubViewsHidden :: "bool \<Rightarrow> 's c3_page \<Rightarrow> 's c3_page" where
  "setSubViewsHidden b p = p\<lparr>cp_hidden := fold (\<lambda>r h. h[r := b]) [2..<9] (cp_hidden p)\<rparr>"

definition viewPage :: "nat \<Rightarrow> nat" where
  "viewPage index =
     (if index = kC3ViewRealtimeLog then 1 else if index = kC3ViewControl then 2
      else if index = kC3ViewRecordCount then 3 else 0)"

definition onSidebarRowChanged :: "'s socket_ops \<Rightarrow> int \<Rightarrow> 's c3_page \<Rightarrow> 's c3_page" where
  "onSidebarRowChanged ops row p =
     (if row < 0 then p
      else if row = 0 then setSubViewsHidden True (p\<lparr>cp_protocolStack := 0\<rparr>)
      else if row = 1 then
        (let p = setSubViewsHidden False p in p\<lparr>cp_jumps := cp_jumps p @ [2 + int (cp_lastView p)]\<rparr>)
      else if row = 9 then setSubViewsHidden True (p\<lparr>cp_protocolStack := 2\<rparr>)
      else
        (let index = nat (row - 2);
             p = setSubViewsHidden False (p\<lparr>cp_lastView := index, cp_protocolStack := 1\<rparr>);
             stackIndex = viewPage index;
             p = p\<lparr>cp_viewStack := stackIndex\<rparr>
         in if stackIndex = 0 then refreshC3View ops p
            else if stackIndex = 3 then refreshC3RecordCount ops p
            else p))"

text \<open>setCurrentRow: the handler runs when the row changes.\<close>

definition setCurrentRow :: "'s socket_ops \<Rightarrow> int \<Rightarrow> 's c3_page \<Rightarrow> 's c3_page" where
  "setCurrentRow ops row p =
     (if row = cp_row p then p else onSidebarRowChanged ops row (p\<lparr>cp_row := row\<rparr>))"

text \<open>The deferred jump of the C3 header, applied only if the header is still current.\<close>

definition jumpFires :: "'s socket_ops \<Rightarrow> 's c3_page \<Rightarrow> 's c3_page" where
  "jumpFires ops p =
     (case cp_jumps p of
        [] \<Rightarrow> p
      | target # rest \<Rightarrow>
          (let p = p\<lparr>cp_jumps := rest\<rparr> in if cp_row p = 1 then setCurrentRow ops target p else p))"

section \<open>Construction and events\<close>

definition newC3Page :: "'s socket_ops \<Rightarrow> 's \<Rightarrow> 's c3_page" where
  "newC3Page ops sk =
     updateC3Labels ops (setCurrentRow ops 0
       \<lparr>cp_c3 = newC3Connection sk, cp_row = - 1, cp_hidden = [False, False, True, True, True, True, True, True, True, False],
        cp_jumps = [], cp_protocolStack = 0, cp_viewStack = 0, cp_lastView = 0, cp_host = ''192.168.2.163'', cp_port = 4370,
        cp_showsConnected = False, cp_headers = [], cp_rows = [], cp_log = [], cp_door = 1, cp_duration = 3,
        cp_controlResult = ''Last result: -'', cp_countTable = 0, cp_countResult = ''Count: -''\<rparr>)"

datatype 's c3_page_event =
    RowSelected int
  | JumpFires
  | C3ConnectClicked
  | C3HostEdited string
  | C3PortChanged int
  | RefreshClicked
  | CountRefreshClicked
  | CountTableChanged nat
  | DoorChanged int
  | DurationChanged int
  | DoorOpenClicked
  | CancelAlarmClicked
  | LogPollTimer
  | C3SocketConnected
  | C3SocketError
  | C3ReadyRead
  | C3HandshakeTimeout
  | DataQueryTimeout
  | CountQueryTimeout
  | RtLogQueryTimeout
  | ControlTimeout
  | GetParamTimeout
  | C3Heartbeat
  | C3Reconnect
  | C3SocketChanges 's

text \<open>A timer that is not armed does not fire; a single-shot timer is disarmed when it does.\<close>

definition c3_timer ::
  "'s socket_ops \<Rightarrow> text_conv \<Rightarrow> int option \<Rightarrow> ('s c3_world \<Rightarrow> 's c3_world) \<Rightarrow> 's c3_page \<Rightarrow> 's c3_page" where
  "c3_timer ops cv timer f p =
     (if timer = None then p else with_c3 ops cv ((cp_c3 p)\<lparr>world := f (world (cp_c3 p))\<rparr>) p)"

text \<open>A hidden row cannot be selected.\<close>

fun c3_page_step ::
  "'s socket_ops \<Rightarrow> (string \<Rightarrow> int) \<Rightarrow> text_conv \<Rightarrow> 's c3_page \<Rightarrow> 's c3_page_event \<Rightarrow> 's c3_page option" where
  "c3_page_step ops toInt cv p (RowSelected row) =
     Some (if 0 \<le> row \<and> row \<le> 9 \<and> \<not> cp_hidden p ! nat row then setCurrentRow ops row p else p)"
| "c3_page_step ops toInt cv p JumpFires = Some (jumpFires ops p)"
| "c3_page_step ops toInt cv p C3ConnectClicked = Some (onC3ConnectClicked ops cv p)"
| "c3_page_step ops toInt cv p (C3HostEdited h) = Some (p\<lparr>cp_host := h\<rparr>)"
| "c3_page_step ops toInt cv p (C3PortChanged v) = Some (p\<lparr>cp_port := spin 1 65535 v\<rparr>)"
| "c3_page_step ops toInt cv p RefreshClicked = Some (refreshC3View ops p)"
| "c3_page_step ops toInt cv p CountRefreshClicked = Some (refreshC3RecordCount ops p)"
| "c3_page_step ops toInt cv p (CountTableChanged n) =
     Some (if n < length countTables \<and> n \<noteq> cp_countTable p then refreshC3RecordCount ops (p\<lparr>cp_countTable := n\<rparr>) else p)"
| "c3_page_step ops toInt cv p (DoorChanged v) = Some (p\<lparr>cp_door := spin 1 4 v\<rparr>)"
| "c3_page_step ops toInt cv p (DurationChanged v) = Some (p\<lparr>cp_duration := spin 1 254 v\<rparr>)"
| "c3_page_step ops toInt cv p DoorOpenClicked = Some (doorOpenClicked ops p)"
| "c3_page_step ops toInt cv p CancelAlarmClicked = Some (cancelAlarmClicked ops p)"
| "c3_page_step ops toInt cv p LogPollTimer = Some (pollC3RealtimeLog ops p)"
| "c3_page_step ops toInt cv p C3SocketConnected = Some (with_c3 ops cv (c3_onSocketConnected ops (cp_c3 p)) p)"
| "c3_page_step ops toInt cv p C3SocketError = Some (with_c3 ops cv (c3_onSocketError ops (cp_c3 p)) p)"
| "c3_page_step ops toInt cv p C3ReadyRead =
     map_option (\<lambda>m. with_c3 ops cv m p) (c3_onSocketReadyRead ops toInt (cp_c3 p))"
| "c3_page_step ops toInt cv p C3HandshakeTimeout =
     Some (let m = cp_c3 p
           in if handshakeTimer (world m) = None then p
              else with_c3 ops cv (c3_onHandshakeTimeout ops (m\<lparr>world := (world m)\<lparr>handshakeTimer := None\<rparr>\<rparr>)) p)"
| "c3_page_step ops toInt cv p DataQueryTimeout =
     Some (c3_timer ops cv (dataQueryTimer (world (cp_c3 p))) (\<lambda>w. onDataQueryTimeout (w\<lparr>dataQueryTimer := None\<rparr>)) p)"
| "c3_page_step ops toInt cv p CountQueryTimeout =
     Some (c3_timer ops cv (countQueryTimer (world (cp_c3 p))) (\<lambda>w. onCountQueryTimeout (w\<lparr>countQueryTimer := None\<rparr>)) p)"
| "c3_page_step ops toInt cv p RtLogQueryTimeout =
     Some (c3_timer ops cv (rtLogQueryTimer (world (cp_c3 p))) (\<lambda>w. onRtLogQueryTimeout (w\<lparr>rtLogQueryTimer := None\<rparr>)) p)"
| "c3_page_step ops toInt cv p ControlTimeout =
     Some (c3_timer ops cv (controlTimer (world (cp_c3 p))) (\<lambda>w. onControlTimeout (w\<lparr>controlTimer := None\<rparr>)) p)"
| "c3_page_step ops toInt cv p GetParamTimeout =
     Some (c3_timer ops cv (getParamTimer (world (cp_c3 p))) (\<lambda>w. onGetParamTimeout (w\<lparr>getParamTimer := None\<rparr>)) p)"
| "c3_page_step ops toInt cv p C3Heartbeat = Some (with_c3 ops cv (cs_step (cp_c3 p) HeartbeatTick) p)"
| "c3_page_step ops toInt cv p C3Reconnect = Some (with_c3 ops cv (cs_step (cp_c3 p) ReconnectTick) p)"
| "c3_page_step ops toInt cv p (C3SocketChanges sk) = Some (c3_request (\<lambda>w. w\<lparr>c3_socket := sk\<rparr>) p)"

end
