(* ===== verification/Demo_C3_Safe.thy ===== *)
theory Demo_C3_Safe
  imports Demo_C3
begin

text \<open>
  What holds of the C3 page: the only commands to the panel's outputs it ever sends are timed unlocks of doors 1 to 4, the sidebar and the
  pages agree and no sequence of events leaves the sidebar on the C3 header, the log keeps the last 500 card events. The
  driver it uses does not match replies to requests, and the page shows the table that was asked for first.
\<close>

section \<open>A socket that records what is written\<close>

definition recording :: "'s socket_ops \<Rightarrow> ('s \<times> bytes list) socket_ops" where
  "recording ops =
     \<lparr>sock_connectToHost = (\<lambda>h n (s, l). (let (failed, s') = sock_connectToHost ops h n s in (failed, (s', l)))),
      sock_write = (\<lambda>b (s, l). (sock_write ops b s, l @ [b])),
      sock_flush = (\<lambda>(s, l). (sock_flush ops s, l)),
      sock_abort = (\<lambda>(s, l). (sock_abort ops s, l)),
      sock_disconnectFromHost = (\<lambda>(s, l). (sock_disconnectFromHost ops s, l)),
      sock_readAll = (\<lambda>(s, l). (let (b, s') = sock_readAll ops s in (b, (s', l)))),
      sock_isConnected = (\<lambda>(s, l). sock_isConnected ops s),
      sock_errorString = (\<lambda>(s, l). sock_errorString ops s)\<rparr>"

definition written :: "('s \<times> bytes list) c3_world \<Rightarrow> bytes list" where
  "written w = snd (c3_socket w)"

lemma recording_writes [simp]:
  "snd (snd (sock_connectToHost (recording ops) h n s)) = snd s"
  "snd (sock_write (recording ops) b s) = snd s @ [b]"
  "snd (sock_flush (recording ops) s) = snd s"
  "snd (sock_abort (recording ops) s) = snd s"
  "snd (snd (sock_readAll (recording ops) s)) = snd s"
  by (simp_all add: recording_def split: prod.split)

text \<open>The command byte of a frame, and the frames for outputs that the page may send.\<close>

definition timed_unlock :: "bytes \<Rightarrow> bool" where
  "timed_unlock f \<longleftrightarrow> (\<exists>door seconds s i n. 1 \<le> door \<and> door \<le> 4 \<and> 1 \<le> seconds \<and> seconds \<le> 254
     \<and> f = encodeControlRequest Output door (controlOutputAddressValue Door) seconds s i n)"

definition alarm_cancel :: "bytes \<Rightarrow> bool" where
  "alarm_cancel f \<longleftrightarrow> (\<exists>s i n. f = encodeControlRequest CancelAlarm 0 0 0 s i n)"

definition allowed :: "bytes \<Rightarrow> bool" where
  "allowed f \<longleftrightarrow> (f ! 2 = kCommandControl \<longrightarrow> timed_unlock f \<or> alarm_cancel f)"

definition sent_ok :: "('s \<times> bytes list) c3_world \<Rightarrow> bool" where
  "sent_ok w \<longleftrightarrow> (\<forall>f \<in> set (written w). allowed f)"

lemma encodeFrame_command: "encodeFrame command i n payload b ! 2 = command"
  by (simp add: encodeFrame_def Let_def appendByte_def appendLittleEndian16_def)

lemmas command_values = kCommandControl_def kCommandConnectSession_def kCommandDisconnect_def kCommandConnectSessionLess_def
  kCommandDataTableCfg_def kCommandGetData_def kCommandTransmitData_def kCommandFreeData_def kCommandGetDataCount_def
  kCommandRtlogBinary_def kCommandRtlogKeyValue_def kCommandGetParam_def

lemma encoders_allowed [simp]:
  "allowed (encodeConnectSessionRequest r1)" "allowed (encodeDisconnectRequest r2)" "allowed (encodeConnectSessionLessRequest r3)"
  "allowed encodeSessionLessDisconnectRequest" "allowed (encodeDataTableConfigRequest s i n)"
  "allowed (encodeGetDataRequest t idxs s i n)" "allowed (encodeTransmitDataRequest off s i n)"
  "allowed (encodeFreeDataRequest s i n)" "allowed (encodeGetDataCountRequest t s i n)" "allowed (encodeRtlogBinaryRequest s i n)"
  "allowed (encodeRtlogKeyValueRequest s i n)" "allowed (encodeGetParamRequest names s i n)"
  by (simp_all add: allowed_def encodeConnectSessionRequest_def encodeDisconnectRequest_def encodeConnectSessionLessRequest_def
      encodeSessionLessDisconnectRequest_def encodeDataTableConfigRequest_def encodeGetDataRequest_def encodeTransmitDataRequest_def
      encodeFreeDataRequest_def encodeGetDataCountRequest_def encodeRtlogBinaryRequest_def encodeRtlogKeyValueRequest_def
      encodeGetParamRequest_def Let_def encodeFrame_command command_values)

lemma unlock_allowed:
  "1 \<le> d \<Longrightarrow> d \<le> 4 \<Longrightarrow> 1 \<le> t \<Longrightarrow> t \<le> 254 \<Longrightarrow> allowed (encodeControlRequest Output d (controlOutputAddressValue Door) t s i n)"
  unfolding allowed_def timed_unlock_def by blast

lemma cancel_allowed: "allowed (encodeControlRequest CancelAlarm 0 0 0 s i n)"
  unfolding allowed_def alarm_cancel_def by blast

section \<open>What the driver writes\<close>

lemma sent_ok_frame [simp]:
  "sent_ok (w\<lparr>c3_error := e\<rparr>) = sent_ok w" "sent_ok (w\<lparr>c3_readBuffer := b\<rparr>) = sent_ok w"
  "sent_ok (w\<lparr>handshakeTimer := ti\<rparr>) = sent_ok w" "sent_ok (w\<lparr>connectAttemptPending := c\<rparr>) = sent_ok w"
  "sent_ok (w\<lparr>handshakeStep := h\<rparr>) = sent_ok w" "sent_ok (w\<lparr>c3_sessionId := i\<rparr>) = sent_ok w"
  "sent_ok (w\<lparr>sessionLess := l\<rparr>) = sent_ok w" "sent_ok (w\<lparr>requestNr := r\<rparr>) = sent_ok w"
  "sent_ok (w\<lparr>dataQueryPending := c\<rparr>) = sent_ok w" "sent_ok (w\<lparr>dataQueryStep := dq\<rparr>) = sent_ok w"
  "sent_ok (w\<lparr>dataQueryTimer := ti\<rparr>) = sent_ok w" "sent_ok (w\<lparr>tableConfig := tc\<rparr>) = sent_ok w"
  "sent_ok (w\<lparr>pendingTableName := nm\<rparr>) = sent_ok w" "sent_ok (w\<lparr>bigDataBuffer := b\<rparr>) = sent_ok w"
  "sent_ok (w\<lparr>bigDataExpectedLength := x\<rparr>) = sent_ok w" "sent_ok (w\<lparr>countQueryPending := c\<rparr>) = sent_ok w"
  "sent_ok (w\<lparr>countQueryStep := cq\<rparr>) = sent_ok w" "sent_ok (w\<lparr>countQueryTimer := ti\<rparr>) = sent_ok w"
  "sent_ok (w\<lparr>countTableIndex := ix\<rparr>) = sent_ok w" "sent_ok (w\<lparr>pendingCountTableName := nm\<rparr>) = sent_ok w"
  "sent_ok (w\<lparr>rtLogQueryPending := c\<rparr>) = sent_ok w" "sent_ok (w\<lparr>rtLogQueryStep := rq\<rparr>) = sent_ok w"
  "sent_ok (w\<lparr>rtLogQueryTimer := ti\<rparr>) = sent_ok w" "sent_ok (w\<lparr>controlPending := c\<rparr>) = sent_ok w"
  "sent_ok (w\<lparr>controlTimer := ti\<rparr>) = sent_ok w" "sent_ok (w\<lparr>getParamPending := c\<rparr>) = sent_ok w"
  "sent_ok (w\<lparr>getParamTimer := ti\<rparr>) = sent_ok w" "sent_ok (w\<lparr>setParamPending := c\<rparr>) = sent_ok w"
  "sent_ok (w\<lparr>setParamTimer := ti\<rparr>) = sent_ok w" "sent_ok (w\<lparr>rtlogCommand := rc\<rparr>) = sent_ok w"
  "sent_ok (c3_emit sig w) = sent_ok w" "sent_ok (c3_dropQueries w) = sent_ok w"
  by (simp_all add: sent_ok_def written_def c3_emit_def c3_dropQueries_def)

lemma sent_ok_socket [simp]:
  "sent_ok (w\<lparr>c3_socket := sock_write (recording ops) b (c3_socket w')\<rparr>) \<longleftrightarrow> allowed b \<and> sent_ok w'"
  "sent_ok (w\<lparr>c3_socket := sock_flush (recording ops) s\<rparr>) = sent_ok (w\<lparr>c3_socket := s\<rparr>)"
  "sent_ok (w\<lparr>c3_socket := sock_abort (recording ops) (c3_socket w')\<rparr>) = sent_ok w'"
  "sent_ok (w\<lparr>c3_socket := snd (sock_connectToHost (recording ops) h n (c3_socket w'))\<rparr>) = sent_ok w'"
  by (auto simp: sent_ok_def written_def)

lemma sent_ok_append [simp]: "sent_ok (c3_appendAll (recording ops) w) = sent_ok w"
proof -
  have "snd (c3_socket (c3_appendAll (recording ops) w)) = snd (c3_socket w)"
    by (simp add: c3_appendAll_def recording_def split: prod.split)
  then show ?thesis by (simp add: sent_ok_def written_def)
qed

lemma sent_ok_send: "(\<And>s i n. allowed (enc s i n)) \<Longrightarrow> sent_ok (c3_send (recording ops) enc w) = sent_ok w"
  by (simp add: c3_send_def Let_def)

lemma sends_ok [simp]:
  "sent_ok (c3_send (recording ops) encodeDataTableConfigRequest w) = sent_ok w"
  "sent_ok (c3_send (recording ops) (encodeGetDataRequest t idxs) w) = sent_ok w"
  "sent_ok (c3_send (recording ops) (encodeTransmitDataRequest off) w) = sent_ok w"
  "sent_ok (c3_send (recording ops) encodeFreeDataRequest w) = sent_ok w"
  "sent_ok (c3_send (recording ops) (encodeGetDataCountRequest t) w) = sent_ok w"
  "sent_ok (c3_send (recording ops) encodeRtlogBinaryRequest w) = sent_ok w"
  "sent_ok (c3_send (recording ops) encodeRtlogKeyValueRequest w) = sent_ok w"
  "sent_ok (c3_send (recording ops) (encodeGetParamRequest names) w) = sent_ok w"
  by (rule sent_ok_send, simp)+

lemma requests_sent_ok [simp]:
  "sent_ok (requestTableData (recording ops) name w) = sent_ok w"
  "sent_ok (requestTableRecordCount (recording ops) name w) = sent_ok w"
  "sent_ok (requestRealtimeLog (recording ops) w) = sent_ok w"
  "sent_ok (requestDeviceParams (recording ops) names w) = sent_ok w"
  "sent_ok (cancelAlarm (recording ops) w) = sent_ok w"
  by (simp_all add: requestTableData_def requestTableRecordCount_def requestRealtimeLog_def requestDeviceParams_def
      cancelAlarm_def sendControlRequest_def Let_def sent_ok_send [OF cancel_allowed])

lemma unlock_sent_ok:
  "1 \<le> d \<Longrightarrow> d \<le> 4 \<Longrightarrow> 1 \<le> t \<Longrightarrow> t \<le> 254 \<Longrightarrow> sent_ok (controlDoorOutput (recording ops) d t w) = sent_ok w"
  by (simp add: controlDoorOutput_def sendControlRequest_def Let_def sent_ok_send [OF unlock_allowed [simplified]])

lemma dataQueryRead_sent_ok: "dataQueryRead (recording ops) toInt w = Some (b, w') \<Longrightarrow> sent_ok w \<Longrightarrow> sent_ok w'"
  by (auto simp: dataQueryRead_def dq_onTableConfig_def dq_onTableData_def dq_onBigDataChunk_def dq_onFreeDataAck_def dq_fail_def
      Let_def Option.bind_eq_Some_conv split: DataQueryStep.splits if_splits option.splits)

lemma laterReads_sent_ok: "laterReads (recording ops) toInt w = Some w' \<Longrightarrow> sent_ok w \<Longrightarrow> sent_ok w'"
  unfolding laterReads_def
proof (simp split: if_splits)
  show "rtLogRead (recording ops) w = Some w' \<Longrightarrow> sent_ok w \<Longrightarrow> sent_ok w'"
    by (auto simp: rtLogRead_def Let_def Option.bind_eq_Some_conv split: RtLogQueryStep.splits if_splits)
  show "countQueryRead (recording ops) toInt w = Some w' \<Longrightarrow> sent_ok w \<Longrightarrow> sent_ok w'"
    by (auto simp: countQueryRead_def cq_fail_def Let_def Option.bind_eq_Some_conv
        split: CountQueryStep.splits if_splits option.splits)
qed (auto simp: controlRead_def getParamRead_def setParamRead_def Let_def Option.bind_eq_Some_conv split: if_splits)

lemma queryRead_sent_ok: "queryRead (recording ops) toInt w = Some w' \<Longrightarrow> sent_ok w \<Longrightarrow> sent_ok w'"
  by (auto simp: queryRead_def Option.bind_eq_Some_conv split: if_splits
      intro: laterReads_sent_ok dataQueryRead_sent_ok)

lemma driver_sent_ok:
  assumes "cs_keeps sent_ok m"
  shows "cs_keeps sent_ok (c3_connectToHost (recording ops) host port m)"
    "cs_keeps sent_ok (c3_disconnectNow (recording ops) m)"
    "cs_keeps sent_ok (c3_onSocketConnected (recording ops) m)"
    "cs_keeps sent_ok (c3_onSocketError (recording ops) m)"
    "cs_keeps sent_ok (c3_onHandshakeTimeout (recording ops) (m\<lparr>world := (world m)\<lparr>handshakeTimer := None\<rparr>\<rparr>))"
    "c3_onSocketReadyRead (recording ops) toInt m = Some m' \<Longrightarrow> cs_keeps sent_ok m'"
proof -
  have w: "sent_ok (world m)" using assms by (simp add: cs_keeps_def)
  have rep: "cs_keeps sent_ok (reportPendingConnectResult b (m\<lparr>world := w\<rparr>))" if "sent_ok w" for b w
    using that assms by (intro reportPending_keeps cs_keeps_world)
  have wrl: "cs_keeps sent_ok (m\<lparr>world := w\<rparr>)" if "sent_ok w" for w using that assms by (intro cs_keeps_world)
  have failed: "cs_keeps sent_ok (c3_attemptFailed (m\<lparr>world := w\<rparr>))" if "sent_ok w" for w
    unfolding c3_attemptFailed_def Let_def using that by (simp add: rep wrl)
  have "cs_keeps sent_ok (setHandlers (Some f) (Some q) (Some d) True (m\<lparr>world := (world m)\<lparr>c3_error := []\<rparr>\<rparr>))"
    if "\<And>w. sent_ok w \<Longrightarrow> sent_ok (snd (f w))" "\<And>w. sent_ok w \<Longrightarrow> sent_ok (snd (q w))" "\<And>w. sent_ok w \<Longrightarrow> sent_ok (d w)"
    for f q d using that assms by (simp add: cs_keeps_def setHandlers_def)
  then show "cs_keeps sent_ok (c3_connectToHost (recording ops) host port m)"
    unfolding c3_connectToHost_def Let_def by (intro beginAutoConnect_keeps) (simp add: c3_connectHandler_def Let_def case_prod_beta)
  show "cs_keeps sent_ok (c3_disconnectNow (recording ops) m)"
    unfolding c3_disconnectNow_def Let_def using w by (intro disconnectNow_keeps wrl) simp
  show "cs_keeps sent_ok (c3_onSocketConnected (recording ops) m)"
    unfolding c3_onSocketConnected_def Let_def using w by (intro wrl) simp
  show "cs_keeps sent_ok (c3_onSocketError (recording ops) m)"
    unfolding c3_onSocketError_def Let_def using w by (intro failed) simp
  show "cs_keeps sent_ok (c3_onHandshakeTimeout (recording ops) (m\<lparr>world := (world m)\<lparr>handshakeTimer := None\<rparr>\<rparr>))"
    unfolding c3_onHandshakeTimeout_def Let_def using w failed by simp
  show "c3_onSocketReadyRead (recording ops) toInt m = Some m' \<Longrightarrow> cs_keeps sent_ok m'"
    unfolding c3_onSocketReadyRead_def c3_handshakeRead_def Let_def c3_appendAll_members
    by (auto simp: Option.bind_eq_Some_conv rep wrl w queryRead_sent_ok split: HandshakeStep.splits if_splits)
qed

section \<open>The page keeps to it\<close>

text \<open>What the user controls apart from the driver, and what the sidebar shows.\<close>

definition controls :: "'s c3_page \<Rightarrow> int \<times> int \<times> nat" where
  "controls p = (cp_door p, cp_duration p, cp_countTable p)"

definition sidebar :: "'s c3_page \<Rightarrow> int \<times> bool list \<times> int list \<times> nat \<times> nat \<times> nat" where
  "sidebar p = (cp_row p, cp_hidden p, cp_jumps p, cp_protocolStack p, cp_viewStack p, cp_lastView p)"

lemma ui_frame [simp]:
  "controls (c3_request f p) = controls p" "sidebar (c3_request f p) = sidebar p" "cp_log (c3_request f p) = cp_log p"
  "controls (p\<lparr>cp_c3 := m\<rparr>) = controls p" "sidebar (p\<lparr>cp_c3 := m\<rparr>) = sidebar p"
  by (simp_all add: controls_def sidebar_def c3_request_def)

lemma refresh_ui [simp]:
  "controls (refreshC3View ops p) = controls p" "sidebar (refreshC3View ops p) = sidebar p" "cp_log (refreshC3View ops p) = cp_log p"
  "controls (refreshC3RecordCount ops p) = controls p" "sidebar (refreshC3RecordCount ops p) = sidebar p"
  "cp_log (refreshC3RecordCount ops p) = cp_log p"
  by (simp_all add: refreshC3View_def refreshC3RecordCount_def)

lemma labels_ui [simp]: "controls (updateC3Labels ops p) = controls p" "sidebar (updateC3Labels ops p) = sidebar p"
  by (simp_all add: updateC3Labels_def Let_def) (simp_all add: controls_def sidebar_def)

lemma appendLogRows_only_log: "\<exists>l. appendLogRows rowOf records p = p\<lparr>cp_log := l\<rparr>"
proof (induction records arbitrary: p)
  case Nil
  then show ?case by (intro exI [of _ "cp_log p"]) (simp add: appendLogRows_def)
next
  case (Cons r rs)
  let ?p = "case rowOf r of None \<Rightarrow> p | Some cells \<Rightarrow> appendC3LogRow cells p"
  obtain l where "appendLogRows rowOf rs ?p = ?p\<lparr>cp_log := l\<rparr>" using Cons by blast
  then show ?case
    by (intro exI [of _ l]) (simp add: appendLogRows_def appendC3LogRow_def split: option.splits)
qed

lemma appendLogRows_ui [simp]:
  "controls (appendLogRows g records p) = controls p" "sidebar (appendLogRows g records p) = sidebar p"
  "cp_c3 (appendLogRows g records p) = cp_c3 p"
  using appendLogRows_only_log [of g records p] by (auto simp: controls_def sidebar_def)

lemma slot_ui [simp]: "controls (c3_slot ops cv sig p) = controls p" "sidebar (c3_slot ops cv sig p) = sidebar p"
  by (cases sig; simp; simp add: controls_def sidebar_def rebuildC3TableForKeyValueMap_def showC3Status_def
      rebuildC3TableForRecords_def Let_def)+

lemma slots_ui: "controls (fold (c3_slot ops cv) sigs p) = controls p \<and> sidebar (fold (c3_slot ops cv) sigs p) = sidebar p"
  by (induction sigs arbitrary: p) simp_all

lemma with_c3_ui [simp]: "controls (with_c3 ops cv m p) = controls p" "sidebar (with_c3 ops cv m p) = sidebar p"
  using slots_ui [of ops cv _ "p\<lparr>cp_c3 := m\<rparr>"] by (simp_all add: with_c3_def)

text \<open>The driver of the page keeps its property through the slots.\<close>

abbreviation page_sent_ok :: "('s \<times> bytes list) c3_page \<Rightarrow> bool" where
  "page_sent_ok p \<equiv> cs_keeps sent_ok (cp_c3 p)"

lemma request_sent_ok: "page_sent_ok p \<Longrightarrow> (\<And>w. sent_ok (f w) = sent_ok w) \<Longrightarrow> page_sent_ok (c3_request f p)"
  by (simp add: c3_request_def cs_keeps_world) (simp add: cs_keeps_def)

lemma page_requests_sent_ok:
  assumes "page_sent_ok p"
  shows "page_sent_ok (refreshC3View (recording ops) p)" "page_sent_ok (refreshC3RecordCount (recording ops) p)"
    "page_sent_ok (pollC3RealtimeLog (recording ops) p)" "page_sent_ok (cancelAlarmClicked (recording ops) p)"
  using assms by (simp_all add: refreshC3View_def refreshC3RecordCount_def pollC3RealtimeLog_def cancelAlarmClicked_def
      request_sent_ok)

lemma labels_sent_ok: "page_sent_ok p \<Longrightarrow> page_sent_ok (updateC3Labels (recording ops) p)"
  by (simp add: updateC3Labels_def Let_def page_requests_sent_ok)

lemma slot_sent_ok: "page_sent_ok p \<Longrightarrow> page_sent_ok (c3_slot (recording ops) cv sig p)"
  by (cases sig) (simp_all add: labels_sent_ok rebuildC3TableForKeyValueMap_def showC3Status_def rebuildC3TableForRecords_def Let_def)

lemma with_c3_sent_ok: "cs_keeps sent_ok m \<Longrightarrow> page_sent_ok (with_c3 (recording ops) cv m p)"
proof -
  have "page_sent_ok (fold (c3_slot (recording ops) cv) sigs q)" if "page_sent_ok q" for sigs q
    using that by (induction sigs arbitrary: q) (simp_all add: slot_sent_ok)
  then show "cs_keeps sent_ok m \<Longrightarrow> page_sent_ok (with_c3 (recording ops) cv m p)" by (simp add: with_c3_def)
qed

section \<open>The sidebar\<close>

definition sub_views_hidden :: "bool \<Rightarrow> bool list" where
  "sub_views_hidden b = [False, False, b, b, b, b, b, b, b, False]"

definition sidebar_ok :: "'s c3_page \<Rightarrow> bool" where
  "sidebar_ok p \<longleftrightarrow>
     0 \<le> cp_row p \<and> cp_row p \<le> 9 \<and> cp_lastView p \<le> 6 \<and> cp_viewStack p = viewPage (cp_lastView p)
   \<and> cp_hidden p = sub_views_hidden (cp_row p = 0 \<or> cp_row p = 9)
   \<and> (cp_row p = 0 \<longrightarrow> cp_protocolStack p = 0) \<and> (cp_row p = 9 \<longrightarrow> cp_protocolStack p = 2)
   \<and> (2 \<le> cp_row p \<and> cp_row p \<le> 8 \<longrightarrow> cp_protocolStack p = 1 \<and> cp_lastView p = nat (cp_row p - 2))
   \<and> (cp_row p = 1 \<longrightarrow> cp_jumps p \<noteq> []) \<and> (\<forall>t \<in> set (cp_jumps p). 2 \<le> t \<and> t \<le> 8)"

lemma sidebar_ok_cong: "sidebar p = sidebar p' \<Longrightarrow> sidebar_ok p = sidebar_ok p'"
  by (simp add: sidebar_def sidebar_ok_def)

lemma setSubViews [simp]: "cp_hidden p = sub_views_hidden b \<Longrightarrow> setSubViewsHidden b' p = p\<lparr>cp_hidden := sub_views_hidden b'\<rparr>"
  by (simp add: setSubViewsHidden_def sub_views_hidden_def upt_rec)

lemma setCurrentRow_ok:
  assumes "0 \<le> row" and "row \<le> 9" and h: "cp_hidden p = sub_views_hidden b" and "cp_lastView p \<le> 6" and "row \<noteq> cp_row p"
    and "cp_viewStack p = viewPage (cp_lastView p)" and "\<forall>t \<in> set (cp_jumps p). 2 \<le> t \<and> t \<le> 8"
  shows "sidebar_ok (setCurrentRow ops row p) \<and> cp_row (setCurrentRow ops row p) = row
     \<and> (row \<noteq> 1 \<longrightarrow> cp_jumps (setCurrentRow ops row p) = cp_jumps p)"
proof -
  consider "row = 0" | "row = 1" | "row = 9" | "2 \<le> row" "row \<le> 8" using assms by linarith
  then show ?thesis
  proof cases
    case 4
    let ?l = "nat (row - 2)"
    let ?q = "p\<lparr>cp_row := row, cp_lastView := ?l, cp_protocolStack := 1, cp_hidden := sub_views_hidden False, cp_viewStack := viewPage ?l\<rparr>"
    have "setCurrentRow ops row p =
        (if viewPage ?l = 0 then refreshC3View ops ?q else if viewPage ?l = 3 then refreshC3RecordCount ops ?q else ?q)"
      using 4 assms by (simp add: setCurrentRow_def onSidebarRowChanged_def Let_def)
    then have "sidebar (setCurrentRow ops row p) = sidebar ?q" by simp
    then show ?thesis using 4 assms by (simp add: sidebar_def sidebar_ok_def)
  qed (use assms in \<open>auto simp: setCurrentRow_def onSidebarRowChanged_def Let_def sidebar_ok_def\<close>)
qed

lemma jumpFires_ok:
  assumes "sidebar_ok p"
  shows "sidebar_ok (jumpFires ops p) \<and> length (cp_jumps (jumpFires ops p)) = length (cp_jumps p) - 1"
proof (cases "cp_jumps p")
  case (Cons t ts)
  let ?p = "p\<lparr>cp_jumps := ts\<rparr>"
  show ?thesis
  proof (cases "cp_row p = 1")
    case True
    have "2 \<le> t" "t \<le> 8" using assms Cons by (simp_all add: sidebar_ok_def)
    then have "sidebar_ok (setCurrentRow ops t ?p) \<and> cp_row (setCurrentRow ops t ?p) = t
        \<and> (t \<noteq> 1 \<longrightarrow> cp_jumps (setCurrentRow ops t ?p) = cp_jumps ?p)"
      using assms Cons True by (intro setCurrentRow_ok [where b = False]) (auto simp: sidebar_ok_def)
    then show ?thesis using Cons True \<open>2 \<le> t\<close> by (simp add: jumpFires_def)
  next
    case False
    then show ?thesis using assms Cons by (auto simp: jumpFires_def sidebar_ok_def)
  qed
qed (use assms in \<open>simp add: jumpFires_def\<close>)

lemma jumps_settle:
  "sidebar_ok p \<Longrightarrow> length (cp_jumps p) = n \<Longrightarrow> sidebar_ok ((jumpFires ops ^^ n) p) \<and> cp_jumps ((jumpFires ops ^^ n) p) = []"
proof (induction n arbitrary: p)
  case (Suc n)
  have "sidebar_ok (jumpFires ops p)" "length (cp_jumps (jumpFires ops p)) = n"
    using jumpFires_ok [OF Suc.prems(1), of ops] Suc.prems(2) by simp_all
  then show ?case using Suc.IH by (simp add: funpow_Suc_right del: funpow.simps)
qed simp

section \<open>Runs of the page\<close>

definition controls_ok :: "'s c3_page \<Rightarrow> bool" where
  "controls_ok p \<longleftrightarrow> 1 \<le> cp_door p \<and> cp_door p \<le> 4 \<and> 1 \<le> cp_duration p \<and> cp_duration p \<le> 254 \<and> cp_countTable p < length countTables"

lemma controls_ok_cong: "controls p = controls p' \<Longrightarrow> controls_ok p = controls_ok p'"
  by (simp add: controls_def controls_ok_def)

lemma row_controls [simp]: "controls (setCurrentRow ops row p) = controls p" "controls (jumpFires ops p) = controls p"
proof -
  have *: "controls (setCurrentRow ops row p) = controls p" for row and p :: "'a c3_page"
    by (simp add: setCurrentRow_def onSidebarRowChanged_def setSubViewsHidden_def Let_def) (simp add: controls_def)
  show "controls (setCurrentRow ops row p) = controls p" "controls (jumpFires ops p) = controls p"
    by (simp_all add: * jumpFires_def Let_def split: list.split) (simp_all add: controls_def)
qed

lemma clicks_ui [simp]:
  "controls (onC3ConnectClicked ops cv p) = controls p" "sidebar (onC3ConnectClicked ops cv p) = sidebar p"
  "controls (doorOpenClicked ops p) = controls p" "sidebar (doorOpenClicked ops p) = sidebar p"
  "controls (cancelAlarmClicked ops p) = controls p" "sidebar (cancelAlarmClicked ops p) = sidebar p"
  "controls (pollC3RealtimeLog ops p) = controls p" "sidebar (pollC3RealtimeLog ops p) = sidebar p"
  "controls (c3_timer ops cv ti f p) = controls p" "sidebar (c3_timer ops cv ti f p) = sidebar p"
  by (simp_all add: onC3ConnectClicked_def doorOpenClicked_def cancelAlarmClicked_def pollC3RealtimeLog_def c3_timer_def)
     (simp_all add: controls_def sidebar_def c3_request_def)

lemma step_controls:
  assumes "c3_page_step ops toInt cv p e = Some p'" and "controls_ok p"
  shows "controls_ok p'"
proof (cases "\<exists>v. e = DoorChanged v \<or> e = DurationChanged v")
  case True
  then show ?thesis using assms by (auto simp: controls_ok_def spin_def)
next
  case False
  show ?thesis
  proof (cases "\<exists>n. e = CountTableChanged n")
    case True
    then obtain n where "e = CountTableChanged n" by blast
    then have "controls p' = (cp_door p, cp_duration p, if n < length countTables then n else cp_countTable p)"
      using assms(1) by (auto simp: controls_def [of p] split: if_splits) (simp_all add: controls_def)
    then show ?thesis using assms(2) by (simp add: controls_def controls_ok_def split: if_splits)
  next
    case other: False
    then have "controls p' = controls p"
      using assms(1) False by (cases e) (auto simp: Let_def, auto simp: controls_def)
    then show ?thesis using assms(2) controls_ok_cong by blast
  qed
qed

lemma step_sidebar:
  assumes s: "c3_page_step ops toInt cv p e = Some p'" and ok: "sidebar_ok p"
  shows "sidebar_ok p'"
proof -
  have select: "sidebar_ok (setCurrentRow ops row p)" if "0 \<le> row" "row \<le> 9" for row
  proof (cases "row = cp_row p")
    case True
    then show ?thesis using ok by (simp add: setCurrentRow_def)
  next
    case False
    then show ?thesis using that ok
      by (intro setCurrentRow_ok [where b = "cp_row p = 0 \<or> cp_row p = 9", THEN conjunct1]) (simp_all add: sidebar_ok_def)
  qed
  consider row where "e = RowSelected row" | "e = JumpFires" | "\<forall>row. e \<noteq> RowSelected row" "e \<noteq> JumpFires" by blast
  then show ?thesis
  proof cases
    case 1
    then show ?thesis using s ok select by (auto split: if_splits)
  next
    case 2
    then show ?thesis using s ok jumpFires_ok by auto
  next
    case 3
    then have "sidebar p' = sidebar p" using s by (cases e) (auto simp: Let_def, auto simp: sidebar_def)
    then show ?thesis using ok sidebar_ok_cong by blast
  qed
qed

lemma door_bytes:
  "1 \<le> d \<Longrightarrow> d \<le> 4 \<Longrightarrow> 1 \<le> (of_int d :: u8) \<and> (of_int d :: u8) \<le> 4"
  "1 \<le> t \<Longrightarrow> t \<le> 254 \<Longrightarrow> 1 \<le> (of_int t :: u8) \<and> (of_int t :: u8) \<le> 254"
  by (simp_all add: word_le_def uint_word_of_int)

lemma row_sent_ok: "page_sent_ok p \<Longrightarrow> page_sent_ok (setCurrentRow (recording ops) row p)"
  by (simp add: setCurrentRow_def onSidebarRowChanged_def setSubViewsHidden_def Let_def page_requests_sent_ok)

lemma timer_sent_ok:
  "page_sent_ok p \<Longrightarrow> (\<And>w. sent_ok (f w) = sent_ok w) \<Longrightarrow> page_sent_ok (c3_timer (recording ops) cv ti f p)"
  by (auto simp: c3_timer_def dest: cs_keepsD intro!: with_c3_sent_ok cs_keeps_world)

lemma step_sent_ok:
  assumes s: "c3_page_step (recording ops) toInt cv p e = Some p'" and ok: "page_sent_ok p" and c: "controls_ok p"
    and env: "\<And>sk. e = C3SocketChanges sk \<Longrightarrow> snd sk = snd (c3_socket (world (cp_c3 p)))"
  shows "page_sent_ok p'"
proof (cases e)
  case (RowSelected row)
  then show ?thesis using s ok row_sent_ok by (auto split: if_splits)
next
  case JumpFires
  then show ?thesis using s ok by (auto simp: jumpFires_def Let_def row_sent_ok split: list.split)
next
  case C3ConnectClicked
  then show ?thesis using s driver_sent_ok(1,2) [OF ok] by (auto simp: onC3ConnectClicked_def with_c3_sent_ok labels_sent_ok)
next
  case (CountTableChanged n)
  then show ?thesis using s ok by (auto simp: page_requests_sent_ok split: if_splits)
next
  case DoorOpenClicked
  have "1 \<le> cp_door p" "cp_door p \<le> 4" "1 \<le> cp_duration p" "cp_duration p \<le> 254" using c by (simp_all add: controls_ok_def)
  then have "page_sent_ok (c3_request (controlDoorOutput (recording ops) (of_int (cp_door p)) (of_int (cp_duration p))) p)"
    using ok door_bytes unlock_sent_ok by (intro request_sent_ok) blast+
  then show ?thesis using s ok DoorOpenClicked by (auto simp: doorOpenClicked_def split: if_splits)
next
  case C3ReadyRead
  then show ?thesis using s driver_sent_ok(6) [OF ok] by (auto intro: with_c3_sent_ok)
next
  case C3HandshakeTimeout
  then show ?thesis using s ok driver_sent_ok(5) [OF ok] by (auto simp: Let_def with_c3_sent_ok split: if_splits)
next
  case (C3SocketChanges sk)
  then have "sent_ok ((world (cp_c3 p))\<lparr>c3_socket := sk\<rparr>)"
    using env ok by (simp add: sent_ok_def written_def cs_keeps_def)
  then show ?thesis using s ok C3SocketChanges by (auto simp: c3_request_def cs_keeps_world)
qed (use s ok page_requests_sent_ok [OF ok] driver_sent_ok [OF ok] ticks_keep [OF ok] in
    \<open>auto simp: with_c3_sent_ok onDataQueryTimeout_def onCountQueryTimeout_def onRtLogQueryTimeout_def onControlTimeout_def
       onGetParamTimeout_def intro!: timer_sent_ok\<close>)

text \<open>
  The reachable pages: init restricts the socket the window starts with, env what the outside world does to it.
\<close>

inductive c3_page_reachable ::
  "('s \<Rightarrow> bool) \<Rightarrow> ('s \<Rightarrow> 's \<Rightarrow> bool) \<Rightarrow> 's socket_ops \<Rightarrow> (string \<Rightarrow> int) \<Rightarrow> text_conv \<Rightarrow> 's c3_page \<Rightarrow> bool"
  for init env ops toInt cv where
  c3_page_start: "init sk \<Longrightarrow> c3_page_reachable init env ops toInt cv (newC3Page ops sk)"
| c3_page_next: "c3_page_reachable init env ops toInt cv p \<Longrightarrow> c3_page_step ops toInt cv p e = Some p' \<Longrightarrow>
    (\<And>sk. e = C3SocketChanges sk \<Longrightarrow> env (c3_socket (world (cp_c3 p))) sk) \<Longrightarrow> c3_page_reachable init env ops toInt cv p'"

lemma new_page:
  "newC3Page ops sk =
     \<lparr>cp_c3 = newC3Connection sk, cp_row = 0, cp_hidden = sub_views_hidden True, cp_jumps = [], cp_protocolStack = 0,
      cp_viewStack = 0, cp_lastView = 0, cp_host = ''192.168.2.163'', cp_port = 4370, cp_showsConnected = False, cp_headers = [],
      cp_rows = [], cp_log = [], cp_door = 1, cp_duration = 3, cp_controlResult = ''Last result: -'', cp_countTable = 0,
      cp_countResult = ''Count: -''\<rparr>"
proof -
  have "\<not> c3_isReady ops (world (newC3Connection sk))" by (simp add: c3_isReady_def newC3Connection_def newConnectionState_def)
  then show ?thesis
    by (simp add: newC3Page_def updateC3Labels_def c3_ready_def setCurrentRow_def onSidebarRowChanged_def setSubViewsHidden_def
        sub_views_hidden_def upt_rec Let_def)
qed

lemma page_reachable_ui: "c3_page_reachable init env ops toInt cv p \<Longrightarrow> sidebar_ok p \<and> controls_ok p"
proof (induction rule: c3_page_reachable.induct)
  case (c3_page_start sk)
  show ?case by (simp add: new_page sidebar_ok_def controls_ok_def countTables_def viewPage_def view_indices)
next
  case (c3_page_next p e p')
  then show ?case using step_sidebar step_controls by blast
qed

lemma page_reachable_sent_ok:
  "c3_page_reachable (\<lambda>sk. snd sk = []) (\<lambda>sk sk'. snd sk' = snd sk) (recording ops) toInt cv p \<Longrightarrow> page_sent_ok p"
proof (induction rule: c3_page_reachable.induct)
  case (c3_page_start sk)
  then show ?case
    by (simp add: new_page cs_keeps_def newC3Connection_def newConnectionState_def c3_onStateChanged_def)
       (simp add: sent_ok_def written_def)
next
  case (c3_page_next p e p')
  then show ?case using step_sent_ok [of ops toInt cv p e p'] page_reachable_ui by blast
qed

text \<open>
  C22. The window can only unlock doors for a time: whatever the user, the panel and the network do, every control command
  ever written to the panel's socket opens one of the doors 1 to 4 for 1 to 254 seconds, or cancels an alarm; it never
  opens a door for good, closes one, switches an auxiliary output, changes a door's mode or restarts the device.
\<close>

theorem demo_c3_only_timed_unlocks:
  assumes "c3_page_reachable (\<lambda>sk. snd sk = []) (\<lambda>sk sk'. snd sk' = snd sk) (recording ops) toInt cv p"
    and "f \<in> set (written (world (cp_c3 p)))" and "f ! 2 = kCommandControl"
  shows "(\<exists>door seconds s i n. 1 \<le> door \<and> door \<le> 4 \<and> 1 \<le> seconds \<and> seconds \<le> 254
       \<and> f = encodeControlRequest Output door (controlOutputAddressValue Door) seconds s i n)
     \<or> (\<exists>s i n. f = encodeControlRequest CancelAlarm 0 0 0 s i n)"
  using page_reachable_sent_ok [OF assms(1)] assms(2,3)
  by (auto simp: cs_keeps_def sent_ok_def allowed_def timed_unlock_def alarm_cancel_def)

text \<open>
  C24. The sidebar and the pages agree in every run, and the sidebar is never stuck on the C3 header: the protocol page and the view are those of the
  current row, the views of the C3 page can be selected exactly when the C3 page or its header is current, the current row is
  never hidden; and once the pending jumps have fired the header is not current.
\<close>

theorem demo_sidebar_never_stuck:
  assumes "c3_page_reachable init env ops toInt cv p"
  shows "0 \<le> cp_row p \<and> cp_row p \<le> 9 \<and> \<not> cp_hidden p ! nat (cp_row p)
   \<and> (cp_row p = 0 \<longrightarrow> cp_protocolStack p = 0) \<and> (cp_row p = 9 \<longrightarrow> cp_protocolStack p = 2)
   \<and> (2 \<le> cp_row p \<and> cp_row p \<le> 8 \<longrightarrow>
        cp_protocolStack p = 1 \<and> int (cp_lastView p) = cp_row p - 2 \<and> cp_viewStack p = viewPage (cp_lastView p))
   \<and> (\<forall>r. 2 \<le> r \<and> r \<le> 8 \<longrightarrow> cp_hidden p ! r = (cp_row p = 0 \<or> cp_row p = 9))
   \<and> (let q = (jumpFires ops ^^ length (cp_jumps p)) p in cp_row q \<noteq> 1 \<and> cp_jumps q = [])"
proof -
  have ok: "sidebar_ok p" using page_reachable_ui [OF assms] by blast
  have rows: "r = 0 \<or> r = 1 \<or> r = 2 \<or> r = 3 \<or> r = 4 \<or> r = 5 \<or> r = 6 \<or> r = 7 \<or> r = 8 \<or> r = 9" if "0 \<le> r" "r \<le> 9" for r :: int
    using that by presburger
  have h: "\<not> sub_views_hidden (r = 0 \<or> r = 9) ! nat r" if "0 \<le> r" "r \<le> 9" for r :: int
    using rows [OF that] by (auto simp: sub_views_hidden_def)
  have n: "sub_views_hidden b ! r = b" if "2 \<le> r" "r \<le> 8" for b and r :: nat
  proof -
    have "r = 2 \<or> r = 3 \<or> r = 4 \<or> r = 5 \<or> r = 6 \<or> r = 7 \<or> r = 8" using that by linarith
    then show ?thesis by (auto simp: sub_views_hidden_def)
  qed
  let ?q = "(jumpFires ops ^^ length (cp_jumps p)) p"
  have q: "sidebar_ok ?q" "cp_jumps ?q = []" using jumps_settle [OF ok refl, of ops] by simp_all
  then have "cp_row ?q \<noteq> 1" by (auto simp: sidebar_ok_def)
  then show ?thesis using ok h [of "cp_row p"] n q(2) by (simp add: sidebar_ok_def Let_def)
qed

section \<open>The log\<close>

lemma removeFirstRows_drop: "removeFirstRows k xs = drop (length xs - k) xs"
  by (induction xs) (auto simp: Suc_diff_le not_less drop_Cons' split: if_splits)

definition newest :: "'a list \<Rightarrow> 'a list" where
  "newest xs = drop (length xs - kMaxLogRows) xs"

lemma newest_append: "newest (newest xs @ ys) = newest (xs @ ys)"
  by (cases "length xs \<le> kMaxLogRows") (auto simp: newest_def add.commute)

lemma appendLogRows_newest:
  "length (cp_log p) \<le> kMaxLogRows \<Longrightarrow> cp_log (appendLogRows g records p) = newest (cp_log p @ List.map_filter g records)"
proof (induction records arbitrary: p)
  case Nil
  then show ?case by (simp add: appendLogRows_def newest_def List.map_filter_simps)
next
  case (Cons r rs)
  show ?case
  proof (cases "g r")
    case None
    then show ?thesis using Cons by (simp add: appendLogRows_def List.map_filter_simps)
  next
    case (Some cells)
    let ?p = "appendC3LogRow cells p"
    have l: "cp_log ?p = newest (cp_log p @ [cells])"
      by (simp add: appendC3LogRow_def removeFirstRows_drop newest_def)
    then have "length (cp_log ?p) \<le> kMaxLogRows" by (simp add: newest_def)
    then have "cp_log (appendLogRows g rs ?p) = newest (newest (cp_log p @ [cells]) @ List.map_filter g rs)"
      using Cons.IH l by simp
    then show ?thesis using Some by (simp add: appendLogRows_def List.map_filter_simps newest_append)
  qed
qed

abbreviation log_ok :: "'s c3_page \<Rightarrow> bool" where
  "log_ok p \<equiv> length (cp_log p) \<le> kMaxLogRows"

lemma labels_log: "log_ok p \<Longrightarrow> log_ok (updateC3Labels ops p)"
  by (simp add: updateC3Labels_def Let_def)

lemma slot_log: "log_ok p \<Longrightarrow> log_ok (c3_slot ops cv sig p)"
  by (cases sig) (simp_all add: labels_log appendLogRows_newest rebuildC3TableForKeyValueMap_def showC3Status_def
      rebuildC3TableForRecords_def Let_def, simp_all add: newest_def)

lemma with_c3_log: "log_ok p \<Longrightarrow> log_ok (with_c3 ops cv m p)"
proof -
  have "log_ok (fold (c3_slot ops cv) sigs q)" if "log_ok q" for sigs q
    using that by (induction sigs arbitrary: q) (simp_all add: slot_log)
  then show "log_ok p \<Longrightarrow> log_ok (with_c3 ops cv m p)" by (simp add: with_c3_def)
qed

lemma row_log [simp]: "cp_log (setCurrentRow ops row p) = cp_log p"
  by (simp add: setCurrentRow_def onSidebarRowChanged_def setSubViewsHidden_def Let_def)

lemma step_log: "c3_page_step ops toInt cv p e = Some p' \<Longrightarrow> log_ok p \<Longrightarrow> log_ok p'"
  by (cases e) (auto simp: Let_def with_c3_log labels_log onC3ConnectClicked_def c3_timer_def jumpFires_def doorOpenClicked_def
      cancelAlarmClicked_def pollC3RealtimeLog_def split: list.split)

text \<open>
  The real-time log is the newest 500 card events: in every run the log has at most 500 rows, and a reply of either
  format adds, in order, one row for each record with a card number and none for the others, dropping the oldest rows.
\<close>

theorem demo_c3_log_newest:
  assumes "c3_page_reachable init env ops toInt cv p"
  shows "length (cp_log p) \<le> kMaxLogRows
   \<and> cp_log (c3_slot ops cv (RealtimeLogReceived records) p) = newest (cp_log p @ List.map_filter binaryLogRow records)
   \<and> cp_log (c3_slot ops cv (RealtimeLogKeyValueReceived rs) p) = newest (cp_log p @ List.map_filter (keyValueLogRow cv) rs)"
proof -
  have "log_ok p"
    using assms
  proof (induction rule: c3_page_reachable.induct)
    case (c3_page_next p e p')
    then show ?case using step_log by blast
  qed (simp add: new_page)
  then show ?thesis by (simp add: appendLogRows_newest)
qed

section \<open>Replies are not matched to requests\<close>

text \<open>
  While a table query waits, selecting the view of another table sends nothing, and the records of the first table are shown
  under the second view.
\<close>

theorem demo_c3_shows_other_table:
  assumes "dataQueryPending (world (cp_c3 p))" and "cp_row p = 3" and "cp_lastView p = kC3ViewUsers"
  shows "let q = setCurrentRow ops 4 p
     in cp_lastView q = kC3ViewTemplates \<and> world (cp_c3 q) = world (cp_c3 p)
        \<and> c3_slot ops cv (TableDataReceived ''user'' records) q = rebuildC3TableForRecords cv records q"
proof -
  have "requestTableData ops name (world (cp_c3 p)) = world (cp_c3 p)" for name
    using assms(1) by (simp add: requestTableData_def)
  then show ?thesis using assms(2)
    by (simp add: Let_def setCurrentRow_def onSidebarRowChanged_def setSubViewsHidden_def refreshC3View_def viewPage_def
        view_indices c3_request_def)
qed

text \<open>
  Moving on from the device information to the users before the panel has answered: two requests of different kinds are pending, and
  the replies are handed out by kind, not in the order of the requests. The reply to the first request is taken for
  the table configuration, and the table configuration for device parameters.
\<close>

lemma c3_replies_by_kind:
  assumes "dataQueryPending w" and "dataQueryStep w = DqAwaitingTableConfig" and "getParamPending w" and "c3_readBuffer w = []"
    and "\<not> connectAttemptPending w" and "\<not> rtLogQueryPending w" and "\<not> controlPending w"
    and r: "sock_readAll ops (c3_socket w) = (c3_wire v kReplyOk (blk @ parameters), sk)"
    and "length blk = (if sessionLess w then 0 else 4)" and "length blk + length parameters < 65536"
    and t: "tableNamed (pendingTableName w) (parseTables toInt (split_bytes 10 parameters)) = None"
    and r': "sock_readAll ops sk' = (c3_wire v kReplyOk (blk @ configuration), sk'')"
    and "length blk + length configuration < 65536" and "configuration \<noteq> []"
  shows "\<exists>w' w''. queryRead ops toInt w = Some w'
     \<and> c3_emitted w' = c3_emitted w @ [TableDataFailed (pendingTableName w) (''panel has no '' @ quoted (pendingTableName w) @ '' table'')]
     \<and> queryRead ops toInt (w'\<lparr>c3_socket := sk'\<rparr>) = Some w''
     \<and> c3_emitted w'' = c3_emitted w' @ [DeviceParamsReceived (insertPairs (parseKeyValuePairs configuration))]"
proof -
  have strip: "strip_session (\<not> sessionLess w) (blk @ x) = x" for x
    using assms(9) by (cases "sessionLess w") (simp_all add: strip_session_def)
  have ok: "decodeFrameGeneric (c3_wire v kReplyOk (blk @ x)) (\<not> sessionLess w)
      = Some \<lparr>df_status = C3Ok, df_payload = x, df_command = kReplyOk\<rparr>" if "length blk + length x < 65536" for x
    using decodeFrameGeneric_wire [of "blk @ x" kReplyOk v "[]" "\<not> sessionLess w"] that strip
    by (simp add: kReplyOk_def kReplyError_def)
  let ?w' = "dq_fail (''panel has no '' @ quoted (pendingTableName w) @ '' table'')
      (w\<lparr>c3_socket := sk, dataQueryTimer := None, c3_readBuffer := []\<rparr>)"
  have 1: "queryRead ops toInt w = Some ?w'"
    using assms(1-4) r t ok [OF assms(10)]
    by (simp add: queryRead_def dataQueryRead_def dq_onTableConfig_def c3_appendAll_def decodeDataTableConfigResponse_def Let_def)
  let ?w'' = "c3_emit (DeviceParamsReceived (insertPairs (parseKeyValuePairs configuration)))
      (?w'\<lparr>c3_socket := sk'', getParamTimer := None, getParamPending := False\<rparr>)"
  have 2: "queryRead ops toInt (?w'\<lparr>c3_socket := sk'\<rparr>) = Some ?w''"
    using assms(3,6,7,14) r' ok [OF assms(13)]
    by (simp add: queryRead_def laterReads_def getParamRead_def dq_fail_def c3_emit_def c3_appendAll_def decodeGetParamResponse_def Let_def)
  show ?thesis by (rule exI [of _ ?w'], rule exI [of _ ?w''], intro conjI 1 2) (simp_all add: dq_fail_def c3_emit_def)
qed

definition demo_impatient :: "log_socket c3_world" where
  "demo_impatient = requestTableData log_ops ''user'' (requestDeviceParams log_ops deviceInfoNames (world demo_session))"

lemma demo_session_idle:
  "\<not> getParamPending (world demo_session)" "\<not> rtLogQueryPending (world demo_session)" "\<not> controlPending (world demo_session)"
  by (simp_all add: demo_session_def demo_c3_defs demo_reply)

lemma demo_impatient_fields:
  "dataQueryPending demo_impatient" "dataQueryStep demo_impatient = DqAwaitingTableConfig" "getParamPending demo_impatient"
  "c3_readBuffer demo_impatient = []" "\<not> connectAttemptPending demo_impatient" "\<not> rtLogQueryPending demo_impatient"
  "\<not> controlPending demo_impatient" "\<not> sessionLess demo_impatient" "pendingTableName demo_impatient = ''user''"
  by (simp_all add: demo_impatient_def requestTableData_def requestDeviceParams_def c3_isReady_def Let_def log_ops_def
      demo_session_fields demo_session_idle c3_send_def)

lemma demo_parse: "tableNamed ''user'' (parseTables (\<lambda>_. 0) (split_bytes 10 (toLatin1 ''FirmVer=1''))) = None"
  by code_simp

lemma demo_pairs: "parseKeyValuePairs (toLatin1 ''user=1,Pin=i1'') = [(''user'', ''1''), (''Pin'', ''i1'')]"
  by code_simp

definition panel_frame :: "string \<Rightarrow> bytes" where
  "panel_frame payload = c3_wire 1 kReplyOk ([0x34, 0x12, 0, 0] @ toLatin1 payload)"

theorem c3_reply_taken_by_other_request:
  "c3_reachable log_ops (\<lambda>_. 0) (demo_session\<lparr>world := demo_impatient\<rparr>)
   \<and> (\<exists>w w'. queryRead log_ops (\<lambda>_. 0) (demo_impatient\<lparr>c3_socket := demo_sock (panel_frame ''FirmVer=1'') True\<rparr>) = Some w
        \<and> c3_emitted w = c3_emitted demo_impatient @ [TableDataFailed ''user'' (''panel has no '' @ quoted ''user'' @ '' table'')]
        \<and> queryRead log_ops (\<lambda>_. 0) (w\<lparr>c3_socket := demo_sock (panel_frame ''user=1,Pin=i1'') True\<rparr>) = Some w'
        \<and> c3_emitted w' = c3_emitted w @ [DeviceParamsReceived [''user'' \<mapsto> VString ''1'', ''Pin'' \<mapsto> VString ''i1'']])"
proof
  let ?p = "demo_session\<lparr>world := requestDeviceParams log_ops deviceInfoNames (world demo_session)\<rparr>"
  have p: "c3_reachable log_ops (\<lambda>_. 0) ?p"
    by (rule c3_reachable.c3_next [OF demo_session_reachable c3_step.c3_member [OF c3_world_step.device_params]])
  have "c3_reachable log_ops (\<lambda>_. 0) (?p\<lparr>world := requestTableData log_ops ''user'' (world ?p)\<rparr>)"
    by (rule c3_reachable.c3_next [OF p c3_step.c3_member [OF c3_world_step.table_data]])
  then show "c3_reachable log_ops (\<lambda>_. 0) (demo_session\<lparr>world := demo_impatient\<rparr>)" by (simp add: demo_impatient_def)
next
  let ?w = "demo_impatient\<lparr>c3_socket := demo_sock (panel_frame ''FirmVer=1'') True\<rparr>"
  let ?params = "toLatin1 ''FirmVer=1''" and ?config = "toLatin1 ''user=1,Pin=i1''"
  have len: "length (toLatin1 s) = length s" for s by (simp add: toLatin1_def)
  have rd: "sock_readAll log_ops (demo_sock b True) = (b, demo_sock [] True)" for b by (simp add: log_ops_def demo_sock_def)
  have "\<exists>w w'. queryRead log_ops (\<lambda>_. 0) ?w = Some w
     \<and> c3_emitted w = c3_emitted ?w @ [TableDataFailed (pendingTableName ?w) (''panel has no '' @ quoted (pendingTableName ?w) @ '' table'')]
     \<and> queryRead log_ops (\<lambda>_. 0) (w\<lparr>c3_socket := demo_sock (panel_frame ''user=1,Pin=i1'') True\<rparr>) = Some w'
     \<and> c3_emitted w' = c3_emitted w @ [DeviceParamsReceived (insertPairs (parseKeyValuePairs ?config))]"
    by (rule c3_replies_by_kind [where blk = "[0x34, 0x12, 0, 0]" and v = 1 and parameters = ?params and sk = "demo_sock [] True"
          and sk'' = "demo_sock [] True"])
       (simp_all add: demo_impatient_fields demo_parse len rd panel_frame_def, simp add: toLatin1_def)
  moreover have "insertPairs (parseKeyValuePairs ?config) = [''user'' \<mapsto> VString ''1'', ''Pin'' \<mapsto> VString ''i1'']"
    unfolding demo_pairs by (simp add: insertPairs_def)
  ultimately show "\<exists>w w'. queryRead log_ops (\<lambda>_. 0) ?w = Some w
        \<and> c3_emitted w = c3_emitted demo_impatient @ [TableDataFailed ''user'' (''panel has no '' @ quoted ''user'' @ '' table'')]
        \<and> queryRead log_ops (\<lambda>_. 0) (w\<lparr>c3_socket := demo_sock (panel_frame ''user=1,Pin=i1'') True\<rparr>) = Some w'
        \<and> c3_emitted w' = c3_emitted w @ [DeviceParamsReceived [''user'' \<mapsto> VString ''1'', ''Pin'' \<mapsto> VString ''i1'']]"
    by (simp add: demo_impatient_fields)
qed

section \<open>Concrete runs\<close>

abbreviation any_socket :: "'s \<Rightarrow> bool" where "any_socket \<equiv> \<lambda>_. True"

definition demo_conv :: text_conv where
  "demo_conv = \<lparr>tc_toUInt = (\<lambda>_. 0), tc_toULongLong = (\<lambda>_. None)\<rparr>"

definition header_page :: "log_socket c3_page" where
  "header_page = setCurrentRow log_ops 1 (newC3Page log_ops (demo_sock [] False))"

lemma header_page_reachable: "c3_page_reachable any_socket (\<lambda>_ _. True) log_ops (\<lambda>_. 0) demo_conv header_page"
  by (rule c3_page_next [OF c3_page_start [of any_socket "demo_sock [] False"], where e = "RowSelected 1"])
     (simp_all add: header_page_def new_page sub_views_hidden_def)

theorem demo_sidebar_never_stuck_witness:
  "cp_row header_page = 1 \<and> cp_jumps header_page = [2] \<and> cp_row (jumpFires log_ops header_page) \<noteq> 1"
proof -
  have h: "cp_row header_page = 1" "cp_jumps header_page = [2]"
    by (simp_all add: header_page_def new_page setCurrentRow_def onSidebarRowChanged_def setSubViewsHidden_def Let_def)
  then show ?thesis using demo_sidebar_never_stuck [OF header_page_reachable] by (simp add: Let_def)
qed

theorem demo_c3_log_newest_witness:
  "cp_log (c3_slot log_ops demo_conv
       (RealtimeLogReceived [emptyRtLogRecord, emptyRtLogRecord\<lparr>rt_cardNo := 7\<rparr>]) header_page)
     = [[decodeC3DateTime 0, dec_digits 7, dec_digits 0, dec_digits 0, dec_digits 0, dec_digits 0, dec_digits 0]]"
proof -
  have "cp_log header_page = []" by (simp add: header_page_def new_page)
  then show ?thesis
    using demo_c3_log_newest [OF header_page_reachable,
        of "[emptyRtLogRecord, emptyRtLogRecord\<lparr>rt_cardNo := 7\<rparr>]" "[]"]
    by (simp add: newest_def kMaxLogRows_def binaryLogRow_def emptyRtLogRecord_def List.map_filter_simps)
qed

text \<open>The page connects to a panel that opens a session, and the user opens the door.\<close>

abbreviation rec_ops :: "(log_socket \<times> bytes list) socket_ops" where "rec_ops \<equiv> recording log_ops"

definition door_page_0 :: "(log_socket \<times> bytes list) c3_page" where
  "door_page_0 = with_c3 rec_ops demo_conv
     (c3_onSocketConnected rec_ops (cp_c3 (onC3ConnectClicked rec_ops demo_conv (newC3Page rec_ops (demo_sock [] True, [])))))
     (onC3ConnectClicked rec_ops demo_conv (newC3Page rec_ops (demo_sock [] True, [])))"

definition door_page_1 :: "(log_socket \<times> bytes list) c3_page" where
  "door_page_1 = c3_request (\<lambda>w. w\<lparr>c3_socket := (demo_sock (c3_wire 1 kReplyOk [0x34, 0x12]) True, snd (c3_socket w))\<rparr>) door_page_0"

definition door_page_2 :: "(log_socket \<times> bytes list) c3_page" where
  "door_page_2 = the (c3_page_step rec_ops (\<lambda>_. 0) demo_conv door_page_1 C3ReadyRead)"

definition door_page :: "(log_socket \<times> bytes list) c3_page" where
  "door_page = doorOpenClicked rec_ops door_page_2"

lemma door_page_2_step: "c3_page_step rec_ops (\<lambda>_. 0) demo_conv door_page_1 C3ReadyRead = Some door_page_2"
  using c3_onSocketReadyRead_total [of rec_ops "\<lambda>_. 0" "cp_c3 door_page_1"] by (auto simp: door_page_2_def)

abbreviation recorded_page :: "(log_socket \<times> bytes list) c3_page \<Rightarrow> bool" where
  "recorded_page \<equiv> c3_page_reachable (\<lambda>sk. snd sk = []) (\<lambda>sk sk'. snd sk' = snd sk) rec_ops (\<lambda>_. 0) demo_conv"

lemma door_page_reachable: "recorded_page door_page"
proof -
  have a: "recorded_page (newC3Page rec_ops (demo_sock [] True, []))" by (rule c3_page_start) simp
  have b: "recorded_page (onC3ConnectClicked rec_ops demo_conv (newC3Page rec_ops (demo_sock [] True, [])))"
    by (rule c3_page_next [OF a, where e = C3ConnectClicked]) simp_all
  have c: "recorded_page door_page_0"
    by (rule c3_page_next [OF b, where e = C3SocketConnected]) (simp_all add: door_page_0_def)
  have d: "recorded_page door_page_1"
    by (rule c3_page_next [OF c, where e = "C3SocketChanges (demo_sock (c3_wire 1 kReplyOk [0x34, 0x12]) True,
          snd (c3_socket (world (cp_c3 door_page_0))))"])
       (simp_all add: door_page_1_def c3_request_def)
  have "recorded_page door_page_2" by (rule c3_page_next [OF d door_page_2_step]) simp
  then show ?thesis by (rule c3_page_next [where e = DoorOpenClicked]) (simp_all add: door_page_def)
qed

lemma door_page_0_driver:
  "cp_c3 door_page_0 = c3_onSocketConnected rec_ops (c3_connectToHost rec_ops ''192.168.2.163'' 4370 (newC3Connection (demo_sock [] True, [])))"
  by (simp add: door_page_0_def onC3ConnectClicked_def new_page with_c3_def updateC3Labels_def c3_ready_def c3_isReady_def
      c3_onSocketConnected_def c3_connectToHost_def newC3Connection_def newConnectionState_def recording_def log_ops_def c3_connectHandler_def callConnect_def cs_op_defs cs_helper_defs Let_def)

text \<open>The slots of the page do not end the session and start no control command.\<close>

definition ready_idle :: "(log_socket \<times> bytes list) c3_world \<Rightarrow> bool" where
  "ready_idle w \<longleftrightarrow> c3_isReady rec_ops w \<and> \<not> controlPending w"

lemma log_socket_stays_up [simp]: "sock_isConnected rec_ops (sock_write rec_ops b sk) = sock_isConnected rec_ops sk"
  by (simp add: recording_def log_ops_def split: prod.split)

lemma ready_idle_send [simp]: "ready_idle (c3_send rec_ops enc w) = ready_idle w"
  by (simp add: ready_idle_def c3_isReady_def c3_send_def Let_def)

lemma ready_idle_requests:
  "ready_idle (requestDeviceParams rec_ops names w) = ready_idle w" "ready_idle (requestTableData rec_ops name w) = ready_idle w"
  by (simp_all add: requestDeviceParams_def requestTableData_def Let_def ready_idle_def c3_isReady_def c3_send_def)

lemma slot_ready_idle:
  "ready_idle (world (cp_c3 p)) \<Longrightarrow> ready_idle (world (cp_c3 (c3_slot rec_ops cv sig p)))"
  by (cases sig) (simp_all add: updateC3Labels_def refreshC3View_def c3_request_def ready_idle_requests Let_def
      rebuildC3TableForKeyValueMap_def showC3Status_def rebuildC3TableForRecords_def)

lemma with_c3_ready_idle: "ready_idle (world m) \<Longrightarrow> ready_idle (world (cp_c3 (with_c3 rec_ops cv m p)))"
proof -
  have "ready_idle (world (cp_c3 (fold (c3_slot rec_ops cv) sigs q)))" if "ready_idle (world (cp_c3 q))" for sigs q
    using that by (induction sigs arbitrary: q) (simp_all add: slot_ready_idle)
  then show "ready_idle (world m) \<Longrightarrow> ready_idle (world (cp_c3 (with_c3 rec_ops cv m p)))" by (simp add: with_c3_def)
qed

lemma door_session: "\<exists>m. c3_onSocketReadyRead rec_ops (\<lambda>_. 0) (cp_c3 door_page_1) = Some m \<and> ready_idle (world m)"
  by (simp add: door_page_1_def c3_request_def door_page_0_driver c3_onSocketConnected_def c3_connectToHost_def newC3Connection_def
      newConnectionState_def c3_onSocketReadyRead_def c3_handshakeRead_def c3_appendAll_def c3_onStateChanged_def c3_emit_def
      recording_def log_ops_def demo_sock_def demo_reply ready_idle_def c3_isReady_def c3_connectHandler_def callConnect_def
      cs_op_defs cs_helper_defs Let_def)

lemma door_page_2_ready: "ready_idle (world (cp_c3 door_page_2))" "cp_door door_page_2 = 1" "cp_duration door_page_2 = 3"
proof -
  obtain m where m: "c3_onSocketReadyRead rec_ops (\<lambda>_. 0) (cp_c3 door_page_1) = Some m" "ready_idle (world m)"
    using door_session by blast
  then have eq: "door_page_2 = with_c3 rec_ops demo_conv m door_page_1" by (simp add: door_page_2_def)
  show "ready_idle (world (cp_c3 door_page_2))" unfolding eq using m(2) by (rule with_c3_ready_idle)
  have "controls door_page_2 = (1, 3, 0)" by (simp add: eq door_page_1_def door_page_0_def) (simp add: new_page controls_def)
  then show "cp_door door_page_2 = 1" "cp_duration door_page_2 = 3" by (simp_all add: controls_def)
qed

theorem demo_c3_only_timed_unlocks_witness:
  "\<exists>f \<in> set (written (world (cp_c3 door_page))). f ! 2 = kCommandControl
     \<and> ((\<exists>door seconds s i n. 1 \<le> door \<and> door \<le> 4 \<and> 1 \<le> seconds \<and> seconds \<le> 254
           \<and> f = encodeControlRequest Output door (controlOutputAddressValue Door) seconds s i n)
        \<or> (\<exists>s i n. f = encodeControlRequest CancelAlarm 0 0 0 s i n))"
proof -
  let ?w = "world (cp_c3 door_page_2)"
  let ?f = "encodeControlRequest Output 1 (controlOutputAddressValue Door) 3 (\<not> sessionLess ?w) (c3_sessionId ?w) (requestNr ?w)"
  have r: "c3_isReady rec_ops ?w" "\<not> controlPending ?w" using door_page_2_ready(1) by (simp_all add: ready_idle_def)
  have f: "?f \<in> set (written (world (cp_c3 door_page)))"
    using r door_page_2_ready(2,3)
    by (simp add: door_page_def doorOpenClicked_def c3_ready_def c3_request_def controlDoorOutput_def sendControlRequest_def
        c3_send_def written_def Let_def)
  have c: "?f ! 2 = kCommandControl" by (simp add: encodeControlRequest_def encodeFrame_command)
  show ?thesis using f c demo_c3_only_timed_unlocks [OF door_page_reachable f c] by blast
qed

end
