(* ===== verification/Spec2Isabelle.thy ===== *)
theory Spec2Isabelle
  imports Modbus_Connection C3_Connection Protocol_Driver Mq_Service Mq_Store Mq_Settings_Dialog Mq_Tab Mq_Tab_Deliveries
    App_Settings App_Update Platform_Info Platform_System Ui_Style Worker_Queue App_Log Single_Instance
    Sqlite_Varint Sqlite_Bitvec Sqlite_Like Sqlite_Hash Sqlite_Hash_Map Sqlite_Rowset Sqlite_Atoi
    Demo_Modbus Demo_Modbus_Safe Demo_C3 Demo_C3_Safe
begin

text \<open>
  Verification of qt-app-base, the common base of a family of desktop applications that talk to
  field devices and a message broker: a connection state machine, three protocol drivers on top of
  it, a message service with a store and the tab that shows its messages, and the infrastructure around them (settings, updates, a worker thread,
  the platform, styles), with a vendored copy of SQLite.

  \<^bold>\<open>The parts and how they interact.\<close> ConnectionState (src/core/connection\_state) decides when to
  connect, when to retry and when a connection is lost; a protocol driver gives it three callables
  (connect, probe, disconnect) and reports the outcome of asynchronous attempts. The Modbus driver, the C3 panel
  driver and the AMQP driver (src/features/modbus, c3protocol, mq) own a TCP socket, cut the byte stream into
  frames with their codec, and answer each request with a signal or a timeout. MqService builds on
  the AMQP driver and acknowledges a delivery when the store has it; MqStore keeps messages in SQLite. MqTab joins the
  two: a received message is inserted by a job on the tab's worker thread, and the callback of that job confirms the delivery.

  \<^bold>\<open>Theories.\<close>
  \<^item> Prelude: machine integers, checked array reads, and the five interfaces of the library as
    locales: invariant\_machine (a step function with an invariant), guarded\_machine (one whose invariant needs a condition on the events), prefix\_code (an encoding that
    can be decoded from the front of a longer array), stream\_decoder (a decoder whose answer does not
    depend on how the stream was chunked), simulation (a partial machine that implements an abstract one). Every one of them, and the locales cs\_invariant (a property that every operation of a
    connection state keeps), protocol\_driver and
    hash\_memory of the theories below, is interpreted on the model's own definitions.
  \<^item> Connection\_State: src/core/connection\_state.\{h,cpp\}. The object is a record over an abstract
    world; its callables and slots act on that world, and a connect callable may report a failure from within. Invariant of the reconnect loop for
    runs in which setHandlers is not called alone during an attempt (and the stalled loop otherwise), alternation
    of the signals, the ladder of delays for failures at once and later, finality of disconnectNow.
  \<^item> Tcp\_Socket: the operations of the socket that the drivers call, as a record of functions (connecting says whether the
    socket has signalled an error from within), with a logging socket for the witnesses.
  \<^item> Modbus\_Codec and Modbus\_Connection: src/features/modbus. Exactness of every decoder (Ok if and
    only if the bytes are the frame of the wire format), totality, well-formed requests; the
    driver answers every request or announces the loss of the connection, whatever the chunking, unless a negative
    timeout has been set or the owner connects again.
  \<^item> C3\_Codec and C3\_Connection: src/features/c3protocol. The frame decoder accepts exactly the
    frames, detection of corrupted bytes by the CRC, totality of the payload parsers, the parsed rows
    of a table reply; every query (the handshake is not one) ends and the big-data transfer reassembles the payload.
  \<^item> Mq\_Codec, Mq\_Connection, Mq\_Service: src/features/mq. The envelope; the AMQP driver never gives up as long as no attempt is refused from within
    connectToHost (and gives up when one is), the chunking of
    the stream is immaterial; no acknowledgement without a receipt of its own, deferred
    acknowledgements are made up for.
  \<^item> Protocol\_Driver: src/core/protocol/protocol\_driver.h as a locale; a shell that follows the signal that the Modbus or the
    broker connection itself sends shows what isReady answers. The C3 connection breaks this law.
  \<^item> Mq\_Settings\_Dialog: src/features/mq/mq\_settings\_dialog. A connection test ends and leaves nothing behind, saving what was
    loaded changes nothing, and a port out of range wraps.
  \<^item> Mq\_Tab and Mq\_Tab\_Deliveries: src/features/mq/mq\_tab, the composition of service, store, worker and
    settings. In every interleaving an acknowledgement has an insertion of its own; a delivery goes all the way to the
    table; the table is bounded; what a reload shows; and the runs in which an own message counts as a duplicate and in which a
    stale tag acknowledges a message that is not stored.
  \<^item> Mq\_Store: src/features/mq/mq\_store, src/infra/db/statement.h, database. The SQL texts and
    their parameters agree; a stored message is read back unchanged, where what an INSERT stores is the specification of SQL.
  \<^item> Qt\_Strings, App\_Settings, Platform\_Info, App\_Update: src/infra. String functions; the secret is removed from a description; versions are ordered
    lexicographically; only a verified file is installed when downloads do not overlap (and nothing else
    writes to the downloaded file).
  \<^item> Platform\_System: platform\_unix.cpp and platform\_win.cpp in src/infra/platform. Installing an update is atomic, the resource and system reports, the crash handlers.
  \<^item> Ui\_Style: src/ui. The theme is kept over a restart and a failure to load it is logged; the hint of an empty table is accurate.
  \<^item> App\_Log, Single\_Instance: src/infra/log and src/infra/singleinstance. One line per message; one
    primary when the processes start one after the other, and the race when they do not.
  \<^item> Worker\_Queue: src/core/async/worker. The interleaving of the callers' thread and the worker threads over the framework's event loops as
    a parameter; the use of a destroyed object is undefined behaviour and has no outcome. Every job that is given runs once and in order and is answered by its callback;
    without the race on the guard every run is defined and there is no callback after the context is destroyed; the race.
  \<^item> Sqlite\_Varint: the integer coding of util.c in src/infra/db/sqlite3.c, at machine width: the unrolled reader computes
    the definition of the format, writing and reading are inverse.
  \<^item> Sqlite\_Bitvec: bitvec.c, the set of page numbers with its three representations; it refines a set,
    for every sequence of operations and every pattern of failing allocations.
  \<^item> Sqlite\_Hash and Sqlite\_Hash\_Map: hash.c, the doubly linked elements on an explicit heap with their buckets; the table refines
    a map from names without letter case, uses no dangling pointer and leaks no element, whichever allocations fail in each call (the bucket array is a value of the table,
    not a cell of the heap).
  \<^item> Sqlite\_Rowset: rowset.c, the row ids of a query: insertion and test keep the contract of the batches, reading sorts and removes duplicates, the trees
    are balanced.
  \<^item> Sqlite\_Atoi: sqlite3Atoi64 and sqlite3Int64ToText of util.c: on UTF-8 the reader computes its specification although its
    accumulator wraps, for every encoding it stays inside the text, and it reads back what the printer writes.
  \<^item> Sqlite\_Like: patternCompare of func.c with the UTF-8 reader; LIKE decides its definition. The last
    section below joins it to the text search of MqStore.

  \<^item> Demo\_Modbus and Demo\_Modbus\_Safe: the Modbus page of the example window in demo/demowindow, on the Modbus driver. No missing table item is used
    unless the function is changed while a register read is pending, what the table shows, what the write dialog sends.
  \<^item> Demo\_C3 and Demo\_C3\_Safe: the sidebar and the C3 page, on the C3 driver. The only control commands it ever sends are timed unlocks
    and the cancellation of alarms, the sidebar is never stuck, the log shows the newest events; and the run in which two replies are taken for each other's.

  \<^bold>\<open>How code became definitions.\<close> A class is a record of its members plus the list of signals it has emitted; a method is a
  function from state to state; an exception, an undefined read, the use of a dead object or a loop that does not return is a value of a sum or an option type.
  Timers are armed intervals, and their expiry is an event; a request timer with a negative interval is not armed. Integers keep their width where overflow matters.
  What is outside the repository is a parameter: the socket, the AMQP library, the framework's JSON,
  number and date functions, the file system, the hash function, the event loops of the threads, the SQL engine as MqStore uses it. Slots of connectionStateChanged do not
  call back into the object that sends the signal; the error signal of a socket may come from within connectToHost. Strings are lists of characters of Latin-1.

  \<^bold>\<open>Termination.\<close> No definition uses fuel: a loop is a structural recursion or a function with a measure,
  and the loops whose progress depends on the data (parseRecords of the C3 codec; the probes and the recursion of the Bitvec; the loops over the linked elements of the hash table) are
  partial functions into option, shown to return. Where the source
  relies on progress of a foreign function (the read loop of the AMQP driver), the model stops when no byte is consumed, as the source does,
  and the length of the buffer is the measure.

  \<^bold>\<open>Not modelled.\<close> The start-up sequence and the remaining dialogs of the example window (demo), the test programs, which only call the operations
  on fixed inputs, the layout of the widgets, and, of the
  vendored SQLite, everything but the parts named above: the SQL compiler, the virtual machine, the pager and B-tree and the
  operating system layer stand behind the parameter of MqStore.
\<close>

section \<open>The text search of the message store\<close>

text \<open>
  MqStore::search binds the search text between two percent signs to a LIKE condition. A text of
  ASCII characters is passed to SQLite as its codes and a terminating zero.
\<close>

definition c_string :: "string \<Rightarrow> bytes" where
  "c_string t = map (\<lambda>c. of_nat (of_char c)) t @ [0]"

definition code_of :: "char \<Rightarrow> u32" where
  "code_of c = of_nat (of_char c)"

definition ascii_text :: "string \<Rightarrow> bool" where
  "ascii_text t = list_all (\<lambda>c. 0 < (of_char c :: nat) \<and> (of_char c :: nat) < 128) t"

lemma unat_code_of: "unat (code_of c) = of_char c"
proof -
  have "of_char c < (4294967296 :: nat)" by (rule less_trans [of _ 256]) simp_all
  then have "of_char c mod 4294967296 = (of_char c :: nat)" by (rule mod_less)
  then show ?thesis by (simp add: code_of_def unat_of_nat)
qed

lemma code_of_inj: "code_of a = code_of b \<longleftrightarrow> a = b"
  using unat_code_of [of a] unat_code_of [of b] by (metis char_of_char)

lemma chars_c_string: "ascii_text t \<Longrightarrow> chars (c_string t) = map code_of t"
proof (induction t)
  case Nil
  then show ?case by (simp add: c_string_def chars_end)
next
  case (Cons c t)
  let ?b = "of_nat (of_char c) :: u8"
  have n: "0 < (of_char c :: nat)" "(of_char c :: nat) < 128" using Cons.prems by (simp_all add: ascii_text_def)
  then have u: "unat ?b = of_char c" by (simp add: unat_of_nat)
  then have "?b \<noteq> 0" "?b < 0x80" using n by (auto simp: word_less_nat_alt)
  then have "chars (c_string (c # t)) = ucast ?b # chars (c_string t)" by (simp add: c_string_def chars_ascii)
  moreover have "(ucast ?b :: u32) = code_of c"
    using u unat_code_of [of c] by (intro unsigned_word_eqI [where 'a = nat]) simp
  ultimately show ?case using Cons by (simp add: ascii_text_def)
qed

lemma lower_code: "ascii_lower (code_of c) = code_of (lower_char c)"
proof (rule unsigned_word_eqI [where 'a = nat])
  have "(of_char c :: nat) < 256" by simp
  then show "unat (ascii_lower (code_of c)) = unat (code_of (lower_char c))"
    by (simp add: unat_ascii_lower unat_code_of lower_char_def Let_def)
qed

lemma same_text_codes: "map ascii_lower (map code_of a) = map ascii_lower (map code_of b) \<longleftrightarrow> same_text a b"
proof -
  have "map ascii_lower (map code_of x) = map code_of (map lower_char x)" for x by (simp add: lower_code)
  moreover have "map code_of x = map code_of y \<longleftrightarrow> x = y" for x y
    using code_of_inj by (metis inj_def inj_map_eq_map)
  ultimately show ?thesis by (simp only: same_text_def)
qed

text \<open>
  C26. The text filter of MqStore::search finds exactly the rows that contain the search text,
  without regard to the case of the letters: for a non-empty ASCII text without percent sign and underscore and a row of ASCII text, the value that the
  search binds to the LIKE parameter matches the text of the row if and only if the search text occurs in it.
\<close>

theorem store_search_finds_substring:
  assumes "ascii_text searchText" and "ascii_text row" and "searchText \<noteq> []"
    and "CHR ''%'' \<notin> set searchText" and "CHR ''_'' \<notin> set searchText"
  shows "\<exists>k v. last (st_bindings (searchBindings qt type from to searchText st)) = (k, VText v)
       \<and> (sqlite3_strlike (Some (c_string v)) (Some (c_string row)) 0 = Some 0
            \<longleftrightarrow> (\<exists>a b c. row = a @ b @ c \<and> same_text b searchText))"
proof -
  let ?v = "''%'' @ searchText @ ''%''"
  have v: "ascii_text ?v" using assms(1) by (simp add: ascii_text_def)
  have "CHR 0x00 \<notin> set ?v"
    using v by (auto simp: ascii_text_def list_all_iff)
  then have "takeWhile (\<lambda>c. c \<noteq> CHR 0x00) ?v = ?v" by (auto simp: takeWhile_eq_all_conv)
  then have bound: "\<exists>k. last (st_bindings (searchBindings qt type from to searchText st)) = (k, VText ?v)"
    using assms(3) by (simp add: searchBindings_def bindNext_def bindText_def)
  have zt: "terminated (c_string x)" for x by (simp add: terminated_def c_string_def)
  have codes: "code_of CHR ''%'' = 37" "code_of CHR ''_'' = 95" by (simp_all add: code_of_def)
  have pat: "chars (c_string ?v) = 37 # map code_of searchText @ [37]" using chars_c_string [OF v] codes by simp
  have "37 \<notin> set (map code_of searchText)" "95 \<notin> set (map code_of searchText)"
    using assms(4,5) codes code_of_inj by (metis imageE list.set_map)+
  then have "like (chars (c_string ?v)) (chars (c_string row)) \<longleftrightarrow>
      (\<exists>u w z. map code_of row = u @ w @ z \<and> map ascii_lower w = map ascii_lower (map code_of searchText))"
    unfolding pat chars_c_string [OF assms(2)] by (rule like_contains)
  also have "\<dots> \<longleftrightarrow> (\<exists>a b c. row = a @ b @ c \<and> same_text b searchText)"
  proof
    assume "\<exists>u w z. map code_of row = u @ w @ z \<and> map ascii_lower w = map ascii_lower (map code_of searchText)"
    then obtain u w z where w: "map code_of row = u @ w @ z" "map ascii_lower w = map ascii_lower (map code_of searchText)" by blast
    then obtain a b c where "row = a @ b @ c" "w = map code_of b" 
      by (auto simp: map_eq_append_conv append_eq_map_conv)
    then show "\<exists>a b c. row = a @ b @ c \<and> same_text b searchText" using w(2) same_text_codes by blast
  next
    assume "\<exists>a b c. row = a @ b @ c \<and> same_text b searchText"
    then obtain a b c where "row = a @ b @ c" "same_text b searchText" by blast
    then show "\<exists>u w z. map code_of row = u @ w @ z \<and> map ascii_lower w = map ascii_lower (map code_of searchText)"
      using same_text_codes by (metis map_append)
  qed
  finally have "sqlite3_strlike (Some (c_string ?v)) (Some (c_string row)) 0 = Some 0
      \<longleftrightarrow> (\<exists>a b c. row = a @ b @ c \<and> same_text b searchText)"
    by (simp only: strlike_iff [OF zt zt])
  then show ?thesis using bound by blast
qed

theorem store_search_finds_substring_witness:
  "\<exists>k v. last (st_bindings (searchBindings (undefined :: unit store_ops) [] None None ''Card'' \<lparr>st_sql = [], st_bindings = []\<rparr>)) = (k, VText v)
     \<and> (sqlite3_strlike (Some (c_string v)) (Some (c_string ''my card 7'')) 0 = Some 0
          \<longleftrightarrow> (\<exists>a b c. ''my card 7'' = a @ b @ c \<and> same_text b ''Card''))"
  by (rule store_search_finds_substring) (simp_all add: ascii_text_def)

text \<open>
  A percent sign in the search text is not escaped, so it acts as a wildcard: a search for 5\%0 finds the text 57 of 60, in
  which it does not occur.
\<close>

theorem store_search_wildcard_not_escaped:
  "sqlite3_strlike (Some (c_string ''%5%0%'')) (Some (c_string ''57 of 60'')) 0 = Some 0"
proof -
  have a: "ascii_text ''%5%0%''" "ascii_text ''57 of 60''" by (simp_all add: ascii_text_def)
  have zt: "terminated (c_string x)" for x by (simp add: terminated_def c_string_def)
  have "like [37, 53, 37, 48, 37] [53, 55, 32, 111, 102, 32, 54, 48]" by code_simp
  then have "like (chars (c_string ''%5%0%'')) (chars (c_string ''57 of 60''))"
    by (simp add: chars_c_string a code_of_def)
  then show ?thesis by (simp only: strlike_iff [OF zt zt])
qed

end
